(* ===== verification/Prelude.thy ===== *)
theory Prelude
  imports Main "HOL-Library.Word" "HOL-Library.Monad_Syntax"
begin

unbundle bit_operations_syntax

text \<open>
  Shared vocabulary of the development: the machine integers of the C code, the
  little-endian view of a 32-bit word as four bytes (how the RV32 core stores a
  \<open>uint32_t\<close>), reading and writing byte-addressed memory, and the generic lemmas on
  words, lists and options that the component theories use.

  Two collections are filled along the way: \<open>step_simps\<close> (equations that execute one
  step of a model) and \<open>frame_simps\<close> (fields an operation leaves alone).
\<close>

section \<open>Types\<close>

type_synonym u8 = "8 word"
type_synonym u16 = "16 word"
type_synonym u32 = "32 word"
type_synonym u64 = "64 word"

named_theorems step_simps "equations that execute one step of a model"
named_theorems frame_simps "what an operation leaves unchanged"

section \<open>Strings\<close>

text \<open>The bytes of a C string literal, without its terminating zero.\<close>

definition str_bytes :: "string \<Rightarrow> u8 list" where
  "str_bytes cs = map of_char cs"

section \<open>Little-endian bytes of a word\<close>

definition byte_of :: "u32 \<Rightarrow> nat \<Rightarrow> u8" where
  "byte_of w i = ucast (drop_bit (8 * i) w)"

definition word_bytes :: "u32 \<Rightarrow> u8 list" where
  "word_bytes w = [byte_of w 0, byte_of w 1, byte_of w 2, byte_of w 3]"

definition words_bytes :: "u32 list \<Rightarrow> u8 list" where
  "words_bytes ws = concat (map word_bytes ws)"

definition bytes_word :: "u8 \<Rightarrow> u8 \<Rightarrow> u8 \<Rightarrow> u8 \<Rightarrow> u32" where
  "bytes_word b0 b1 b2 b3 =
     ucast b0 OR push_bit 8 (ucast b1) OR push_bit 16 (ucast b2) OR push_bit 24 (ucast b3)"

lemma length_word_bytes [simp]: "length (word_bytes w) = 4"
  by (simp add: word_bytes_def)

lemma bit_byte_of: "bit (byte_of w i) n \<longleftrightarrow> n < 8 \<and> bit w (8 * i + n)"
  by (simp add: byte_of_def bit_ucast_iff bit_drop_bit_eq)

lemma bit_u8_less: "bit (b :: u8) k \<Longrightarrow> k < 8"
  using bit_imp_le_length [of b k] by simp

lemma bit_bytes_word:
  "bit (bytes_word b0 b1 b2 b3) n \<longleftrightarrow>
     (if n < 8 then bit b0 n else if n < 16 then bit b1 (n - 8)
      else if n < 24 then bit b2 (n - 16) else n < 32 \<and> bit b3 (n - 24))"
  by (auto simp: bytes_word_def bit_or_iff bit_push_bit_iff bit_ucast_iff dest: bit_u8_less)

lemma byte_of_bytes_word [simp]:
  "byte_of (bytes_word b0 b1 b2 b3) 0 = b0"
  "byte_of (bytes_word b0 b1 b2 b3) (Suc 0) = b1"
  "byte_of (bytes_word b0 b1 b2 b3) 2 = b2"
  "byte_of (bytes_word b0 b1 b2 b3) 3 = b3"
  by (rule bit_word_eqI, simp add: bit_byte_of bit_bytes_word)+

lemma byte_of_bytes_word_1 [simp]: "byte_of (bytes_word b0 b1 b2 b3) 1 = b1"
  using byte_of_bytes_word(2) by simp

lemma bytes_word_byte_of [simp]:
  "bytes_word (byte_of w 0) (byte_of w (Suc 0)) (byte_of w 2) (byte_of w 3) = w"
  by (rule bit_word_eqI) (auto simp: bit_byte_of bit_bytes_word)

lemma word_bytes_bytes_word [simp]: "word_bytes (bytes_word b0 b1 b2 b3) = [b0, b1, b2, b3]"
  by (simp add: word_bytes_def)

lemma word_bytes_inject: "word_bytes v = word_bytes w \<longleftrightarrow> v = w"
proof
  assume "word_bytes v = word_bytes w"
  then have "bytes_word (byte_of v 0) (byte_of v 1) (byte_of v 2) (byte_of v 3) =
      bytes_word (byte_of w 0) (byte_of w 1) (byte_of w 2) (byte_of w 3)"
    by (simp add: word_bytes_def)
  then show "v = w" by simp
qed simp

lemma bytes_word_inject:
  "bytes_word a0 a1 a2 a3 = bytes_word b0 b1 b2 b3 \<longleftrightarrow> a0 = b0 \<and> a1 = b1 \<and> a2 = b2 \<and> a3 = b3"
proof
  assume "bytes_word a0 a1 a2 a3 = bytes_word b0 b1 b2 b3"
  then have "word_bytes (bytes_word a0 a1 a2 a3) = word_bytes (bytes_word b0 b1 b2 b3)"
    by (rule arg_cong)
  then show "a0 = b0 \<and> a1 = b1 \<and> a2 = b2 \<and> a3 = b3" by simp
qed simp

lemma xor_right_cancel_word [simp]: "a XOR w = b XOR w \<longleftrightarrow> a = b" for a b w :: "'a::len word"
proof
  assume "a XOR w = b XOR w"
  then have "(a XOR w) XOR w = (b XOR w) XOR w" by (rule arg_cong)
  then show "a = b" by (simp only: xor.assoc xor_self_eq xor.right_neutral)
qed simp

lemma xor_left_cancel_word [simp]: "w XOR a = w XOR b \<longleftrightarrow> a = b" for a b w :: "'a::len word"
  by (simp only: xor.commute [of w] xor_right_cancel_word)

lemma xor_eq_0_iff_word: "a XOR b = 0 \<longleftrightarrow> a = b" for a b :: "'a::len word"
  using xor_right_cancel_word [of a b b] by simp

lemma mask8_u32: "(0xFF :: u32) = mask 8"
  by (simp add: mask_eq_exp_minus_1)

lemma ucast_low_byte: "ucast (ucast (w AND 0xFF) :: u8) = (w AND 0xFF :: u32)"
  unfolding mask8_u32 by (rule bit_word_eqI) (auto simp: bit_simps dest: bit_u8_less)

lemma unat_ucast_u8 [simp]: "unat (ucast (b :: u8) :: u32) = unat b"
  by (simp add: unsigned_ucast_eq take_bit_nat_eq_self_iff order_less_trans [OF unsigned_less])

lemma unat_ucast_u16 [simp]: "unat (ucast (h :: u16) :: u32) = unat h"
  by (simp add: unsigned_ucast_eq take_bit_nat_eq_self_iff order_less_trans [OF unsigned_less])

lemma unat_low_byte: "unat (ucast (w AND 0xFF :: u32) :: u8) = unat (w AND 0xFF)"
  using arg_cong [OF ucast_low_byte [of w], of unat] by (simp only: unat_ucast_u8)

lemma unat_u8_less [simp]: "unat (b :: u8) < 256"
  using unsigned_less [of b] by simp

section \<open>Byte-addressed memory\<close>

text \<open>
  The 32-bit address space as a map from addresses to bytes. Addresses wrap around, as
  pointer arithmetic on the core does. \<open>read_32\<close> and \<open>write_32\<close> are the little-endian
  word accesses.
\<close>

type_synonym mem = "u32 \<Rightarrow> u8"

definition read_32 :: "mem \<Rightarrow> u32 \<Rightarrow> u32" where
  "read_32 m a = bytes_word (m a) (m (a + 1)) (m (a + 2)) (m (a + 3))"

definition write_32 :: "u32 \<Rightarrow> u32 \<Rightarrow> mem \<Rightarrow> mem" where
  "write_32 w a m =
     m(a := byte_of w 0, a + 1 := byte_of w 1, a + 2 := byte_of w 2, a + 3 := byte_of w 3)"

definition mem_bytes :: "mem \<Rightarrow> u32 \<Rightarrow> nat \<Rightarrow> u8 list" where
  "mem_bytes m a n = map (\<lambda>i. m (a + of_nat i)) [0..<n]"

text \<open>Storing a list of bytes from an address on.\<close>

fun store_bytes :: "u32 \<Rightarrow> u8 list \<Rightarrow> mem \<Rightarrow> mem" where
  "store_bytes a [] m = m"
| "store_bytes a (b # bs) m = store_bytes (a + 1) bs (m(a := b))"

lemma length_mem_bytes [simp]: "length (mem_bytes m a n) = n"
  by (simp add: mem_bytes_def)

lemma nth_mem_bytes [simp]: "i < n \<Longrightarrow> mem_bytes m a n ! i = m (a + of_nat i)"
  by (simp add: mem_bytes_def)

lemma mem_bytes_0 [simp]: "mem_bytes m a 0 = []"
  by (simp add: mem_bytes_def)

lemma mem_bytes_Suc: "mem_bytes m a (Suc n) = m a # mem_bytes m (a + 1) n"
  by (rule nth_equalityI) (auto simp: nth_Cons add.assoc split: nat.splits)

lemma mem_bytes_add: "mem_bytes m a (k + n) = mem_bytes m a k @ mem_bytes m (a + of_nat k) n"
  by (rule nth_equalityI) (auto simp: nth_append algebra_simps)

lemma mem_bytes_4: "mem_bytes m a 4 = word_bytes (read_32 m a)"
  by (simp add: mem_bytes_def read_32_def word_bytes_def upt_rec)

lemma mem_bytes_split4:
  "4 \<le> n \<Longrightarrow> mem_bytes m a n = word_bytes (read_32 m a) @ mem_bytes m (a + 4) (n - 4)"
  using mem_bytes_add [of m a 4 "n - 4"] by (simp add: mem_bytes_4)

lemma write_32_store: "write_32 w a m = store_bytes a (word_bytes w) m"
  by (simp add: write_32_def word_bytes_def add.assoc)

lemma store_bytes_append:
  "store_bytes a (xs @ ys) m = store_bytes (a + of_nat (length xs)) ys (store_bytes a xs m)"
  by (induction xs arbitrary: a m) (simp_all add: algebra_simps)

lemma unat_of_nat_u32 [simp]: "i < 2 ^ 32 \<Longrightarrow> unat (of_nat i :: u32) = i"
  by (simp add: unat_of_nat)

text \<open>
  What a store of at most the whole address space leaves at an address: the byte stored
  there when the address lies in the range, the old byte otherwise. The range is described
  by the wrapped distance from its start.
\<close>

lemma store_bytes_apply:
  assumes "length bs \<le> 2 ^ 32"
  shows "store_bytes p bs m a =
    (if unat (a - p) < length bs then bs ! unat (a - p) else m a)"
  using assms
proof (induction bs arbitrary: p m)
  case Nil
  then show ?case by simp
next
  case (Cons b bs)
  have IH: "store_bytes (p + 1) bs (m(p := b)) a =
      (if unat (a - (p + 1)) < length bs then bs ! unat (a - (p + 1)) else (m(p := b)) a)"
    using Cons by simp
  show ?case
  proof (cases "a = p")
    case True
    have "unat (p - (p + 1)) = 2 ^ 32 - 1"
      by (simp add: unsigned_minus_1_eq_mask mask_eq_exp_minus_1)
    with True IH Cons.prems show ?thesis by simp
  next
    case False
    then have ne: "a - p \<noteq> 0" by simp
    have "a - (p + 1) = (a - p) - 1" by simp
    with unat_minus_one [OF ne] have "unat (a - (p + 1)) = unat (a - p) - 1"
      by (simp only: One_nat_def)
    moreover from ne have "unat (a - p) \<noteq> 0" by (simp only: unat_0_iff not_False_eq_True)
    ultimately have "unat (a - p) = Suc (unat (a - (p + 1)))" by simp
    with False IH show ?thesis by simp
  qed
qed

lemma mem_bytes_store_same:
  assumes "length bs \<le> 2 ^ 32"
  shows "mem_bytes (store_bytes p bs m) p (length bs) = bs"
proof (rule nth_equalityI)
  fix i assume "i < length (mem_bytes (store_bytes p bs m) p (length bs))"
  then have i: "i < length bs" by simp
  with i assms show "mem_bytes (store_bytes p bs m) p (length bs) ! i = bs ! i"
    by (simp add: store_bytes_apply)
qed simp

end
