(* ===== verification/Crc32.thy ===== *)
theory Crc32
  imports Prelude
begin

unbundle bit_operations_syntax

text \<open>
  CRC-32 of the boot image, as \<open>sw/bootloader.c\<close> computes it (table built at run time by
  \<open>crc32_init_table\<close>), and as \<open>sw/device/lib/base/crc32.c\<close> computes it (bit by bit, whole
  words on the aligned part of the buffer). The bit-serial \<open>crc_reference\<close> is the common
  specification, and an error confined to four consecutive bytes is always detected.
\<close>

section \<open>The routines of bootloader.c\<close>

definition crc_poly :: u32 where
  "crc_poly = 0xEDB88320"

text \<open>The body of the inner loop of \<open>crc32_init_table\<close>: one bit.\<close>

definition crc_bit_step :: "u32 \<Rightarrow> u32" where
  "crc_bit_step crc =
     (if crc AND 1 \<noteq> 0 then drop_bit 1 crc XOR crc_poly else drop_bit 1 crc)"

fun crc_bit_loop :: "nat \<Rightarrow> u32 \<Rightarrow> u32" where
  "crc_bit_loop 0 crc = crc"
| "crc_bit_loop (Suc n) crc = crc_bit_loop n (crc_bit_step crc)"

text \<open>The static table and its ready flag are the two variables of the C file.\<close>

record crc_vars =
  crc32_table :: "u32 list"
  crc32_table_ready :: int

definition crc_vars_init :: crc_vars where
  "crc_vars_init = \<lparr>crc32_table = replicate 256 0, crc32_table_ready = 0\<rparr>"

definition crc32_init_table :: "crc_vars \<Rightarrow> crc_vars" where
  "crc32_init_table v =
     v\<lparr>crc32_table :=
         fold (\<lambda>i t. t[i := crc_bit_loop 8 (of_nat i)]) [0..<256] (crc32_table v),
       crc32_table_ready := 1\<rparr>"

fun crc_table_loop :: "u32 list \<Rightarrow> u32 \<Rightarrow> u8 list \<Rightarrow> u32" where
  "crc_table_loop tbl crc [] = crc"
| "crc_table_loop tbl crc (b # bs) =
     crc_table_loop tbl
       (drop_bit 8 crc XOR tbl ! unat (ucast ((crc XOR ucast b) AND 0xFF) :: u8)) bs"

text \<open>\<open>crc32_compute\<close>: the bytes \<open>data[0..<len]\<close> are the argument list.\<close>

definition crc32_compute :: "crc_vars \<Rightarrow> u8 list \<Rightarrow> u32 \<times> crc_vars" where
  "crc32_compute v data =
     (let v' = (if crc32_table_ready v = 0 then crc32_init_table v else v)
      in (crc_table_loop (crc32_table v') 0xFFFFFFFF data XOR 0xFFFFFFFF, v'))"

section \<open>The bit-serial reference\<close>

definition crc_byte :: "u32 \<Rightarrow> u8 \<Rightarrow> u32" where
  "crc_byte crc b = crc_bit_loop 8 (crc XOR ucast b)"

fun crc_bytes :: "u32 \<Rightarrow> u8 list \<Rightarrow> u32" where
  "crc_bytes crc [] = crc"
| "crc_bytes crc (b # bs) = crc_bytes (crc_byte crc b) bs"

definition crc_reference :: "u8 list \<Rightarrow> u32" where
  "crc_reference data = crc_bytes 0xFFFFFFFF data XOR 0xFFFFFFFF"

lemma crc_bytes_append: "crc_bytes c (xs @ ys) = crc_bytes (crc_bytes c xs) ys"
  by (induction xs arbitrary: c) simp_all

subsection \<open>The bit step is linear and injective\<close>

lemma word_AND_1_bit: "(c AND 1 \<noteq> 0) = bit c 0" for c :: u32
  by (simp add: and_one_eq bit_0 odd_iff_mod_2_eq_one)

lemma crc_bit_step_xor: "crc_bit_step (a XOR b) = crc_bit_step a XOR crc_bit_step b"
  unfolding crc_bit_step_def word_AND_1_bit
  using bit_imp_le_length [of a 32] bit_imp_le_length [of b 32]
  by (intro bit_word_eqI) (auto simp: bit_xor_iff bit_drop_bit_eq)

lemma crc_bit_loop_xor: "crc_bit_loop n (a XOR b) = crc_bit_loop n a XOR crc_bit_loop n b"
  by (induction n arbitrary: a b) (simp_all add: crc_bit_step_xor)

lemma crc_bit_step_eq_0: "crc_bit_step c = 0 \<Longrightarrow> c = 0"
proof (cases "bit c 0")
  case True
  have "\<not> bit (drop_bit 1 c) 31" 
    using bit_imp_le_length [of c 32] by (auto simp: bit_drop_bit_eq)
  moreover have "bit crc_poly 31" by (simp add: crc_poly_def)
  ultimately have "bit (drop_bit 1 c XOR crc_poly) 31" by (simp add: bit_xor_iff)
  moreover assume "crc_bit_step c = 0"
  ultimately show ?thesis using True by (simp add: crc_bit_step_def word_AND_1_bit)
next
  case False
  assume "crc_bit_step c = 0"
  with False have d: "drop_bit 1 c = 0" by (simp add: crc_bit_step_def word_AND_1_bit)
  show ?thesis
  proof (rule bit_word_eqI)
    fix n
    show "bit c n = bit 0 n"
    proof (cases n)
      case 0
      with False show ?thesis by simp
    next
      case (Suc k)
      have "bit (drop_bit 1 c) k = bit c (Suc k)" by (simp add: bit_drop_bit_eq)
      with d Suc show ?thesis by simp
    qed
  qed
qed

lemma crc_bit_loop_eq_0: "crc_bit_loop n c = 0 \<Longrightarrow> c = 0"
  by (induction n arbitrary: c) (auto dest: crc_bit_step_eq_0)

lemma crc_bit_loop_inject [simp]: "crc_bit_loop n a = crc_bit_loop n b \<longleftrightarrow> a = b"
proof
  assume "crc_bit_loop n a = crc_bit_loop n b"
  then have "crc_bit_loop n (a XOR b) = 0" by (simp add: crc_bit_loop_xor)
  then show "a = b" by (auto dest: crc_bit_loop_eq_0 simp: xor_eq_0_iff_word)
qed simp


subsection \<open>Eight bit steps at once\<close>

lemma crc_bit_loop_low_zero:
  "(\<And>k. k < n \<Longrightarrow> \<not> bit c k) \<Longrightarrow> crc_bit_loop n c = drop_bit n c"
proof (induction n arbitrary: c)
  case 0
  then show ?case by simp
next
  case (Suc n)
  from Suc.prems [of 0] have "\<not> bit c 0" by simp
  then have st: "crc_bit_step c = drop_bit 1 c"
    by (simp add: crc_bit_step_def word_AND_1_bit)
  have "crc_bit_loop n (drop_bit 1 c) = drop_bit n (drop_bit 1 c)"
    using Suc.prems by (intro Suc.IH) (auto simp: bit_drop_bit_eq)
  with st show ?case by (simp add: drop_bit_drop_bit)
qed

lemma crc_bit_loop_split:
  "crc_bit_loop 8 c = drop_bit 8 c XOR crc_bit_loop 8 (c AND 0xFF)"
proof -
  let ?hi = "c AND NOT (mask 8)"
  have "c = ?hi XOR (c AND mask 8)"
    by (rule bit_word_eqI) (auto simp: bit_simps)
  then have "crc_bit_loop 8 c = crc_bit_loop 8 ?hi XOR crc_bit_loop 8 (c AND mask 8)"
    by (metis crc_bit_loop_xor)
  moreover have "crc_bit_loop 8 ?hi = drop_bit 8 ?hi"
    by (rule crc_bit_loop_low_zero) (auto simp: bit_simps)
  moreover have "drop_bit 8 ?hi = drop_bit 8 c"
    by (rule bit_word_eqI) (auto simp: bit_simps dest: bit_imp_le_length)
  ultimately show ?thesis by (simp add: mask8_u32)
qed

section \<open>The table-driven routine computes the reference\<close>

definition crc_table :: "u32 list" where
  "crc_table = map (\<lambda>i. crc_bit_loop 8 (of_nat i)) [0..<256]"

lemma fold_table_update:
  "length t = n \<Longrightarrow> k \<le> n \<Longrightarrow>
     fold (\<lambda>i t. t[i := f i]) [0..<k] t = map f [0..<k] @ drop k t"
proof (induction k)
  case 0
  then show ?case by simp
next
  case (Suc k)
  then have "drop k t = t ! k # drop (Suc k) t" by (simp add: Cons_nth_drop_Suc)
  with Suc show ?case by (simp add: list_update_append)
qed

lemma crc32_init_table_table:
  "length (crc32_table v) = 256 \<Longrightarrow> crc32_table (crc32_init_table v) = crc_table"
  by (simp add: crc32_init_table_def crc_table_def fold_table_update)

lemma crc_table_index: "crc_table ! unat (b :: u8) = crc_bit_loop 8 (ucast b)"
proof -
  have "crc_table ! unat b = crc_bit_loop 8 (of_nat (unat b))"
    by (simp add: crc_table_def)
  then show ?thesis by (simp add: unsigned_ucast_eq of_nat_unat)
qed

lemma crc_table_step:
  "drop_bit 8 crc XOR crc_table ! unat (ucast ((crc XOR ucast b) AND 0xFF) :: u8) = crc_byte crc b"
proof -
  let ?c = "crc XOR ucast b :: u32"
  have "ucast (ucast (?c AND 0xFF) :: u8) = ?c AND 0xFF"
    by (rule ucast_low_byte)
  moreover have "drop_bit 8 ?c = drop_bit 8 crc"
    by (rule bit_word_eqI) (auto simp: bit_simps dest: bit_u8_less)
  ultimately show ?thesis
    by (simp add: crc_table_index crc_byte_def crc_bit_loop_split [of ?c])
qed

lemma crc_table_loop_bytes: "crc_table_loop crc_table crc bs = crc_bytes crc bs"
  by (induction bs arbitrary: crc) (simp_all add: crc_table_step)

definition crc_vars_ok :: "crc_vars \<Rightarrow> bool" where
  "crc_vars_ok v \<longleftrightarrow> length (crc32_table v) = 256 \<and>
     (crc32_table_ready v \<noteq> 0 \<longrightarrow> crc32_table v = crc_table)"

lemma crc_vars_ok_init [simp]: "crc_vars_ok crc_vars_init"
  by (simp add: crc_vars_ok_def crc_vars_init_def)

lemma crc_vars_ok_init_table: "crc_vars_ok v \<Longrightarrow> crc_vars_ok (crc32_init_table v)"
proof -
  have "length crc_table = 256" by (simp add: crc_table_def)
  then show "crc_vars_ok v \<Longrightarrow> crc_vars_ok (crc32_init_table v)"
    using crc32_init_table_table [of v] by (auto simp: crc_vars_ok_def)
qed

lemma crc32_compute_correct:
  assumes "crc_vars_ok v"
  shows "fst (crc32_compute v data) = crc_reference data \<and> crc_vars_ok (snd (crc32_compute v data))"
  using assms crc_vars_ok_init_table [OF assms]
  by (auto simp: crc32_compute_def crc_vars_ok_def crc_reference_def crc_table_loop_bytes
      crc32_init_table_table Let_def)


section \<open>Detection of errors confined to four bytes\<close>

lemma crc_bit_loop_add: "crc_bit_loop (m + n) c = crc_bit_loop n (crc_bit_loop m c)"
  by (induction m arbitrary: c) simp_all

lemma crc_byte_after_bits:
  assumes "n \<le> 24"
  shows "crc_byte (crc_bit_loop n c) b = crc_bit_loop (n + 8) (c XOR push_bit n (ucast b))"
proof -
  have "crc_bit_loop n (push_bit n (ucast b)) = drop_bit n (push_bit n (ucast b :: u32))"
    by (rule crc_bit_loop_low_zero) (simp add: bit_push_bit_iff)
  also have "\<dots> = ucast b"
    using assms by (intro bit_word_eqI) (auto simp: bit_simps dest: bit_u8_less)
  finally show ?thesis by (simp add: crc_byte_def crc_bit_loop_add crc_bit_loop_xor)
qed

lemma or_eq_xor_bytes:
  "ucast b0 OR push_bit 8 (ucast b1) OR push_bit 16 (ucast b2) OR push_bit 24 (ucast b3) =
   (ucast b0 XOR (push_bit 8 (ucast b1) XOR (push_bit 16 (ucast b2) XOR push_bit 24 (ucast b3)))
     :: u32)" for b0 b1 b2 b3 :: u8
proof (rule bit_word_eqI)
  fix n
  assume "n < LENGTH(32)"
  show "bit (ucast b0 OR push_bit 8 (ucast b1) OR push_bit 16 (ucast b2) OR push_bit 24 (ucast b3) :: u32) n =
    bit (ucast b0 XOR (push_bit 8 (ucast b1) XOR (push_bit 16 (ucast b2) XOR push_bit 24 (ucast b3))) :: u32) n"
    using bit_u8_less [of b0 n] bit_u8_less [of b1 "n - 8"] bit_u8_less [of b2 "n - 16"]
      bit_u8_less [of b3 "n - 24"]
    by (cases "n < 8"; cases "n < 16"; cases "n < 24") (auto simp: bit_simps)
qed

lemma crc_bytes_four:
  "crc_bytes c [b0, b1, b2, b3] = crc_bit_loop 32 (c XOR bytes_word b0 b1 b2 b3)"
proof -
  have "crc_byte c b0 = crc_bit_loop 8 (c XOR ucast b0)" by (simp add: crc_byte_def)
  then show ?thesis
    by (simp add: crc_byte_after_bits bytes_word_def xor.assoc or_eq_xor_bytes)
qed

lemma crc_bytes_inject_crc: "crc_bytes c bs = crc_bytes c' bs \<longleftrightarrow> c = c'"
  by (induction bs arbitrary: c c') (simp_all add: crc_byte_def)

lemma crc_bytes_inject_four:
  assumes "length xs = 4" "length ys = 4"
  shows "crc_bytes c xs = crc_bytes c ys \<longleftrightarrow> xs = ys"
proof -
  from assms obtain a0 a1 a2 a3 b0 b1 b2 b3
    where "xs = [a0, a1, a2, a3]" "ys = [b0, b1, b2, b3]"
    by (auto simp: numeral_eq_Suc length_Suc_conv)
  then show ?thesis
    by (simp only: crc_bytes_four crc_bit_loop_inject xor_left_cancel_word bytes_word_inject) simp
qed

lemma crc_bytes_inject_short:
  assumes "length xs = length ys" "length xs \<le> 4"
  shows "crc_bytes c xs = crc_bytes c ys \<longleftrightarrow> xs = ys"
proof
  let ?z = "replicate (4 - length xs) 0"
  assume "crc_bytes c xs = crc_bytes c ys"
  then have "crc_bytes c (xs @ ?z) = crc_bytes c (ys @ ?z)" by (simp add: crc_bytes_append)
  moreover have "length (xs @ ?z) = 4" "length (ys @ ?z) = 4" using assms by simp_all
  ultimately have "xs @ ?z = ys @ ?z" using crc_bytes_inject_four by blast
  then show "xs = ys" by simp
qed simp

lemma crc_reference_burst:
  assumes "length xs = length ys" "length xs \<le> 4"
  shows "crc_reference (p @ xs @ q) = crc_reference (p @ ys @ q) \<longleftrightarrow> xs = ys"
  by (simp add: crc_reference_def crc_bytes_append crc_bytes_inject_crc
      crc_bytes_inject_short [OF assms])

section \<open>The routines of lib/base/crc32.c\<close>

text \<open>
  The portable branch (the RV32 branch uses the \<open>crc32.b\<close> and \<open>crc32.w\<close> instructions).
  \<open>crc32_add\<close> walks the buffer at address \<open>p\<close> of memory \<open>m\<close>: single bytes up to the first
  aligned address, whole words, then the remaining bytes. Each loop returns the context, the
  pointer and the remaining length.
\<close>

definition ot_crc_bit :: "u32 \<Rightarrow> u32" where
  "ot_crc_bit ctx =
     (let lsb = ctx AND 1 \<noteq> 0; ctx = drop_bit 1 ctx
      in if lsb then ctx XOR 0xEDB88320 else ctx)"

fun ot_crc_bits :: "nat \<Rightarrow> u32 \<Rightarrow> u32" where
  "ot_crc_bits 0 ctx = ctx"
| "ot_crc_bits (Suc n) ctx = ot_crc_bits n (ot_crc_bit ctx)"

definition crc32_internal_add8 :: "u32 \<Rightarrow> u8 \<Rightarrow> u32" where
  "crc32_internal_add8 ctx b = ot_crc_bits 8 (ctx XOR ucast b)"

definition crc32_internal_add32 :: "u32 \<Rightarrow> u32 \<Rightarrow> u32" where
  "crc32_internal_add32 ctx w = fold (\<lambda>b c. crc32_internal_add8 c b) (word_bytes w) ctx"

definition crc32_init :: u32 where
  "crc32_init = 0xFFFFFFFF"

definition crc32_add8 :: "u32 \<Rightarrow> u8 \<Rightarrow> u32" where
  "crc32_add8 ctx b = crc32_internal_add8 ctx b"

definition crc32_add32 :: "u32 \<Rightarrow> u32 \<Rightarrow> u32" where
  "crc32_add32 ctx w = crc32_internal_add32 ctx w"

fun crc32_add_head :: "mem \<Rightarrow> u32 \<Rightarrow> u32 \<Rightarrow> nat \<Rightarrow> u32 \<times> u32 \<times> nat" where
  "crc32_add_head m st p 0 = (st, p, 0)"
| "crc32_add_head m st p (Suc n) =
     (if p AND 3 \<noteq> 0 then crc32_add_head m (crc32_internal_add8 st (m p)) (p + 1) n
      else (st, p, Suc n))"

fun crc32_add_body :: "mem \<Rightarrow> u32 \<Rightarrow> u32 \<Rightarrow> nat \<Rightarrow> u32 \<times> u32 \<times> nat" where
  "crc32_add_body m st p n =
     (if 4 \<le> n then crc32_add_body m (crc32_internal_add32 st (read_32 m p)) (p + 4) (n - 4)
      else (st, p, n))"

declare crc32_add_body.simps [simp del]

fun crc32_add_tail :: "mem \<Rightarrow> u32 \<Rightarrow> u32 \<Rightarrow> nat \<Rightarrow> u32" where
  "crc32_add_tail m st p 0 = st"
| "crc32_add_tail m st p (Suc n) = crc32_add_tail m (crc32_internal_add8 st (m p)) (p + 1) n"

definition crc32_add :: "mem \<Rightarrow> u32 \<Rightarrow> u32 \<Rightarrow> nat \<Rightarrow> u32" where
  "crc32_add m ctx buf len =
     (case crc32_add_head m ctx buf len of (st, p, n) \<Rightarrow>
        case crc32_add_body m st p n of (st, p, n) \<Rightarrow> crc32_add_tail m st p n)"

definition crc32_finish :: "u32 \<Rightarrow> u32" where
  "crc32_finish ctx = ctx XOR 0xFFFFFFFF"

definition crc32 :: "mem \<Rightarrow> u32 \<Rightarrow> nat \<Rightarrow> u32" where
  "crc32 m buf len = crc32_finish (crc32_add m crc32_init buf len)"

lemma ot_crc_bits_loop: "ot_crc_bits n c = crc_bit_loop n c"
  by (induction n arbitrary: c) (simp_all add: ot_crc_bit_def crc_bit_step_def crc_poly_def Let_def)

lemma crc32_internal_add8_byte: "crc32_internal_add8 c b = crc_byte c b"
  by (simp add: crc32_internal_add8_def crc_byte_def ot_crc_bits_loop)

lemma crc_bytes_fold: "crc_bytes c bs = fold (\<lambda>b c. crc_byte c b) bs c"
  by (induction bs arbitrary: c) simp_all

lemma crc32_internal_add32_bytes: "crc32_internal_add32 c w = crc_bytes c (word_bytes w)"
  by (simp add: crc32_internal_add32_def crc32_internal_add8_byte crc_bytes_fold)

text \<open>Each of the three loops adds to the context exactly the bytes it walks over.\<close>

lemma crc32_add_head_bytes:
  "crc32_add_head m st p n = (st', p', n') \<Longrightarrow>
     crc_bytes st (mem_bytes m p n) = crc_bytes st' (mem_bytes m p' n')"
  by (induction m st p n rule: crc32_add_head.induct)
    (auto simp: mem_bytes_Suc crc32_internal_add8_byte split: if_splits)

lemma crc32_add_body_bytes:
  "crc32_add_body m st p n = (st', p', n') \<Longrightarrow>
     crc_bytes st (mem_bytes m p n) = crc_bytes st' (mem_bytes m p' n')"
proof (induction m st p n rule: crc32_add_body.induct)
  case (1 m st p n)
  show ?case
  proof (cases "4 \<le> n")
    case True
    with "1.prems" have
      "crc32_add_body m (crc32_internal_add32 st (read_32 m p)) (p + 4) (n - 4) = (st', p', n')"
      by (simp add: crc32_add_body.simps [of m st p n])
    with "1.IH" [OF True] True show ?thesis
      by (simp add: mem_bytes_split4 crc_bytes_append crc32_internal_add32_bytes)
  next
    case False
    with "1.prems" show ?thesis by (simp add: crc32_add_body.simps [of m st p n])
  qed
qed

lemma crc32_add_tail_bytes: "crc32_add_tail m st p n = crc_bytes st (mem_bytes m p n)"
  by (induction m st p n rule: crc32_add_tail.induct)
    (simp_all add: mem_bytes_Suc crc32_internal_add8_byte)

lemma crc32_add_bytes: "crc32_add m ctx buf len = crc_bytes ctx (mem_bytes m buf len)"
proof -
  obtain st p n where h: "crc32_add_head m ctx buf len = (st, p, n)"
    using prod_cases3 by blast
  obtain st' p' n' where b: "crc32_add_body m st p n = (st', p', n')"
    using prod_cases3 by blast
  show ?thesis
    using crc32_add_head_bytes [OF h] crc32_add_body_bytes [OF b]
    by (simp add: crc32_add_def h b crc32_add_tail_bytes)
qed

lemma crc32_correct: "crc32 m buf len = crc_reference (mem_bytes m buf len)"
  by (simp add: crc32_def crc32_add_bytes crc32_finish_def crc32_init_def crc_reference_def)

end
