(* ===== verification/Spiflash_Hw.thy ===== *)
theory Spiflash_Hw
  imports Prelude
begin

unbundle bit_operations_syntax

text \<open>
  The behavioural SPI flash \<open>dv/spiflash.v\<close> that the simulation connects to the SPI host, at
  the level of clock edges: one function per \<open>always\<close> block and task, the registers of the
  module as a record. The four \<open>io\<close> lines are the low four bits of a byte. What the module
  only computes for its trace output (\<open>spi_in\<close>, \<open>spi_out\<close>, \<open>spi_io_vld\<close>) is left out.

  The lemmas say what the module does over whole bytes: eight clocks in SPI mode or two in
  quad mode deliver a byte to \<open>spi_action\<close>, eight dummy clocks pass, and two quad clocks
  return a byte of the memory.
\<close>

section \<open>The module\<close>

datatype fl_mode = mode_none | mode_spi | mode_dspi_rd | mode_dspi_wr | mode_qspi_rd
  | mode_qspi_wr | mode_qspi_ddr_rd | mode_qspi_ddr_wr

record spiflash =
  csb :: bool
  fl_buffer :: u8
  bitcount :: nat
  bytecount :: nat
  dummycount :: nat
  spi_cmd :: u8
  xip_cmd :: u8
  spi_addr :: "24 word"
  powered_up :: bool
  fl_mode :: fl_mode
  next_mode :: fl_mode
  io_oe :: u8
  io_dout :: u8
  fl_memory :: "24 word \<Rightarrow> u8"

definition latency :: nat where
  "latency = 8"

text \<open>The parts of the task \<open>spi_action\<close>, in the order of its assignments.\<close>

definition action_opcode :: "spiflash \<Rightarrow> spiflash" where
  "action_opcode f =
     (if bytecount f = 1 then
        let c = fl_buffer f
        in f\<lparr>spi_cmd := c,
             powered_up := (if c = 0xB9 then False else if c = 0xAB then True else powered_up f),
             xip_cmd := (if c = 0xFF then 0 else xip_cmd f)\<rparr>
      else f)"

definition action_address :: "spiflash \<Rightarrow> spiflash" where
  "action_address f =
     (if bytecount f = 2 then
        f\<lparr>spi_addr := (spi_addr f AND 0x00FFFF) OR push_bit 16 (ucast (fl_buffer f))\<rparr>
      else if bytecount f = 3 then
        f\<lparr>spi_addr := (spi_addr f AND 0xFF00FF) OR push_bit 8 (ucast (fl_buffer f))\<rparr>
      else if bytecount f = 4 then
        f\<lparr>spi_addr := (spi_addr f AND 0xFFFF00) OR ucast (fl_buffer f)\<rparr>
      else f)"

definition action_fetch :: "nat \<Rightarrow> spiflash \<Rightarrow> spiflash" where
  "action_fetch k f =
     (if k \<le> bytecount f then
        f\<lparr>fl_buffer := fl_memory f (spi_addr f), spi_addr := spi_addr f + 1\<rparr>
      else f)"

definition action_mode_byte :: "fl_mode \<Rightarrow> spiflash \<Rightarrow> spiflash" where
  "action_mode_byte md f =
     (if bytecount f = 5 then
        f\<lparr>xip_cmd := (if fl_buffer f = 0xA5 then spi_cmd f else 0), fl_mode := md,
          dummycount := latency\<rparr>
      else f)"

definition action_03 :: "spiflash \<Rightarrow> spiflash" where
  "action_03 f =
     (if powered_up f \<and> spi_cmd f = 0x03 then action_fetch 4 (action_address f) else f)"

definition action_bb :: "spiflash \<Rightarrow> spiflash" where
  "action_bb f =
     (if powered_up f \<and> spi_cmd f = 0xBB then
        action_fetch 5 (action_mode_byte mode_dspi_wr (action_address
          (if bytecount f = 1 then f\<lparr>fl_mode := mode_dspi_rd\<rparr> else f)))
      else f)"

definition action_eb :: "spiflash \<Rightarrow> spiflash" where
  "action_eb f =
     (if powered_up f \<and> spi_cmd f = 0xEB then
        action_fetch 5 (action_mode_byte mode_qspi_wr (action_address
          (if bytecount f = 1 then f\<lparr>fl_mode := mode_qspi_rd\<rparr> else f)))
      else f)"

definition action_ed :: "spiflash \<Rightarrow> spiflash" where
  "action_ed f =
     (if powered_up f \<and> spi_cmd f = 0xED then
        action_fetch 5 (action_mode_byte mode_qspi_ddr_wr (action_address
          (if bytecount f = 1 then f\<lparr>next_mode := mode_qspi_ddr_rd\<rparr> else f)))
      else f)"

definition spi_action :: "spiflash \<Rightarrow> spiflash" where
  "spi_action f = action_ed (action_eb (action_bb (action_03 (action_opcode f))))"

text \<open>Shifting \<open>k\<close> lines into the buffer; a full byte runs \<open>spi_action\<close>.\<close>

definition shift_in :: "nat \<Rightarrow> u8 \<Rightarrow> spiflash \<Rightarrow> spiflash" where
  "shift_in k io f =
     (let f = f\<lparr>fl_buffer := push_bit k (fl_buffer f) OR take_bit k io,
                bitcount := bitcount f + k\<rparr>
      in if bitcount f = 8 then spi_action (f\<lparr>bitcount := 0, bytecount := bytecount f + 1\<rparr>)
         else f)"

definition ddr_rd_edge :: "u8 \<Rightarrow> spiflash \<Rightarrow> spiflash" where
  "ddr_rd_edge io f = shift_in 4 io f"

definition ddr_wr_edge :: "spiflash \<Rightarrow> spiflash" where
  "ddr_wr_edge f = shift_in 4 0 (f\<lparr>io_oe := 0xF, io_dout := drop_bit 4 (fl_buffer f)\<rparr>)"

definition posedge :: "u8 \<Rightarrow> spiflash \<Rightarrow> spiflash" where
  "posedge io f =
     (if csb f then f
      else if dummycount f > 0 then f\<lparr>dummycount := dummycount f - 1\<rparr>
      else case fl_mode f of
          mode_spi \<Rightarrow> shift_in 1 io f
        | mode_dspi_rd \<Rightarrow> shift_in 2 io f
        | mode_dspi_wr \<Rightarrow> shift_in 2 io f
        | mode_qspi_rd \<Rightarrow> shift_in 4 io f
        | mode_qspi_wr \<Rightarrow> shift_in 4 io f
        | mode_qspi_ddr_rd \<Rightarrow> ddr_rd_edge io f
        | mode_qspi_ddr_wr \<Rightarrow> ddr_wr_edge f
        | mode_none \<Rightarrow> f)"

definition drive_lines :: "u8 \<Rightarrow> spiflash \<Rightarrow> spiflash" where
  "drive_lines io f =
     (if dummycount f > 0 then f\<lparr>io_oe := 0\<rparr>
      else case fl_mode f of
          mode_spi \<Rightarrow> f\<lparr>io_oe := 2, io_dout := push_bit 1 (drop_bit 7 (fl_buffer f))\<rparr>
        | mode_dspi_rd \<Rightarrow> f\<lparr>io_oe := 0\<rparr>
        | mode_dspi_wr \<Rightarrow> f\<lparr>io_oe := 3, io_dout := drop_bit 6 (fl_buffer f)\<rparr>
        | mode_qspi_rd \<Rightarrow> f\<lparr>io_oe := 0\<rparr>
        | mode_qspi_wr \<Rightarrow> f\<lparr>io_oe := 0xF, io_dout := drop_bit 4 (fl_buffer f)\<rparr>
        | mode_qspi_ddr_rd \<Rightarrow> ddr_rd_edge io f
        | mode_qspi_ddr_wr \<Rightarrow> ddr_wr_edge f
        | mode_none \<Rightarrow> f)"

definition switch_mode :: "spiflash \<Rightarrow> spiflash" where
  "switch_mode f =
     (if next_mode f = mode_none then f
      else
        let f' = (case next_mode f of
              mode_qspi_ddr_rd \<Rightarrow> f\<lparr>io_oe := 0\<rparr>
            | mode_qspi_ddr_wr \<Rightarrow> f\<lparr>io_oe := 0xF, io_dout := drop_bit 4 (fl_buffer f)\<rparr>
            | _ \<Rightarrow> f)
        in f'\<lparr>fl_mode := next_mode f, next_mode := mode_none\<rparr>)"

definition clk_low :: "u8 \<Rightarrow> spiflash \<Rightarrow> spiflash" where
  "clk_low io f = (if csb f then f else switch_mode (drive_lines io f))"

definition csb_rise :: "spiflash \<Rightarrow> spiflash" where
  "csb_rise f = f\<lparr>csb := True, fl_buffer := 0, bitcount := 0, bytecount := 0,
     fl_mode := mode_spi, io_oe := 0\<rparr>"

definition csb_fall :: "u8 \<Rightarrow> spiflash \<Rightarrow> spiflash" where
  "csb_fall io f =
     (let f = f\<lparr>csb := False\<rparr>;
          f = (if xip_cmd f \<noteq> 0
               then spi_action (f\<lparr>fl_buffer := xip_cmd f, bitcount := 0, bytecount := 1\<rparr>)
               else f)
      in clk_low io f)"

section \<open>The bus between host and flash\<close>

text \<open>
  The host drives the lines of its output enable, the flash those of its own; a line nobody
  drives reads as zero, and where both drive the host wins. A clock cycle is a rising edge, at
  which both ends sample the lines, and the falling edge after it.
\<close>

definition lines :: "u8 \<Rightarrow> u8 \<Rightarrow> spiflash \<Rightarrow> u8" where
  "lines oe v f = (v AND oe) OR (io_dout f AND io_oe f AND NOT oe)"

definition clock :: "u8 \<Rightarrow> u8 \<Rightarrow> spiflash \<Rightarrow> u8 \<times> spiflash" where
  "clock oe v f =
     (let io = lines oe v f; f' = posedge io f
      in (io, clk_low (lines oe v f') f'))"

text \<open>Bits, pairs and nibbles of a byte, most significant first, at the three speeds.\<close>

definition tx_symbols :: "nat \<Rightarrow> u8 \<Rightarrow> u8 list" where
  "tx_symbols k b = map (\<lambda>i. take_bit k (drop_bit (8 - k * Suc i) b)) [0..<8 div k]"

fun send_symbols :: "nat \<Rightarrow> u8 list \<Rightarrow> spiflash \<Rightarrow> spiflash" where
  "send_symbols k [] f = f"
| "send_symbols k (v # vs) f = send_symbols k vs (snd (clock (mask k) v f))"

definition send_byte :: "nat \<Rightarrow> u8 \<Rightarrow> spiflash \<Rightarrow> spiflash" where
  "send_byte k b f = send_symbols k (tx_symbols k b) f"

fun dummy_clocks :: "nat \<Rightarrow> spiflash \<Rightarrow> spiflash" where
  "dummy_clocks 0 f = f"
| "dummy_clocks (Suc n) f = dummy_clocks n (snd (clock 0 0 f))"

text \<open>A received symbol: line 1 at standard speed, the low lines otherwise.\<close>

definition rx_symbol :: "nat \<Rightarrow> u8 \<Rightarrow> u8" where
  "rx_symbol k io = (if k = 1 then drop_bit 1 io AND 1 else take_bit k io)"

fun receive_symbols :: "nat \<Rightarrow> nat \<Rightarrow> u8 \<Rightarrow> spiflash \<Rightarrow> u8 \<times> spiflash" where
  "receive_symbols k 0 b f = (b, f)"
| "receive_symbols k (Suc n) b f =
     (case clock 0 0 f of (io, f) \<Rightarrow> receive_symbols k n (push_bit k b OR rx_symbol k io) f)"

definition receive_byte :: "nat \<Rightarrow> spiflash \<Rightarrow> u8 \<times> spiflash" where
  "receive_byte k f = receive_symbols k (8 div k) 0 f"


section \<open>Whole bytes\<close>

text \<open>The flash samples \<open>k\<close> lines per rising edge.\<close>

definition sampling :: "nat \<Rightarrow> spiflash \<Rightarrow> bool" where
  "sampling k f \<longleftrightarrow> \<not> csb f \<and> dummycount f = 0 \<and> next_mode f = mode_none \<and>
     (fl_mode f = mode_spi \<and> k = 1 \<or> fl_mode f = mode_dspi_rd \<and> k = 2 \<or>
      fl_mode f = mode_qspi_rd \<and> k = 4)"

lemma take_bit_lines: "take_bit k (lines (mask k) v f) = take_bit k v"
  by (rule bit_word_eqI) (auto simp: lines_def bit_simps)

lemma posedge_sampling: "sampling k f \<Longrightarrow> posedge io f = shift_in k io f"
  by (auto simp: sampling_def posedge_def)

lemma clk_low_sampling:
  "sampling k f \<Longrightarrow> \<exists>oe d. clk_low io f = f\<lparr>io_oe := oe, io_dout := d\<rparr>"
  by (rule exI [of _ "io_oe (clk_low io f)"], rule exI [of _ "io_dout (clk_low io f)"])
    (auto simp: sampling_def clk_low_def drive_lines_def switch_mode_def)

lemma clock_sampling:
  assumes "sampling k f" "bitcount f + k < 8"
  shows "\<exists>oe d. snd (clock (mask k) v f) =
     f\<lparr>fl_buffer := push_bit k (fl_buffer f) OR take_bit k v, bitcount := bitcount f + k,
       io_oe := oe, io_dout := d\<rparr>"
proof -
  let ?f = "f\<lparr>fl_buffer := push_bit k (fl_buffer f) OR take_bit k v, bitcount := bitcount f + k\<rparr>"
  have p: "posedge (lines (mask k) v f) f = ?f"
    using assms by (simp add: posedge_sampling shift_in_def take_bit_lines Let_def)
  have "sampling k ?f" using assms(1) by (simp add: sampling_def)
  from clk_low_sampling [OF this, of "lines (mask k) v ?f"]
  obtain oe d where "clk_low (lines (mask k) v ?f) ?f = ?f\<lparr>io_oe := oe, io_dout := d\<rparr>" by blast
  with p show ?thesis by (auto simp: clock_def Let_def)
qed

lemma clock_last_sampling:
  assumes "sampling k f" "bitcount f + k = 8"
  shows "\<exists>io. snd (clock (mask k) v f) =
     clk_low io (spi_action (f\<lparr>fl_buffer := push_bit k (fl_buffer f) OR take_bit k v,
       bitcount := 0, bytecount := Suc (bytecount f)\<rparr>))"
  using assms by (auto simp: clock_def posedge_sampling shift_in_def take_bit_lines Let_def)

lemma send_symbols_append:
  "send_symbols k (xs @ ys) f = send_symbols k ys (send_symbols k xs f)"
  by (induction xs arbitrary: f) simp_all

definition gather :: "nat \<Rightarrow> u8 \<Rightarrow> u8 list \<Rightarrow> u8" where
  "gather k b vs = foldl (\<lambda>b v. push_bit k b OR take_bit k v) b vs"

lemma send_symbols_sampling:
  "sampling k f \<Longrightarrow> bitcount f + k * length vs < 8 \<Longrightarrow>
     \<exists>oe d. send_symbols k vs f =
       f\<lparr>fl_buffer := gather k (fl_buffer f) vs, bitcount := bitcount f + k * length vs,
         io_oe := oe, io_dout := d\<rparr>"
proof (induction vs arbitrary: f)
  case Nil
  show ?case
    by (rule exI [of _ "io_oe f"], rule exI [of _ "io_dout f"]) (simp add: gather_def)
next
  case (Cons v vs)
  have "bitcount f + k < 8" using Cons.prems(2) by simp
  from clock_sampling [OF Cons.prems(1) this, of v] obtain oe d where
    c: "snd (clock (mask k) v f) = f\<lparr>fl_buffer := push_bit k (fl_buffer f) OR take_bit k v,
       bitcount := bitcount f + k, io_oe := oe, io_dout := d\<rparr>" (is "_ = ?g") by blast
  have "sampling k ?g" "bitcount ?g + k * length vs < 8"
    using Cons.prems by (simp_all add: sampling_def)
  from Cons.IH [OF this] c show ?case by (auto simp: gather_def algebra_simps)
qed

lemma bit_gather_step:
  "bit (push_bit k b OR take_bit k v) n \<longleftrightarrow> n < 8 \<and> (if n < k then bit v n else bit b (n - k))"
  for b v :: u8
  by (auto simp: bit_simps dest: bit_u8_less)

lemma bit_gather:
  "bit (gather k b vs) n \<longleftrightarrow> n < 8 \<and>
     (if n < k * length vs then bit (rev vs ! (n div k)) (n mod k) else bit b (n - k * length vs))"
  if "0 < k"
proof (induction vs arbitrary: n rule: rev_induct)
  case Nil
  then show ?case by (auto simp: gather_def dest: bit_u8_less)
next
  case (snoc v vs)
  have "gather k b (vs @ [v]) = push_bit k (gather k b vs) OR take_bit k v"
    by (simp add: gather_def)
  then have s: "bit (gather k b (vs @ [v])) n \<longleftrightarrow>
      n < 8 \<and> (if n < k then bit v n else bit (gather k b vs) (n - k))"
    by (simp add: bit_gather_step)
  show ?case
  proof (cases "n < k")
    case True
    with s that show ?thesis by simp
  next
    case False
    then have "n div k = Suc ((n - k) div k)" "n mod k = (n - k) mod k"
      using that by (simp_all add: le_div_geq le_mod_geq)
    with s snoc [of "n - k"] False show ?thesis by auto
  qed
qed

lemma gather_tx_symbols:
  assumes "0 < k" "k dvd 8"
  shows "gather k b0 (tx_symbols k b) = b"
proof (rule bit_word_eqI)
  fix n assume "n < LENGTH(8)"
  then have n: "n < 8" by simp
  from assms obtain q where q: "8 = k * q" by (auto elim: dvdE)
  have d: "8 div k = q" using q assms(1) by (metis nonzero_mult_div_cancel_left less_not_refl)
  have nq: "n div k < q" using n q by (metis less_mult_imp_div_less mult.commute)
  then have "rev (tx_symbols k b) ! (n div k) = take_bit k (drop_bit (8 - k * (q - n div k)) b)"
    by (simp add: tx_symbols_def d rev_nth Suc_diff_Suc del: mult_Suc_right)
  moreover have "8 - k * (q - n div k) = k * (n div k)"
    using nq by (simp add: q diff_mult_distrib2)
  ultimately show "bit (gather k b0 (tx_symbols k b)) n = bit b n"
    using assms n q by (simp add: bit_gather tx_symbols_def d bit_take_bit_iff bit_drop_bit_eq)
qed

lemma send_byte_sampling:
  assumes "sampling k f" "bitcount f = 0"
  shows "\<exists>oe d io. send_byte k b f =
     clk_low io (spi_action (f\<lparr>fl_buffer := b, bitcount := 0, bytecount := Suc (bytecount f),
       io_oe := oe, io_dout := d\<rparr>))"
proof -
  have k: "k = 1 \<or> k = 2 \<or> k = 4" using assms(1) by (auto simp: sampling_def)
  then have dvd: "0 < k" "k dvd 8" by auto
  let ?vs = "butlast (tx_symbols k b)" and ?v = "last (tx_symbols k b)"
  have len: "length (tx_symbols k b) = 8 div k" by (simp add: tx_symbols_def)
  with k have ne: "tx_symbols k b \<noteq> []" by (auto simp flip: length_greater_0_conv)
  from len k have bits: "k * length ?vs + k = 8" by auto
  with assms k have "bitcount f + k * length ?vs < 8" by auto
  from send_symbols_sampling [OF assms(1) this] obtain oe d where
    1: "send_symbols k ?vs f = f\<lparr>fl_buffer := gather k (fl_buffer f) ?vs,
      bitcount := bitcount f + k * length ?vs, io_oe := oe, io_dout := d\<rparr>" (is "_ = ?g") by blast
  have "sampling k ?g" "bitcount ?g + k = 8"
    using assms bits by (simp_all add: sampling_def)
  from clock_last_sampling [OF this, of ?v] obtain io where
    2: "snd (clock (mask k) ?v ?g) = clk_low io (spi_action (?g\<lparr>fl_buffer :=
      push_bit k (fl_buffer ?g) OR take_bit k ?v, bitcount := 0, bytecount := Suc (bytecount ?g)\<rparr>))"
    by blast
  have "send_byte k b f = send_symbols k (?vs @ [?v]) f"
    using ne by (simp add: send_byte_def)
  also have "\<dots> = snd (clock (mask k) ?v ?g)" by (simp add: send_symbols_append 1)
  finally have r: "send_byte k b f = snd (clock (mask k) ?v ?g)" .
  have "push_bit k (gather k (fl_buffer f) ?vs) OR take_bit k ?v = gather k (fl_buffer f) (?vs @ [?v])"
    by (simp add: gather_def)
  also have "\<dots> = b" using gather_tx_symbols [OF dvd] ne by simp
  finally have "send_byte k b f = clk_low io (spi_action (?g\<lparr>fl_buffer := b, bitcount := 0,
      bytecount := Suc (bytecount f)\<rparr>))" using r 2 by simp
  moreover have "?g\<lparr>fl_buffer := b, bitcount := 0, bytecount := Suc (bytecount f)\<rparr> =
      f\<lparr>fl_buffer := b, bitcount := 0, bytecount := Suc (bytecount f), io_oe := oe, io_dout := d\<rparr>"
    by simp
  ultimately show ?thesis by metis
qed


section \<open>Transactions\<close>

fun send_bytes :: "nat \<Rightarrow> u8 list \<Rightarrow> spiflash \<Rightarrow> spiflash" where
  "send_bytes k [] f = f"
| "send_bytes k (b # bs) f = send_bytes k bs (send_byte k b f)"

fun receive_bytes :: "nat \<Rightarrow> nat \<Rightarrow> spiflash \<Rightarrow> u8 list \<times> spiflash" where
  "receive_bytes k 0 f = ([], f)"
| "receive_bytes k (Suc n) f =
     (case receive_byte k f of (b, f) \<Rightarrow>
        case receive_bytes k n f of (bs, f) \<Rightarrow> (b # bs, f))"

text \<open>Deselected, with no continued read pending.\<close>

definition flash_idle :: "spiflash \<Rightarrow> bool" where
  "flash_idle f \<longleftrightarrow> csb f \<and> fl_mode f = mode_spi \<and> bitcount f = 0 \<and> bytecount f = 0 \<and>
     dummycount f = 0 \<and> next_mode f = mode_none \<and> xip_cmd f = 0"

text \<open>The stages of a quad read (opcode \<open>EB\<close>).\<close>

definition quad_base :: "spiflash \<Rightarrow> bool" where
  "quad_base f \<longleftrightarrow> \<not> csb f \<and> powered_up f \<and> spi_cmd f = 0xEB \<and> xip_cmd f = 0 \<and>
     next_mode f = mode_none \<and> bitcount f = 0"

definition quad_opened :: "spiflash \<Rightarrow> bool" where
  "quad_opened f \<longleftrightarrow> quad_base f \<and> fl_mode f = mode_qspi_rd \<and> dummycount f = 0 \<and> bytecount f = 1"

definition quad_addressed :: "24 word \<Rightarrow> spiflash \<Rightarrow> bool" where
  "quad_addressed a f \<longleftrightarrow> quad_base f \<and> fl_mode f = mode_qspi_wr \<and> dummycount f = 8 \<and>
     bytecount f = 5 \<and> fl_buffer f = fl_memory f a \<and> spi_addr f = a + 1"

definition quad_streaming :: "24 word \<Rightarrow> spiflash \<Rightarrow> bool" where
  "quad_streaming a f \<longleftrightarrow> quad_base f \<and> fl_mode f = mode_qspi_wr \<and> dummycount f = 0 \<and>
     5 \<le> bytecount f \<and> fl_buffer f = fl_memory f a \<and> spi_addr f = a + 1 \<and>
     io_oe f = 0xF \<and> io_dout f = drop_bit 4 (fl_buffer f)"

lemmas quad_defs = quad_base_def quad_opened_def quad_addressed_def quad_streaming_def

lemmas action_defs = spi_action_def action_opcode_def action_03_def action_bb_def action_eb_def
  action_ed_def action_address_def action_mode_byte_def action_fetch_def latency_def

lemmas low_defs = clk_low_def drive_lines_def switch_mode_def

lemma csb_fall_idle:
  "flash_idle f \<Longrightarrow> \<exists>oe d. csb_fall io f = f\<lparr>csb := False, io_oe := oe, io_dout := d\<rparr>"
  by (rule exI [of _ "io_oe (csb_fall io f)"], rule exI [of _ "io_dout (csb_fall io f)"])
    (simp add: flash_idle_def csb_fall_def low_defs)

lemma open_opcode:
  assumes "flash_idle f"
  shows "\<exists>oe d io'. send_byte 1 b (csb_fall io f) =
    clk_low io' (spi_action (f\<lparr>csb := False, fl_buffer := b, bitcount := 0, bytecount := 1,
      io_oe := oe, io_dout := d\<rparr>))"
proof -
  from csb_fall_idle [OF assms] obtain oe d where
    c: "csb_fall io f = f\<lparr>csb := False, io_oe := oe, io_dout := d\<rparr>" (is "_ = ?g") by blast
  have "sampling 1 ?g" "bitcount ?g = 0"
    using assms by (simp_all add: sampling_def flash_idle_def)
  from send_byte_sampling [OF this, of b] obtain oe' d' io' where
    "send_byte 1 b ?g = clk_low io' (spi_action (?g\<lparr>fl_buffer := b, bitcount := 0,
       bytecount := Suc (bytecount ?g), io_oe := oe', io_dout := d'\<rparr>))" by blast
  moreover have "?g\<lparr>fl_buffer := b, bitcount := 0,
       bytecount := Suc (bytecount ?g), io_oe := oe', io_dout := d'\<rparr> =
       f\<lparr>csb := False, fl_buffer := b, bitcount := 0, bytecount := 1, io_oe := oe', io_dout := d'\<rparr>"
    using assms by (simp add: flash_idle_def)
  ultimately show ?thesis using c by metis
qed

lemma flash_power_up_transaction:
  assumes "flash_idle f"
  shows "flash_idle (csb_rise (send_byte 1 0xAB (csb_fall io f))) \<and>
     powered_up (csb_rise (send_byte 1 0xAB (csb_fall io f))) \<and>
     fl_memory (csb_rise (send_byte 1 0xAB (csb_fall io f))) = fl_memory f"
proof -
  from open_opcode [OF assms, of "0xAB" io] obtain oe d io' where
    "send_byte 1 0xAB (csb_fall io f) = clk_low io' (spi_action (f\<lparr>csb := False, fl_buffer := 0xAB,
       bitcount := 0, bytecount := 1, io_oe := oe, io_dout := d\<rparr>))" by blast
  with assms show ?thesis
    by (simp add: flash_idle_def csb_rise_def action_defs low_defs)
qed

lemma quad_open:
  assumes "flash_idle f" "powered_up f"
  shows "quad_opened (send_byte 1 0xEB (csb_fall io f)) \<and>
     fl_memory (send_byte 1 0xEB (csb_fall io f)) = fl_memory f"
proof -
  from open_opcode [OF assms(1), of "0xEB" io] obtain oe d io' where
    "send_byte 1 0xEB (csb_fall io f) = clk_low io' (spi_action (f\<lparr>csb := False, fl_buffer := 0xEB,
       bitcount := 0, bytecount := 1, io_oe := oe, io_dout := d\<rparr>))" by blast
  with assms show ?thesis
    by (simp add: flash_idle_def quad_defs action_defs low_defs)
qed


definition addr24 :: "u8 \<Rightarrow> u8 \<Rightarrow> u8 \<Rightarrow> 24 word" where
  "addr24 a2 a1 a0 = push_bit 16 (ucast a2) OR push_bit 8 (ucast a1) OR ucast a0"

lemma addr24_assemble:
  "((((w AND 0x00FFFF) OR push_bit 16 (ucast a2)) AND 0xFF00FF OR push_bit 8 (ucast a1))
     AND 0xFFFF00) OR ucast a0 = addr24 a2 a1 a0" for a2 a1 a0 :: u8 and w :: "24 word"
proof -
  have m: "(0x00FFFF :: 24 word) = mask 16" "(0xFF00FF :: 24 word) = NOT (push_bit 8 (mask 8))"
    "(0xFFFF00 :: 24 word) = NOT (mask 8)"
    by (simp_all add: mask_eq_exp_minus_1)
  show ?thesis
    unfolding m addr24_def by (rule bit_word_eqI) (auto simp: bit_simps dest: bit_u8_less)
qed

text \<open>One byte sent while the address phase is open: the bytes count up to the mode byte.\<close>

definition quad_phase :: "nat \<Rightarrow> 24 word \<Rightarrow> spiflash \<Rightarrow> bool" where
  "quad_phase n a f \<longleftrightarrow> quad_base f \<and> fl_mode f = mode_qspi_rd \<and> dummycount f = 0 \<and>
     bytecount f = n \<and> spi_addr f = a"

lemma quad_send:
  assumes "quad_phase n a f"
  obtains oe d io where "send_byte 4 b f =
    clk_low io (spi_action (f\<lparr>fl_buffer := b, bytecount := Suc n, io_oe := oe, io_dout := d\<rparr>))"
proof -
  have "sampling 4 f" "bitcount f = 0"
    using assms by (simp_all add: quad_phase_def quad_base_def sampling_def)
  from send_byte_sampling [OF this, of b] obtain oe d io where
    1: "send_byte 4 b f = clk_low io (spi_action (f\<lparr>fl_buffer := b, bitcount := 0,
       bytecount := Suc (bytecount f), io_oe := oe, io_dout := d\<rparr>))" by blast
  have "f\<lparr>fl_buffer := b, bitcount := 0, bytecount := Suc (bytecount f), io_oe := oe, io_dout := d\<rparr> =
      f\<lparr>fl_buffer := b, bytecount := Suc n, io_oe := oe, io_dout := d\<rparr>"
    using assms by (simp add: quad_phase_def quad_base_def)
  with 1 that show thesis by metis
qed

lemma quad_send_high:
  assumes "quad_phase 1 a f"
  shows "quad_phase 2 ((a AND 0x00FFFF) OR push_bit 16 (ucast b)) (send_byte 4 b f) \<and>
    fl_memory (send_byte 4 b f) = fl_memory f"
proof -
  from quad_send [OF assms, of b] obtain oe d io where
    e: "send_byte 4 b f = clk_low io (spi_action (f\<lparr>fl_buffer := b, bytecount := Suc 1,
      io_oe := oe, io_dout := d\<rparr>))" .
  show ?thesis
    using assms unfolding e by (simp add: quad_phase_def quad_base_def action_defs low_defs)
qed

lemma quad_send_mid:
  assumes "quad_phase 2 a f"
  shows "quad_phase 3 ((a AND 0xFF00FF) OR push_bit 8 (ucast b)) (send_byte 4 b f) \<and>
    fl_memory (send_byte 4 b f) = fl_memory f"
proof -
  from quad_send [OF assms, of b] obtain oe d io where
    e: "send_byte 4 b f = clk_low io (spi_action (f\<lparr>fl_buffer := b, bytecount := Suc 2,
      io_oe := oe, io_dout := d\<rparr>))" .
  show ?thesis
    using assms unfolding e by (simp add: quad_phase_def quad_base_def action_defs low_defs)
qed

lemma quad_send_low:
  assumes "quad_phase 3 a f"
  shows "quad_phase 4 ((a AND 0xFFFF00) OR ucast b) (send_byte 4 b f) \<and>
    fl_memory (send_byte 4 b f) = fl_memory f"
proof -
  from quad_send [OF assms, of b] obtain oe d io where
    e: "send_byte 4 b f = clk_low io (spi_action (f\<lparr>fl_buffer := b, bytecount := Suc 3,
      io_oe := oe, io_dout := d\<rparr>))" .
  show ?thesis
    using assms unfolding e by (simp add: quad_phase_def quad_base_def action_defs low_defs)
qed

lemma quad_send_mode:
  assumes "quad_phase 4 a f"
  shows "quad_addressed a (send_byte 4 0 f) \<and> fl_memory (send_byte 4 0 f) = fl_memory f"
proof -
  from quad_send [OF assms, of 0] obtain oe d io where
    e: "send_byte 4 0 f = clk_low io (spi_action (f\<lparr>fl_buffer := 0, bytecount := Suc 4,
      io_oe := oe, io_dout := d\<rparr>))" .
  show ?thesis
    using assms unfolding e by (simp add: quad_phase_def quad_defs action_defs low_defs)
qed

lemma quad_address:
  assumes "quad_opened f"
  shows "quad_addressed (addr24 a2 a1 a0) (send_bytes 4 [a2, a1, a0, 0] f) \<and>
    fl_memory (send_bytes 4 [a2, a1, a0, 0] f) = fl_memory f"
proof -
  have "quad_phase 1 (spi_addr f) f"
    using assms by (simp add: quad_opened_def quad_phase_def)
  from quad_send_high [OF this, of a2]
  have 2: "quad_phase 2 (spi_addr f AND 0x00FFFF OR push_bit 16 (ucast a2)) (send_byte 4 a2 f)"
    "fl_memory (send_byte 4 a2 f) = fl_memory f" by simp_all
  note 3 = quad_send_mid [OF 2(1), of a1]
  note 4 = quad_send_low [OF conjunct1 [OF 3], of a0]
  note 5 = quad_send_mode [OF conjunct1 [OF 4], unfolded addr24_assemble]
  from 2 3 4 5 show ?thesis by simp
qed

lemma dummy_clock:
  assumes "quad_base f" "fl_mode f = mode_qspi_wr" "dummycount f = Suc n"
  shows "\<exists>oe d. snd (clock 0 0 f) = f\<lparr>dummycount := n, io_oe := oe, io_dout := d\<rparr> \<and>
    (n = 0 \<longrightarrow> oe = 0xF \<and> d = drop_bit 4 (fl_buffer f))"
  by (rule exI [of _ "io_oe (snd (clock 0 0 f))"], rule exI [of _ "io_dout (snd (clock 0 0 f))"])
    (use assms in \<open>simp add: quad_base_def clock_def posedge_def low_defs Let_def\<close>)

lemma dummy_clocks_count:
  "quad_base f \<Longrightarrow> fl_mode f = mode_qspi_wr \<Longrightarrow> dummycount f = Suc n \<Longrightarrow>
     dummy_clocks (Suc n) f =
       f\<lparr>dummycount := 0, io_oe := 0xF, io_dout := drop_bit 4 (fl_buffer f)\<rparr>"
proof (induction n arbitrary: f)
  case 0
  from dummy_clock [OF 0] show ?case by auto
next
  case (Suc n)
  from dummy_clock [OF Suc.prems] obtain oe d where
    c: "snd (clock 0 0 f) = f\<lparr>dummycount := Suc n, io_oe := oe, io_dout := d\<rparr>" (is "_ = ?g") by blast
  have "quad_base ?g" "fl_mode ?g = mode_qspi_wr" "dummycount ?g = Suc n"
    using Suc.prems by (simp_all add: quad_base_def)
  from Suc.IH [OF this] c show ?case by simp
qed

lemma quad_dummy:
  assumes "quad_addressed a f"
  shows "quad_streaming a (dummy_clocks 8 f) \<and> fl_memory (dummy_clocks 8 f) = fl_memory f"
  using dummy_clocks_count [of f 7] assms by (auto simp: quad_defs)

lemma nibbles_u8: "push_bit 4 (drop_bit 4 b) OR take_bit 4 b = (b :: u8)"
  by (rule bit_word_eqI) (auto simp: bit_simps)

lemma quad_receive:
  assumes "quad_streaming a f"
  shows "fst (receive_byte 4 f) = fl_memory f a \<and> quad_streaming (a + 1) (snd (receive_byte 4 f)) \<and>
    fl_memory (snd (receive_byte 4 f)) = fl_memory f"
proof -
  let ?b = "fl_buffer f"
  let ?g = "f\<lparr>fl_buffer := push_bit 4 ?b OR take_bit 4 (drop_bit 4 ?b), bitcount := 4,
    io_dout := drop_bit 4 (push_bit 4 ?b OR take_bit 4 (drop_bit 4 ?b))\<rparr>"
  have low: "drop_bit 4 (push_bit 4 ?b OR take_bit 4 (drop_bit 4 ?b)) AND 0xF = take_bit 4 ?b"
    and high: "drop_bit 4 ?b AND 0xF = drop_bit 4 ?b"
    and tt: "take_bit 4 (drop_bit 4 ?b) = drop_bit 4 ?b"
  proof -
    have m: "(0xF :: u8) = mask 4" by (simp add: mask_eq_exp_minus_1)
    show "drop_bit 4 (push_bit 4 ?b OR take_bit 4 (drop_bit 4 ?b)) AND 0xF = take_bit 4 ?b"
      unfolding m by (rule bit_word_eqI) (auto simp: bit_simps)
    show "drop_bit 4 ?b AND 0xF = drop_bit 4 ?b"
      unfolding m by (rule bit_word_eqI) (auto simp: bit_simps dest: bit_u8_less)
    show "take_bit 4 (drop_bit 4 ?b) = drop_bit 4 ?b"
      by (rule bit_word_eqI) (auto simp: bit_simps dest: bit_u8_less)
  qed
  have 1: "clock 0 0 f = (drop_bit 4 ?b, ?g)"
    using assms high tt
    by (simp add: quad_defs clock_def posedge_def shift_in_def lines_def low_defs Let_def)
  have 2: "\<exists>io. clock 0 0 ?g = (take_bit 4 ?b, clk_low io (spi_action
      (?g\<lparr>fl_buffer := push_bit 4 (fl_buffer ?g) OR take_bit 4 (take_bit 4 ?b), bitcount := 0,
        bytecount := Suc (bytecount f)\<rparr>)))"
    using assms low
    by (auto simp: quad_defs clock_def posedge_def shift_in_def lines_def Let_def)
  then obtain io where 3: "receive_byte 4 f = (push_bit 4 (drop_bit 4 ?b) OR take_bit 4 ?b,
      clk_low io (spi_action (?g\<lparr>fl_buffer := push_bit 4 (fl_buffer ?g) OR take_bit 4 (take_bit 4 ?b),
        bitcount := 0, bytecount := Suc (bytecount f)\<rparr>)))"
    by (auto simp: receive_byte_def numeral_2_eq_2 1 rx_symbol_def tt)
  show ?thesis
    using assms unfolding 3 by (simp add: nibbles_u8 quad_defs action_defs low_defs)
qed

lemma quad_receive_bytes:
  "quad_streaming a f \<Longrightarrow>
     fst (receive_bytes 4 n f) = map (\<lambda>i. fl_memory f (a + of_nat i)) [0..<n] \<and>
     quad_streaming (a + of_nat n) (snd (receive_bytes 4 n f)) \<and>
     fl_memory (snd (receive_bytes 4 n f)) = fl_memory f"
proof (induction n arbitrary: a f)
  case 0
  then show ?case by simp
next
  case (Suc n)
  obtain b g where g: "receive_byte 4 f = (b, g)" by fastforce
  obtain bs h where h: "receive_bytes 4 n g = (bs, h)" by fastforce
  from quad_receive [OF Suc.prems] g have
    1: "b = fl_memory f a" "quad_streaming (a + 1) g" "fl_memory g = fl_memory f" by simp_all
  from Suc.IH [OF 1(2)] h 1 have
    2: "bs = map (\<lambda>i. fl_memory f (a + 1 + of_nat i)) [0..<n]" "quad_streaming (a + 1 + of_nat n) h"
      "fl_memory h = fl_memory f" by simp_all
  have "map (\<lambda>i. fl_memory f (a + of_nat i)) [0..<Suc n] =
      fl_memory f a # map (\<lambda>i. fl_memory f (a + 1 + of_nat i)) [0..<n]"
    by (rule nth_equalityI) (auto simp: nth_Cons add.assoc simp del: upt_Suc split: nat.splits)
  with g h 1 2 show ?case by (simp add: algebra_simps del: upt_Suc)
qed

lemma quad_close:
  "quad_streaming a f \<Longrightarrow> flash_idle (csb_rise f) \<and> powered_up (csb_rise f) \<and>
     fl_memory (csb_rise f) = fl_memory f"
  by (simp add: quad_defs flash_idle_def csb_rise_def)

end
