(* ===== verification/Mmio.thy ===== *)
theory Mmio
  imports Prelude
begin

unbundle bit_operations_syntax

text \<open>
  Volatile accesses to memory-mapped registers. The devices behind the bus are hardware, so
  they are a parameter of the drivers: a state \<open>'d\<close> and the two bus operations. A read may
  change the state (popping a FIFO, letting time pass). The C loops that wait for a device
  (\<open>while (READ(r) & mask) {}\<close>) return only if the device lets them; \<open>poll\<close> is \<open>None\<close> when the
  loop never ends.

  The locale \<open>pollable\<close> is what a driver needs to know of a register it polls: reading it
  while busy brings the device closer to ready and keeps the device's invariant and its
  visible part.
\<close>

section \<open>The bus\<close>

record 'd bus =
  bus_read :: "u32 \<Rightarrow> 'd \<Rightarrow> u32 \<times> 'd"
  bus_write :: "u32 \<Rightarrow> u32 \<Rightarrow> 'd \<Rightarrow> 'd"

partial_function (option) poll ::
  "'d bus \<Rightarrow> u32 \<Rightarrow> (u32 \<Rightarrow> bool) \<Rightarrow> 'd \<Rightarrow> (u32 \<times> 'd) option" where
  "poll B addr busy s =
     (case bus_read B addr s of (v, s') \<Rightarrow>
        if busy v then poll B addr busy s' else Some (v, s'))"

lemma poll_step:
  "bus_read B addr s = (v, s') \<Longrightarrow>
     poll B addr busy s = (if busy v then poll B addr busy s' else Some (v, s'))"
  by (subst poll.simps) simp

text \<open>Whatever the device does, a polling loop that returns has seen the register ready.\<close>

lemma poll_not_busy:
  assumes "poll B addr busy s = Some (v, s')"
  shows "\<not> busy v"
proof -
  have "\<not> busy (fst r)" if "poll B addr busy s = Some r" for r
  proof (rule poll.raw_induct [where P = "\<lambda>B addr busy s r. \<not> busy (fst r)", OF _ that])
    fix f :: "'a bus \<Rightarrow> u32 \<Rightarrow> (u32 \<Rightarrow> bool) \<Rightarrow> 'a \<Rightarrow> (u32 \<times> 'a) option"
    fix B addr busy s r
    assume IH: "\<And>B addr busy s r. f B addr busy s = Some r \<Longrightarrow> \<not> busy (fst r)"
      and eq: "(case bus_read B addr s of (v, s') \<Rightarrow>
             if busy v then f B addr busy s' else Some (v, s')) = Some r"
    obtain v s1 where r: "bus_read B addr s = (v, s1)" by fastforce
    show "\<not> busy (fst r)"
    proof (cases "busy v")
      case True
      with eq r have "f B addr busy s1 = Some r" by simp
      then show ?thesis by (rule IH)
    next
      case False
      with eq r show ?thesis by auto
    qed
  qed
  from this [OF assms] show ?thesis by simp
qed

section \<open>Registers that become ready\<close>

locale pollable =
  fixes B :: "'d bus"
    and addr :: u32
    and busy :: "u32 \<Rightarrow> bool"
    and inv :: "'d \<Rightarrow> bool"
    and view :: "'d \<Rightarrow> 'v"
    and rank :: "'d \<Rightarrow> nat"
  assumes read_inv: "inv s \<Longrightarrow> bus_read B addr s = (v, s') \<Longrightarrow> inv s'"
    and read_view: "inv s \<Longrightarrow> bus_read B addr s = (v, s') \<Longrightarrow> view s' = view s"
    and busy_rank: "inv s \<Longrightarrow> bus_read B addr s = (v, s') \<Longrightarrow> busy v \<Longrightarrow> rank s' < rank s"
begin

lemma poll_returns:
  "inv s \<Longrightarrow> \<exists>v s0 s'. poll B addr busy s = Some (v, s') \<and> \<not> busy v \<and> inv s' \<and> view s' = view s
     \<and> inv s0 \<and> bus_read B addr s0 = (v, s')"
proof (induction "rank s" arbitrary: s rule: less_induct)
  case less
  obtain v s1 where r: "bus_read B addr s = (v, s1)" by fastforce
  note s1 = read_inv [OF less.prems r] read_view [OF less.prems r]
  show ?case
  proof (cases "busy v")
    case True
    from less.hyps [OF busy_rank [OF less.prems r True] s1(1)] s1(2) True
    show ?thesis by (auto simp: poll_step [OF r])
  next
    case False
    with s1 r less.prems show ?thesis by (auto simp: poll_step [OF r])
  qed
qed

lemma poll_cases:
  assumes "inv s"
  obtains v s0 s' where "poll B addr busy s = Some (v, s')" "\<not> busy v" "inv s'"
    "view s' = view s" "inv s0" "bus_read B addr s0 = (v, s')"
  using poll_returns [OF assms] by blast

end

end
