(* ===== verification/Boot_Drivers.thy ===== *)
theory Boot_Drivers
  imports Mmio
begin

unbundle bit_operations_syntax

text \<open>
  The UART, SPI host and SPI flash sections of \<open>sw/bootloader.c\<close>: one definition per C
  function, over an arbitrary bus. A driver that waits returns an \<open>option\<close>: \<open>None\<close> is a wait
  that never ends. Characters and strings of the C code are bytes; a string literal
  is \<open>str_bytes ''...''\<close>, without its terminating zero.
\<close>

section \<open>UART\<close>

definition UART_BASE :: u32 where "UART_BASE = 0x80000000"
definition UART_CTRL_REG :: u32 where "UART_CTRL_REG = 0x10"
definition UART_STATUS_REG :: u32 where "UART_STATUS_REG = 0x14"
definition UART_TX_REG :: u32 where "UART_TX_REG = 0x1C"
definition UART_TX_FULL :: u32 where "UART_TX_FULL = 1"

lemmas uart_reg_defs = UART_BASE_def UART_CTRL_REG_def UART_STATUS_REG_def UART_TX_REG_def

definition uart_init :: "'d bus \<Rightarrow> 'd \<Rightarrow> 'd" where
  "uart_init B s =
     (let nco = 0x4B7F :: u32
      in bus_write B (UART_BASE + UART_CTRL_REG) (push_bit 16 nco OR 0x3) s)"

definition uart_tx_busy :: "u32 \<Rightarrow> bool" where
  "uart_tx_busy v \<longleftrightarrow> v AND UART_TX_FULL \<noteq> 0"

definition uart_send_byte :: "'d bus \<Rightarrow> u8 \<Rightarrow> 'd \<Rightarrow> 'd option" where
  "uart_send_byte B c s = do {
     (_, s) \<leftarrow> poll B (UART_BASE + UART_STATUS_REG) uart_tx_busy s;
     Some (bus_write B (UART_BASE + UART_TX_REG) (ucast c) s)
   }"

fun uart_send_string :: "'d bus \<Rightarrow> u8 list \<Rightarrow> 'd \<Rightarrow> 'd option" where
  "uart_send_string B [] s = Some s"
| "uart_send_string B (c # cs) s =
     (if c = 0 then Some s
      else do {
        s \<leftarrow> (if c = 0x0A then uart_send_byte B 0x0D s else Some s);
        s \<leftarrow> uart_send_byte B c s;
        uart_send_string B cs s
      })"

definition hex_digits :: "u8 list" where
  "hex_digits = str_bytes ''0123456789ABCDEF''"

text \<open>The loop for \<open>i = 7\<close> down to \<open>0\<close>; the first argument is \<open>i + 1\<close>.\<close>

fun uart_hex_loop :: "'d bus \<Rightarrow> nat \<Rightarrow> u32 \<Rightarrow> 'd \<Rightarrow> 'd option" where
  "uart_hex_loop B 0 value s = Some s"
| "uart_hex_loop B (Suc i) value s = do {
     let nibble = drop_bit (i * 4) value AND 0xF;
     s \<leftarrow> uart_send_byte B (hex_digits ! unat nibble) s;
     uart_hex_loop B i value s
   }"

definition uart_send_hex32 :: "'d bus \<Rightarrow> u32 \<Rightarrow> 'd \<Rightarrow> 'd option" where
  "uart_send_hex32 B value s = uart_hex_loop B 8 value s"

definition uart_send_label_hex32 :: "'d bus \<Rightarrow> u8 list \<Rightarrow> u32 \<Rightarrow> 'd \<Rightarrow> 'd option" where
  "uart_send_label_hex32 B label value s = do {
     s \<leftarrow> uart_send_string B label s;
     s \<leftarrow> uart_send_hex32 B value s;
     uart_send_string B [0x0A] s
   }"

section \<open>SPI host\<close>

definition SPI0_BASE_ADDR :: u32 where "SPI0_BASE_ADDR = 0x40300000"
definition SPI_CONTROL_OFFSET :: u32 where "SPI_CONTROL_OFFSET = 0x10"
definition SPI_STATUS_OFFSET :: u32 where "SPI_STATUS_OFFSET = 0x14"
definition SPI_CONFIGOPTS_OFFSET :: u32 where "SPI_CONFIGOPTS_OFFSET = 0x18"
definition SPI_CSID_OFFSET :: u32 where "SPI_CSID_OFFSET = 0x1C"
definition SPI_COMMAND_OFFSET :: u32 where "SPI_COMMAND_OFFSET = 0x20"
definition SPI_RXDATA_OFFSET :: u32 where "SPI_RXDATA_OFFSET = 0x24"
definition SPI_TXDATA_OFFSET :: u32 where "SPI_TXDATA_OFFSET = 0x28"

lemmas spi_reg_defs = SPI0_BASE_ADDR_def SPI_CONTROL_OFFSET_def SPI_STATUS_OFFSET_def
  SPI_CONFIGOPTS_OFFSET_def SPI_CSID_OFFSET_def SPI_COMMAND_OFFSET_def SPI_RXDATA_OFFSET_def
  SPI_TXDATA_OFFSET_def

definition SPI_CONTROL_SPIEN :: u32 where "SPI_CONTROL_SPIEN = push_bit 31 1"
definition SPI_CONTROL_SW_RST :: u32 where "SPI_CONTROL_SW_RST = push_bit 30 1"
definition SPI_CONTROL_OUTPUT_EN :: u32 where "SPI_CONTROL_OUTPUT_EN = push_bit 29 1"

definition SPI_STATUS_READY :: u32 where "SPI_STATUS_READY = push_bit 31 1"
definition SPI_STATUS_ACTIVE :: u32 where "SPI_STATUS_ACTIVE = push_bit 30 1"
definition SPI_STATUS_TXFULL :: u32 where "SPI_STATUS_TXFULL = push_bit 29 1"
definition SPI_STATUS_RXEMPTY :: u32 where "SPI_STATUS_RXEMPTY = push_bit 24 1"

lemmas spi_bit_defs = SPI_CONTROL_SPIEN_def SPI_CONTROL_SW_RST_def SPI_CONTROL_OUTPUT_EN_def
  SPI_STATUS_READY_def SPI_STATUS_ACTIVE_def SPI_STATUS_TXFULL_def SPI_STATUS_RXEMPTY_def

definition SPI_DIR_DUMMY :: u32 where "SPI_DIR_DUMMY = 0"
definition SPI_DIR_RX :: u32 where "SPI_DIR_RX = 1"
definition SPI_DIR_TX :: u32 where "SPI_DIR_TX = 2"
definition SPI_SPEED_STANDARD :: u32 where "SPI_SPEED_STANDARD = 0"
definition SPI_SPEED_QUAD :: u32 where "SPI_SPEED_QUAD = 2"

lemmas spi_cmd_defs = SPI_DIR_DUMMY_def SPI_DIR_RX_def SPI_DIR_TX_def SPI_SPEED_STANDARD_def
  SPI_SPEED_QUAD_def

definition spi_make_command :: "u32 \<Rightarrow> u32 \<Rightarrow> u32 \<Rightarrow> u32 \<Rightarrow> u32" where
  "spi_make_command direction speed csaat len =
     push_bit 12 (direction AND 0x3) OR
     push_bit 10 (speed AND 0x3) OR
     (if csaat \<noteq> 0 then push_bit 9 1 else 0) OR
     ((len - 1) AND 0x1FF)"

definition spi_not_ready :: "u32 \<Rightarrow> bool" where
  "spi_not_ready status \<longleftrightarrow>
     status AND SPI_STATUS_READY = 0 \<or> status AND SPI_STATUS_ACTIVE \<noteq> 0"

definition spi_wait_ready :: "'d bus \<Rightarrow> 'd \<Rightarrow> 'd option" where
  "spi_wait_ready B s = do {
     (_, s) \<leftarrow> poll B (SPI0_BASE_ADDR + SPI_STATUS_OFFSET) spi_not_ready s;
     Some s
   }"

definition spi_init :: "'d bus \<Rightarrow> 'd \<Rightarrow> 'd option" where
  "spi_init B s = do {
     let s = bus_write B (SPI0_BASE_ADDR + SPI_CONTROL_OFFSET) SPI_CONTROL_SW_RST s;
     let s = bus_write B (SPI0_BASE_ADDR + SPI_CONTROL_OFFSET) 0 s;
     s \<leftarrow> spi_wait_ready B s;
     let s = bus_write B (SPI0_BASE_ADDR + SPI_CONFIGOPTS_OFFSET) 0 s;
     s \<leftarrow> spi_wait_ready B s;
     let s = bus_write B (SPI0_BASE_ADDR + SPI_CONTROL_OFFSET)
               (SPI_CONTROL_SPIEN OR SPI_CONTROL_OUTPUT_EN) s;
     s \<leftarrow> spi_wait_ready B s;
     Some (bus_write B (SPI0_BASE_ADDR + SPI_CSID_OFFSET) 0 s)
   }"

definition spi_tx_full :: "u32 \<Rightarrow> bool" where
  "spi_tx_full status \<longleftrightarrow> status AND SPI_STATUS_TXFULL \<noteq> 0"

definition spi_transmit_word :: "'d bus \<Rightarrow> u32 \<Rightarrow> 'd \<Rightarrow> 'd option" where
  "spi_transmit_word B word s = do {
     (_, s) \<leftarrow> poll B (SPI0_BASE_ADDR + SPI_STATUS_OFFSET) spi_tx_full s;
     Some (bus_write B (SPI0_BASE_ADDR + SPI_TXDATA_OFFSET) word s)
   }"

definition spi_transmit_byte :: "'d bus \<Rightarrow> u8 \<Rightarrow> 'd \<Rightarrow> 'd option" where
  "spi_transmit_byte B byte s = spi_transmit_word B (ucast byte) s"

definition spi_run_command :: "'d bus \<Rightarrow> u32 \<Rightarrow> u32 \<Rightarrow> u32 \<Rightarrow> u32 \<Rightarrow> 'd \<Rightarrow> 'd option" where
  "spi_run_command B direction speed csaat len s = do {
     s \<leftarrow> spi_wait_ready B s;
     let s = bus_write B (SPI0_BASE_ADDR + SPI_CSID_OFFSET) 0 s;
     let s = bus_write B (SPI0_BASE_ADDR + SPI_COMMAND_OFFSET)
               (spi_make_command direction speed csaat len) s;
     spi_wait_ready B s
   }"

definition spi_rx_empty :: "u32 \<Rightarrow> bool" where
  "spi_rx_empty status \<longleftrightarrow> status AND SPI_STATUS_RXEMPTY \<noteq> 0"

definition spi_receive_word :: "'d bus \<Rightarrow> 'd \<Rightarrow> (u32 \<times> 'd) option" where
  "spi_receive_word B s = do {
     (_, s) \<leftarrow> poll B (SPI0_BASE_ADDR + SPI_STATUS_OFFSET) spi_rx_empty s;
     Some (bus_read B (SPI0_BASE_ADDR + SPI_RXDATA_OFFSET) s)
   }"

section \<open>SPI flash\<close>

definition FLASH_CMD_POWER_UP :: u8 where "FLASH_CMD_POWER_UP = 0xAB"
definition FLASH_CMD_READ_QUAD :: u8 where "FLASH_CMD_READ_QUAD = 0xEB"
definition FLASH_MODE_BYTE :: u32 where "FLASH_MODE_BYTE = 0x00"
definition FLASH_DUMMY_CYCLES :: u32 where "FLASH_DUMMY_CYCLES = 8"

definition flash_power_up :: "'d bus \<Rightarrow> 'd \<Rightarrow> 'd option" where
  "flash_power_up B s = do {
     s \<leftarrow> spi_transmit_byte B FLASH_CMD_POWER_UP s;
     spi_run_command B SPI_DIR_TX SPI_SPEED_STANDARD 0 1 s
   }"

definition flash_pack_address :: "u32 \<Rightarrow> u32" where
  "flash_pack_address addr =
     push_bit 0 (drop_bit 16 addr AND 0xFF) OR
     push_bit 8 (drop_bit 8 addr AND 0xFF) OR
     push_bit 16 (drop_bit 0 addr AND 0xFF) OR
     push_bit 24 (FLASH_MODE_BYTE AND 0xFF)"

definition flash_read_word :: "'d bus \<Rightarrow> u32 \<Rightarrow> 'd \<Rightarrow> (u32 \<times> 'd) option" where
  "flash_read_word B addr s = do {
     s \<leftarrow> spi_transmit_byte B FLASH_CMD_READ_QUAD s;
     s \<leftarrow> spi_run_command B SPI_DIR_TX SPI_SPEED_STANDARD 1 1 s;
     s \<leftarrow> spi_transmit_word B (flash_pack_address addr) s;
     s \<leftarrow> spi_run_command B SPI_DIR_TX SPI_SPEED_QUAD 1 4 s;
     s \<leftarrow> spi_run_command B SPI_DIR_DUMMY SPI_SPEED_QUAD 1 FLASH_DUMMY_CYCLES s;
     s \<leftarrow> spi_run_command B SPI_DIR_RX SPI_SPEED_QUAD 0 4 s;
     spi_receive_word B s
   }"

end
