(* ===== verification/Bootloader.thy ===== *)
theory Bootloader
  imports Boot_Drivers Crc32
begin

unbundle bit_operations_syntax

text \<open>
  The boot flow of \<open>sw/bootloader.c\<close>: \<open>main\<close>, \<open>bootloader_panic\<close> and the copy loop. The
  state is the devices, the SRAM and the two static variables of the CRC section. \<open>main\<close>
  ends in one of two ways: the endless loop of a panic, or the call of the loaded firmware at
  its entry address; a device wait that never ends is \<open>None\<close>. Locals live in registers: the
  modelled SRAM holds no stack, see \<open>copy_hits_stack\<close> for what that leaves out.

  \<open>boot_spec\<close> says what the boot flow does in terms of the flash contents alone. The locale
  \<open>boot_platform\<close> is the contract between the drivers and the boot flow (a byte sent is
  appended to the serial output, a flash word read is the word at that address), and inside
  it \<open>main\<close> is proved to refine \<open>boot_spec\<close>.
\<close>

section \<open>The program\<close>

definition FLASH_MAGIC_OFFSET :: u32 where "FLASH_MAGIC_OFFSET = 0x00"
definition FLASH_SIZE_OFFSET :: u32 where "FLASH_SIZE_OFFSET = 0x04"
definition FLASH_CRC_OFFSET :: u32 where "FLASH_CRC_OFFSET = 0x08"
definition FLASH_PAYLOAD_OFFSET :: u32 where "FLASH_PAYLOAD_OFFSET = 0x0C"
definition EXPECTED_MAGIC :: u32 where "EXPECTED_MAGIC = 0xB007C0DE"
definition SRAM_LOAD_ADDR :: u32 where "SRAM_LOAD_ADDR = 0x00110000"
definition MAX_PAYLOAD_SIZE :: u32 where "MAX_PAYLOAD_SIZE = 0x00010000"

lemmas flash_offset_defs = FLASH_MAGIC_OFFSET_def FLASH_SIZE_OFFSET_def FLASH_CRC_OFFSET_def

datatype boot_end =
    Halted \<comment> \<open>the loop at the end of \<open>bootloader_panic\<close>\<close>
  | Entered u32 \<comment> \<open>\<open>firmware_entry()\<close>, at this address\<close>

record 'd boot_state =
  dev :: 'd
  sram :: mem
  crc_static :: crc_vars

definition bootloader_panic :: "'d bus \<Rightarrow> u8 list \<Rightarrow> 'd \<Rightarrow> 'd option" where
  "bootloader_panic B message d = do {
     d \<leftarrow> uart_send_string B message d;
     uart_send_string B [0x0A] d
   }"

text \<open>The copy loop: \<open>n\<close> more words, the next one with index \<open>i\<close>.\<close>

fun copy_payload :: "'d bus \<Rightarrow> nat \<Rightarrow> nat \<Rightarrow> 'd \<Rightarrow> mem \<Rightarrow> ('d \<times> mem) option" where
  "copy_payload B i 0 d m = Some (d, m)"
| "copy_payload B i (Suc n) d m = do {
     (w, d) \<leftarrow> flash_read_word B (FLASH_PAYLOAD_OFFSET + of_nat i * 4) d;
     copy_payload B (Suc i) n d (write_32 w (SRAM_LOAD_ADDR + of_nat i * 4) m)
   }"

text \<open>
  The last part of \<open>main\<close>, from the copy loop to the call of the firmware; \<open>size\<close> has been
  checked.
\<close>

definition boot_load ::
  "'d bus \<Rightarrow> u32 \<Rightarrow> u32 \<Rightarrow> 'd boot_state \<Rightarrow> (boot_end \<times> 'd boot_state) option" where
  "boot_load B sz stored_crc st = do {
     (d, m) \<leftarrow> copy_payload B 0 (unat (sz div 4)) (dev st) (sram st);
     let (computed_crc, v) =
       crc32_compute (crc_static st) (mem_bytes m SRAM_LOAD_ADDR (unat sz));
     d \<leftarrow> uart_send_label_hex32 B (str_bytes ''STORED='') stored_crc d;
     d \<leftarrow> uart_send_label_hex32 B (str_bytes ''COMPUTED='') computed_crc d;
     if computed_crc \<noteq> stored_crc then do {
       d \<leftarrow> bootloader_panic B (str_bytes ''CRC BAD'') d;
       Some (Halted, \<lparr>dev = d, sram = m, crc_static = v\<rparr>)
     } else do {
       d \<leftarrow> uart_send_string B (str_bytes ''CRC OK'' @ [0x0A]) d;
       let d = bus_write B (SPI0_BASE_ADDR + SPI_CONTROL_OFFSET) 0 d;
       Some (Entered SRAM_LOAD_ADDR, \<lparr>dev = d, sram = m, crc_static = v\<rparr>)
     }
   }"

definition boot_main :: "'d bus \<Rightarrow> 'd boot_state \<Rightarrow> (boot_end \<times> 'd boot_state) option" where
  "boot_main B st = do {
     let d = uart_init B (dev st);
     d \<leftarrow> spi_init B d;
     d \<leftarrow> flash_power_up B d;
     (magic, d) \<leftarrow> flash_read_word B FLASH_MAGIC_OFFSET d;
     (size, d) \<leftarrow> flash_read_word B FLASH_SIZE_OFFSET d;
     (stored_crc, d) \<leftarrow> flash_read_word B FLASH_CRC_OFFSET d;
     d \<leftarrow> uart_send_label_hex32 B (str_bytes ''MAGIC='') magic d;
     if magic \<noteq> EXPECTED_MAGIC then do {
       d \<leftarrow> bootloader_panic B (str_bytes ''MAGIC BAD'') d;
       Some (Halted, st\<lparr>dev := d\<rparr>)
     } else do {
       d \<leftarrow> uart_send_string B (str_bytes ''MAGIC OK'' @ [0x0A]) d;
       d \<leftarrow> uart_send_label_hex32 B (str_bytes ''SIZE='') size d;
       if size = 0 \<or> size > MAX_PAYLOAD_SIZE then do {
         d \<leftarrow> bootloader_panic B (str_bytes ''SIZE BAD'') d;
         Some (Halted, st\<lparr>dev := d\<rparr>)
       } else do {
         d \<leftarrow> uart_send_string B (str_bytes ''SIZE OK'' @ [0x0A]) d;
         boot_load B size stored_crc (st\<lparr>dev := d\<rparr>)
       }
     }
   }"

section \<open>What is printed\<close>

text \<open>\<open>uart_send_string\<close> sends a carriage return before every line feed.\<close>

definition crlf :: "u8 list \<Rightarrow> u8 list" where
  "crlf cs = concat (map (\<lambda>c. if c = 0x0A then [0x0D, c] else [c]) cs)"

definition hex32 :: "u32 \<Rightarrow> u8 list" where
  "hex32 v = map (\<lambda>i. hex_digits ! unat (drop_bit (i * 4) v AND 0xF)) (rev [0..<8])"

definition label_hex32 :: "u8 list \<Rightarrow> u32 \<Rightarrow> u8 list" where
  "label_hex32 label v = crlf label @ hex32 v @ [0x0D, 0x0A]"

definition panic_text :: "u8 list \<Rightarrow> u8 list" where
  "panic_text message = crlf message @ [0x0D, 0x0A]"

section \<open>The specification\<close>

definition payload_words :: "(u32 \<Rightarrow> u32) \<Rightarrow> nat \<Rightarrow> u32 list" where
  "payload_words flash n = map (\<lambda>i. flash (FLASH_PAYLOAD_OFFSET + of_nat i * 4)) [0..<n]"

definition load_payload :: "(u32 \<Rightarrow> u32) \<Rightarrow> u32 \<Rightarrow> mem \<Rightarrow> mem" where
  "load_payload flash sz m =
     store_bytes SRAM_LOAD_ADDR (concat (map word_bytes (payload_words flash (unat sz div 4)))) m"

text \<open>
  From the flash words and the SRAM at power-up: how the boot ends, the SRAM it leaves and
  the text on the serial line.
\<close>

definition boot_load_spec :: "(u32 \<Rightarrow> u32) \<Rightarrow> u32 \<Rightarrow> u32 \<Rightarrow> mem \<Rightarrow> boot_end \<times> mem \<times> u8 list" where
  "boot_load_spec flash sz stored m =
     (let m' = load_payload flash sz m;
          computed = crc_reference (mem_bytes m' SRAM_LOAD_ADDR (unat sz));
          t = label_hex32 (str_bytes ''STORED='') stored @ label_hex32 (str_bytes ''COMPUTED='') computed
      in if computed \<noteq> stored then (Halted, m', t @ panic_text (str_bytes ''CRC BAD''))
         else (Entered SRAM_LOAD_ADDR, m', t @ crlf (str_bytes ''CRC OK'' @ [0x0A])))"

definition boot_spec :: "(u32 \<Rightarrow> u32) \<Rightarrow> mem \<Rightarrow> boot_end \<times> mem \<times> u8 list" where
  "boot_spec flash m =
     (let magic = flash FLASH_MAGIC_OFFSET; sz = flash FLASH_SIZE_OFFSET;
          t1 = label_hex32 (str_bytes ''MAGIC='') magic
      in if magic \<noteq> EXPECTED_MAGIC then (Halted, m, t1 @ panic_text (str_bytes ''MAGIC BAD''))
         else
           let t2 = t1 @ crlf (str_bytes ''MAGIC OK'' @ [0x0A]) @ label_hex32 (str_bytes ''SIZE='') sz
           in if sz = 0 \<or> sz > MAX_PAYLOAD_SIZE
              then (Halted, m, t2 @ panic_text (str_bytes ''SIZE BAD''))
              else
                let (e, m', t) = boot_load_spec flash sz (flash FLASH_CRC_OFFSET) m
                in (e, m', t2 @ crlf (str_bytes ''SIZE OK'' @ [0x0A]) @ t))"

section \<open>The platform contract\<close>

locale boot_platform =
  fixes B :: "'d bus"
    and pre :: "'d \<Rightarrow> bool" \<comment> \<open>power-up states\<close>
    and inv :: "'d \<Rightarrow> bool" \<comment> \<open>states between driver calls\<close>
    and flash :: "'d \<Rightarrow> u32 \<Rightarrow> u32" \<comment> \<open>the word at a flash address\<close>
    and out :: "'d \<Rightarrow> u8 list" \<comment> \<open>bytes sent on the serial line\<close>
  assumes startup: "pre s \<Longrightarrow> \<exists>s1 s2. spi_init B (uart_init B s) = Some s1 \<and>
       flash_power_up B s1 = Some s2 \<and> inv s2 \<and> flash s2 = flash s \<and> out s2 = out s"
    and send: "inv s \<Longrightarrow> \<exists>s'. uart_send_byte B c s = Some s' \<and> inv s' \<and> flash s' = flash s \<and>
       out s' = out s @ [c]"
    and read_word: "inv s \<Longrightarrow> unat a < 2 ^ 24 - 3 \<Longrightarrow> \<exists>s'. flash_read_word B a s = Some (flash s a, s') \<and>
       inv s' \<and> flash s' = flash s \<and> out s' = out s"
    and shut: "inv s \<Longrightarrow> out (bus_write B (SPI0_BASE_ADDR + SPI_CONTROL_OFFSET) 0 s) = out s \<and>
       flash (bus_write B (SPI0_BASE_ADDR + SPI_CONTROL_OFFSET) 0 s) = flash s"
begin

definition sends :: "('d \<Rightarrow> 'd option) \<Rightarrow> u8 list \<Rightarrow> bool" where
  "sends f bs \<longleftrightarrow> (\<forall>s. inv s \<longrightarrow>
     (\<exists>s'. f s = Some s' \<and> inv s' \<and> flash s' = flash s \<and> out s' = out s @ bs))"

lemma sends_bind: "sends f xs \<Longrightarrow> sends g ys \<Longrightarrow> sends (\<lambda>s. Option.bind (f s) g) (xs @ ys)"
  unfolding sends_def by (metis append.assoc bind.bind_lunit)

lemma sends_Some: "sends Some []"
  by (simp add: sends_def)

lemma sends_byte: "sends (uart_send_byte B c) [c]"
  using send by (simp add: sends_def)

lemma sends_string: "0 \<notin> set cs \<Longrightarrow> sends (uart_send_string B cs) (crlf cs)"
proof (induction cs)
  case Nil
  have "sends Some (crlf [])" by (simp add: sends_def crlf_def)
  then show ?case by (simp add: sends_def)
next
  case (Cons c cs)
  have cr: "sends (\<lambda>s. if c = 0x0A then uart_send_byte B 0x0D s else Some s)
      (if c = 0x0A then [0x0D] else [])"
    using sends_byte sends_Some by (auto simp: sends_def)
  have "sends (\<lambda>s. Option.bind (if c = 0x0A then uart_send_byte B 0x0D s else Some s)
      (\<lambda>s. Option.bind (uart_send_byte B c s) (uart_send_string B cs)))
      ((if c = 0x0A then [0x0D] else []) @ [c] @ crlf cs)"
    by (intro sends_bind cr sends_byte Cons.IH) (use Cons.prems in auto)
  moreover have "(if c = 0x0A then [0x0D] else []) @ [c] @ crlf cs = crlf (c # cs)"
    by (simp add: crlf_def)
  ultimately show ?case using Cons.prems by (simp add: sends_def)
qed

lemma sends_hex_loop:
  "sends (uart_hex_loop B n v)
     (map (\<lambda>i. hex_digits ! unat (drop_bit (i * 4) v AND 0xF)) (rev [0..<n]))"
proof (induction n)
  case 0
  have "sends Some []" by (rule sends_Some)
  then show ?case by (simp add: sends_def)
next
  case (Suc n)
  from sends_bind [OF sends_byte Suc] show ?case by (simp add: sends_def Let_def)
qed

lemma sends_hex32: "sends (uart_send_hex32 B v) (hex32 v)"
  using sends_hex_loop [of 8 v] by (simp add: sends_def uart_send_hex32_def hex32_def)

lemma sends_label_hex32:
  assumes "0 \<notin> set label"
  shows "sends (uart_send_label_hex32 B label v) (label_hex32 label v)"
proof -
  have "sends (uart_send_string B [0x0A]) [0x0D, 0x0A]"
    using sends_string [of "[0x0A]"] by (simp add: crlf_def)
  from sends_bind [OF sends_string [OF assms] sends_bind [OF sends_hex32 this]]
  show ?thesis by (simp add: sends_def uart_send_label_hex32_def label_hex32_def
        del: uart_send_string.simps)
qed

lemma sends_panic:
  assumes "0 \<notin> set message"
  shows "sends (bootloader_panic B message) (panic_text message)"
proof -
  have "sends (uart_send_string B [0x0A]) [0x0D, 0x0A]"
    using sends_string [of "[0x0A]"] by (simp add: crlf_def)
  from sends_bind [OF sends_string [OF assms] this]
  show ?thesis by (simp add: sends_def bootloader_panic_def panic_text_def del: uart_send_string.simps)
qed

lemma sendsE:
  assumes "sends f bs" "inv s"
  obtains s' where "f s = Some s'" "inv s'" "flash s' = flash s" "out s' = out s @ bs"
  using assms unfolding sends_def by blast

lemma read_wordE:
  assumes "inv s" "unat a < 2 ^ 24 - 3"
  obtains s' where "flash_read_word B a s = Some (flash s a, s')" "inv s'" "flash s' = flash s"
    "out s' = out s"
  using read_word [OF assms] by blast

lemma copy_payload_ok:
  "inv d \<Longrightarrow> i + n \<le> 2 ^ 20 \<Longrightarrow>
     \<exists>d'. copy_payload B i n d m =
            Some (d', store_bytes (SRAM_LOAD_ADDR + of_nat i * 4)
              (concat (map (\<lambda>k. word_bytes (flash d (FLASH_PAYLOAD_OFFSET + of_nat k * 4)))
                 [i..<i + n])) m) \<and>
          inv d' \<and> flash d' = flash d \<and> out d' = out d"
proof (induction n arbitrary: i d m)
  case 0
  then show ?case by simp
next
  case (Suc n)
  let ?a = "FLASH_PAYLOAD_OFFSET + of_nat i * 4"
  have "unat ?a < 2 ^ 24 - 3"
    using Suc.prems(2) by (simp add: FLASH_PAYLOAD_OFFSET_def unat_word_ariths unat_of_nat)
  from read_wordE [OF Suc.prems(1) this] obtain d1 where
    d1: "flash_read_word B ?a d = Some (flash d ?a, d1)" "inv d1" "flash d1 = flash d" "out d1 = out d" .
  let ?m = "write_32 (flash d ?a) (SRAM_LOAD_ADDR + of_nat i * 4) m"
  from Suc.prems(2) have "Suc i + n \<le> 2 ^ 20" by simp
  from Suc.IH [OF d1(2) this, of ?m] d1 show ?case
    by (simp add: upt_conv_Cons write_32_store store_bytes_append algebra_simps del: upt_Suc)
qed

lemma copy_payload_load:
  assumes "inv d" "sz \<le> MAX_PAYLOAD_SIZE"
  obtains d' where "copy_payload B 0 (unat (sz div 4)) d m = Some (d', load_payload (flash d) sz m)"
    "inv d'" "flash d' = flash d" "out d' = out d"
proof -
  have n: "unat (sz div 4) = unat sz div 4" by (simp add: unat_div)
  from assms(2) have "unat sz \<le> 65536" by (simp add: MAX_PAYLOAD_SIZE_def word_le_nat_alt)
  then have "0 + unat (sz div 4) \<le> 2 ^ 20" by (simp add: n)
  from copy_payload_ok [OF assms(1) this, of m] that show thesis
    by (auto simp: load_payload_def payload_words_def n comp_def)
qed

text \<open>The messages of the boot flow contain no zero byte.\<close>

lemma no_zero_messages:
  "0 \<notin> set (str_bytes ''MAGIC='')" "0 \<notin> set (str_bytes ''SIZE='')"
  "0 \<notin> set (str_bytes ''STORED='')" "0 \<notin> set (str_bytes ''COMPUTED='')"
  "0 \<notin> set (str_bytes ''MAGIC BAD'')" "0 \<notin> set (str_bytes ''SIZE BAD'')"
  "0 \<notin> set (str_bytes ''CRC BAD'')" "0 \<notin> set (str_bytes ''MAGIC OK'' @ [0x0A])"
  "0 \<notin> set (str_bytes ''SIZE OK'' @ [0x0A])" "0 \<notin> set (str_bytes ''CRC OK'' @ [0x0A])"
  by (simp_all add: str_bytes_def)

lemma boot_load_refines:
  assumes "inv (dev st)" "crc_vars_ok (crc_static st)" "sz \<le> MAX_PAYLOAD_SIZE"
  shows "\<exists>st'. boot_load B sz stored st =
       Some (fst (boot_load_spec (flash (dev st)) sz stored (sram st)), st') \<and>
     sram st' = fst (snd (boot_load_spec (flash (dev st)) sz stored (sram st))) \<and>
     flash (dev st') = flash (dev st) \<and>
     out (dev st') = out (dev st) @ snd (snd (boot_load_spec (flash (dev st)) sz stored (sram st)))"
proof -
  let ?f = "flash (dev st)"
  from copy_payload_load [OF assms(1,3), of "sram st"] obtain d1 where
    d1: "copy_payload B 0 (unat (sz div 4)) (dev st) (sram st) =
        Some (d1, load_payload ?f sz (sram st))"
      "inv d1" "flash d1 = ?f" "out d1 = out (dev st)" .
  let ?data = "mem_bytes (load_payload ?f sz (sram st)) SRAM_LOAD_ADDR (unat sz)"
  let ?computed = "crc_reference ?data"
  obtain v where crc: "crc32_compute (crc_static st) ?data = (?computed, v)"
    using crc32_compute_correct [OF assms(2), of ?data] by (metis prod.collapse)
  from sendsE [OF sends_label_hex32 [OF no_zero_messages(3), of stored] d1(2)] obtain d2 where
    d2: "uart_send_label_hex32 B (str_bytes ''STORED='') stored d1 = Some d2" "inv d2"
      "flash d2 = flash d1" "out d2 = out d1 @ label_hex32 (str_bytes ''STORED='') stored" .
  from sendsE [OF sends_label_hex32 [OF no_zero_messages(4), of ?computed] d2(2)] obtain d3 where
    d3: "uart_send_label_hex32 B (str_bytes ''COMPUTED='') ?computed d2 = Some d3" "inv d3"
      "flash d3 = flash d2" "out d3 = out d2 @ label_hex32 (str_bytes ''COMPUTED='') ?computed" .
  show ?thesis
  proof (cases "?computed = stored")
    case False
    from sendsE [OF sends_panic [OF no_zero_messages(7)] d3(2)] obtain d4 where
      "bootloader_panic B (str_bytes ''CRC BAD'') d3 = Some d4"
      "flash d4 = flash d3" "out d4 = out d3 @ panic_text (str_bytes ''CRC BAD'')" .
    with d1 crc d2 d3 False show ?thesis by (simp add: boot_load_def boot_load_spec_def Let_def)
  next
    case True
    from sendsE [OF sends_string [OF no_zero_messages(10)] d3(2)] obtain d4 where
      "uart_send_string B (str_bytes ''CRC OK'' @ [0x0A]) d3 = Some d4" "inv d4"
      "flash d4 = flash d3" "out d4 = out d3 @ crlf (str_bytes ''CRC OK'' @ [0x0A])" .
    with d1 crc d2 d3 True shut [of d4] show ?thesis
      by (simp add: boot_load_def boot_load_spec_def Let_def)
  qed
qed

lemma read_header:
  assumes "inv d"
  obtains d1 d2 d3 where
    "flash_read_word B FLASH_MAGIC_OFFSET d = Some (flash d FLASH_MAGIC_OFFSET, d1)"
    "flash_read_word B FLASH_SIZE_OFFSET d1 = Some (flash d FLASH_SIZE_OFFSET, d2)"
    "flash_read_word B FLASH_CRC_OFFSET d2 = Some (flash d FLASH_CRC_OFFSET, d3)"
    "inv d3" "flash d3 = flash d" "out d3 = out d"
proof -
  have "unat FLASH_MAGIC_OFFSET < 2 ^ 24 - 3" "unat FLASH_SIZE_OFFSET < 2 ^ 24 - 3"
    "unat FLASH_CRC_OFFSET < 2 ^ 24 - 3" by (simp_all add: flash_offset_defs)
  note offs = this
  from read_wordE [OF assms offs(1)] obtain d1 where
    1: "flash_read_word B FLASH_MAGIC_OFFSET d = Some (flash d FLASH_MAGIC_OFFSET, d1)"
      "inv d1" "flash d1 = flash d" "out d1 = out d" .
  from read_wordE [OF 1(2) offs(2)] obtain d2 where
    2: "flash_read_word B FLASH_SIZE_OFFSET d1 = Some (flash d1 FLASH_SIZE_OFFSET, d2)"
      "inv d2" "flash d2 = flash d1" "out d2 = out d1" .
  from read_wordE [OF 2(2) offs(3)] obtain d3 where
    3: "flash_read_word B FLASH_CRC_OFFSET d2 = Some (flash d2 FLASH_CRC_OFFSET, d3)"
      "inv d3" "flash d3 = flash d2" "out d3 = out d2" .
  from that [of d1 d2 d3] 1 2 3 show thesis by simp
qed

theorem boot_main_refines:
  assumes "pre (dev st)" "crc_vars_ok (crc_static st)"
  shows "\<exists>st'. boot_main B st = Some (fst (boot_spec (flash (dev st)) (sram st)), st') \<and>
     sram st' = fst (snd (boot_spec (flash (dev st)) (sram st))) \<and>
     flash (dev st') = flash (dev st) \<and>
     out (dev st') = out (dev st) @ snd (snd (boot_spec (flash (dev st)) (sram st)))"
proof -
  let ?f = "flash (dev st)"
  let ?magic = "?f FLASH_MAGIC_OFFSET" and ?size = "?f FLASH_SIZE_OFFSET"
    and ?stored = "?f FLASH_CRC_OFFSET"
  from startup [OF assms(1)] obtain d0 d1 where
    d1: "spi_init B (uart_init B (dev st)) = Some d0" "flash_power_up B d0 = Some d1" "inv d1"
      "flash d1 = ?f" "out d1 = out (dev st)" by blast
  from read_header [OF d1(3)] obtain d2 d3 d4 where
    d4: "flash_read_word B FLASH_MAGIC_OFFSET d1 = Some (flash d1 FLASH_MAGIC_OFFSET, d2)"
      "flash_read_word B FLASH_SIZE_OFFSET d2 = Some (flash d1 FLASH_SIZE_OFFSET, d3)"
      "flash_read_word B FLASH_CRC_OFFSET d3 = Some (flash d1 FLASH_CRC_OFFSET, d4)"
      "inv d4" "flash d4 = flash d1" "out d4 = out d1" .
  from sendsE [OF sends_label_hex32 [OF no_zero_messages(1), of ?magic] d4(4)] obtain d5 where
    d5: "uart_send_label_hex32 B (str_bytes ''MAGIC='') ?magic d4 = Some d5" "inv d5"
      "flash d5 = flash d4" "out d5 = out d4 @ label_hex32 (str_bytes ''MAGIC='') ?magic" .
  from sendsE [OF sends_string [OF no_zero_messages(8)] d5(2)] obtain d6 where
    d6: "uart_send_string B (str_bytes ''MAGIC OK'' @ [0x0A]) d5 = Some d6" "inv d6"
      "flash d6 = flash d5" "out d6 = out d5 @ crlf (str_bytes ''MAGIC OK'' @ [0x0A])" .
  from sendsE [OF sends_label_hex32 [OF no_zero_messages(2), of ?size] d6(2)] obtain d7 where
    d7: "uart_send_label_hex32 B (str_bytes ''SIZE='') ?size d6 = Some d7" "inv d7"
      "flash d7 = flash d6" "out d7 = out d6 @ label_hex32 (str_bytes ''SIZE='') ?size" .
  from sendsE [OF sends_string [OF no_zero_messages(9)] d7(2)] obtain d8 where
    d8: "uart_send_string B (str_bytes ''SIZE OK'' @ [0x0A]) d7 = Some d8" "inv d8"
      "flash d8 = flash d7" "out d8 = out d7 @ crlf (str_bytes ''SIZE OK'' @ [0x0A])" .
  from sendsE [OF sends_panic [OF no_zero_messages(5)] d5(2)] obtain e5 where
    e5: "bootloader_panic B (str_bytes ''MAGIC BAD'') d5 = Some e5"
      "flash e5 = flash d5" "out e5 = out d5 @ panic_text (str_bytes ''MAGIC BAD'')" .
  from sendsE [OF sends_panic [OF no_zero_messages(6)] d7(2)] obtain e7 where
    e7: "bootloader_panic B (str_bytes ''SIZE BAD'') d7 = Some e7"
      "flash e7 = flash d7" "out e7 = out d7 @ panic_text (str_bytes ''SIZE BAD'')" .
  note known = d1 d4 d5 d6 d7 d8 e5 e7
  consider "?magic \<noteq> EXPECTED_MAGIC" | "?magic = EXPECTED_MAGIC" "?size = 0 \<or> ?size > MAX_PAYLOAD_SIZE"
    | "?magic = EXPECTED_MAGIC" "\<not> (?size = 0 \<or> ?size > MAX_PAYLOAD_SIZE)" by blast
  then show ?thesis
  proof cases
    case 1
    with known show ?thesis by (simp add: boot_main_def boot_spec_def)
  next
    case 2
    with known show ?thesis by (simp add: boot_main_def boot_spec_def)
  next
    case 3
    then have "?size \<le> MAX_PAYLOAD_SIZE" by auto
    with boot_load_refines [of "st\<lparr>dev := d8\<rparr>" ?size ?stored] d8 assms(2) known
    obtain st' where "boot_load B ?size ?stored (st\<lparr>dev := d8\<rparr>) =
          Some (fst (boot_load_spec ?f ?size ?stored (sram st)), st')"
        "sram st' = fst (snd (boot_load_spec ?f ?size ?stored (sram st)))" "flash (dev st') = ?f"
        "out (dev st') = out d8 @ snd (snd (boot_load_spec ?f ?size ?stored (sram st)))"
      by auto
    with known 3 show ?thesis by (simp add: boot_main_def boot_spec_def split_beta Let_def)
  qed
qed

end

end
