(* ===== verification/Soc_Model.thy ===== *)
theory Soc_Model
  imports Spiflash_Hw Bootloader
begin

unbundle bit_operations_syntax

text \<open>
  The simulated SoC around the boot programs: a UART and an SPI host with the flash of
  \<open>dv/spiflash.v\<close> on its pins, behind the two-function bus of \<open>Mmio\<close>. It is a
  transaction-level reading of the peripherals' register documentation
  (\<open>vendor/lowrisc_ip/ip/uart/doc\<close>, \<open>vendor/lowrisc_ip/ip/spi_host/doc\<close>): a segment written to
  COMMAND runs on the pins clock by clock, then the host reports ACTIVE for as many status
  reads as the next entry of \<open>delays\<close> says; the transmitter reports TXFULL likewise after each
  byte. The theorems hold for every list of delays. What the hardware would drop or refuse is
  dropped here: a byte written while the transmitter is full, a command while the host is
  active, not enabled or in reset, a command whose data is not in the FIFO, a bidirectional
  segment (no program here uses one).
\<close>

section \<open>State and registers\<close>

record soc =
  uart_ctrl :: u32
  uart_wait :: nat
  uart_out :: "u8 list"
  spi_control :: u32
  spi_configopts :: u32
  spi_csid :: u32
  spi_wait :: nat
  tx_fifo :: "u32 list"
  rx_fifo :: "u32 list"
  spi_flash :: spiflash
  delays :: "nat list"

definition next_delay :: "nat list \<Rightarrow> nat" where
  "next_delay ds = (case ds of [] \<Rightarrow> 0 | d # _ \<Rightarrow> d)"

definition tx_fifo_depth :: nat where
  "tx_fifo_depth = 72"

section \<open>SPI segments\<close>

definition seg_len :: "u32 \<Rightarrow> nat" where
  "seg_len cmd = unat (cmd AND 0x1FF) + 1"

definition seg_lanes :: "u32 \<Rightarrow> nat" where
  "seg_lanes cmd = (let v = drop_bit 10 cmd AND 0x3 in if v = 0 then 1 else if v = 1 then 2 else 4)"

definition seg_dir :: "u32 \<Rightarrow> u32" where
  "seg_dir cmd = drop_bit 12 cmd AND 0x3"

definition seg_csaat :: "u32 \<Rightarrow> bool" where
  "seg_csaat cmd = bit cmd 9"

text \<open>Received bytes are packed into words, the first byte lowest, the last word padded.\<close>

fun pack_words :: "u8 list \<Rightarrow> u32 list" where
  "pack_words [] = []"
| "pack_words [a] = [bytes_word a 0 0 0]"
| "pack_words [a, b] = [bytes_word a b 0 0]"
| "pack_words [a, b, c] = [bytes_word a b c 0]"
| "pack_words (a # b # c # d # bs) = bytes_word a b c d # pack_words bs"

definition run_segment :: "u32 \<Rightarrow> soc \<Rightarrow> soc" where
  "run_segment cmd s =
     (let n = seg_len cmd; k = seg_lanes cmd; words = (n + 3) div 4;
          f = (if csb (spi_flash s) then csb_fall 0 (spi_flash s) else spi_flash s);
          close = (\<lambda>f. if seg_csaat cmd then f else csb_rise f);
          busy = s\<lparr>spi_wait := next_delay (delays s), delays := tl (delays s)\<rparr>
      in if seg_dir cmd = 0 then busy\<lparr>spi_flash := close (dummy_clocks n f)\<rparr>
         else if seg_dir cmd = 1 then
           case receive_bytes k n f of (bs, f) \<Rightarrow>
             busy\<lparr>spi_flash := close f, rx_fifo := rx_fifo s @ pack_words bs\<rparr>
         else if seg_dir cmd = 2 \<and> words \<le> length (tx_fifo s) then
           busy\<lparr>spi_flash := close (send_bytes k (take n (concat (map word_bytes (take words (tx_fifo s))))) f),
                tx_fifo := drop words (tx_fifo s)\<rparr>
         else s)"

section \<open>The bus\<close>

definition spi_enabled :: "soc \<Rightarrow> bool" where
  "spi_enabled s \<longleftrightarrow> bit (spi_control s) 31 \<and> \<not> bit (spi_control s) 30 \<and> bit (spi_control s) 29 \<and>
     spi_csid s = 0"

definition spi_status :: "soc \<Rightarrow> u32" where
  "spi_status s =
     (if spi_wait s = 0 then SPI_STATUS_READY else SPI_STATUS_ACTIVE) OR
     (if tx_fifo_depth \<le> length (tx_fifo s) then SPI_STATUS_TXFULL else 0) OR
     (if spi_wait s \<noteq> 0 \<or> rx_fifo s = [] then SPI_STATUS_RXEMPTY else 0)"

definition soc_read :: "u32 \<Rightarrow> soc \<Rightarrow> u32 \<times> soc" where
  "soc_read a s =
     (if a = UART_BASE + UART_STATUS_REG then
        (if uart_wait s = 0 then 0 else UART_TX_FULL, s\<lparr>uart_wait := uart_wait s - 1\<rparr>)
      else if a = SPI0_BASE_ADDR + SPI_STATUS_OFFSET then
        (spi_status s, s\<lparr>spi_wait := spi_wait s - 1\<rparr>)
      else if a = SPI0_BASE_ADDR + SPI_RXDATA_OFFSET then
        (if spi_wait s \<noteq> 0 \<or> rx_fifo s = [] then (0, s)
         else (hd (rx_fifo s), s\<lparr>rx_fifo := tl (rx_fifo s)\<rparr>))
      else (0, s))"

definition soc_write :: "u32 \<Rightarrow> u32 \<Rightarrow> soc \<Rightarrow> soc" where
  "soc_write a v s =
     (if a = UART_BASE + UART_CTRL_REG then s\<lparr>uart_ctrl := v\<rparr>
      else if a = UART_BASE + UART_TX_REG then
        (if uart_wait s = 0 \<and> bit (uart_ctrl s) 0
         then s\<lparr>uart_out := uart_out s @ [ucast v], uart_wait := next_delay (delays s),
                delays := tl (delays s)\<rparr>
         else s)
      else if a = SPI0_BASE_ADDR + SPI_CONTROL_OFFSET then
        (if bit v 30 then s\<lparr>spi_control := v, tx_fifo := [], rx_fifo := []\<rparr>
         else s\<lparr>spi_control := v\<rparr>)
      else if a = SPI0_BASE_ADDR + SPI_CONFIGOPTS_OFFSET then s\<lparr>spi_configopts := v\<rparr>
      else if a = SPI0_BASE_ADDR + SPI_CSID_OFFSET then s\<lparr>spi_csid := v\<rparr>
      else if a = SPI0_BASE_ADDR + SPI_COMMAND_OFFSET then
        (if spi_wait s = 0 \<and> spi_enabled s then run_segment v s else s)
      else if a = SPI0_BASE_ADDR + SPI_TXDATA_OFFSET then
        (if length (tx_fifo s) < tx_fifo_depth then s\<lparr>tx_fifo := tx_fifo s @ [v]\<rparr> else s)
      else s)"

definition soc_bus :: "soc bus" where
  "soc_bus = \<lparr>bus_read = soc_read, bus_write = soc_write\<rparr>"

lemma soc_bus_simps [simp]: "bus_read soc_bus = soc_read" "bus_write soc_bus = soc_write"
  by (simp_all add: soc_bus_def)

text \<open>The register addresses differ, so each access reduces to its own branch.\<close>

lemma soc_read_simps [step_simps]:
  "soc_read (UART_BASE + UART_STATUS_REG) s =
     (if uart_wait s = 0 then 0 else UART_TX_FULL, s\<lparr>uart_wait := uart_wait s - 1\<rparr>)"
  "soc_read (SPI0_BASE_ADDR + SPI_STATUS_OFFSET) s =
     (spi_status s, s\<lparr>spi_wait := spi_wait s - 1\<rparr>)"
  "soc_read (SPI0_BASE_ADDR + SPI_RXDATA_OFFSET) s =
     (if spi_wait s \<noteq> 0 \<or> rx_fifo s = [] then (0, s)
      else (hd (rx_fifo s), s\<lparr>rx_fifo := tl (rx_fifo s)\<rparr>))"
  by (simp_all add: soc_read_def uart_reg_defs spi_reg_defs)

lemma soc_write_simps [step_simps]:
  "soc_write (UART_BASE + UART_CTRL_REG) v s = s\<lparr>uart_ctrl := v\<rparr>"
  "soc_write (UART_BASE + UART_TX_REG) v s =
     (if uart_wait s = 0 \<and> bit (uart_ctrl s) 0
      then s\<lparr>uart_out := uart_out s @ [ucast v], uart_wait := next_delay (delays s),
             delays := tl (delays s)\<rparr> else s)"
  "soc_write (SPI0_BASE_ADDR + SPI_CONTROL_OFFSET) v s =
     (if bit v 30 then s\<lparr>spi_control := v, tx_fifo := [], rx_fifo := []\<rparr> else s\<lparr>spi_control := v\<rparr>)"
  "soc_write (SPI0_BASE_ADDR + SPI_CONFIGOPTS_OFFSET) v s = s\<lparr>spi_configopts := v\<rparr>"
  "soc_write (SPI0_BASE_ADDR + SPI_CSID_OFFSET) v s = s\<lparr>spi_csid := v\<rparr>"
  "soc_write (SPI0_BASE_ADDR + SPI_COMMAND_OFFSET) v s =
     (if spi_wait s = 0 \<and> spi_enabled s then run_segment v s else s)"
  "soc_write (SPI0_BASE_ADDR + SPI_TXDATA_OFFSET) v s =
     (if length (tx_fifo s) < tx_fifo_depth then s\<lparr>tx_fifo := tx_fifo s @ [v]\<rparr> else s)"
  by (simp_all add: soc_write_def uart_reg_defs spi_reg_defs)

section \<open>Polling this SoC\<close>

lemma spi_status_bits:
  "spi_not_ready (spi_status s) \<longleftrightarrow> spi_wait s \<noteq> 0"
  "spi_tx_full (spi_status s) \<longleftrightarrow> tx_fifo_depth \<le> length (tx_fifo s)"
  "spi_rx_empty (spi_status s) \<longleftrightarrow> spi_wait s \<noteq> 0 \<or> rx_fifo s = []"
  by (auto simp: spi_not_ready_def spi_tx_full_def spi_rx_empty_def spi_status_def spi_bit_defs)

definition uart_rest :: "soc \<Rightarrow> soc" where
  "uart_rest s = s\<lparr>uart_wait := 0\<rparr>"

definition spi_rest :: "soc \<Rightarrow> soc" where
  "spi_rest s = s\<lparr>spi_wait := 0\<rparr>"

interpretation uart_tx: pollable soc_bus "UART_BASE + UART_STATUS_REG" uart_tx_busy "\<lambda>_. True"
    uart_rest uart_wait
  by unfold_locales (auto simp: step_simps uart_rest_def uart_tx_busy_def split: if_splits)

interpretation spi_ready: pollable soc_bus "SPI0_BASE_ADDR + SPI_STATUS_OFFSET" spi_not_ready
    "\<lambda>_. True" spi_rest spi_wait
  by unfold_locales (auto simp: step_simps spi_rest_def spi_status_bits)

interpretation spi_rx: pollable soc_bus "SPI0_BASE_ADDR + SPI_STATUS_OFFSET" spi_rx_empty
    "\<lambda>s. rx_fifo s \<noteq> []" spi_rest spi_wait
  by unfold_locales (auto simp: step_simps spi_rest_def spi_status_bits)

interpretation spi_tx: pollable soc_bus "SPI0_BASE_ADDR + SPI_STATUS_OFFSET" spi_tx_full
    "\<lambda>s. length (tx_fifo s) < tx_fifo_depth" "\<lambda>s. s\<lparr>spi_wait := 0\<rparr>" spi_wait
  by unfold_locales (auto simp: step_simps spi_status_bits)

lemma ucast_u8_u32 [simp]: "ucast (ucast (b :: u8) :: u32) = b"
  by (rule bit_word_eqI) (auto simp: bit_simps dest: bit_u8_less)

section \<open>The drivers on this SoC\<close>

lemma uart_poll: "poll soc_bus (UART_BASE + UART_STATUS_REG) uart_tx_busy s = Some (0, uart_rest s)"
proof (rule uart_tx.poll_cases [OF TrueI])
  fix v s0 s'
  assume "poll soc_bus (UART_BASE + UART_STATUS_REG) uart_tx_busy s = Some (v, s')"
    "\<not> uart_tx_busy v" "uart_rest s' = uart_rest s"
    "bus_read soc_bus (UART_BASE + UART_STATUS_REG) s0 = (v, s')"
  then show ?thesis
    by (auto simp: step_simps uart_tx_busy_def UART_TX_FULL_def uart_rest_def split: if_splits)
qed

lemma uart_send_byte_soc:
  "bit (uart_ctrl s) 0 \<Longrightarrow> uart_send_byte soc_bus c s =
     Some (s\<lparr>uart_out := uart_out s @ [c], uart_wait := next_delay (delays s),
             delays := tl (delays s)\<rparr>)"
  by (simp add: uart_send_byte_def uart_poll step_simps uart_rest_def)

lemma spi_wait_ready_soc: "spi_wait_ready soc_bus s = Some (spi_rest s)"
proof (rule spi_ready.poll_cases [OF TrueI])
  fix v s0 s'
  assume "poll soc_bus (SPI0_BASE_ADDR + SPI_STATUS_OFFSET) spi_not_ready s = Some (v, s')"
    "\<not> spi_not_ready v" "spi_rest s' = spi_rest s"
    "bus_read soc_bus (SPI0_BASE_ADDR + SPI_STATUS_OFFSET) s0 = (v, s')"
  then show ?thesis
    by (auto simp: spi_wait_ready_def step_simps spi_status_bits spi_rest_def)
qed

lemma spi_transmit_word_soc:
  assumes "spi_wait s = 0" "tx_fifo s = []"
  shows "spi_transmit_word soc_bus w s = Some (s\<lparr>tx_fifo := [w]\<rparr>)"
proof -
  have "bus_read soc_bus (SPI0_BASE_ADDR + SPI_STATUS_OFFSET) s = (spi_status s, s)"
    using assms by (simp add: step_simps)
  from poll_step [OF this, of spi_tx_full] assms show ?thesis
    by (simp add: spi_transmit_word_def spi_status_bits step_simps tx_fifo_depth_def)
qed

lemma spi_receive_word_soc:
  assumes "spi_wait s = 0" "rx_fifo s = w # ws"
  shows "spi_receive_word soc_bus s = Some (w, s\<lparr>rx_fifo := ws\<rparr>)"
proof -
  have "bus_read soc_bus (SPI0_BASE_ADDR + SPI_STATUS_OFFSET) s = (spi_status s, s)"
    using assms by (simp add: step_simps)
  from poll_step [OF this, of spi_rx_empty] assms show ?thesis
    by (simp add: spi_receive_word_def spi_status_bits step_simps)
qed

text \<open>The SPI host is configured as \<open>spi_init\<close> leaves it and has nothing under way.\<close>

definition spi_on :: "soc \<Rightarrow> bool" where
  "spi_on s \<longleftrightarrow> spi_control s = SPI_CONTROL_SPIEN OR SPI_CONTROL_OUTPUT_EN \<and> spi_csid s = 0 \<and>
     spi_wait s = 0"

lemma spi_on_enabled: "spi_on s \<Longrightarrow> spi_enabled s"
  by (simp add: spi_on_def spi_enabled_def spi_bit_defs bit_simps)

lemma spi_on_updates [simp]:
  "spi_on (s\<lparr>tx_fifo := t\<rparr>) = spi_on s" "spi_on (s\<lparr>rx_fifo := r\<rparr>) = spi_on s"
  "spi_on (s\<lparr>spi_flash := f\<rparr>) = spi_on s" "spi_on (s\<lparr>delays := d\<rparr>) = spi_on s"
  "spi_on (s\<lparr>uart_out := u\<rparr>) = spi_on s" "spi_on (s\<lparr>uart_wait := n\<rparr>) = spi_on s"
  by (simp_all add: spi_on_def)

lemma spi_on_wait: "spi_on s \<Longrightarrow> spi_wait s = 0"
  by (simp add: spi_on_def)

lemma spi_run_command_soc:
  assumes "spi_on s"
  shows "spi_run_command soc_bus dir speed csaat len s =
     Some (spi_rest (run_segment (spi_make_command dir speed csaat len) s))"
proof -
  have e: "s\<lparr>spi_wait := 0, spi_csid := 0\<rparr> = s" and w: "spi_wait s = 0"
    using assms by (cases s; simp add: spi_on_def)+
  show ?thesis
    unfolding spi_run_command_def spi_wait_ready_soc spi_rest_def
    by (simp add: step_simps spi_on_enabled [OF assms] w Let_def e)
qed

text \<open>What each of the five segments of a boot flash access does to the SoC.\<close>

lemma segment_opcode:
  assumes "spi_on s" "tx_fifo s = [ucast (b :: u8)]" "csb (spi_flash s)"
  shows "spi_rest (run_segment (spi_make_command SPI_DIR_TX SPI_SPEED_STANDARD 1 1) s) =
    s\<lparr>spi_flash := send_byte 1 b (csb_fall 0 (spi_flash s)), tx_fifo := [], delays := tl (delays s)\<rparr>"
    "spi_rest (run_segment (spi_make_command SPI_DIR_TX SPI_SPEED_STANDARD 0 1) s) =
    s\<lparr>spi_flash := csb_rise (send_byte 1 b (csb_fall 0 (spi_flash s))), tx_fifo := [],
      delays := tl (delays s)\<rparr>"
  using assms
  by (cases s; simp add: run_segment_def spi_make_command_def spi_cmd_defs seg_len_def seg_lanes_def
      seg_dir_def seg_csaat_def Let_def spi_rest_def spi_on_def word_bytes_def byte_of_def)+

lemma segment_quad_tx:
  assumes "spi_on s" "tx_fifo s = [w]" "\<not> csb (spi_flash s)"
  shows "spi_rest (run_segment (spi_make_command SPI_DIR_TX SPI_SPEED_QUAD 1 4) s) =
    s\<lparr>spi_flash := send_bytes 4 (word_bytes w) (spi_flash s), tx_fifo := [], delays := tl (delays s)\<rparr>"
  using assms
  by (cases s) (simp add: run_segment_def spi_make_command_def spi_cmd_defs seg_len_def seg_lanes_def
      seg_dir_def seg_csaat_def Let_def spi_rest_def spi_on_def word_bytes_def)

lemma segment_dummy:
  assumes "spi_on s" "\<not> csb (spi_flash s)"
  shows "spi_rest (run_segment (spi_make_command SPI_DIR_DUMMY SPI_SPEED_QUAD 1 FLASH_DUMMY_CYCLES) s) =
    s\<lparr>spi_flash := dummy_clocks 8 (spi_flash s), delays := tl (delays s)\<rparr>"
  using assms
  by (cases s) (simp add: run_segment_def spi_make_command_def spi_cmd_defs seg_len_def seg_lanes_def
      seg_dir_def seg_csaat_def Let_def spi_rest_def spi_on_def FLASH_DUMMY_CYCLES_def)

lemma segment_quad_rx:
  assumes "spi_on s" "\<not> csb (spi_flash s)" "rx_fifo s = []"
  shows "spi_rest (run_segment (spi_make_command SPI_DIR_RX SPI_SPEED_QUAD 0 4) s) =
    s\<lparr>spi_flash := csb_rise (snd (receive_bytes 4 4 (spi_flash s))),
      rx_fifo := pack_words (fst (receive_bytes 4 4 (spi_flash s))), delays := tl (delays s)\<rparr>"
  using assms
  by (cases s) (simp add: run_segment_def spi_make_command_def spi_cmd_defs seg_len_def seg_lanes_def
      seg_dir_def seg_csaat_def Let_def spi_rest_def spi_on_def split: prod.split)

section \<open>Reading a word of flash\<close>

definition soc_idle :: "soc \<Rightarrow> bool" where
  "soc_idle s \<longleftrightarrow> bit (uart_ctrl s) 0 \<and> spi_on s \<and> tx_fifo s = [] \<and> rx_fifo s = [] \<and>
     flash_idle (spi_flash s) \<and> powered_up (spi_flash s)"

text \<open>The flash word at a byte address, the lowest address in the lowest byte.\<close>

definition flash_word :: "soc \<Rightarrow> u32 \<Rightarrow> u32" where
  "flash_word s a =
     (let m = fl_memory (spi_flash s); a = ucast a
      in bytes_word (m a) (m (a + 1)) (m (a + 2)) (m (a + 3)))"

lemma pack_address_bytes:
  "word_bytes (flash_pack_address a) =
     [ucast (drop_bit 16 a), ucast (drop_bit 8 a), ucast a, 0]"
proof -
  have m: "(0xFF :: u32) = mask 8" by (simp add: mask_eq_exp_minus_1)
  have "byte_of (flash_pack_address a) 0 = ucast (drop_bit 16 a)"
    "byte_of (flash_pack_address a) 1 = ucast (drop_bit 8 a)"
    "byte_of (flash_pack_address a) 2 = ucast a"
    "byte_of (flash_pack_address a) 3 = 0"
    unfolding flash_pack_address_def byte_of_def m FLASH_MODE_BYTE_def
    by (rule bit_word_eqI, auto simp: bit_simps)+
  then show ?thesis by (simp add: word_bytes_def)
qed

lemma addr24_of_bytes:
  "addr24 (ucast (drop_bit 16 a)) (ucast (drop_bit 8 a)) (ucast a) = ucast (a :: u32)"
proof (unfold addr24_def, rule bit_word_eqI)
  fix n assume "n < LENGTH(24)"
  then consider "n < 8" | "8 \<le> n" "n < 16" | "16 \<le> n" "n < 24" by fastforce
  then show "bit (push_bit 16 (ucast (ucast (drop_bit 16 a) :: u8)) OR
      push_bit 8 (ucast (ucast (drop_bit 8 a) :: u8)) OR ucast (ucast a :: u8) :: 24 word) n =
      bit (ucast a :: 24 word) n"
    by cases (auto simp: bit_simps)
qed

text \<open>The flash across the segments of one quad read.\<close>

lemma quad_read_transaction:
  assumes "soc_idle s"
    and "f1 = send_byte 1 FLASH_CMD_READ_QUAD (csb_fall 0 (spi_flash s))"
    and "f2 = send_bytes 4 (word_bytes (flash_pack_address a)) f1"
    and "f3 = dummy_clocks 8 f2" and "r = receive_bytes 4 4 f3"
  shows "\<not> csb f1" "\<not> csb f2" "\<not> csb f3" "pack_words (fst r) = [flash_word s a]"
    "flash_idle (csb_rise (snd r))" "powered_up (csb_rise (snd r))"
    "fl_memory (csb_rise (snd r)) = fl_memory (spi_flash s)"
proof -
  from assms(1) have idle: "flash_idle (spi_flash s)" "powered_up (spi_flash s)"
    by (simp_all add: soc_idle_def)
  note 1 = quad_open [OF idle, of 0, folded FLASH_CMD_READ_QUAD_def assms(2)]
  note 2 = quad_address [OF conjunct1 [OF 1], of "ucast (drop_bit 16 a)" "ucast (drop_bit 8 a)"
      "ucast a", unfolded addr24_of_bytes, folded pack_address_bytes assms(3)]
  note 3 = quad_dummy [OF conjunct1 [OF 2], folded assms(4)]
  note 4 = quad_receive_bytes [OF conjunct1 [OF 3], of 4, folded assms(5)]
  show "\<not> csb f1" "\<not> csb f2" "\<not> csb f3"
    using 1 2 3 by (simp_all add: quad_defs)
  have mem: "fl_memory f3 = fl_memory (spi_flash s)" using 1 2 3 by simp
  have bytes: "fst r = map (\<lambda>i. fl_memory (spi_flash s) (ucast a + of_nat i)) [0..<4]"
    using 4 mem by simp
  show "pack_words (fst r) = [flash_word s a]"
    unfolding bytes by (simp add: flash_word_def Let_def upt_rec numeral_2_eq_2 numeral_3_eq_3)
  show "flash_idle (csb_rise (snd r))" "powered_up (csb_rise (snd r))"
    "fl_memory (csb_rise (snd r)) = fl_memory (spi_flash s)"
    using 4 quad_close [of _ "snd r"] mem by metis+
qed

lemma flash_read_word_steps:
  assumes "soc_idle s"
  obtains f where "flash_read_word soc_bus a s =
      Some (flash_word s a, s\<lparr>spi_flash := f, delays := tl (tl (tl (tl (delays s))))\<rparr>)"
    "flash_idle f" "powered_up f" "fl_memory f = fl_memory (spi_flash s)"
proof -
  note t = quad_read_transaction [of s _ _ a, OF assms refl refl refl refl]
  from assms have idle: "csb (spi_flash s)" "spi_on s" "tx_fifo s = []" "rx_fifo s = []"
    by (simp_all add: soc_idle_def flash_idle_def)
  let ?f1 = "send_byte 1 FLASH_CMD_READ_QUAD (csb_fall 0 (spi_flash s))"
  let ?f2 = "send_bytes 4 (word_bytes (flash_pack_address a)) ?f1"
  let ?f = "csb_rise (snd (receive_bytes 4 4 (dummy_clocks 8 ?f2)))"
  have "flash_read_word soc_bus a s =
      Some (flash_word s a, s\<lparr>spi_flash := ?f, delays := tl (tl (tl (tl (delays s))))\<rparr>)"
    unfolding flash_read_word_def spi_transmit_byte_def
    using idle t(1-4)
    by (simp add: spi_on_wait spi_transmit_word_soc spi_run_command_soc segment_opcode
        segment_quad_tx segment_dummy segment_quad_rx spi_receive_word_soc del: send_bytes.simps)
  with t(5-7) that show thesis by blast
qed

lemma flash_read_word_soc:
  assumes "soc_idle s"
  shows "\<exists>s'. flash_read_word soc_bus a s = Some (flash_word s a, s') \<and> soc_idle s' \<and>
    fl_memory (spi_flash s') = fl_memory (spi_flash s) \<and> uart_out s' = uart_out s"
proof (rule flash_read_word_steps [OF assms, of a])
  fix f
  assume "flash_read_word soc_bus a s =
      Some (flash_word s a, s\<lparr>spi_flash := f, delays := tl (tl (tl (tl (delays s))))\<rparr>)"
    and f: "flash_idle f" "powered_up f" "fl_memory f = fl_memory (spi_flash s)"
  moreover have "soc_idle (s\<lparr>spi_flash := f, delays := tl (tl (tl (tl (delays s))))\<rparr>)"
    using assms f by (simp add: soc_idle_def spi_on_def)
  ultimately show ?thesis using f by auto
qed

section \<open>The platform contract holds on this SoC\<close>

text \<open>At power-up nothing is assumed but that the flash is deselected with no command open.\<close>

definition soc_power_up :: "soc \<Rightarrow> bool" where
  "soc_power_up s \<longleftrightarrow> flash_idle (spi_flash s)"

lemma spi_init_soc:
  "spi_init soc_bus s =
     Some (s\<lparr>spi_control := SPI_CONTROL_SPIEN OR SPI_CONTROL_OUTPUT_EN, spi_configopts := 0,
             spi_csid := 0, spi_wait := 0, tx_fifo := [], rx_fifo := []\<rparr>)"
  by (cases s) (simp add: spi_init_def spi_wait_ready_soc step_simps spi_rest_def spi_bit_defs Let_def)

lemma flash_power_up_soc:
  assumes "spi_on s" "tx_fifo s = []" "csb (spi_flash s)"
  shows "flash_power_up soc_bus s =
     Some (s\<lparr>spi_flash := csb_rise (send_byte 1 FLASH_CMD_POWER_UP (csb_fall 0 (spi_flash s))),
             delays := tl (delays s)\<rparr>)"
  unfolding flash_power_up_def spi_transmit_byte_def
  using assms
  by (simp add: spi_transmit_word_soc spi_on_wait spi_run_command_soc segment_opcode)

lemma soc_startup:
  assumes "soc_power_up s"
  shows "\<exists>s1 s2. spi_init soc_bus (uart_init soc_bus s) = Some s1 \<and>
     flash_power_up soc_bus s1 = Some s2 \<and> soc_idle s2 \<and> flash_word s2 = flash_word s \<and>
     uart_out s2 = uart_out s"
proof -
  obtain c where u: "uart_init soc_bus s = s\<lparr>uart_ctrl := c\<rparr>" "bit c 0"
    by (simp add: uart_init_def step_simps Let_def)
  let ?s1 = "s\<lparr>uart_ctrl := c, spi_control := SPI_CONTROL_SPIEN OR SPI_CONTROL_OUTPUT_EN,
    spi_configopts := 0, spi_csid := 0, spi_wait := 0, tx_fifo := [], rx_fifo := []\<rparr>"
  have 1: "spi_init soc_bus (uart_init soc_bus s) = Some ?s1"
    using u by (cases s) (simp add: spi_init_soc)
  note t = flash_power_up_transaction [of "spi_flash s" 0, folded FLASH_CMD_POWER_UP_def]
  from assms have f: "flash_idle (spi_flash s)" "csb (spi_flash s)"
    by (simp_all add: soc_power_up_def flash_idle_def)
  let ?f = "csb_rise (send_byte 1 FLASH_CMD_POWER_UP (csb_fall 0 (spi_flash s)))"
  let ?s2 = "?s1\<lparr>spi_flash := ?f, delays := tl (delays s)\<rparr>"
  have on: "spi_on ?s1" by (simp add: spi_on_def)
  have 2: "flash_power_up soc_bus ?s1 = Some ?s2"
    using flash_power_up_soc [OF on] f(2) by simp
  have "soc_idle ?s2" "flash_word ?s2 = flash_word s" "uart_out ?s2 = uart_out s"
    using t [OF f(1)] u on by (simp_all add: soc_idle_def flash_word_def Let_def fun_eq_iff)
  with 1 2 show ?thesis by blast
qed

interpretation soc_platform: boot_platform soc_bus soc_power_up soc_idle flash_word uart_out
proof unfold_locales
  fix s a and c :: u8
  show "soc_power_up s \<Longrightarrow> \<exists>s1 s2. spi_init soc_bus (uart_init soc_bus s) = Some s1 \<and>
     flash_power_up soc_bus s1 = Some s2 \<and> soc_idle s2 \<and> flash_word s2 = flash_word s \<and>
     uart_out s2 = uart_out s"
    by (rule soc_startup)
  show "soc_idle s \<Longrightarrow> \<exists>s'. uart_send_byte soc_bus c s = Some s' \<and> soc_idle s' \<and>
     flash_word s' = flash_word s \<and> uart_out s' = uart_out s @ [c]"
    by (simp add: soc_idle_def uart_send_byte_soc flash_word_def fun_eq_iff)
  show "soc_idle s \<Longrightarrow> \<exists>s'. flash_read_word soc_bus a s = Some (flash_word s a, s') \<and>
     soc_idle s' \<and> flash_word s' = flash_word s \<and> uart_out s' = uart_out s"
    using flash_read_word_soc [of s a] by (fastforce simp: flash_word_def)
  show "soc_idle s \<Longrightarrow> uart_out (bus_write soc_bus (SPI0_BASE_ADDR + SPI_CONTROL_OFFSET) 0 s) =
     uart_out s \<and> flash_word (bus_write soc_bus (SPI0_BASE_ADDR + SPI_CONTROL_OFFSET) 0 s) = flash_word s"
    by (simp add: step_simps flash_word_def fun_eq_iff)
qed

end
