(* ===== verification/Boot_System.thy ===== *)
theory Boot_System
  imports Soc_Model
begin

unbundle bit_operations_syntax

text \<open>
  \<open>sw/bootloader.c\<close> on the simulated SoC, from the image that \<open>sw/image/mkflash.py\<close> writes to
  the entry of the firmware. The flash is seen through its bytes (\<open>flash_bytes\<close>); everything
  between them and the C code, down to the clock edges on the pins, is the proof of the
  platform contract in \<open>Soc_Model\<close>.
\<close>

section \<open>The image tool\<close>

text \<open>
  \<open>struct.pack('<III', BOOT_MAGIC, size, crc) + app\<close>; \<open>None\<close> is the \<open>struct.error\<close> of a size
  that does not fit. \<open>zlib.crc32\<close> is the reference CRC-32.
\<close>

definition mkflash_header :: "u32 \<Rightarrow> u32 \<Rightarrow> u32 \<Rightarrow> u8 list" where
  "mkflash_header magic sz crc = word_bytes magic @ word_bytes sz @ word_bytes crc"

definition mkflash :: "u8 list \<Rightarrow> u8 list option" where
  "mkflash app =
     (let size = length app; crc = crc_reference app
      in if size < 2 ^ 32 then Some (mkflash_header 0xB007C0DE (of_nat size) crc @ app) else None)"

lemma length_mkflash_header [simp]: "length (mkflash_header a b c) = 12"
  by (simp add: mkflash_header_def)

section \<open>The bytes of the flash\<close>

definition flash_bytes :: "soc \<Rightarrow> nat \<Rightarrow> nat \<Rightarrow> u8 list" where
  "flash_bytes s a n = map (\<lambda>i. fl_memory (spi_flash s) (of_nat (a + i))) [0..<n]"

text \<open>\<open>firmware.hex\<close> is loaded at address 0 of the flash.\<close>

definition flash_holds :: "soc \<Rightarrow> u8 list \<Rightarrow> bool" where
  "flash_holds s bs \<longleftrightarrow> flash_bytes s 0 (length bs) = bs"

lemma length_flash_bytes [simp]: "length (flash_bytes s a n) = n"
  by (simp add: flash_bytes_def)

lemma flash_bytes_append: "flash_bytes s a (m + n) = flash_bytes s a m @ flash_bytes s (a + m) n"
  by (rule nth_equalityI) (auto simp: flash_bytes_def nth_append)

lemma ucast_24_of_nat: "(ucast (of_nat a :: u32) :: 24 word) = of_nat a"
  by (rule bit_word_eqI) (simp add: bit_simps)

lemma flash_word_bytes: "word_bytes (flash_word s (of_nat a)) = flash_bytes s a 4"
  by (simp add: flash_word_def flash_bytes_def Let_def upt_rec ucast_24_of_nat algebra_simps)

lemma flash_payload_bytes:
  "concat (map word_bytes (payload_words (flash_word s) n)) = flash_bytes s 12 (4 * n)"
proof (induction n)
  case 0
  then show ?case by (simp add: payload_words_def flash_bytes_def)
next
  case (Suc n)
  have "FLASH_PAYLOAD_OFFSET + of_nat n * 4 = of_nat (12 + 4 * n)"
    by (simp add: FLASH_PAYLOAD_OFFSET_def mult.commute)
  note off = this
  from flash_word_bytes [of s "12 + 4 * n"]
  have "word_bytes (flash_word s (FLASH_PAYLOAD_OFFSET + of_nat n * 4)) = flash_bytes s (12 + 4 * n) 4"
    unfolding off .
  moreover have "payload_words (flash_word s) (Suc n) =
      payload_words (flash_word s) n @ [flash_word s (FLASH_PAYLOAD_OFFSET + of_nat n * 4)]"
    by (simp add: payload_words_def)
  ultimately show ?case
    using Suc flash_bytes_append [of s 12 "4 * n" 4] by (simp add: add.commute)
qed

lemma load_payload_flash:
  "load_payload (flash_word s) sz m = store_bytes SRAM_LOAD_ADDR (flash_bytes s 12 (4 * (unat sz div 4))) m"
  by (simp add: load_payload_def flash_payload_bytes)

lemma flash_holds_image:
  assumes "flash_holds s (mkflash_header magic sz crc @ data)"
  shows "flash_word s FLASH_MAGIC_OFFSET = magic" "flash_word s FLASH_SIZE_OFFSET = sz"
    "flash_word s FLASH_CRC_OFFSET = crc" "flash_bytes s 12 (length data) = data"
proof -
  let ?h = "mkflash_header magic sz crc"
  have "flash_bytes s 0 (12 + length data) = ?h @ data"
    using assms by (simp add: flash_holds_def)
  then have *: "flash_bytes s 0 12 = ?h" "flash_bytes s 12 (length data) = data"
    using flash_bytes_append [of s 0 12 "length data"] by simp_all
  have "flash_bytes s 0 12 = flash_bytes s 0 4 @ flash_bytes s 4 4 @ flash_bytes s 8 4"
    using flash_bytes_append [of s 0 4 8] flash_bytes_append [of s 4 4 4] by simp
  with *(1) have "flash_bytes s 0 4 = word_bytes magic" "flash_bytes s 4 4 = word_bytes sz"
    "flash_bytes s 8 4 = word_bytes crc" by (simp_all add: mkflash_header_def)
  with flash_word_bytes [of s 0] flash_word_bytes [of s 4] flash_word_bytes [of s 8]
  show "flash_word s FLASH_MAGIC_OFFSET = magic" "flash_word s FLASH_SIZE_OFFSET = sz"
    "flash_word s FLASH_CRC_OFFSET = crc"
    by (simp_all add: flash_offset_defs word_bytes_inject)
  show "flash_bytes s 12 (length data) = data" by (fact *(2))
qed

section \<open>Outcomes\<close>

text \<open>The bytes over which \<open>main\<close> computes the CRC: whole words of the image, then old SRAM.\<close>

definition checked_bytes :: "u8 list \<Rightarrow> mem \<Rightarrow> u8 list" where
  "checked_bytes data m =
     (let k = 4 * (length data div 4)
      in take k data @ mem_bytes m (SRAM_LOAD_ADDR + of_nat k) (length data mod 4))"

lemma checked_bytes_aligned: "length data mod 4 = 0 \<Longrightarrow> checked_bytes data m = data"
  by (simp add: checked_bytes_def Let_def minus_mod_eq_mult_div [symmetric])

definition accept_log :: "u32 \<Rightarrow> u32 \<Rightarrow> u8 list" where
  "accept_log sz crc =
     label_hex32 (str_bytes ''MAGIC='') EXPECTED_MAGIC @ crlf (str_bytes ''MAGIC OK'' @ [0x0A]) @
     label_hex32 (str_bytes ''SIZE='') sz @ crlf (str_bytes ''SIZE OK'' @ [0x0A]) @
     label_hex32 (str_bytes ''STORED='') crc @ label_hex32 (str_bytes ''COMPUTED='') crc @
     crlf (str_bytes ''CRC OK'' @ [0x0A])"

lemma mem_bytes_store_bytes_below:
  assumes "k = length bs" "k + n \<le> 2 ^ 32"
  shows "mem_bytes (store_bytes p bs m) p (k + n) = bs @ mem_bytes m (p + of_nat k) n"
proof -
  have "mem_bytes (store_bytes p bs m) (p + of_nat k) n = mem_bytes m (p + of_nat k) n"
  proof (rule nth_equalityI)
    fix i assume "i < length (mem_bytes (store_bytes p bs m) (p + of_nat k) n)"
    then have i: "i < n" by simp
    have "unat (p + of_nat k + of_nat i - p) = k + i"
      using i assms(2) unat_of_nat_u32 [of "k + i"] by simp
    with i assms show "mem_bytes (store_bytes p bs m) (p + of_nat k) n ! i =
        mem_bytes m (p + of_nat k) n ! i"
      by (simp add: store_bytes_apply)
  qed simp
  with mem_bytes_store_same [of bs p m] assms show ?thesis
    by (simp add: mem_bytes_add)
qed

lemma mem_bytes_load_payload:
  assumes "flash_bytes s 12 (length data) = data" "sz = of_nat (length data)"
    "length data \<le> 0x10000"
  shows "mem_bytes (load_payload (flash_word s) sz m) SRAM_LOAD_ADDR (length data) =
    checked_bytes data m"
proof -
  let ?n = "length data"
  let ?k = "4 * (?n div 4)"
  have n: "unat sz = ?n" using assms(2,3) by simp
  have "flash_bytes s 12 ?k @ flash_bytes s (12 + ?k) (?n mod 4) = data"
    using flash_bytes_append [of s 12 ?k "?n mod 4"] assms(1) by simp
  then have t: "flash_bytes s 12 ?k = take ?k data"
    by (metis append_eq_conv_conj length_flash_bytes)
  from assms(3) mem_bytes_store_bytes_below [of ?k "take ?k data" "?n mod 4" SRAM_LOAD_ADDR m]
  show ?thesis
    unfolding load_payload_flash n t by (simp add: checked_bytes_def Let_def)
qed

text \<open>The outcome for an image whose magic and size are accepted.\<close>

lemma boot_image_outcome:
  assumes "soc_power_up (dev st)" "crc_vars_ok (crc_static st)"
    and "flash_holds (dev st) (mkflash_header EXPECTED_MAGIC (of_nat (length data)) crc @ data)"
    and "0 < length data" "length data \<le> 0x10000"
  obtains st' e where "boot_main soc_bus st = Some (e, st')"
    "sram st' = store_bytes SRAM_LOAD_ADDR (take (4 * (length data div 4)) data) (sram st)"
    "mem_bytes (sram st') SRAM_LOAD_ADDR (length data) = checked_bytes data (sram st)"
    "e = (if crc_reference (checked_bytes data (sram st)) = crc then Entered SRAM_LOAD_ADDR else Halted)"
    "e \<noteq> Halted \<Longrightarrow> uart_out (dev st') = uart_out (dev st) @ accept_log (of_nat (length data)) crc"
proof -
  let ?s = "dev st" and ?n = "length data"
  let ?sz = "of_nat ?n :: u32"
  let ?m = "load_payload (flash_word ?s) ?sz (sram st)"
  note img = flash_holds_image [OF assms(3)]
  have n: "unat ?sz = ?n" using assms(5) by simp
  have "?sz \<noteq> 0"
    using assms(4) n by (metis less_irrefl unat_0)
  moreover have "\<not> ?sz > MAX_PAYLOAD_SIZE"
    using assms(5) n by (simp add: MAX_PAYLOAD_SIZE_def word_less_nat_alt del: of_nat_numeral)
  ultimately have size_ok: "?sz \<noteq> 0" "\<not> ?sz > MAX_PAYLOAD_SIZE" .
  have bytes: "mem_bytes ?m SRAM_LOAD_ADDR ?n = checked_bytes data (sram st)"
    using mem_bytes_load_payload [OF img(4) refl assms(5)] by simp
  have "flash_bytes ?s 12 (4 * (?n div 4)) = take (4 * (?n div 4)) data"
    using flash_bytes_append [of ?s 12 "4 * (?n div 4)" "?n mod 4"] img(4)
    by (metis append_eq_conv_conj length_flash_bytes mult_div_mod_eq)
  then have mem: "?m = store_bytes SRAM_LOAD_ADDR (take (4 * (?n div 4)) data) (sram st)"
    unfolding load_payload_flash n by simp
  let ?ok = "crc_reference (checked_bytes data (sram st)) = crc"
  have spec: "fst (boot_spec (flash_word ?s) (sram st)) = (if ?ok then Entered SRAM_LOAD_ADDR else Halted)"
    "fst (snd (boot_spec (flash_word ?s) (sram st))) = ?m"
    "?ok \<Longrightarrow> snd (snd (boot_spec (flash_word ?s) (sram st))) = accept_log ?sz crc"
    using size_ok bytes n
    by (simp_all add: boot_spec_def boot_load_spec_def img(1-3) Let_def accept_log_def)
  from soc_platform.boot_main_refines [OF assms(1,2)] obtain st' where
    "boot_main soc_bus st = Some (fst (boot_spec (flash_word ?s) (sram st)), st')"
    "sram st' = fst (snd (boot_spec (flash_word ?s) (sram st)))"
    "uart_out (dev st') = uart_out ?s @ snd (snd (boot_spec (flash_word ?s) (sram st)))"
    by blast
  with spec bytes mem show thesis
    by (intro that [of "if ?ok then Entered SRAM_LOAD_ADDR else Halted" st']) (auto split: if_splits)
qed

section \<open>A SoC at reset\<close>

text \<open>
  The flash once \<open>$readmemh\<close> has loaded an image and the chip select has first gone high: the
  initial values of \<open>spiflash.v\<close> after that event. Memory beyond the image is unknown there
  and zero here.
\<close>

definition flash_reset :: "u8 list \<Rightarrow> spiflash" where
  "flash_reset img =
     \<lparr>csb = True, fl_buffer = 0, bitcount = 0, bytecount = 0, dummycount = 0, spi_cmd = 0,
      xip_cmd = 0, spi_addr = 0, powered_up = False, fl_mode = mode_spi, next_mode = mode_none,
      io_oe = 0, io_dout = 0,
      fl_memory = (\<lambda>a. if unat a < length img then img ! unat a else 0)\<rparr>"

definition soc_reset :: "u8 list \<Rightarrow> nat list \<Rightarrow> soc" where
  "soc_reset img ds =
     \<lparr>uart_ctrl = 0, uart_wait = 0, uart_out = [], spi_control = 0, spi_configopts = 0,
      spi_csid = 0, spi_wait = 0, tx_fifo = [], rx_fifo = [], spi_flash = flash_reset img,
      delays = ds\<rparr>"

definition boot_reset :: "u8 list \<Rightarrow> nat list \<Rightarrow> soc boot_state" where
  "boot_reset img ds =
     \<lparr>dev = soc_reset img ds, sram = (\<lambda>_. 0), crc_static = crc_vars_init\<rparr>"

lemma boot_reset_power_up: "soc_power_up (dev (boot_reset img ds))"
  by (simp add: boot_reset_def soc_reset_def flash_reset_def soc_power_up_def flash_idle_def)

lemma boot_reset_crc: "crc_vars_ok (crc_static (boot_reset img ds))"
  by (simp add: boot_reset_def)

lemma boot_reset_holds:
  assumes "length img \<le> 2 ^ 24"
  shows "flash_holds (dev (boot_reset img ds)) img"
proof -
  have "unat (of_nat i :: 24 word) = i" if "i < length img" for i
    using that assms by (simp add: unat_of_nat)
  then have "flash_bytes (dev (boot_reset img ds)) 0 (length img) = img"
    by (intro nth_equalityI)
      (simp_all add: flash_bytes_def boot_reset_def soc_reset_def flash_reset_def)
  then show ?thesis by (simp add: flash_holds_def)
qed

lemma mkflash_Some:
  "mkflash app = Some img \<longleftrightarrow> length app < 2 ^ 32 \<and>
     img = mkflash_header EXPECTED_MAGIC (of_nat (length app)) (crc_reference app) @ app"
  by (auto simp: mkflash_def EXPECTED_MAGIC_def Let_def)


section \<open>Properties\<close>

text \<open>
  C1: For every delay of the UART and the SPI host, the bootloader loads and enters an image
  that \<open>mkflash.py\<close> wrote, for an application of whole words up to 64 KiB: it returns, the
  SRAM from \<open>SRAM_LOAD_ADDR\<close> on is the application byte for byte, and the serial output is the
  accepting dialogue.
\<close>

theorem boot_accepts_image:
  assumes "soc_power_up (dev st)" "crc_vars_ok (crc_static st)"
    and "mkflash app = Some img" "flash_holds (dev st) img"
    and "0 < length app" "length app \<le> 0x10000" "length app mod 4 = 0"
  shows "\<exists>st'. boot_main soc_bus st = Some (Entered SRAM_LOAD_ADDR, st') \<and>
     mem_bytes (sram st') SRAM_LOAD_ADDR (length app) = app \<and>
     uart_out (dev st') = uart_out (dev st) @ accept_log (of_nat (length app)) (crc_reference app)"
proof -
  from assms(3,4) have "flash_holds (dev st)
      (mkflash_header EXPECTED_MAGIC (of_nat (length app)) (crc_reference app) @ app)"
    by (simp add: mkflash_Some)
  from boot_image_outcome [OF assms(1,2) this assms(5,6)] obtain st' e where
    "boot_main soc_bus st = Some (e, st')"
    "mem_bytes (sram st') SRAM_LOAD_ADDR (length app) = app"
    "e = (if crc_reference app = crc_reference app then Entered SRAM_LOAD_ADDR else Halted)"
    "e \<noteq> Halted \<Longrightarrow> uart_out (dev st') =
       uart_out (dev st) @ accept_log (of_nat (length app)) (crc_reference app)"
    unfolding checked_bytes_aligned [OF assms(7)] by blast
  then show ?thesis by auto
qed

theorem boot_accepts_image_witness:
  "\<exists>img st'. mkflash [0x13, 0, 0, 0] = Some img \<and>
     boot_main soc_bus (boot_reset img [3, 1, 2]) = Some (Entered SRAM_LOAD_ADDR, st') \<and>
     mem_bytes (sram st') SRAM_LOAD_ADDR 4 = [0x13, 0, 0, 0]"
proof -
  obtain img where i: "mkflash [0x13, 0, 0, 0] = Some img" "length img \<le> 2 ^ 24"
    by (simp add: mkflash_Some)
  from boot_accepts_image [OF boot_reset_power_up boot_reset_crc i(1) boot_reset_holds [OF i(2)],
      of "[3, 1, 2]"] i(1) show ?thesis by (auto simp: numeral_nat)
qed

text \<open>
  C4: An application whose size is not a multiple of 4 is only partly loaded: the last
  \<open>size mod 4\<close> bytes of SRAM keep their old content and the CRC runs over them, so the
  bootloader enters the image that \<open>mkflash.py\<close> wrote exactly when those bytes of SRAM
  already were the end of the application, and halts with a CRC error otherwise.
\<close>

theorem boot_unaligned_image:
  assumes "soc_power_up (dev st)" "crc_vars_ok (crc_static st)"
    and "mkflash app = Some img" "flash_holds (dev st) img"
    and "0 < length app" "length app \<le> 0x10000" "length app mod 4 \<noteq> 0"
  shows "\<exists>e st'. boot_main soc_bus st = Some (e, st') \<and>
     (e = Entered SRAM_LOAD_ADDR \<longleftrightarrow>
        mem_bytes (sram st) (SRAM_LOAD_ADDR + of_nat (4 * (length app div 4))) (length app mod 4) =
        drop (4 * (length app div 4)) app) \<and>
     (e \<noteq> Entered SRAM_LOAD_ADDR \<longrightarrow> e = Halted)"
proof -
  let ?k = "4 * (length app div 4)"
  let ?old = "mem_bytes (sram st) (SRAM_LOAD_ADDR + of_nat ?k) (length app mod 4)"
  from assms(3,4) have f: "flash_holds (dev st)
      (mkflash_header EXPECTED_MAGIC (of_nat (length app)) (crc_reference app) @ app)"
    by (simp add: mkflash_Some)
  have len: "length (drop ?k app) = length app mod 4"
    by (simp add: minus_mult_div_eq_mod)
  have "crc_reference (take ?k app @ ?old @ []) = crc_reference (take ?k app @ drop ?k app @ [])
      \<longleftrightarrow> ?old = drop ?k app"
    using mod_less_divisor [of 4 "length app"] len by (intro crc_reference_burst) simp_all
  then have "crc_reference (checked_bytes app (sram st)) = crc_reference app \<longleftrightarrow> ?old = drop ?k app"
    by (simp add: checked_bytes_def Let_def)
  note accepted = this
  from boot_image_outcome [OF assms(1,2) f assms(5,6)] obtain st' e where
    "boot_main soc_bus st = Some (e, st')" "e = (if ?old = drop ?k app then Entered SRAM_LOAD_ADDR else Halted)"
    unfolding accepted by blast
  then show ?thesis by auto
qed

theorem boot_unaligned_image_witness:
  "\<exists>img st'. mkflash [0x13, 0, 0, 0, 0x99] = Some img \<and>
     boot_main soc_bus (boot_reset img []) = Some (Halted, st')"
proof -
  obtain img where i: "mkflash [0x13, 0, 0, 0, 0x99] = Some img" "length img \<le> 2 ^ 24"
    by (simp add: mkflash_Some)
  from boot_unaligned_image [OF boot_reset_power_up boot_reset_crc i(1) boot_reset_holds [OF i(2)],
      of "[]"] i(1) show ?thesis by (auto simp: boot_reset_def mem_bytes_def)
qed



text \<open>
  C5: A flash whose header has a wrong magic or a size that is zero or above 64 KiB stops the
  boot with the panic message for it, whatever the rest of the flash holds, and leaves the
  SRAM as it was.
\<close>

theorem boot_rejects_header:
  assumes "soc_power_up (dev st)" "crc_vars_ok (crc_static st)"
    and "flash_holds (dev st) (mkflash_header magic sz crc)"
    and "magic \<noteq> EXPECTED_MAGIC \<or> sz = 0 \<or> sz > MAX_PAYLOAD_SIZE"
  shows "\<exists>st' log. boot_main soc_bus st = Some (Halted, st') \<and> sram st' = sram st \<and>
     uart_out (dev st') = uart_out (dev st) @ log @
       panic_text (str_bytes (if magic \<noteq> EXPECTED_MAGIC then ''MAGIC BAD'' else ''SIZE BAD''))"
proof -
  let ?spec = "boot_spec (flash_word (dev st)) (sram st)"
  have h: "flash_word (dev st) FLASH_MAGIC_OFFSET = magic" "flash_word (dev st) FLASH_SIZE_OFFSET = sz"
    using flash_holds_image [of _ magic sz crc "[]"] assms(3) by simp_all
  from soc_platform.boot_main_refines [OF assms(1,2)] obtain st' where
    r: "boot_main soc_bus st = Some (fst ?spec, st')" "sram st' = fst (snd ?spec)"
      "uart_out (dev st') = uart_out (dev st) @ snd (snd ?spec)" by blast
  show ?thesis
  proof (cases "magic = EXPECTED_MAGIC")
    case False
    with r h show ?thesis by (auto simp: boot_spec_def Let_def)
  next
    case True
    with assms(4) have "sz = 0 \<or> sz > MAX_PAYLOAD_SIZE" by simp
    with r h True have "fst ?spec = Halted" "fst (snd ?spec) = sram st"
      "snd (snd ?spec) = (label_hex32 (str_bytes ''MAGIC='') magic @
         crlf (str_bytes ''MAGIC OK'' @ [0x0A]) @ label_hex32 (str_bytes ''SIZE='') sz) @
         panic_text (str_bytes ''SIZE BAD'')"
      by (auto simp: boot_spec_def Let_def)
    with r True show ?thesis
      by (intro exI [of _ st'] exI [of _ "label_hex32 (str_bytes ''MAGIC='') magic @
         crlf (str_bytes ''MAGIC OK'' @ [0x0A]) @ label_hex32 (str_bytes ''SIZE='') sz"]) simp
  qed
qed

theorem boot_rejects_header_witness:
  "\<exists>st' log. boot_main soc_bus (boot_reset (mkflash_header EXPECTED_MAGIC 0x10001 0) []) = Some (Halted, st') \<and>
     sram st' = (\<lambda>_. 0) \<and> uart_out (dev st') = log @ panic_text (str_bytes ''SIZE BAD'')"
proof -
  let ?img = "mkflash_header EXPECTED_MAGIC 0x10001 0"
  have "length ?img \<le> 2 ^ 24" by simp
  from boot_rejects_header [OF boot_reset_power_up boot_reset_crc boot_reset_holds [OF this], of "[]"]
  have "\<exists>st' log. boot_main soc_bus (boot_reset ?img []) = Some (Halted, st') \<and>
      sram st' = sram (boot_reset ?img []) \<and> uart_out (dev st') = uart_out (dev (boot_reset ?img [])) @ log @
        panic_text (str_bytes ''SIZE BAD'')"
    by (simp add: MAX_PAYLOAD_SIZE_def)
  then show ?thesis by (simp add: boot_reset_def soc_reset_def)
qed

text \<open>
  C2: Whatever the flash holds and however long the devices take, the bootloader returns, and
  if it enters a firmware then at the load address, after the magic and the size were in
  range and with the CRC-32 of the bytes now in SRAM equal to the CRC word of the header.
\<close>

theorem boot_entered_checked:
  assumes "soc_power_up (dev st)" "crc_vars_ok (crc_static st)"
  shows "\<exists>e st'. boot_main soc_bus st = Some (e, st') \<and>
     (e = Halted \<or>
      e = Entered SRAM_LOAD_ADDR \<and> flash_word (dev st) FLASH_MAGIC_OFFSET = EXPECTED_MAGIC \<and>
      0 < flash_word (dev st) FLASH_SIZE_OFFSET \<and>
      flash_word (dev st) FLASH_SIZE_OFFSET \<le> MAX_PAYLOAD_SIZE \<and>
      crc_reference (mem_bytes (sram st') SRAM_LOAD_ADDR (unat (flash_word (dev st) FLASH_SIZE_OFFSET))) =
        flash_word (dev st) FLASH_CRC_OFFSET)"
proof -
  let ?spec = "boot_spec (flash_word (dev st)) (sram st)"
  from soc_platform.boot_main_refines [OF assms] obtain st' where
    r: "boot_main soc_bus st = Some (fst ?spec, st')" "sram st' = fst (snd ?spec)" by blast
  have "fst ?spec = Halted \<or> fst ?spec = Entered SRAM_LOAD_ADDR \<and>
      flash_word (dev st) FLASH_MAGIC_OFFSET = EXPECTED_MAGIC \<and>
      0 < flash_word (dev st) FLASH_SIZE_OFFSET \<and>
      flash_word (dev st) FLASH_SIZE_OFFSET \<le> MAX_PAYLOAD_SIZE \<and>
      crc_reference (mem_bytes (fst (snd ?spec)) SRAM_LOAD_ADDR
        (unat (flash_word (dev st) FLASH_SIZE_OFFSET))) = flash_word (dev st) FLASH_CRC_OFFSET"
    by (auto simp: boot_spec_def boot_load_spec_def Let_def word_gt_0 not_less)
  with r show ?thesis by metis
qed

theorem boot_entered_checked_witness:
  "\<exists>e st'. boot_main soc_bus (boot_reset [1, 2, 3] [7, 7]) = Some (e, st') \<and> e = Halted"
proof -
  have m: "flash_word (dev (boot_reset [1, 2, 3] [7, 7])) FLASH_MAGIC_OFFSET \<noteq> EXPECTED_MAGIC"
    by (simp add: flash_word_def boot_reset_def soc_reset_def flash_reset_def FLASH_MAGIC_OFFSET_def
        EXPECTED_MAGIC_def bytes_word_def Let_def)
  from boot_entered_checked [OF boot_reset_power_up boot_reset_crc] m show ?thesis by blast
qed

section \<open>What the copy loop may write\<close>

lemma copy_payload_frame:
  "copy_payload B i n d m = Some (d', m') \<Longrightarrow> i + n \<le> 0x4000 \<Longrightarrow>
     0x10000 \<le> unat (a - SRAM_LOAD_ADDR) \<Longrightarrow> m' a = m a"
proof (induction n arbitrary: i d m)
  case 0
  then show ?case by simp
next
  case (Suc n)
  from Suc.prems(1) obtain w d1 where
    c: "copy_payload B (Suc i) n d1 (write_32 w (SRAM_LOAD_ADDR + of_nat i * 4) m) = Some (d', m')"
    by (auto split: Option.bind_splits)
  let ?p = "SRAM_LOAD_ADDR + of_nat i * 4"
  have dist: "a - ?p = (a - SRAM_LOAD_ADDR) - of_nat (4 * i)" by (simp add: algebra_simps)
  have i4: "unat (of_nat (4 * i) :: u32) = 4 * i" using Suc.prems(2) by (intro unat_of_nat_u32) simp
  have le: "of_nat (4 * i) \<le> a - SRAM_LOAD_ADDR"
    using Suc.prems(2,3) by (simp only: word_le_nat_alt i4)
  have "unat (a - ?p) = unat (a - SRAM_LOAD_ADDR) - 4 * i"
    unfolding dist unat_sub [OF le] i4 ..
  then have "\<not> unat (a - ?p) < 4" using Suc.prems(2,3) by simp
  then have "write_32 w ?p m a = m a"
    by (simp add: write_32_store store_bytes_apply)
  with Suc.IH [OF c] Suc.prems(2,3) show ?case by simp
qed

text \<open>
  C7: On any device behind the bus, also a faulty one, the bootloader changes no byte of
  memory outside the 64 KiB from \<open>SRAM_LOAD_ADDR\<close> on.
\<close>

theorem boot_writes_confined:
  assumes "boot_main B st = Some (e, st')" "0x10000 \<le> unat (a - SRAM_LOAD_ADDR)"
  shows "sram st' a = sram st a"
proof -
  have load: "sram s' a = sram s a"
    if "boot_load B sz stored s = Some (e, s')" "\<not> sz > MAX_PAYLOAD_SIZE" for s s' :: "'a boot_state"
      and sz stored
  proof -
    from that(1) obtain d m where c: "copy_payload B 0 (unat (sz div 4)) (dev s) (sram s) = Some (d, m)"
      and m: "sram s' = m"
      by (auto simp: boot_load_def Let_def split: Option.bind_splits if_splits prod.splits)
    have "unat sz \<le> 0x10000" using that(2) by (simp add: MAX_PAYLOAD_SIZE_def not_less word_le_nat_alt)
    then have "0 + unat (sz div 4) \<le> 0x4000" by (simp add: unat_div)
    from copy_payload_frame [OF c this assms(2)] m show ?thesis by simp
  qed
  from assms(1) show ?thesis
    by (auto simp: boot_main_def Let_def split: Option.bind_splits if_splits dest!: load)
qed

theorem boot_writes_confined_witness:
  "\<exists>img e st'. boot_main soc_bus (boot_reset img []) = Some (e, st') \<and> sram st' 0x10FFFF = 0"
proof -
  have p: "soc_power_up (dev (boot_reset [] []))" "crc_vars_ok (crc_static (boot_reset [] []))"
    by (rule boot_reset_power_up, rule boot_reset_crc)
  from soc_platform.boot_main_refines [OF p] obtain e st' where
    "boot_main soc_bus (boot_reset [] []) = Some (e, st')" by blast
  moreover from boot_writes_confined [OF this, of "0x10FFFF"]
  have "sram st' 0x10FFFF = 0" by (simp add: SRAM_LOAD_ADDR_def boot_reset_def unsigned_minus_1_eq_mask mask_eq_exp_minus_1)
  ultimately show ?thesis by blast
qed

section \<open>The load range and the stack\<close>

text \<open>The memory regions of \<open>sw/link.ld\<close>: \<open>_min_stack\<close> bytes of stack at the end.\<close>

definition stack_origin :: u32 where "stack_origin = 0x0011F000"
definition stack_length :: u32 where "stack_length = 0x01000"

definition in_stack :: "u32 \<Rightarrow> bool" where
  "in_stack a \<longleftrightarrow> stack_origin \<le> a \<and> a < stack_origin + stack_length"

text \<open>
  The accepted sizes reach into the bootloader's own stack. For every size above 0xF003 up
  to the accepted maximum, the copy loop stores into the stack region of the linker script,
  while the loop and the CRC check that follows still run on it; for sizes up to 0xF003 it
  stores no byte there.
\<close>

lemma copy_hits_stack:
  assumes "0 < sz" "sz \<le> MAX_PAYLOAD_SIZE"
  shows "(\<exists>i < unat (sz div 4). in_stack (SRAM_LOAD_ADDR + of_nat i * 4)) \<longleftrightarrow> 0xF003 < sz"
proof
  assume "\<exists>i < unat (sz div 4). in_stack (SRAM_LOAD_ADDR + of_nat i * 4)"
  then obtain i where i: "i < unat (sz div 4)" "stack_origin \<le> SRAM_LOAD_ADDR + of_nat i * 4"
    by (auto simp: in_stack_def)
  have "unat sz \<le> 0x10000" using assms(2) by (simp add: MAX_PAYLOAD_SIZE_def word_le_nat_alt)
  with i(1) have b: "i < unat sz div 4" "i < 0x4000" by (auto simp: unat_div)
  then have "unat (SRAM_LOAD_ADDR + of_nat i * 4) = 0x110000 + i * 4"
    by (simp add: SRAM_LOAD_ADDR_def unat_word_ariths unat_of_nat)
  with i(2) have "0x11F000 \<le> 0x110000 + i * 4" by (simp add: stack_origin_def word_le_nat_alt)
  with b show "0xF003 < sz" by (simp add: word_less_nat_alt)
next
  assume "0xF003 < sz"
  then have "0x3C00 < unat (sz div 4)" by (simp add: word_less_nat_alt unat_div)
  moreover have "in_stack (SRAM_LOAD_ADDR + of_nat 0x3C00 * 4)"
    by (simp add: in_stack_def stack_origin_def stack_length_def SRAM_LOAD_ADDR_def)
  ultimately show "\<exists>i < unat (sz div 4). in_stack (SRAM_LOAD_ADDR + of_nat i * 4)" by blast
qed

lemma copy_hits_stack_witness:
  "\<exists>i < unat (0x10000 div 4 :: u32). in_stack (SRAM_LOAD_ADDR + of_nat i * 4)"
  using copy_hits_stack [of "0x10000"] by (simp add: MAX_PAYLOAD_SIZE_def)

end
