(* ===== verification/Sim_Flash.thy ===== *)
theory Sim_Flash
  imports Crc32_Sim Boot_System
begin

unbundle bit_operations_syntax

text \<open>
  \<open>sw/simulate_flash.c\<close>, the second boot program: its own SPI, flash and UART drivers, its
  own CRC routine (in \<open>Crc32_Sim\<close>) and its \<open>main\<close>. Names that the two programs share carry
  the prefix \<open>sim_\<close>. The drivers are over an arbitrary bus; \<open>sim_main\<close> is proved on the
  simulated SoC against \<open>sim_spec\<close>, and the two programs are compared on the same flash.
  The panics are \<open>while(1)\<close>, the same ends as those of \<open>bootloader.c\<close>.
\<close>

section \<open>SPI driver\<close>

definition sim_spi_wait_ready :: "'d bus \<Rightarrow> 'd \<Rightarrow> 'd option" where
  "sim_spi_wait_ready B s = do {
     (_, s) \<leftarrow> poll B (SPI0_BASE_ADDR + SPI_STATUS_OFFSET)
       (\<lambda>status. status AND push_bit 31 1 = 0 \<or> status AND push_bit 30 1 \<noteq> 0) s;
     Some s
   }"

definition sim_spi_enable :: "'d bus \<Rightarrow> 'd \<Rightarrow> 'd option" where
  "sim_spi_enable B s =
     sim_spi_wait_ready B (bus_write B (SPI0_BASE_ADDR + SPI_CONTROL_OFFSET)
       (push_bit 31 1 OR push_bit 29 1) s)"

definition sim_spi_configure :: "'d bus \<Rightarrow> 'd \<Rightarrow> 'd option" where
  "sim_spi_configure B s =
     (let clkdiv = 50000000 div (2 * 1000000) - 1;
          configopts = clkdiv OR push_bit 16 0xF OR push_bit 20 0xF OR push_bit 24 0xF
      in sim_spi_wait_ready B (bus_write B (SPI0_BASE_ADDR + SPI_CONFIGOPTS_OFFSET) configopts s))"

definition sim_spi_reset :: "'d bus \<Rightarrow> 'd \<Rightarrow> 'd option" where
  "sim_spi_reset B s =
     (let s = bus_write B (SPI0_BASE_ADDR + SPI_CONTROL_OFFSET) (push_bit 30 1) s;
          s = bus_write B (SPI0_BASE_ADDR + SPI_CONTROL_OFFSET) (push_bit 30 0) s
      in sim_spi_wait_ready B s)"

definition sim_spi_init :: "'d bus \<Rightarrow> 'd \<Rightarrow> 'd option" where
  "sim_spi_init B s = do {
     s \<leftarrow> sim_spi_reset B s;
     s \<leftarrow> sim_spi_configure B s;
     sim_spi_enable B s
   }"

definition sim_spi_transmit_word :: "'d bus \<Rightarrow> u32 \<Rightarrow> 'd \<Rightarrow> 'd option" where
  "sim_spi_transmit_word B word s = do {
     (_, s) \<leftarrow> poll B (SPI0_BASE_ADDR + SPI_STATUS_OFFSET) (\<lambda>status. status AND push_bit 29 1 \<noteq> 0) s;
     Some (bus_write B (SPI0_BASE_ADDR + SPI_TXDATA_OFFSET) word s)
   }"

definition sim_spi_transmit_byte :: "'d bus \<Rightarrow> u8 \<Rightarrow> 'd \<Rightarrow> 'd option" where
  "sim_spi_transmit_byte B byte s = do {
     (_, s) \<leftarrow> poll B (SPI0_BASE_ADDR + SPI_STATUS_OFFSET) (\<lambda>status. status AND push_bit 29 1 \<noteq> 0) s;
     Some (bus_write B (SPI0_BASE_ADDR + SPI_TXDATA_OFFSET) (ucast byte) s)
   }"

text \<open>
  The command words. The C parameters are narrower than an \<open>int\<close> and are promoted: the length
  minus one is not masked, so a length of 0 gives all ones.
\<close>

definition sim_command :: "u16 \<Rightarrow> u8 \<Rightarrow> u8 \<Rightarrow> u8 \<Rightarrow> u32" where
  "sim_command len segment speed direction =
     push_bit 12 (ucast direction) OR push_bit 10 (ucast speed) OR
     (if segment \<noteq> 0 then push_bit 9 1 else push_bit 9 0) OR push_bit 0 (ucast len - 1)"

definition sim_spi_send_command :: "'d bus \<Rightarrow> u16 \<Rightarrow> u8 \<Rightarrow> u8 \<Rightarrow> u8 \<Rightarrow> 'd \<Rightarrow> 'd option" where
  "sim_spi_send_command B len segment speed direction s =
     (let s = bus_write B (SPI0_BASE_ADDR + SPI_CSID_OFFSET) 0 s;
          s = bus_write B (SPI0_BASE_ADDR + SPI_COMMAND_OFFSET)
                (sim_command len segment speed direction) s
      in sim_spi_wait_ready B s)"

definition sim_receive_command :: "u16 \<Rightarrow> u8 \<Rightarrow> u32" where
  "sim_receive_command len speed =
     push_bit 12 1 OR push_bit 10 (ucast speed) OR push_bit 9 0 OR push_bit 0 (ucast len - 1)"

definition sim_spi_recieve_command :: "'d bus \<Rightarrow> u16 \<Rightarrow> u8 \<Rightarrow> 'd \<Rightarrow> 'd option" where
  "sim_spi_recieve_command B len speed s =
     (let s = bus_write B (SPI0_BASE_ADDR + SPI_CSID_OFFSET) 0 s;
          s = bus_write B (SPI0_BASE_ADDR + SPI_COMMAND_OFFSET) (sim_receive_command len speed) s
      in sim_spi_wait_ready B s)"

text \<open>The loop condition is \<open>(1u >> 24) & status\<close>.\<close>

definition sim_rx_busy :: "u32 \<Rightarrow> bool" where
  "sim_rx_busy status \<longleftrightarrow> drop_bit 24 1 AND status \<noteq> 0"

definition sim_spi_read_rxdata :: "'d bus \<Rightarrow> 'd \<Rightarrow> (u32 \<times> 'd) option" where
  "sim_spi_read_rxdata B s = do {
     (_, s) \<leftarrow> poll B (SPI0_BASE_ADDR + SPI_STATUS_OFFSET) sim_rx_busy s;
     Some (bus_read B (SPI0_BASE_ADDR + SPI_RXDATA_OFFSET) s)
   }"

section \<open>Flash\<close>

definition sim_pack_address :: "u32 \<Rightarrow> u32" where
  "sim_pack_address addr =
     (drop_bit 16 addr AND 0xFF) OR push_bit 8 (drop_bit 8 addr AND 0xFF) OR
     push_bit 16 (addr AND 0xFF) OR push_bit 24 0x00"

definition sim_flash_read_word :: "'d bus \<Rightarrow> u32 \<Rightarrow> 'd \<Rightarrow> (u32 \<times> 'd) option" where
  "sim_flash_read_word B addr s = do {
     s \<leftarrow> sim_spi_transmit_byte B 0xEB s;
     s \<leftarrow> sim_spi_send_command B 1 1 0 2 s;
     s \<leftarrow> sim_spi_transmit_word B (sim_pack_address addr) s;
     s \<leftarrow> sim_spi_send_command B 4 1 2 2 s;
     s \<leftarrow> sim_spi_send_command B 8 1 2 0 s;
     s \<leftarrow> sim_spi_recieve_command B 4 2 s;
     sim_spi_read_rxdata B s
   }"

definition sim_powerup_flash :: "'d bus \<Rightarrow> 'd \<Rightarrow> 'd option" where
  "sim_powerup_flash B s = do {
     s \<leftarrow> sim_spi_transmit_byte B 0xAB s;
     sim_spi_send_command B 1 0 0 2 s
   }"

section \<open>UART\<close>

definition uart_nco :: "u64 \<Rightarrow> u64 \<Rightarrow> u32" where
  "uart_nco baud_rate sysclk = ucast (push_bit 20 baud_rate div sysclk)"

definition sim_uart_init :: "'d bus \<Rightarrow> 'd \<Rightarrow> 'd" where
  "sim_uart_init B s =
     (let nco = uart_nco 921600 50000000
      in bus_write B (UART_BASE + UART_CTRL_REG) (push_bit 16 nco OR 0x3) s)"

definition sim_uart_putc :: "'d bus \<Rightarrow> u8 \<Rightarrow> 'd \<Rightarrow> 'd option" where
  "sim_uart_putc B c s = do {
     (_, s) \<leftarrow> poll B (UART_BASE + UART_STATUS_REG) uart_tx_busy s;
     Some (bus_write B (UART_BASE + UART_TX_REG) (ucast c) s)
   }"

fun sim_uart_print :: "'d bus \<Rightarrow> u8 list \<Rightarrow> 'd \<Rightarrow> 'd option" where
  "sim_uart_print B [] s = Some s"
| "sim_uart_print B (c # cs) s =
     (if c = 0 then Some s else do { s \<leftarrow> sim_uart_putc B c s; sim_uart_print B cs s })"

text \<open>The loop over \<open>i = 28, 24, ..., 0\<close>; the first argument is the number of rounds left.\<close>

fun sim_hex_loop :: "'d bus \<Rightarrow> nat \<Rightarrow> u32 \<Rightarrow> 'd \<Rightarrow> 'd option" where
  "sim_hex_loop B 0 val s = Some s"
| "sim_hex_loop B (Suc k) val s = do {
     s \<leftarrow> sim_uart_putc B (str_bytes ''0123456789ABCDEF'' ! unat (drop_bit (4 * k) val AND 0xF)) s;
     sim_hex_loop B k val s
   }"

definition sim_print_hex32 :: "'d bus \<Rightarrow> u32 \<Rightarrow> 'd \<Rightarrow> 'd option" where
  "sim_print_hex32 B val s = sim_hex_loop B 8 val s"

section \<open>The program\<close>

record 'd sim_state =
  sim_dev :: 'd
  sim_sram :: mem

text \<open>\<open>uart_print(label); print_hex32(val); uart_putc('\\n')\<close>, six times in \<open>main\<close>.\<close>

definition sim_print_word :: "'d bus \<Rightarrow> u8 list \<Rightarrow> u32 \<Rightarrow> 'd \<Rightarrow> 'd option" where
  "sim_print_word B label val d = do {
     d \<leftarrow> sim_uart_print B label d;
     d \<leftarrow> sim_print_hex32 B val d;
     sim_uart_putc B 0x0A d
   }"

text \<open>The copy loop: \<open>n\<close> more words from index \<open>i\<close> on.\<close>

fun sim_copy :: "'d bus \<Rightarrow> nat \<Rightarrow> nat \<Rightarrow> 'd \<Rightarrow> mem \<Rightarrow> ('d \<times> mem) option" where
  "sim_copy B i 0 d m = Some (d, m)"
| "sim_copy B i (Suc n) d m = do {
     (w, d) \<leftarrow> sim_flash_read_word B (0xC + of_nat i * 4) d;
     sim_copy B (Suc i) n d (write_32 w (0x00110000 + of_nat i * 4) m)
   }"

text \<open>\<open>main\<close> from the read of the stored CRC on.\<close>

definition sim_load :: "'d bus \<Rightarrow> u32 \<Rightarrow> 'd sim_state \<Rightarrow> (boot_end \<times> 'd sim_state) option" where
  "sim_load B sz st = do {
     (stored_crc, d) \<leftarrow> sim_flash_read_word B 0x8 (sim_dev st);
     (d, m) \<leftarrow> sim_copy B 0 (unat (sz div 4)) d (sim_sram st);
     let computed_crc = sim_crc32_compute (mem_bytes m 0x00110000 (unat sz)) sim_crc32_table;
     d \<leftarrow> sim_print_word B (str_bytes ''STORED='') stored_crc d;
     d \<leftarrow> sim_print_word B (str_bytes ''COMPUTED='') computed_crc d;
     d \<leftarrow> sim_print_word B (str_bytes ''CRC='') computed_crc d;
     if computed_crc \<noteq> stored_crc then do {
       d \<leftarrow> sim_uart_print B (str_bytes ''ERR: BAD CRC'' @ [0x0A]) d;
       Some (Halted, \<lparr>sim_dev = d, sim_sram = m\<rparr>)
     } else do {
       d \<leftarrow> sim_uart_print B (str_bytes ''CRC OK'' @ [0x0A]) d;
       let d = bus_write B (SPI0_BASE_ADDR + SPI_CONTROL_OFFSET) 0 d;
       Some (Entered 0x00110000, \<lparr>sim_dev = d, sim_sram = m\<rparr>)
     }
   }"

definition sim_main :: "'d bus \<Rightarrow> 'd sim_state \<Rightarrow> (boot_end \<times> 'd sim_state) option" where
  "sim_main B st = do {
     let d = sim_uart_init B (sim_dev st);
     d \<leftarrow> sim_spi_init B d;
     d \<leftarrow> sim_powerup_flash B d;
     (magic, d) \<leftarrow> sim_flash_read_word B 0 d;
     d \<leftarrow> sim_print_word B (str_bytes ''MAGIC='') magic d;
     if magic \<noteq> 0xB007C0DE then do {
       d \<leftarrow> sim_uart_print B (str_bytes ''ERR: BAD MAGIC'' @ [0x0A]) d;
       Some (Halted, st\<lparr>sim_dev := d\<rparr>)
     } else do {
       d \<leftarrow> sim_uart_print B (str_bytes ''MAGIC OK'' @ [0x0A]) d;
       (sz, d) \<leftarrow> sim_flash_read_word B 4 d;
       d \<leftarrow> sim_print_word B (str_bytes ''SIZE='') sz d;
       if sz = 0 \<or> sz > 0x00010000 \<or> sz mod 4 \<noteq> 0 then do {
         d \<leftarrow> sim_uart_print B (str_bytes ''ERR: BAD SIZE'' @ [0x0A]) d;
         Some (Halted, st\<lparr>sim_dev := d\<rparr>)
       } else do {
         d \<leftarrow> sim_uart_print B (str_bytes ''SIZE OK'' @ [0x0A]) d;
         sim_load B sz (st\<lparr>sim_dev := d\<rparr>)
       }
     }
   }"

section \<open>The drivers compared with those of bootloader.c\<close>

lemma sim_wait_ready_eq: "sim_spi_wait_ready B s = spi_wait_ready B s"
  by (simp add: sim_spi_wait_ready_def spi_wait_ready_def spi_not_ready_def [abs_def] spi_bit_defs)

lemma sim_transmit_word_eq: "sim_spi_transmit_word B w s = spi_transmit_word B w s"
  by (simp add: sim_spi_transmit_word_def spi_transmit_word_def spi_tx_full_def [abs_def] spi_bit_defs)

lemma sim_transmit_byte_eq: "sim_spi_transmit_byte B b s = spi_transmit_byte B b s"
  by (simp add: sim_spi_transmit_byte_def spi_transmit_byte_def spi_transmit_word_def
      spi_tx_full_def [abs_def] spi_bit_defs)

lemma sim_uart_putc_eq: "sim_uart_putc B c s = uart_send_byte B c s"
  by (simp add: sim_uart_putc_def uart_send_byte_def)

lemma uart_nco_value: "uart_nco 921600 50000000 = 0x4B7F"
  by (simp add: uart_nco_def)

lemma sim_uart_init_eq: "sim_uart_init B s = uart_init B s"
  by (simp add: sim_uart_init_def uart_init_def uart_nco_value Let_def)

lemma sim_pack_address_eq: "sim_pack_address a = flash_pack_address a"
  by (simp add: sim_pack_address_def flash_pack_address_def FLASH_MODE_BYTE_def)

text \<open>The poll that waits for received data never waits: its mask is zero.\<close>

lemma sim_rx_busy_never: "\<not> sim_rx_busy v"
  by (simp add: sim_rx_busy_def)

lemma sim_spi_read_rxdata_reads:
  "sim_spi_read_rxdata B s =
     Some (bus_read B (SPI0_BASE_ADDR + SPI_RXDATA_OFFSET)
       (snd (bus_read B (SPI0_BASE_ADDR + SPI_STATUS_OFFSET) s)))"
proof -
  obtain v s' where "bus_read B (SPI0_BASE_ADDR + SPI_STATUS_OFFSET) s = (v, s')" by fastforce
  with poll_step [OF this, of sim_rx_busy] show ?thesis
    by (simp add: sim_spi_read_rxdata_def sim_rx_busy_never)
qed

section \<open>The drivers on the simulated SoC\<close>

lemma sim_send_command_soc:
  assumes "spi_on s" "sim_command len segment speed direction = spi_make_command d v c l"
  shows "sim_spi_send_command soc_bus len segment speed direction s = spi_run_command soc_bus d v c l s"
proof -
  have e: "s\<lparr>spi_csid := 0\<rparr> = s" and w: "spi_wait s = 0"
    using assms(1) by (cases s; simp add: spi_on_def)+
  show ?thesis
    unfolding spi_run_command_soc [OF assms(1)] sim_spi_send_command_def sim_wait_ready_eq assms(2)
    by (simp add: step_simps e w spi_on_enabled [OF assms(1)] spi_wait_ready_soc spi_rest_def Let_def)
qed

lemma sim_recieve_command_soc:
  assumes "spi_on s" "sim_receive_command len speed = spi_make_command d v c l"
  shows "sim_spi_recieve_command soc_bus len speed s = spi_run_command soc_bus d v c l s"
proof -
  have e: "s\<lparr>spi_csid := 0\<rparr> = s" and w: "spi_wait s = 0"
    using assms(1) by (cases s; simp add: spi_on_def)+
  show ?thesis
    unfolding spi_run_command_soc [OF assms(1)] sim_spi_recieve_command_def sim_wait_ready_eq assms(2)
    by (simp add: step_simps e w spi_on_enabled [OF assms(1)] spi_wait_ready_soc spi_rest_def Let_def)
qed

text \<open>The command words that the program uses are those of \<open>bootloader.c\<close>.\<close>

lemma sim_command_values:
  "sim_command 1 1 0 2 = spi_make_command SPI_DIR_TX SPI_SPEED_STANDARD 1 1"
  "sim_command 1 0 0 2 = spi_make_command SPI_DIR_TX SPI_SPEED_STANDARD 0 1"
  "sim_command 4 1 2 2 = spi_make_command SPI_DIR_TX SPI_SPEED_QUAD 1 4"
  "sim_command 8 1 2 0 = spi_make_command SPI_DIR_DUMMY SPI_SPEED_QUAD 1 FLASH_DUMMY_CYCLES"
  "sim_receive_command 4 2 = spi_make_command SPI_DIR_RX SPI_SPEED_QUAD 0 4"
  by (simp_all add: sim_command_def sim_receive_command_def spi_make_command_def spi_cmd_defs
      FLASH_DUMMY_CYCLES_def)

lemma sim_flash_read_word_soc:
  assumes "soc_idle s"
  shows "sim_flash_read_word soc_bus a s = flash_read_word soc_bus a s"
proof -
  note t = quad_read_transaction [of s _ _ a, OF assms refl refl refl refl]
  from assms have idle: "csb (spi_flash s)" "spi_on s" "tx_fifo s = []" "rx_fifo s = []"
    by (simp_all add: soc_idle_def flash_idle_def)
  show ?thesis
    unfolding sim_flash_read_word_def flash_read_word_def sim_transmit_byte_eq sim_transmit_word_eq
      sim_pack_address_eq spi_transmit_byte_def FLASH_CMD_READ_QUAD_def [symmetric]
    using idle t(1-4)
    by (simp add: spi_on_wait spi_transmit_word_soc sim_send_command_soc [OF _ sim_command_values(1)]
        sim_send_command_soc [OF _ sim_command_values(3)]
        sim_send_command_soc [OF _ sim_command_values(4)]
        sim_recieve_command_soc [OF _ sim_command_values(5)] sim_spi_read_rxdata_reads step_simps
        spi_run_command_soc segment_opcode segment_quad_tx segment_dummy segment_quad_rx
        spi_receive_word_soc del: send_bytes.simps)
qed

lemma sim_powerup_flash_soc:
  assumes "spi_on s" "tx_fifo s = []"
  shows "sim_powerup_flash soc_bus s = flash_power_up soc_bus s"
  unfolding sim_powerup_flash_def flash_power_up_def sim_transmit_byte_eq
    FLASH_CMD_POWER_UP_def [symmetric] spi_transmit_byte_def
  using assms
  by (simp add: spi_on_wait spi_transmit_word_soc sim_send_command_soc [OF _ sim_command_values(2)])

text \<open>The two programs leave different clock dividers; the segments do not depend on them.\<close>

lemma sim_spi_init_soc:
  "\<exists>c. sim_spi_init soc_bus s =
     Some (s\<lparr>spi_control := SPI_CONTROL_SPIEN OR SPI_CONTROL_OUTPUT_EN, spi_configopts := c,
             spi_wait := 0, tx_fifo := [], rx_fifo := []\<rparr>)"
  by (cases s) (simp add: sim_spi_init_def sim_spi_reset_def sim_spi_configure_def
      sim_spi_enable_def sim_wait_ready_eq spi_wait_ready_soc step_simps spi_rest_def spi_bit_defs Let_def)

section \<open>Specification and platform\<close>

definition sim_word_text :: "u8 list \<Rightarrow> u32 \<Rightarrow> u8 list" where
  "sim_word_text label v = label @ hex32 v @ [0x0A]"

definition sim_load_spec :: "(u32 \<Rightarrow> u32) \<Rightarrow> u32 \<Rightarrow> mem \<Rightarrow> boot_end \<times> mem \<times> u8 list" where
  "sim_load_spec flash sz m =
     (let m' = load_payload flash sz m; stored = flash FLASH_CRC_OFFSET;
          computed = crc_reference (mem_bytes m' SRAM_LOAD_ADDR (unat sz));
          t = sim_word_text (str_bytes ''STORED='') stored @
              sim_word_text (str_bytes ''COMPUTED='') computed @
              sim_word_text (str_bytes ''CRC='') computed
      in if computed \<noteq> stored then (Halted, m', t @ str_bytes ''ERR: BAD CRC'' @ [0x0A])
         else (Entered SRAM_LOAD_ADDR, m', t @ str_bytes ''CRC OK'' @ [0x0A]))"

definition sim_spec :: "(u32 \<Rightarrow> u32) \<Rightarrow> mem \<Rightarrow> boot_end \<times> mem \<times> u8 list" where
  "sim_spec flash m =
     (let magic = flash FLASH_MAGIC_OFFSET; sz = flash FLASH_SIZE_OFFSET;
          t1 = sim_word_text (str_bytes ''MAGIC='') magic
      in if magic \<noteq> EXPECTED_MAGIC then (Halted, m, t1 @ str_bytes ''ERR: BAD MAGIC'' @ [0x0A])
         else
           let t2 = t1 @ (str_bytes ''MAGIC OK'' @ [0x0A]) @ sim_word_text (str_bytes ''SIZE='') sz
           in if sz = 0 \<or> sz > MAX_PAYLOAD_SIZE \<or> sz mod 4 \<noteq> 0
              then (Halted, m, t2 @ str_bytes ''ERR: BAD SIZE'' @ [0x0A])
              else
                let (e, m', t) = sim_load_spec flash sz m
                in (e, m', t2 @ (str_bytes ''SIZE OK'' @ [0x0A]) @ t))"

text \<open>
  A platform on which both programs run: the contract of \<open>boot_platform\<close>, this program's own
  start-up, and reads that agree although they wait less.
\<close>

locale sim_platform = boot_platform +
  assumes sim_startup: "pre s \<Longrightarrow> \<exists>s1 s2. sim_spi_init B (sim_uart_init B s) = Some s1 \<and>
       sim_powerup_flash B s1 = Some s2 \<and> inv s2 \<and> flash s2 = flash s \<and> out s2 = out s"
    and sim_read: "inv s \<Longrightarrow> sim_flash_read_word B a s = flash_read_word B a s"
begin

lemma sends_sim_putc: "sends (sim_uart_putc B c) [c]"
  using sends_byte by (simp add: sends_def sim_uart_putc_eq)

lemma sends_sim_print: "0 \<notin> set cs \<Longrightarrow> sends (sim_uart_print B cs) cs"
proof (induction cs)
  case Nil
  show ?case by (simp add: sends_def)
next
  case (Cons c cs)
  then have "sends (sim_uart_print B cs) cs" "c \<noteq> 0" by auto
  with sends_bind [OF sends_sim_putc this(1)] show ?case by (simp add: sends_def)
qed

lemma sends_sim_hex: "sends (sim_print_hex32 B v) (hex32 v)"
proof -
  have "sim_hex_loop B n v = uart_hex_loop B n v" for n
  proof (induction n)
    case 0
    show ?case by (rule ext) simp
  next
    case (Suc n)
    show ?case by (rule ext) (simp add: Suc sim_uart_putc_eq hex_digits_def mult.commute)
  qed
  then show ?thesis
    using sends_hex32 by (simp add: sends_def sim_print_hex32_def uart_send_hex32_def)
qed

lemma sends_sim_word:
  "0 \<notin> set label \<Longrightarrow> sends (sim_print_word B label v) (sim_word_text label v)"
  using sends_bind [OF sends_sim_print sends_bind [OF sends_sim_hex sends_sim_putc]]
  by (simp add: sends_def sim_print_word_def sim_word_text_def)

lemma sim_messages:
  "0 \<notin> set (str_bytes ''ERR: BAD MAGIC'' @ [0x0A])" "0 \<notin> set (str_bytes ''ERR: BAD SIZE'' @ [0x0A])"
  "0 \<notin> set (str_bytes ''ERR: BAD CRC'' @ [0x0A])" "0 \<notin> set (str_bytes ''CRC='')"
  by (simp_all add: str_bytes_def)

lemma sim_copy_eq:
  "inv d \<Longrightarrow> i + n \<le> 2 ^ 20 \<Longrightarrow> sim_copy B i n d m = copy_payload B i n d m"
proof (induction n arbitrary: i d m)
  case 0
  then show ?case by simp
next
  case (Suc n)
  have "unat (FLASH_PAYLOAD_OFFSET + of_nat i * 4) < 2 ^ 24 - 3"
    using Suc.prems(2) by (simp add: FLASH_PAYLOAD_OFFSET_def unat_word_ariths unat_of_nat)
  from read_wordE [OF Suc.prems(1) this] obtain d1 w where
    r: "flash_read_word B (FLASH_PAYLOAD_OFFSET + of_nat i * 4) d = Some (w, d1)" "inv d1" by metis
  from Suc.prems have "Suc i + n \<le> 2 ^ 20" by simp
  note IH = Suc.IH [OF r(2) this]
  from r sim_read [OF Suc.prems(1)] show ?case
    by (simp add: IH FLASH_PAYLOAD_OFFSET_def SRAM_LOAD_ADDR_def)
qed

lemma sim_load_refines:
  assumes "inv (sim_dev st)" "sz \<le> MAX_PAYLOAD_SIZE"
  shows "\<exists>st'. sim_load B sz st = Some (fst (sim_load_spec (flash (sim_dev st)) sz (sim_sram st)), st') \<and>
     sim_sram st' = fst (snd (sim_load_spec (flash (sim_dev st)) sz (sim_sram st))) \<and>
     out (sim_dev st') = out (sim_dev st) @ snd (snd (sim_load_spec (flash (sim_dev st)) sz (sim_sram st)))"
proof -
  let ?f = "flash (sim_dev st)"
  let ?m = "load_payload ?f sz (sim_sram st)"
  let ?computed = "crc_reference (mem_bytes ?m SRAM_LOAD_ADDR (unat sz))"
  let ?stored = "?f FLASH_CRC_OFFSET"
  have off: "unat FLASH_CRC_OFFSET < 2 ^ 24 - 3" by (simp add: FLASH_CRC_OFFSET_def)
  from read_wordE [OF assms(1) off] obtain d0 where
    d0: "flash_read_word B FLASH_CRC_OFFSET (sim_dev st) = Some (?stored, d0)" "inv d0" "flash d0 = ?f"
      "out d0 = out (sim_dev st)" .
  have "0 + unat (sz div 4) \<le> 2 ^ 20"
    using assms(2) by (simp add: MAX_PAYLOAD_SIZE_def word_le_nat_alt unat_div)
  note copy = sim_copy_eq [OF d0(2) this]
  from copy_payload_load [OF d0(2) assms(2)] obtain d1 where
    d1: "copy_payload B 0 (unat (sz div 4)) d0 (sim_sram st) = Some (d1, ?m)" "inv d1"
      "flash d1 = ?f" "out d1 = out (sim_dev st)" using d0 by metis
  from sendsE [OF sends_sim_word [OF no_zero_messages(3)] d1(2)] obtain d2 where
    d2: "sim_print_word B (str_bytes ''STORED='') ?stored d1 = Some d2" "inv d2"
      "out d2 = out d1 @ sim_word_text (str_bytes ''STORED='') ?stored" .
  from sendsE [OF sends_sim_word [OF no_zero_messages(4)] d2(2)] obtain d3 where
    d3: "sim_print_word B (str_bytes ''COMPUTED='') ?computed d2 = Some d3" "inv d3"
      "out d3 = out d2 @ sim_word_text (str_bytes ''COMPUTED='') ?computed" .
  from sendsE [OF sends_sim_word [OF sim_messages(4)] d3(2)] obtain d4 where
    d4: "sim_print_word B (str_bytes ''CRC='') ?computed d3 = Some d4" "inv d4"
      "out d4 = out d3 @ sim_word_text (str_bytes ''CRC='') ?computed" .
  from sendsE [OF sends_sim_print [OF sim_messages(3)] d4(2)] obtain d5 where
    d5: "sim_uart_print B (str_bytes ''ERR: BAD CRC'' @ [0x0A]) d4 = Some d5"
      "out d5 = out d4 @ str_bytes ''ERR: BAD CRC'' @ [0x0A]" .
  from sendsE [OF sends_sim_print [OF no_zero_messages(10)] d4(2)] obtain d6 where
    d6: "sim_uart_print B (str_bytes ''CRC OK'' @ [0x0A]) d4 = Some d6" "inv d6"
      "out d6 = out d4 @ str_bytes ''CRC OK'' @ [0x0A]" .
  show ?thesis
    using d0 d1 d2 d3 d4 d5 d6 shut [OF d6(2)] sim_read [OF assms(1)]
    by (simp add: sim_load_def sim_load_spec_def copy sim_crc32_compute_correct Let_def
        FLASH_CRC_OFFSET_def [symmetric] SRAM_LOAD_ADDR_def [symmetric])
qed

lemma sim_read_wordE:
  assumes "inv s" "unat a < 2 ^ 24 - 3"
  obtains s' where "sim_flash_read_word B a s = Some (flash s a, s')" "inv s'" "flash s' = flash s"
    "out s' = out s"
  using read_wordE [OF assms] sim_read [OF assms(1)] by metis

theorem sim_main_refines:
  assumes "pre (sim_dev st)"
  shows "\<exists>st'. sim_main B st = Some (fst (sim_spec (flash (sim_dev st)) (sim_sram st)), st') \<and>
     sim_sram st' = fst (snd (sim_spec (flash (sim_dev st)) (sim_sram st))) \<and>
     out (sim_dev st') = out (sim_dev st) @ snd (snd (sim_spec (flash (sim_dev st)) (sim_sram st)))"
proof -
  let ?f = "flash (sim_dev st)"
  let ?magic = "?f FLASH_MAGIC_OFFSET" and ?size = "?f FLASH_SIZE_OFFSET"
  have offs: "unat FLASH_MAGIC_OFFSET < 2 ^ 24 - 3" "unat FLASH_SIZE_OFFSET < 2 ^ 24 - 3"
    by (simp_all add: flash_offset_defs)
  from sim_startup [OF assms] obtain d0 d1 where
    d1: "sim_spi_init B (sim_uart_init B (sim_dev st)) = Some d0" "sim_powerup_flash B d0 = Some d1"
      "inv d1" "flash d1 = ?f" "out d1 = out (sim_dev st)" by blast
  from sim_read_wordE [OF d1(3) offs(1)] obtain d2 where
    d2: "sim_flash_read_word B 0 d1 = Some (?magic, d2)" "inv d2" "flash d2 = ?f"
      "out d2 = out (sim_dev st)" using d1 by (metis FLASH_MAGIC_OFFSET_def)
  from sendsE [OF sends_sim_word [OF no_zero_messages(1)] d2(2)] obtain d3 where
    d3: "sim_print_word B (str_bytes ''MAGIC='') ?magic d2 = Some d3" "inv d3" "flash d3 = ?f"
      "out d3 = out (sim_dev st) @ sim_word_text (str_bytes ''MAGIC='') ?magic" using d2 by metis
  note head = d1(1,2) d2(1) d3(1)
  show ?thesis
  proof (cases "?magic = EXPECTED_MAGIC")
    case False
    from sendsE [OF sends_sim_print [OF sim_messages(1)] d3(2)] obtain d4 where
      "sim_uart_print B (str_bytes ''ERR: BAD MAGIC'' @ [0x0A]) d3 = Some d4"
      "out d4 = out d3 @ str_bytes ''ERR: BAD MAGIC'' @ [0x0A]" .
    with head d3 False show ?thesis
      by (simp add: sim_main_def sim_spec_def Let_def EXPECTED_MAGIC_def)
  next
    case magic: True
    from sendsE [OF sends_sim_print [OF no_zero_messages(8)] d3(2)] obtain d4 where
      d4: "sim_uart_print B (str_bytes ''MAGIC OK'' @ [0x0A]) d3 = Some d4" "inv d4" "flash d4 = ?f"
        "out d4 = out d3 @ str_bytes ''MAGIC OK'' @ [0x0A]" using d3 by metis
    from sim_read_wordE [OF d4(2) offs(2)] obtain d5 where
      d5: "sim_flash_read_word B 4 d4 = Some (?size, d5)" "inv d5" "flash d5 = ?f" "out d5 = out d4"
      using d4 by (metis FLASH_SIZE_OFFSET_def)
    from sendsE [OF sends_sim_word [OF no_zero_messages(2)] d5(2)] obtain d6 where
      d6: "sim_print_word B (str_bytes ''SIZE='') ?size d5 = Some d6" "inv d6" "flash d6 = ?f"
        "out d6 = out d5 @ sim_word_text (str_bytes ''SIZE='') ?size" using d5 by metis
    note head = head d4(1) d5(1) d6(1)
    have msg: "out d6 = out (sim_dev st) @ (sim_word_text (str_bytes ''MAGIC='') ?magic @
        (str_bytes ''MAGIC OK'' @ [0x0A]) @ sim_word_text (str_bytes ''SIZE='') ?size)"
      using d3 d4 d5 d6 by simp
    have m: "?magic = 0xB007C0DE" using magic by (simp add: EXPECTED_MAGIC_def)
    show ?thesis
    proof (cases "?size = 0 \<or> ?size > MAX_PAYLOAD_SIZE \<or> ?size mod 4 \<noteq> 0")
      case True
      from sendsE [OF sends_sim_print [OF sim_messages(2)] d6(2)] obtain d7 where
        d7: "sim_uart_print B (str_bytes ''ERR: BAD SIZE'' @ [0x0A]) d6 = Some d7"
          "out d7 = out d6 @ str_bytes ''ERR: BAD SIZE'' @ [0x0A]" .
      have "sim_spec ?f (sim_sram st) = (Halted, sim_sram st,
          (sim_word_text (str_bytes ''MAGIC='') ?magic @ (str_bytes ''MAGIC OK'' @ [0x0A]) @
           sim_word_text (str_bytes ''SIZE='') ?size) @ str_bytes ''ERR: BAD SIZE'' @ [0x0A])"
        unfolding sim_spec_def Let_def using magic True by simp
      moreover have "sim_main B st = Some (Halted, st\<lparr>sim_dev := d7\<rparr>)"
        using head d7 True m by (simp add: sim_main_def MAX_PAYLOAD_SIZE_def)
      ultimately show ?thesis using msg d7 by simp
    next
      case False
      then have le: "?size \<le> MAX_PAYLOAD_SIZE" by auto
      from sendsE [OF sends_sim_print [OF no_zero_messages(9)] d6(2)] obtain d7 where
        d7: "sim_uart_print B (str_bytes ''SIZE OK'' @ [0x0A]) d6 = Some d7" "inv d7" "flash d7 = ?f"
          "out d7 = out d6 @ str_bytes ''SIZE OK'' @ [0x0A]" using d6 by metis
      let ?l = "sim_load_spec ?f ?size (sim_sram st)"
      from sim_load_refines [of "st\<lparr>sim_dev := d7\<rparr>", OF _ le] d7 obtain st' where
        l: "sim_load B ?size (st\<lparr>sim_dev := d7\<rparr>) = Some (fst ?l, st')" "sim_sram st' = fst (snd ?l)"
          "out (sim_dev st') = out d7 @ snd (snd ?l)" by auto
      have "sim_spec ?f (sim_sram st) = (fst ?l, fst (snd ?l),
          (sim_word_text (str_bytes ''MAGIC='') ?magic @ (str_bytes ''MAGIC OK'' @ [0x0A]) @
           sim_word_text (str_bytes ''SIZE='') ?size) @ (str_bytes ''SIZE OK'' @ [0x0A]) @ snd (snd ?l))"
        unfolding sim_spec_def Let_def using magic False by (simp split: prod.split)
      moreover have "sim_main B st = Some (fst ?l, st')"
        using head d7 False m l(1) by (simp add: sim_main_def MAX_PAYLOAD_SIZE_def)
      ultimately show ?thesis using msg d7 l by simp
    qed
  qed
qed

end

section \<open>The program on the simulated SoC\<close>

lemma sim_soc_startup:
  assumes "soc_power_up s"
  shows "\<exists>s1 s2. sim_spi_init soc_bus (sim_uart_init soc_bus s) = Some s1 \<and>
     sim_powerup_flash soc_bus s1 = Some s2 \<and> soc_idle s2 \<and> flash_word s2 = flash_word s \<and>
     uart_out s2 = uart_out s"
proof -
  obtain c where u: "sim_uart_init soc_bus s = s\<lparr>uart_ctrl := c\<rparr>" "bit c 0"
    by (simp add: sim_uart_init_eq uart_init_def step_simps Let_def)
  obtain k where i: "sim_spi_init soc_bus (sim_uart_init soc_bus s) =
      Some (s\<lparr>uart_ctrl := c, spi_control := SPI_CONTROL_SPIEN OR SPI_CONTROL_OUTPUT_EN,
        spi_configopts := k, spi_wait := 0, tx_fifo := [], rx_fifo := []\<rparr>)"
    using sim_spi_init_soc [of "s\<lparr>uart_ctrl := c\<rparr>"] u(1) by auto
  let ?s1 = "s\<lparr>uart_ctrl := c, spi_control := SPI_CONTROL_SPIEN OR SPI_CONTROL_OUTPUT_EN,
    spi_configopts := k, spi_wait := 0, tx_fifo := [], rx_fifo := []\<rparr>"
  let ?s0 = "?s1\<lparr>spi_csid := 0\<rparr>"
  have p: "sim_powerup_flash soc_bus ?s1 = sim_powerup_flash soc_bus ?s0"
    by (simp add: sim_powerup_flash_def sim_transmit_byte_eq spi_transmit_byte_def
        spi_transmit_word_soc sim_spi_send_command_def step_simps)
  have on: "spi_on ?s0" by (simp add: spi_on_def)
  note t = flash_power_up_transaction [of "spi_flash s" 0, folded FLASH_CMD_POWER_UP_def]
  from assms have f: "flash_idle (spi_flash s)" "csb (spi_flash s)"
    by (simp_all add: soc_power_up_def flash_idle_def)
  let ?f = "csb_rise (send_byte 1 FLASH_CMD_POWER_UP (csb_fall 0 (spi_flash s)))"
  let ?s2 = "?s0\<lparr>spi_flash := ?f, delays := tl (delays s)\<rparr>"
  have "flash_power_up soc_bus ?s0 = Some ?s2"
    using flash_power_up_soc [OF on] f(2) by simp
  then have "sim_powerup_flash soc_bus ?s1 = Some ?s2"
    using sim_powerup_flash_soc [OF on] p by simp
  moreover have "soc_idle ?s2" "flash_word ?s2 = flash_word s" "uart_out ?s2 = uart_out s"
    using t [OF f(1)] u on by (simp_all add: soc_idle_def flash_word_def Let_def fun_eq_iff)
  ultimately show ?thesis using i by blast
qed

interpretation soc_sim: sim_platform soc_bus soc_power_up soc_idle flash_word uart_out
proof unfold_locales
  fix s a
  show "soc_power_up s \<Longrightarrow> \<exists>s1 s2. sim_spi_init soc_bus (sim_uart_init soc_bus s) = Some s1 \<and>
     sim_powerup_flash soc_bus s1 = Some s2 \<and> soc_idle s2 \<and> flash_word s2 = flash_word s \<and>
     uart_out s2 = uart_out s" by (rule sim_soc_startup)
  show "soc_idle s \<Longrightarrow> sim_flash_read_word soc_bus a s = flash_read_word soc_bus a s"
    by (rule sim_flash_read_word_soc)
qed

section \<open>Properties\<close>

lemma sim_image_outcome:
  assumes "soc_power_up (sim_dev st)" "mkflash app = Some img" "flash_holds (sim_dev st) img"
    and "0 < length app" "length app \<le> 0x10000" "length app mod 4 = 0"
  obtains st' where "sim_main soc_bus st = Some (Entered SRAM_LOAD_ADDR, st')"
    "mem_bytes (sim_sram st') SRAM_LOAD_ADDR (length app) = app"
proof -
  let ?s = "sim_dev st" and ?n = "length app"
  let ?sz = "of_nat ?n :: u32"
  from assms(2,3) have "flash_holds ?s (mkflash_header EXPECTED_MAGIC ?sz (crc_reference app) @ app)"
    by (simp add: mkflash_Some)
  note img = flash_holds_image [OF this]
  have n: "unat ?sz = ?n" using assms(5) by simp
  have "?sz \<noteq> 0" using assms(4) n by (metis less_irrefl unat_0)
  moreover have "?sz mod 4 = 0"
  proof -
    have "unat (?sz mod 4) = 0" using assms(6) n by (simp add: unat_mod)
    then show ?thesis by (simp only: unat_0_iff)
  qed
  moreover have "\<not> ?sz > MAX_PAYLOAD_SIZE"
    using assms(5) n by (simp add: MAX_PAYLOAD_SIZE_def word_less_nat_alt del: of_nat_numeral)
  moreover have bytes: "mem_bytes (load_payload (flash_word ?s) ?sz (sim_sram st)) SRAM_LOAD_ADDR ?n = app"
    using mem_bytes_load_payload [OF img(4) refl assms(5)] checked_bytes_aligned [OF assms(6)] by simp
  ultimately have "fst (sim_spec (flash_word ?s) (sim_sram st)) = Entered SRAM_LOAD_ADDR"
    "fst (snd (sim_spec (flash_word ?s) (sim_sram st))) = load_payload (flash_word ?s) ?sz (sim_sram st)"
    by (simp_all add: sim_spec_def sim_load_spec_def img(1-3) n Let_def)
  with soc_sim.sim_main_refines [OF assms(1)] bytes that show thesis by metis
qed

text \<open>
  \<open>simulate_flash.c\<close> too loads and enters every image that \<open>mkflash.py\<close> wrote for an
  application of whole words up to 64 KiB, for every delay of the devices, although its read
  of the receive FIFO does not wait and its segments start without waiting for the host.
\<close>

lemma sim_accepts_image:
  assumes "soc_power_up (sim_dev st)" "mkflash app = Some img" "flash_holds (sim_dev st) img"
    and "0 < length app" "length app \<le> 0x10000" "length app mod 4 = 0"
  shows "\<exists>st'. sim_main soc_bus st = Some (Entered SRAM_LOAD_ADDR, st') \<and>
     mem_bytes (sim_sram st') SRAM_LOAD_ADDR (length app) = app"
  by (rule sim_image_outcome [OF assms]) blast

lemma sim_accepts_image_witness:
  "\<exists>img st'. mkflash [0x13, 0, 0, 0] = Some img \<and>
     sim_main soc_bus \<lparr>sim_dev = soc_reset img [3, 1, 2], sim_sram = (\<lambda>_. 0)\<rparr> =
       Some (Entered SRAM_LOAD_ADDR, st')"
proof -
  obtain img where i: "mkflash [0x13, 0, 0, 0] = Some img" "length img \<le> 2 ^ 24"
    by (simp add: mkflash_Some)
  let ?st = "\<lparr>sim_dev = soc_reset img [3, 1, 2], sim_sram = (\<lambda>_. 0)\<rparr>"
  have "soc_power_up (sim_dev ?st)" "flash_holds (sim_dev ?st) img"
    using boot_reset_power_up [of img "[3, 1, 2]"] boot_reset_holds [OF i(2), of "[3, 1, 2]"]
    by (simp_all add: boot_reset_def)
  from sim_accepts_image [OF this(1) i(1) this(2)] i(1) show ?thesis by auto
qed

text \<open>
  C8: The two boot programs agree. From the same flash and the same SRAM, both return; when the
  size word is a multiple of 4 they end the same way and leave the same SRAM; otherwise
  \<open>simulate_flash.c\<close> halts and leaves the SRAM untouched.
\<close>

theorem boot_programs_agree:
  assumes "soc_power_up s" "crc_vars_ok v"
  shows "\<exists>e1 st1 e2 st2.
     boot_main soc_bus \<lparr>dev = s, sram = m, crc_static = v\<rparr> = Some (e1, st1) \<and>
     sim_main soc_bus \<lparr>sim_dev = s, sim_sram = m\<rparr> = Some (e2, st2) \<and>
     (if flash_word s FLASH_SIZE_OFFSET mod 4 = 0 then e1 = e2 \<and> sram st1 = sim_sram st2
      else e2 = Halted \<and> sim_sram st2 = m)"
proof -
  let ?f = "flash_word s"
  from soc_platform.boot_main_refines [of "\<lparr>dev = s, sram = m, crc_static = v\<rparr>"] assms
  obtain st1 where 1: "boot_main soc_bus \<lparr>dev = s, sram = m, crc_static = v\<rparr> =
      Some (fst (boot_spec ?f m), st1)" "sram st1 = fst (snd (boot_spec ?f m))" by auto
  from soc_sim.sim_main_refines [of "\<lparr>sim_dev = s, sim_sram = m\<rparr>"] assms(1)
  obtain st2 where 2: "sim_main soc_bus \<lparr>sim_dev = s, sim_sram = m\<rparr> =
      Some (fst (sim_spec ?f m), st2)" "sim_sram st2 = fst (snd (sim_spec ?f m))" by auto
  have "if ?f FLASH_SIZE_OFFSET mod 4 = 0
    then fst (boot_spec ?f m) = fst (sim_spec ?f m) \<and> fst (snd (boot_spec ?f m)) = fst (snd (sim_spec ?f m))
    else fst (sim_spec ?f m) = Halted \<and> fst (snd (sim_spec ?f m)) = m"
    by (simp add: boot_spec_def boot_load_spec_def sim_spec_def sim_load_spec_def Let_def)
  with 1 2 show ?thesis by metis
qed

theorem boot_programs_agree_witness:
  "\<exists>e1 st1 e2 st2.
     boot_main soc_bus \<lparr>dev = soc_reset [] [2], sram = (\<lambda>_. 0), crc_static = crc_vars_init\<rparr> = Some (e1, st1) \<and>
     sim_main soc_bus \<lparr>sim_dev = soc_reset [] [2], sim_sram = (\<lambda>_. 0)\<rparr> = Some (e2, st2)"
proof -
  have "soc_power_up (soc_reset [] [2])"
    using boot_reset_power_up [of "[]" "[2]"] by (simp add: boot_reset_def)
  from boot_programs_agree [OF this crc_vars_ok_init] show ?thesis by blast
qed

lemma field_fits: "unat x < 2 ^ n \<Longrightarrow> x AND mask n = x" for x :: u32
  by (simp add: take_bit_eq_mask [symmetric] word_unat_eq_iff unsigned_take_bit_eq
      take_bit_nat_eq_self)

text \<open>
  The command words of \<open>spi_send_command\<close> are those of \<open>bootloader.c\<close> for every length from
  1 to 512, speed and direction; for the length 0 every bit of the word is set, where
  \<open>spi_make_command\<close> keeps the length field apart from the other fields.
\<close>

lemma sim_command_encoding:
  assumes "speed < 4" "direction < 4" "len \<le> 512"
  shows "sim_command len segment speed direction =
     (if len = 0 then 0xFFFFFFFF
      else spi_make_command (ucast direction) (ucast speed) (ucast segment) (ucast len))"
proof (cases "len = 0")
  case True
  then show ?thesis by (simp add: sim_command_def)
next
  case False
  have m: "(0x3 :: u32) = mask 2" "(0x1FF :: u32) = mask 9" by (simp_all add: mask_eq_exp_minus_1)
  have "(ucast speed :: u32) AND mask 2 = ucast speed" "(ucast direction :: u32) AND mask 2 = ucast direction"
    using assms(1,2) by (auto intro!: field_fits simp: word_less_nat_alt)
  moreover have "((ucast len :: u32) - 1) AND mask 9 = ucast len - 1"
  proof (rule field_fits)
    have "(ucast len :: u32) \<noteq> 0" using False unat_ucast_u16 [of len] by (metis unsigned_0 unat_0_iff)
    then show "unat (ucast len - 1 :: u32) < 2 ^ 9"
      using assms(3) by (simp add: unat_minus_one word_le_nat_alt)
  qed
  moreover have "(ucast segment :: u32) = 0 \<longleftrightarrow> segment = 0"
    using unat_ucast_u8 [of segment] by (metis unsigned_0 unat_0_iff)
  ultimately show ?thesis
    using False by (simp add: sim_command_def spi_make_command_def m)
qed

theorem sim_command_encoding_witness:
  "sim_command 512 1 2 1 = spi_make_command 1 2 1 512 \<and> sim_command 0 1 2 1 = 0xFFFFFFFF"
  using sim_command_encoding [of 2 1 512 1] sim_command_encoding [of 2 1 0 1] by simp

text \<open>
  \<open>spi_read_rxdata\<close> waits for nothing: on every device it reads the status once and then
  the receive FIFO, whether the status reports it empty or not.
\<close>

lemma sim_read_rxdata_never_waits:
  "sim_spi_read_rxdata B s =
     Some (bus_read B (SPI0_BASE_ADDR + SPI_RXDATA_OFFSET)
       (snd (bus_read B (SPI0_BASE_ADDR + SPI_STATUS_OFFSET) s)))"
  by (rule sim_spi_read_rxdata_reads)

end
