(* ===== verification/Tcp_Buffer.thy ===== *)
theory Tcp_Buffer
  imports Prelude
begin

unbundle bit_operations_syntax

text \<open>
  The byte buffer of \<open>dv/tcp_server/tcp_server.c\<close> between the socket thread and the DPI
  module: a ring of 256 bytes with a read and a write index, holding at most 255 bytes.
  \<open>byte_fifo\<close> is the contract of a bounded FIFO and what follows from it for every sequence
  of accepted puts and gets; the ring is an instance. The last section takes the C
  statements apart: the indices are updated in two steps and the other thread may look in
  between.
\<close>

section \<open>The ring\<close>

definition BUFSIZE_BYTE :: u32 where "BUFSIZE_BYTE = 256"

record tcp_buf =
  rptr :: u32
  wptr :: u32
  buf :: "u8 list"

definition tcp_buffer_is_full :: "tcp_buf \<Rightarrow> bool" where
  "tcp_buffer_is_full b \<longleftrightarrow>
     (if wptr b \<ge> rptr b then wptr b - rptr b = BUFSIZE_BYTE - 1
      else rptr b - wptr b = 1)"

definition tcp_buffer_is_empty :: "tcp_buf \<Rightarrow> bool" where
  "tcp_buffer_is_empty b \<longleftrightarrow> wptr b = rptr b"

text \<open>
  One round of the loop of \<open>tcp_buffer_put_byte\<close>: \<open>None\<close> when the buffer is full and the loop
  goes round again.
\<close>

definition tcp_buffer_put_byte :: "tcp_buf \<Rightarrow> u8 \<Rightarrow> tcp_buf option" where
  "tcp_buffer_put_byte b dat =
     (if \<not> tcp_buffer_is_full b then
        Some (b\<lparr>buf := (buf b)[unat (wptr b) := dat], wptr := (wptr b + 1) mod BUFSIZE_BYTE\<rparr>)
      else None)"

definition tcp_buffer_get_byte :: "tcp_buf \<Rightarrow> (u8 \<times> tcp_buf) option" where
  "tcp_buffer_get_byte b =
     (if tcp_buffer_is_empty b then None
      else Some (buf b ! unat (rptr b), b\<lparr>rptr := (rptr b + 1) mod BUFSIZE_BYTE\<rparr>))"

text \<open>\<open>malloc\<close> leaves the bytes of a new buffer undefined; they are a parameter.\<close>

definition tcp_buffer_new :: "u8 list \<Rightarrow> tcp_buf" where
  "tcp_buffer_new junk = \<lparr>rptr = 0, wptr = 0, buf = junk\<rparr>"

section \<open>Bounded FIFOs\<close>

text \<open>
  Any interleaving of puts and gets: \<open>Inl x\<close> tries to put \<open>x\<close>, \<open>Inr ()\<close> tries to get. The result
  holds the bytes accepted, the bytes delivered and the final buffer.
\<close>

fun interleave :: "('b \<Rightarrow> u8 \<Rightarrow> 'b option) \<Rightarrow> ('b \<Rightarrow> (u8 \<times> 'b) option) \<Rightarrow> (u8 + unit) list \<Rightarrow> 'b
    \<Rightarrow> u8 list \<times> u8 list \<times> 'b" where
  "interleave put get [] b = ([], [], b)"
| "interleave put get (Inl x # ops) b =
     (case put b x of
        None \<Rightarrow> interleave put get ops b
      | Some b' \<Rightarrow> case interleave put get ops b' of (ins, outs, e) \<Rightarrow> (x # ins, outs, e))"
| "interleave put get (Inr _ # ops) b =
     (case get b of
        None \<Rightarrow> interleave put get ops b
      | Some (x, b') \<Rightarrow> case interleave put get ops b' of (ins, outs, e) \<Rightarrow> (ins, x # outs, e))"

locale byte_fifo =
  fixes put :: "'b \<Rightarrow> u8 \<Rightarrow> 'b option"
    and get :: "'b \<Rightarrow> (u8 \<times> 'b) option"
    and ok :: "'b \<Rightarrow> bool"
    and contents :: "'b \<Rightarrow> u8 list"
    and cap :: nat
  assumes contents_le: "ok b \<Longrightarrow> length (contents b) \<le> cap"
    and put_full: "ok b \<Longrightarrow> put b x = None \<longleftrightarrow> length (contents b) = cap"
    and put_some: "ok b \<Longrightarrow> put b x = Some b' \<Longrightarrow> ok b' \<and> contents b' = contents b @ [x]"
    and get_none: "ok b \<Longrightarrow> get b = None \<longleftrightarrow> contents b = []"
    and get_some: "ok b \<Longrightarrow> get b = Some (x, b') \<Longrightarrow> ok b' \<and> contents b = x # contents b'"
begin

lemma interleave_fifo:
  "ok b \<Longrightarrow> interleave put get ops b = (ins, outs, e) \<Longrightarrow>
     ok e \<and> contents b @ ins = outs @ contents e"
proof (induction ops arbitrary: b ins outs e)
  case Nil
  then show ?case by simp
next
  case (Cons op ops)
  show ?case
  proof (cases op)
    case (Inl x)
    with Cons show ?thesis by (fastforce dest: put_some split: option.splits prod.splits)
  next
    case (Inr u)
    with Cons show ?thesis by (fastforce dest: get_some split: option.splits prod.splits)
  qed
qed

end

section \<open>The ring is a bounded FIFO\<close>

definition buf_ok :: "tcp_buf \<Rightarrow> bool" where
  "buf_ok b \<longleftrightarrow> rptr b < 256 \<and> wptr b < 256 \<and> length (buf b) = 256"

definition buf_count :: "tcp_buf \<Rightarrow> nat" where
  "buf_count b =
     (if unat (rptr b) \<le> unat (wptr b) then unat (wptr b) - unat (rptr b)
      else unat (wptr b) + 256 - unat (rptr b))"

definition buf_contents :: "tcp_buf \<Rightarrow> u8 list" where
  "buf_contents b = map (\<lambda>i. buf b ! ((unat (rptr b) + i) mod 256)) [0..<buf_count b]"

lemma mod_256: "x < 512 \<Longrightarrow> x mod 256 = (if x < 256 then x else x - 256)" for x :: nat
  by (simp add: mod_if)

lemma unat_bound: "w < 256 \<Longrightarrow> unat w < 256" for w :: u32
  by (simp add: word_less_nat_alt)

lemma unat_next_index: "w < 256 \<Longrightarrow> unat ((w + 1) mod 256) = (unat w + 1) mod 256" for w :: u32
  using unat_bound [of w] by (simp add: unat_mod unat_word_ariths)

lemma next_index_less: "(w + 1) mod 256 < (256 :: u32)"
  by (simp add: word_less_nat_alt unat_mod)

lemma full_iff: "buf_ok b \<Longrightarrow> tcp_buffer_is_full b \<longleftrightarrow> buf_count b = 255"
proof -
  assume ok: "buf_ok b"
  then have lt: "unat (rptr b) < 256" "unat (wptr b) < 256" by (simp_all add: buf_ok_def unat_bound)
  show ?thesis
  proof (cases "wptr b \<ge> rptr b")
    case True
    then have "wptr b - rptr b = 255 \<longleftrightarrow> unat (wptr b) - unat (rptr b) = 255"
      by (simp add: word_unat_eq_iff unat_sub)
    with True lt show ?thesis
      by (simp add: tcp_buffer_is_full_def BUFSIZE_BYTE_def buf_count_def word_le_nat_alt; linarith)
  next
    case False
    then have le: "wptr b \<le> rptr b" by simp
    then have "rptr b - wptr b = 1 \<longleftrightarrow> unat (rptr b) - unat (wptr b) = 1"
      by (simp add: word_unat_eq_iff unat_sub)
    with False lt show ?thesis
      by (simp add: tcp_buffer_is_full_def BUFSIZE_BYTE_def buf_count_def word_le_nat_alt; linarith)
  qed
qed

lemma empty_iff: "buf_ok b \<Longrightarrow> tcp_buffer_is_empty b \<longleftrightarrow> buf_count b = 0"
proof -
  assume "buf_ok b"
  then have lt: "unat (rptr b) < 256" "unat (wptr b) < 256" by (simp_all add: buf_ok_def unat_bound)
  have "buf_count b = 0 \<longleftrightarrow> unat (wptr b) = unat (rptr b)"
    using lt by (simp add: buf_count_def; linarith)
  then show ?thesis by (simp add: tcp_buffer_is_empty_def word_unat_eq_iff)
qed

lemma length_buf_contents [simp]: "length (buf_contents b) = buf_count b"
  by (simp add: buf_contents_def)

lemma put_contents:
  assumes "buf_ok b" "tcp_buffer_put_byte b x = Some b'"
  shows "buf_ok b' \<and> buf_contents b' = buf_contents b @ [x]"
proof -
  let ?r = "unat (rptr b)" and ?w = "unat (wptr b)"
  from assms(1) have lt: "?r < 256" "?w < 256" "length (buf b) = 256"
    by (simp_all add: buf_ok_def unat_bound)
  from assms(2) have nf: "\<not> tcp_buffer_is_full b"
    and b': "b' = b\<lparr>buf := (buf b)[?w := x], wptr := (wptr b + 1) mod 256\<rparr>"
    by (auto simp: tcp_buffer_put_byte_def BUFSIZE_BYTE_def split: if_splits)
  have w': "unat ((wptr b + 1) mod 256) = (?w + 1) mod 256"
    using assms(1) by (simp add: buf_ok_def unat_next_index)
  have ok: "buf_ok b'" using assms(1) by (simp add: b' buf_ok_def next_index_less)
  have nc: "buf_count b \<noteq> 255" using full_iff [OF assms(1)] nf by simp
  then have c: "buf_count b' = Suc (buf_count b)"
    unfolding buf_count_def using lt by (auto simp: b' w' mod_256 split: if_splits)
  have at: "(?r + buf_count b) mod 256 = ?w"
    unfolding buf_count_def using lt by (auto simp: mod_256)
  have other: "(?r + i) mod 256 \<noteq> ?w" if "i < buf_count b" for i
    using that lt unfolding buf_count_def by (auto simp: mod_256 split: if_splits)
  have "buf_contents b' = buf_contents b @ [x]"
  proof (rule nth_equalityI)
    show "length (buf_contents b') = length (buf_contents b @ [x])" by (simp add: c)
    fix i assume "i < length (buf_contents b')"
    then have "i < Suc (buf_count b)" by (simp add: c)
    then show "buf_contents b' ! i = (buf_contents b @ [x]) ! i"
      using at lt other [of i]
      by (cases "i = buf_count b") (auto simp: buf_contents_def c [unfolded b'] b' nth_append simp del: upt_Suc)
  qed
  with ok show ?thesis by simp
qed

lemma get_contents:
  assumes "buf_ok b" "tcp_buffer_get_byte b = Some (x, b')"
  shows "buf_ok b' \<and> buf_contents b = x # buf_contents b'"
proof -
  let ?r = "unat (rptr b)" and ?w = "unat (wptr b)"
  from assms(1) have lt: "?r < 256" "?w < 256" by (simp_all add: buf_ok_def unat_bound)
  from assms(2) have ne: "\<not> tcp_buffer_is_empty b" and x: "x = buf b ! ?r"
    and b': "b' = b\<lparr>rptr := (rptr b + 1) mod 256\<rparr>"
    by (auto simp: tcp_buffer_get_byte_def BUFSIZE_BYTE_def split: if_splits)
  have r': "unat ((rptr b + 1) mod 256) = (?r + 1) mod 256"
    using assms(1) by (simp add: buf_ok_def unat_next_index)
  have ok: "buf_ok b'" using assms(1) by (simp add: b' buf_ok_def next_index_less)
  have nc: "buf_count b \<noteq> 0" using empty_iff [OF assms(1)] ne by simp
  then have c: "buf_count b = Suc (buf_count b')"
    unfolding buf_count_def using lt by (auto simp: b' r' mod_256 split: if_splits)
  have "buf_contents b = x # buf_contents b'"
  proof (rule nth_equalityI)
    show "length (buf_contents b) = length (x # buf_contents b')" by (simp add: c)
    fix i assume "i < length (buf_contents b)"
    then have i: "i < Suc (buf_count b')" by (simp add: c)
    show "buf_contents b ! i = (x # buf_contents b') ! i"
    proof (cases i)
      case 0
      with i lt show ?thesis by (simp add: buf_contents_def c x del: upt_Suc)
    next
      case (Suc k)
      have "((?r + 1) mod 256 + k) mod 256 = (?r + Suc k) mod 256" by (simp add: mod_simps)
      with Suc i show ?thesis by (simp add: buf_contents_def c b' r' del: upt_Suc)
    qed
  qed
  with ok show ?thesis by simp
qed

interpretation tcp_fifo: byte_fifo tcp_buffer_put_byte tcp_buffer_get_byte buf_ok buf_contents 255
proof unfold_locales
  fix b :: tcp_buf and x :: u8 and b' :: tcp_buf
  show "length (buf_contents b) \<le> 255" if "buf_ok b"
    using that by (auto simp: buf_count_def buf_ok_def dest!: unat_bound)
  show "(tcp_buffer_put_byte b x = None) = (length (buf_contents b) = 255)" if "buf_ok b"
    using full_iff [OF that] by (simp add: tcp_buffer_put_byte_def)
  show "buf_ok b' \<and> buf_contents b' = buf_contents b @ [x]"
    if "buf_ok b" "tcp_buffer_put_byte b x = Some b'" using that by (rule put_contents)
  show "(tcp_buffer_get_byte b = None) = (buf_contents b = [])" if "buf_ok b"
    using empty_iff [OF that] length_buf_contents [of b]
    by (auto simp: tcp_buffer_get_byte_def buf_contents_def)
  show "buf_ok b' \<and> buf_contents b = x # buf_contents b'"
    if "buf_ok b" "tcp_buffer_get_byte b = Some (x, b')" using that by (rule get_contents)
qed

lemma get_byte_Cons:
  assumes "buf_ok b" "buf_contents b = x # xs"
  obtains b' where "tcp_buffer_get_byte b = Some (x, b')" "buf_ok b'" "buf_contents b' = xs"
proof -
  have "tcp_buffer_get_byte b \<noteq> None" using tcp_fifo.get_none [OF assms(1)] assms(2) by simp
  then obtain y b' where g: "tcp_buffer_get_byte b = Some (y, b')" by auto
  from tcp_fifo.get_some [OF assms(1) g] assms(2) that g show thesis by simp
qed

lemma buf_ok_new: "length junk = 256 \<Longrightarrow> buf_ok (tcp_buffer_new junk) \<and> buf_contents (tcp_buffer_new junk) = []"
  by (simp add: buf_ok_def tcp_buffer_new_def buf_contents_def buf_count_def)

text \<open>
  C10: For every interleaving of attempts to put and to get, the ring delivers a prefix of the
  bytes it has accepted, in order, keeps the rest, never holds more than 255, and refuses a
  byte exactly when it holds 255.
\<close>

theorem tcp_buffer_fifo:
  assumes "length junk = 256"
    and "interleave tcp_buffer_put_byte tcp_buffer_get_byte ops (tcp_buffer_new junk) = (ins, outs, b)"
  shows "ins = outs @ buf_contents b \<and> length (buf_contents b) \<le> 255 \<and>
     (tcp_buffer_put_byte b x = None \<longleftrightarrow> length ins = length outs + 255)"
proof -
  note new = buf_ok_new [OF assms(1)]
  from tcp_fifo.interleave_fifo [OF _ assms(2)] new
  have "buf_ok b" "ins = outs @ buf_contents b" by simp_all
  then show ?thesis
    using tcp_fifo.contents_le [of b] tcp_fifo.put_full [of b x] by simp
qed

theorem tcp_buffer_fifo_witness:
  "fst (snd (interleave tcp_buffer_put_byte tcp_buffer_get_byte
     [Inl 1, Inl 2, Inr (), Inl 3, Inr ()] (tcp_buffer_new (replicate 256 0)))) = [1, 2]"
proof -
  let ?r = "interleave tcp_buffer_put_byte tcp_buffer_get_byte
     [Inl 1, Inl 2, Inr (), Inl 3, Inr ()] (tcp_buffer_new (replicate 256 0))"
  have "?r = (fst ?r, fst (snd ?r), snd (snd ?r))" by simp
  from tcp_buffer_fifo [OF _ this, of 0]
  have "fst ?r = fst (snd ?r) @ buf_contents (snd (snd ?r))" by simp
  moreover have "fst ?r = [1, 2, 3]" "length (fst (snd ?r)) = 2"
    by (simp_all add: tcp_buffer_new_def tcp_buffer_put_byte_def tcp_buffer_get_byte_def
        tcp_buffer_is_full_def tcp_buffer_is_empty_def BUFSIZE_BYTE_def)
  ultimately have "fst (snd ?r) = take 2 [1, 2, 3]" by (metis append_eq_conv_conj)
  then show ?thesis by simp
qed

section \<open>The statements of the two threads\<close>

text \<open>
  \<open>buf->buf[buf->wptr++] = dat; buf->wptr %= BUFSIZE_BYTE;\<close> and the corresponding two statements
  of the reader, each statement a step, with the checks in the step that follows them. Between
  its two statements a thread is \<open>Wrapping\<close>.
\<close>

datatype pc = Ready | Wrapping

record tcp_threads =
  ring :: tcp_buf
  writer :: pc
  reader :: pc
  accepted :: "u8 list"
  delivered :: "u8 list"

inductive thread_step :: "tcp_threads \<Rightarrow> tcp_threads \<Rightarrow> bool" where
  put_store: "writer t = Ready \<Longrightarrow> \<not> tcp_buffer_is_full (ring t) \<Longrightarrow> b = ring t \<Longrightarrow>
     thread_step t (t\<lparr>ring := b\<lparr>buf := (buf b)[unat (wptr b) := x], wptr := wptr b + 1\<rparr>,
       writer := Wrapping, accepted := accepted t @ [x]\<rparr>)"
| put_wrap: "writer t = Wrapping \<Longrightarrow> b = ring t \<Longrightarrow>
     thread_step t (t\<lparr>ring := b\<lparr>wptr := wptr b mod BUFSIZE_BYTE\<rparr>, writer := Ready\<rparr>)"
| get_load: "reader t = Ready \<Longrightarrow> \<not> tcp_buffer_is_empty (ring t) \<Longrightarrow> b = ring t \<Longrightarrow>
     thread_step t (t\<lparr>ring := b\<lparr>rptr := rptr b + 1\<rparr>, reader := Wrapping,
       delivered := delivered t @ [buf b ! unat (rptr b)]\<rparr>)"
| get_wrap: "reader t = Wrapping \<Longrightarrow> b = ring t \<Longrightarrow>
     thread_step t (t\<lparr>ring := b\<lparr>rptr := rptr b mod BUFSIZE_BYTE\<rparr>, reader := Ready\<rparr>)"

inductive_cases thread_stepE: "thread_step t t'"

definition threads_start :: "tcp_buf \<Rightarrow> tcp_threads" where
  "threads_start b = \<lparr>ring = b, writer = Ready, reader = Ready, accepted = [], delivered = []\<rparr>"

text \<open>
  C14: The two statements that advance an index are not one: when the write index stands at
  255 and the reader runs between them, it sees the index 256, takes the buffer for non-empty
  once more and delivers a byte that was never written. From an empty ring one accepted byte
  leads to two delivered ones.
\<close>

theorem tcp_buffer_wrap_race:
  "\<exists>b t. buf_ok b \<and> buf_contents b = [] \<and> thread_step\<^sup>*\<^sup>* (threads_start b) t \<and>
     accepted t = [x] \<and> delivered t = [x, y]"
proof -
  let ?b = "\<lparr>rptr = 255, wptr = 255, buf = replicate 256 y\<rparr>"
  let ?m = "(replicate 256 y)[255 := x]"
  let ?t0 = "threads_start ?b"
  let ?t1 = "?t0\<lparr>ring := \<lparr>rptr = 255, wptr = 256, buf = ?m\<rparr>, writer := Wrapping, accepted := [x]\<rparr>"
  let ?t2 = "?t1\<lparr>ring := \<lparr>rptr = 256, wptr = 256, buf = ?m\<rparr>, reader := Wrapping, delivered := [x]\<rparr>"
  let ?t3 = "?t2\<lparr>ring := \<lparr>rptr = 0, wptr = 256, buf = ?m\<rparr>, reader := Ready\<rparr>"
  let ?t4 = "?t3\<lparr>ring := \<lparr>rptr = 1, wptr = 256, buf = ?m\<rparr>, reader := Wrapping, delivered := [x, y]\<rparr>"
  have 1: "thread_step ?t0 ?t1"
    using put_store [of ?t0 ?b x]
    by (simp add: threads_start_def tcp_buffer_is_full_def BUFSIZE_BYTE_def)
  have 2: "thread_step ?t1 ?t2"
    using get_load [of ?t1 "ring ?t1"] by (simp add: threads_start_def tcp_buffer_is_empty_def)
  have 3: "thread_step ?t2 ?t3"
    using get_wrap [of ?t2 "ring ?t2"] by (simp add: BUFSIZE_BYTE_def)
  have 4: "thread_step ?t3 ?t4"
    using get_load [of ?t3 "ring ?t3"] by (simp add: threads_start_def tcp_buffer_is_empty_def)
  have "thread_step\<^sup>*\<^sup>* ?t0 ?t4" using 1 2 3 4 by (meson converse_rtranclp_into_rtranclp rtranclp.rtrancl_refl)
  moreover have "buf_ok ?b" "buf_contents ?b = []"
    by (simp_all add: buf_ok_def buf_contents_def buf_count_def)
  ultimately show ?thesis by (intro exI [of _ ?b] exI [of _ ?t4]) simp
qed

end
