(* ===== verification/Tcp_Server.thy ===== *)
theory Tcp_Server
  imports Tcp_Buffer
begin

text \<open>
  The socket thread of \<open>dv/tcp_server/tcp_server.c\<close>. The system calls are not code of the
  repository: they are a parameter, a kernel state \<open>'k\<close> with one function per call, which
  returns what the C code looks at (a value or an \<open>errno\<close> class). A failed \<open>assert\<close> ends the
  process: \<open>Aborted\<close>. A loop that need not end is an \<open>option\<close>, \<open>None\<close> when it does not.

  The messages are left out. The lemmas on \<open>interface functions\<close> and the one-iteration
  theorems are about \<open>serve\<close>, one round of the loop of \<open>server_create\<close>.
\<close>

section \<open>System calls\<close>

datatype accept_result = Accepted int | Accept_again | Accept_error
datatype read_result = Read_byte u8 | Read_eof | Read_again | Read_badf | Read_error
datatype send_result = Sent | Sent_none | Send_again | Send_epipe | Send_error
datatype select_result = Selected "int set" | Select_eintr | Select_error

record 'k kernel =
  k_socket :: "'k \<Rightarrow> int option \<times> 'k"
  k_fcntl_nonblock :: "int \<Rightarrow> 'k \<Rightarrow> bool \<times> 'k"
  k_reuseaddr :: "int \<Rightarrow> 'k \<Rightarrow> bool \<times> 'k"
  k_nodelay :: "int \<Rightarrow> 'k \<Rightarrow> bool \<times> 'k"
  k_bind :: "int \<Rightarrow> u16 \<Rightarrow> 'k \<Rightarrow> bool \<times> 'k"
  k_listen :: "int \<Rightarrow> 'k \<Rightarrow> bool \<times> 'k"
  k_accept :: "int \<Rightarrow> 'k \<Rightarrow> accept_result \<times> 'k"
  k_read :: "int \<Rightarrow> 'k \<Rightarrow> read_result \<times> 'k"
  k_send :: "int \<Rightarrow> u8 \<Rightarrow> 'k \<Rightarrow> send_result \<times> 'k"
  k_close :: "int \<Rightarrow> 'k \<Rightarrow> 'k"
  k_select :: "int set \<Rightarrow> 'k \<Rightarrow> select_result \<times> 'k"

record tcp_server_ctx =
  listen_port :: u16
  socket_run :: bool
  buf_in :: tcp_buf
  buf_out :: tcp_buf
  sfd :: int
  cfd :: int

datatype 'a outcome = Aborted | Returns 'a

type_synonym 'k srv = "tcp_server_ctx \<times> 'k"

section \<open>Operations\<close>

text \<open>The result \<open>True\<close> stands for the return value 0.\<close>

definition start :: "'k kernel \<Rightarrow> 'k srv \<Rightarrow> (bool \<times> 'k srv) outcome" where
  "start K s =
     (let (ctx, k) = s in
      if sfd ctx \<noteq> 0 then Aborted
      else case k_socket K k of
        (None, k) \<Rightarrow> Returns (False, ctx, k)
      | (Some fd, k) \<Rightarrow>
          let (okf, k) = k_fcntl_nonblock K fd k in
          if \<not> okf then Returns (False, ctx, k) else
          let (okr, k) = k_reuseaddr K fd k in
          if \<not> okr then Returns (False, ctx, k) else
          let (okn, k) = k_nodelay K fd k in
          if \<not> okn then Returns (False, ctx, k) else
          let (okb, k) = k_bind K fd (listen_port ctx) k in
          if \<not> okb then Returns (False, ctx, k) else
          let (okl, k) = k_listen K fd k in
          if \<not> okl then Returns (False, ctx, k) else
          if fd > 0 then Returns (True, ctx\<lparr>sfd := fd\<rparr>, k) else Aborted)"

definition client_tryaccept :: "'k kernel \<Rightarrow> 'k srv \<Rightarrow> 'k srv outcome" where
  "client_tryaccept K s =
     (let (ctx, k) = s in
      if \<not> sfd ctx > 0 then Aborted
      else case k_accept K (sfd ctx) k of
        (Accept_again, k) \<Rightarrow> Returns (ctx, k)
      | (Accept_error, k) \<Rightarrow> Returns (ctx, k)
      | (Accepted fd, k) \<Rightarrow>
          if cfd ctx > 0 then Returns (ctx, k_close K fd k)
          else
            let (okf, k) = k_fcntl_nonblock K fd k in
            if \<not> okf then Returns (ctx, k)
            else if fd > 0 then Returns (ctx\<lparr>cfd := fd\<rparr>, k) else Aborted)"

definition stop :: "'k kernel \<Rightarrow> 'k srv \<Rightarrow> 'k srv" where
  "stop K s =
     (let (ctx, k) = s in
      if sfd ctx = 0 then (ctx, k) else (ctx\<lparr>sfd := 0\<rparr>, k_close K (sfd ctx) k))"

definition tcp_server_client_close :: "'k kernel \<Rightarrow> 'k srv \<Rightarrow> 'k srv" where
  "tcp_server_client_close K s =
     (let (ctx, k) = s in
      if cfd ctx = 0 then (ctx, k) else (ctx\<lparr>cfd := 0\<rparr>, k_close K (cfd ctx) k))"

definition get_byte :: "'k kernel \<Rightarrow> 'k srv \<Rightarrow> (u8 option \<times> 'k srv) outcome" where
  "get_byte K s =
     (let (ctx, k) = s in
      case k_read K (cfd ctx) k of
        (Read_eof, k) \<Rightarrow> Returns (None, ctx, k)
      | (Read_again, k) \<Rightarrow> Returns (None, ctx, k)
      | (Read_badf, k) \<Rightarrow> Returns (None, tcp_server_client_close K (ctx, k))
      | (Read_error, k) \<Rightarrow> Aborted
      | (Read_byte b, k) \<Rightarrow> Returns (Some b, ctx, k))"

text \<open>The endless loop of \<open>put_byte\<close> goes round while the socket would block.\<close>

partial_function (option) put_byte ::
  "'k kernel \<Rightarrow> u8 \<Rightarrow> 'k srv \<Rightarrow> 'k srv outcome option" where
  "put_byte K c s =
     (case k_send K (cfd (fst s)) c (snd s) of
        (Send_again, k) \<Rightarrow> put_byte K c (fst s, k)
      | (Sent_none, k) \<Rightarrow> put_byte K c (fst s, k)
      | (Send_epipe, k) \<Rightarrow> Some (Returns (tcp_server_client_close K (fst s, k)))
      | (Send_error, k) \<Rightarrow> Some Aborted
      | (Sent, k) \<Rightarrow> Some (Returns (fst s, k)))"

text \<open>
  \<open>while (!tcp_buffer_is_full(ctx->buf_in) && get_byte(ctx, &xfer_data))\<close>. The put in its body
  finds room: the buffer was not full and only this thread puts. The loop here runs alone;
  \<open>receive_shared\<close> below is the same loop with the thread that reads the buffer.
\<close>

partial_function (option) receive_loop ::
  "'k kernel \<Rightarrow> 'k srv \<Rightarrow> 'k srv outcome option" where
  "receive_loop K s =
     (if tcp_buffer_is_full (buf_in (fst s)) then Some (Returns s)
      else case get_byte K s of
        Aborted \<Rightarrow> Some Aborted
      | Returns (None, s) \<Rightarrow> Some (Returns s)
      | Returns (Some x, ctx, k) \<Rightarrow>
          (case tcp_buffer_put_byte (buf_in ctx) x of
             None \<Rightarrow> None
           | Some b \<Rightarrow> receive_loop K (ctx\<lparr>buf_in := b\<rparr>, k)))"

text \<open>\<open>while (tcp_buffer_get_byte(ctx->buf_out, &xfer_data)) put_byte(ctx, xfer_data);\<close>\<close>

partial_function (option) send_loop ::
  "'k kernel \<Rightarrow> 'k srv \<Rightarrow> 'k srv outcome option" where
  "send_loop K s =
     (case tcp_buffer_get_byte (buf_out (fst s)) of
        None \<Rightarrow> Some (Returns s)
      | Some (x, b) \<Rightarrow>
          (case put_byte K x ((fst s)\<lparr>buf_out := b\<rparr>, snd s) of
             None \<Rightarrow> None
           | Some Aborted \<Rightarrow> Some Aborted
           | Some (Returns s) \<Rightarrow> send_loop K s))"

text \<open>
  One round of \<open>while (ctx->socket_run)\<close>. After a failed \<open>select\<close> that is no interrupt the round
  goes on with the descriptor set it had built.
\<close>

definition watched :: "tcp_server_ctx \<Rightarrow> int set" where
  "watched ctx = (if sfd ctx \<noteq> 0 then {sfd ctx} else {}) \<union> (if cfd ctx \<noteq> 0 then {cfd ctx} else {})"

definition serve_new :: "'k kernel \<Rightarrow> int set \<Rightarrow> 'k srv \<Rightarrow> 'k srv outcome" where
  "serve_new K fds s = (if sfd (fst s) \<in> fds then client_tryaccept K s else Returns s)"

definition serve_data :: "'k kernel \<Rightarrow> int set \<Rightarrow> 'k srv \<Rightarrow> 'k srv outcome option" where
  "serve_data K fds s = (if cfd (fst s) \<in> fds then receive_loop K s else Some (Returns s))"

definition serve_send :: "'k kernel \<Rightarrow> 'k srv \<Rightarrow> 'k srv outcome option" where
  "serve_send K s = (if cfd (fst s) \<noteq> 0 then send_loop K s else Some (Returns s))"

definition serve_ready :: "'k kernel \<Rightarrow> int set \<Rightarrow> 'k srv \<Rightarrow> 'k srv outcome option" where
  "serve_ready K fds s =
     (case serve_new K fds s of
        Aborted \<Rightarrow> Some Aborted
      | Returns s \<Rightarrow>
          (case serve_data K fds s of
             None \<Rightarrow> None
           | Some Aborted \<Rightarrow> Some Aborted
           | Some (Returns s) \<Rightarrow> serve_send K s))"

definition serve :: "'k kernel \<Rightarrow> 'k srv \<Rightarrow> 'k srv outcome option" where
  "serve K s =
     (case k_select K (watched (fst s)) (snd s) of
        (Select_eintr, k) \<Rightarrow> Some (Returns (fst s, k))
      | (Select_error, k) \<Rightarrow>
          serve_ready K (watched (fst s)) (tcp_server_client_close K (fst s, k))
      | (Selected fds, k) \<Rightarrow> serve_ready K fds (fst s, k))"

text \<open>The thread function: \<open>socket_run\<close> is looked up anew in every round.\<close>

partial_function (option) serve_loop ::
  "'k kernel \<Rightarrow> (nat \<Rightarrow> bool) \<Rightarrow> nat \<Rightarrow> 'k srv \<Rightarrow> 'k srv outcome option" where
  "serve_loop K run i s =
     (if \<not> run i then Some (Returns s)
      else case serve K s of
        None \<Rightarrow> None
      | Some Aborted \<Rightarrow> Some Aborted
      | Some (Returns s) \<Rightarrow> serve_loop K run (Suc i) s)"

definition server_create :: "'k kernel \<Rightarrow> (nat \<Rightarrow> bool) \<Rightarrow> 'k srv \<Rightarrow> 'k srv outcome option" where
  "server_create K run s =
     (case start K s of
        Aborted \<Rightarrow> Some Aborted
      | Returns (True, s) \<Rightarrow>
          (case serve_loop K run 0 s of
             None \<Rightarrow> None
           | Some Aborted \<Rightarrow> Some Aborted
           | Some (Returns s) \<Rightarrow> Some (Returns (stop K (tcp_server_client_close K s))))
      | Returns (False, s) \<Rightarrow> Some (Returns (stop K (tcp_server_client_close K s))))"

section \<open>Interface functions\<close>

definition tcp_server_read :: "tcp_server_ctx \<Rightarrow> (u8 \<times> tcp_server_ctx) option" where
  "tcp_server_read ctx =
     (case tcp_buffer_get_byte (buf_in ctx) of
        None \<Rightarrow> None
      | Some (x, b) \<Rightarrow> Some (x, ctx\<lparr>buf_in := b\<rparr>))"

text \<open>One attempt; the C function repeats it until the socket thread has made room.\<close>

definition tcp_server_write :: "u8 \<Rightarrow> tcp_server_ctx \<Rightarrow> tcp_server_ctx option" where
  "tcp_server_write x ctx =
     (case tcp_buffer_put_byte (buf_out ctx) x of
        None \<Rightarrow> None
      | Some b \<Rightarrow> Some (ctx\<lparr>buf_out := b\<rparr>))"

text \<open>
  The heap objects of a server. \<open>tcp_server_create\<close> is the list of the allocations and frees
  it does, by whether the thread could be started.
\<close>

datatype heap_object = Ctx | Buf_in | Buf_out | Display_name
datatype heap_event = Alloc heap_object | Free heap_object

definition ctx_free :: "heap_event list" where
  "ctx_free = [Free Buf_in, Free Buf_out, Free Display_name, Free Ctx]"

definition tcp_server_create :: "u8 list \<Rightarrow> u8 list \<Rightarrow> u16 \<Rightarrow> bool \<Rightarrow> tcp_server_ctx option \<times> heap_event list" where
  "tcp_server_create junk_in junk_out port thread_ok =
     (let allocs = [Alloc Ctx, Alloc Buf_in, Alloc Buf_out, Alloc Display_name];
          ctx = \<lparr>listen_port = port, socket_run = True, buf_in = tcp_buffer_new junk_in,
                 buf_out = tcp_buffer_new junk_out, sfd = 0, cfd = 0\<rparr>
      in if thread_ok then (Some ctx, allocs)
         else (None, allocs @ ctx_free @ [Free Ctx]))"

definition tcp_server_close :: "tcp_server_ctx \<Rightarrow> tcp_server_ctx \<times> heap_event list" where
  "tcp_server_close ctx = (ctx\<lparr>socket_run := False\<rparr>, ctx_free)"

section \<open>The receive loop and its reader\<close>

text \<open>
  The simulator thread reads \<open>buf_in\<close> while the loop fills it. \<open>receive_shared\<close> is the loop with
  that thread in it: before the test of round \<open>i\<close> the reader calls \<open>tcp_server_read\<close>
  \<open>takes i\<close> times. A read at another point of the round commutes with the calls of the loop up
  to the next test. The bytes the reader got are collected in front of the state.
\<close>

fun read_times :: "nat \<Rightarrow> tcp_server_ctx \<Rightarrow> u8 list \<times> tcp_server_ctx" where
  "read_times 0 ctx = ([], ctx)"
| "read_times (Suc n) ctx =
     (case tcp_server_read ctx of
        None \<Rightarrow> ([], ctx)
      | Some (x, ctx) \<Rightarrow> (case read_times n ctx of (xs, ctx) \<Rightarrow> (x # xs, ctx)))"

partial_function (option) receive_shared ::
  "'k kernel \<Rightarrow> (nat \<Rightarrow> nat) \<Rightarrow> nat \<Rightarrow> u8 list \<Rightarrow> 'k srv \<Rightarrow> (u8 list \<times> 'k srv) outcome option" where
  "receive_shared K takes i taken s =
     (let (xs, ctx) = read_times (takes i) (fst s); taken = taken @ xs in
      if tcp_buffer_is_full (buf_in ctx) then Some (Returns (taken, ctx, snd s))
      else case get_byte K (ctx, snd s) of
        Aborted \<Rightarrow> Some Aborted
      | Returns (None, s) \<Rightarrow> Some (Returns (taken, s))
      | Returns (Some x, ctx, k) \<Rightarrow>
          (case tcp_buffer_put_byte (buf_in ctx) x of
             None \<Rightarrow> None
           | Some b \<Rightarrow> receive_shared K takes (Suc i) taken (ctx\<lparr>buf_in := b\<rparr>, k)))"

text \<open>
  What the client sent: the kernel hands out exactly the bytes \<open>bs\<close> in successive reads, and is
  then in the state of the result.
\<close>

fun client_sends :: "'k kernel \<Rightarrow> int \<Rightarrow> u8 list \<Rightarrow> 'k \<Rightarrow> 'k option" where
  "client_sends K fd [] k = Some k"
| "client_sends K fd (b # bs) k =
     (case k_read K fd k of
        (Read_byte c, k1) \<Rightarrow> if c = b then client_sends K fd bs k1 else None
      | _ \<Rightarrow> None)"

text \<open>
  How the loop may end, at the kernel state \<open>k1\<close> and with \<open>stream\<close> the bytes the reader got and
  those in the buffer: the buffer is full; or the next read finds the end of the stream or
  nothing, and nothing changes; or it finds a bad descriptor, and the client is closed; or it
  fails, and the process aborts.
\<close>

definition loop_ends ::
  "'k kernel \<Rightarrow> tcp_server_ctx \<Rightarrow> u8 list \<Rightarrow> 'k \<Rightarrow> (u8 list \<times> 'k srv) outcome \<Rightarrow> bool" where
  "loop_ends K ctx stream k1 r \<longleftrightarrow>
     (let (res, k2) = k_read K (cfd ctx) k1 in
      case r of
        Aborted \<Rightarrow> res = Read_error
      | Returns (taken, ctx', k') \<Rightarrow>
          taken @ buf_contents (buf_in ctx') = stream \<and> buf_ok (buf_in ctx') \<and>
          buf_out ctx' = buf_out ctx \<and> sfd ctx' = sfd ctx \<and>
          ((length (buf_contents (buf_in ctx')) = 255 \<and> cfd ctx' = cfd ctx \<and> k' = k1) \<or>
           (res \<in> {Read_eof, Read_again} \<and> cfd ctx' = cfd ctx \<and> k' = k2) \<or>
           (res = Read_badf \<and> cfd ctx' = 0 \<and>
            k' = (if cfd ctx = 0 then k2 else k_close K (cfd ctx) k2))))"

lemma read_times_contents:
  "buf_ok (buf_in ctx) \<Longrightarrow> read_times n ctx = (xs, ctx') \<Longrightarrow>
     buf_ok (buf_in ctx') \<and> xs @ buf_contents (buf_in ctx') = buf_contents (buf_in ctx) \<and>
     buf_out ctx' = buf_out ctx \<and> sfd ctx' = sfd ctx \<and> cfd ctx' = cfd ctx"
proof (induction n arbitrary: ctx xs)
  case 0
  then show ?case by simp
next
  case (Suc n)
  show ?case
  proof (cases "tcp_buffer_get_byte (buf_in ctx)")
    case None
    with Suc.prems show ?thesis by (simp add: tcp_server_read_def)
  next
    case (Some r)
    obtain x b where r: "r = (x, b)" by (cases r)
    from tcp_fifo.get_some [OF Suc.prems(1) Some [unfolded r]]
    have b: "buf_ok b" "buf_contents (buf_in ctx) = x # buf_contents b" by simp_all
    obtain ys where ys: "read_times n (ctx\<lparr>buf_in := b\<rparr>) = (ys, ctx')" "xs = x # ys"
      using Suc.prems(2) Some r by (auto simp: tcp_server_read_def split: prod.splits)
    from Suc.IH [OF _ ys(1)] b ys(2) show ?thesis by simp
  qed
qed

text \<open>One round of the loop: it ends as \<open>received\<close> says, or goes on with one byte more.\<close>

lemma receive_round:
  assumes ok: "buf_ok (buf_in (fst s))"
  obtains (stop) r where "receive_shared K takes i taken s = Some r" "loop_ends K (fst s) (taken @ buf_contents (buf_in (fst s))) (snd s) r"
  | (more) x xs ctx k where "k_read K (cfd (fst s)) (snd s) = (Read_byte x, k)" "buf_ok (buf_in ctx)"
      "receive_shared K takes i taken s = receive_shared K takes (Suc i) (taken @ xs) (ctx, k)"
      "xs @ buf_contents (buf_in ctx) = buf_contents (buf_in (fst s)) @ [x]"
      "buf_out ctx = buf_out (fst s)" "sfd ctx = sfd (fst s)" "cfd ctx = cfd (fst s)"
      "takes i = 0 \<longrightarrow> xs = []" "length (buf_contents (buf_in ctx)) \<le> 255"
proof -
  obtain xs ctx where rd: "read_times (takes i) (fst s) = (xs, ctx)" by fastforce
  note c = read_times_contents [OF ok rd]
  show thesis
  proof (cases "tcp_buffer_is_full (buf_in ctx)")
    case True
    with c have "length (buf_contents (buf_in ctx)) = 255" using full_iff [of "buf_in ctx"] by simp
    with c have "loop_ends K (fst s) (taken @ buf_contents (buf_in (fst s))) (snd s)
        (Returns (taken @ xs, ctx, snd s))"
      by (auto simp: loop_ends_def split: prod.split)
    moreover have "receive_shared K takes i taken s = Some (Returns (taken @ xs, ctx, snd s))"
      using True rd by (subst receive_shared.simps) simp
    ultimately show thesis using stop by blast
  next
    case nf: False
    show thesis
    proof (cases "k_read K (cfd ctx) (snd s)")
      case (Pair res k)
      note kr = Pair
      have ends: thesis if "get_byte K (ctx, snd s) = Aborted \<and> res = Read_error \<or>
          (\<exists>s1. get_byte K (ctx, snd s) = Returns (None, s1) \<and>
             loop_ends K (fst s) (taken @ buf_contents (buf_in (fst s))) (snd s) (Returns (taken @ xs, s1)))"
      proof -
        have "\<exists>r. receive_shared K takes i taken s = Some r \<and>
            loop_ends K (fst s) (taken @ buf_contents (buf_in (fst s))) (snd s) r"
          using that rd nf c kr by (subst receive_shared.simps) (auto simp: loop_ends_def)
        then show thesis using stop by blast
      qed
      show thesis
      proof (cases res)
        case (Read_byte x)
        obtain b where b: "tcp_buffer_put_byte (buf_in ctx) x = Some b"
          using nf by (simp add: tcp_buffer_put_byte_def)
        from tcp_fifo.put_some [OF _ b] c
        have bok: "buf_ok b" "buf_contents b = buf_contents (buf_in ctx) @ [x]" by simp_all
        have "receive_shared K takes i taken s =
            receive_shared K takes (Suc i) (taken @ xs) (ctx\<lparr>buf_in := b\<rparr>, k)"
          using rd nf kr Read_byte b by (subst receive_shared.simps) (simp add: get_byte_def)
        with kr Read_byte c bok rd tcp_fifo.contents_le [OF bok(1)] show thesis
          by (intro more [of x k "ctx\<lparr>buf_in := b\<rparr>" xs]) (auto simp flip: append_assoc)
      qed (use kr c in \<open>auto intro!: ends simp: get_byte_def loop_ends_def tcp_server_client_close_def Let_def\<close>)
    qed
  qed
qed

lemma receive_shared_ends:
  "buf_ok (buf_in (fst s)) \<Longrightarrow> \<forall>j\<ge>N. takes j = 0 \<Longrightarrow>
     \<exists>r bs k1. receive_shared K takes i taken s = Some r \<and>
       client_sends K (cfd (fst s)) bs (snd s) = Some k1 \<and>
       loop_ends K (fst s) (taken @ buf_contents (buf_in (fst s)) @ bs) k1 r"
proof (induction "(N - i, 255 - length (buf_contents (buf_in (fst s))))" arbitrary: i s taken
    rule: wf_induct_rule [OF wf_lex_prod [OF wf_less_than wf_less_than]])
  case less: (1 i s taken)
  show ?case
  proof (rule receive_round [OF less.prems(1), where K = K and takes = takes and i = i and taken = taken])
    fix r assume "receive_shared K takes i taken s = Some r"
      "loop_ends K (fst s) (taken @ buf_contents (buf_in (fst s))) (snd s) r"
    then show ?case by (intro exI [of _ r] exI [of _ "[]"] exI [of _ "snd s"]) simp
  next
    fix x xs ctx k
    assume more: "k_read K (cfd (fst s)) (snd s) = (Read_byte x, k)" "buf_ok (buf_in ctx)"
      "receive_shared K takes i taken s = receive_shared K takes (Suc i) (taken @ xs) (ctx, k)"
      "xs @ buf_contents (buf_in ctx) = buf_contents (buf_in (fst s)) @ [x]"
      "buf_out ctx = buf_out (fst s)" "sfd ctx = sfd (fst s)" "cfd ctx = cfd (fst s)"
      "takes i = 0 \<longrightarrow> xs = []" "length (buf_contents (buf_in ctx)) \<le> 255"
    have "((N - Suc i, 255 - length (buf_contents (buf_in ctx))),
        (N - i, 255 - length (buf_contents (buf_in (fst s))))) \<in> less_than <*lex*> less_than"
    proof (cases "i < N")
      case False
      with less.prems(2) more have "xs = []" by simp
      with more(4) have "length (buf_contents (buf_in ctx)) = Suc (length (buf_contents (buf_in (fst s))))"
        by (metis append_Nil length_append_singleton)
      with more(9) show ?thesis using False by simp
    qed (auto simp: diff_less_mono2)
    then obtain r bs k1 where r: "receive_shared K takes (Suc i) (taken @ xs) (ctx, k) = Some r"
      "client_sends K (cfd ctx) bs k = Some k1"
      "loop_ends K ctx ((taken @ xs) @ buf_contents (buf_in ctx) @ bs) k1 r"
      using less.hyps [of "Suc i" "(ctx, k)" "taken @ xs"] more(2) less.prems(2) by auto
    have "(taken @ xs) @ buf_contents (buf_in ctx) @ bs = taken @ buf_contents (buf_in (fst s)) @ x # bs"
      using more(4) by (metis append.assoc append_Cons append_Nil)
    from r(3) [unfolded this] have "loop_ends K (fst s) (taken @ buf_contents (buf_in (fst s)) @ x # bs) k1 r"
      by (simp only: loop_ends_def more)
    with r(1,2) more(1,3,7) show ?case
      by (intro exI [of _ r] exI [of _ "x # bs"] exI [of _ k1]) simp
  qed
qed

text \<open>Without a reader it is the loop \<open>serve\<close> runs.\<close>

lemma receive_loop_shared:
  "buf_ok (buf_in (fst s)) \<Longrightarrow>
     receive_shared K (\<lambda>_. 0) i taken s =
       map_option (case_outcome Aborted (\<lambda>s. Returns (taken, s))) (receive_loop K s)"
proof (induction "255 - length (buf_contents (buf_in (fst s)))" arbitrary: i s rule: less_induct)
  case less
  show ?case
  proof (cases "\<not> tcp_buffer_is_full (buf_in (fst s)) \<and> (\<exists>x s1. get_byte K s = Returns (Some x, s1))")
    case False
    then show ?thesis
      by (subst receive_shared.simps, subst receive_loop.simps)
        (cases "get_byte K s"; auto split: option.split prod.splits)
  next
    case True
    then obtain x ctx k where g: "\<not> tcp_buffer_is_full (buf_in (fst s))"
      "get_byte K s = Returns (Some x, ctx, k)" by fastforce
    then have ctx: "ctx = fst s"
      by (auto simp: get_byte_def Let_def split: prod.splits read_result.splits)
    obtain b where b: "tcp_buffer_put_byte (buf_in ctx) x = Some b"
      using g(1) by (simp add: tcp_buffer_put_byte_def ctx)
    from tcp_fifo.put_some [OF _ b] less.prems
    have bok: "buf_ok b" "buf_contents b = buf_contents (buf_in (fst s)) @ [x]" by (simp_all add: ctx)
    have "255 - length (buf_contents b) < 255 - length (buf_contents (buf_in (fst s)))"
      using bok tcp_fifo.contents_le [OF bok(1)] by simp
    with less.hyps [of "(ctx\<lparr>buf_in := b\<rparr>, k)" "Suc i"] bok g b show ?thesis
      by (subst receive_shared.simps, subst receive_loop.simps) simp
  qed
qed

text \<open>
  A client that always has a byte and a reader that takes one in every round keep the loop
  going: it does not return.
\<close>

definition endless :: "'k kernel \<Rightarrow> (nat \<Rightarrow> nat) \<Rightarrow> 'k srv \<Rightarrow> bool" where
  "endless K takes s \<longleftrightarrow> (\<forall>i. 0 < takes i) \<and> buf_ok (buf_in (fst s)) \<and>
     (\<forall>k. \<exists>x k'. k_read K (cfd (fst s)) k = (Read_byte x, k'))"

lemma read_times_room:
  assumes "buf_ok (buf_in ctx)" "0 < n" "read_times n ctx = (xs, ctx')"
  shows "\<not> tcp_buffer_is_full (buf_in ctx')"
proof -
  note c = read_times_contents [OF assms(1,3)]
  obtain m where n: "n = Suc m" using assms(2) by (cases n) auto
  have "xs \<noteq> [] \<or> buf_contents (buf_in ctx) = []"
    using assms(1,3) tcp_fifo.get_none [OF assms(1)]
    by (auto simp: n tcp_server_read_def split: option.splits prod.splits)
  then have "xs \<noteq> [] \<or> buf_contents (buf_in ctx') = []" using c by (metis append_is_Nil_conv)
  moreover have "length xs + length (buf_contents (buf_in ctx')) = length (buf_contents (buf_in ctx))"
    using c length_append by metis
  ultimately have "length (buf_contents (buf_in ctx')) < 255"
    using tcp_fifo.contents_le [OF assms(1)] by (cases xs) auto
  with c show ?thesis using full_iff [of "buf_in ctx'"] by simp
qed

lemma receive_shared_endless:
  "receive_shared K takes i taken s = Some r \<Longrightarrow> \<not> endless K takes s"
proof (rule receive_shared.raw_induct [where P = "\<lambda>K takes i taken s r. \<not> endless K takes s"])
  fix rs K takes i taken s r
  assume IH: "\<And>K takes i taken s r. rs K takes i taken s = Some r \<Longrightarrow> \<not> endless K takes s"
    and body: "(let (xs, ctx) = read_times (takes i) (fst s); taken = taken @ xs in
      if tcp_buffer_is_full (buf_in ctx) then Some (Returns (taken, ctx, snd s))
      else case get_byte K (ctx, snd s) of
        Aborted \<Rightarrow> Some Aborted
      | Returns (None, s) \<Rightarrow> Some (Returns (taken, s))
      | Returns (Some x, ctx, k) \<Rightarrow>
          (case tcp_buffer_put_byte (buf_in ctx) x of
             None \<Rightarrow> None
           | Some b \<Rightarrow> rs K takes (Suc i) taken (ctx\<lparr>buf_in := b\<rparr>, k))) = Some r"
  show "\<not> endless K takes s"
  proof
    assume e: "endless K takes s"
    obtain xs ctx where rd: "read_times (takes i) (fst s) = (xs, ctx)" by fastforce
    have ok: "buf_ok (buf_in (fst s))" and t: "0 < takes i" using e by (simp_all add: endless_def)
    note nf = read_times_room [OF ok t rd] and c = read_times_contents [OF ok rd]
    from e c obtain x k where k: "k_read K (cfd ctx) (snd s) = (Read_byte x, k)"
      unfolding endless_def by metis
    obtain b where b: "tcp_buffer_put_byte (buf_in ctx) x = Some b"
      using nf by (simp add: tcp_buffer_put_byte_def)
    have "buf_ok b" using tcp_fifo.put_some [OF _ b] c by simp
    then have "endless K takes (ctx\<lparr>buf_in := b\<rparr>, k)" using e c by (simp add: endless_def)
    moreover have "rs K takes (Suc i) (taken @ xs) (ctx\<lparr>buf_in := b\<rparr>, k) = Some r"
      using body rd nf k b by (simp add: get_byte_def)
    ultimately show False using IH by blast
  qed
qed

text \<open>A client that takes every byte: what the kernel hands to it is \<open>sent\<close>.\<close>

definition willing_client :: "'k kernel \<Rightarrow> int \<Rightarrow> ('k \<Rightarrow> u8 list) \<Rightarrow> bool" where
  "willing_client K fd sent \<longleftrightarrow> (\<forall>x k. \<exists>k'. k_send K fd x k = (Sent, k') \<and> sent k' = sent k @ [x])"

lemma send_loop_drains:
  "willing_client K fd sent \<Longrightarrow> buf_ok (buf_out (fst s)) \<Longrightarrow> cfd (fst s) = fd \<Longrightarrow>
     \<exists>s'. send_loop K s = Some (Returns s') \<and> cfd (fst s') = fd \<and> buf_in (fst s') = buf_in (fst s) \<and>
       buf_ok (buf_out (fst s')) \<and> buf_contents (buf_out (fst s')) = [] \<and>
       sent (snd s') = sent (snd s) @ buf_contents (buf_out (fst s))"
proof (induction "buf_contents (buf_out (fst s))" arbitrary: s)
  case Nil
  then have "tcp_buffer_get_byte (buf_out (fst s)) = None" by (simp add: tcp_fifo.get_none)
  with Nil show ?case by (subst send_loop.simps) auto
next
  case (Cons x xs)
  then obtain x' b where g: "tcp_buffer_get_byte (buf_out (fst s)) = Some (x', b)"
    by (cases "tcp_buffer_get_byte (buf_out (fst s))") (auto simp: tcp_fifo.get_none)
  with tcp_fifo.get_some [OF Cons.prems(2) g] Cons.hyps(2)
  have b: "x' = x" "buf_ok b" "xs = buf_contents b" by auto
  from Cons.prems(1) obtain k' where
    k': "k_send K fd x (snd s) = (Sent, k')" "sent k' = sent (snd s) @ [x]"
    unfolding willing_client_def by blast
  let ?s1 = "((fst s)\<lparr>buf_out := b\<rparr>, k')"
  have "put_byte K x ((fst s)\<lparr>buf_out := b\<rparr>, snd s) = Some (Returns ?s1)"
    using k' Cons.prems(3) by (subst put_byte.simps) simp
  then have step: "send_loop K s = send_loop K ?s1"
    using g b(1) by (subst send_loop.simps) simp
  from Cons.hyps(1) [of ?s1] b Cons.prems obtain s' where
    "send_loop K ?s1 = Some (Returns s')" "cfd (fst s') = fd" "buf_in (fst s') = buf_in (fst s)"
    "buf_ok (buf_out (fst s'))" "buf_contents (buf_out (fst s')) = []"
    "sent (snd s') = sent k' @ xs" by auto
  with step k' Cons.hyps(2) show ?case by auto
qed

section \<open>A kernel with a script\<close>

text \<open>
  A concrete kernel for the witnesses: a list of results for each call that matters, the bytes
  sent and the descriptors closed. \<open>send\<close> fails on every descriptor that is no socket, here
  on every one below 3.
\<close>

record script =
  accepts :: "accept_result list"
  reads :: "read_result list"
  sends :: "send_result list"
  sent_log :: "u8 list"
  closed :: "int list"

definition script_kernel :: "script kernel" where
  "script_kernel =
     \<lparr>k_socket = (\<lambda>k. (Some 3, k)), k_fcntl_nonblock = (\<lambda>_ k. (True, k)),
      k_reuseaddr = (\<lambda>_ k. (True, k)), k_nodelay = (\<lambda>_ k. (True, k)),
      k_bind = (\<lambda>_ _ k. (True, k)), k_listen = (\<lambda>_ k. (True, k)),
      k_accept = (\<lambda>_ k. case accepts k of [] \<Rightarrow> (Accept_again, k)
         | r # rs \<Rightarrow> (r, k\<lparr>accepts := rs\<rparr>)),
      k_read = (\<lambda>_ k. case reads k of [] \<Rightarrow> (Read_again, k) | r # rs \<Rightarrow> (r, k\<lparr>reads := rs\<rparr>)),
      k_send = (\<lambda>fd x k. if fd < 3 then (Send_error, k)
         else case sends k of
           [] \<Rightarrow> (Sent, k\<lparr>sent_log := sent_log k @ [x]\<rparr>)
         | r # rs \<Rightarrow> (r, k\<lparr>sends := rs\<rparr>)),
      k_close = (\<lambda>fd k. k\<lparr>closed := closed k @ [fd]\<rparr>),
      k_select = (\<lambda>fds k. (Selected fds, k))\<rparr>"

lemma script_read:
  "k_read script_kernel fd k = (case reads k of [] \<Rightarrow> (Read_again, k) | r # rs \<Rightarrow> (r, k\<lparr>reads := rs\<rparr>))"
  by (simp add: script_kernel_def)

lemma script_client_sends:
  "client_sends script_kernel fd bs k = Some k1 \<Longrightarrow>
     map Read_byte bs = take (length bs) (reads k) \<and> reads k1 = drop (length bs) (reads k)"
proof (induction bs arbitrary: k)
  case (Cons b bs)
  then show ?case
    using Cons.IH [of "k\<lparr>reads := tl (reads k)\<rparr>"]
    by (auto simp: script_read split: list.splits read_result.splits if_splits)
qed simp

definition willing_kernel :: "u8 list kernel" where
  "willing_kernel =
     \<lparr>k_socket = (\<lambda>k. (Some 3, k)), k_fcntl_nonblock = (\<lambda>_ k. (True, k)),
      k_reuseaddr = (\<lambda>_ k. (True, k)), k_nodelay = (\<lambda>_ k. (True, k)),
      k_bind = (\<lambda>_ _ k. (True, k)), k_listen = (\<lambda>_ k. (True, k)),
      k_accept = (\<lambda>_ k. (Accept_again, k)), k_read = (\<lambda>_ k. (Read_again, k)),
      k_send = (\<lambda>_ x k. (Sent, k @ [x])), k_close = (\<lambda>_ k. k),
      k_select = (\<lambda>fds k. (Selected fds, k))\<rparr>"

lemma willing_kernel_client: "willing_client willing_kernel fd (\<lambda>k. k)"
  by (simp add: willing_client_def willing_kernel_def)

definition demo_ctx :: "u8 list \<Rightarrow> tcp_server_ctx" where
  "demo_ctx queued =
     \<lparr>listen_port = 44853, socket_run = True, buf_in = tcp_buffer_new (replicate 256 0),
      buf_out = \<lparr>rptr = 0, wptr = of_nat (length queued), buf = queued @ replicate (256 - length queued) 0\<rparr>,
      sfd = 3, cfd = 4\<rparr>"

lemma demo_ctx_ok: "length queued < 256 \<Longrightarrow> buf_ok (buf_in (demo_ctx queued)) \<and> buf_ok (buf_out (demo_ctx queued))"
  by (simp add: demo_ctx_def tcp_buffer_new_def buf_ok_def word_less_nat_alt)

section \<open>Properties\<close>

text \<open>
  C13: The receive loop, with the simulator thread reading from the same buffer, returns on
  every kernel when the reader stops at some round. Then the bytes the reader got and those
  left in the buffer are, in order, the bytes that were in it and exactly the bytes the
  client sent meanwhile; the loop ended because the buffer is full or because of the result of
  the next read, which alone decides about the client slot. (A reader that takes a byte in
  every round and a client that always has one keep the loop going, \<open>receive_shared_endless\<close>.)
\<close>

theorem tcp_receive_returns:
  assumes "buf_ok (buf_in ctx)" "\<forall>i\<ge>N. takes i = 0"
  shows "\<exists>r bs k1. receive_shared K takes 0 [] (ctx, k) = Some r \<and>
     client_sends K (cfd ctx) bs k = Some k1 \<and>
     (case r of
        Aborted \<Rightarrow> fst (k_read K (cfd ctx) k1) = Read_error
      | Returns (taken, ctx', k') \<Rightarrow>
          taken @ buf_contents (buf_in ctx') = buf_contents (buf_in ctx) @ bs \<and> buf_ok (buf_in ctx') \<and>
          buf_out ctx' = buf_out ctx \<and> sfd ctx' = sfd ctx \<and>
          ((length (buf_contents (buf_in ctx')) = 255 \<and> cfd ctx' = cfd ctx \<and> k' = k1) \<or>
           (\<exists>k2. k_read K (cfd ctx) k1 \<in> {(Read_eof, k2), (Read_again, k2)} \<and>
              cfd ctx' = cfd ctx \<and> k' = k2) \<or>
           (\<exists>k2. k_read K (cfd ctx) k1 = (Read_badf, k2) \<and> cfd ctx' = 0 \<and>
              k' = (if cfd ctx = 0 then k2 else k_close K (cfd ctx) k2))))"
proof -
  from assms(1) have "buf_ok (buf_in (fst (ctx, k)))" by simp
  from receive_shared_ends [OF this assms(2), of K 0 "[]"] obtain r bs k1 where
    r: "receive_shared K takes 0 [] (ctx, k) = Some r" "client_sends K (cfd ctx) bs k = Some k1"
      "loop_ends K ctx (buf_contents (buf_in ctx) @ bs) k1 r" by auto
  obtain res k2 where "k_read K (cfd ctx) k1 = (res, k2)" by fastforce
  with r show ?thesis
    by (intro exI [of _ r] exI [of _ bs] exI [of _ k1])
      (cases r; auto simp: loop_ends_def split: prod.splits)
qed

text \<open>
  Three bytes and the end of the stream, the reader taking one byte in the second round: it
  has the first byte, the buffer the other two.
\<close>

theorem tcp_receive_returns_witness:
  "\<exists>taken ctx' k'. receive_shared script_kernel (\<lambda>i. if i = 1 then 1 else 0) 0 [] (demo_ctx [],
     \<lparr>accepts = [], reads = [Read_byte 65, Read_byte 66, Read_byte 67, Read_eof], sends = [],
      sent_log = [], closed = []\<rparr>) = Some (Returns (taken, ctx', k')) \<and>
     taken @ buf_contents (buf_in ctx') = [65, 66, 67] \<and> cfd ctx' = 4"
proof -
  let ?k = "\<lparr>accepts = [], reads = [Read_byte 65, Read_byte 66, Read_byte 67, Read_eof], sends = [],
      sent_log = [], closed = []\<rparr>"
  have ok: "buf_ok (buf_in (demo_ctx []))" using demo_ctx_ok [of "[]"] by simp
  have c: "buf_contents (buf_in (demo_ctx [])) = []" "cfd (demo_ctx []) = 4"
    by (simp_all add: demo_ctx_def tcp_buffer_new_def buf_contents_def buf_count_def)
  have quiet: "\<forall>i\<ge>2. (if i = (1 :: nat) then 1 else 0 :: nat) = 0" by simp
  from tcp_receive_returns [OF ok quiet, of script_kernel ?k, unfolded c] obtain r bs k1 where
    r: "receive_shared script_kernel (\<lambda>i. if i = 1 then 1 else 0) 0 [] (demo_ctx [], ?k) = Some r"
      "client_sends script_kernel 4 bs ?k = Some k1"
    and e: "case r of
        Aborted \<Rightarrow> fst (k_read script_kernel 4 k1) = Read_error
      | Returns (taken, ctx', k') \<Rightarrow>
          taken @ buf_contents (buf_in ctx') = [] @ bs \<and> buf_ok (buf_in ctx') \<and>
          buf_out ctx' = buf_out (demo_ctx []) \<and> sfd ctx' = sfd (demo_ctx []) \<and>
          ((length (buf_contents (buf_in ctx')) = 255 \<and> cfd ctx' = 4 \<and> k' = k1) \<or>
           (\<exists>k2. k_read script_kernel 4 k1 \<in> {(Read_eof, k2), (Read_again, k2)} \<and> cfd ctx' = 4 \<and> k' = k2) \<or>
           (\<exists>k2. k_read script_kernel 4 k1 = (Read_badf, k2) \<and> cfd ctx' = 0 \<and>
              k' = (if (4 :: int) = 0 then k2 else k_close script_kernel 4 k2)))"
    by blast
  note sent = script_client_sends [OF r(2)]
  from sent have "length bs = length (take (length bs) (reads ?k))" using length_map by metis
  then have "length bs \<le> 4" by simp
  then have "length bs \<in> {0, 1, 2, 3, 4}" unfolding insert_iff by arith
  with sent have bs: "bs = [] \<and> hd (reads k1) = Read_byte 65 \<or> bs = [65] \<and> hd (reads k1) = Read_byte 66 \<or>
      bs = [65, 66] \<and> hd (reads k1) = Read_byte 67 \<or> bs = [65, 66, 67] \<and> hd (reads k1) = Read_eof"
    and ne: "reads k1 \<noteq> []"
    by (auto simp: map_eq_Cons_conv)
  have rd: "fst (k_read script_kernel 4 k1) = hd (reads k1)"
    using ne by (cases "reads k1") (simp_all add: script_read)
  obtain taken ctx' k' where ret: "r = Returns (taken, ctx', k')"
  proof (cases r)
    case Aborted
    with e rd bs show ?thesis by auto
  next
    case (Returns x)
    then show ?thesis using that by (cases x) auto
  qed
  have cs: "taken @ buf_contents (buf_in ctx') = bs" using e ret by simp
  have "length taken + length (buf_contents (buf_in ctx')) = length bs"
    using arg_cong [OF cs, of length] by simp
  moreover have "length bs \<le> 3" using bs by auto
  ultimately have "length (buf_contents (buf_in ctx')) \<noteq> 255" by linarith
  with e ret have stop:
      "fst (k_read script_kernel 4 k1) \<in> {Read_eof, Read_again} \<and> cfd ctx' = 4 \<or>
       fst (k_read script_kernel 4 k1) = Read_badf" by auto
  with rd bs have "bs = [65, 66, 67] \<and> cfd ctx' = 4" by auto
  with r(1) ret cs show ?thesis by blast
qed

text \<open>
  With a client that takes every byte, the send loop returns with the output buffer empty
  and has handed exactly its contents to the client, in order.
\<close>

lemma tcp_send_drains:
  assumes "willing_client K (cfd ctx) sent" "buf_ok (buf_out ctx)"
  shows "\<exists>ctx' k'. send_loop K (ctx, k) = Some (Returns (ctx', k')) \<and>
     buf_contents (buf_out ctx') = [] \<and> sent k' = sent k @ buf_contents (buf_out ctx) \<and>
     buf_in ctx' = buf_in ctx \<and> cfd ctx' = cfd ctx"
  using send_loop_drains [OF assms(1), of "(ctx, k)"] assms(2) by fastforce

lemma tcp_send_drains_witness:
  "\<exists>ctx' k'. send_loop willing_kernel (demo_ctx [0x52, 0x30], []) = Some (Returns (ctx', k')) \<and>
     k' = [0x52, 0x30]"
proof -
  have "buf_contents (buf_out (demo_ctx [0x52, 0x30])) = [0x52, 0x30]"
    by (simp add: buf_contents_def buf_count_def demo_ctx_def upt_rec)
  with tcp_send_drains [OF willing_kernel_client, of "demo_ctx [0x52, 0x30]" "[]"]
    demo_ctx_ok [of "[0x52, 0x30]"] show ?thesis by fastforce
qed

text \<open>
  A client that closes its connection is not noticed. When the read meets the end of the
  stream, the round leaves the client slot occupied, and the next connection is accepted only
  to be closed again.
\<close>

lemma tcp_eof_keeps_client:
  assumes "0 < cfd ctx" "0 < sfd ctx" "\<not> tcp_buffer_is_full (buf_in ctx)"
    and "k_read K (cfd ctx) k = (Read_eof, k1)" "k_accept K (sfd ctx) k1 = (Accepted fd, k2)"
  shows "receive_loop K (ctx, k) = Some (Returns (ctx, k1)) \<and>
     client_tryaccept K (ctx, k1) = Returns (ctx, k_close K fd k2)"
proof -
  have "receive_loop K (ctx, k) = Some (Returns (ctx, k1))"
    using assms by (subst receive_loop.simps) (simp add: get_byte_def)
  moreover have "client_tryaccept K (ctx, k1) = Returns (ctx, k_close K fd k2)"
    using assms by (simp add: client_tryaccept_def)
  ultimately show ?thesis by blast
qed

lemma tcp_eof_keeps_client_witness:
  "\<exists>k. receive_loop script_kernel (demo_ctx [],
      \<lparr>accepts = [Accepted 5], reads = [Read_eof], sends = [], sent_log = [], closed = []\<rparr>) =
    Some (Returns (demo_ctx [], k)) \<and>
    client_tryaccept script_kernel (demo_ctx [], k) =
      Returns (demo_ctx [], \<lparr>accepts = [], reads = [], sends = [], sent_log = [], closed = [5]\<rparr>)"
proof -
  let ?k1 = "\<lparr>accepts = [Accepted 5], reads = [], sends = [], sent_log = [], closed = []\<rparr>"
  have full: "\<not> tcp_buffer_is_full (buf_in (demo_ctx []))"
    by (simp add: demo_ctx_def tcp_buffer_new_def tcp_buffer_is_full_def BUFSIZE_BYTE_def)
  have "receive_loop script_kernel (demo_ctx [], ?k1\<lparr>reads := [Read_eof]\<rparr>) =
      Some (Returns (demo_ctx [], ?k1)) \<and>
    client_tryaccept script_kernel (demo_ctx [], ?k1) =
      Returns (demo_ctx [], k_close script_kernel 5 (?k1\<lparr>accepts := []\<rparr>))"
    by (rule tcp_eof_keeps_client [OF _ _ full]) (simp_all add: script_kernel_def demo_ctx_def)
  then show ?thesis by (intro exI [of _ ?k1]) (simp add: script_kernel_def)
qed

text \<open>
  A disconnect with two bytes queued makes the server write to descriptor 0. The failed
  send of the first byte clears the client slot, but the loop goes on and sends the second
  byte on descriptor 0; if that is no socket, the process aborts.
\<close>

lemma tcp_disconnect_aborts:
  assumes "buf_ok (buf_out ctx)" "buf_contents (buf_out ctx) = x # y # zs" "cfd ctx \<noteq> 0"
    and "k_send K (cfd ctx) x k = (Send_epipe, k1)"
    and "k_send K 0 y (k_close K (cfd ctx) k1) = (Send_error, k2)"
  shows "send_loop K (ctx, k) = Some Aborted"
proof -
  from get_byte_Cons [OF assms(1,2)] obtain b where
    g: "tcp_buffer_get_byte (buf_out ctx) = Some (x, b)" and b: "buf_ok b" "buf_contents b = y # zs" .
  from get_byte_Cons [OF b] obtain b' where g': "tcp_buffer_get_byte b = Some (y, b')" .
  let ?s1 = "(ctx\<lparr>buf_out := b, cfd := 0\<rparr>, k_close K (cfd ctx) k1)"
  have "put_byte K x (ctx\<lparr>buf_out := b\<rparr>, k) = Some (Returns ?s1)"
    using assms(3,4) by (subst put_byte.simps) (simp add: tcp_server_client_close_def)
  then have "send_loop K (ctx, k) = send_loop K ?s1"
    using g by (subst send_loop.simps) simp
  moreover have "put_byte K y (ctx\<lparr>cfd := 0, buf_out := b'\<rparr>, k_close K (cfd ctx) k1) = Some Aborted"
    using assms(5) by (subst put_byte.simps) simp
  then have "send_loop K ?s1 = Some Aborted"
    using g' by (subst send_loop.simps) simp
  ultimately show ?thesis by simp
qed

lemma tcp_disconnect_aborts_witness:
  "send_loop script_kernel (demo_ctx [0x30, 0x31],
     \<lparr>accepts = [], reads = [], sends = [Send_epipe], sent_log = [], closed = []\<rparr>) = Some Aborted"
proof -
  have c: "buf_contents (buf_out (demo_ctx [0x30, 0x31])) = [0x30, 0x31]"
    by (simp add: buf_contents_def buf_count_def demo_ctx_def upt_rec)
  have ok: "buf_ok (buf_out (demo_ctx [0x30, 0x31]))" using demo_ctx_ok [of "[0x30, 0x31]"] by simp
  show ?thesis
    by (rule tcp_disconnect_aborts [OF ok c]) (simp_all add: demo_ctx_def script_kernel_def)
qed

text \<open>
  When the socket thread cannot be started, \<open>tcp_server_create\<close> frees its context twice;
  when it can, and the server is closed later, every allocated object is freed exactly once.
\<close>

lemma tcp_create_frees:
  "count_list (snd (tcp_server_create ji jo port False)) (Free Ctx) = 2 \<and>
   (\<forall>ob. count_list (snd (tcp_server_create ji jo port True) @ snd (tcp_server_close ctx)) (Alloc ob) = 1 \<and>
         count_list (snd (tcp_server_create ji jo port True) @ snd (tcp_server_close ctx)) (Free ob) = 1)"
proof -
  have "count_list evs (Alloc ob) = 1 \<and> count_list evs (Free ob) = 1"
    if "evs = [Alloc Ctx, Alloc Buf_in, Alloc Buf_out, Alloc Display_name] @ ctx_free" for evs ob
    using that by (cases ob) (simp_all add: ctx_free_def)
  then show ?thesis
    by (simp add: tcp_server_create_def tcp_server_close_def Let_def ctx_free_def)
qed

end
