(* ===== verification/Jtag_Dpi.thy ===== *)
theory Jtag_Dpi
  imports Tcp_Server
begin

unbundle bit_operations_syntax

text \<open>
  \<open>dv/jtagdpi/jtagdpi.c\<close>: the remote-bitbang protocol of OpenOCD over the TCP server. One call
  of \<open>jtagdpi_tick\<close> handles at most one command, and after a rising edge of TCK also a read
  that follows it, which it finds by looking one command ahead.

  \<open>bitbang_step\<close> is the protocol on the list of commands not yet handled, stated on its own;
  \<open>run_program\<close> is the simulation with a device on the pins.
\<close>

section \<open>The program\<close>

record jtag_signals =
  tck :: u8
  tms :: u8
  tdi :: u8
  trst_n :: u8
  srst_n :: u8

record jtagdpi_ctx =
  sock :: tcp_server_ctx
  signals :: jtag_signals
  tdo :: u8
  cmd :: u8 \<comment> \<open>lookahead buffer, zero if empty\<close>

definition chr8 :: "char \<Rightarrow> u8" where
  "chr8 c = of_char c"

definition lookahead :: "jtagdpi_ctx \<Rightarrow> bool \<times> jtagdpi_ctx" where
  "lookahead ctx =
     (case tcp_server_read (sock ctx) of
        None \<Rightarrow> (False, ctx)
      | Some (c, s) \<Rightarrow>
          if c = chr8 CHR ''R'' then (True, ctx\<lparr>sock := s\<rparr>)
          else (False, ctx\<lparr>sock := s, cmd := c\<rparr>))"

definition get_cmd :: "jtagdpi_ctx \<Rightarrow> (u8 \<times> jtagdpi_ctx) option" where
  "get_cmd ctx =
     (if cmd ctx \<noteq> 0 then Some (cmd ctx, ctx\<lparr>cmd := 0\<rparr>)
      else case tcp_server_read (sock ctx) of
        None \<Rightarrow> None
      | Some (c, s) \<Rightarrow> Some (c, ctx\<lparr>sock := s\<rparr>))"

definition reset_jtag_signals :: "bool \<Rightarrow> jtagdpi_ctx \<Rightarrow> jtagdpi_ctx" where
  "reset_jtag_signals assert_srst ctx =
     ctx\<lparr>signals := \<lparr>tck = 0, tms = 0, tdi = 0, trst_n = 0,
                    srst_n = (if assert_srst then 0 else 1)\<rparr>\<rparr>"

text \<open>
  How a tick ends: \<open>Exited\<close> is \<open>exit(1)\<close> on a protocol violation, \<open>Waiting\<close> a wait for room in
  the output buffer, which only the socket thread can end.
\<close>

datatype 'a tick_end = Exited | Waiting | Ticked 'a

text \<open>The bits of a command between \<open>'0'\<close> and \<open>'7'\<close>, or between \<open>'r'\<close> and \<open>'u'\<close>.\<close>

definition cmd_bit :: "u8 \<Rightarrow> nat \<Rightarrow> u8" where
  "cmd_bit c i = drop_bit i c AND 0x1"

definition write_signals :: "u8 \<Rightarrow> jtag_signals \<Rightarrow> jtag_signals" where
  "write_signals c sg =
     (let b = c - chr8 CHR ''0''
      in sg\<lparr>tdi := cmd_bit b 0, tms := cmd_bit b 1, tck := cmd_bit b 2\<rparr>)"

definition reset_signals :: "u8 \<Rightarrow> jtag_signals \<Rightarrow> jtag_signals" where
  "reset_signals c sg =
     (let b = c - chr8 CHR ''r''
      in sg\<lparr>srst_n := (if cmd_bit b 0 = 0 then 1 else 0), trst_n := (if cmd_bit b 1 = 0 then 1 else 0)\<rparr>)"

definition is_write :: "u8 \<Rightarrow> bool" where
  "is_write c \<longleftrightarrow> chr8 CHR ''0'' \<le> c \<and> c \<le> chr8 CHR ''7''"

definition is_reset :: "u8 \<Rightarrow> bool" where
  "is_reset c \<longleftrightarrow> chr8 CHR ''r'' \<le> c \<and> c \<le> chr8 CHR ''u''"

text \<open>
  The command part of \<open>update_jtag_signals\<close>: \<open>None\<close> is the protocol violation, otherwise the
  context and the flags \<open>act_send_resp\<close> and \<open>act_quit\<close>.
\<close>

definition handle_cmd :: "u8 \<Rightarrow> jtagdpi_ctx \<Rightarrow> (bool \<times> bool \<times> jtagdpi_ctx) option" where
  "handle_cmd c ctx =
     (if is_write c then
        let old = tck (signals ctx); ctx = ctx\<lparr>signals := write_signals c (signals ctx)\<rparr>
        in if old = 0 \<and> tck (signals ctx) \<noteq> 0 then
             case lookahead ctx of (r, ctx) \<Rightarrow> Some (r, False, ctx)
           else Some (False, False, ctx)
      else if is_reset c then Some (False, False, ctx\<lparr>signals := reset_signals c (signals ctx)\<rparr>)
      else if c = chr8 CHR ''R'' then Some (True, False, ctx)
      else if c = chr8 CHR ''B'' then Some (False, False, ctx)
      else if c = chr8 CHR ''b'' then Some (False, False, ctx)
      else if c = chr8 CHR ''Q'' then Some (False, True, ctx)
      else None)"

definition update_jtag_signals ::
  "'k kernel \<Rightarrow> jtagdpi_ctx \<times> 'k \<Rightarrow> (jtagdpi_ctx \<times> 'k) tick_end" where
  "update_jtag_signals K s =
     (let (ctx, k) = s in
      case get_cmd ctx of
        None \<Rightarrow> Ticked (ctx, k)
      | Some (c, ctx) \<Rightarrow>
          (case handle_cmd c ctx of
             None \<Rightarrow> Exited
           | Some (act_send_resp, act_quit, ctx) \<Rightarrow>
               (case (if act_send_resp then tcp_server_write (tdo ctx + chr8 CHR ''0'') (sock ctx)
                      else Some (sock ctx)) of
                  None \<Rightarrow> Waiting
                | Some so \<Rightarrow>
                    if act_quit then
                      let (so, k) = tcp_server_client_close K (so, k)
                      in Ticked (ctx\<lparr>sock := so\<rparr>, k)
                    else Ticked (ctx\<lparr>sock := so\<rparr>, k))))"

definition jtagdpi_create :: "tcp_server_ctx \<Rightarrow> bool \<Rightarrow> jtagdpi_ctx" where
  "jtagdpi_create so assert_srst =
     reset_jtag_signals assert_srst
       \<lparr>sock = so, signals = \<lparr>tck = 0, tms = 0, tdi = 0, trst_n = 0, srst_n = 0\<rparr>, tdo = 0, cmd = 0\<rparr>"

definition jtagdpi_tick ::
  "'k kernel \<Rightarrow> u8 \<Rightarrow> jtagdpi_ctx \<times> 'k \<Rightarrow> (jtag_signals \<times> jtagdpi_ctx \<times> 'k) tick_end" where
  "jtagdpi_tick K t s =
     (case update_jtag_signals K ((fst s)\<lparr>tdo := t\<rparr>, snd s) of
        Exited \<Rightarrow> Exited
      | Waiting \<Rightarrow> Waiting
      | Ticked s \<Rightarrow> Ticked (signals (fst s), s))"

section \<open>The protocol\<close>

text \<open>
  One tick on the signals and the commands not yet handled: the new signals, the commands
  left, the responses and whether the client quits; \<open>None\<close> is a protocol violation. The
  commands are the ASCII codes of the protocol document: \<open>'0'\<close> to \<open>'7'\<close> (48 to 55) write TCK,
  TMS and TDI, \<open>'r'\<close> to \<open>'u'\<close> (114 to 117) drive the two resets, \<open>'R'\<close> (82) reads TDO, \<open>'B'\<close> and
  \<open>'b'\<close> (66, 98) blink, \<open>'Q'\<close> (81) quits. On a rising edge of TCK a following read is answered in
  the same tick, and a following zero byte disappears. No definition of the program is used.
\<close>

definition bitbang_step ::
  "u8 \<Rightarrow> jtag_signals \<Rightarrow> u8 list \<Rightarrow> (jtag_signals \<times> u8 list \<times> u8 list \<times> bool) option" where
  "bitbang_step t sg cs =
     (case cs of
        [] \<Rightarrow> Some (sg, [], [], False)
      | c # cs \<Rightarrow>
          let n = unat c in
          if n \<in> {48..55} then
            let sg' = sg\<lparr>tdi := of_nat ((n - 48) mod 2), tms := of_nat ((n - 48) div 2 mod 2),
                         tck := of_nat ((n - 48) div 4)\<rparr>
            in if tck sg = 0 \<and> 52 \<le> n \<and> take 1 cs = [82] then Some (sg', tl cs, [t + 48], False)
               else if tck sg = 0 \<and> 52 \<le> n \<and> take 1 cs = [0] then Some (sg', tl cs, [], False)
               else Some (sg', cs, [], False)
          else if n \<in> {114..117} then
            Some (sg\<lparr>srst_n := of_nat (1 - (n - 114) mod 2), trst_n := of_nat (1 - (n - 114) div 2)\<rparr>,
              cs, [], False)
          else if n = 82 then Some (sg, cs, [t + 48], False)
          else if n = 66 \<or> n = 98 then Some (sg, cs, [], False)
          else if n = 81 then Some (sg, cs, [], True)
          else None)"

definition pending :: "jtagdpi_ctx \<Rightarrow> u8 list" where
  "pending ctx = (if cmd ctx \<noteq> 0 then [cmd ctx] else []) @ buf_contents (buf_in (sock ctx))"

definition jtag_ok :: "jtagdpi_ctx \<Rightarrow> bool" where
  "jtag_ok ctx \<longleftrightarrow> buf_ok (buf_in (sock ctx)) \<and> buf_ok (buf_out (sock ctx))"

text \<open>The bytes of the protocol and the tests and bit operations of the program.\<close>

lemma unat_between:
  "unat (c :: u8) \<in> {a..b} \<longleftrightarrow> (\<exists>n\<in>{a..b}. n < 256 \<and> c = of_nat n)"
proof
  assume "unat c \<in> {a..b}"
  then show "\<exists>n\<in>{a..b}. n < 256 \<and> c = of_nat n"
    using unsigned_less [of c] by (intro bexI [of _ "unat c"]) auto
qed (auto simp: unat_of_nat)

lemma is_write_unat: "is_write c \<longleftrightarrow> unat c \<in> {48..55}"
  by (simp add: is_write_def chr8_def word_le_nat_alt)

lemma is_reset_unat: "is_reset c \<longleftrightarrow> unat c \<in> {114..117}"
  by (simp add: is_reset_def chr8_def word_le_nat_alt)

lemma write_signals_unat:
  assumes "unat c \<in> {48..55}"
  shows "write_signals c sg =
     sg\<lparr>tdi := of_nat ((unat c - 48) mod 2), tms := of_nat ((unat c - 48) div 2 mod 2),
        tck := of_nat ((unat c - 48) div 4)\<rparr>"
    and "tck (write_signals c sg) \<noteq> 0 \<longleftrightarrow> 52 \<le> unat c"
proof -
  have "{48..55} = {48, 49, 50, 51, 52, 53, 54, 55 :: nat}" by auto
  with assms have "c \<in> {48, 49, 50, 51, 52, 53, 54, 55}"
    unfolding unat_between by auto
  then show "write_signals c sg =
     sg\<lparr>tdi := of_nat ((unat c - 48) mod 2), tms := of_nat ((unat c - 48) div 2 mod 2),
        tck := of_nat ((unat c - 48) div 4)\<rparr>"
    "tck (write_signals c sg) \<noteq> 0 \<longleftrightarrow> 52 \<le> unat c"
    by (auto simp: write_signals_def cmd_bit_def chr8_def Let_def)
qed

lemma reset_signals_unat:
  assumes "unat c \<in> {114..117}"
  shows "reset_signals c sg =
     sg\<lparr>srst_n := of_nat (1 - (unat c - 114) mod 2), trst_n := of_nat (1 - (unat c - 114) div 2)\<rparr>"
proof -
  have "{114..117} = {114, 115, 116, 117 :: nat}" by auto
  with assms have "c \<in> {114, 115, 116, 117}" unfolding unat_between by auto
  then show ?thesis by (auto simp: reset_signals_def cmd_bit_def chr8_def Let_def)
qed

lemma unat_chr8: "unat c = n \<longleftrightarrow> c = of_nat n" if "n < 256" for c :: u8
  using that by (auto simp: unat_of_nat)

lemma take1: "take 1 cs = [x] \<longleftrightarrow> cs \<noteq> [] \<and> hd cs = x"
  by (cases cs) auto

lemma bitbang_step_alt:
  "bitbang_step t sg (c # cs) =
     (if is_write c then
        let sg' = write_signals c sg
        in if tck sg = 0 \<and> tck sg' \<noteq> 0 \<and> cs \<noteq> [] \<and> hd cs = chr8 CHR ''R''
           then Some (sg', tl cs, [t + chr8 CHR ''0''], False)
           else if tck sg = 0 \<and> tck sg' \<noteq> 0 \<and> cs \<noteq> [] \<and> hd cs = 0 then Some (sg', tl cs, [], False)
           else Some (sg', cs, [], False)
      else if is_reset c then Some (reset_signals c sg, cs, [], False)
      else if c = chr8 CHR ''R'' then Some (sg, cs, [t + chr8 CHR ''0''], False)
      else if c = chr8 CHR ''B'' \<or> c = chr8 CHR ''b'' then Some (sg, cs, [], False)
      else if c = chr8 CHR ''Q'' then Some (sg, cs, [], True)
      else None)"
proof -
  have c: "chr8 CHR ''R'' = 82" "chr8 CHR ''0'' = 48" "chr8 CHR ''B'' = 66" "chr8 CHR ''b'' = 98"
    "chr8 CHR ''Q'' = 81" by (simp_all add: chr8_def)
  show ?thesis
  proof (cases "unat c \<in> {48..55}")
    case True
    then have w: "is_write c" by (simp add: is_write_unat)
    show ?thesis
      by (simp only: bitbang_step_def list.case Let_def take1 c if_P [OF True] if_P [OF w]
          write_signals_unat(1) [OF True, symmetric] write_signals_unat(2) [OF True])
  next
    case nw: False
    then have w: "\<not> is_write c" by (simp add: is_write_unat)
    show ?thesis
    proof (cases "unat c \<in> {114..117}")
      case True
      then have r: "is_reset c" by (simp add: is_reset_unat)
      show ?thesis
        by (simp only: bitbang_step_def list.case Let_def if_P [OF True] if_P [OF r] if_not_P [OF nw]
            if_not_P [OF w] reset_signals_unat [OF True])
    next
      case False
      then have r: "\<not> is_reset c" by (simp add: is_reset_unat)
      have n: "unat c = 82 \<longleftrightarrow> c = 82" "unat c = 66 \<longleftrightarrow> c = 66" "unat c = 98 \<longleftrightarrow> c = 98"
        "unat c = 81 \<longleftrightarrow> c = 81" by (simp_all add: unat_chr8)
      show ?thesis
        by (simp only: bitbang_step_def list.case Let_def c n if_not_P [OF False] if_not_P [OF r]
            if_not_P [OF nw] if_not_P [OF w])
    qed
  qed
qed

lemma get_cmd_pending:
  assumes "jtag_ok ctx"
  shows "case pending ctx of
      [] \<Rightarrow> get_cmd ctx = None
    | c # cs \<Rightarrow> \<exists>so. get_cmd ctx = Some (c, ctx\<lparr>sock := so, cmd := 0\<rparr>) \<and>
        buf_ok (buf_in so) \<and> buf_contents (buf_in so) = cs \<and> buf_out so = buf_out (sock ctx) \<and>
        cfd so = cfd (sock ctx)"
proof (cases "cmd ctx = 0")
  case False
  with assms show ?thesis
    by (auto simp: pending_def get_cmd_def jtag_ok_def intro!: exI [of _ "sock ctx"])
next
  case True
  then have p: "pending ctx = buf_contents (buf_in (sock ctx))" by (simp add: pending_def)
  have ok: "buf_ok (buf_in (sock ctx))" using assms by (simp add: jtag_ok_def)
  show ?thesis
  proof (cases "pending ctx")
    case Nil
    with p ok have "tcp_buffer_get_byte (buf_in (sock ctx)) = None" by (simp add: tcp_fifo.get_none)
    with Nil True show ?thesis by (simp add: get_cmd_def tcp_server_read_def)
  next
    case (Cons c cs)
    with p have "buf_contents (buf_in (sock ctx)) = c # cs" by simp
    from get_byte_Cons [OF ok this] obtain b where
      "tcp_buffer_get_byte (buf_in (sock ctx)) = Some (c, b)" "buf_ok b" "buf_contents b = cs" .
    with Cons True show ?thesis
      by (auto simp: get_cmd_def tcp_server_read_def intro!: exI [of _ "(sock ctx)\<lparr>buf_in := b\<rparr>"])
  qed
qed

lemma lookahead_pending:
  assumes "cmd ctx = 0" "buf_ok (buf_in (sock ctx))"
  shows "\<exists>so c. lookahead ctx =
      (buf_contents (buf_in (sock ctx)) \<noteq> [] \<and> hd (buf_contents (buf_in (sock ctx))) = chr8 CHR ''R'',
       ctx\<lparr>sock := so, cmd := c\<rparr>) \<and> buf_ok (buf_in so) \<and> buf_out so = buf_out (sock ctx) \<and>
      cfd so = cfd (sock ctx) \<and>
      (if c \<noteq> 0 then [c] else []) @ buf_contents (buf_in so) =
        (if buf_contents (buf_in (sock ctx)) \<noteq> [] \<and>
            (hd (buf_contents (buf_in (sock ctx))) = chr8 CHR ''R'' \<or> hd (buf_contents (buf_in (sock ctx))) = 0)
         then tl (buf_contents (buf_in (sock ctx))) else buf_contents (buf_in (sock ctx)))"
proof (cases "buf_contents (buf_in (sock ctx))")
  case Nil
  with assms(2) have "tcp_buffer_get_byte (buf_in (sock ctx)) = None" by (simp add: tcp_fifo.get_none)
  with Nil assms show ?thesis
    by (intro exI [of _ "sock ctx"] exI [of _ 0]) (simp add: lookahead_def tcp_server_read_def)
next
  case (Cons c cs)
  from get_byte_Cons [OF assms(2) this] obtain b where
    b: "tcp_buffer_get_byte (buf_in (sock ctx)) = Some (c, b)" "buf_ok b" "buf_contents b = cs" .
  show ?thesis
  proof (cases "c = chr8 CHR ''R''")
    case True
    with b Cons assms show ?thesis
      by (intro exI [of _ "(sock ctx)\<lparr>buf_in := b\<rparr>"] exI [of _ 0])
        (simp add: lookahead_def tcp_server_read_def)
  next
    case False
    with b Cons assms show ?thesis
      by (intro exI [of _ "(sock ctx)\<lparr>buf_in := b\<rparr>"] exI [of _ c])
        (simp add: lookahead_def tcp_server_read_def)
  qed
qed

lemma pending_update:
  "pending (ctx\<lparr>sock := so, cmd := c, signals := sg\<rparr>) =
     (if c \<noteq> 0 then [c] else []) @ buf_contents (buf_in so)"
  by (simp add: pending_def)

text \<open>The command part against the protocol: the context after it and its two flags.\<close>

lemma handle_cmd_step:
  assumes "cmd ctx = 0" "buf_ok (buf_in (sock ctx))"
  shows "case bitbang_step t (signals ctx) (c # buf_contents (buf_in (sock ctx))) of
      None \<Rightarrow> handle_cmd c ctx = None
    | Some (sg, cs, resp, quit) \<Rightarrow>
        \<exists>so d. handle_cmd c ctx = Some (resp \<noteq> [], quit, ctx\<lparr>sock := so, cmd := d, signals := sg\<rparr>) \<and>
          (if d \<noteq> 0 then [d] else []) @ buf_contents (buf_in so) = cs \<and> buf_ok (buf_in so) \<and>
          buf_out so = buf_out (sock ctx) \<and> cfd so = cfd (sock ctx) \<and> set resp \<subseteq> {t + chr8 CHR ''0''} \<and>
          length resp \<le> 1"
proof (cases "is_write c \<and> tck (signals ctx) = 0 \<and> tck (write_signals c (signals ctx)) \<noteq> 0")
  case True
  let ?ctx = "ctx\<lparr>signals := write_signals c (signals ctx)\<rparr>"
  let ?cs = "buf_contents (buf_in (sock ctx))"
  let ?look = "?cs \<noteq> [] \<and> hd ?cs = chr8 CHR ''R''"
  from lookahead_pending [of ?ctx] assms obtain so d where
    l: "lookahead ?ctx = (?look, ?ctx\<lparr>sock := so, cmd := d\<rparr>)"
      "buf_ok (buf_in so)" "buf_out so = buf_out (sock ctx)" "cfd so = cfd (sock ctx)"
      "(if d \<noteq> 0 then [d] else []) @ buf_contents (buf_in so) =
         (if ?cs \<noteq> [] \<and> (hd ?cs = chr8 CHR ''R'' \<or> hd ?cs = 0) then tl ?cs else ?cs)" by auto
  have h: "handle_cmd c ctx = Some (?look, False, ?ctx\<lparr>sock := so, cmd := d\<rparr>)"
    using True l(1) by (simp add: handle_cmd_def Let_def)
  have c: "?ctx\<lparr>sock := so, cmd := d\<rparr> = ctx\<lparr>sock := so, cmd := d, signals := write_signals c (signals ctx)\<rparr>"
    by simp
  have "bitbang_step t (signals ctx) (c # ?cs) =
      Some (write_signals c (signals ctx), if ?cs \<noteq> [] \<and> (hd ?cs = chr8 CHR ''R'' \<or> hd ?cs = 0) then tl ?cs else ?cs,
        if ?look then [t + chr8 CHR ''0''] else [], False)"
    using True by (auto simp: bitbang_step_alt Let_def)
  then show ?thesis
    by (simp only: option.case prod.case)
      (intro exI [of _ so] exI [of _ d], use h c l in auto)
next
  case False
  let ?cs = "buf_contents (buf_in (sock ctx))"
  have same: "ctx\<lparr>sock := sock ctx, cmd := 0, signals := sg\<rparr> = ctx\<lparr>signals := sg\<rparr>" for sg
    using assms(1) by (cases ctx) simp
  have close: ?thesis
    if "bitbang_step t (signals ctx) (c # ?cs) = Some (sg, ?cs, resp, quit)"
      "handle_cmd c ctx = Some (resp \<noteq> [], quit, ctx\<lparr>signals := sg\<rparr>)"
      "resp = [] \<or> resp = [t + chr8 CHR ''0'']" for sg resp quit
    unfolding that(1) using that(2,3) assms same [of sg]
    by (simp only: option.case prod.case)
      (intro exI [of _ "sock ctx"] exI [of _ 0], auto)
  have id: "ctx\<lparr>signals := signals ctx\<rparr> = ctx" by simp
  note defs = bitbang_step_alt handle_cmd_def Let_def
  consider "is_write c" | "\<not> is_write c" "is_reset c"
    | "\<not> is_write c" "\<not> is_reset c" "c = chr8 CHR ''R''"
    | "\<not> is_write c" "\<not> is_reset c" "c \<noteq> chr8 CHR ''R''" "c = chr8 CHR ''B'' \<or> c = chr8 CHR ''b''"
    | "\<not> is_write c" "\<not> is_reset c" "c \<noteq> chr8 CHR ''R''" "c \<noteq> chr8 CHR ''B''" "c \<noteq> chr8 CHR ''b''"
      "c = chr8 CHR ''Q''"
    | "\<not> is_write c" "\<not> is_reset c" "c \<noteq> chr8 CHR ''R''" "c \<noteq> chr8 CHR ''B''" "c \<noteq> chr8 CHR ''b''"
      "c \<noteq> chr8 CHR ''Q''" by blast
  then show ?thesis
  proof cases
    case 1
    with False show ?thesis by (intro close [of "write_signals c (signals ctx)" "[]" False]) (auto simp: defs)
  next
    case 2
    then show ?thesis by (intro close [of "reset_signals c (signals ctx)" "[]" False]) (simp_all add: defs)
  next
    case 3
    then show ?thesis
      by (intro close [of "signals ctx" "[t + chr8 CHR ''0'']" False]) (simp_all only: defs list.case if_False if_True id, simp_all)
  next
    case 4
    then show ?thesis by (intro close [of "signals ctx" "[]" False]) (auto simp: defs)
  next
    case 5
    then show ?thesis by (intro close [of "signals ctx" "[]" True]) (simp_all only: defs list.case if_False if_True id, simp_all)
  next
    case 6
    then have "bitbang_step t (signals ctx) (c # ?cs) = None" "handle_cmd c ctx = None"
      by (simp_all add: defs)
    then show ?thesis by simp
  qed
qed

lemma pending_Nil_step: "bitbang_step t sg [] = Some (sg, [], [], False)"
  by (simp add: bitbang_step_def)

lemma write_response:
  assumes "buf_ok (buf_out so)"
  shows "tcp_server_write x so = None \<longleftrightarrow> length (buf_contents (buf_out so)) = 255"
    and "tcp_server_write x so = Some so' \<Longrightarrow> buf_ok (buf_out so') \<and> buf_in so' = buf_in so \<and>
      cfd so' = cfd so \<and> buf_contents (buf_out so') = buf_contents (buf_out so) @ [x]"
  using tcp_fifo.put_full [OF assms, of x] tcp_fifo.put_some [OF assms, of x]
  by (auto simp: tcp_server_write_def split: option.splits)

lemma client_close_simps:
  "buf_in (fst (tcp_server_client_close K (so, k))) = buf_in so"
  "buf_out (fst (tcp_server_client_close K (so, k))) = buf_out so"
  "cfd (fst (tcp_server_client_close K (so, k))) = 0"
  by (simp_all add: tcp_server_client_close_def)

lemma tick_step:
  assumes "jtag_ok ctx"
  shows "case bitbang_step t (signals ctx) (pending ctx) of
      None \<Rightarrow> jtagdpi_tick K t (ctx, k) = Exited
    | Some (sg, cs, resp, quit) \<Rightarrow>
        if resp \<noteq> [] \<and> length (buf_contents (buf_out (sock ctx))) = 255
        then jtagdpi_tick K t (ctx, k) = Waiting
        else \<exists>ctx' k'. jtagdpi_tick K t (ctx, k) = Ticked (sg, ctx', k') \<and> jtag_ok ctx' \<and>
          signals ctx' = sg \<and> pending ctx' = cs \<and>
          buf_contents (buf_out (sock ctx')) = buf_contents (buf_out (sock ctx)) @ resp \<and>
          cfd (sock ctx') = (if quit then 0 else cfd (sock ctx))"
proof -
  let ?ctx = "ctx\<lparr>tdo := t\<rparr>"
  have ok: "jtag_ok ?ctx" "pending ?ctx = pending ctx"
    using assms by (simp_all add: jtag_ok_def pending_def)
  show ?thesis
  proof (cases "pending ctx")
    case Nil
    with get_cmd_pending [OF ok(1)] ok(2) have "get_cmd ?ctx = None" by simp
    then have "jtagdpi_tick K t (ctx, k) = Ticked (signals ctx, ?ctx, k)"
      by (simp add: jtagdpi_tick_def update_jtag_signals_def)
    with Nil ok show ?thesis by (simp add: pending_Nil_step)
  next
    case (Cons c cs)
    with get_cmd_pending [OF ok(1)] ok(2) obtain so where
      g: "get_cmd ?ctx = Some (c, ?ctx\<lparr>sock := so, cmd := 0\<rparr>)" "buf_ok (buf_in so)"
        "buf_contents (buf_in so) = cs" "buf_out so = buf_out (sock ctx)" "cfd so = cfd (sock ctx)" by auto
    let ?c1 = "?ctx\<lparr>sock := so, cmd := 0\<rparr>"
    have prems: "cmd ?c1 = 0" "buf_ok (buf_in (sock ?c1))"
      using g by simp_all
    note h = handle_cmd_step [where t = t and c = c, OF prems]
    have step: "bitbang_step t (signals ?c1) (c # buf_contents (buf_in (sock ?c1))) =
        bitbang_step t (signals ctx) (c # cs)" using g by simp
    show ?thesis
    proof (cases "bitbang_step t (signals ctx) (c # cs)")
      case None
      with h step have "handle_cmd c ?c1 = None" by simp
      with None g Cons show ?thesis by (simp add: jtagdpi_tick_def update_jtag_signals_def)
    next
      case (Some r)
      obtain sg cs' resp quit where r: "r = (sg, cs', resp, quit)" by (metis prod_cases4)
      with h step Some g obtain so' d where
        e: "handle_cmd c ?c1 = Some (resp \<noteq> [], quit, ?c1\<lparr>sock := so', cmd := d, signals := sg\<rparr>)"
          "(if d \<noteq> 0 then [d] else []) @ buf_contents (buf_in so') = cs'" "buf_ok (buf_in so')"
          "buf_out so' = buf_out (sock ctx)" "cfd so' = cfd (sock ctx)"
          "set resp \<subseteq> {t + chr8 CHR ''0''}" "length resp \<le> 1" by auto
      have out: "buf_ok (buf_out so')" using assms e(4) by (simp add: jtag_ok_def)
      have resp: "resp = [] \<or> resp = [t + chr8 CHR ''0'']"
        using e(6,7) by (cases resp) auto
      let ?w = "if resp \<noteq> [] then tcp_server_write (t + chr8 CHR ''0'') so' else Some so'"
      have tick: "jtagdpi_tick K t (ctx, k) = (case ?w of None \<Rightarrow> Waiting
        | Some so2 \<Rightarrow> if quit
            then Ticked (sg, ?c1\<lparr>sock := fst (tcp_server_client_close K (so2, k)), cmd := d, signals := sg\<rparr>,
              snd (tcp_server_client_close K (so2, k)))
            else Ticked (sg, ?c1\<lparr>sock := so2, cmd := d, signals := sg\<rparr>, k))"
        using g e(1) by (auto simp: jtagdpi_tick_def update_jtag_signals_def Let_def
            split: option.splits prod.splits)
      show ?thesis
      proof (cases ?w)
        case None
        with write_response(1) [OF out] e(4) have "resp \<noteq> []"
          "length (buf_contents (buf_out (sock ctx))) = 255" by (auto split: if_splits)
        with None tick Some r Cons show ?thesis by simp
      next
        case (Some so2)
        note w = Some
        have so2: "buf_ok (buf_out so2)" "buf_in so2 = buf_in so'" "cfd so2 = cfd so'"
          "buf_contents (buf_out so2) = buf_contents (buf_out so') @ resp"
          using Some write_response(2) [OF out] out resp by (auto split: if_splits)
        have "\<not> (resp \<noteq> [] \<and> length (buf_contents (buf_out (sock ctx))) = 255)"
          using Some write_response(1) [OF out] e(4) by (auto split: if_splits)
        moreover have "\<exists>ctx' k'. jtagdpi_tick K t (ctx, k) = Ticked (sg, ctx', k') \<and> jtag_ok ctx' \<and>
          signals ctx' = sg \<and> pending ctx' = cs' \<and>
          buf_contents (buf_out (sock ctx')) = buf_contents (buf_out (sock ctx)) @ resp \<and>
          cfd (sock ctx') = (if quit then 0 else cfd (sock ctx))"
          using tick Some so2 e by (auto simp: jtag_ok_def pending_def client_close_simps)
        ultimately show ?thesis using Cons \<open>bitbang_step t (signals ctx) (c # cs) = Some r\<close> r by auto
      qed
    qed
  qed
qed

section \<open>The dialogue with a device\<close>

text \<open>
  The device on the JTAG pins is a parameter: a state \<open>'e\<close>, its TDO and its reaction to the
  signals of a tick. \<open>run_program\<close> is the simulation, \<open>n\<close> calls of \<open>jtagdpi_tick\<close> on one context
  with the device between them. \<open>run_plain\<close> is the protocol without any lookahead, every
  command in a tick of its own: the responses, the last signals and the device at the end.
\<close>

fun run_program ::
  "'k kernel \<Rightarrow> ('e \<Rightarrow> u8) \<Rightarrow> (jtag_signals \<Rightarrow> 'e \<Rightarrow> 'e) \<Rightarrow> nat \<Rightarrow> jtagdpi_ctx \<times> 'k \<Rightarrow> 'e \<Rightarrow>
     (jtagdpi_ctx \<times> 'k \<times> 'e) tick_end" where
  "run_program K tdo_of react 0 s e = Ticked (fst s, snd s, e)"
| "run_program K tdo_of react (Suc n) s e =
     (case jtagdpi_tick K (tdo_of e) s of
        Exited \<Rightarrow> Exited
      | Waiting \<Rightarrow> Waiting
      | Ticked (sg, s) \<Rightarrow> run_program K tdo_of react n s (react sg e))"

fun run_plain ::
  "('e \<Rightarrow> u8) \<Rightarrow> (jtag_signals \<Rightarrow> 'e \<Rightarrow> 'e) \<Rightarrow> u8 list \<Rightarrow> jtag_signals \<Rightarrow> 'e \<Rightarrow>
     (u8 list \<times> jtag_signals \<times> 'e) option" where
  "run_plain tdo_of react [] sg e = Some ([], sg, e)"
| "run_plain tdo_of react (c # cs) sg e =
     (case bitbang_step (tdo_of e) sg [c] of
        None \<Rightarrow> None
      | Some (sg', _, resp, _) \<Rightarrow>
          map_option (\<lambda>(rs, last). (resp @ rs, last)) (run_plain tdo_of react cs sg' (react sg' e)))"

text \<open>
  What the dialogue relies on: signals that do not change do nothing, and from a state that
  has settled with TCK low, a rising edge of TCK with the resets as they are leaves TDO alone
  (IEEE 1149.1: TDO changes on the falling edge).
\<close>

definition jtag_device :: "('e \<Rightarrow> u8) \<Rightarrow> (jtag_signals \<Rightarrow> 'e \<Rightarrow> 'e) \<Rightarrow> bool" where
  "jtag_device tdo_of react \<longleftrightarrow>
     (\<forall>sg e. react sg (react sg e) = react sg e) \<and>
     (\<forall>sg sg' e. react sg e = e \<and> tck sg = 0 \<and> tck sg' \<noteq> 0 \<and> trst_n sg' = trst_n sg \<and>
        srst_n sg' = srst_n sg \<longrightarrow> tdo_of (react sg' e) = tdo_of e)"

lemma write_signals_resets:
  "trst_n (write_signals c sg) = trst_n sg" "srst_n (write_signals c sg) = srst_n sg"
  by (simp_all add: write_signals_def Let_def)

lemma bitbang_no_look:
  assumes "\<not> (is_write c \<and> tck sg = 0 \<and> tck (write_signals c sg) \<noteq> 0 \<and> cs \<noteq> [] \<and> hd cs = chr8 CHR ''R'')"
    and "0 \<notin> set cs"
  shows "bitbang_step t sg (c # cs) =
     map_option (\<lambda>(sg', _, resp, quit). (sg', cs, resp, quit)) (bitbang_step t sg [c])"
  using assms by (cases "is_write c"; cases cs) (auto simp: bitbang_step_alt Let_def)

lemma bitbang_look:
  assumes "is_write c" "tck sg = 0" "tck (write_signals c sg) \<noteq> 0"
  shows "bitbang_step t sg (c # chr8 CHR ''R'' # cs) =
      Some (write_signals c sg, cs, [t + chr8 CHR ''0''], False)"
    "bitbang_step t sg [c] = Some (write_signals c sg, [], [], False)"
  using assms by (simp_all add: bitbang_step_alt Let_def)

lemma bitbang_read: "bitbang_step t sg [chr8 CHR ''R''] = Some (sg, [], [t + chr8 CHR ''0''], False)"
  by (simp add: bitbang_step_alt is_write_def is_reset_def chr8_def)

lemma bitbang_resp_le: "bitbang_step t sg cs = Some (sg', cs', resp, quit) \<Longrightarrow>
    length resp + length cs' \<le> length cs"
  by (cases cs)
    (auto simp: bitbang_step_alt pending_Nil_step Let_def split: if_splits)

text \<open>One tick of the program, from its relation to the protocol.\<close>

lemma run_program_Suc:
  assumes "jtag_ok ctx" "length (buf_contents (buf_out (sock ctx))) + length (pending ctx) \<le> 255"
  shows "case bitbang_step (tdo_of e) (signals ctx) (pending ctx) of
      None \<Rightarrow> run_program K tdo_of react (Suc n) (ctx, k) e = Exited
    | Some (sg, cs, resp, quit) \<Rightarrow>
        \<exists>ctx' k'. run_program K tdo_of react (Suc n) (ctx, k) e =
            run_program K tdo_of react n (ctx', k') (react sg e) \<and> jtag_ok ctx' \<and>
          signals ctx' = sg \<and> pending ctx' = cs \<and>
          buf_contents (buf_out (sock ctx')) = buf_contents (buf_out (sock ctx)) @ resp"
proof (cases "bitbang_step (tdo_of e) (signals ctx) (pending ctx)")
  case None
  with tick_step [OF assms(1), where t = "tdo_of e" and K = K and k = k] show ?thesis by simp
next
  case (Some r)
  obtain sg cs resp quit where r: "r = (sg, cs, resp, quit)" by (metis prod_cases4)
  from bitbang_resp_le [OF Some [unfolded r]] assms(2)
  have "\<not> (resp \<noteq> [] \<and> length (buf_contents (buf_out (sock ctx))) = 255)" by auto
  with tick_step [OF assms(1), where t = "tdo_of e" and K = K and k = k] Some r obtain ctx' k' where
    "jtagdpi_tick K (tdo_of e) (ctx, k) = Ticked (sg, ctx', k')" "jtag_ok ctx'" "signals ctx' = sg"
    "pending ctx' = cs"
    "buf_contents (buf_out (sock ctx')) = buf_contents (buf_out (sock ctx)) @ resp" by auto
  with Some r show ?thesis by (auto intro!: exI [of _ ctx'] exI [of _ k'])
qed

lemma run_program_idle:
  "jtag_ok ctx \<Longrightarrow> pending ctx = [] \<Longrightarrow> react (signals ctx) e = e \<Longrightarrow>
    \<exists>ctx' k'. run_program K tdo_of react n (ctx, k) e = Ticked (ctx', k', e) \<and>
      signals ctx' = signals ctx \<and> pending ctx' = [] \<and>
      buf_contents (buf_out (sock ctx')) = buf_contents (buf_out (sock ctx))"
proof (induction n arbitrary: ctx k)
  case 0
  then show ?case by simp
next
  case (Suc n)
  have "length (buf_contents (buf_out (sock ctx))) + length (pending ctx) \<le> 255"
    using Suc.prems(1,2) tcp_fifo.contents_le [of "buf_out (sock ctx)"] by (simp add: jtag_ok_def)
  from run_program_Suc [OF Suc.prems(1) this, where tdo_of = tdo_of and e = e and K = K and react = react and n = n and k = k]
    Suc.prems obtain ctx1 k1 where
    1: "run_program K tdo_of react (Suc n) (ctx, k) e = run_program K tdo_of react n (ctx1, k1) e"
      "jtag_ok ctx1" "signals ctx1 = signals ctx" "pending ctx1 = []"
      "buf_contents (buf_out (sock ctx1)) = buf_contents (buf_out (sock ctx))"
    by (auto simp: pending_Nil_step)
  with Suc.IH [OF 1(2,4), of k1] Suc.prems(3) show ?case by auto
qed

definition plain_outcome ::
  "'k kernel \<Rightarrow> ('e \<Rightarrow> u8) \<Rightarrow> (jtag_signals \<Rightarrow> 'e \<Rightarrow> 'e) \<Rightarrow> nat \<Rightarrow> jtagdpi_ctx \<Rightarrow> 'k \<Rightarrow> 'e \<Rightarrow> bool" where
  "plain_outcome K tdo_of react n ctx k e \<longleftrightarrow>
     (case run_plain tdo_of react (pending ctx) (signals ctx) e of
        None \<Rightarrow> run_program K tdo_of react n (ctx, k) e = Exited
      | Some (resp, sg, dev) \<Rightarrow>
          \<exists>ctx' k'. run_program K tdo_of react n (ctx, k) e = Ticked (ctx', k', dev) \<and>
            pending ctx' = [] \<and> signals ctx' = sg \<and>
            buf_contents (buf_out (sock ctx')) = buf_contents (buf_out (sock ctx)) @ resp)"

lemma program_plain:
  assumes "jtag_device tdo_of react"
  shows "jtag_ok ctx \<Longrightarrow> 0 \<notin> set (pending ctx) \<Longrightarrow> length (pending ctx) \<le> n \<Longrightarrow>
    length (buf_contents (buf_out (sock ctx))) + length (pending ctx) \<le> 255 \<Longrightarrow>
    react (signals ctx) e = e \<Longrightarrow> plain_outcome K tdo_of react n ctx k e"
proof (induction n arbitrary: ctx k e)
  case 0
  then show ?case by (simp add: plain_outcome_def)
next
  case (Suc n)
  note step = run_program_Suc [OF Suc.prems(1,4), where tdo_of = tdo_of and e = e and K = K and react = react and n = n and k = k]
  show ?case
  proof (cases "pending ctx")
    case Nil
    then show ?thesis
      using run_program_idle [where react = react and e = e, OF Suc.prems(1) Nil Suc.prems(5), of K tdo_of "Suc n" k]
      by (auto simp: plain_outcome_def)
  next
    case c: (Cons c cs)
    have nz: "0 \<notin> set cs" using Suc.prems(2) c by simp
    show ?thesis
    proof (cases "is_write c \<and> tck (signals ctx) = 0 \<and> tck (write_signals c (signals ctx)) \<noteq> 0 \<and>
        cs \<noteq> [] \<and> hd cs = chr8 CHR ''R''")
      case True
      then obtain cs' where cs: "cs = chr8 CHR ''R'' # cs'" by (cases cs) auto
      let ?sg = "write_signals c (signals ctx)"
      have dev: "react ?sg (react ?sg e) = react ?sg e" "tdo_of (react ?sg e) = tdo_of e"
        using assms True Suc.prems(5) unfolding jtag_device_def
        by (blast, metis (no_types, lifting) write_signals_resets)
      from step True obtain ctx1 k1 where
        1: "run_program K tdo_of react (Suc n) (ctx, k) e =
            run_program K tdo_of react n (ctx1, k1) (react ?sg e)" "jtag_ok ctx1" "signals ctx1 = ?sg"
          "pending ctx1 = cs'"
          "buf_contents (buf_out (sock ctx1)) = buf_contents (buf_out (sock ctx)) @ [tdo_of e + chr8 CHR ''0'']"
        unfolding c cs by (auto simp: bitbang_look)
      have "plain_outcome K tdo_of react n ctx1 k1 (react ?sg e)"
        using Suc.prems(3,4) nz 1 dev by (intro Suc.IH 1(2)) (auto simp: c cs)
      with 1 True dev show ?thesis
        unfolding plain_outcome_def c cs
        by (auto simp: bitbang_look bitbang_read option.map_comp comp_def split: option.splits prod.splits)
    next
      case False
      note look = bitbang_no_look [OF False nz]
      show ?thesis
      proof (cases "bitbang_step (tdo_of e) (signals ctx) [c]")
        case None
        with step c look show ?thesis by (simp add: plain_outcome_def)
      next
        case (Some r)
        obtain sg cs' resp quit where r: "r = (sg, cs', resp, quit)" by (metis prod_cases4)
        from step Some r look c obtain ctx1 k1 where
          1: "run_program K tdo_of react (Suc n) (ctx, k) e =
              run_program K tdo_of react n (ctx1, k1) (react sg e)" "jtag_ok ctx1" "signals ctx1 = sg"
            "pending ctx1 = cs"
            "buf_contents (buf_out (sock ctx1)) = buf_contents (buf_out (sock ctx)) @ resp" by auto
        have "react sg (react sg e) = react sg e" using assms by (simp add: jtag_device_def)
        moreover have "length resp \<le> 1" using bitbang_resp_le [OF Some [unfolded r]] by simp
        ultimately have "plain_outcome K tdo_of react n ctx1 k1 (react sg e)"
          using Suc.prems(3,4) nz 1 by (intro Suc.IH 1(2)) (auto simp: c)
        with 1 Some r show ?thesis
          unfolding plain_outcome_def c by (auto split: option.splits prod.splits)
      qed
    qed
  qed
qed

section \<open>Properties\<close>

text \<open>
  C11: One call of \<open>jtagdpi_tick\<close> is one step of the remote-bitbang protocol on the commands not
  yet handled, for every content of the buffers: it exits exactly on a protocol violation,
  waits exactly when a response does not fit the output buffer, and otherwise returns the new
  signals, appends the response and closes the client exactly on a quit. Which byte is in the
  lookahead buffer and which in the socket does not matter. The lookahead shows in one case,
  which the step states: a zero byte after a rising edge of TCK is dropped, where a zero byte
  read as a command is a violation.
\<close>

theorem jtag_tick_protocol:
  assumes "jtag_ok ctx"
  shows "case bitbang_step t (signals ctx) (pending ctx) of
      None \<Rightarrow> jtagdpi_tick K t (ctx, k) = Exited
    | Some (sg, cs, resp, quit) \<Rightarrow>
        if resp \<noteq> [] \<and> length (buf_contents (buf_out (sock ctx))) = 255
        then jtagdpi_tick K t (ctx, k) = Waiting
        else \<exists>ctx' k'. jtagdpi_tick K t (ctx, k) = Ticked (sg, ctx', k') \<and> jtag_ok ctx' \<and>
          signals ctx' = sg \<and> pending ctx' = cs \<and>
          buf_contents (buf_out (sock ctx')) = buf_contents (buf_out (sock ctx)) @ resp \<and>
          cfd (sock ctx') = (if quit then 0 else cfd (sock ctx))"
  by (rule tick_step [OF assms])

definition idle_script :: script where
  "idle_script = \<lparr>accepts = [], reads = [], sends = [], sent_log = [], closed = []\<rparr>"

text \<open>A context with commands queued, all lines low and no reset driven.\<close>

definition demo_jtag :: "u8 list \<Rightarrow> jtagdpi_ctx" where
  "demo_jtag cs =
     jtagdpi_create ((demo_ctx [])\<lparr>buf_in := buf_out (demo_ctx cs)\<rparr>) False"

lemma demo_jtag_ok:
  assumes "length cs < 256"
  shows "jtag_ok (demo_jtag cs)" "buf_contents (buf_out (sock (demo_jtag cs))) = []"
    "signals (demo_jtag cs) = \<lparr>tck = 0, tms = 0, tdi = 0, trst_n = 0, srst_n = 1\<rparr>"
  using demo_ctx_ok [OF assms] demo_ctx_ok [of "[]"]
  by (simp_all add: jtag_ok_def demo_jtag_def jtagdpi_create_def reset_jtag_signals_def
      demo_ctx_def buf_contents_def buf_count_def)

text \<open>
  The commands \<open>5RQ\<close>: the write (TCK and TDI high) and the read behind it are one tick, with the
  answer \<open>1\<close>.
\<close>

theorem jtag_tick_protocol_witness:
  "\<exists>ctx' k'. jtagdpi_tick script_kernel 1 (demo_jtag [53, 82, 81], idle_script) =
     Ticked (\<lparr>tck = 1, tms = 0, tdi = 1, trst_n = 0, srst_n = 1\<rparr>, ctx', k') \<and>
     pending ctx' = [81] \<and> buf_contents (buf_out (sock ctx')) = [49]"
proof -
  let ?ctx = "demo_jtag [53, 82, 81]"
  have p: "pending ?ctx = [53, 82, 81]"
    by (simp add: demo_jtag_def jtagdpi_create_def reset_jtag_signals_def pending_def demo_ctx_def
        buf_contents_def buf_count_def upt_rec chr8_def)
  have "length [53, 82, 81 :: u8] < 256" by simp
  note d = demo_jtag_ok [OF this]
  have "bitbang_step 1 (signals ?ctx) (pending ?ctx) =
      Some (\<lparr>tck = 1, tms = 0, tdi = 1, trst_n = 0, srst_n = 1\<rparr>, [81], [49], False)"
    unfolding p d(3) by (simp add: bitbang_step_def)
  with jtag_tick_protocol [OF d(1), where t = 1 and K = script_kernel and k = idle_script] d(2) show ?thesis
    by simp blast
qed

text \<open>
  C12: Looking ahead changes no dialogue. For every device whose TDO does not change on a
  rising edge of TCK, calling \<open>jtagdpi_tick\<close> at least as often as there are commands pending gives the
  responses, the last signals and the device of a server that handles every command in a tick
  of its own, and exits in the same cases. The commands contain no zero byte, the one byte
  the lookahead loses, and their responses fit the output buffer.
\<close>

theorem jtag_lookahead_transparent:
  assumes "jtag_device tdo_of react" "jtag_ok ctx" "0 \<notin> set (pending ctx)" "length (pending ctx) \<le> n"
    and "length (buf_contents (buf_out (sock ctx))) + length (pending ctx) \<le> 255"
    and "react (signals ctx) e = e"
  shows "case run_plain tdo_of react (pending ctx) (signals ctx) e of
      None \<Rightarrow> run_program K tdo_of react n (ctx, k) e = Exited
    | Some (resp, sg, dev) \<Rightarrow>
        \<exists>ctx' k'. run_program K tdo_of react n (ctx, k) e = Ticked (ctx', k', dev) \<and>
          pending ctx' = [] \<and> signals ctx' = sg \<and>
          buf_contents (buf_out (sock ctx')) = buf_contents (buf_out (sock ctx)) @ resp"
  using program_plain [OF assms, of K k] by (simp add: plain_outcome_def)

text \<open>
  A device for the witness: TDO shows, after a falling edge, the TDI of the last tick with TCK
  high. The commands \<open>5R0R\<close> are answered with \<open>01\<close>.
\<close>

definition demo_react :: "jtag_signals \<Rightarrow> u8 \<times> u8 \<Rightarrow> u8 \<times> u8" where
  "demo_react sg e = (if tck sg \<noteq> 0 then (tdi sg, snd e) else (fst e, fst e))"

theorem jtag_lookahead_transparent_witness:
  "\<exists>ctx' k'. run_program script_kernel snd demo_react 5 (demo_jtag [53, 82, 48, 82], idle_script) (0, 0) =
     Ticked (ctx', k', 1, 1) \<and> pending ctx' = [] \<and> buf_contents (buf_out (sock ctx')) = [48, 49]"
proof -
  let ?ctx = "demo_jtag [53, 82, 48, 82]"
  have p: "pending ?ctx = [53, 82, 48, 82]"
    by (simp add: demo_jtag_def jtagdpi_create_def reset_jtag_signals_def pending_def demo_ctx_def
        buf_contents_def buf_count_def upt_rec chr8_def)
  have "length [53, 82, 48, 82 :: u8] < 256" by simp
  note d = demo_jtag_ok [OF this]
  have dev: "jtag_device snd demo_react" by (simp add: jtag_device_def demo_react_def)
  have settled: "demo_react (signals ?ctx) (0, 0) = (0, 0)" unfolding d(3) by (simp add: demo_react_def)
  have len: "0 \<notin> set (pending ?ctx)" "length (pending ?ctx) \<le> 5"
    "length (buf_contents (buf_out (sock ?ctx))) + length (pending ?ctx) \<le> 255"
    by (simp_all only: p d(2)) simp_all
  have plain: "run_plain snd demo_react (pending ?ctx) (signals ?ctx) (0, 0) =
      Some ([48, 49], \<lparr>tck = 0, tms = 0, tdi = 0, trst_n = 0, srst_n = 1\<rparr>, (1, 1))"
    unfolding p d(3) by (simp add: bitbang_step_def demo_react_def)
  show ?thesis
    using jtag_lookahead_transparent [OF dev d(1) len settled, of script_kernel idle_script]
    unfolding plain d(2) by auto
qed

text \<open>
  A zero byte after a rising edge disappears: the lookahead stores it as an empty buffer,
  so the next tick finds no command, while the same byte read as a command is a protocol
  violation that exits.
\<close>

lemma jtag_zero_byte_lost:
  assumes "buf_ok (buf_in (sock ctx))" "cmd ctx = 0" "tck (signals ctx) = 0"
    and "buf_contents (buf_in (sock ctx)) = [chr8 CHR ''4'', 0]"
  shows "\<exists>ctx' k'. jtagdpi_tick K t (ctx, k) = Ticked (write_signals (chr8 CHR ''4'') (signals ctx), ctx', k') \<and>
     get_cmd ctx' = None \<and> handle_cmd 0 ctx = None"
proof -
  from get_byte_Cons [OF assms(1,4)] obtain b1 where
    b1: "tcp_buffer_get_byte (buf_in (sock ctx)) = Some (chr8 CHR ''4'', b1)" "buf_ok b1"
      "buf_contents b1 = [0]" .
  from get_byte_Cons [OF b1(2,3)] obtain b2 where
    b2: "tcp_buffer_get_byte b1 = Some (0, b2)" "buf_ok b2" "buf_contents b2 = []" .
  have b3: "tcp_buffer_get_byte b2 = None" using b2 by (simp add: tcp_fifo.get_none)
  have w: "is_write (chr8 CHR ''4'')" "tck (write_signals (chr8 CHR ''4'') (signals ctx)) \<noteq> 0"
    "chr8 CHR ''R'' \<noteq> 0"
    by (simp_all add: is_write_def chr8_def write_signals_def cmd_bit_def Let_def)
  have "handle_cmd 0 ctx = None"
    by (simp add: handle_cmd_def is_write_def is_reset_def chr8_def)
  moreover have "get_cmd (ctx\<lparr>tdo := t\<rparr>) = Some (chr8 CHR ''4'', ctx\<lparr>tdo := t, sock := (sock ctx)\<lparr>buf_in := b1\<rparr>\<rparr>)"
    using assms(2) b1 by (simp add: get_cmd_def tcp_server_read_def)
  moreover have "handle_cmd (chr8 CHR ''4'') (ctx\<lparr>tdo := t, sock := (sock ctx)\<lparr>buf_in := b1\<rparr>\<rparr>) =
      Some (False, False, ctx\<lparr>tdo := t, signals := write_signals (chr8 CHR ''4'') (signals ctx),
        sock := (sock ctx)\<lparr>buf_in := b2\<rparr>, cmd := 0\<rparr>)"
    using assms(3) b2 w by (simp add: handle_cmd_def Let_def lookahead_def tcp_server_read_def)
  ultimately show ?thesis
    using b3 by (simp add: jtagdpi_tick_def update_jtag_signals_def get_cmd_def tcp_server_read_def)
qed

lemma jtag_zero_byte_lost_witness:
  "\<exists>ctx ctx' k'. jtagdpi_tick script_kernel 0 (ctx, idle_script) =
     Ticked (\<lparr>tck = 1, tms = 0, tdi = 0, trst_n = 0, srst_n = 1\<rparr>, ctx', k') \<and> get_cmd ctx' = None"
proof -
  let ?b = "\<lparr>rptr = 0, wptr = 2, buf = [chr8 CHR ''4'', 0] @ replicate 254 0\<rparr>"
  let ?ctx = "jtagdpi_create ((demo_ctx [])\<lparr>buf_in := ?b\<rparr>) False"
  have "buf_ok (buf_in (sock ?ctx))" "cmd ?ctx = 0" "tck (signals ?ctx) = 0"
    "buf_contents (buf_in (sock ?ctx)) = [chr8 CHR ''4'', 0]"
    by (simp_all add: jtagdpi_create_def reset_jtag_signals_def buf_ok_def buf_contents_def
        buf_count_def upt_rec)
  from jtag_zero_byte_lost [OF this, where t = 0 and K = script_kernel and k = idle_script]
  have "\<exists>ctx' k'. jtagdpi_tick script_kernel 0 (?ctx, idle_script) =
     Ticked (write_signals (chr8 CHR ''4'') (signals ?ctx), ctx', k') \<and> get_cmd ctx' = None" by blast
  moreover have "write_signals (chr8 CHR ''4'') (signals ?ctx) =
      \<lparr>tck = 1, tms = 0, tdi = 0, trst_n = 0, srst_n = 1\<rparr>"
    by (simp add: write_signals_def jtagdpi_create_def reset_jtag_signals_def cmd_bit_def chr8_def Let_def)
  ultimately show ?thesis by metis
qed

end
