(* ===== verification/Memory_Lib.thy ===== *)
theory Memory_Lib
  imports Prelude
begin

unbundle bit_operations_syntax

text \<open>
  The memory functions of \<open>sw/device/lib/base/memory.c\<close>. Each of them works on bytes up to the
  first aligned word, on whole words, and on the bytes that remain. Pointers are 32-bit
  addresses into \<open>mem\<close>, \<open>NULL\<close> is 0, and a word access at an address that is no multiple of 4
  is undefined: \<open>None\<close>. The theorems show that it never happens and that each function does
  what its byte-by-byte definition does.
\<close>

section \<open>Loops\<close>

text \<open>
  A \<open>for\<close> loop over the given indices, and one whose body may return: the inner \<open>Some r\<close> is the
  return, the inner \<open>None\<close> goes on.
\<close>

fun for_each :: "('i \<Rightarrow> 's \<Rightarrow> 's option) \<Rightarrow> 'i list \<Rightarrow> 's \<Rightarrow> 's option" where
  "for_each f [] s = Some s"
| "for_each f (i # is) s = Option.bind (f i s) (for_each f is)"

fun scan :: "('i \<Rightarrow> 'r option option) \<Rightarrow> 'i list \<Rightarrow> 'r option option" where
  "scan f [] = Some None"
| "scan f (i # is) =
     (case f i of None \<Rightarrow> None | Some (Some r) \<Rightarrow> Some (Some r) | Some None \<Rightarrow> scan f is)"

lemma for_each_append: "for_each f (xs @ ys) s = Option.bind (for_each f xs s) (for_each f ys)"
  by (induction xs arbitrary: s) (simp_all add: Option.bind_assoc cong: Option.bind_cong)

lemma for_each_concat:
  "(\<And>i s. i \<in> set is \<Longrightarrow> f i s = for_each g (h i) s) \<Longrightarrow>
     for_each f is s = for_each g (concat (map h is)) s"
  by (induction "is" arbitrary: s) (simp_all add: for_each_append cong: Option.bind_cong)

lemma scan_append:
  "scan f (xs @ ys) =
     (case scan f xs of None \<Rightarrow> None | Some (Some r) \<Rightarrow> Some (Some r) | Some None \<Rightarrow> scan f ys)"
  by (induction xs) (simp_all split: option.splits)

lemma scan_concat:
  "(\<And>i. i \<in> set is \<Longrightarrow> f i = scan g (h i)) \<Longrightarrow> scan f is = scan g (concat (map h is))"
  by (induction "is") (simp_all add: scan_append split: option.splits)

section \<open>Alignment\<close>

definition load_32 :: "mem \<Rightarrow> u32 \<Rightarrow> u32 option" where
  "load_32 m a = (if a mod 4 = 0 then Some (read_32 m a) else None)"

definition store_32 :: "u32 \<Rightarrow> u32 \<Rightarrow> mem \<Rightarrow> mem option" where
  "store_32 w a m = (if a mod 4 = 0 then Some (write_32 w a m) else None)"

definition misalignment32_of :: "u32 \<Rightarrow> u32" where
  "misalignment32_of a = a mod 4"

definition compute_num_leading_bytes :: "u32 \<Rightarrow> u32 \<Rightarrow> u32 \<Rightarrow> u32" where
  "compute_num_leading_bytes left right len =
     (if len < 4 then len
      else
        let left_ahead = misalignment32_of left; right_ahead = misalignment32_of right
        in if right = 0 \<or> left_ahead = right_ahead then (4 - left_ahead) AND 0x3 else len)"

definition compute_alignment :: "u32 \<Rightarrow> u32 \<Rightarrow> u32 \<Rightarrow> u32 \<times> u32" where
  "compute_alignment left right len =
     (let num_leading_bytes = compute_num_leading_bytes left right len;
          num_words = (len - num_leading_bytes) div 4
      in (num_leading_bytes, num_leading_bytes + num_words * 4))"

text \<open>The index ranges of the three loops: up to the body, the words of the body, the tail.\<close>

definition head_range :: "u32 \<times> u32 \<Rightarrow> nat list" where
  "head_range off = [0..<unat (fst off)]"

definition body_range :: "u32 \<times> u32 \<Rightarrow> nat list" where
  "body_range off = map (\<lambda>k. unat (fst off) + 4 * k) [0..<(unat (snd off) - unat (fst off) + 3) div 4]"

definition tail_range :: "u32 \<times> u32 \<Rightarrow> u32 \<Rightarrow> nat list" where
  "tail_range off len = [unat (snd off)..<unat len]"

lemma unat_add_mod4: "unat (a + of_nat i) mod 4 = (unat a + i) mod 4" for a :: u32
  by (simp add: unat_word_ariths unat_of_nat mod_simps mod_mod_cancel)

lemma word_mod4_iff: "a mod 4 = 0 \<longleftrightarrow> unat a mod 4 = 0" for a :: u32
  by (simp add: word_unat_eq_iff unat_mod)

lemma and_3_unat: "unat (w AND 0x3) = unat w mod 4" for w :: u32
proof -
  have "(0x3 :: u32) = mask 2" by (simp add: mask_eq_exp_minus_1)
  then have "w AND 0x3 = take_bit 2 w" by (simp only: take_bit_eq_mask)
  then have "unat (w AND 0x3) = take_bit 2 (unat w)" by (simp only: unsigned_take_bit_eq)
  then show ?thesis by (simp add: take_bit_eq_mod)
qed

lemma leading_cases:
  fixes left right len :: u32
  defines "n \<equiv> unat (compute_num_leading_bytes left right len)"
  shows "n \<le> unat len"
    and "n < unat len \<Longrightarrow> n < 4 \<and> (unat left + n) mod 4 = 0 \<and> (right \<noteq> 0 \<longrightarrow> (unat right + n) mod 4 = 0)"
proof -
  let ?l = "unat left mod 4"
  have ahead: "unat (misalignment32_of a) = unat a mod 4" for a
    by (simp add: misalignment32_of_def unat_mod)
  have "unat ((4 - misalignment32_of left) AND 0x3) = (4 - ?l) mod 4"
  proof -
    have "misalignment32_of left \<le> 4" by (simp add: word_le_nat_alt ahead less_imp_le)
    then show ?thesis by (simp add: and_3_unat unat_sub ahead)
  qed
  moreover have "misalignment32_of left = misalignment32_of right \<longleftrightarrow> ?l = unat right mod 4"
    by (simp add: word_unat_eq_iff ahead)
  ultimately have n: "n = (if unat len < 4 then unat len
      else if right = 0 \<or> ?l = unat right mod 4 then (4 - ?l) mod 4 else unat len)"
    by (auto simp: n_def compute_num_leading_bytes_def Let_def word_less_nat_alt)
  have four: "(x + (4 - x mod 4) mod 4) mod 4 = 0" for x :: nat
  proof -
    have "x mod 4 = 0 \<or> x mod 4 = 1 \<or> x mod 4 = 2 \<or> x mod 4 = 3" by linarith
    moreover have "(x + (4 - x mod 4) mod 4) mod 4 = (x mod 4 + (4 - x mod 4) mod 4) mod 4"
      by (simp only: mod_add_left_eq)
    ultimately show ?thesis by auto
  qed
  have lt: "(4 - ?l) mod 4 < 4" by simp
  consider (all) "n = unat len"
    | (lead) "n = (4 - ?l) mod 4" "4 \<le> unat len" "right = 0 \<or> ?l = unat right mod 4"
    using n by (metis not_less)
  note two = this
  from two lt show "n \<le> unat len" by cases linarith+
  assume less: "n < unat len"
  from two show "n < 4 \<and> (unat left + n) mod 4 = 0 \<and> (right \<noteq> 0 \<longrightarrow> (unat right + n) mod 4 = 0)"
  proof cases
    case all
    with less show ?thesis by simp
  next
    case lead
    have "(unat left + n) mod 4 = 0" unfolding lead(1) by (rule four)
    moreover have "(unat right + n) mod 4 = 0" if "right \<noteq> 0"
    proof -
      have "?l = unat right mod 4" using lead(3) that by simp
      with four [of "unat right"] show ?thesis unfolding lead(1) by (simp only:)
    qed
    moreover have "n < 4" unfolding lead(1) by (rule lt)
    ultimately show ?thesis by blast
  qed
qed

lemma alignment_nat:
  fixes left right len :: u32
  assumes "compute_alignment left right len = (b, t)"
  shows "unat b \<le> unat t" "unat t \<le> unat len" "(unat t - unat b) mod 4 = 0"
    "unat b < unat t \<Longrightarrow> (unat left + unat b) mod 4 = 0 \<and> (right \<noteq> 0 \<longrightarrow> (unat right + unat b) mod 4 = 0)"
proof -
  let ?n = "unat b" and ?w = "(unat len - unat b) div 4"
  have b: "b = compute_num_leading_bytes left right len" and t: "t = b + (len - b) div 4 * 4"
    using assms by (auto simp: compute_alignment_def Let_def)
  have le: "?n \<le> unat len" using leading_cases(1) b by simp
  then have "unat (len - b) = unat len - ?n" by (simp add: unat_sub word_le_nat_alt)
  then have w: "unat ((len - b) div 4) = ?w" by (simp add: unat_div)
  have bound: "?n + ?w * 4 \<le> unat len" using le div_times_less_eq_dividend [of "unat len - ?n" 4] by linarith
  have lt: "unat len < 2 ^ 32" using unsigned_less [of len, where 'a = nat] by simp
  then have "unat ((len - b) div 4 * 4) = ?w * 4"
    using bound w by (simp add: unat_word_ariths)
  then have ut: "unat t = ?n + ?w * 4"
    using bound lt by (simp add: t unat_word_ariths)
  then show "?n \<le> unat t" "unat t \<le> unat len" "(unat t - ?n) mod 4 = 0"
    using bound by simp_all
  show "(unat left + ?n) mod 4 = 0 \<and> (right \<noteq> 0 \<longrightarrow> (unat right + ?n) mod 4 = 0)"
    if "?n < unat t"
  proof -
    have "?n < unat len" using that ut bound by linarith
    with leading_cases(2) [of left right len] show ?thesis unfolding b by blast
  qed
qed

lemma upt_join: "i \<le> j \<Longrightarrow> j \<le> k \<Longrightarrow> [i..<j] @ [j..<k] = [i..<k]"
  using upt_add_eq_append [of i j "k - j"] by simp

text \<open>The three ranges, words spread into bytes, are all the bytes in order.\<close>

lemma word_indices:
  "concat (map (\<lambda>i. [i, i + 1, i + 2, i + 3]) (map (\<lambda>k. b + 4 * k) [0..<n])) = [b..<b + 4 * n]"
proof (induction n)
  case 0
  then show ?case by simp
next
  case (Suc n)
  have "b + 4 * Suc n = b + 4 * n + 4" by simp
  then have "[b..<b + 4 * Suc n] = [b..<b + 4 * n] @ [b + 4 * n..<b + 4 * n + 4]"
    by (simp only: upt_add_eq_append [of b "b + 4 * n" 4] le_add1)
  moreover have "[b + 4 * n..<b + 4 * n + 4] = [b + 4 * n, b + 4 * n + 1, b + 4 * n + 2, b + 4 * n + 3]"
    by (simp add: upt_rec)
  ultimately show ?case using Suc by simp
qed

lemma ranges:
  assumes "compute_alignment left right len = off"
  shows "head_range off @ concat (map (\<lambda>i. [i, i + 1, i + 2, i + 3]) (body_range off)) @ tail_range off len =
     [0..<unat len]"
    and "i \<in> set (body_range off) \<Longrightarrow> (left + of_nat i) mod 4 = 0"
    and "i \<in> set (body_range off) \<Longrightarrow> right \<noteq> 0 \<Longrightarrow> (right + of_nat i) mod 4 = 0"
    and "i \<in> set (body_range off) \<Longrightarrow> i + 4 \<le> unat len"
proof -
  obtain b t where off: "off = (b, t)" by fastforce
  note al = alignment_nat [OF assms [unfolded off]]
  have n: "(unat t - unat b + 3) div 4 = (unat t - unat b) div 4" using al(3) by presburger
  have t: "unat b + 4 * ((unat t - unat b) div 4) = unat t" using al(1,3) by presburger
  show "head_range off @ concat (map (\<lambda>i. [i, i + 1, i + 2, i + 3]) (body_range off)) @ tail_range off len =
     [0..<unat len]"
    unfolding head_range_def body_range_def tail_range_def off fst_conv snd_conv n word_indices t
    using al(1,2) by (simp add: upt_join)
  show "(left + of_nat i) mod 4 = 0" "right \<noteq> 0 \<Longrightarrow> (right + of_nat i) mod 4 = 0" "i + 4 \<le> unat len"
    if i: "i \<in> set (body_range off)" for i
  proof -
    from i n obtain k where k: "i = unat b + 4 * k" "k < (unat t - unat b) div 4"
      by (auto simp: body_range_def off)
    then have "unat b < unat t" by (cases "unat b < unat t") auto
    with al(4) have a: "(unat left + unat b) mod 4 = 0" "right \<noteq> 0 \<Longrightarrow> (unat right + unat b) mod 4 = 0"
      by auto
    have "(x + (y + 4 * k)) mod 4 = (x + y) mod 4" for x y :: nat by presburger
    note shift = this
    show "(left + of_nat i) mod 4 = 0"
      by (simp only: word_mod4_iff unat_add_mod4 k(1) shift a(1))
    show "(right + of_nat i) mod 4 = 0" if "right \<noteq> 0"
      by (simp only: word_mod4_iff unat_add_mod4 k(1) shift a(2) [OF that])
    show "i + 4 \<le> unat len" using k t al(2) by linarith
  qed
qed

section \<open>The functions\<close>

definition repeat_byte_to_u32 :: "u8 \<Rightarrow> u32" where
  "repeat_byte_to_u32 byte =
     (let word = ucast byte
      in push_bit 24 word OR push_bit 16 word OR push_bit 8 word OR word)"

definition memcpy :: "u32 \<Rightarrow> u32 \<Rightarrow> u32 \<Rightarrow> mem \<Rightarrow> (u32 \<times> mem) option" where
  "memcpy dest src len m =
     (if dest = 0 \<or> src = 0 then Some (dest, m)
      else do {
        let off = compute_alignment dest src len;
        let byte = (\<lambda>i m. Some (m(dest + of_nat i := m (src + of_nat i))));
        m \<leftarrow> for_each byte (head_range off) m;
        m \<leftarrow> for_each (\<lambda>i m. do {
               word \<leftarrow> load_32 m (src + of_nat i);
               store_32 word (dest + of_nat i) m
             }) (body_range off) m;
        m \<leftarrow> for_each byte (tail_range off len) m;
        Some (dest, m)
      })"

definition memset :: "u32 \<Rightarrow> u32 \<Rightarrow> u32 \<Rightarrow> mem \<Rightarrow> (u32 \<times> mem) option" where
  "memset dest val len m =
     (let value8 = ucast val :: u8; off = compute_alignment dest 0 len;
          byte = (\<lambda>i m. Some (m(dest + of_nat i := value8)));
          value32 = repeat_byte_to_u32 value8
      in do {
        m \<leftarrow> for_each byte (head_range off) m;
        m \<leftarrow> for_each (\<lambda>i m. store_32 value32 (dest + of_nat i) m) (body_range off) m;
        m \<leftarrow> for_each byte (tail_range off len) m;
        Some (dest, m)
      })"

definition kMemCmpEq :: int where "kMemCmpEq = 0"
definition kMemCmpLt :: int where "kMemCmpLt = -42"
definition kMemCmpGt :: int where "kMemCmpGt = 42"

definition bswap32 :: "u32 \<Rightarrow> u32" where
  "bswap32 w = bytes_word (byte_of w 3) (byte_of w 2) (byte_of w 1) (byte_of w 0)"

definition compare_step :: "'a::linorder \<Rightarrow> 'a \<Rightarrow> int option option" where
  "compare_step l r =
     (if l < r then Some (Some kMemCmpLt) else if l > r then Some (Some kMemCmpGt) else Some None)"

text \<open>What follows the loops of a comparison: nothing returned means equal.\<close>

definition finish_compare :: "int option option \<Rightarrow> int option" where
  "finish_compare r = map_option (case_option kMemCmpEq (\<lambda>x. x)) r"

definition memcmp :: "u32 \<Rightarrow> u32 \<Rightarrow> u32 \<Rightarrow> mem \<Rightarrow> int option" where
  "memcmp lhs rhs len m =
     (let off = compute_alignment lhs rhs len;
          byte = (\<lambda>i. compare_step (m (lhs + of_nat i)) (m (rhs + of_nat i)));
          word = (\<lambda>i. do {
            l \<leftarrow> load_32 m (lhs + of_nat i);
            r \<leftarrow> load_32 m (rhs + of_nat i);
            compare_step (bswap32 l) (bswap32 r) })
      in finish_compare (do {
           h \<leftarrow> scan byte (head_range off);
           if h \<noteq> None then Some h
           else do {
             b \<leftarrow> scan word (body_range off);
             if b \<noteq> None then Some b else scan byte (tail_range off len)
           } }))"

definition memrcmp :: "u32 \<Rightarrow> u32 \<Rightarrow> u32 \<Rightarrow> mem \<Rightarrow> int option" where
  "memrcmp lhs rhs len m =
     (let off = compute_alignment lhs rhs len;
          byte = (\<lambda>i. compare_step (m (lhs + of_nat i)) (m (rhs + of_nat i)));
          word = (\<lambda>i. do {
            l \<leftarrow> load_32 m (lhs + of_nat i);
            r \<leftarrow> load_32 m (rhs + of_nat i);
            compare_step l r })
      in finish_compare (do {
           t \<leftarrow> scan byte (rev (tail_range off len));
           if t \<noteq> None then Some t
           else do {
             b \<leftarrow> scan word (rev (body_range off));
             if b \<noteq> None then Some b else scan byte (rev (head_range off))
           } }))"

text \<open>The returned pointer, \<open>NULL\<close> when nothing was found.\<close>

definition finish_search :: "u32 option option \<Rightarrow> u32 option" where
  "finish_search r = map_option (case_option 0 (\<lambda>x. x)) r"

definition match_byte :: "u32 \<Rightarrow> nat \<Rightarrow> bool" where
  "match_byte bits_eq k \<longleftrightarrow> drop_bit (8 * k) bits_eq AND 0xFF = 0xFF"

definition memchr :: "u32 \<Rightarrow> u32 \<Rightarrow> u32 \<Rightarrow> mem \<Rightarrow> u32 option" where
  "memchr ptr val len m =
     (let value8 = ucast val :: u8; off = compute_alignment ptr 0 len;
          byte = (\<lambda>i. Some (if m (ptr + of_nat i) = value8 then Some (ptr + of_nat i) else None));
          value32 = repeat_byte_to_u32 value8;
          word = (\<lambda>i. do {
            w \<leftarrow> load_32 m (ptr + of_nat i);
            let bits_eq = NOT (w XOR value32);
            if match_byte bits_eq 0 then Some (Some (ptr + of_nat i))
            else if match_byte bits_eq 1 then Some (Some (ptr + of_nat (i + 1)))
            else if match_byte bits_eq 2 then Some (Some (ptr + of_nat (i + 2)))
            else if match_byte bits_eq 3 then Some (Some (ptr + of_nat (i + 3)))
            else Some None })
      in finish_search (do {
           h \<leftarrow> scan byte (head_range off);
           if h \<noteq> None then Some h
           else do {
             b \<leftarrow> scan word (body_range off);
             if b \<noteq> None then Some b else scan byte (tail_range off len)
           } }))"

definition memrchr :: "u32 \<Rightarrow> u32 \<Rightarrow> u32 \<Rightarrow> mem \<Rightarrow> u32 option" where
  "memrchr ptr val len m =
     (let value8 = ucast val :: u8; off = compute_alignment ptr 0 len;
          byte = (\<lambda>i. Some (if m (ptr + of_nat i) = value8 then Some (ptr + of_nat i) else None));
          value32 = repeat_byte_to_u32 value8;
          word = (\<lambda>i. do {
            w \<leftarrow> load_32 m (ptr + of_nat i);
            let bits_eq = NOT (w XOR value32);
            if match_byte bits_eq 3 then Some (Some (ptr + of_nat (i + 3)))
            else if match_byte bits_eq 2 then Some (Some (ptr + of_nat (i + 2)))
            else if match_byte bits_eq 1 then Some (Some (ptr + of_nat (i + 1)))
            else if match_byte bits_eq 0 then Some (Some (ptr + of_nat i))
            else Some None })
      in finish_search (do {
           t \<leftarrow> scan byte (rev (tail_range off len));
           if t \<noteq> None then Some t
           else do {
             b \<leftarrow> scan word (rev (body_range off));
             if b \<noteq> None then Some b else scan byte (rev (head_range off))
           } }))"

section \<open>Words as four bytes\<close>

lemma byte_of_repeat:
  assumes "k < 4"
  shows "byte_of (repeat_byte_to_u32 v) k = v"
proof (rule bit_word_eqI)
  fix n assume "n < LENGTH(8)"
  moreover have "k = 0 \<or> k = 1 \<or> k = 2 \<or> k = 3" using assms by linarith
  ultimately show "bit (byte_of (repeat_byte_to_u32 v) k) n = bit v n"
    by (auto simp: bit_byte_of repeat_byte_to_u32_def Let_def bit_simps dest: bit_u8_less)
qed

lemma repeat_byte_bytes: "word_bytes (repeat_byte_to_u32 v) = [v, v, v, v]"
  by (simp add: word_bytes_def byte_of_repeat)

lemma and_mask8_full: "x AND mask 8 = mask 8 \<longleftrightarrow> (\<forall>n<8. bit x n)" for x :: u32
proof
  assume eq: "x AND mask 8 = mask 8"
  show "\<forall>n<8. bit x n"
  proof (intro allI impI)
    fix n :: nat assume "n < 8"
    with arg_cong [OF eq, of "\<lambda>w. bit w n"] show "bit x n" by (simp add: bit_simps)
  qed
next
  assume "\<forall>n<8. bit x n"
  then show "x AND mask 8 = mask 8" by (intro bit_word_eqI) (auto simp: bit_simps)
qed

lemma match_byte_iff:
  assumes "k < 4"
  shows "match_byte (NOT (w XOR repeat_byte_to_u32 v)) k \<longleftrightarrow> byte_of w k = v"
proof -
  let ?x = "NOT (w XOR repeat_byte_to_u32 v)"
  have "match_byte ?x k \<longleftrightarrow> (\<forall>n<8. bit ?x (8 * k + n))"
    by (simp add: match_byte_def mask8_u32 and_mask8_full bit_drop_bit_eq)
  also have "\<dots> \<longleftrightarrow> (\<forall>n<8. bit w (8 * k + n) = bit (repeat_byte_to_u32 v) (8 * k + n))"
    using assms by (auto simp: bit_simps)
  also have "\<dots> \<longleftrightarrow> byte_of w k = byte_of (repeat_byte_to_u32 v) k"
    by (auto simp: bit_eq_iff bit_byte_of)
  finally show ?thesis by (simp add: byte_of_repeat [OF assms])
qed

lemma unat_byte_of: "unat (byte_of w k) = unat w div 256 ^ k mod 256"
proof -
  have "unat (byte_of w k) = take_bit 8 (unat (drop_bit (8 * k) w))"
    by (simp add: byte_of_def unsigned_ucast_eq)
  also have "unat (drop_bit (8 * k) w) = drop_bit (8 * k) (unat w)" by (rule unat_drop_bit_eq)
  also have "(2 :: nat) ^ (8 * k) = 256 ^ k" using power_mult [of "2 :: nat" 8 k] by simp
  then have "take_bit 8 (drop_bit (8 * k) (unat w)) = unat w div 256 ^ k mod 256"
    by (simp add: take_bit_eq_mod drop_bit_eq_div)
  finally show ?thesis .
qed

lemma unat_bytes:
  "unat w = unat (byte_of w 0) + 256 * unat (byte_of w 1) + 65536 * unat (byte_of w 2) +
     16777216 * unat (byte_of w 3)" for w :: u32
proof -
  let ?x = "unat w"
  have lt: "?x < 4294967296" using unsigned_less [of w, where 'a = nat] by simp
  have "?x div 65536 = ?x div 256 div 256" "?x div 16777216 = ?x div 256 div 256 div 256"
    by (simp_all add: div_mult2_eq [symmetric])
  moreover have "?x div 256 div 256 div 256 < 256" using lt by (simp add: div_mult2_eq [symmetric])
  ultimately have "unat (byte_of w 0) = ?x mod 256" "unat (byte_of w 1) = ?x div 256 mod 256"
    "unat (byte_of w 2) = ?x div 256 div 256 mod 256" "unat (byte_of w 3) = ?x div 256 div 256 div 256"
    by (simp_all add: unat_byte_of)
  moreover have "?x = ?x div 256 * 256 + ?x mod 256"
    "?x div 256 = ?x div 256 div 256 * 256 + ?x div 256 mod 256"
    "?x div 256 div 256 = ?x div 256 div 256 div 256 * 256 + ?x div 256 div 256 mod 256"
    by simp_all
  ultimately show ?thesis by linarith
qed

lemma lex_less:
  fixes a0 a1 a2 a3 b0 b1 b2 b3 :: nat
  assumes "a0 < 256" "a1 < 256" "a2 < 256" "b0 < 256" "b1 < 256" "b2 < 256"
  shows "a0 + 256 * a1 + 65536 * a2 + 16777216 * a3 < b0 + 256 * b1 + 65536 * b2 + 16777216 * b3
    \<longleftrightarrow> a3 < b3 \<or> a3 = b3 \<and> (a2 < b2 \<or> a2 = b2 \<and> (a1 < b1 \<or> a1 = b1 \<and> a0 < b0))"
proof -
  consider "a3 < b3" | "b3 < a3" | "a3 = b3" "a2 < b2" | "a3 = b3" "b2 < a2"
    | "a3 = b3" "a2 = b2" "a1 < b1" | "a3 = b3" "a2 = b2" "b1 < a1" | "a3 = b3" "a2 = b2" "a1 = b1"
    by linarith
  then show ?thesis using assms by cases linarith+
qed

lemma word_less_bytes:
  "l < r \<longleftrightarrow> byte_of l 3 < byte_of r 3 \<or> byte_of l 3 = byte_of r 3 \<and>
     (byte_of l 2 < byte_of r 2 \<or> byte_of l 2 = byte_of r 2 \<and>
      (byte_of l 1 < byte_of r 1 \<or> byte_of l 1 = byte_of r 1 \<and> byte_of l 0 < byte_of r 0))" for l r :: u32
  unfolding word_less_nat_alt [of l r] unat_bytes [of l] unat_bytes [of r]
  by (subst lex_less) (simp_all add: word_less_nat_alt word_unat_eq_iff)

lemma compare_word:
  "scan (\<lambda>k. compare_step (byte_of l k) (byte_of r k)) [3, 2, 1, 0] = compare_step l r" for l r :: u32
proof -
  consider "l < r" | "l = r" | "r < l" by (rule linorder_cases)
  then show ?thesis
  proof cases
    case 1
    with word_less_bytes [of l r] show ?thesis by (auto simp: compare_step_def)
  next
    case 2
    then show ?thesis by (simp add: compare_step_def)
  next
    case 3
    with word_less_bytes [of r l] show ?thesis by (auto simp: compare_step_def)
  qed
qed

lemma less_4_cases: "k < 4 \<Longrightarrow> k = 0 \<or> k = 1 \<or> k = 2 \<or> k = (3 :: nat)"
  by linarith

lemma byte_of_bswap: "k < 4 \<Longrightarrow> byte_of (bswap32 w) k = byte_of w (3 - k)"
  by (drule less_4_cases) (elim disjE; simp add: bswap32_def)

lemma compare_word_bswap:
  "scan (\<lambda>k. compare_step (byte_of l k) (byte_of r k)) [0, 1, 2, 3] =
     compare_step (bswap32 l) (bswap32 r)"
proof -
  have "byte_of (bswap32 w) 3 = byte_of w 0" "byte_of (bswap32 w) 2 = byte_of w 1"
    "byte_of (bswap32 w) 1 = byte_of w 2" "byte_of (bswap32 w) 0 = byte_of w 3" for w
    using byte_of_bswap [of 3 w] byte_of_bswap [of 2 w] byte_of_bswap [of 1 w] byte_of_bswap [of 0 w]
    by simp_all
  then show ?thesis unfolding compare_word [symmetric] scan.simps by (simp only:)
qed

lemma byte_of_read_32: "k < 4 \<Longrightarrow> byte_of (read_32 m a) k = m (a + of_nat k)"
  by (drule less_4_cases) (elim disjE; simp add: read_32_def)

section \<open>Specifications\<close>

fun compare_bytes :: "u8 list \<Rightarrow> u8 list \<Rightarrow> int" where
  "compare_bytes (a # as) (b # bs) =
     (if a < b then kMemCmpLt else if a > b then kMemCmpGt else compare_bytes as bs)"
| "compare_bytes _ _ = kMemCmpEq"

definition disjoint_ranges :: "u32 \<Rightarrow> u32 \<Rightarrow> nat \<Rightarrow> bool" where
  "disjoint_ranges dest src n \<longleftrightarrow> (\<forall>i<n. \<forall>j<n. dest + of_nat i \<noteq> src + of_nat j)"

section \<open>From words to bytes\<close>

lemma scan_then:
  "Option.bind (scan f xs) (\<lambda>h. if h \<noteq> None then Some h else R) =
     (case scan f xs of None \<Rightarrow> None | Some (Some r) \<Rightarrow> Some (Some r) | Some None \<Rightarrow> R)"
  by (cases "scan f xs") (auto split: option.splits)

lemma scan_map: "scan f (map g xs) = scan (\<lambda>x. f (g x)) xs"
  by (induction xs) (simp_all split: option.splits)

text \<open>A scan in three parts whose middle part takes words is the scan of all bytes.\<close>

lemma scan_parts:
  assumes "\<And>i. i \<in> set ws \<Longrightarrow> word i = scan byte (spread i)"
  shows "Option.bind (scan byte hs) (\<lambda>h. if h \<noteq> None then Some h
      else Option.bind (scan word ws) (\<lambda>b. if b \<noteq> None then Some b else scan byte ts)) =
    scan byte (hs @ concat (map spread ws) @ ts)"
  unfolding scan_then scan_append using scan_concat [of ws word byte spread] assms
  by (simp split: option.split)

lemma rev_ranges:
  assumes "compute_alignment left right len = off"
  shows "rev (tail_range off len) @ concat (map (\<lambda>i. [i + 3, i + 2, i + 1, i]) (rev (body_range off))) @
     rev (head_range off) = rev [0..<unat len]"
  using arg_cong [OF ranges(1) [OF assms], of rev] by (simp add: rev_concat rev_map comp_def)

lemma scan_compare:
  "length xs = length ys \<Longrightarrow>
     finish_compare (scan (\<lambda>k. compare_step (xs ! k) (ys ! k)) [0..<length xs]) = Some (compare_bytes xs ys)"
proof (induction xs ys rule: list_induct2)
  case Nil
  then show ?case by (simp add: finish_compare_def)
next
  case (Cons x xs y ys)
  have "[0..<length (x # xs)] = 0 # map Suc [0..<length xs]" by (simp add: upt_conv_Cons map_Suc_upt del: upt_Suc)
  then have "scan (\<lambda>k. compare_step ((x # xs) ! k) ((y # ys) ! k)) [0..<length (x # xs)] =
      (case compare_step x y of None \<Rightarrow> None | Some (Some r) \<Rightarrow> Some (Some r)
       | Some None \<Rightarrow> scan (\<lambda>k. compare_step (xs ! k) (ys ! k)) [0..<length xs])"
    by (simp only: scan.simps scan_map nth_Cons_0 nth_Cons_Suc)
  with Cons.IH show ?case
    by (simp only:) (simp add: compare_step_def finish_compare_def)
qed

lemma add_index: "a + of_nat i + of_nat j = a + of_nat (i + j)" for a :: u32
  by simp

lemma scan_word_bytes:
  fixes m :: mem
  assumes "a mod 4 = 0" "b mod 4 = 0" "a = l + of_nat i" "b = r + of_nat i"
  shows "do { x \<leftarrow> load_32 m a; y \<leftarrow> load_32 m b; compare_step (bswap32 x) (bswap32 y) } =
      scan (\<lambda>i. compare_step (m (l + of_nat i)) (m (r + of_nat i))) [i, i + 1, i + 2, i + 3]"
    and "do { x \<leftarrow> load_32 m a; y \<leftarrow> load_32 m b; compare_step x y } =
      scan (\<lambda>i. compare_step (m (l + of_nat i)) (m (r + of_nat i))) [i + 3, i + 2, i + 1, i]"
proof -
  let ?f = "\<lambda>k. compare_step (byte_of (read_32 m a) k) (byte_of (read_32 m b) k)"
  let ?g = "\<lambda>i. compare_step (m (l + of_nat i)) (m (r + of_nat i))"
  have f: "?f k = ?g (i + k)" if "k < 4" for k
    using that by (simp add: byte_of_read_32 assms(3,4) add.assoc)
  have fs: "?f 0 = ?g i" "?f 1 = ?g (i + 1)" "?f 2 = ?g (i + 2)" "?f 3 = ?g (i + 3)"
    using f [of 0] f [of 1] f [of 2] f [of 3] by simp_all
  have loads: "load_32 m a = Some (read_32 m a)" "load_32 m b = Some (read_32 m b)"
    using assms(1,2) by (simp_all add: load_32_def)
  show "do { x \<leftarrow> load_32 m a; y \<leftarrow> load_32 m b; compare_step (bswap32 x) (bswap32 y) } =
      scan ?g [i, i + 1, i + 2, i + 3]"
    by (simp only: loads bind.bind_lunit compare_word_bswap [symmetric] scan.simps fs)
  show "do { x \<leftarrow> load_32 m a; y \<leftarrow> load_32 m b; compare_step x y } = scan ?g [i + 3, i + 2, i + 1, i]"
    by (simp only: loads bind.bind_lunit compare_word [symmetric] scan.simps fs)
qed

lemma memcmp_bytes:
  assumes "rhs \<noteq> 0"
  shows "memcmp lhs rhs len m =
    Some (compare_bytes (mem_bytes m lhs (unat len)) (mem_bytes m rhs (unat len)))"
proof -
  let ?off = "compute_alignment lhs rhs len"
  let ?byte = "\<lambda>i. compare_step (m (lhs + of_nat i)) (m (rhs + of_nat i))"
  note r = ranges [where left = lhs and right = rhs and len = len, OF refl]
  have w: "i \<in> set (body_range ?off) \<Longrightarrow>
      do { x \<leftarrow> load_32 m (lhs + of_nat i); y \<leftarrow> load_32 m (rhs + of_nat i);
           compare_step (bswap32 x) (bswap32 y) } = scan ?byte [i, i + 1, i + 2, i + 3]" for i
    by (rule scan_word_bytes(1) [OF r(2) r(3) [OF _ assms] refl refl])
  have "memcmp lhs rhs len m = finish_compare (scan ?byte
      (head_range ?off @ concat (map (\<lambda>i. [i, i + 1, i + 2, i + 3]) (body_range ?off)) @ tail_range ?off len))"
    unfolding memcmp_def Let_def by (simp only: scan_parts [OF w])
  also have "\<dots> = finish_compare (scan ?byte [0..<unat len])" by (simp only: r(1))
  also have "scan ?byte [0..<unat len] = scan (\<lambda>k. compare_step (mem_bytes m lhs (unat len) ! k)
      (mem_bytes m rhs (unat len) ! k)) [0..<length (mem_bytes m lhs (unat len))]"
    using scan_concat [of "[0..<unat len]" ?byte _ "\<lambda>i. [i]"] by (simp split: option.split)
  also have "finish_compare \<dots> =
      Some (compare_bytes (mem_bytes m lhs (unat len)) (mem_bytes m rhs (unat len)))"
    by (rule scan_compare) simp
  finally show ?thesis .
qed

lemma memrcmp_bytes:
  assumes "rhs \<noteq> 0"
  shows "memrcmp lhs rhs len m =
    Some (compare_bytes (rev (mem_bytes m lhs (unat len))) (rev (mem_bytes m rhs (unat len))))"
proof -
  let ?off = "compute_alignment lhs rhs len" and ?n = "unat len"
  let ?byte = "\<lambda>i. compare_step (m (lhs + of_nat i)) (m (rhs + of_nat i))"
  note r = ranges [where left = lhs and right = rhs and len = len, OF refl]
  have w: "i \<in> set (rev (body_range ?off)) \<Longrightarrow>
      do { x \<leftarrow> load_32 m (lhs + of_nat i); y \<leftarrow> load_32 m (rhs + of_nat i); compare_step x y } =
      scan ?byte [i + 3, i + 2, i + 1, i]" for i
    unfolding set_rev by (rule scan_word_bytes(2) [OF r(2) r(3) [OF _ assms] refl refl])
  have "memrcmp lhs rhs len m = finish_compare (scan ?byte (rev (tail_range ?off len) @
      concat (map (\<lambda>i. [i + 3, i + 2, i + 1, i]) (rev (body_range ?off))) @ rev (head_range ?off)))"
    unfolding memrcmp_def Let_def by (simp only: scan_parts [OF w])
  also have "\<dots> = finish_compare (scan ?byte (rev [0..<?n]))" by (simp only: rev_ranges [OF refl])
  also have "rev [0..<?n] = map (\<lambda>k. ?n - Suc k) [0..<?n]"
    by (rule nth_equalityI) (simp_all add: rev_nth)
  also have "scan ?byte \<dots> = scan (\<lambda>k. compare_step (rev (mem_bytes m lhs ?n) ! k)
      (rev (mem_bytes m rhs ?n) ! k)) [0..<length (rev (mem_bytes m lhs ?n))]"
    unfolding scan_map
    using scan_concat [of "[0..<?n]" "\<lambda>k. ?byte (?n - Suc k)" _ "\<lambda>i. [i]"]
    by (simp add: rev_nth split: option.split)
  also have "finish_compare \<dots> = Some (compare_bytes (rev (mem_bytes m lhs ?n)) (rev (mem_bytes m rhs ?n)))"
    by (rule scan_compare) simp
  finally show ?thesis .
qed

text \<open>The search functions.\<close>

lemma scan_find:
  "scan (\<lambda>x. Some (if P x then Some (g x) else None)) xs = Some (map_option g (find P xs))"
  by (induction xs) simp_all

lemma search_word:
  assumes "(p + of_nat i) mod 4 = 0"
  shows "do { w \<leftarrow> load_32 m (p + of_nat i);
      let bits_eq = NOT (w XOR repeat_byte_to_u32 v);
      if match_byte bits_eq 0 then Some (Some (p + of_nat i))
      else if match_byte bits_eq 1 then Some (Some (p + of_nat (i + 1)))
      else if match_byte bits_eq 2 then Some (Some (p + of_nat (i + 2)))
      else if match_byte bits_eq 3 then Some (Some (p + of_nat (i + 3)))
      else Some None } =
    scan (\<lambda>i. Some (if m (p + of_nat i) = v then Some (p + of_nat i) else None)) [i, i + 1, i + 2, i + 3]"
    and "do { w \<leftarrow> load_32 m (p + of_nat i);
      let bits_eq = NOT (w XOR repeat_byte_to_u32 v);
      if match_byte bits_eq 3 then Some (Some (p + of_nat (i + 3)))
      else if match_byte bits_eq 2 then Some (Some (p + of_nat (i + 2)))
      else if match_byte bits_eq 1 then Some (Some (p + of_nat (i + 1)))
      else if match_byte bits_eq 0 then Some (Some (p + of_nat i))
      else Some None } =
    scan (\<lambda>i. Some (if m (p + of_nat i) = v then Some (p + of_nat i) else None)) [i + 3, i + 2, i + 1, i]"
proof -
  have l: "load_32 m (p + of_nat i) = Some (read_32 m (p + of_nat i))"
    using assms by (simp add: load_32_def)
  have "match_byte (NOT (read_32 m (p + of_nat i) XOR repeat_byte_to_u32 v)) k \<longleftrightarrow>
      m (p + of_nat (i + k)) = v" if "k < 4" for k
    using that by (simp add: match_byte_iff byte_of_read_32 add.assoc)
  note b = this [of 0] this [of 1] this [of 2] this [of 3]
  have e: "match_byte (NOT (read_32 m (p + of_nat i) XOR repeat_byte_to_u32 v)) 0 \<longleftrightarrow> m (p + of_nat i) = v"
    "match_byte (NOT (read_32 m (p + of_nat i) XOR repeat_byte_to_u32 v)) 1 \<longleftrightarrow> m (p + of_nat (i + 1)) = v"
    "match_byte (NOT (read_32 m (p + of_nat i) XOR repeat_byte_to_u32 v)) 2 \<longleftrightarrow> m (p + of_nat (i + 2)) = v"
    "match_byte (NOT (read_32 m (p + of_nat i) XOR repeat_byte_to_u32 v)) 3 \<longleftrightarrow> m (p + of_nat (i + 3)) = v"
    using b by simp_all
  show "do { w \<leftarrow> load_32 m (p + of_nat i);
      let bits_eq = NOT (w XOR repeat_byte_to_u32 v);
      if match_byte bits_eq 0 then Some (Some (p + of_nat i))
      else if match_byte bits_eq 1 then Some (Some (p + of_nat (i + 1)))
      else if match_byte bits_eq 2 then Some (Some (p + of_nat (i + 2)))
      else if match_byte bits_eq 3 then Some (Some (p + of_nat (i + 3)))
      else Some None } =
    scan (\<lambda>i. Some (if m (p + of_nat i) = v then Some (p + of_nat i) else None)) [i, i + 1, i + 2, i + 3]"
    unfolding l bind.bind_lunit Let_def e scan_find find.simps
    by (simp only: if_distrib [of "map_option (\<lambda>i. p + of_nat i)"] option.map if_distrib [of Some])
  show "do { w \<leftarrow> load_32 m (p + of_nat i);
      let bits_eq = NOT (w XOR repeat_byte_to_u32 v);
      if match_byte bits_eq 3 then Some (Some (p + of_nat (i + 3)))
      else if match_byte bits_eq 2 then Some (Some (p + of_nat (i + 2)))
      else if match_byte bits_eq 1 then Some (Some (p + of_nat (i + 1)))
      else if match_byte bits_eq 0 then Some (Some (p + of_nat i))
      else Some None } =
    scan (\<lambda>i. Some (if m (p + of_nat i) = v then Some (p + of_nat i) else None)) [i + 3, i + 2, i + 1, i]"
    unfolding l bind.bind_lunit Let_def e scan_find find.simps
    by (simp only: if_distrib [of "map_option (\<lambda>i. p + of_nat i)"] option.map if_distrib [of Some])
qed

lemma memchr_bytes:
  "memchr ptr val len m =
     Some (case find (\<lambda>i. m (ptr + of_nat i) = ucast val) [0..<unat len] of
       None \<Rightarrow> 0 | Some i \<Rightarrow> ptr + of_nat i)"
proof -
  let ?off = "compute_alignment ptr 0 len"
  let ?byte = "\<lambda>i. Some (if m (ptr + of_nat i) = (ucast val :: u8) then Some (ptr + of_nat i) else None)"
  note r = ranges [where left = ptr and right = 0 and len = len, OF refl]
  have "memchr ptr val len m = finish_search (scan ?byte
      (head_range ?off @ concat (map (\<lambda>i. [i, i + 1, i + 2, i + 3]) (body_range ?off)) @ tail_range ?off len))"
    unfolding memchr_def Let_def
    by (subst scan_parts [OF search_word(1) [OF r(2), unfolded Let_def]]) (assumption, rule refl)
  also have "\<dots> = finish_search (scan ?byte [0..<unat len])" by (simp only: r(1))
  finally show ?thesis
    by (simp add: scan_find finish_search_def split: option.split)
qed

lemma memrchr_bytes:
  "memrchr ptr val len m =
     Some (case find (\<lambda>i. m (ptr + of_nat i) = ucast val) (rev [0..<unat len]) of
       None \<Rightarrow> 0 | Some i \<Rightarrow> ptr + of_nat i)"
proof -
  let ?off = "compute_alignment ptr 0 len"
  let ?byte = "\<lambda>i. Some (if m (ptr + of_nat i) = (ucast val :: u8) then Some (ptr + of_nat i) else None)"
  note r = ranges [where left = ptr and right = 0 and len = len, OF refl]
  have w: "i \<in> set (rev (body_range ?off)) \<Longrightarrow> (ptr + of_nat i) mod 4 = 0" for i
    using r(2) by simp
  have "memrchr ptr val len m = finish_search (scan ?byte (rev (tail_range ?off len) @
      concat (map (\<lambda>i. [i + 3, i + 2, i + 1, i]) (rev (body_range ?off))) @ rev (head_range ?off)))"
    unfolding memrchr_def Let_def
    by (subst scan_parts [OF search_word(2) [OF w, unfolded Let_def]]) (assumption, rule refl)
  also have "\<dots> = finish_search (scan ?byte (rev [0..<unat len]))" by (simp only: rev_ranges [OF refl])
  finally show ?thesis
    by (simp add: scan_find finish_search_def split: option.split)
qed

section \<open>Copying and filling\<close>

lemma for_each_three:
  "Option.bind (for_each f xs m) (\<lambda>m. Option.bind (for_each g ys m) (\<lambda>m. Option.bind (for_each f zs m) R)) =
   Option.bind (Option.bind (for_each f xs m) (\<lambda>m. Option.bind (for_each g ys m) (for_each f zs))) R"
  by (simp add: Option.bind_assoc)

lemma for_each_parts:
  assumes "\<And>i s. i \<in> set ws \<Longrightarrow> word i s = for_each byte (spread i) s"
  shows "Option.bind (for_each byte hs s) (\<lambda>s. Option.bind (for_each word ws s) (for_each byte ts)) =
    for_each byte (hs @ concat (map spread ws) @ ts) s"
  unfolding for_each_append using for_each_concat [of ws word byte spread] assms
  by (simp cong: Option.bind_cong)

lemma for_each_store:
  "for_each (\<lambda>i m. Some (m(p + of_nat i := b i))) [0..<n] m = Some (store_bytes p (map b [0..<n]) m)"
proof (induction n)
  case 0
  then show ?case by simp
next
  case (Suc n)
  then show ?case by (simp add: for_each_append store_bytes_append)
qed

lemma for_each_copy:
  assumes "disjoint_ranges dest src n" "n \<le> 2 ^ 32"
  shows "k \<le> n \<Longrightarrow> for_each (\<lambda>i m. Some (m(dest + of_nat i := m (src + of_nat i)))) [0..<k] m =
     Some (store_bytes dest (mem_bytes m src k) m)"
proof (induction k)
  case 0
  then show ?case by simp
next
  case (Suc k)
  have "src + of_nat k - dest \<noteq> of_nat i" if "i < k" for i
  proof
    assume "src + of_nat k - dest = of_nat i"
    then have "src + of_nat k = dest + of_nat i" by (metis add.commute diff_add_cancel)
    moreover from that Suc.prems have "i < n" "k < n" by simp_all
    ultimately show False using assms(1) unfolding disjoint_ranges_def by metis
  qed
  moreover have "src + of_nat k - dest = of_nat (unat (src + of_nat k - dest))" by simp
  ultimately have "\<not> unat (src + of_nat k - dest) < k" by metis
  then have src_k: "store_bytes dest (mem_bytes m src k) m (src + of_nat k) = m (src + of_nat k)"
    using Suc.prems assms(2) by (simp add: store_bytes_apply)
  have bytes: "mem_bytes m src (Suc k) = mem_bytes m src k @ [m (src + of_nat k)]"
    by (simp add: mem_bytes_def)
  show ?case
    using Suc unfolding bytes
    by (simp add: for_each_append store_bytes_append src_k cong: if_cong)
qed

lemma store_word_bytes:
  assumes "(dest + of_nat i) mod 4 = 0"
  shows "store_32 (repeat_byte_to_u32 v) (dest + of_nat i) m =
    for_each (\<lambda>i m. Some (m(dest + of_nat i := v))) [i, i + 1, i + 2, i + 3] m"
  using assms by (simp add: store_32_def write_32_store repeat_byte_bytes algebra_simps)

lemma copy_word_bytes:
  assumes "(dest + of_nat i) mod 4 = 0" "(src + of_nat i) mod 4 = 0"
    and "disjoint_ranges dest src n" "i + 4 \<le> n"
  shows "do { word \<leftarrow> load_32 m (src + of_nat i); store_32 word (dest + of_nat i) m } =
    for_each (\<lambda>i m. Some (m(dest + of_nat i := m (src + of_nat i)))) [i, i + 1, i + 2, i + 3] m"
proof -
  have ne: "src + of_nat (i + j) \<noteq> dest + of_nat (i + k)" if "j < 4" "k < 4" for j k
  proof -
    from assms(4) that have "i + j < n" "i + k < n" by simp_all
    with assms(3) show ?thesis unfolding disjoint_ranges_def by metis
  qed
  show ?thesis
    using assms(1,2) ne [of 1 0] ne [of 2 0] ne [of 2 1] ne [of 3 0] ne [of 3 1] ne [of 3 2]
    by (simp add: load_32_def store_32_def write_32_def byte_of_read_32 algebra_simps)
qed

lemma memset_bytes:
  "memset dest val len m =
     Some (dest, store_bytes dest (replicate (unat len) (ucast val)) m)"
proof -
  let ?off = "compute_alignment dest 0 len"
  let ?byte = "\<lambda>i m. Some (m(dest + of_nat i := ucast val :: u8))"
  note r = ranges [where left = dest and right = 0 and len = len, OF refl]
  have "memset dest val len m = Option.bind (for_each ?byte
      (head_range ?off @ concat (map (\<lambda>i. [i, i + 1, i + 2, i + 3]) (body_range ?off)) @ tail_range ?off len) m)
      (\<lambda>m. Some (dest, m))"
    unfolding memset_def Let_def for_each_three
    by (subst for_each_parts [OF store_word_bytes [OF r(2)]]) (assumption, rule refl)
  also have "\<dots> = Option.bind (for_each ?byte [0..<unat len] m) (\<lambda>m. Some (dest, m))"
    by (simp only: r(1))
  finally show ?thesis
    by (simp add: for_each_store map_replicate_const)
qed

lemma memcpy_bytes:
  assumes "dest \<noteq> 0" "src \<noteq> 0" "disjoint_ranges dest src (unat len)"
  shows "memcpy dest src len m = Some (dest, store_bytes dest (mem_bytes m src (unat len)) m)"
proof -
  let ?off = "compute_alignment dest src len"
  let ?byte = "\<lambda>i m. Some (m(dest + of_nat i := m (src + of_nat i :: u32) :: u8))"
  note r = ranges [where left = dest and right = src and len = len, OF refl]
  have "memcpy dest src len m = Option.bind (for_each ?byte
      (head_range ?off @ concat (map (\<lambda>i. [i, i + 1, i + 2, i + 3]) (body_range ?off)) @ tail_range ?off len) m)
      (\<lambda>m. Some (dest, m))"
    unfolding memcpy_def Let_def for_each_three if_not_P [OF assms(1)] using assms(1,2)
    by (subst for_each_parts [OF copy_word_bytes [OF r(2) r(3) [OF _ assms(2)] assms(3) r(4)]])
      (assumption | simp)+
  also have "\<dots> = Option.bind (for_each ?byte [0..<unat len] m) (\<lambda>m. Some (dest, m))"
    by (simp only: r(1))
  also have "for_each ?byte [0..<unat len] m = Some (store_bytes dest (mem_bytes m src (unat len)) m)"
  proof (rule for_each_copy [OF assms(3)])
    show "unat len \<le> 2 ^ 32" using unsigned_less [of len, where 'a = nat] by simp
  qed simp
  finally show ?thesis by simp
qed

lemma compare_bytes_eq_iff:
  "length as = length bs \<Longrightarrow> compare_bytes as bs = kMemCmpEq \<longleftrightarrow> as = bs"
  by (induction as bs rule: compare_bytes.induct)
    (auto simp: kMemCmpEq_def kMemCmpLt_def kMemCmpGt_def)

text \<open>
  Nowhere beyond the range does a store of at most the whole memory change a byte; inside, each
  byte is the stored one.
\<close>

lemma stored_range:
  assumes "length bs = n" "n \<le> 2 ^ 32"
  shows "mem_bytes (store_bytes p bs m) p n = bs"
    and "\<forall>a. n \<le> unat (a - p) \<longrightarrow> store_bytes p bs m a = m a"
  using assms mem_bytes_store_same [of bs p m] by (auto simp: store_bytes_apply)

lemma unat_u32_le: "unat (len :: u32) \<le> 2 ^ 32"
  using unsigned_less [of len, where 'a = nat] by simp

section \<open>Properties\<close>

text \<open>
  C23: Copying between ranges that do not overlap returns the destination, puts the bytes of the
  source there and changes no other byte, whatever the alignment of the two pointers; no word
  access is misaligned.
\<close>

theorem memcpy_copies:
  assumes "dest \<noteq> 0" "src \<noteq> 0" "disjoint_ranges dest src (unat len)"
  shows "\<exists>m'. memcpy dest src len m = Some (dest, m') \<and>
    mem_bytes m' dest (unat len) = mem_bytes m src (unat len) \<and>
    (\<forall>a. unat len \<le> unat (a - dest) \<longrightarrow> m' a = m a)"
  using stored_range [OF length_mem_bytes [of m src "unat len"] unat_u32_le, of dest]
  by (simp add: memcpy_bytes [OF assms])

theorem memcpy_copies_witness:
  "\<exists>m'. memcpy 0x1001 0x2002 7 (\<lambda>a. ucast a) = Some (0x1001, m') \<and>
    mem_bytes m' 0x1001 (unat (7 :: u32)) = mem_bytes (\<lambda>a. ucast a) 0x2002 (unat (7 :: u32)) \<and>
    (\<forall>a. unat (7 :: u32) \<le> unat (a - 0x1001) \<longrightarrow> m' a = ucast a)"
proof -
  have "disjoint_ranges 0x1001 0x2002 (unat (7 :: u32))"
    unfolding disjoint_ranges_def
  proof (intro allI impI)
    fix i j assume "i < unat (7 :: u32)" "j < unat (7 :: u32)"
    then have "i \<in> {0, 1, 2, 3, 4, 5, 6}" "j \<in> {0, 1, 2, 3, 4, 5, 6}" by auto
    then show "0x1001 + of_nat i \<noteq> (0x2002 + of_nat j :: u32)"
      by (elim insertE) simp_all
  qed
  then show ?thesis
    by (intro memcpy_copies) simp_all
qed

text \<open>
  Filling returns the destination, sets every byte of the range to the low byte of the value
  and changes no other byte; no word access is misaligned.
\<close>

lemma memset_fills:
  "\<exists>m'. memset dest val len m = Some (dest, m') \<and>
    mem_bytes m' dest (unat len) = replicate (unat len) (ucast val) \<and>
    (\<forall>a. unat (a - dest) < unat len \<or> m' a = m a)"
  using stored_range [OF length_replicate [of "unat len" "ucast val"] unat_u32_le, of dest m]
  by (auto simp: memset_bytes not_le [symmetric])

text \<open>
  C24: Comparing word by word with swapped bytes is comparing byte by byte: \<open>memcmp\<close> is the
  lexicographic order from the first byte on and \<open>memrcmp\<close> the one from the last byte back, and
  both say equal for equal ranges only.
\<close>

theorem memcmp_lexicographic:
  assumes "rhs \<noteq> 0"
  shows "memcmp lhs rhs len m =
      Some (compare_bytes (mem_bytes m lhs (unat len)) (mem_bytes m rhs (unat len))) \<and>
    memrcmp lhs rhs len m =
      Some (compare_bytes (rev (mem_bytes m lhs (unat len))) (rev (mem_bytes m rhs (unat len)))) \<and>
    (memcmp lhs rhs len m = Some kMemCmpEq \<longleftrightarrow>
      mem_bytes m lhs (unat len) = mem_bytes m rhs (unat len))"
  by (simp add: memcmp_bytes [OF assms] memrcmp_bytes [OF assms] compare_bytes_eq_iff)

theorem memcmp_lexicographic_witness:
  "memcmp 0x1000 0x2000 4 (\<lambda>a. if a = 0x1000 \<or> a = 0x2003 then 1 else 0) = Some kMemCmpGt \<and>
   memrcmp 0x1000 0x2000 4 (\<lambda>a. if a = 0x1000 \<or> a = 0x2003 then 1 else 0) = Some kMemCmpLt"
  using memcmp_lexicographic [where rhs = "0x2000" and lhs = "0x1000" and len = 4 and
      m = "\<lambda>a. if a = 0x1000 \<or> a = 0x2003 then 1 else 0"]
  by (simp add: mem_bytes_def upt_conv_Cons)

text \<open>
  Searching by words with the complemented exclusive or finds the first occurrence of the
  byte with \<open>memchr\<close> and the last one with \<open>memrchr\<close>, and \<open>NULL\<close> when there is none.
\<close>

lemma memchr_finds:
  "memchr ptr val len m =
     Some (case find (\<lambda>i. m (ptr + of_nat i) = ucast val) [0..<unat len] of
       None \<Rightarrow> 0 | Some i \<Rightarrow> ptr + of_nat i) \<and>
   memrchr ptr val len m =
     Some (case find (\<lambda>i. m (ptr + of_nat i) = ucast val) (rev [0..<unat len]) of
       None \<Rightarrow> 0 | Some i \<Rightarrow> ptr + of_nat i)"
  by (simp only: memchr_bytes memrchr_bytes simp_thms)

end
