(* ===== verification/Bitfield.thy ===== *)
theory Bitfield
  imports Prelude
begin

unbundle bit_operations_syntax

text \<open>
  Fields and single bits of 32-bit register values, after the inline functions of
  \<open>sw/device/lib/base/bitfield.h\<close>, and the lemmas that say what a field reads after a write to
  it or to a field elsewhere in the word.
\<close>

record bitfield_field32 =
  fmask :: u32 \<comment> \<open>\<open>mask\<close>\<close>
  findex :: nat \<comment> \<open>\<open>index\<close>\<close>

definition bitfield_field32_read :: "u32 \<Rightarrow> bitfield_field32 \<Rightarrow> u32" where
  "bitfield_field32_read bitfield field = drop_bit (findex field) bitfield AND fmask field"

definition bitfield_field32_write :: "u32 \<Rightarrow> bitfield_field32 \<Rightarrow> u32 \<Rightarrow> u32" where
  "bitfield_field32_write bitfield field v =
     (bitfield AND NOT (push_bit (findex field) (fmask field)))
       OR push_bit (findex field) (v AND fmask field)"

definition bitfield_bit32_to_field32 :: "nat \<Rightarrow> bitfield_field32" where
  "bitfield_bit32_to_field32 bit_index = \<lparr>fmask = 0x1, findex = bit_index\<rparr>"

definition bitfield_bit32_read :: "u32 \<Rightarrow> nat \<Rightarrow> bool" where
  "bitfield_bit32_read bitfield bit_index \<longleftrightarrow>
     bitfield_field32_read bitfield (bitfield_bit32_to_field32 bit_index) = 0x1"

definition bitfield_bit32_write :: "u32 \<Rightarrow> nat \<Rightarrow> bool \<Rightarrow> u32" where
  "bitfield_bit32_write bitfield bit_index v =
     bitfield_field32_write bitfield (bitfield_bit32_to_field32 bit_index) (if v then 0x1 else 0x0)"

definition bitfield_bit32_copy :: "u32 \<Rightarrow> nat \<Rightarrow> u32 \<Rightarrow> nat \<Rightarrow> u32" where
  "bitfield_bit32_copy dest dest_bit src src_bit =
     bitfield_bit32_write dest dest_bit (bitfield_bit32_read src src_bit)"

text \<open>\<open>__builtin_ctz\<close> and \<open>__builtin_bswap32\<close> on the words they are defined for.\<close>

definition bitfield_count_trailing_zeroes32 :: "u32 \<Rightarrow> nat" where
  "bitfield_count_trailing_zeroes32 bitfield =
     (if bitfield \<noteq> 0 then length (takeWhile (\<lambda>n. \<not> bit bitfield n) [0..<32]) else 32)"

definition bitfield_byteswap32 :: "u32 \<Rightarrow> u32" where
  "bitfield_byteswap32 w = bytes_word (byte_of w 3) (byte_of w 2) (byte_of w 1) (byte_of w 0)"

definition bitfield_is_power_of_two32 :: "u32 \<Rightarrow> bool" where
  "bitfield_is_power_of_two32 bitfield \<longleftrightarrow> bitfield \<noteq> 0 \<and> bitfield AND (bitfield - 1) = 0"

section \<open>Bits of a field\<close>

lemma bit_1_u32 [simp]: "bit (1 :: u32) n \<longleftrightarrow> n = 0"
  by (simp add: bit_1_iff)

lemma bitfield_bit32_read_bit: "bitfield_bit32_read w n \<longleftrightarrow> bit w n"
proof -
  have "drop_bit n w AND 1 = (if bit w n then 1 else 0)"
    by (rule bit_word_eqI) (auto simp: bit_and_iff bit_drop_bit_eq intro: gr0I)
  then show ?thesis
    by (simp add: bitfield_bit32_read_def bitfield_field32_read_def bitfield_bit32_to_field32_def)
qed

lemma bit_bitfield_bit32_write:
  "i < 32 \<Longrightarrow> bit (bitfield_bit32_write w i v) n \<longleftrightarrow> (if n = i then v else bit w n)"
  by (auto simp: bitfield_bit32_write_def bitfield_field32_write_def bitfield_bit32_to_field32_def
      bit_or_iff bit_and_iff bit_not_iff bit_push_bit_iff bit_exp_iff dest: bit_imp_le_length)

lemma bitfield_bit32_read_write:
  "i < 32 \<Longrightarrow> bitfield_bit32_read (bitfield_bit32_write w i v) n \<longleftrightarrow>
     (if n = i then v else bitfield_bit32_read w n)"
  by (simp add: bitfield_bit32_read_bit bit_bitfield_bit32_write)

lemma bit_bitfield_field32_write:
  "bit (bitfield_field32_write w f v) n \<longleftrightarrow>
     (if findex f \<le> n \<and> n < 32 \<and> bit (fmask f) (n - findex f) then bit v (n - findex f) else bit w n)"
  by (auto simp: bitfield_field32_write_def bit_or_iff bit_and_iff bit_not_iff bit_push_bit_iff
      dest: bit_imp_le_length)

lemma bitfield_field32_read_write:
  assumes "\<And>k. bit (fmask f) k \<Longrightarrow> findex f + k < 32"
  shows "bitfield_field32_read (bitfield_field32_write w f v) f = v AND fmask f"
  by (rule bit_word_eqI)
    (auto simp: bitfield_field32_read_def bit_and_iff bit_drop_bit_eq bit_bitfield_field32_write
      dest: assms)

end
