(* ===== verification/Rom_Uart.thy ===== *)
theory Rom_Uart
  imports Bitfield Mmio
begin

unbundle bit_operations_syntax

text \<open>
  The UART driver of \<open>sw/device/silicon_creator/lib/drivers/uart.c\<close>. The register offsets and
  bit positions come from a header the build generates, the base address from generated device
  tables and the cycle counter from CSRs, so they are fields of the hardware record the driver
  takes. Waiting loops are partial: \<open>None\<close> is a call that does not return, because a loop never
  ends, a hardened check traps, or a shift is undefined.

  The locale \<open>serial_line\<close> is what the code above the driver relies on: a byte sent is appended
  to the output and a read of available bytes takes them from the input.
\<close>

section \<open>The driver\<close>

record 'd rom_hw =
  rom_bus :: "'d bus"
  uart_reg_base :: u32
  ibex_mcycle :: "'d \<Rightarrow> u64 \<times> 'd"
  ibex_time_to_cycles :: "u64 \<Rightarrow> u64"
  UART_CTRL_REG_OFFSET :: u32
  UART_STATUS_REG_OFFSET :: u32
  UART_RDATA_REG_OFFSET :: u32
  UART_WDATA_REG_OFFSET :: u32
  UART_FIFO_CTRL_REG_OFFSET :: u32
  UART_OVRD_REG_OFFSET :: u32
  UART_VAL_REG_OFFSET :: u32
  UART_TIMEOUT_CTRL_REG_OFFSET :: u32
  UART_INTR_ENABLE_REG_OFFSET :: u32
  UART_INTR_STATE_REG_OFFSET :: u32
  UART_FIFO_CTRL_RXRST_BIT :: nat
  UART_FIFO_CTRL_TXRST_BIT :: nat
  UART_CTRL_NCO_FIELD :: bitfield_field32
  UART_CTRL_TX_BIT :: nat
  UART_CTRL_RX_BIT :: nat
  UART_CTRL_PARITY_EN_BIT :: nat
  UART_STATUS_TXFULL_BIT :: nat
  UART_STATUS_RXEMPTY_BIT :: nat
  UART_STATUS_TXIDLE_BIT :: nat
  UART_WDATA_WDATA_FIELD :: bitfield_field32

definition uart_reg :: "('d, 'm) rom_hw_scheme \<Rightarrow> u32 \<Rightarrow> 'd \<Rightarrow> u32 \<times> 'd" where
  "uart_reg H off d = bus_read (rom_bus H) (uart_reg_base H + off) d"

definition uart_reg_write :: "('d, 'm) rom_hw_scheme \<Rightarrow> u32 \<Rightarrow> u32 \<Rightarrow> 'd \<Rightarrow> 'd" where
  "uart_reg_write H off v d = bus_write (rom_bus H) (uart_reg_base H + off) v d"

definition rom_uart_reset :: "('d, 'm) rom_hw_scheme \<Rightarrow> 'd \<Rightarrow> 'd" where
  "rom_uart_reset H d =
     (let d = uart_reg_write H (UART_CTRL_REG_OFFSET H) 0 d;
          reg = bitfield_bit32_write 0 (UART_FIFO_CTRL_RXRST_BIT H) True;
          reg = bitfield_bit32_write reg (UART_FIFO_CTRL_TXRST_BIT H) True;
          d = uart_reg_write H (UART_FIFO_CTRL_REG_OFFSET H) reg d;
          d = uart_reg_write H (UART_OVRD_REG_OFFSET H) 0 d;
          d = uart_reg_write H (UART_TIMEOUT_CTRL_REG_OFFSET H) 0 d;
          d = uart_reg_write H (UART_INTR_ENABLE_REG_OFFSET H) 0 d
      in uart_reg_write H (UART_INTR_STATE_REG_OFFSET H) 0xFFFFFFFF d)"

definition rom_uart_init :: "('d, 'm) rom_hw_scheme \<Rightarrow> u32 \<Rightarrow> 'd \<Rightarrow> 'd" where
  "rom_uart_init H precalculated_nco d =
     (let d = rom_uart_reset H d;
          reg = bitfield_field32_write 0 (UART_CTRL_NCO_FIELD H) precalculated_nco;
          reg = bitfield_bit32_write reg (UART_CTRL_TX_BIT H) True;
          reg = bitfield_bit32_write reg (UART_CTRL_PARITY_EN_BIT H) False;
          d = uart_reg_write H (UART_CTRL_REG_OFFSET H) reg d
      in uart_reg_write H (UART_INTR_ENABLE_REG_OFFSET H) 0 d)"

definition rom_uart_enable_receiver :: "('d, 'm) rom_hw_scheme \<Rightarrow> 'd \<Rightarrow> 'd" where
  "rom_uart_enable_receiver H d =
     (case uart_reg H (UART_CTRL_REG_OFFSET H) d of (reg, d) \<Rightarrow>
        uart_reg_write H (UART_CTRL_REG_OFFSET H)
          (bitfield_bit32_write reg (UART_CTRL_RX_BIT H) True) d)"

definition rom_uart_tx_full :: "('d, 'm) rom_hw_scheme \<Rightarrow> u32 \<Rightarrow> bool" where
  "rom_uart_tx_full H reg = bitfield_bit32_read reg (UART_STATUS_TXFULL_BIT H)"

definition rom_uart_rx_empty :: "('d, 'm) rom_hw_scheme \<Rightarrow> 'd \<Rightarrow> bool \<times> 'd" where
  "rom_uart_rx_empty H d =
     (case uart_reg H (UART_STATUS_REG_OFFSET H) d of (reg, d) \<Rightarrow>
        (bitfield_bit32_read reg (UART_STATUS_RXEMPTY_BIT H), d))"

definition rom_uart_tx_idle :: "('d, 'm) rom_hw_scheme \<Rightarrow> u32 \<Rightarrow> bool" where
  "rom_uart_tx_idle H reg = bitfield_bit32_read reg (UART_STATUS_TXIDLE_BIT H)"

definition putchar_nonblocking :: "('d, 'm) rom_hw_scheme \<Rightarrow> u8 \<Rightarrow> 'd \<Rightarrow> 'd option" where
  "putchar_nonblocking H byte d = do {
     (_, d) \<leftarrow> poll (rom_bus H) (uart_reg_base H + UART_STATUS_REG_OFFSET H) (rom_uart_tx_full H) d;
     let reg = bitfield_field32_write 0 (UART_WDATA_WDATA_FIELD H) (ucast byte);
     Some (uart_reg_write H (UART_WDATA_REG_OFFSET H) reg d) }"

definition rom_uart_putchar :: "('d, 'm) rom_hw_scheme \<Rightarrow> u8 \<Rightarrow> 'd \<Rightarrow> 'd option" where
  "rom_uart_putchar H byte d = do {
     d \<leftarrow> putchar_nonblocking H byte d;
     (_, d) \<leftarrow> poll (rom_bus H) (uart_reg_base H + UART_STATUS_REG_OFFSET H)
                 (\<lambda>reg. \<not> rom_uart_tx_idle H reg) d;
     Some d }"

fun rom_uart_write :: "('d, 'm) rom_hw_scheme \<Rightarrow> u8 list \<Rightarrow> 'd \<Rightarrow> 'd option" where
  "rom_uart_write H [] d = Some d"
| "rom_uart_write H (c # cs) d = do { d \<leftarrow> rom_uart_putchar H c d; rom_uart_write H cs d }"

lemma unat_drop_byte_less: "imm \<noteq> 0 \<Longrightarrow> unat (drop_bit 8 imm) < unat imm" for imm :: "'a::len word"
  unfolding unat_drop_bit_eq by (simp add: drop_bit_eq_div unat_gt_0)

function rom_uart_write_imm :: "('d, 'm) rom_hw_scheme \<Rightarrow> u64 \<Rightarrow> 'd \<Rightarrow> 'd option" where
  "rom_uart_write_imm H imm d =
     (if imm = 0 then Some d
      else do {
        d \<leftarrow> putchar_nonblocking H (ucast (imm AND 0xFF)) d;
        rom_uart_write_imm H (drop_bit 8 imm) d })"
  by pat_completeness auto
termination
  by (relation "measure (\<lambda>(H, imm, d). unat imm)") (auto intro: unat_drop_byte_less simp del: drop_bit_word_numeral)

definition rom_hex_table :: "u8 list" where
  "rom_hex_table = [0x30, 0x31, 0x32, 0x33, 0x34, 0x35, 0x36, 0x37, 0x38, 0x39,
     0x61, 0x62, 0x63, 0x64, 0x65, 0x66]"

fun write_hex_digits :: "('d, 'm) rom_hw_scheme \<Rightarrow> u32 \<Rightarrow> nat \<Rightarrow> 'd \<Rightarrow> 'd option" where
  "write_hex_digits H val 0 d = Some d"
| "write_hex_digits H val (Suc k) d = do {
     d \<leftarrow> putchar_nonblocking H (rom_hex_table ! unat (drop_bit (4 * k) val AND 0xF)) d;
     write_hex_digits H val k d }"

text \<open>For \<open>len = 0\<close> the loop's index wraps below zero and the shift is undefined.\<close>

definition rom_uart_write_hex :: "('d, 'm) rom_hw_scheme \<Rightarrow> u32 \<Rightarrow> u32 \<Rightarrow> u32 \<Rightarrow> 'd \<Rightarrow> 'd option" where
  "rom_uart_write_hex H val len after d =
     (if len > 4 \<or> len = 0 then None
      else do {
        d \<leftarrow> write_hex_digits H val (2 * unat len) d;
        rom_uart_write_imm H (ucast after) d })"

text \<open>Waiting for a byte: \<open>True\<close> when one is there, \<open>False\<close> past the deadline.\<close>

partial_function (option) rx_wait ::
  "('d, 'm) rom_hw_scheme \<Rightarrow> u64 \<Rightarrow> 'd \<Rightarrow> (bool \<times> 'd) option" where
  "rx_wait H deadline d =
     (case rom_uart_rx_empty H d of (is_empty, d) \<Rightarrow>
        if \<not> is_empty then Some (True, d)
        else case ibex_mcycle H d of (time, d) \<Rightarrow>
          if time > deadline then Some (False, d) else rx_wait H deadline d)"

fun rx_bytes :: "('d, 'm) rom_hw_scheme \<Rightarrow> u64 \<Rightarrow> nat \<Rightarrow> 'd \<Rightarrow> (u8 list \<times> 'd) option" where
  "rx_bytes H deadline 0 d = Some ([], d)"
| "rx_bytes H deadline (Suc n) d = do {
     (ready, d) \<leftarrow> rx_wait H deadline d;
     if \<not> ready then Some ([], d)
     else do {
       let (reg, d) = uart_reg H (UART_RDATA_REG_OFFSET H) d;
       (bs, d) \<leftarrow> rx_bytes H deadline n d;
       Some (ucast reg # bs, d) } }"

text \<open>The bytes received; their number is the function's result.\<close>

definition rom_uart_read :: "('d, 'm) rom_hw_scheme \<Rightarrow> u32 \<Rightarrow> u32 \<Rightarrow> 'd \<Rightarrow> (u8 list \<times> 'd) option" where
  "rom_uart_read H len timeout_ms d =
     (case ibex_mcycle H d of (time, d) \<Rightarrow>
        let deadline = if timeout_ms = 0xFFFFFFFF then 0xFFFFFFFFFFFFFFFF
                       else time + ibex_time_to_cycles H (ucast (timeout_ms * 1000))
        in rx_bytes H deadline (unat len) d)"

definition rom_uart_getchar :: "('d, 'm) rom_hw_scheme \<Rightarrow> u32 \<Rightarrow> 'd \<Rightarrow> (int \<times> 'd) option" where
  "rom_uart_getchar H timeout_ms d = do {
     (bs, d) \<leftarrow> rom_uart_read H 1 timeout_ms d;
     Some (if bs \<noteq> [] then uint (hd bs) else -1, d) }"

partial_function (option) break_loop ::
  "('d, 'm) rom_hw_scheme \<Rightarrow> u64 \<Rightarrow> u64 \<Rightarrow> 'd \<Rightarrow> (bool \<times> 'd) option" where
  "break_loop H deadline time d =
     (if time < deadline then
        case uart_reg H (UART_VAL_REG_OFFSET H) d of (val, d) \<Rightarrow>
          if val \<noteq> 0 then Some (False, d)
          else case ibex_mcycle H d of (time, d) \<Rightarrow> break_loop H deadline time d
      else Some (True, d))"

definition rom_uart_break_detect :: "('d, 'm) rom_hw_scheme \<Rightarrow> u32 \<Rightarrow> 'd \<Rightarrow> (bool \<times> 'd) option" where
  "rom_uart_break_detect H timeout_us d =
     (case ibex_mcycle H d of (time, d) \<Rightarrow>
        break_loop H (time + ibex_time_to_cycles H (ucast timeout_us)) time d)"

definition rom_uart_sink :: "('d, 'm) rom_hw_scheme \<Rightarrow> u8 list \<Rightarrow> 'd \<Rightarrow> (u32 \<times> 'd) option" where
  "rom_uart_sink H data d = do {
     d \<leftarrow> rom_uart_write H data d;
     Some (of_nat (length data), d) }"

section \<open>What the code above relies on\<close>

lemma rom_uart_write_append:
  "rom_uart_write H (xs @ ys) d = Option.bind (rom_uart_write H xs d) (rom_uart_write H ys)"
  by (induction xs arbitrary: d) (simp_all add: Option.bind_assoc cong: Option.bind_cong)

lemma rom_uart_write_single: "rom_uart_putchar H c d = rom_uart_write H [c] d"
  by (cases "rom_uart_putchar H c d") simp_all

lemma length_rx_bytes: "rx_bytes H deadline n d = Some (bs, d') \<Longrightarrow> length bs \<le> n"
  by (induction n arbitrary: d bs d')
    (auto split: bind_split_asm prod.split_asm if_split_asm)

lemma length_rom_uart_read: "rom_uart_read H len t d = Some (bs, d') \<Longrightarrow> length bs \<le> unat len"
  by (auto simp: rom_uart_read_def Let_def split: prod.split_asm dest: length_rx_bytes)

locale serial_line =
  fixes H :: "('d, 'm) rom_hw_scheme"
    and ready :: "'d \<Rightarrow> bool"
    and rx :: "'d \<Rightarrow> u8 list" \<comment> \<open>bytes the driver can read\<close>
    and tx :: "'d \<Rightarrow> u8 list" \<comment> \<open>bytes sent\<close>
    and rest :: "'d \<Rightarrow> 'r" \<comment> \<open>what the line does not touch\<close>
  assumes send: "ready s \<Longrightarrow> \<exists>s'. rom_uart_putchar H c s = Some s' \<and> ready s' \<and>
       rx s' = rx s \<and> tx s' = tx s @ [c] \<and> rest s' = rest s"
    and recv: "ready s \<Longrightarrow> unat n \<le> length (rx s) \<Longrightarrow>
       \<exists>s'. rom_uart_read H n t s = Some (take (unat n) (rx s), s') \<and> ready s' \<and>
         rx s' = drop (unat n) (rx s) \<and> tx s' = tx s \<and> rest s' = rest s"
begin

lemma send_all:
  "ready s \<Longrightarrow> \<exists>s'. rom_uart_write H cs s = Some s' \<and> ready s' \<and>
     rx s' = rx s \<and> tx s' = tx s @ cs \<and> rest s' = rest s"
proof (induction cs arbitrary: s)
  case Nil
  then show ?case by simp
next
  case (Cons c cs)
  from send [OF Cons.prems, of c] obtain s1 where s1: "rom_uart_putchar H c s = Some s1" "ready s1"
    "rx s1 = rx s" "tx s1 = tx s @ [c]" "rest s1 = rest s" by blast
  from Cons.IH [OF s1(2)] s1 show ?case by auto
qed

end

end
