(* ===== verification/Dbg_Print.thy ===== *)
theory Dbg_Print
  imports Rom_Uart
begin

unbundle bit_operations_syntax

text \<open>
  The console output of \<open>sw/device/silicon_creator/lib/dbg_print.c\<close>. A call's variable arguments
  are a list of words and strings; a conversion that finds none or one of the other kind is
  undefined behaviour, \<open>None\<close>. The registers \<open>dbg_print_epmp\<close> reads are its arguments.
\<close>

section \<open>Numbers\<close>

lemma unat_div_10: "unat (v div 10) = unat v div 10" for v :: u32
  by (simp add: unat_div)

text \<open>The digits \<open>print_integer\<close> puts in front of what its buffer holds.\<close>

function integer_digits :: "u32 \<Rightarrow> u8 list \<Rightarrow> u8 list" where
  "integer_digits value b =
     (let b = (0x30 + ucast (value mod 10)) # b; value = value div 10
      in if value \<noteq> 0 then integer_digits value b else b)"
  by pat_completeness auto

termination
  by (relation "measure (\<lambda>(v, b). unat v)")
    (auto simp: unat_div_10 unat_gt_0 intro!: div_less_dividend)

declare integer_digits.simps [simp del]

text \<open>Negating the least integer overflows, which C leaves undefined.\<close>

definition print_integer :: "('d, 'm) rom_hw_scheme \<Rightarrow> u32 \<Rightarrow> bool \<Rightarrow> 'd \<Rightarrow> 'd option" where
  "print_integer H value is_signed d =
     (if is_signed \<and> value = 0x80000000 then None
      else if is_signed \<and> value <s 0 then do {
        d \<leftarrow> rom_uart_putchar H 0x2D d;
        rom_uart_write H (integer_digits (- value) []) d }
      else rom_uart_write H (integer_digits value []) d)"

definition dbg_puts :: "('d, 'm) rom_hw_scheme \<Rightarrow> u8 list \<Rightarrow> 'd \<Rightarrow> 'd option" where
  "dbg_puts H str d = rom_uart_write H (takeWhile (\<lambda>c. c \<noteq> 0) str) d"

section \<open>Formatted output\<close>

datatype dbg_arg = Word u32 | Chars "u8 list"

fun dbg_packed_chars :: "('d, 'm) rom_hw_scheme \<Rightarrow> nat \<Rightarrow> u32 \<Rightarrow> 'd \<Rightarrow> 'd option" where
  "dbg_packed_chars H 0 val d = Some d"
| "dbg_packed_chars H (Suc n) val d = do {
     let ch = (ucast val :: u8);
     d \<leftarrow> (if 32 \<le> ch \<and> ch < 127 then rom_uart_putchar H ch d
           else do {
             d \<leftarrow> rom_uart_putchar H 0x5C d;
             d \<leftarrow> rom_uart_putchar H 0x78 d;
             d \<leftarrow> rom_uart_putchar H (rom_hex_table ! unat (drop_bit 4 ch)) d;
             rom_uart_putchar H (rom_hex_table ! unat (ch AND 15)) d });
     dbg_packed_chars H n (drop_bit 8 val) d }"

fun dbg_hex_loop :: "('d, 'm) rom_hw_scheme \<Rightarrow> nat \<Rightarrow> u32 \<Rightarrow> 'd \<Rightarrow> 'd option" where
  "dbg_hex_loop H 0 v d = Some d"
| "dbg_hex_loop H (Suc n) v d = do {
     d \<leftarrow> rom_uart_putchar H (rom_hex_table ! unat (drop_bit 28 v)) d;
     dbg_hex_loop H n (push_bit 4 v) d }"

text \<open>
  One conversion. The flag is \<open>False\<close> for an invalid specifier: a percent sign is printed and the
  specifier is read again as an ordinary character.
\<close>

definition dbg_conversion ::
  "('d, 'm) rom_hw_scheme \<Rightarrow> u8 \<Rightarrow> dbg_arg list \<Rightarrow> 'd \<Rightarrow> (bool \<times> dbg_arg list \<times> 'd) option" where
  "dbg_conversion H c args d =
     (let words = (\<lambda>f. case args of Word w # args \<Rightarrow> map_option (\<lambda>d. (True, args, d)) (f w)
                                  | _ \<Rightarrow> None)
      in if c = 0x25 then map_option (\<lambda>d. (True, args, d)) (rom_uart_putchar H c d)
         else if c = 0x63 then words (\<lambda>ch. rom_uart_putchar H (ucast ch) d)
         else if c = 0x43 then words (\<lambda>val. dbg_packed_chars H 4 val d)
         else if c = 0x73 then
           (case args of Chars str # args \<Rightarrow>
               map_option (\<lambda>d. (True, args, d)) (rom_uart_write H (takeWhile (\<lambda>c. c \<noteq> 0) str) d)
             | _ \<Rightarrow> None)
         else if c = 0x64 then words (\<lambda>w. print_integer H w True d)
         else if c = 0x75 then words (\<lambda>w. print_integer H w False d)
         else if c = 0x70 \<or> c = 0x78 then words (\<lambda>v. dbg_hex_loop H 8 v d)
         else map_option (\<lambda>d. (False, args, d)) (rom_uart_putchar H 0x25 d))"

fun dbg_printf ::
  "('d, 'm) rom_hw_scheme \<Rightarrow> u8 list \<Rightarrow> dbg_arg list \<Rightarrow> 'd \<Rightarrow> 'd option" where
  "dbg_printf H [] args d = Some d"
| "dbg_printf H [c] args d = rom_uart_putchar H c d"
| "dbg_printf H (c # s # format) args d =
     (if c \<noteq> 0x25 then do { d \<leftarrow> rom_uart_putchar H c d; dbg_printf H (s # format) args d }
      else do {
        (valid, args, d) \<leftarrow> dbg_conversion H s args d;
        dbg_printf H (if valid then format else s # format) args d })"

definition crlf_bytes :: "u8 list" where "crlf_bytes = [0x0D, 0x0A]"

section \<open>Memory and protection dumps\<close>

text \<open>The digits and the printable image of up to 16 bytes, in their blank buffers.\<close>

definition hexdump_hexbuf :: "u8 list \<Rightarrow> u8 list" where
  "hexdump_hexbuf vals =
     fold (\<lambda>(i, val) hexbuf. hexbuf[3 * i := rom_hex_table ! unat (drop_bit 4 val),
                                     3 * i + 1 := rom_hex_table ! unat (val AND 15)])
       (enumerate 0 vals) (replicate 48 0x20)"

definition hexdump_ascii :: "u8 list \<Rightarrow> u8 list" where
  "hexdump_ascii vals = map (\<lambda>val. if 32 \<le> val \<and> val < 127 then val else 0x2E) vals"

fun dbg_hexdump :: "('d, 'm) rom_hw_scheme \<Rightarrow> u32 \<Rightarrow> u8 list \<Rightarrow> 'd \<Rightarrow> 'd option" where
  "dbg_hexdump H p [] d = Some d"
| "dbg_hexdump H p (b # bs) d = do {
     let line = take 16 (b # bs);
     d \<leftarrow> dbg_printf H (str_bytes ''%p: '') [Word p] d;
     d \<leftarrow> dbg_printf H (str_bytes ''%s  %s'' @ crlf_bytes)
            [Chars (hexdump_hexbuf line), Chars (hexdump_ascii line)] d;
     dbg_hexdump H (p + 16) (drop 16 (b # bs)) d }"

definition EPMP_CFG_L :: u8 where "EPMP_CFG_L = 0x80"
definition EPMP_CFG_A_MASK :: u8 where "EPMP_CFG_A_MASK = 0x18"
definition EPMP_CFG_A_TOR :: u8 where "EPMP_CFG_A_TOR = 0x08"
definition EPMP_CFG_A_NA4 :: u8 where "EPMP_CFG_A_NA4 = 0x10"
definition EPMP_CFG_A_NAPOT :: u8 where "EPMP_CFG_A_NAPOT = 0x18"
definition EPMP_CFG_X :: u8 where "EPMP_CFG_X = 0x04"
definition EPMP_CFG_W :: u8 where "EPMP_CFG_W = 0x02"
definition EPMP_CFG_R :: u8 where "EPMP_CFG_R = 0x01"

lemmas epmp_defs = EPMP_CFG_L_def EPMP_CFG_A_MASK_def EPMP_CFG_A_TOR_def EPMP_CFG_A_NA4_def
  EPMP_CFG_A_NAPOT_def EPMP_CFG_X_def EPMP_CFG_W_def EPMP_CFG_R_def

text \<open>
  The first address and the size printed for entry \<open>i\<close>. A top-of-range entry 0 reads before the
  array and an all-ones NAPOT address shifts by 32: both are undefined.
\<close>

definition epmp_region :: "u32 list \<Rightarrow> u8 \<Rightarrow> nat \<Rightarrow> (u32 \<times> u32) option" where
  "epmp_region pmpaddr cfg i =
     (let mode = cfg AND EPMP_CFG_A_MASK; addr = pmpaddr ! i
      in map_option (\<lambda>(addr, sz). (push_bit 2 addr, sz))
        (if mode = EPMP_CFG_A_NAPOT then
           (let n = bitfield_count_trailing_zeroes32 (NOT addr)
            in if n < 32
               then let sz = push_bit n 1 in Some (addr AND NOT (sz - 1), push_bit 3 sz)
               else None)
         else if mode = EPMP_CFG_A_TOR then
           (if i = 0 then None else Some (addr, push_bit 2 (addr - pmpaddr ! (i - 1))))
         else if mode = EPMP_CFG_A_NA4 then Some (addr, 4)
         else Some (addr, 0)))"

definition epmp_mode_name :: "u8 \<Rightarrow> u8 list" where
  "epmp_mode_name mode = str_bytes
     (if mode = EPMP_CFG_A_TOR then ''  TOR'' else if mode = EPMP_CFG_A_NA4 then ''  NA4''
      else if mode = EPMP_CFG_A_NAPOT then ''NAPOT'' else ''-----'')"

definition flag_char :: "u8 \<Rightarrow> u8 \<Rightarrow> u32 \<Rightarrow> dbg_arg" where
  "flag_char cfg f c = Word (if cfg AND f \<noteq> 0 then c else 0x2D)"

fun dbg_epmp_entries ::
  "('d, 'm) rom_hw_scheme \<Rightarrow> u32 list \<Rightarrow> u8 list \<Rightarrow> nat list \<Rightarrow> 'd \<Rightarrow> 'd option" where
  "dbg_epmp_entries H pmpaddr cfg [] d = Some d"
| "dbg_epmp_entries H pmpaddr cfg (i # is) d = do {
     (addr, sz) \<leftarrow> epmp_region pmpaddr (cfg ! i) i;
     d \<leftarrow> dbg_printf H (str_bytes ''%d: %x %s %c%c%c%c sz=%x'' @ crlf_bytes)
       [Word (of_nat i), Word addr, Chars (epmp_mode_name (cfg ! i AND EPMP_CFG_A_MASK)),
        flag_char (cfg ! i) EPMP_CFG_L 0x4C, flag_char (cfg ! i) EPMP_CFG_X 0x58,
        flag_char (cfg ! i) EPMP_CFG_W 0x57, flag_char (cfg ! i) EPMP_CFG_R 0x52, Word sz] d;
     dbg_epmp_entries H pmpaddr cfg is d }"

definition dbg_print_epmp ::
  "('d, 'm) rom_hw_scheme \<Rightarrow> u32 list \<Rightarrow> u32 list \<Rightarrow> u32 \<Rightarrow> 'd \<Rightarrow> 'd option" where
  "dbg_print_epmp H pmpaddr pmpcfg mseccfg d = do {
     d \<leftarrow> dbg_epmp_entries H pmpaddr (concat (map word_bytes pmpcfg)) [0..<16] d;
     dbg_printf H (str_bytes ''mseccfg = %x'' @ crlf_bytes) [Word mseccfg] d }"

section \<open>What is printed\<close>

text \<open>Decimal and hexadecimal notation, and the number a decimal notation stands for.\<close>

fun decimal :: "nat \<Rightarrow> u8 list" where
  "decimal n = (if n < 10 then [] else decimal (n div 10)) @ [0x30 + of_nat (n mod 10)]"

declare decimal.simps [simp del]

definition decimal_value :: "u8 list \<Rightarrow> nat" where
  "decimal_value cs = foldl (\<lambda>v c. 10 * v + unat (c - 0x30)) 0 cs"

definition hex_text :: "u32 \<Rightarrow> u8 list" where
  "hex_text v = map (\<lambda>k. rom_hex_table ! unat (drop_bit (4 * k) v AND 0xF)) (rev [0..<8])"

lemma unat_numeral_10: "unat (10 :: u32) = 10"
  by simp

lemma decimal_value_decimal: "decimal_value (decimal n) = n"
proof (induction n rule: decimal.induct)
  case (1 n)
  have "unat (of_nat (n mod 10) :: u8) = n mod 10"
    by (simp add: unat_of_nat) 
  with 1 show ?case
    by (subst decimal.simps) (simp add: decimal_value_def)
qed

lemma length_decimal: "n < 10 ^ k \<Longrightarrow> 0 < k \<Longrightarrow> length (decimal n) \<le> k"
proof (induction k arbitrary: n)
  case 0
  then show ?case by simp
next
  case (Suc k)
  show ?case
  proof (cases "n < 10")
    case True
    then show ?thesis by (subst decimal.simps) simp
  next
    case False
    with Suc.prems have "n div 10 < 10 ^ k" "0 < k" by (cases k; simp add: less_mult_imp_div_less)+
    from Suc.IH [OF this] False show ?thesis by (subst decimal.simps) simp
  qed
qed

lemma integer_digits_decimal: "integer_digits v b = decimal (unat v) @ b"
proof (induction v b rule: integer_digits.induct)
  case (1 v b)
  have d: "(ucast (v mod 10) :: u8) = of_nat (unat v mod 10)"
    by (metis of_nat_unat unat_mod_distrib unat_numeral_10)
  have z: "v div 10 \<noteq> 0 \<longleftrightarrow> \<not> unat v < 10"
    by (simp add: unat_div_10 word_unat_eq_iff div_eq_0_iff)
  show ?case
    using 1 [OF refl refl]
    by (subst integer_digits.simps, subst decimal.simps) (simp add: d z unat_div_10 Let_def)
qed

lemma dbg_hex_loop_write:
  "dbg_hex_loop H n v d =
     rom_uart_write H (map (\<lambda>i. rom_hex_table ! unat (drop_bit 28 (push_bit (4 * i) v))) [0..<n]) d"
proof (induction n arbitrary: v d)
  case 0
  then show ?case by simp
next
  case (Suc n)
  have "map (\<lambda>i. rom_hex_table ! unat (drop_bit 28 (push_bit (4 * i) v))) [0..<Suc n] =
      (rom_hex_table ! unat (drop_bit 28 v)) #
      map (\<lambda>i. rom_hex_table ! unat (drop_bit 28 (push_bit (4 * i) (push_bit 4 v)))) [0..<n]"
    unfolding upt_conv_Cons [OF zero_less_Suc] map_Suc_upt [symmetric]
    by (simp add: push_bit_push_bit algebra_simps)
  moreover have "dbg_hex_loop H n (push_bit 4 v) = rom_uart_write H
      (map (\<lambda>i. rom_hex_table ! unat (drop_bit 28 (push_bit (4 * i) (push_bit 4 v)))) [0..<n])"
    by (rule ext) (rule Suc.IH)
  ultimately show ?case by (simp only: dbg_hex_loop.simps rom_uart_write.simps)
qed

lemma dbg_hex_loop_text: "dbg_hex_loop H 8 v d = rom_uart_write H (hex_text v) d"
proof -
  have "drop_bit 28 (push_bit (4 * i) v) = drop_bit (4 * (7 - i)) v AND 0xF" if "i < 8" for i
  proof (rule bit_word_eqI)
    have F: "(0xF :: u32) = mask 4" by (simp add: mask_eq_exp_minus_1)
    fix n assume "n < LENGTH(32)"
    with that show "bit (drop_bit 28 (push_bit (4 * i) v)) n = bit (drop_bit (4 * (7 - i)) v AND 0xF) n"
      unfolding F by (auto simp: bit_drop_bit_eq bit_push_bit_iff bit_and_iff bit_mask_iff
          algebra_simps dest: bit_imp_le_length)
  qed
  then have "map (\<lambda>i. rom_hex_table ! unat (drop_bit 28 (push_bit (4 * i) v))) [0..<8] = hex_text v"
    by (intro nth_equalityI) (simp_all add: hex_text_def rev_nth)
  then show ?thesis by (simp only: dbg_hex_loop_write)
qed

lemma print_integer_text:
  "print_integer H v is_signed d =
     (if is_signed \<and> v = 0x80000000 then None
      else rom_uart_write H (if is_signed \<and> v <s 0 then 0x2D # decimal (unat (- v)) else decimal (unat v)) d)"
  by (simp add: print_integer_def integer_digits_decimal)

text \<open>
  What the conversions print: \<open>%u\<close> and \<open>%d\<close> the decimal notation of the value, at most ten
  digits (the buffer has room for eleven) that stand for that value, \<open>%d\<close> with a sign in front
  and undefined for the least integer only, \<open>%x\<close> eight hexadecimal digits.
\<close>

lemma dbg_printf_numbers:
  "dbg_printf H (str_bytes ''%u'') [Word v] d = rom_uart_write H (decimal (unat v)) d \<and>
   dbg_printf H (str_bytes ''%d'') [Word v] d =
     (if v = 0x80000000 then None
      else rom_uart_write H (if v <s 0 then 0x2D # decimal (unat (- v)) else decimal (unat v)) d) \<and>
   dbg_printf H (str_bytes ''%x'') [Word v] d = rom_uart_write H (hex_text v) d \<and>
   decimal_value (decimal (unat v)) = unat v \<and> length (decimal (unat v)) \<le> 10"
proof -
  have "unat v < 10 ^ 10" using unsigned_less [of v, where 'a = nat] by simp
  from length_decimal [OF this] have len: "length (decimal (unat v)) \<le> 10" by simp
  have fmts: "str_bytes ''%u'' = [0x25, 0x75]" "str_bytes ''%d'' = [0x25, 0x64]"
    "str_bytes ''%x'' = [0x25, 0x78]"
    by (simp_all add: str_bytes_def)
  have id: "Option.bind (map_option (\<lambda>d. (True, [], d)) x)
      (\<lambda>(valid, args, d). dbg_printf H (if valid then [] else fs) args d) = x" for x fs
    by (cases x) simp_all
  show ?thesis
    unfolding fmts
    by (simp add: dbg_conversion_def id print_integer_text dbg_hex_loop_text
        decimal_value_decimal len)
qed

end
