(* ===== verification/Rom_Line.thy ===== *)
theory Rom_Line
  imports Rom_Uart
begin

unbundle bit_operations_syntax

text \<open>
  A UART as the driver sees it when the other end is fast enough: the bytes that have arrived,
  the bytes sent, never a full transmitter. Offsets and bits are those of
  \<open>vendor/lowrisc_ip/ip/uart/data/uart.hjson\<close>. The driver on this device is a \<open>serial_line\<close>;
  the device's state may have further parts, which the line leaves alone.
\<close>

record line_chip =
  line_in :: "u8 list"
  line_out :: "u8 list"

definition chip_read :: "u32 \<Rightarrow> 'x line_chip_scheme \<Rightarrow> u32 \<times> 'x line_chip_scheme" where
  "chip_read a s =
     (if a = 0x40000014 then (if line_in s = [] then 0x28 else 0x08, s)
      else if a = 0x40000018 then
        (case line_in s of [] \<Rightarrow> (0, s) | c # cs \<Rightarrow> (ucast c, s\<lparr>line_in := cs\<rparr>))
      else (0, s))"

definition chip_write :: "u32 \<Rightarrow> u32 \<Rightarrow> 'x line_chip_scheme \<Rightarrow> 'x line_chip_scheme" where
  "chip_write a v s =
     (if a = 0x4000001C then s\<lparr>line_out := line_out s @ [ucast v]\<rparr> else s)"

definition chip_hw :: "'m \<Rightarrow> ('x line_chip_scheme, 'm) rom_hw_scheme" where
  "chip_hw m =
     \<lparr>rom_bus = \<lparr>bus_read = chip_read, bus_write = chip_write\<rparr>,
      uart_reg_base = 0x40000000,
      ibex_mcycle = (\<lambda>s. (0, s)),
      ibex_time_to_cycles = (\<lambda>t. t),
      UART_CTRL_REG_OFFSET = 0x10, UART_STATUS_REG_OFFSET = 0x14,
      UART_RDATA_REG_OFFSET = 0x18, UART_WDATA_REG_OFFSET = 0x1C,
      UART_FIFO_CTRL_REG_OFFSET = 0x20, UART_OVRD_REG_OFFSET = 0x28,
      UART_VAL_REG_OFFSET = 0x2C, UART_TIMEOUT_CTRL_REG_OFFSET = 0x30,
      UART_INTR_ENABLE_REG_OFFSET = 0x04, UART_INTR_STATE_REG_OFFSET = 0x00,
      UART_FIFO_CTRL_RXRST_BIT = 0, UART_FIFO_CTRL_TXRST_BIT = 1,
      UART_CTRL_NCO_FIELD = \<lparr>fmask = 0xFFFF, findex = 16\<rparr>,
      UART_CTRL_TX_BIT = 0, UART_CTRL_RX_BIT = 1, UART_CTRL_PARITY_EN_BIT = 6,
      UART_STATUS_TXFULL_BIT = 0, UART_STATUS_RXEMPTY_BIT = 5, UART_STATUS_TXIDLE_BIT = 3,
      UART_WDATA_WDATA_FIELD = \<lparr>fmask = 0xFF, findex = 0\<rparr>,
      \<dots> = m\<rparr>"

lemma status_bits:
  "\<not> rom_uart_tx_full (chip_hw m) (if e then 0x28 else 0x08)"
  "rom_uart_tx_idle (chip_hw m) (if e then 0x28 else 0x08)"
  "bitfield_bit32_read (if e then 0x28 else 0x08) 5 \<longleftrightarrow> e"
  by (simp_all add: rom_uart_tx_full_def rom_uart_tx_idle_def chip_hw_def bitfield_bit32_read_bit)

lemma chip_poll:
  "\<not> busy (if line_in s = [] then 0x28 else 0x08) \<Longrightarrow>
     poll \<lparr>bus_read = chip_read, bus_write = chip_write\<rparr> 0x40000014 busy s =
     Some (if line_in s = [] then 0x28 else 0x08, s)"
  by (subst poll.simps) (simp add: chip_read_def)

lemma wdata_byte: "ucast (bitfield_field32_write 0 \<lparr>fmask = 0xFF, findex = 0\<rparr> (ucast c)) = (c :: u8)"
proof (rule bit_word_eqI)
  fix n assume n: "n < LENGTH(8)"
  have "bit (0xFF :: u32) n" unfolding mask8_u32 using n by (simp add: bit_mask_iff)
  then show "bit (ucast (bitfield_field32_write 0 \<lparr>fmask = 0xFF, findex = 0\<rparr> (ucast c)) :: u8) n = bit c n"
    using n by (simp add: bit_ucast_iff bit_bitfield_field32_write)
qed

lemma putchar_chip:
  "rom_uart_putchar (chip_hw m) c s = Some (s\<lparr>line_out := line_out s @ [c]\<rparr>)"
proof -
  have H: "rom_bus (chip_hw m) = \<lparr>bus_read = chip_read, bus_write = chip_write\<rparr>"
    "uart_reg_base (chip_hw m) + UART_STATUS_REG_OFFSET (chip_hw m) = 0x40000014"
    "UART_WDATA_REG_OFFSET (chip_hw m) = 0x1C" "uart_reg_base (chip_hw m) = 0x40000000"
    "UART_WDATA_WDATA_FIELD (chip_hw m) = \<lparr>fmask = 0xFF, findex = 0\<rparr>"
    by (simp_all add: chip_hw_def)
  have nb: "putchar_nonblocking (chip_hw m) c s = Some (s\<lparr>line_out := line_out s @ [c]\<rparr>)"
    unfolding putchar_nonblocking_def H(1,2)
    by (simp add: H(1,3-5) chip_poll status_bits uart_reg_write_def chip_write_def wdata_byte)
  show ?thesis
    unfolding rom_uart_putchar_def nb H(1,2)
    by (simp add: chip_poll status_bits)
qed

lemma rx_bytes_chip:
  "n \<le> length (line_in s) \<Longrightarrow>
     rx_bytes (chip_hw m) deadline n s = Some (take n (line_in s), s\<lparr>line_in := drop n (line_in s)\<rparr>)"
proof (induction n arbitrary: s)
  case 0
  then show ?case by simp
next
  case (Suc n)
  then obtain c cs where cs: "line_in s = c # cs" by (cases "line_in s") auto
  have H: "rom_bus (chip_hw m) = \<lparr>bus_read = chip_read, bus_write = chip_write\<rparr>"
    "uart_reg_base (chip_hw m) = 0x40000000" "UART_STATUS_REG_OFFSET (chip_hw m) = 0x14"
    "UART_RDATA_REG_OFFSET (chip_hw m) = 0x18" "UART_STATUS_RXEMPTY_BIT (chip_hw m) = 5"
    by (simp_all add: chip_hw_def)
  have "rx_wait (chip_hw m) deadline s = Some (True, s)"
    using status_bits(3) [of False]
    by (subst rx_wait.simps) (simp add: rom_uart_rx_empty_def uart_reg_def H chip_read_def cs)
  moreover have "uart_reg (chip_hw m) 0x18 s = (ucast c, s\<lparr>line_in := cs\<rparr>)"
    by (simp add: uart_reg_def H chip_read_def cs)
  moreover have "(ucast (ucast c :: u32) :: u8) = c"
    by (rule bit_word_eqI) (auto simp: bit_ucast_iff dest: bit_u8_less)
  moreover have "rx_bytes (chip_hw m) deadline n (s\<lparr>line_in := cs\<rparr>) =
      Some (take n cs, s\<lparr>line_in := drop n cs\<rparr>)"
    using Suc.IH [of "s\<lparr>line_in := cs\<rparr>"] Suc.prems cs by simp
  ultimately show ?case by (simp add: cs H)
qed

interpretation chip_line: serial_line "chip_hw m" "\<lambda>_. True" line_in line_out line_chip.more
proof unfold_locales
  fix s :: "'x line_chip_scheme" and c :: u8 and n t :: u32
  show "\<exists>s'. rom_uart_putchar (chip_hw m) c s = Some s' \<and> True \<and> line_in s' = line_in s \<and>
      line_out s' = line_out s @ [c] \<and> line_chip.more s' = line_chip.more s"
    by (simp add: putchar_chip)
  have mcycle: "ibex_mcycle (chip_hw m) s = (0, s)" by (simp add: chip_hw_def)
  assume "unat n \<le> length (line_in s)"
  note bytes = rx_bytes_chip [OF this]
  show "\<exists>s'. rom_uart_read (chip_hw m) n t s = Some (take (unat n) (line_in s), s') \<and> True \<and>
      line_in s' = drop (unat n) (line_in s) \<and> line_out s' = line_out s \<and>
      line_chip.more s' = line_chip.more s"
    by (simp add: rom_uart_read_def Let_def mcycle bytes)
qed

end
