(* ===== verification/Rom_Error.thy ===== *)
theory Rom_Error
  imports Prelude
begin

text \<open>
  The values of \<open>rom_error_t\<close> (\<open>sw/device/silicon_creator/lib/error.h\<close>) that the modelled code
  names; a driver may return others, \<open>kErrorDriver\<close> with their number.
\<close>

datatype rom_error =
    kErrorOk
  | kErrorXModemTimeoutStart
  | kErrorXModemTimeoutPacket
  | kErrorXModemTimeoutData
  | kErrorXModemTimeoutCrc
  | kErrorXModemTimeoutAck
  | kErrorXModemCrc
  | kErrorXModemEndOfFile
  | kErrorXModemCancel
  | kErrorXModemUnknown
  | kErrorXModemProtocol
  | kErrorXModemTooManyErrors
  | kErrorXModemBadLength
  | kErrorRescueReboot
  | kErrorRescueBadMode
  | kErrorRescueImageTooBig
  | kErrorRescueSendStart
  | kErrorAsn1Internal
  | kErrorAsn1StartInvalidArgument
  | kErrorAsn1PushBytesInvalidArgument
  | kErrorAsn1PushIntegerPadInvalidArgument
  | kErrorAsn1PushIntegerInvalidArgument
  | kErrorAsn1FinishBitstringInvalidArgument
  | kErrorAsn1BufferExhausted
  | kErrorSigverifyLargeRsaSignature
  | kErrorSigverifyBadRsaSignature
  | kErrorDriver u32

end
