(* ===== verification/Xmodem.thy ===== *)
theory Xmodem
  imports Rom_Line Rom_Error
begin

unbundle bit_operations_syntax

text \<open>
  The XModem-CRC transfer of \<open>sw/device/silicon_creator/lib/rescue/xmodem.c\<close> over the UART driver:
  receiving one frame and sending a buffer. \<open>frame_bytes\<close> is the frame on the wire. The lemmas of
  the second part hold for every \<open>serial_line\<close>: a frame that was sent is received, one whose
  payload was damaged in a byte is not, and a buffer sent to a peer that acknowledges arrives as
  the frames of its blocks.
\<close>

section \<open>Constants\<close>

definition kXModemCrc16 :: u8 where "kXModemCrc16 = 0x43"
definition kXModemSoh :: u8 where "kXModemSoh = 0x01"
definition kXModemStx :: u8 where "kXModemStx = 0x02"
definition kXModemEof :: u8 where "kXModemEof = 0x04"
definition kXModemAck :: u8 where "kXModemAck = 0x06"
definition kXModemNak :: u8 where "kXModemNak = 0x15"
definition kXModemCancel :: u8 where "kXModemCancel = 0x18"
definition kXModemPoly :: u16 where "kXModemPoly = 0x1021"
definition kXModemMaxErrors :: u32 where "kXModemMaxErrors = 2"
definition kXModemShortTimeout :: u32 where "kXModemShortTimeout = 100"
definition kXModemLongTimeout :: u32 where "kXModemLongTimeout = 1000"

lemmas xmodem_chars = kXModemCrc16_def kXModemSoh_def kXModemStx_def kXModemEof_def
  kXModemAck_def kXModemNak_def kXModemCancel_def

section \<open>The code\<close>

definition xmodem_read :: "('d, 'm) rom_hw_scheme \<Rightarrow> u32 \<Rightarrow> u32 \<Rightarrow> 'd \<Rightarrow> (u8 list \<times> 'd) option" where
  "xmodem_read H len timeout_ms d = rom_uart_read H len timeout_ms d"

definition xmodem_write :: "('d, 'm) rom_hw_scheme \<Rightarrow> u8 list \<Rightarrow> 'd \<Rightarrow> 'd option" where
  "xmodem_write H data d = rom_uart_write H data d"

definition xmodem_putchar :: "('d, 'm) rom_hw_scheme \<Rightarrow> u8 \<Rightarrow> 'd \<Rightarrow> 'd option" where
  "xmodem_putchar H ch d = xmodem_write H [ch] d"

definition crc16_bit :: "u16 \<Rightarrow> u16" where
  "crc16_bit crc = (if crc AND 0x8000 \<noteq> 0 then push_bit 1 crc XOR kXModemPoly else push_bit 1 crc)"

definition crc16_byte :: "u16 \<Rightarrow> u8 \<Rightarrow> u16" where
  "crc16_byte crc b = (crc16_bit ^^ 8) (crc XOR push_bit 8 (ucast b))"

fun crc16 :: "u16 \<Rightarrow> u8 list \<Rightarrow> u16" where
  "crc16 crc [] = crc"
| "crc16 crc (b # bs) = crc16 (crc16_byte crc b) bs"

fun crc16_pad :: "u16 \<Rightarrow> nat \<Rightarrow> u16" where
  "crc16_pad crc 0 = crc"
| "crc16_pad crc (Suc n) = crc16_pad (crc16 crc [0]) n"

definition crc16_block :: "u8 list \<Rightarrow> nat \<Rightarrow> u16" where
  "crc16_block data block_sz = crc16_pad (crc16 0 data) (block_sz - length data)"

definition xmodem_recv_start :: "('d, 'm) rom_hw_scheme \<Rightarrow> 'd \<Rightarrow> 'd option" where
  "xmodem_recv_start H d = xmodem_putchar H kXModemCrc16 d"

definition xmodem_ack :: "('d, 'm) rom_hw_scheme \<Rightarrow> bool \<Rightarrow> 'd \<Rightarrow> 'd option" where
  "xmodem_ack H ack d = xmodem_putchar H (if ack then kXModemAck else kXModemNak) d"

definition xmodem_cancel :: "('d, 'm) rom_hw_scheme \<Rightarrow> 'd \<Rightarrow> 'd option" where
  "xmodem_cancel H d = do {
     d \<leftarrow> xmodem_putchar H kXModemCancel d;
     xmodem_putchar H kXModemCancel d }"

text \<open>What \<open>xmodem_recv_frame\<close> writes through its pointers.\<close>

record recv_out =
  rx_data :: "u8 list" \<comment> \<open>the buffer from \<open>data\<close> on\<close>
  rxlen :: u32
  unknown_rx :: u8

definition fill :: "u8 list \<Rightarrow> recv_out \<Rightarrow> recv_out" where
  "fill bs b = b\<lparr>rx_data := bs @ drop (length bs) (rx_data b)\<rparr>"

definition recv_payload :: "('d, 'm) rom_hw_scheme \<Rightarrow> u32 \<Rightarrow> u32 \<Rightarrow> recv_out \<Rightarrow> 'd \<Rightarrow>
    (rom_error \<times> recv_out \<times> 'd) option" where
  "recv_payload H frame len b d = do {
     (pkt, d) \<leftarrow> xmodem_read H 2 kXModemShortTimeout d;
     if length pkt \<noteq> 2 then Some (kErrorXModemTimeoutPacket, b, d)
     else do {
       let cancel = (pkt ! 0 \<noteq> ucast frame \<or> pkt ! 0 \<noteq> 255 - pkt ! 1);
       (bs, d) \<leftarrow> xmodem_read H len (kXModemShortTimeout * 3) d;
       let b = fill bs b;
       if length bs \<noteq> unat len then Some (kErrorXModemTimeoutData, b, d)
       else do {
         (pkt, d) \<leftarrow> xmodem_read H 2 kXModemShortTimeout d;
         if length pkt \<noteq> 2 then Some (kErrorXModemTimeoutCrc, b, d)
         else if cancel then do { d \<leftarrow> xmodem_cancel H d; Some (kErrorXModemCancel, b, d) }
         else do {
           let crc = push_bit 8 (ucast (pkt ! 0)) OR ucast (pkt ! 1);
           let val = crc16 0 (take (unat len) (rx_data b));
           if crc \<noteq> val then Some (kErrorXModemCrc, b, d)
           else Some (kErrorOk, b\<lparr>rxlen := len\<rparr>, d) } } } }"

definition xmodem_recv_frame :: "('d, 'm) rom_hw_scheme \<Rightarrow> u32 \<Rightarrow> u32 \<Rightarrow> recv_out \<Rightarrow> 'd \<Rightarrow>
    (rom_error \<times> recv_out \<times> 'd) option" where
  "xmodem_recv_frame H frame len_available b d = do {
     (c, d) \<leftarrow> xmodem_read H 1 kXModemLongTimeout d;
     if c = [] then Some (kErrorXModemTimeoutStart, b, d)
     else do {
       let ch = hd c;
       if ch = kXModemStx \<or> ch = kXModemSoh then do {
         let len = (if ch = kXModemStx then 1024 else 128);
         if len > len_available then Some (kErrorXModemBadLength, b, d)
         else recv_payload H frame len b d }
       else if ch = kXModemEof then Some (kErrorXModemEndOfFile, b, d)
       else Some (kErrorXModemUnknown, b\<lparr>unknown_rx := ch\<rparr>, d) } }"

fun send_start_loop ::
  "('d, 'm) rom_hw_scheme \<Rightarrow> nat \<Rightarrow> int \<Rightarrow> 'd \<Rightarrow> (rom_error \<times> 'd) option" where
  "send_start_loop H 0 cancels d = Some (kErrorXModemTimeoutStart, d)"
| "send_start_loop H (Suc retries) cancels d = do {
     (c, d) \<leftarrow> xmodem_read H 1 kXModemLongTimeout d;
     if c = [] then send_start_loop H retries cancels d
     else if hd c = kXModemCrc16 then Some (kErrorOk, d)
     else if hd c = kXModemNak then Some (kErrorXModemProtocol, d)
     else if hd c = kXModemCancel then
       (if cancels + 1 \<ge> 2 then Some (kErrorXModemCancel, d)
        else send_start_loop H retries (cancels + 1) d)
     else send_start_loop H retries cancels d }"

definition xmodem_send_start ::
  "('d, 'm) rom_hw_scheme \<Rightarrow> u32 \<Rightarrow> 'd \<Rightarrow> (rom_error \<times> 'd) option" where
  "xmodem_send_start H retries d = send_start_loop H (unat retries) 0 d"

text \<open>The answer to the end of file is read and ignored.\<close>

definition xmodem_send_finish :: "('d, 'm) rom_hw_scheme \<Rightarrow> 'd \<Rightarrow> (rom_error \<times> 'd) option" where
  "xmodem_send_finish H d = do {
     d \<leftarrow> xmodem_putchar H kXModemEof d;
     (c, d) \<leftarrow> xmodem_read H 1 kXModemLongTimeout d;
     Some (kErrorOk, d) }"

fun send_padding :: "('d, 'm) rom_hw_scheme \<Rightarrow> nat \<Rightarrow> 'd \<Rightarrow> 'd option" where
  "send_padding H 0 d = Some d"
| "send_padding H (Suc n) d = do { d \<leftarrow> xmodem_putchar H 0 d; send_padding H n d }"

definition send_frame ::
  "('d, 'm) rom_hw_scheme \<Rightarrow> nat \<Rightarrow> u32 \<Rightarrow> u8 list \<Rightarrow> u16 \<Rightarrow> 'd \<Rightarrow> 'd option" where
  "send_frame H block_sz block chunk crc d = do {
     d \<leftarrow> xmodem_putchar H (if block_sz = 128 then kXModemSoh else kXModemStx) d;
     d \<leftarrow> xmodem_putchar H (ucast block) d;
     d \<leftarrow> xmodem_putchar H (255 - ucast block) d;
     d \<leftarrow> xmodem_write H chunk d;
     d \<leftarrow> send_padding H (block_sz - length chunk) d;
     d \<leftarrow> xmodem_putchar H (ucast (drop_bit 8 crc)) d;
     xmodem_putchar H (ucast (crc AND 0xFF)) d }"

text \<open>The attempts at one block: an error that ends the transfer, or the new counters.\<close>

partial_function (option) send_attempts ::
  "('d, 'm) rom_hw_scheme \<Rightarrow> nat \<Rightarrow> u32 \<Rightarrow> u8 list \<Rightarrow> u16 \<Rightarrow> u32 \<Rightarrow> u32 \<Rightarrow> u32 \<Rightarrow> 'd \<Rightarrow>
     ((rom_error + u32 \<times> u32) \<times> 'd) option" where
  "send_attempts H block_sz block chunk crc max_errors errors cancels d =
     Option.bind (send_frame H block_sz block chunk crc d) (\<lambda>d.
     Option.bind (xmodem_read H 1 kXModemLongTimeout d) (\<lambda>(c, d).
       if c = [] then Some (Inl kErrorXModemTimeoutAck, d)
       else if hd c = kXModemAck then Some (Inr (errors, cancels), d)
       else if hd c = kXModemCancel then
         (if cancels + 1 \<ge> 2 then Some (Inl kErrorXModemCancel, d)
          else if errors \<ge> max_errors then Some (Inl kErrorXModemTooManyErrors, d)
          else send_attempts H block_sz block chunk crc max_errors errors (cancels + 1) d)
       else if errors + 1 \<ge> max_errors then Some (Inl kErrorXModemTooManyErrors, d)
       else send_attempts H block_sz block chunk crc max_errors (errors + 1) cancels d))"

definition block_size :: "u8 list \<Rightarrow> nat" where
  "block_size data = (if length data < 1024 then 128 else 1024)"

lemma block_size_pos [simp]: "0 < block_size data"
  by (simp add: block_size_def)

function send_blocks ::
  "('d, 'm) rom_hw_scheme \<Rightarrow> u8 list \<Rightarrow> u32 \<Rightarrow> u32 \<Rightarrow> u32 \<Rightarrow> u32 \<Rightarrow> 'd \<Rightarrow> (rom_error \<times> 'd) option" where
  "send_blocks H data block max_errors errors cancels d =
     (if data = [] then Some (kErrorOk, d)
      else
        let block_sz = block_size data; chunk = take block_sz data; block = block + 1
        in do {
          (r, d) \<leftarrow> send_attempts H block_sz block chunk (crc16_block chunk block_sz)
                      max_errors errors cancels d;
          case r of
            Inl e \<Rightarrow> Some (e, d)
          | Inr (errors, cancels) \<Rightarrow> send_blocks H (drop block_sz data) block max_errors errors cancels d })"
  by pat_completeness auto
termination
  by (relation "measure (\<lambda>(H, data, _). length data)") auto

declare send_blocks.simps [simp del]

definition xmodem_send_data ::
  "('d, 'm) rom_hw_scheme \<Rightarrow> u8 list \<Rightarrow> u32 \<Rightarrow> 'd \<Rightarrow> (rom_error \<times> 'd) option" where
  "xmodem_send_data H data max_errors d = send_blocks H data 0 max_errors 0 0 d"

definition xmodem_send :: "('d, 'm) rom_hw_scheme \<Rightarrow> u8 list \<Rightarrow> 'd \<Rightarrow> (rom_error \<times> 'd) option" where
  "xmodem_send H data d = do {
     (e, d) \<leftarrow> xmodem_send_start H 30 d;
     if e \<noteq> kErrorOk then Some (e, d)
     else do {
       (e, d) \<leftarrow> xmodem_send_data H data kXModemMaxErrors d;
       if e \<noteq> kErrorOk then Some (e, d)
       else do {
         (e, d) \<leftarrow> xmodem_send_finish H d;
         if e \<noteq> kErrorOk then Some (e, d) else Some (kErrorOk, d) } } }"

section \<open>The frame on the wire\<close>

definition frame_bytes :: "nat \<Rightarrow> u32 \<Rightarrow> u8 list \<Rightarrow> u16 \<Rightarrow> u8 list" where
  "frame_bytes block_sz block chunk crc =
     [if block_sz = 128 then kXModemSoh else kXModemStx, ucast block, 255 - ucast block] @
     (chunk @ replicate (block_sz - length chunk) 0) @
     [ucast (drop_bit 8 crc), ucast (crc AND 0xFF)]"

lemma send_padding_write: "send_padding H n d = rom_uart_write H (replicate n 0) d"
  by (induction n arbitrary: d)
    (simp_all add: xmodem_putchar_def xmodem_write_def Option.bind_assoc cong: Option.bind_cong)

lemma send_frame_write:
  "send_frame H block_sz block chunk crc d = rom_uart_write H (frame_bytes block_sz block chunk crc) d"
  by (simp add: send_frame_def frame_bytes_def xmodem_putchar_def xmodem_write_def
      send_padding_write rom_uart_write_append Option.bind_assoc cong: Option.bind_cong)

lemma crc16_append: "crc16 crc (xs @ ys) = crc16 (crc16 crc xs) ys"
  by (induction xs arbitrary: crc) simp_all

lemma crc16_pad_replicate: "crc16_pad crc n = crc16 crc (replicate n 0)"
  by (induction n arbitrary: crc) simp_all

lemma crc16_block_padded: "crc16_block data n = crc16 0 (data @ replicate (n - length data) 0)"
  by (simp add: crc16_block_def crc16_pad_replicate crc16_append)

lemma crc_bytes_join:
  "push_bit 8 (ucast (ucast (drop_bit 8 crc) :: u8)) OR ucast (ucast (crc AND 0xFF) :: u8) = (crc :: u16)"
proof (rule bit_word_eqI)
  have m: "(0xFF :: u16) = mask 8" by (simp add: mask_eq_exp_minus_1)
  fix n assume "n < LENGTH(16)"
  then show "bit (push_bit 8 (ucast (ucast (drop_bit 8 crc) :: u8)) OR
      ucast (ucast (crc AND 0xFF) :: u8) :: u16) n = bit crc n"
    unfolding m
    by (auto simp: bit_or_iff bit_push_bit_iff bit_ucast_iff bit_drop_bit_eq bit_and_iff bit_mask_iff)
qed

section \<open>The checksum notices a damaged byte\<close>

lemma bit_crc16_bit:
  "n < 16 \<Longrightarrow> bit (crc16_bit crc) n \<longleftrightarrow>
     ((0 < n \<and> bit crc (n - 1)) \<noteq> (bit crc 15 \<and> bit kXModemPoly n))"
proof -
  have "(0x8000 :: u16) = push_bit 15 1" by (simp add: push_bit_eq_mult)
  then have "crc AND 0x8000 \<noteq> 0 \<longleftrightarrow> bit crc 15"
    by (metis and.commute bit_iff_and_push_bit_not_eq_0)
  moreover have "bit (push_bit 1 crc) n \<longleftrightarrow> 0 < n \<and> bit crc (n - 1)" if "n < 16"
    using that by (subst bit_push_bit_iff) (auto simp: Suc_le_eq)
  ultimately show "n < 16 \<Longrightarrow> ?thesis"
    unfolding crc16_bit_def by (cases "bit crc 15") (simp_all only: if_True if_False bit_xor_iff simp_thms)
qed

lemma crc16_bit_inject: "crc16_bit a = crc16_bit b \<Longrightarrow> a = b"
proof -
  assume eq: "crc16_bit a = crc16_bit b"
  have "bit kXModemPoly 0" by (simp add: kXModemPoly_def)
  then have top: "bit a 15 = bit b 15"
    using bit_crc16_bit [of 0 a] bit_crc16_bit [of 0 b] eq by simp
  show "a = b"
  proof (rule bit_word_eqI)
    fix n assume "n < LENGTH(16)"
    then consider "n = 15" | "Suc n < 16" by fastforce
    then show "bit a n = bit b n"
    proof cases
      case 2
      then show ?thesis
        using bit_crc16_bit [of "Suc n" a] bit_crc16_bit [of "Suc n" b] eq top by auto
    qed (use top in simp)
  qed
qed

lemma crc16_bits_inject: "(crc16_bit ^^ k) a = (crc16_bit ^^ k) b \<Longrightarrow> a = b"
  by (induction k) (auto dest: crc16_bit_inject)

lemma crc16_byte_inject: "crc16_byte a c = crc16_byte b c \<Longrightarrow> a = b"
  by (auto simp: crc16_byte_def dest: crc16_bits_inject)

lemma crc16_byte_data_inject: "crc16_byte a c = crc16_byte a e \<Longrightarrow> c = e"
proof -
  assume "crc16_byte a c = crc16_byte a e"
  then have eq: "push_bit 8 (ucast c :: u16) = push_bit 8 (ucast e)"
    by (auto simp: crc16_byte_def dest: crc16_bits_inject)
  show "c = e"
  proof (rule bit_word_eqI)
    fix n assume n: "n < LENGTH(8)"
    from eq have "bit (push_bit 8 (ucast c :: u16)) (8 + n) = bit (push_bit 8 (ucast e :: u16)) (8 + n)"
      by simp
    with n show "bit c n = bit e n" by (simp add: bit_push_bit_iff bit_ucast_iff)
  qed
qed

lemma crc16_inject: "crc16 a bs = crc16 b bs \<Longrightarrow> a = b"
  by (induction bs arbitrary: a b) (auto dest: crc16_byte_inject)

lemma crc16_damaged:
  assumes "i < length bs" "c \<noteq> bs ! i"
  shows "crc16 crc (bs[i := c]) \<noteq> crc16 crc bs"
proof
  assume "crc16 crc (bs[i := c]) = crc16 crc bs"
  moreover have "bs = take i bs @ bs ! i # drop (Suc i) bs"
    using assms(1) by (rule id_take_nth_drop)
  moreover have "bs[i := c] = take i bs @ c # drop (Suc i) bs"
    using assms(1) by (rule upd_conv_take_nth_drop)
  ultimately have "crc16 (crc16_byte (crc16 crc (take i bs)) c) (drop (Suc i) bs) =
      crc16 (crc16_byte (crc16 crc (take i bs)) (bs ! i)) (drop (Suc i) bs)"
    by (metis crc16.simps(2) crc16_append)
  then have "c = bs ! i" by (auto dest: crc16_inject crc16_byte_data_inject)
  with assms(2) show False ..
qed

text \<open>The frames of a buffer; \<open>block\<close> is the number of the block before.\<close>

function block_frames :: "u8 list \<Rightarrow> u32 \<Rightarrow> u8 list list" where
  "block_frames data block =
     (if data = [] then []
      else
        let block_sz = block_size data; chunk = take block_sz data
        in frame_bytes block_sz (block + 1) chunk (crc16_block chunk block_sz) #
           block_frames (drop block_sz data) (block + 1))"
  by pat_completeness auto
termination
  by (relation "measure (\<lambda>(data, block). length data)") auto

declare block_frames.simps [simp del]

section \<open>Over a serial line\<close>

context serial_line
begin

definition quiet :: "'d \<Rightarrow> 'd \<Rightarrow> u8 list \<Rightarrow> bool" where
  "quiet s s' left \<longleftrightarrow> ready s' \<and> rx s' = left \<and> tx s' = tx s \<and> rest s' = rest s"

lemma xmodem_read_line:
  assumes "ready s" "rx s = bs @ left" "length bs = unat n"
  shows "\<exists>s'. xmodem_read H n t s = Some (bs, s') \<and> quiet s s' left"
  using recv [OF assms(1), of n t] assms(2,3) by (auto simp: xmodem_read_def quiet_def)

lemma recv_payload_line:
  assumes "ready s" "rx s = [n, i] @ payload @ [hi, lo] @ left" "length payload = unat len"
    and "n = ucast frame" "n = 255 - i"
  shows "\<exists>s'. recv_payload H frame len b s =
      Some (if push_bit 8 (ucast hi) OR ucast lo = crc16 0 payload
            then (kErrorOk, (fill payload b)\<lparr>rxlen := len\<rparr>, s')
            else (kErrorXModemCrc, fill payload b, s')) \<and> quiet s s' left"
proof -
  have "length [n, i] = unat (2 :: u32)" "length [hi, lo] = unat (2 :: u32)" by simp_all
  note two = this
  from xmodem_read_line [OF assms(1,2) two(1)] obtain s1
    where s1: "xmodem_read H 2 kXModemShortTimeout s = Some ([n, i], s1)"
      and q1: "quiet s s1 (payload @ [hi, lo] @ left)" by blast
  from xmodem_read_line [OF _ _ assms(3)] q1 obtain s2
    where s2: "xmodem_read H len (kXModemShortTimeout * 3) s1 = Some (payload, s2)"
      and q2: "quiet s1 s2 ([hi, lo] @ left)" unfolding quiet_def by blast
  from xmodem_read_line [OF _ _ two(2)] q2 obtain s3
    where s3: "xmodem_read H 2 kXModemShortTimeout s2 = Some ([hi, lo], s3)"
      and q3: "quiet s2 s3 left" unfolding quiet_def by blast
  have "take (unat len) (rx_data (fill payload b)) = payload"
    by (simp add: fill_def assms(3) [symmetric])
  then have "recv_payload H frame len b s =
      Some (if push_bit 8 (ucast hi) OR ucast lo = crc16 0 payload
            then (kErrorOk, (fill payload b)\<lparr>rxlen := len\<rparr>, s3)
            else (kErrorXModemCrc, fill payload b, s3))"
    using assms(3,4,5) by (simp add: recv_payload_def s1 s2 s3)
  moreover from q1 q2 q3 have "quiet s s3 left" by (simp add: quiet_def)
  ultimately show ?thesis by blast
qed

lemma recv_frame_line:
  assumes "ready s" "rx s = [if block_sz = 128 then kXModemSoh else kXModemStx, ucast block,
      255 - ucast block] @ payload @ [hi, lo] @ left"
    and "length payload = block_sz" "block_sz = 128 \<or> block_sz = 1024" "block_sz \<le> unat avail"
    and "(ucast frame :: u8) = ucast block"
  shows "\<exists>s'. xmodem_recv_frame H frame avail b s =
      Some (if push_bit 8 (ucast hi) OR ucast lo = crc16 0 payload
            then (kErrorOk, (fill payload b)\<lparr>rxlen := of_nat block_sz\<rparr>, s')
            else (kErrorXModemCrc, fill payload b, s')) \<and> quiet s s' left"
proof -
  let ?len = "of_nat block_sz :: u32" and ?h = "if block_sz = 128 then kXModemSoh else kXModemStx"
  have one: "length [?h] = unat (1 :: u32)" by simp
  from xmodem_read_line [OF assms(1) _ one] assms(2) obtain s1
    where s1: "xmodem_read H 1 kXModemLongTimeout s = Some ([?h], s1)"
      and q1: "quiet s s1 ([ucast block, 255 - ucast block] @ payload @ [hi, lo] @ left)" by auto
  have fits: "\<not> avail < ?len"
    using assms(4,5) by (auto simp: word_less_nat_alt)
  have l: "length payload = unat ?len" using assms(3,4) by auto
  from q1 have "ready s1" by (simp add: quiet_def)
  from q1 have rx1: "rx s1 = [ucast block, 255 - ucast block] @ payload @ [hi, lo] @ left"
    by (simp add: quiet_def)
  have inv: "ucast block = 255 - (255 - ucast block :: u8)" by simp
  from recv_payload_line [OF \<open>ready s1\<close> rx1 l assms(6) [symmetric] inv]
  obtain s2 where s2: "recv_payload H frame ?len b s1 =
      Some (if push_bit 8 (ucast hi) OR ucast lo = crc16 0 payload
            then (kErrorOk, (fill payload b)\<lparr>rxlen := ?len\<rparr>, s2)
            else (kErrorXModemCrc, fill payload b, s2))" and q2: "quiet s1 s2 left"
    by blast
  have "xmodem_recv_frame H frame avail b s = recv_payload H frame ?len b s1"
    using assms(4) fits
    by (elim disjE) (simp_all add: xmodem_recv_frame_def s1 xmodem_chars)
  with s2 q1 q2 show ?thesis by (auto simp: quiet_def)
qed

lemma send_frame_line:
  "ready s \<Longrightarrow> \<exists>s'. send_frame H block_sz block chunk crc s = Some s' \<and> ready s' \<and> rx s' = rx s \<and>
     tx s' = tx s @ frame_bytes block_sz block chunk crc \<and> rest s' = rest s"
  unfolding send_frame_write by (rule send_all)

text \<open>One answer to a frame.\<close>

lemma send_attempts_answer:
  assumes "ready s" "rx s = c # left"
  shows "\<exists>s'. ready s' \<and> rx s' = left \<and> rest s' = rest s \<and>
    tx s' = tx s @ frame_bytes block_sz block chunk crc \<and>
    send_attempts H block_sz block chunk crc max_errors errors cancels s =
      (if c = kXModemAck then Some (Inr (errors, cancels), s')
       else if c = kXModemCancel then
         (if cancels + 1 \<ge> 2 then Some (Inl kErrorXModemCancel, s')
          else if errors \<ge> max_errors then Some (Inl kErrorXModemTooManyErrors, s')
          else send_attempts H block_sz block chunk crc max_errors errors (cancels + 1) s')
       else if errors + 1 \<ge> max_errors then Some (Inl kErrorXModemTooManyErrors, s')
       else send_attempts H block_sz block chunk crc max_errors (errors + 1) cancels s')"
proof -
  from send_frame_line [OF assms(1)] obtain s1
    where s1: "send_frame H block_sz block chunk crc s = Some s1" "ready s1" "rx s1 = rx s"
      "tx s1 = tx s @ frame_bytes block_sz block chunk crc" "rest s1 = rest s" by blast
  have "length [c] = unat (1 :: u32)" by simp
  from xmodem_read_line [OF s1(2) _ this] s1(3) assms(2) obtain s2
    where s2: "xmodem_read H 1 kXModemLongTimeout s1 = Some ([c], s2)" "quiet s1 s2 left" by auto
  show ?thesis
    using s1 s2 by (intro exI [of _ s2], subst send_attempts.simps) (simp add: quiet_def)
qed

lemma send_blocks_acked:
  assumes "ready s" "rx s = replicate (length (block_frames data block)) kXModemAck @ left"
  shows "\<exists>s'. send_blocks H data block max_errors errors cancels s = Some (kErrorOk, s') \<and>
    ready s' \<and> rx s' = left \<and> tx s' = tx s @ concat (block_frames data block) \<and> rest s' = rest s"
  using assms
proof (induction data block arbitrary: s rule: block_frames.induct)
  case (1 data block)
  show ?case
  proof (cases "data = []")
    case True
    with 1 show ?thesis by (simp add: send_blocks.simps block_frames.simps)
  next
    case False
    let ?bsz = "block_size data" let ?chunk = "take ?bsz data"
    from 1(3) False have "rx s = kXModemAck #
        replicate (length (block_frames (drop ?bsz data) (block + 1))) kXModemAck @ left"
      by (simp add: block_frames.simps [of data] Let_def)
    from send_attempts_answer [OF 1(2) this, where block_sz = ?bsz and block = "block + 1" and
        chunk = ?chunk and crc = "crc16_block ?chunk ?bsz" and max_errors = max_errors and
        errors = errors and cancels = cancels, unfolded if_P [OF refl]] obtain s1
      where s1: "send_attempts H ?bsz (block + 1) ?chunk (crc16_block ?chunk ?bsz) max_errors errors cancels s =
          Some (Inr (errors, cancels), s1)" "ready s1" "rest s1 = rest s"
        "rx s1 = replicate (length (block_frames (drop ?bsz data) (block + 1))) kXModemAck @ left"
        "tx s1 = tx s @ frame_bytes ?bsz (block + 1) ?chunk (crc16_block ?chunk ?bsz)"
      by blast
    from 1(1) [OF False refl refl s1(2,4)] obtain s2
      where s2: "send_blocks H (drop ?bsz data) (block + 1) max_errors errors cancels s1 = Some (kErrorOk, s2)"
        "ready s2" "rx s2 = left" "rest s2 = rest s1"
        "tx s2 = tx s1 @ concat (block_frames (drop ?bsz data) (block + 1))" by blast
    from False s1 s2 show ?thesis
      by (simp add: send_blocks.simps [of H data] block_frames.simps [of data] Let_def)
  qed
qed

lemma xmodem_send_line:
  assumes "ready s" "rx s = kXModemCrc16 # replicate (length (block_frames data 0)) kXModemAck @ [a]"
  shows "\<exists>s'. xmodem_send H data s = Some (kErrorOk, s') \<and> ready s' \<and> rx s' = [] \<and>
    tx s' = tx s @ concat (block_frames data 0) @ [kXModemEof] \<and> rest s' = rest s"
proof -
  have one: "length [c] = unat (1 :: u32)" for c :: u8 by simp
  from xmodem_read_line [OF assms(1) _ one] assms(2) obtain s1
    where s1: "xmodem_read H 1 kXModemLongTimeout s = Some ([kXModemCrc16], s1)"
      and q1: "quiet s s1 (replicate (length (block_frames data 0)) kXModemAck @ [a])" by auto
  have start: "xmodem_send_start H 30 s = Some (kErrorOk, s1)"
  proof -
    have "unat (30 :: u32) = Suc 29" by simp
    then show ?thesis by (simp only: xmodem_send_start_def send_start_loop.simps s1 bind.bind_lunit
          prod.case list.sel list.distinct if_False if_True simp_thms)
  qed
  from q1 have q1': "ready s1" "rx s1 = replicate (length (block_frames data 0)) kXModemAck @ [a]"
    by (simp_all add: quiet_def)
  from send_blocks_acked [OF q1'] obtain s2
    where s2: "xmodem_send_data H data kXModemMaxErrors s1 = Some (kErrorOk, s2)" "ready s2"
      "rx s2 = [a]" "tx s2 = tx s1 @ concat (block_frames data 0)" "rest s2 = rest s1"
    unfolding xmodem_send_data_def by blast
  from send [OF s2(2), of kXModemEof] obtain s3
    where s3: "xmodem_putchar H kXModemEof s2 = Some s3" "ready s3" "rx s3 = rx s2"
      "tx s3 = tx s2 @ [kXModemEof]" "rest s3 = rest s2"
    by (auto simp: xmodem_putchar_def xmodem_write_def)
  from xmodem_read_line [OF s3(2) _ one] s3(3) s2(3) obtain s4
    where s4: "xmodem_read H 1 kXModemLongTimeout s3 = Some ([a], s4)" "quiet s3 s4 []" by auto
  from start s2 s3 s4 q1 show ?thesis
    by (simp add: xmodem_send_def xmodem_send_finish_def quiet_def)
qed

end

section \<open>Every transfer ends\<close>

lemma rom_uart_write_returns:
  "(\<And>c s. rom_uart_putchar H c s \<noteq> None) \<Longrightarrow> rom_uart_write H cs s \<noteq> None"
  by (induction cs arbitrary: s) (auto simp: bind_eq_None_conv)

lemma send_start_returns:
  "(\<And>s. xmodem_read H 1 kXModemLongTimeout s \<noteq> None) \<Longrightarrow> send_start_loop H n cancels s \<noteq> None"
  by (induction n arbitrary: cancels s) (auto simp: bind_eq_None_conv split: prod.split)

text \<open>
  Every answer that does not end the attempts uses up an error or the one cancel that is
  tolerated.
\<close>

lemma send_attempts_returns:
  assumes read: "\<And>s. xmodem_read H 1 kXModemLongTimeout s \<noteq> None"
    and putc: "\<And>c s. rom_uart_putchar H c s \<noteq> None"
  shows "errors < max_errors \<Longrightarrow> cancels < 2 \<Longrightarrow>
    \<exists>r s'. send_attempts H block_sz block chunk crc max_errors errors cancels s = Some (r, s') \<and>
      (\<forall>e c. r = Inr (e, c) \<longrightarrow> e < max_errors \<and> c < 2)"
proof (induction "unat max_errors - unat errors + (2 - unat cancels)" arbitrary: errors cancels s
    rule: less_induct)
  case less
  obtain s1 where s1: "send_frame H block_sz block chunk crc s = Some s1"
    using rom_uart_write_returns [OF putc] unfolding send_frame_write by blast
  obtain c s2 where s2: "xmodem_read H 1 kXModemLongTimeout s1 = Some (c, s2)"
    using read [of s1] by auto
  note step = send_attempts.simps [of H block_sz block chunk crc max_errors errors cancels s,
      unfolded s1 s2 bind.bind_lunit prod.case]
  from less.prems(2) have "unat cancels < 2" by (simp add: word_less_nat_alt)
  then have c1: "unat (cancels + 1) = unat cancels + 1" by (subst unat_word_ariths) simp
  have e1: "unat (errors + 1) = unat errors + 1"
  proof -
    from less.prems(1) have "unat errors < unat max_errors" by (simp add: word_less_nat_alt)
    with unsigned_less [of max_errors, where 'a = nat] show ?thesis
      by (subst unat_word_ariths) simp
  qed
  consider "c = [] \<or> hd c = kXModemAck \<or> (hd c = kXModemCancel \<and> cancels + 1 \<ge> 2) \<or>
      (hd c \<noteq> kXModemCancel \<and> errors + 1 \<ge> max_errors)"
    | (cancel) "c \<noteq> []" "hd c = kXModemCancel" "cancels + 1 < 2"
    | (err) "c \<noteq> []" "hd c \<noteq> kXModemAck" "hd c \<noteq> kXModemCancel" "errors + 1 < max_errors"
    by fastforce
  then show ?case
  proof cases
    case 1
    with less.prems show ?thesis by (auto simp: step xmodem_chars)
  next
    case cancel
    have "unat max_errors - unat errors + (2 - unat (cancels + 1)) <
        unat max_errors - unat errors + (2 - unat cancels)"
      using c1 \<open>unat cancels < 2\<close> by simp
    from less.hyps [OF this less.prems(1) cancel(3), of s2] cancel less.prems(1)
    show ?thesis by (simp add: step xmodem_chars not_le [symmetric])
  next
    case err
    have "unat max_errors - unat (errors + 1) + (2 - unat cancels) <
        unat max_errors - unat errors + (2 - unat cancels)"
      using e1 err(4) by (simp add: word_less_nat_alt)
    from less.hyps [OF this err(4) less.prems(2), of s2] err
    show ?thesis by (simp add: step not_le [symmetric])
  qed
qed

lemma send_blocks_returns:
  assumes read: "\<And>s. xmodem_read H 1 kXModemLongTimeout s \<noteq> None"
    and putc: "\<And>c s. rom_uart_putchar H c s \<noteq> None"
  shows "errors < max_errors \<Longrightarrow> cancels < 2 \<Longrightarrow>
    send_blocks H data block max_errors errors cancels s \<noteq> None"
proof (induction "length data" arbitrary: data block errors cancels s rule: less_induct)
  case less
  show ?case
  proof (cases "data = []")
    case True
    then show ?thesis by (simp add: send_blocks.simps)
  next
    case False
    let ?n = "block_size data" let ?chunk = "take ?n data"
    from send_attempts_returns [OF read putc less.prems, of ?n "block + 1" ?chunk
        "crc16_block ?chunk ?n" s]
    obtain r s' where r: "send_attempts H ?n (block + 1) ?chunk (crc16_block ?chunk ?n)
        max_errors errors cancels s = Some (r, s')"
      and inr: "\<forall>e c. r = Inr (e, c) \<longrightarrow> e < max_errors \<and> c < 2" by blast
    have "length (drop ?n data) < length data" using False by simp
    from less.hyps [OF this] inr
    have "r = Inr (e, c) \<Longrightarrow> send_blocks H (drop ?n data) (block + 1) max_errors e c s' \<noteq> None" for e c
      by blast
    with r False show ?thesis
      by (subst send_blocks.simps) (auto simp: Let_def split: sum.split)
  qed
qed

section \<open>Properties\<close>

lemma length_frame_payload:
  "length chunk \<le> n \<Longrightarrow> length (chunk @ replicate (n - length chunk) 0) = n"
  by simp

text \<open>
  A block sent as a frame is received: over any two serial lines where the receiver gets
  what the sender wrote, the receiver that expects this frame number finds the frame in order,
  stores the block padded with zeros to the frame's size, and leaves what follows unread.
\<close>

lemma xmodem_frame_roundtrip:
  assumes "serial_line S sready srx stx srest" "sready s"
    and "serial_line R rready rrx rtx rrest" "rready r"
    and "block_sz = 128 \<or> block_sz = 1024" "length chunk \<le> block_sz" "block_sz \<le> unat avail"
    and "rrx r = drop (length (stx s)) (stx (the (send_frame S block_sz frame chunk
           (crc16_block chunk block_sz) s))) @ left"
  shows "\<exists>r'. xmodem_recv_frame R frame avail b r =
      Some (kErrorOk, b\<lparr>rx_data := (chunk @ replicate (block_sz - length chunk) 0) @
              drop block_sz (rx_data b), rxlen := of_nat block_sz\<rparr>, r') \<and>
    rrx r' = left \<and> rtx r' = rtx r \<and> rrest r' = rrest r"
proof -
  let ?crc = "crc16_block chunk block_sz"
  from serial_line.send_frame_line [OF assms(1,2)] obtain s' where
    s': "send_frame S block_sz frame chunk ?crc s = Some s'"
      "stx s' = stx s @ frame_bytes block_sz frame chunk ?crc" by blast
  note l = length_frame_payload [OF assms(6)]
  have rx: "rrx r = [if block_sz = 128 then kXModemSoh else kXModemStx, ucast frame, 255 - ucast frame] @
      (chunk @ replicate (block_sz - length chunk) 0) @
      [ucast (drop_bit 8 ?crc), ucast (?crc AND 0xFF)] @ left"
    using assms(8) s' by (simp add: frame_bytes_def)
  note serial_line.recv_frame_line [OF assms(3,4) rx l assms(5,7) refl, of b]
  moreover have "fill (chunk @ replicate (block_sz - length chunk) 0) b =
      b\<lparr>rx_data := (chunk @ replicate (block_sz - length chunk) 0) @ drop block_sz (rx_data b)\<rparr>"
    unfolding fill_def l ..
  ultimately show ?thesis
    unfolding serial_line.quiet_def [OF assms(3)] crc_bytes_join crc16_block_padded if_P [OF refl]
    by auto
qed

definition demo_out :: recv_out where
  "demo_out = \<lparr>rx_data = replicate 2048 0, rxlen = 0, unknown_rx = 0\<rparr>"

lemma xmodem_frame_roundtrip_witness:
  "\<exists>r'. xmodem_recv_frame (chip_hw ()) 1 2048 demo_out
      \<lparr>line_in = frame_bytes 128 1 [7, 8, 9] (crc16_block [7, 8, 9] 128), line_out = []\<rparr> =
    Some (kErrorOk, demo_out\<lparr>rx_data := ([7, 8, 9] @ replicate 125 0) @ drop 128 (rx_data demo_out),
      rxlen := 128\<rparr>, r') \<and> line_in r' = []"
proof -
  let ?crc = "crc16_block [7, 8, 9] 128" and ?s = "\<lparr>line_in = [], line_out = []\<rparr>"
  from chip_line.send_frame_line [where s = ?s and block_sz = 128 and block = 1 and
      chunk = "[7, 8, 9]" and crc = ?crc and m = "()"]
  have "line_out (the (send_frame (chip_hw ()) 128 1 [7, 8, 9] ?crc ?s)) =
      frame_bytes 128 1 [7, 8, 9] ?crc" by auto
  then show ?thesis
    using xmodem_frame_roundtrip [OF chip_line.serial_line_axioms TrueI chip_line.serial_line_axioms TrueI,
        of 128 "[7, 8, 9]" 2048 "\<lparr>line_in = frame_bytes 128 1 [7, 8, 9] ?crc, line_out = []\<rparr>"
          ?s "()" 1 "[]" "()" demo_out]
    by auto
qed

text \<open>
  C21: A frame in which one byte of the block was damaged on the way is refused: the receiver
  reports a checksum error, has consumed the whole frame and has sent nothing.
\<close>

theorem xmodem_damage_detected:
  assumes "serial_line H ready rx tx rest" "ready s"
    and "block_sz = 128 \<or> block_sz = 1024" "length chunk \<le> block_sz" "block_sz \<le> unat avail"
    and "rx s = (frame_bytes block_sz frame chunk (crc16_block chunk block_sz))[3 + i := c] @ left"
    and "i < block_sz" "c \<noteq> (chunk @ replicate (block_sz - length chunk) 0) ! i"
  shows "\<exists>s' b'. xmodem_recv_frame H frame avail b s = Some (kErrorXModemCrc, b', s') \<and>
    rx s' = left \<and> tx s' = tx s \<and> rest s' = rest s"
proof -
  let ?crc = "crc16_block chunk block_sz"
  let ?pay = "chunk @ replicate (block_sz - length chunk) 0"
  note l = length_frame_payload [OF assms(4)]
  have rx: "rx s = [if block_sz = 128 then kXModemSoh else kXModemStx, ucast frame, 255 - ucast frame] @
      ?pay[i := c] @ [ucast (drop_bit 8 ?crc), ucast (?crc AND 0xFF)] @ left"
    unfolding assms(6) frame_bytes_def using assms(7) l
    by (simp add: list_update_append1 del: length_append append_assoc)
  have lp: "length (?pay[i := c]) = block_sz" using l by (simp only: length_list_update)
  from assms(7) l have "i < length ?pay" by (simp only:)
  from crc16_damaged [OF this assms(8)] have "?crc \<noteq> crc16 0 (?pay[i := c])"
    unfolding crc16_block_padded by (rule not_sym)
  with serial_line.recv_frame_line [OF assms(1,2) rx lp assms(3,5) refl, of b]
  show ?thesis
    unfolding serial_line.quiet_def [OF assms(1)] crc_bytes_join by auto
qed

theorem xmodem_damage_detected_witness:
  "\<exists>s' b'. xmodem_recv_frame (chip_hw ()) 1 2048 demo_out
      \<lparr>line_in = (frame_bytes 128 1 [7, 8, 9] (crc16_block [7, 8, 9] 128))[3 + 1 := 0], line_out = []\<rparr> =
    Some (kErrorXModemCrc, b', s') \<and> line_in s' = []"
  using xmodem_damage_detected [OF chip_line.serial_line_axioms TrueI, of 128 "[7, 8, 9]" 2048
      "\<lparr>line_in = (frame_bytes 128 1 [7, 8, 9] (crc16_block [7, 8, 9] 128))[3 + 1 := 0], line_out = []\<rparr>"
      1 1 0 "[]" "()" demo_out]
  by auto

text \<open>
  C22: A peer that asks for the transfer and acknowledges every frame gets the whole buffer:
  the frames of its blocks in order, each once, 1024 bytes each while that many remain and 128
  after, then the end of file, and \<open>xmodem_send\<close> succeeds.
\<close>

theorem xmodem_send_acked:
  assumes "serial_line H ready rx tx rest" "ready s"
    and "rx s = kXModemCrc16 # replicate (length (block_frames data 0)) kXModemAck @ [a]"
  shows "\<exists>s'. xmodem_send H data s = Some (kErrorOk, s') \<and> rx s' = [] \<and>
    tx s' = tx s @ concat (block_frames data 0) @ [kXModemEof] \<and> rest s' = rest s"
  using serial_line.xmodem_send_line [OF assms] by blast

theorem xmodem_send_acked_witness:
  "\<exists>s'. xmodem_send (chip_hw ()) [1, 2, 3] \<lparr>line_in = [0x43, 0x06, 0x06], line_out = []\<rparr> =
      Some (kErrorOk, s') \<and>
    line_out s' = frame_bytes 128 1 [1, 2, 3] (crc16_block [1, 2, 3] 128) @ [0x04]"
proof -
  have "block_frames [1, 2, 3] 0 = [frame_bytes 128 1 [1, 2, 3] (crc16_block [1, 2, 3] 128)]"
    by (simp add: block_frames.simps block_size_def Let_def)
  then show ?thesis
    using xmodem_send_acked [OF chip_line.serial_line_axioms TrueI,
        of "\<lparr>line_in = [0x43, 0x06, 0x06], line_out = []\<rparr>" "[1, 2, 3]" "0x06" "()"]
    by (auto simp: xmodem_chars)
qed

text \<open>
  Sending ends whatever the peer answers: when the driver's reads and writes return, so does
  \<open>xmodem_send\<close>, with one of its errors or success; retransmission cannot go on for ever.
\<close>

lemma xmodem_send_returns:
  assumes "\<And>s. xmodem_read H 1 kXModemLongTimeout s \<noteq> None"
    and "\<And>c s. rom_uart_putchar H c s \<noteq> None"
  shows "\<exists>e s'. xmodem_send H data s = Some (e, s')"
proof -
  have "kXModemMaxErrors > 0" by (simp add: kXModemMaxErrors_def)
  note blocks = send_blocks_returns [OF assms this, of 0 data 0]
  have fin: "xmodem_send_finish H s \<noteq> None" for s
  proof -
    obtain s1 where s1: "rom_uart_putchar H kXModemEof s = Some s1" using assms(2) by fast
    obtain r where r: "xmodem_read H 1 kXModemLongTimeout s1 = Some r" using assms(1) by fast
    from s1 r show ?thesis
      by (cases r) (simp add: xmodem_send_finish_def xmodem_putchar_def xmodem_write_def)
  qed
  obtain e1 s1 where "xmodem_send_start H 30 s = Some (e1, s1)"
    using send_start_returns [OF assms(1)] unfolding xmodem_send_start_def by fast
  moreover obtain e2 s2 where "xmodem_send_data H data kXModemMaxErrors s1 = Some (e2, s2)"
    using blocks unfolding xmodem_send_data_def by fastforce
  moreover obtain e3 s3 where "xmodem_send_finish H s2 = Some (e3, s3)"
    using fin by fast
  ultimately show ?thesis by (simp add: xmodem_send_def)
qed

text \<open>A line on which every read at once returns noise.\<close>

definition noisy_hw :: "line_chip rom_hw" where
  "noisy_hw = (chip_hw ())\<lparr>rom_bus := \<lparr>bus_read = (\<lambda>_ s. (0x08, s)), bus_write = (\<lambda>_ _ s. s)\<rparr>\<rparr>"

lemma noisy_poll:
  "\<not> busy 0x08 \<Longrightarrow> poll \<lparr>bus_read = \<lambda>_ s. (0x08, s), bus_write = w\<rparr> a busy s = Some (0x08, s)"
  by (subst poll.simps) simp

lemma xmodem_send_returns_witness:
  "\<exists>e s'. xmodem_send noisy_hw [1, 2, 3] \<lparr>line_in = [], line_out = []\<rparr> = Some (e, s')"
proof (rule xmodem_send_returns)
  have b3: "bitfield_bit32_read 0x08 3" and b: "\<not> bitfield_bit32_read 0x08 0" "\<not> bitfield_bit32_read 0x08 5"
    by (simp_all add: bitfield_bit32_read_bit)
  have H: "rom_bus noisy_hw = \<lparr>bus_read = (\<lambda>_ s. (0x08, s)), bus_write = (\<lambda>_ _ s. s)\<rparr>"
    "UART_STATUS_TXFULL_BIT noisy_hw = 0" "UART_STATUS_TXIDLE_BIT noisy_hw = 3"
    "UART_STATUS_RXEMPTY_BIT noisy_hw = 5" "ibex_mcycle noisy_hw s = (0, s)" for s
    by (simp_all add: noisy_hw_def chip_hw_def)
  fix c s
  show "rom_uart_putchar noisy_hw c s \<noteq> None"
    by (simp add: rom_uart_putchar_def putchar_nonblocking_def H noisy_poll rom_uart_tx_full_def
        rom_uart_tx_idle_def b b3 uart_reg_write_def)
  have "rx_wait noisy_hw dl s = Some (True, s)" for dl
    by (subst rx_wait.simps) (simp add: rom_uart_rx_empty_def uart_reg_def H b)
  then show "xmodem_read noisy_hw 1 kXModemLongTimeout s \<noteq> None"
    by (simp add: xmodem_read_def rom_uart_read_def H Let_def uart_reg_def)
qed

end
