(* ===== verification/Rom_Codes.thy ===== *)
theory Rom_Codes
  imports Prelude
begin

unbundle bit_operations_syntax

text \<open>
  The numbers of \<open>rom_error_t\<close> (\<open>sw/device/silicon_creator/lib/error.h\<close>) and of the hardened
  booleans (\<open>sw/device/lib/base/hardened.h\<close>), for the code that computes with them, and the hardened
  check, which traps (None) when its condition fails.
\<close>

section \<open>Error words\<close>

definition MODULE_CODE :: "u32 \<Rightarrow> u32 \<Rightarrow> u32" where
  "MODULE_CODE ch0 ch1 = push_bit 8 ch0 OR ch1"

definition ERROR_CODE :: "u32 \<Rightarrow> u32 \<Rightarrow> u32 \<Rightarrow> u32" where
  "ERROR_CODE err module status = push_bit 24 err OR push_bit 8 module OR status"

definition kInvalidArgument :: u32 where "kInvalidArgument = 3"
definition kNotFound :: u32 where "kNotFound = 5"
definition kAlreadyExists :: u32 where "kAlreadyExists = 6"
definition kPermissionDenied :: u32 where "kPermissionDenied = 7"
definition kOutOfRange :: u32 where "kOutOfRange = 11"
definition kInternal :: u32 where "kInternal = 13"

definition kModuleFlashCtrl :: u32 where "kModuleFlashCtrl = MODULE_CODE 0x46 0x43"
definition kModuleBootData :: u32 where "kModuleBootData = MODULE_CODE 0x42 0x44"
definition kModuleSigverify :: u32 where "kModuleSigverify = MODULE_CODE 0x53 0x56"
definition kModuleBootSvc :: u32 where "kModuleBootSvc = MODULE_CODE 0x42 0x43"
definition kModuleOwnership :: u32 where "kModuleOwnership = MODULE_CODE 0x4f 0x57"

definition kErrorOk_value :: u32 where "kErrorOk_value = 0x739"
definition kErrorWriteBootdataThenReboot :: u32 where "kErrorWriteBootdataThenReboot = 0x2ea"
definition kErrorFlashCtrlInfoRead :: u32 where "kErrorFlashCtrlInfoRead = ERROR_CODE 2 kModuleFlashCtrl kInternal"
definition kErrorFlashCtrlInfoWrite :: u32 where "kErrorFlashCtrlInfoWrite = ERROR_CODE 4 kModuleFlashCtrl kInternal"
definition kErrorFlashCtrlInfoErase :: u32 where "kErrorFlashCtrlInfoErase = ERROR_CODE 6 kModuleFlashCtrl kInternal"
definition kErrorBootDataNotFound :: u32 where "kErrorBootDataNotFound = ERROR_CODE 1 kModuleBootData kInternal"
definition kErrorBootDataWriteCheck :: u32 where "kErrorBootDataWriteCheck = ERROR_CODE 2 kModuleBootData kInternal"
definition kErrorBootDataInvalid :: u32 where "kErrorBootDataInvalid = ERROR_CODE 3 kModuleBootData kInternal"
definition kErrorSigverifyBadSpxSignature :: u32 where
  "kErrorSigverifyBadSpxSignature = ERROR_CODE 2 kModuleSigverify kInvalidArgument"
definition kErrorSigverifyBadEcdsaSignature :: u32 where
  "kErrorSigverifyBadEcdsaSignature = ERROR_CODE 7 kModuleSigverify kInvalidArgument"
definition kErrorSigverifyBadSpxConfig :: u32 where
  "kErrorSigverifyBadSpxConfig = ERROR_CODE 10 kModuleSigverify kInvalidArgument"
definition kErrorSigverifyEcdsaNotFound :: u32 where
  "kErrorSigverifyEcdsaNotFound = ERROR_CODE 11 kModuleSigverify kNotFound"
definition kErrorSigverifySpxNotFound :: u32 where
  "kErrorSigverifySpxNotFound = ERROR_CODE 12 kModuleSigverify kNotFound"
definition kErrorBootSvcBadHeader :: u32 where
  "kErrorBootSvcBadHeader = ERROR_CODE 1 kModuleBootSvc kInternal"
definition kErrorBootSvcBadSlot :: u32 where
  "kErrorBootSvcBadSlot = ERROR_CODE 2 kModuleBootSvc kInvalidArgument"
definition kErrorBootSvcBadSecVer :: u32 where
  "kErrorBootSvcBadSecVer = ERROR_CODE 3 kModuleBootSvc kInvalidArgument"
definition kErrorOwnershipInvalidNonce :: u32 where
  "kErrorOwnershipInvalidNonce = ERROR_CODE 0 kModuleOwnership kInvalidArgument"
definition kErrorOwnershipInvalidMode :: u32 where
  "kErrorOwnershipInvalidMode = ERROR_CODE 1 kModuleOwnership kInvalidArgument"
definition kErrorOwnershipInvalidSignature :: u32 where
  "kErrorOwnershipInvalidSignature = ERROR_CODE 2 kModuleOwnership kInvalidArgument"
definition kErrorOwnershipInvalidState :: u32 where
  "kErrorOwnershipInvalidState = ERROR_CODE 3 kModuleOwnership kInvalidArgument"
definition kErrorOwnershipInvalidRequest :: u32 where
  "kErrorOwnershipInvalidRequest = ERROR_CODE 4 kModuleOwnership kInvalidArgument"
definition kErrorOwnershipInvalidTag :: u32 where
  "kErrorOwnershipInvalidTag = ERROR_CODE 5 kModuleOwnership kInvalidArgument"
definition kErrorOwnershipInvalidTagLength :: u32 where
  "kErrorOwnershipInvalidTagLength = ERROR_CODE 6 kModuleOwnership kInvalidArgument"
definition kErrorOwnershipDuplicateItem :: u32 where
  "kErrorOwnershipDuplicateItem = ERROR_CODE 7 kModuleOwnership kAlreadyExists"
definition kErrorOwnershipFlashConfigLength :: u32 where
  "kErrorOwnershipFlashConfigLength = ERROR_CODE 8 kModuleOwnership kOutOfRange"
definition kErrorOwnershipInvalidInfoPage :: u32 where
  "kErrorOwnershipInvalidInfoPage = ERROR_CODE 9 kModuleOwnership kInvalidArgument"
definition kErrorOwnershipBadInfoPage :: u32 where
  "kErrorOwnershipBadInfoPage = ERROR_CODE 10 kModuleOwnership kInternal"
definition kErrorOwnershipNoOwner :: u32 where
  "kErrorOwnershipNoOwner = ERROR_CODE 11 kModuleOwnership kInternal"
definition kErrorOwnershipKeyNotFound :: u32 where
  "kErrorOwnershipKeyNotFound = ERROR_CODE 12 kModuleOwnership kNotFound"
definition kErrorOwnershipInvalidDin :: u32 where
  "kErrorOwnershipInvalidDin = ERROR_CODE 13 kModuleOwnership kInvalidArgument"
definition kErrorOwnershipUnlockDenied :: u32 where
  "kErrorOwnershipUnlockDenied = ERROR_CODE 14 kModuleOwnership kPermissionDenied"
definition kErrorOwnershipFlashConfigRomExt :: u32 where
  "kErrorOwnershipFlashConfigRomExt = ERROR_CODE 15 kModuleOwnership kInvalidArgument"
definition kErrorOwnershipFlashConfigBounds :: u32 where
  "kErrorOwnershipFlashConfigBounds = ERROR_CODE 16 kModuleOwnership kInvalidArgument"
definition kErrorOwnershipInvalidAlgorithm :: u32 where
  "kErrorOwnershipInvalidAlgorithm = ERROR_CODE 17 kModuleOwnership kInvalidArgument"
definition kErrorOwnershipFlashConfigSlots :: u32 where
  "kErrorOwnershipFlashConfigSlots = ERROR_CODE 18 kModuleOwnership kInvalidArgument"
definition kErrorOwnershipInvalidRescueBounds :: u32 where
  "kErrorOwnershipInvalidRescueBounds = ERROR_CODE 19 kModuleOwnership kInvalidArgument"
definition kErrorOwnershipSignatureNotFound :: u32 where
  "kErrorOwnershipSignatureNotFound = ERROR_CODE 20 kModuleOwnership kNotFound"
definition kErrorOwnershipISFBNotPresent :: u32 where
  "kErrorOwnershipISFBNotPresent = ERROR_CODE 0x60 kModuleOwnership kNotFound"
definition kErrorOwnershipISFBProductExpCnt :: u32 where
  "kErrorOwnershipISFBProductExpCnt = ERROR_CODE 0x61 kModuleOwnership kOutOfRange"
definition kErrorOwnershipISFBStrikeMask :: u32 where
  "kErrorOwnershipISFBStrikeMask = ERROR_CODE 0x62 kModuleOwnership kPermissionDenied"
definition kErrorOwnershipISFBProductExp :: u32 where
  "kErrorOwnershipISFBProductExp = ERROR_CODE 0x63 kModuleOwnership kPermissionDenied"
definition kErrorOwnershipISFBFailed :: u32 where
  "kErrorOwnershipISFBFailed = ERROR_CODE 0x64 kModuleOwnership kInternal"
definition kErrorOwnershipISFBPage :: u32 where
  "kErrorOwnershipISFBPage = ERROR_CODE 0x65 kModuleOwnership kInvalidArgument"
definition kErrorOwnershipISFBSize :: u32 where
  "kErrorOwnershipISFBSize = ERROR_CODE 0x66 kModuleOwnership kInvalidArgument"
definition kErrorOwnershipOWNRVersion :: u32 where
  "kErrorOwnershipOWNRVersion = ERROR_CODE 0x70 kModuleOwnership kInvalidArgument"
definition kErrorOwnershipAPPKVersion :: u32 where
  "kErrorOwnershipAPPKVersion = ERROR_CODE 0x71 kModuleOwnership kInvalidArgument"
definition kErrorOwnershipFLSHVersion :: u32 where
  "kErrorOwnershipFLSHVersion = ERROR_CODE 0x72 kModuleOwnership kInvalidArgument"
definition kErrorOwnershipINFOVersion :: u32 where
  "kErrorOwnershipINFOVersion = ERROR_CODE 0x73 kModuleOwnership kInvalidArgument"
definition kErrorOwnershipRESQVersion :: u32 where
  "kErrorOwnershipRESQVersion = ERROR_CODE 0x74 kModuleOwnership kInvalidArgument"
definition kErrorOwnershipISFBVersion :: u32 where
  "kErrorOwnershipISFBVersion = ERROR_CODE 0x75 kModuleOwnership kInvalidArgument"

lemmas ownership_errors =
  MODULE_CODE_def ERROR_CODE_def kInvalidArgument_def kNotFound_def kAlreadyExists_def kPermissionDenied_def
  kOutOfRange_def kInternal_def kErrorOk_value_def kErrorWriteBootdataThenReboot_def
  kModuleSigverify_def kModuleBootSvc_def kModuleOwnership_def kErrorSigverifyBadSpxSignature_def
  kErrorSigverifyBadEcdsaSignature_def kErrorSigverifyBadSpxConfig_def
  kErrorSigverifyEcdsaNotFound_def kErrorSigverifySpxNotFound_def kErrorBootSvcBadHeader_def
  kErrorBootSvcBadSlot_def kErrorBootSvcBadSecVer_def kErrorOwnershipInvalidNonce_def
  kErrorOwnershipInvalidMode_def kErrorOwnershipInvalidSignature_def kErrorOwnershipInvalidState_def
  kErrorOwnershipInvalidRequest_def kErrorOwnershipInvalidTag_def
  kErrorOwnershipInvalidTagLength_def kErrorOwnershipDuplicateItem_def
  kErrorOwnershipFlashConfigLength_def kErrorOwnershipInvalidInfoPage_def
  kErrorOwnershipBadInfoPage_def kErrorOwnershipNoOwner_def kErrorOwnershipKeyNotFound_def
  kErrorOwnershipInvalidDin_def kErrorOwnershipUnlockDenied_def kErrorOwnershipFlashConfigRomExt_def
  kErrorOwnershipFlashConfigBounds_def kErrorOwnershipInvalidAlgorithm_def
  kErrorOwnershipFlashConfigSlots_def kErrorOwnershipInvalidRescueBounds_def
  kErrorOwnershipSignatureNotFound_def kErrorOwnershipISFBNotPresent_def
  kErrorOwnershipISFBProductExpCnt_def kErrorOwnershipISFBStrikeMask_def
  kErrorOwnershipISFBProductExp_def kErrorOwnershipISFBFailed_def kErrorOwnershipISFBPage_def
  kErrorOwnershipISFBSize_def kErrorOwnershipOWNRVersion_def kErrorOwnershipAPPKVersion_def
  kErrorOwnershipFLSHVersion_def kErrorOwnershipINFOVersion_def kErrorOwnershipRESQVersion_def
  kErrorOwnershipISFBVersion_def

section \<open>Hardened values\<close>

definition kHardenedBoolTrue :: u32 where "kHardenedBoolTrue = 0x739"
definition kHardenedBoolFalse :: u32 where "kHardenedBoolFalse = 0x1d4"
definition kMultiBitBool4True :: u32 where "kMultiBitBool4True = 0x6"
definition kMultiBitBool4False :: u32 where "kMultiBitBool4False = 0x9"

definition HARDENED_CHECK :: "bool \<Rightarrow> unit option" where
  "HARDENED_CHECK c = (if c then Some () else None)"

lemma HARDENED_CHECK_simps [simp]:
  "HARDENED_CHECK True = Some ()" "HARDENED_CHECK False = None"
  by (simp_all add: HARDENED_CHECK_def)

section \<open>Exclusive or of many words\<close>

definition xor_sum :: "(nat \<Rightarrow> u32) \<Rightarrow> nat list \<Rightarrow> u32" where
  "xor_sum f is = fold (\<lambda>i x. x XOR f i) is 0"

lemma xor_left_self: "x XOR (x XOR y) = (y :: u32)"
  by (simp flip: xor.assoc)

lemma xor_right_cancel: "x XOR z = y XOR z \<longleftrightarrow> x = (y :: u32)"
  by (rule xor_right_cancel_word)

lemmas xor_ac = xor.assoc xor.left_commute xor.commute xor_left_self

lemma check_fold:
  "fold (\<lambda>i e. e XOR (f i XOR g i XOR s i)) is e0 = e0 XOR xor_sum f is XOR xor_sum g is XOR xor_sum s is"
  by (induction "is" rule: rev_induct) (simp_all add: xor_sum_def xor.assoc xor.left_commute)

lemma xor_sum_cong: "(\<And>k. k \<in> set is \<Longrightarrow> f k = g k) \<Longrightarrow> xor_sum f is = xor_sum g is"
  unfolding xor_sum_def by (intro fold_cong) auto

lemma xor_sum_snoc: "xor_sum f (is @ [k]) = xor_sum f is XOR f k"
  by (simp add: xor_sum_def)

lemma xor_sum_flip:
  "distinct is \<Longrightarrow> i \<in> set is \<Longrightarrow> xor_sum (f(i := f i XOR x)) is = xor_sum f is XOR x"
proof (induction "is" rule: rev_induct)
  case (snoc k ks)
  show ?case
  proof (cases "k = i")
    case True
    then have "xor_sum (f(i := f i XOR x)) ks = xor_sum f ks"
      using snoc.prems(1) by (intro xor_sum_cong) auto
    then show ?thesis using True by (simp add: xor_sum_snoc xor_ac fun_upd_same del: fun_upd_apply)
  qed (use snoc in \<open>simp add: xor_sum_snoc xor_ac fun_upd_other del: fun_upd_apply\<close>)
qed simp

section \<open>Differences as all ones\<close>

lemma unat_u32_less: "unat (a :: u32) < 4294967296"
  using unsigned_less [of a, where 'a = nat] by simp

lemma bit_31: "bit a 31 \<longleftrightarrow> 2 ^ 31 \<le> unat a" for a :: u32
proof -
  have "unat a < 2 ^ 32" using unsigned_less [of a, where 'a = nat] by simp
  then have "unat a div 2 ^ 31 < 2" by (simp add: div_less_iff_less_mult)
  then have "odd (unat a div 2 ^ 31) \<longleftrightarrow> unat a div 2 ^ 31 \<noteq> 0"
    by (metis One_nat_def even_Suc less_2_cases_iff odd_one even_zero)
  also have "unat a div 2 ^ 31 \<noteq> 0 \<longleftrightarrow> 2 ^ 31 \<le> unat a" by (auto simp: div_eq_0_iff)
  finally have "bit (unat a) 31 \<longleftrightarrow> 2 ^ 31 \<le> unat a" by (simp only: bit_iff_odd)
  then show ?thesis by (simp add: bit_unsigned_iff)
qed

lemma minus_top_bit:
  fixes v :: u32
  assumes "\<not> bit v 31" "v \<noteq> 0"
  shows "bit (- v) 31"
proof -
  have "unat v \<noteq> 0" using assms(2) by (simp add: unat_eq_0)
  moreover have "unat (- v) = 2 ^ 32 - unat v" 
    using assms(2) unat_sub_if_size [of 0 v] by (simp add: word_size unat_eq_0)
  ultimately show ?thesis using assms(1) unat_u32_less [of v] by (simp add: bit_31)
qed

lemma top_bit_one: "bit w 31 \<Longrightarrow> drop_bit 31 w = (1 :: u32)"
  by (rule bit_word_eqI) (auto simp: bit_drop_bit_eq bit_1_iff dest: bit_imp_le_length intro!: gr0I)

text \<open>The two lines that turn any difference into all ones.\<close>

lemma spread_word:
  fixes v :: u32
  shows "(v OR (NOT v + 1)) OR (NOT (drop_bit 31 (v OR (NOT v + 1))) + 1) = (if v = 0 then 0 else 0xffffffff)"
proof (cases "v = 0")
  case False
  have "bit (v OR - v) 31"
    using minus_top_bit [OF _ False] by (auto simp: bit_or_iff)
  then have "drop_bit 31 (v OR - v) = 1" by (rule top_bit_one)
  with False show ?thesis unfolding minus_eq_not_plus_1 [symmetric] by simp
qed simp

lemma or_ones: "v OR 0xffffffff = (0xffffffff :: u32)"
proof -
  have ones: "(0xffffffff :: u32) = - 1" by simp
  show ?thesis unfolding ones by (rule bit.disj_one_right)
qed

end
