(* ===== verification/Owner_Codes.thy ===== *)
theory Owner_Codes
  imports Rom_Codes Bitfield
begin

text \<open>
  The numbers of \<open>sw/device/silicon_creator/lib/ownership/datatypes.h\<close>, \<open>owner_block.h\<close> and
  \<open>ownership_key.h\<close>: ownership states, key algorithms, update modes, tags. An ownership state is a
  word; every word that is none of the four named states counts as the recovery state.
\<close>

definition kOwnershipStateLockedOwner :: u32 where "kOwnershipStateLockedOwner = 0x444e574f"
definition kOwnershipStateUnlockedSelf :: u32 where "kOwnershipStateUnlockedSelf = 0x464c5355"
definition kOwnershipStateUnlockedAny :: u32 where "kOwnershipStateUnlockedAny = 0x594e4155"
definition kOwnershipStateUnlockedEndorsed :: u32 where
  "kOwnershipStateUnlockedEndorsed = 0x444e4555"
definition kOwnershipStateRecovery :: u32 where "kOwnershipStateRecovery = 0"
definition kOwnershipKeyAlgEcdsaP256 :: u32 where "kOwnershipKeyAlgEcdsaP256 = 0x36353250"
definition kOwnershipKeyAlgSpxPure :: u32 where "kOwnershipKeyAlgSpxPure = 0x75502b53"
definition kOwnershipKeyAlgSpxPrehash :: u32 where "kOwnershipKeyAlgSpxPrehash = 0x32532b53"
definition kOwnershipKeyAlgHybridSpxPure :: u32 where "kOwnershipKeyAlgHybridSpxPure = 0x75502b48"
definition kOwnershipKeyAlgHybridSpxPrehash :: u32 where
  "kOwnershipKeyAlgHybridSpxPrehash = 0x32532b48"
definition kOwnershipKeyAlgSq20Pure :: u32 where "kOwnershipKeyAlgSq20Pure = 0x75507153"
definition kOwnershipKeyAlgSq20Prehash :: u32 where "kOwnershipKeyAlgSq20Prehash = 0x32537153"
definition kOwnershipKeyAlgHybridSq20Pure :: u32 where "kOwnershipKeyAlgHybridSq20Pure = 0x75507148"
definition kOwnershipKeyAlgHybridSq20Prehash :: u32 where
  "kOwnershipKeyAlgHybridSq20Prehash = 0x32537148"
definition kOwnershipKeyAlgCategoryMask :: u32 where "kOwnershipKeyAlgCategoryMask = 0xFF"
definition kOwnershipKeyAlgCategoryEcdsa :: u32 where "kOwnershipKeyAlgCategoryEcdsa = 0x50"
definition kOwnershipKeyAlgCategorySpx :: u32 where "kOwnershipKeyAlgCategorySpx = 0x53"
definition kOwnershipKeyAlgCategoryHybrid :: u32 where "kOwnershipKeyAlgCategoryHybrid = 0x48"
definition kOwnershipUpdateModeOpen :: u32 where "kOwnershipUpdateModeOpen = 0x4e45504f"
definition kOwnershipUpdateModeSelf :: u32 where "kOwnershipUpdateModeSelf = 0x464c4553"
definition kOwnershipUpdateModeNewVersion :: u32 where "kOwnershipUpdateModeNewVersion = 0x5657454e"
definition kOwnershipUpdateModeSelfVersion :: u32 where
  "kOwnershipUpdateModeSelfVersion = 0x564c4553"
definition kLockConstraintNone :: u32 where "kLockConstraintNone = 0x7e7e7e7e"
definition kTlvTagOwner :: u32 where "kTlvTagOwner = 0x524e574f"
definition kTlvTagApplicationKey :: u32 where "kTlvTagApplicationKey = 0x4b505041"
definition kTlvTagFlashConfig :: u32 where "kTlvTagFlashConfig = 0x48534c46"
definition kTlvTagInfoConfig :: u32 where "kTlvTagInfoConfig = 0x4f464e49"
definition kTlvTagRescueConfig :: u32 where "kTlvTagRescueConfig = 0x51534552"
definition kTlvTagIntegrationSpecificFirmwareBinding :: u32 where
  "kTlvTagIntegrationSpecificFirmwareBinding = 0x42465349"
definition kTlvTagDetachedSignature :: u32 where "kTlvTagDetachedSignature = 0x4e474953"
definition kTlvTagNotPresent :: u32 where "kTlvTagNotPresent = 0x5a5a5a5a"
definition kOwnerSramExecModeDisabledLocked :: u32 where
  "kOwnerSramExecModeDisabledLocked = 0x58454e4c"
definition kOwnerSramExecModeDisabled :: u32 where "kOwnerSramExecModeDisabled = 0x58454f4e"
definition kOwnerSramExecModeEnabled :: u32 where "kOwnerSramExecModeEnabled = 0x43455845"
definition kOwnerAppDomainTest :: u32 where "kOwnerAppDomainTest = 0x74736574"
definition kOwnerAppDomainDev :: u32 where "kOwnerAppDomainDev = 0x5f766564"
definition kOwnerAppDomainProd :: u32 where "kOwnerAppDomainProd = 0x646f7270"
definition kRescueDetectNone :: u32 where "kRescueDetectNone = 0"
definition kRescueDetectBreak :: u32 where "kRescueDetectBreak = 1"
definition kRescueDetectStrap :: u32 where "kRescueDetectStrap = 2"
definition kRescueDetectGpio :: u32 where "kRescueDetectGpio = 3"

definition RESCUE_DETECT :: bitfield_field32 where "RESCUE_DETECT = \<lparr>fmask = 0x03, findex = 6\<rparr>"
definition RESCUE_DETECT_INDEX :: bitfield_field32 where "RESCUE_DETECT_INDEX = \<lparr>fmask = 0x3F, findex = 0\<rparr>"

definition kOwnerPageStatusInvalid :: u32 where "kOwnerPageStatusInvalid = 0x5f564e49"
definition kOwnerPageStatusSealed :: u32 where "kOwnerPageStatusSealed = 0x4c414553"
definition kOwnerPageStatusSigned :: u32 where "kOwnerPageStatusSigned = 0x4e474953"

definition kOwnershipKeyOwner :: u32 where "kOwnershipKeyOwner = 0x1111"
definition kOwnershipKeyActivate :: u32 where "kOwnershipKeyActivate = 0x2222"
definition kOwnershipKeyUnlock :: u32 where "kOwnershipKeyUnlock = 0x4444"
definition kOwnershipKeyRecovery :: u32 where "kOwnershipKeyRecovery = 0x8888"

lemmas ownership_states =
  kOwnershipStateLockedOwner_def kOwnershipStateUnlockedSelf_def kOwnershipStateUnlockedAny_def
  kOwnershipStateUnlockedEndorsed_def kOwnershipStateRecovery_def

lemmas key_algs =
  kOwnershipKeyAlgEcdsaP256_def kOwnershipKeyAlgSpxPure_def kOwnershipKeyAlgSpxPrehash_def
  kOwnershipKeyAlgHybridSpxPure_def kOwnershipKeyAlgHybridSpxPrehash_def
  kOwnershipKeyAlgSq20Pure_def kOwnershipKeyAlgSq20Prehash_def kOwnershipKeyAlgHybridSq20Pure_def
  kOwnershipKeyAlgHybridSq20Prehash_def kOwnershipKeyAlgCategoryMask_def
  kOwnershipKeyAlgCategoryEcdsa_def kOwnershipKeyAlgCategorySpx_def
  kOwnershipKeyAlgCategoryHybrid_def

lemmas update_modes =
  kOwnershipUpdateModeOpen_def kOwnershipUpdateModeSelf_def kOwnershipUpdateModeNewVersion_def
  kOwnershipUpdateModeSelfVersion_def

lemmas tlv_tags =
  kTlvTagOwner_def kTlvTagApplicationKey_def kTlvTagFlashConfig_def kTlvTagInfoConfig_def
  kTlvTagRescueConfig_def kTlvTagIntegrationSpecificFirmwareBinding_def kTlvTagDetachedSignature_def
  kTlvTagNotPresent_def

lemmas page_statuses =
  kOwnerPageStatusInvalid_def kOwnerPageStatusSealed_def kOwnerPageStatusSigned_def

lemmas ownership_keys =
  kOwnershipKeyOwner_def kOwnershipKeyActivate_def kOwnershipKeyUnlock_def kOwnershipKeyRecovery_def

end
