(* ===== verification/Rescue.thy ===== *)
theory Rescue
  imports Dbg_Print Xmodem Owner_Codes
begin

unbundle bit_operations_syntax

text \<open>
  The firmware rescue of the ROM extension: \<open>rescue.c\<close> and \<open>rescue_xmodem.c\<close> under
  \<open>sw/device/silicon_creator/lib/rescue\<close>. Flash controller, retention SRAM, life cycle, reset
  manager and pins are drivers of other directories and fields of the hardware record; a rescue
  configuration that is absent is \<open>None\<close>. \<open>None\<close> as a result is a call that does not return.
\<close>

section \<open>Data\<close>

definition kRescueModeBaud :: u32 where "kRescueModeBaud = 0x42415544"
definition kRescueModeBootLog :: u32 where "kRescueModeBootLog = 0x424c4f47"
definition kRescueModeBootSvcRsp :: u32 where "kRescueModeBootSvcRsp = 0x42525350"
definition kRescueModeBootSvcReq :: u32 where "kRescueModeBootSvcReq = 0x42524551"
definition kRescueModeOwnerBlock :: u32 where "kRescueModeOwnerBlock = 0x4f574e52"
definition kRescueModeOwnerPage0 :: u32 where "kRescueModeOwnerPage0 = 0x4f504730"
definition kRescueModeOwnerPage1 :: u32 where "kRescueModeOwnerPage1 = 0x4f504731"
definition kRescueModeOpenTitanID :: u32 where "kRescueModeOpenTitanID = 0x4f544944"
definition kRescueModeFirmware :: u32 where "kRescueModeFirmware = 0x52455351"
definition kRescueModeFirmwareSlotB :: u32 where "kRescueModeFirmwareSlotB = 0x52455342"
definition kRescueModeReboot :: u32 where "kRescueModeReboot = 0x5245424f"
definition kRescueModeWait :: u32 where "kRescueModeWait = 0x57414954"

lemmas rescue_modes = kRescueModeBaud_def kRescueModeBootLog_def kRescueModeBootSvcRsp_def
  kRescueModeBootSvcReq_def kRescueModeOwnerBlock_def kRescueModeOwnerPage0_def
  kRescueModeOwnerPage1_def kRescueModeOpenTitanID_def kRescueModeFirmware_def
  kRescueModeFirmwareSlotB_def kRescueModeReboot_def kRescueModeWait_def

definition kRescueBaud115K :: u32 where "kRescueBaud115K = 0x4b353131"
definition kRescueBaud230K :: u32 where "kRescueBaud230K = 0x4b303332"
definition kRescueBaud460K :: u32 where "kRescueBaud460K = 0x4b303634"
definition kRescueBaud921K :: u32 where "kRescueBaud921K = 0x4b313239"
definition kRescueBaud1M33 :: u32 where "kRescueBaud1M33 = 0x33334d31"
definition kRescueBaud1M50 :: u32 where "kRescueBaud1M50 = 0x30354d31"

record owner_rescue_config =
  header_length :: u16
  gpio :: u8
  detect :: u8
  cfg_start :: u16
  cfg_size :: u16
  command_allow :: "nat \<Rightarrow> u32" \<comment> \<open>the words after the structure\<close>

record rescue_state =
  mode :: u32
  reboot :: bool
  frame :: u32
  offset :: u32
  staged_len :: u16
  flash_offset :: u32
  flash_start :: u32
  flash_limit :: u32
  config :: "owner_rescue_config option"
  rdata :: "u8 list" \<comment> \<open>\<open>data[2048]\<close>\<close>

record 'd rescue_hw = "'d rom_hw" +
  kFlashPageSize :: u32
  kFlashBankSize :: u32
  CHIP_ROM_EXT_SIZE_MAX :: u32
  flash_ctrl_data_default_perms_set :: "'d \<Rightarrow> 'd"
  flash_ctrl_data_erase :: "u32 \<Rightarrow> 'd \<Rightarrow> rom_error \<times> 'd"
  flash_ctrl_data_write :: "u32 \<Rightarrow> u8 list \<Rightarrow> 'd \<Rightarrow> rom_error \<times> 'd"
  flash_ctrl_info_erase :: "nat \<Rightarrow> 'd \<Rightarrow> rom_error \<times> 'd" \<comment> \<open>owner slot 0 or 1\<close>
  flash_ctrl_info_write :: "nat \<Rightarrow> u8 list \<Rightarrow> 'd \<Rightarrow> rom_error \<times> 'd"
  flash_ctrl_info_read :: "nat \<Rightarrow> 'd \<Rightarrow> rom_error \<times> u8 list \<times> 'd"
  owner_block_newversion_mode :: "'d \<Rightarrow> bool"
  ret_boot_log :: "'d \<Rightarrow> u8 list"
  ret_boot_svc_msg :: "'d \<Rightarrow> u8 list"
  ret_boot_svc_msg_set :: "u8 list \<Rightarrow> 'd \<Rightarrow> 'd"
  lifecycle_device_id_get :: "'d \<Rightarrow> u8 list"
  rstmgr_reset :: "'d \<Rightarrow> 'd"
  pinmux_read_gpio :: "u32 \<Rightarrow> 'd \<Rightarrow> u32"
  pinmux_read_straps :: "'d \<Rightarrow> u32"
  kUartBaud115K :: u32
  kUartBaud230K :: u32
  kUartBaud460K :: u32
  kUartBaud921K :: u32
  kUartBaud1M33 :: u32
  kUartBaud1M50 :: u32

section \<open>Handlers\<close>

text \<open>The length of the list of allowed commands wraps when the header is shorter than the structure.\<close>

definition owner_rescue_command_allowed :: "owner_rescue_config option \<Rightarrow> u32 \<Rightarrow> bool" where
  "owner_rescue_command_allowed rescue command =
     (case rescue of
        None \<Rightarrow> True
      | Some r \<Rightarrow>
          let n = unat ((ucast (header_length r) - 16 :: u32) div 4)
          in fold (\<lambda>i allowed. if command = command_allow r i then True else allowed) [0..<n] False)"

definition dbg_line :: "('d, 'm) rom_hw_scheme \<Rightarrow> string \<Rightarrow> 'd \<Rightarrow> 'd option" where
  "dbg_line H msg d = dbg_printf H (str_bytes msg @ crlf_bytes) [] d"

partial_function (option) erase_pages ::
  "('d, 'm) rescue_hw_scheme \<Rightarrow> u32 \<Rightarrow> u32 \<Rightarrow> u32 \<Rightarrow> 'd \<Rightarrow> (rom_error \<times> 'd) option" where
  "erase_pages H bank_offset addr limit d =
     (if addr < limit then
        case flash_ctrl_data_erase H (bank_offset + addr) d of (e, d) \<Rightarrow>
          if e \<noteq> kErrorOk then Some (e, d)
          else erase_pages H bank_offset (addr + kFlashPageSize H) limit d
      else Some (kErrorOk, d))"

definition flash_write_block ::
  "('d, 'm) rescue_hw_scheme \<Rightarrow> u32 \<Rightarrow> rescue_state \<Rightarrow> 'd \<Rightarrow> rom_error \<times> rescue_state \<times> 'd" where
  "flash_write_block H bank_offset st d =
     (if flash_offset st < flash_limit st then
        case flash_ctrl_data_write H (bank_offset + flash_offset st) (rdata st) d of (e, d) \<Rightarrow>
          if e \<noteq> kErrorOk then (e, st, d)
          else (kErrorOk, st\<lparr>flash_offset := flash_offset st + 2048\<rparr>, d)
      else (kErrorRescueImageTooBig, st, d))"

definition flash_firmware_block ::
  "('d, 'm) rescue_hw_scheme \<Rightarrow> rescue_state \<Rightarrow> 'd \<Rightarrow> (rom_error \<times> rescue_state \<times> 'd) option" where
  "flash_firmware_block H st d =
     (let bank_offset = if mode st = kRescueModeFirmwareSlotB then kFlashBankSize H else 0
      in if flash_offset st = 0 then do {
           let d = flash_ctrl_data_default_perms_set H d;
           (e, d) \<leftarrow> erase_pages H bank_offset (flash_start st) (flash_limit st) d;
           if e \<noteq> kErrorOk then Some (e, st, d)
           else Some (flash_write_block H bank_offset (st\<lparr>flash_offset := flash_start st\<rparr>) d) }
         else Some (flash_write_block H bank_offset st d))"

definition owner_block_acceptable :: "('d, 'm) rescue_hw_scheme \<Rightarrow> u32 \<Rightarrow> 'd \<Rightarrow> bool" where
  "owner_block_acceptable H ownership_state d \<longleftrightarrow>
     ownership_state = kOwnershipStateUnlockedAny \<or>
     ownership_state = kOwnershipStateUnlockedSelf \<or>
     ownership_state = kOwnershipStateUnlockedEndorsed \<or>
     (ownership_state = kOwnershipStateLockedOwner \<and> owner_block_newversion_mode H d)"

definition flash_owner_block ::
  "('d, 'm) rescue_hw_scheme \<Rightarrow> u32 \<Rightarrow> rescue_state \<Rightarrow> 'd \<Rightarrow> (rom_error \<times> 'd) option" where
  "flash_owner_block H ownership_state st d =
     (if owner_block_acceptable H ownership_state d then
        case flash_ctrl_info_erase H 1 d of (e, d) \<Rightarrow>
          if e \<noteq> kErrorOk then Some (e, d) else Some (flash_ctrl_info_write H 1 (rdata st) d)
      else do {
        d \<leftarrow> dbg_line H ''error: cannot accept owner_block in current state'' d;
        Some (kErrorOk, d) })"

text \<open>The common exit of \<open>rescue_validate_mode\<close>.\<close>

definition exitproc :: "rescue_state \<Rightarrow> rescue_state" where
  "exitproc st = st\<lparr>frame := 1, offset := 0, flash_offset := 0\<rparr>"

text \<open>The message for an allowed mode, or none when the mode is refused all the same.\<close>

definition mode_message :: "('d, 'm) rescue_hw_scheme \<Rightarrow> u32 \<Rightarrow> u32 \<Rightarrow> 'd \<Rightarrow> bool \<times> string" where
  "mode_message H md ownership_state d =
     (if md = kRescueModeBootLog then (True, ''ok: receive boot_log'')
      else if md = kRescueModeBootSvcRsp then (True, ''ok: receive boot_svc response'')
      else if md = kRescueModeBootSvcReq then (True, ''ok: send boot_svc request'')
      else if md = kRescueModeOwnerBlock then
        (if owner_block_acceptable H ownership_state d then (True, ''ok: send owner_block'')
         else (False, ''error: cannot accept owner_block in current state''))
      else if md = kRescueModeFirmware \<or> md = kRescueModeFirmwareSlotB then
        (True, ''ok: send firmware'')
      else if md = kRescueModeOwnerPage0 \<or> md = kRescueModeOwnerPage1 then
        (True, ''ok: receive owner page'')
      else if md = kRescueModeOpenTitanID then (True, ''ok: receive device ID'')
      else (False, ''error: unrecognized mode''))"

definition rescue_validate_mode :: "('d, 'm) rescue_hw_scheme \<Rightarrow> u32 \<Rightarrow> u32 \<Rightarrow> rescue_state \<Rightarrow> 'd \<Rightarrow>
    (rom_error \<times> rescue_state \<times> 'd) option" where
  "rescue_validate_mode H ownership_state md st d = do {
     d \<leftarrow> dbg_printf H (crlf_bytes @ str_bytes ''mode: %C'' @ crlf_bytes)
            [Word (bitfield_byteswap32 md)] d;
     if md = kRescueModeReboot then do {
       d \<leftarrow> dbg_line H ''ok: reboot'' d;
       Some (kErrorOk, exitproc (st\<lparr>mode := md\<rparr>), d) }
     else if md = kRescueModeWait then do {
       d \<leftarrow> dbg_line H ''ok: wait after upload'' d;
       Some (kErrorOk, exitproc (st\<lparr>reboot := False\<rparr>), d) }
     else if owner_rescue_command_allowed (config st) md then do {
       let (known, msg) = mode_message H md ownership_state d;
       d \<leftarrow> dbg_line H msg d;
       if known then Some (kErrorOk, exitproc (st\<lparr>mode := md\<rparr>), d)
       else Some (kErrorRescueBadMode, st, d) }
     else do {
       d \<leftarrow> dbg_line H ''error: mode not allowed'' d;
       Some (kErrorRescueBadMode, exitproc st, d) } }"

text \<open>Bytes copied to the start of the data buffer, and how many of them are staged.\<close>

definition stage :: "u8 list \<Rightarrow> rescue_state \<Rightarrow> rescue_state" where
  "stage bs st = st\<lparr>rdata := bs @ drop (length bs) (rdata st), staged_len := of_nat (length bs)\<rparr>"

definition rescue_send_handler ::
  "('d, 'm) rescue_hw_scheme \<Rightarrow> rescue_state \<Rightarrow> 'd \<Rightarrow> rom_error \<times> rescue_state \<times> 'd" where
  "rescue_send_handler H st d =
     (let md = mode st
      in if \<not> owner_rescue_command_allowed (config st) md then (kErrorRescueBadMode, st, d)
         else if md = kRescueModeBootLog then (kErrorRescueSendStart, stage (ret_boot_log H d) st, d)
         else if md = kRescueModeBootSvcRsp then
           (kErrorRescueSendStart, stage (ret_boot_svc_msg H d) st, d)
         else if md = kRescueModeOpenTitanID then
           (kErrorRescueSendStart, stage (lifecycle_device_id_get H d) st, d)
         else if md = kRescueModeOwnerPage0 \<or> md = kRescueModeOwnerPage1 then
           (case flash_ctrl_info_read H (if md = kRescueModeOwnerPage0 then 0 else 1) d of
              (e, page, d) \<Rightarrow>
                if e \<noteq> kErrorOk then (e, st\<lparr>rdata := page\<rparr>, d)
                else (kErrorRescueSendStart, stage page st, d))
         else if md = kRescueModeBootSvcReq \<or> md = kRescueModeOwnerBlock \<or>
                 md = kRescueModeFirmware \<or> md = kRescueModeFirmwareSlotB then (kErrorOk, st, d)
         else if md = kRescueModeReboot then (kErrorRescueReboot, st, d)
         else (kErrorRescueBadMode, st, d))"

text \<open>\<open>header.type\<close> of a boot services message, 36 bytes into it; the message has 256 bytes.\<close>

definition boot_svc_type :: "u8 list \<Rightarrow> u32" where
  "boot_svc_type msg = bytes_word (msg ! 36) (msg ! 37) (msg ! 38) (msg ! 39)"

definition rescue_recv_handler :: "('d, 'm) rescue_hw_scheme \<Rightarrow> u32 \<Rightarrow> rescue_state \<Rightarrow> 'd \<Rightarrow>
    (rom_error \<times> rescue_state \<times> 'd) option" where
  "rescue_recv_handler H ownership_state st d =
     (let md = mode st
      in if \<not> owner_rescue_command_allowed (config st) md then Some (kErrorRescueBadMode, st, d)
         else if md = kRescueModeBootLog \<or> md = kRescueModeBootSvcRsp \<or>
                 md = kRescueModeOpenTitanID \<or> md = kRescueModeOwnerPage0 \<or>
                 md = kRescueModeOwnerPage1 then Some (kErrorOk, st, d)
         else if md = kRescueModeBootSvcReq then
           (if offset st \<ge> 256 then
              (if \<not> owner_rescue_command_allowed (config st) (boot_svc_type (rdata st))
               then Some (kErrorRescueBadMode, st, d)
               else Some (kErrorOk, st\<lparr>offset := 0\<rparr>, ret_boot_svc_msg_set H (take 256 (rdata st)) d))
            else Some (kErrorOk, st, d))
         else if md = kRescueModeOwnerBlock then
           (if offset st = 2048 then do {
              (e, d) \<leftarrow> flash_owner_block H ownership_state st d;
              if e \<noteq> kErrorOk then Some (e, st, d) else Some (kErrorOk, st\<lparr>offset := 0\<rparr>, d) }
            else Some (kErrorOk, st, d))
         else if md = kRescueModeFirmware \<or> md = kRescueModeFirmwareSlotB then
           (if offset st = 2048 then do {
              (e, st, d) \<leftarrow> flash_firmware_block H st d;
              if e \<noteq> kErrorOk then Some (e, st, d) else Some (kErrorOk, st\<lparr>offset := 0\<rparr>, d) }
            else Some (kErrorOk, st, d))
         else Some (kErrorRescueBadMode, st, d))"

definition rescue_state_init ::
  "('d, 'm) rescue_hw_scheme \<Rightarrow> owner_rescue_config option \<Rightarrow> rescue_state \<Rightarrow> rescue_state" where
  "rescue_state_init H cfg st =
     (let st = st\<lparr>config := cfg\<rparr>
      in case cfg of
           None \<Rightarrow> st\<lparr>flash_start := CHIP_ROM_EXT_SIZE_MAX H, flash_limit := kFlashBankSize H\<rparr>
         | Some c \<Rightarrow>
             st\<lparr>flash_start := ucast (cfg_start c) * kFlashPageSize H,
               flash_limit := (ucast (cfg_start c) + ucast (cfg_size c)) * kFlashPageSize H\<rparr>)"

text \<open>
  \<open>rescue_requested\<close> is a static variable: the handler of the boot services request sets it.
  \<open>res_init\<close> fills in the response.
\<close>

definition rescue_enter_handler :: "(rom_error \<Rightarrow> 'msg \<Rightarrow> 'msg) \<Rightarrow> 'msg \<Rightarrow> rom_error \<times> bool \<times> 'msg" where
  "rescue_enter_handler res_init msg = (kErrorOk, True, res_init kErrorOk msg)"

definition rescue_detect_entry :: "('d, 'm) rescue_hw_scheme \<Rightarrow> bool \<Rightarrow> owner_rescue_config option \<Rightarrow>
    'd \<Rightarrow> (bool \<times> 'd) option" where
  "rescue_detect_entry H rescue_requested cfg d =
     (if rescue_requested then Some (True, d)
      else
        let (det, index, gpio_val) = (case cfg of None \<Rightarrow> (1, 0, 0)
              | Some c \<Rightarrow> (bitfield_field32_read (ucast (detect c)) RESCUE_DETECT,
                          bitfield_field32_read (ucast (detect c)) RESCUE_DETECT_INDEX,
                          if bitfield_bit32_read (ucast (gpio c)) 0 then 1 else 0))
        in if det = 1 then do {
             (brk, d) \<leftarrow> rom_uart_break_detect H 350 d;
             if brk then do {
               d \<leftarrow> dbg_line H ''rescue: remember to clear break'' d;
               Some (True, rom_uart_enable_receiver H d) }
             else Some (False, d) }
           else if det = 3 then Some (pinmux_read_gpio H 0 d = gpio_val, d)
           else if det = 2 then Some (pinmux_read_straps H d = index, d)
           else Some (False, d))"

section \<open>The protocol over XModem\<close>

text \<open>Four bytes read into a little-endian word that is zero before.\<close>

definition speed_word :: "u8 list \<Rightarrow> u32" where
  "speed_word bs = (let b = bs @ replicate (4 - length bs) 0
                    in bytes_word (b ! 0) (b ! 1) (b ! 2) (b ! 3))"

definition baud_nco :: "('d, 'm) rescue_hw_scheme \<Rightarrow> u32 \<Rightarrow> u32" where
  "baud_nco H speed =
     (if speed = kRescueBaud115K then kUartBaud115K H
      else if speed = kRescueBaud230K then kUartBaud230K H
      else if speed = kRescueBaud460K then kUartBaud460K H
      else if speed = kRescueBaud921K then kUartBaud921K H
      else if speed = kRescueBaud1M33 then kUartBaud1M33 H
      else if speed = kRescueBaud1M50 then kUartBaud1M50 H
      else 0)"

definition change_speed :: "('d, 'm) rescue_hw_scheme \<Rightarrow> 'd \<Rightarrow> 'd option" where
  "change_speed H d = do {
     d \<leftarrow> dbg_line H ''ok: waiting for baudrate'' d;
     (bs, d) \<leftarrow> rom_uart_read H 4 10000 d;
     let speed = speed_word bs;
     let nco = baud_nco H speed;
     if nco \<noteq> 0 then do {
       d \<leftarrow> dbg_printf H (str_bytes ''ok: new baudrate %C'' @ crlf_bytes) [Word speed] d;
       Some (rom_uart_enable_receiver H (rom_uart_init H nco d)) }
     else dbg_printf H (str_bytes ''error: unsupported baudrate %C'' @ crlf_bytes) [Word speed] d }"

definition validate_mode :: "('d, 'm) rescue_hw_scheme \<Rightarrow> u32 \<Rightarrow> u32 \<Rightarrow> rescue_state \<Rightarrow> 'd \<Rightarrow>
    (rom_error \<times> rescue_state \<times> 'd) option" where
  "validate_mode H ownership_state md st d =
     (if md = kRescueModeBaud then do { d \<leftarrow> change_speed H d; Some (kErrorOk, st, d) }
      else rescue_validate_mode H ownership_state md st d)"

definition handle_send_modes :: "('d, 'm) rescue_hw_scheme \<Rightarrow> u32 \<Rightarrow> rescue_state \<Rightarrow> 'd \<Rightarrow>
    (rom_error \<times> rescue_state \<times> 'd) option" where
  "handle_send_modes H ownership_state st d =
     (case rescue_send_handler H st d of (e, st, d) \<Rightarrow>
        if e = kErrorRescueSendStart \<and> staged_len st > 0 then do {
          (e, d) \<leftarrow> xmodem_send H (take (unat (staged_len st)) (rdata st)) d;
          (_, st, d) \<leftarrow> validate_mode H ownership_state kRescueModeFirmware (st\<lparr>staged_len := 0\<rparr>) d;
          Some (e, st, d) }
        else Some (e, st, d))"

definition handle_recv_modes :: "('d, 'm) rescue_hw_scheme \<Rightarrow> u32 \<Rightarrow> rescue_state \<Rightarrow> 'd \<Rightarrow>
    (rom_error \<times> rescue_state \<times> 'd) option" where
  "handle_recv_modes H ownership_state st d = do {
     (e, st, d) \<leftarrow> rescue_recv_handler H ownership_state st d;
     if e = kErrorRescueImageTooBig \<or> e = kErrorRescueBadMode
     then do { d \<leftarrow> xmodem_cancel H d; Some (e, st, d) }
     else Some (e, st, d) }"

text \<open>\<open>xmodem_recv_frame\<close> on the buffer from \<open>offset\<close> on.\<close>

definition recv_into :: "('d, 'm) rescue_hw_scheme \<Rightarrow> rescue_state \<Rightarrow> u8 \<Rightarrow> 'd \<Rightarrow>
    (rom_error \<times> u32 \<times> u8 \<times> rescue_state \<times> 'd) option" where
  "recv_into H st command d = do {
     let off = unat (offset st);
     (result, b, d) \<leftarrow> xmodem_recv_frame H (frame st) (2048 - offset st)
        \<lparr>rx_data = drop off (rdata st), rxlen = 0, unknown_rx = command\<rparr> d;
     Some (result, rxlen b, unknown_rx b, st\<lparr>rdata := take off (rdata st) @ rx_data b\<rparr>, d) }"

text \<open>Filling the rest of a block with \<open>0xFF\<close>.\<close>

definition pad_residue :: "rescue_state \<Rightarrow> rescue_state" where
  "pad_residue st =
     (let off = unat (offset st); n = (if off mod 2048 = 0 then 0 else 2048 - off mod 2048)
      in st\<lparr>rdata := take off (rdata st) @ replicate n 0xFF @ drop (off + n) (rdata st),
            offset := of_nat (off + n)\<rparr>)"

text \<open>What follows a frame: the protocol's result, or the variables of the next round.\<close>

definition protocol_result :: "('d, 'm) rescue_hw_scheme \<Rightarrow> u32 \<Rightarrow> rom_error \<Rightarrow> u32 \<Rightarrow> u8 \<Rightarrow>
    rescue_state \<Rightarrow> u32 \<Rightarrow> 'd \<Rightarrow> ((rom_error + u8 \<times> u32) \<times> rescue_state \<times> 'd) option" where
  "protocol_result H ownership_state result rxl command st next_mode d =
     (if frame st = 1 \<and> result = kErrorXModemTimeoutStart then do {
        d \<leftarrow> xmodem_recv_start H d;
        Some (Inr (command, next_mode), st, d) }
      else case result of
        kErrorOk \<Rightarrow> do {
          (e, st, d) \<leftarrow> handle_recv_modes H ownership_state (st\<lparr>offset := offset st + rxl\<rparr>) d;
          if e \<noteq> kErrorOk then Some (Inl e, st, d)
          else do {
            d \<leftarrow> xmodem_ack H True d;
            Some (Inr (command, next_mode), st\<lparr>frame := frame st + 1\<rparr>, d) } }
      | kErrorXModemEndOfFile \<Rightarrow> do {
          (e, st, d) \<leftarrow> (if offset st mod 2048 \<noteq> 0
                         then handle_recv_modes H ownership_state (pad_residue st) d
                         else Some (kErrorOk, st, d));
          if e \<noteq> kErrorOk then Some (Inl e, st, d)
          else do {
            d \<leftarrow> xmodem_ack H True d;
            if \<not> reboot st then Some (Inr (command, next_mode), exitproc st, d)
            else Some (Inl kErrorRescueReboot, st, d) } }
      | kErrorXModemCrc \<Rightarrow> do {
          d \<leftarrow> xmodem_ack H False d;
          Some (Inr (command, next_mode), st, d) }
      | kErrorXModemUnknown \<Rightarrow>
          (if frame st = 1 then
             (if command = 0x0D then do {
                (_, st, d) \<leftarrow> validate_mode H ownership_state next_mode st d;
                Some (Inr (command, 0), st, d) }
              else Some (Inr (command, push_bit 8 next_mode OR ucast command), st, d))
           else Some (Inl result, st, d))
      | _ \<Rightarrow> Some (Inl result, st, d))"

definition protocol_round :: "('d, 'm) rescue_hw_scheme \<Rightarrow> u32 \<Rightarrow> u8 \<Rightarrow> rescue_state \<Rightarrow> u32 \<Rightarrow> 'd \<Rightarrow>
    ((rom_error + u8 \<times> u32) \<times> rescue_state \<times> 'd) option" where
  "protocol_round H ownership_state command st next_mode d = do {
     (e, st, d) \<leftarrow> handle_send_modes H ownership_state st d;
     if e \<noteq> kErrorOk then Some (Inl e, st, d)
     else do {
       (result, rxl, command, st, d) \<leftarrow> recv_into H st command d;
       protocol_result H ownership_state result rxl command st next_mode d } }"

partial_function (option) protocol_loop :: "('d, 'm) rescue_hw_scheme \<Rightarrow> u32 \<Rightarrow> u8 \<Rightarrow> rescue_state \<Rightarrow>
    u32 \<Rightarrow> 'd \<Rightarrow> (rom_error \<times> rescue_state \<times> 'd) option" where
  "protocol_loop H ownership_state command st next_mode d =
     Option.bind (protocol_round H ownership_state command st next_mode d) (\<lambda>(r, st, d).
       case r of
         Inl e \<Rightarrow> Some (e, st, d)
       | Inr (command, next_mode) \<Rightarrow> protocol_loop H ownership_state command st next_mode d)"

definition protocol :: "('d, 'm) rescue_hw_scheme \<Rightarrow> u32 \<Rightarrow> u8 \<Rightarrow> rescue_state \<Rightarrow> 'd \<Rightarrow>
    (rom_error \<times> rescue_state \<times> 'd) option" where
  "protocol H ownership_state command st d = do {
     (_, st, d) \<leftarrow> validate_mode H ownership_state kRescueModeFirmware (st\<lparr>reboot := True\<rparr>) d;
     d \<leftarrow> xmodem_recv_start H d;
     protocol_loop H ownership_state command st 0 d }"

text \<open>
  The state is a variable on the stack: \<open>st\<close> and \<open>command\<close> are what it holds before, of which
  \<open>rescue_state_init\<close> sets only the configuration and the flash range.
\<close>

definition rescue_protocol :: "('d, 'm) rescue_hw_scheme \<Rightarrow> u32 \<Rightarrow> owner_rescue_config option \<Rightarrow> u8 \<Rightarrow>
    rescue_state \<Rightarrow> 'd \<Rightarrow> (rom_error \<times> rescue_state \<times> 'd) option" where
  "rescue_protocol H ownership_state cfg command st d = do {
     (result, st, d) \<leftarrow> protocol H ownership_state command (rescue_state_init H cfg st) d;
     Some (result, st, if result = kErrorRescueReboot then rstmgr_reset H d else d) }"

end
