(* ===== verification/Rescue_Flash.thy ===== *)
theory Rescue_Flash
  imports Rescue
begin

unbundle bit_operations_syntax

text \<open>
  The rescue protocol on working hardware. The locale \<open>rescue_platform\<close> adds to a serial line a
  flash that erases pages and whose programming only clears bits; inside it a whole image that arrives as XModem
  frames is followed into the flash, two frames to a page. \<open>rescue_chip\<close> is such hardware.
  The last part is about arbitrary hardware: the data buffer and its offset, and the modes a
  configuration does not allow.
\<close>

section \<open>Messages\<close>

lemma dbg_printf_prefix:
  "0x25 \<notin> set pre \<Longrightarrow> fmt \<noteq> [] \<Longrightarrow>
     dbg_printf H (pre @ fmt) args d = Option.bind (rom_uart_write H pre d) (dbg_printf H fmt args)"
proof (induction pre arbitrary: d)
  case Nil
  then show ?case by simp
next
  case (Cons c pre)
  then obtain c2 fmt2 where f: "pre @ fmt = c2 # fmt2" by (cases "pre @ fmt") auto
  have "dbg_printf H ((c # pre) @ fmt) args d =
      Option.bind (rom_uart_putchar H c d) (dbg_printf H (pre @ fmt) args)"
    using Cons.prems(1) by (simp add: f)
  with Cons show ?case by (simp add: Option.bind_assoc cong: Option.bind_cong)
qed

lemma dbg_printf_plain: "0x25 \<notin> set fmt \<Longrightarrow> dbg_printf H fmt args d = rom_uart_write H fmt d"
proof (induction fmt rule: rev_induct)
  case (snoc c fmt)
  then show ?case
    by (simp add: dbg_printf_prefix rom_uart_write_append rom_uart_write_single
        del: rom_uart_write.simps)
      (simp add: rom_uart_write_single [symmetric] cong: Option.bind_cong)
qed simp

text \<open>The four characters of \<open>%C\<close>.\<close>

definition packed_char :: "u8 \<Rightarrow> u8 list" where
  "packed_char ch = (if 32 \<le> ch \<and> ch < 127 then [ch]
     else [0x5C, 0x78, rom_hex_table ! unat (drop_bit 4 ch), rom_hex_table ! unat (ch AND 15)])"

lemma dbg_packed_chars_text:
  "dbg_packed_chars H n v d =
     rom_uart_write H (concat (map (\<lambda>i. packed_char (ucast (drop_bit (8 * i) v))) [0..<n])) d"
proof (induction n arbitrary: v d)
  case (Suc n)
  have "concat (map (\<lambda>i. packed_char (ucast (drop_bit (8 * i) v))) [0..<Suc n]) =
      packed_char (ucast v) @
      concat (map (\<lambda>i. packed_char (ucast (drop_bit (8 * i) (drop_bit 8 v)))) [0..<n])"
    unfolding upt_conv_Cons [OF zero_less_Suc] map_Suc_upt [symmetric]
    by (simp add: comp_def algebra_simps)
  moreover have "dbg_packed_chars H n (drop_bit 8 v) = rom_uart_write H
      (concat (map (\<lambda>i. packed_char (ucast (drop_bit (8 * i) (drop_bit 8 v)))) [0..<n]))"
    by (rule ext) (rule Suc.IH)
  ultimately show ?case
    by (simp add: packed_char_def rom_uart_write_append Let_def Option.bind_assoc del: upt_Suc)
qed simp

definition plain_message :: "string \<Rightarrow> bool" where
  "plain_message msg \<longleftrightarrow> 0x25 \<notin> set (str_bytes msg)"

lemma dbg_line_write:
  "plain_message msg \<Longrightarrow> dbg_line H msg d = rom_uart_write H (str_bytes msg @ crlf_bytes) d"
  unfolding dbg_line_def by (rule dbg_printf_plain) (simp add: plain_message_def crlf_bytes_def)

definition mode_text :: "u32 \<Rightarrow> u8 list" where
  "mode_text md = (crlf_bytes @ str_bytes ''mode: '') @
     concat (map (\<lambda>i. packed_char (ucast (drop_bit (8 * i) (bitfield_byteswap32 md)))) [0..<4]) @ crlf_bytes"

lemma mode_message_write:
  "dbg_printf H (crlf_bytes @ str_bytes ''mode: %C'' @ crlf_bytes) [Word (bitfield_byteswap32 md)] d =
     rom_uart_write H (mode_text md) d"
proof -
  have split: "crlf_bytes @ str_bytes ''mode: %C'' @ crlf_bytes =
      (crlf_bytes @ str_bytes ''mode: '') @ [0x25, 0x43] @ crlf_bytes"
    by (simp add: str_bytes_def)
  have p: "0x25 \<notin> set (crlf_bytes @ str_bytes ''mode: '')" "0x25 \<notin> set crlf_bytes"
    by (simp_all add: str_bytes_def crlf_bytes_def)
  have conv: "dbg_printf H ([0x25, 0x43] @ crlf_bytes) [Word w] =
      (\<lambda>d. Option.bind (dbg_packed_chars H 4 w d) (rom_uart_write H crlf_bytes))" for w
    by (rule ext) (simp add: dbg_conversion_def dbg_printf_plain [OF p(2)] map_conv_bind_option comp_def
        Option.bind_assoc)
  have "dbg_printf H ((crlf_bytes @ str_bytes ''mode: '') @ [0x25, 0x43] @ crlf_bytes) [Word w] d =
      Option.bind (rom_uart_write H (crlf_bytes @ str_bytes ''mode: '') d)
        (dbg_printf H ([0x25, 0x43] @ crlf_bytes) [Word w])" for w
    by (rule dbg_printf_prefix [OF p(1)]) simp
  then show ?thesis
    unfolding split conv dbg_packed_chars_text mode_text_def
    by (simp only: rom_uart_write_append [abs_def])
qed

section \<open>A platform with a flash\<close>

definition page_erased :: "u32 \<Rightarrow> nat \<Rightarrow> mem \<Rightarrow> mem" where
  "page_erased a n m x = (if unat (x - a) < n then 0xFF else m x)"

text \<open>Programming only clears bits: a byte that was not erased keeps its zeros.\<close>

definition programmed :: "u32 \<Rightarrow> u8 list \<Rightarrow> mem \<Rightarrow> mem" where
  "programmed a bs m x = (if unat (x - a) < length bs then m x AND bs ! unat (x - a) else m x)"

lemma programmed_blank:
  assumes "length bs \<le> 2 ^ 32" "\<And>x. unat (x - a) < length bs \<Longrightarrow> m x = 0xFF"
  shows "programmed a bs m = store_bytes a bs m"
proof (rule ext)
  fix x
  have minus: "(0xFF :: u8) = - 1" by simp
  have "(0xFF :: u8) AND b = b" for b unfolding minus by (rule and.left_neutral)
  then show "programmed a bs m x = store_bytes a bs m x"
    using assms by (simp add: programmed_def store_bytes_apply)
qed

locale rescue_platform = serial_line H ready rx tx fl
  for H :: "('d, 'm) rescue_hw_scheme"
    and ready :: "'d \<Rightarrow> bool"
    and rx tx :: "'d \<Rightarrow> u8 list"
    and fl :: "'d \<Rightarrow> mem" \<comment> \<open>contents of the data partition\<close> +
  assumes page_size: "kFlashPageSize H = 2048"
    and perms: "ready s \<Longrightarrow> flash_ctrl_data_default_perms_set H s = s' \<Longrightarrow>
       ready s' \<and> rx s' = rx s \<and> tx s' = tx s \<and> fl s' = fl s"
    and erase: "ready s \<Longrightarrow> \<exists>s'. flash_ctrl_data_erase H a s = (kErrorOk, s') \<and> ready s' \<and>
       rx s' = rx s \<and> tx s' = tx s \<and> fl s' = page_erased a 2048 (fl s)"
    and program: "ready s \<Longrightarrow> length bs = 2048 \<Longrightarrow>
       \<exists>s'. flash_ctrl_data_write H a bs s = (kErrorOk, s') \<and> ready s' \<and>
         rx s' = rx s \<and> tx s' = tx s \<and> fl s' = programmed a bs (fl s)"
begin

lemma page_erased_join:
  assumes "n + 2048 \<le> 2 ^ 32"
  shows "page_erased (a + 2048) n (page_erased a 2048 m) = page_erased a (n + 2048) m"
proof (rule ext)
  fix x
  have "unat (x - a) < n + 2048 \<longleftrightarrow> unat (x - (a + 2048)) < n \<or> unat (x - a) < 2048"
  proof -
    have eq: "x - (a + 2048) = (x - a) - 2048" by simp
    show ?thesis
    proof (cases "unat (x - a) < 2048")
      case True
      then have "2 ^ 32 - 2048 \<le> unat (x - a - 2048)"
      proof -
        have "unat (x - a - 2048) = unat (x - a) + 2 ^ 32 - 2048"
          using True by (simp add: unat_sub_if')
        then show ?thesis by simp
      qed
      with True assms show ?thesis by (simp add: eq)
    next
      case False
      then have "unat (x - a - 2048) = unat (x - a) - 2048"
        by (simp add: unat_sub_if')
      with False show ?thesis unfolding eq by auto
    qed
  qed
  then show "page_erased (a + 2048) n (page_erased a 2048 m) x = page_erased a (n + 2048) m x"
    by (simp add: page_erased_def)
qed

lemma erase_pages_all:
  "ready s \<Longrightarrow> unat addr + 2048 * j = unat limit \<Longrightarrow>
     \<exists>s'. erase_pages H bank addr limit s = Some (kErrorOk, s') \<and> ready s' \<and> rx s' = rx s \<and>
       tx s' = tx s \<and> fl s' = page_erased (bank + addr) (2048 * j) (fl s)"
proof (induction j arbitrary: addr s)
  case 0
  then have "\<not> addr < limit" by (simp add: word_less_nat_alt)
  with 0 show ?case
    by (subst erase_pages.simps) (simp add: page_erased_def fun_eq_iff)
next
  case (Suc j)
  have lim: "unat limit < 2 ^ 32" using unsigned_less [of limit, where 'a = nat] by simp
  from Suc.prems(2) have lt: "addr < limit" by (simp add: word_less_nat_alt)
  have a': "unat (addr + 2048) = unat addr + 2048"
    using Suc.prems(2) lim by (subst unat_word_ariths) simp
  from erase [OF Suc.prems(1), of "bank + addr"] obtain s1
    where s1: "flash_ctrl_data_erase H (bank + addr) s = (kErrorOk, s1)" "ready s1" "rx s1 = rx s"
      "tx s1 = tx s" "fl s1 = page_erased (bank + addr) 2048 (fl s)" by blast
  from Suc.prems(2) a' have "unat (addr + 2048) + 2048 * j = unat limit" by simp
  from Suc.IH [OF s1(2) this] obtain s2
    where s2: "erase_pages H bank (addr + 2048) limit s1 = Some (kErrorOk, s2)" "ready s2"
      "rx s2 = rx s1" "tx s2 = tx s1"
      "fl s2 = page_erased (bank + (addr + 2048)) (2048 * j) (fl s1)" by blast
  have "2048 * j + 2048 \<le> 2 ^ 32" using Suc.prems(2) lim by simp
  from page_erased_join [OF this, of "bank + addr" "fl s"] s1(5) s2(5)
  have "fl s2 = page_erased (bank + addr) (2048 * Suc j) (fl s)"
    by (simp add: add.assoc add.commute [of 2048 "2048 * j"])
  with lt s1 s2 show ?case
    by (subst erase_pages.simps) (simp add: page_size)
qed

text \<open>A firmware upload between two frames.\<close>

definition uploading :: "rescue_state \<Rightarrow> bool" where
  "uploading st \<longleftrightarrow> mode st = kRescueModeFirmware \<and>
     owner_rescue_command_allowed (config st) kRescueModeFirmware \<and> reboot st \<and>
     length (rdata st) = 2048"

definition next_flash_offset :: "rescue_state \<Rightarrow> u32" where
  "next_flash_offset st = (if flash_offset st = 0 then flash_start st else flash_offset st)"

definition erased_first :: "rescue_state \<Rightarrow> nat \<Rightarrow> mem \<Rightarrow> mem" where
  "erased_first st n m = (if flash_offset st = 0 then page_erased (flash_start st) n m else m)"

text \<open>The page a running upload writes next is still erased.\<close>

definition next_page_blank :: "rescue_state \<Rightarrow> mem \<Rightarrow> bool" where
  "next_page_blank st m \<longleftrightarrow>
     (flash_offset st \<noteq> 0 \<longrightarrow> (\<forall>x. unat (x - flash_offset st) < 2048 \<longrightarrow> m x = 0xFF))"

lemma blank_after_page:
  assumes "length bs = 2048" "2048 * Suc n \<le> (2 :: nat) ^ 32"
    and "\<And>x. unat (x - a) < 2048 * Suc n \<Longrightarrow> m x = 0xFF" "unat (x - (a + 2048)) < 2048 * n"
  shows "store_bytes a bs m x = 0xFF"
proof -
  have eq: "x - a = (x - (a + 2048)) + 2048" by simp
  have "unat (x - a) = unat (x - (a + 2048)) + 2048"
    unfolding eq using assms(2,4) by (subst unat_word_ariths) simp
  with assms show ?thesis by (simp add: store_bytes_apply)
qed

lemma firmware_block:
  assumes "uploading st" "ready s" "next_flash_offset st < flash_limit st"
    and "unat (flash_start st) + 2048 * j = unat (flash_limit st)" "next_page_blank st (fl s)"
  shows "\<exists>s'. flash_firmware_block H st s =
      Some (kErrorOk, st\<lparr>flash_offset := next_flash_offset st + 2048\<rparr>, s') \<and>
    ready s' \<and> rx s' = rx s \<and> tx s' = tx s \<and>
    fl s' = store_bytes (next_flash_offset st) (rdata st) (erased_first st (2048 * j) (fl s))"
proof (cases "flash_offset st = 0")
  case True
  have md: "mode st \<noteq> kRescueModeFirmwareSlotB" and len: "length (rdata st) = 2048"
    using assms(1) by (simp_all add: uploading_def rescue_modes)
  let ?s0 = "flash_ctrl_data_default_perms_set H s"
  from perms [OF assms(2) refl] have s0: "ready ?s0" "rx ?s0 = rx s" "tx ?s0 = tx s" "fl ?s0 = fl s"
    by simp_all
  from erase_pages_all [OF s0(1) assms(4), of 0] obtain s1
    where s1: "erase_pages H 0 (flash_start st) (flash_limit st) ?s0 = Some (kErrorOk, s1)" "ready s1"
      "rx s1 = rx s" "tx s1 = tx s" "fl s1 = page_erased (flash_start st) (2048 * j) (fl s)"
    using s0 by auto
  from program [OF s1(2) len, of "flash_start st"] obtain s2
    where "flash_ctrl_data_write H (flash_start st) (rdata st) s1 = (kErrorOk, s2)" "ready s2"
      "rx s2 = rx s1" "tx s2 = tx s1" "fl s2 = programmed (flash_start st) (rdata st) (fl s1)" by blast
  moreover have "2048 \<le> 2048 * j"
    using assms(3,4) True by (cases j) (auto simp: next_flash_offset_def word_less_nat_alt)
  then have "programmed (flash_start st) (rdata st) (fl s1) = store_bytes (flash_start st) (rdata st) (fl s1)"
    using len s1(5) by (intro programmed_blank) (simp_all add: page_erased_def)
  ultimately show ?thesis
    using s1 True md assms(3) by (simp add: flash_firmware_block_def Let_def flash_write_block_def next_flash_offset_def
        erased_first_def)
next
  case False
  have md: "mode st \<noteq> kRescueModeFirmwareSlotB" and len: "length (rdata st) = 2048"
    using assms(1) by (simp_all add: uploading_def rescue_modes)
  from program [OF assms(2) len, of "flash_offset st"] obtain s2
    where "flash_ctrl_data_write H (flash_offset st) (rdata st) s = (kErrorOk, s2)" "ready s2"
      "rx s2 = rx s" "tx s2 = tx s" "fl s2 = programmed (flash_offset st) (rdata st) (fl s)" by blast
  moreover have "programmed (flash_offset st) (rdata st) (fl s) = store_bytes (flash_offset st) (rdata st) (fl s)"
    using len False assms(5) by (intro programmed_blank) (simp_all add: next_page_blank_def)
  ultimately show ?thesis
    using False md assms(3) by (simp add: flash_firmware_block_def Let_def flash_write_block_def next_flash_offset_def
        erased_first_def)
qed

text \<open>A round that receives a frame in order.\<close>

lemma round_frame:
  assumes "uploading st" "ready s" "unat (offset st) + 1024 \<le> 2048" "length chunk = 1024"
    and "rx s = frame_bytes 1024 (frame st) chunk (crc16_block chunk 1024) @ left"
  shows "\<exists>s'. ready s' \<and> rx s' = left \<and> tx s' = tx s \<and> fl s' = fl s \<and>
    protocol_round H own command st nm s =
      protocol_result H own kErrorOk 1024 command
        (st\<lparr>rdata := take (unat (offset st)) (rdata st) @ chunk @ drop (unat (offset st) + 1024) (rdata st)\<rparr>)
        nm s'"
proof -
  let ?off = "unat (offset st)" and ?crc = "crc16_block chunk 1024"
  let ?b = "\<lparr>rx_data = drop ?off (rdata st), rxlen = 0, unknown_rx = command\<rparr>"
  have av: "unat (2048 - offset st) = 2048 - ?off"
    using assms(3) by (subst unat_sub) (simp_all add: word_le_nat_alt)
  have rx: "rx s = [if (1024 :: nat) = 128 then kXModemSoh else kXModemStx, ucast (frame st),
      255 - ucast (frame st)] @ chunk @ [ucast (drop_bit 8 ?crc), ucast (?crc AND 0xFF)] @ left"
    using assms(4,5) by (simp add: frame_bytes_def)
  have "(1024 :: nat) \<le> unat (2048 - offset st)" using assms(3) av by simp
  from recv_frame_line [OF assms(2) rx assms(4) disjI2 [OF refl] this refl, of ?b]
  obtain s' where s': "xmodem_recv_frame H (frame st) (2048 - offset st) ?b s =
      Some (kErrorOk, (fill chunk ?b)\<lparr>rxlen := 1024\<rparr>, s')" and q: "quiet s s' left"
    unfolding crc_bytes_join using assms(4) by (auto simp: crc16_block_padded)
  have "handle_send_modes H own st s = Some (kErrorOk, st, s)"
    using assms(1) by (simp add: handle_send_modes_def rescue_send_handler_def Let_def uploading_def
        rescue_modes)
  moreover have "recv_into H st command s = Some (kErrorOk, 1024, command,
      st\<lparr>rdata := take ?off (rdata st) @ chunk @ drop (?off + 1024) (rdata st)\<rparr>, s')"
    using assms(4) by (simp add: recv_into_def Let_def s' fill_def add.commute)
  ultimately show ?thesis
    using q by (auto simp: protocol_round_def quiet_def)
qed

lemma ack_line:
  "ready s \<Longrightarrow> \<exists>s'. xmodem_ack H True s = Some s' \<and> ready s' \<and> rx s' = rx s \<and>
     tx s' = tx s @ [kXModemAck] \<and> fl s' = fl s"
  using send [of s kXModemAck] by (auto simp: xmodem_ack_def xmodem_putchar_def xmodem_write_def)

text \<open>The first frame of a page fills half of the buffer, the second one stores the page.\<close>

lemma round_first:
  assumes "uploading st" "ready s" "offset st = 0" "length chunk = 1024"
    and "rx s = frame_bytes 1024 (frame st) chunk (crc16_block chunk 1024) @ left"
  shows "\<exists>s'. ready s' \<and> rx s' = left \<and> tx s' = tx s @ [kXModemAck] \<and> fl s' = fl s \<and>
    protocol_round H own command st nm s = Some (Inr (command, nm),
      st\<lparr>rdata := chunk @ drop 1024 (rdata st), offset := 1024, frame := frame st + 1\<rparr>, s')"
proof -
  let ?st = "st\<lparr>rdata := chunk @ drop 1024 (rdata st)\<rparr>"
  from round_frame [OF assms(1,2) _ assms(4,5), of own command nm] assms(3) obtain s1
    where s1: "ready s1" "rx s1 = left" "tx s1 = tx s" "fl s1 = fl s"
      "protocol_round H own command st nm s = protocol_result H own kErrorOk 1024 command ?st nm s1"
    by auto
  from ack_line [OF s1(1)] obtain s2 where s2: "xmodem_ack H True s1 = Some s2" "ready s2"
    "rx s2 = rx s1" "tx s2 = tx s1 @ [kXModemAck]" "fl s2 = fl s1" by blast
  have "handle_recv_modes H own (?st\<lparr>offset := 1024\<rparr>) s1 = Some (kErrorOk, ?st\<lparr>offset := 1024\<rparr>, s1)"
    using assms(1) by (simp add: handle_recv_modes_def rescue_recv_handler_def Let_def uploading_def
        rescue_modes)
  with s1 s2 assms(3) show ?thesis
    by (intro exI [of _ s2]) (simp add: protocol_result_def)
qed

lemma round_second:
  assumes "uploading st" "ready s" "offset st = 1024" "length chunk = 1024"
    and "rx s = frame_bytes 1024 (frame st) chunk (crc16_block chunk 1024) @ left"
    and "next_flash_offset st < flash_limit st"
    and "unat (flash_start st) + 2048 * j = unat (flash_limit st)" "next_page_blank st (fl s)"
  shows "\<exists>s'. ready s' \<and> rx s' = left \<and> tx s' = tx s @ [kXModemAck] \<and>
    fl s' = store_bytes (next_flash_offset st) (take 1024 (rdata st) @ chunk)
      (erased_first st (2048 * j) (fl s)) \<and>
    protocol_round H own command st nm s = Some (Inr (command, nm),
      st\<lparr>rdata := take 1024 (rdata st) @ chunk, offset := 0, frame := frame st + 1,
         flash_offset := next_flash_offset st + 2048\<rparr>, s')"
proof -
  let ?st = "st\<lparr>rdata := take 1024 (rdata st) @ chunk\<rparr>"
  have len: "length (rdata st) = 2048" using assms(1) by (simp add: uploading_def)
  from round_frame [OF assms(1,2) _ assms(4,5), of own command nm] assms(3) len obtain s1
    where s1: "ready s1" "rx s1 = left" "tx s1 = tx s" "fl s1 = fl s"
      "protocol_round H own command st nm s = protocol_result H own kErrorOk 1024 command ?st nm s1"
    by auto
  have up: "uploading (?st\<lparr>offset := 2048\<rparr>)"
    using assms(1,4) by (simp add: uploading_def)
  have nfo: "next_flash_offset (?st\<lparr>offset := 2048\<rparr>) = next_flash_offset st"
    "erased_first (?st\<lparr>offset := 2048\<rparr>) = erased_first st"
    "next_page_blank (?st\<lparr>offset := 2048\<rparr>) (fl s1)"
    using assms(8) s1(4) by (simp_all add: next_flash_offset_def erased_first_def next_page_blank_def fun_eq_iff)
  from firmware_block [OF up s1(1), of j] assms(6,7) nfo obtain s2
    where s2: "flash_firmware_block H (?st\<lparr>offset := 2048\<rparr>) s1 =
        Some (kErrorOk, ?st\<lparr>offset := 2048, flash_offset := next_flash_offset st + 2048\<rparr>, s2)"
      "ready s2" "rx s2 = rx s1" "tx s2 = tx s1"
      "fl s2 = store_bytes (next_flash_offset st) (take 1024 (rdata st) @ chunk)
        (erased_first st (2048 * j) (fl s1))" by auto
  have "handle_recv_modes H own (?st\<lparr>offset := 2048\<rparr>) s1 = Some (kErrorOk,
      ?st\<lparr>offset := 0, flash_offset := next_flash_offset st + 2048\<rparr>, s2)"
    using up by (simp add: handle_recv_modes_def rescue_recv_handler_def Let_def uploading_def
        rescue_modes s2(1) [unfolded uploading_def])
  moreover from ack_line [OF s2(2)] obtain s3 where s3: "xmodem_ack H True s2 = Some s3" "ready s3"
    "rx s3 = rx s2" "tx s3 = tx s2 @ [kXModemAck]" "fl s3 = fl s2" by blast
  ultimately show ?thesis
    using s1 s2 assms(3) by (intro exI [of _ s3]) (simp add: protocol_result_def)
qed

lemma block_frames_page:
  assumes "2048 \<le> length data"
  shows "block_frames data b =
    frame_bytes 1024 (b + 1) (take 1024 data) (crc16_block (take 1024 data) 1024) #
    frame_bytes 1024 (b + 2) (take 1024 (drop 1024 data)) (crc16_block (take 1024 (drop 1024 data)) 1024) #
    block_frames (drop 2048 data) (b + 2)"
proof -
  have "data \<noteq> []" "drop 1024 data \<noteq> []" "block_size data = 1024" "block_size (drop 1024 data) = 1024"
    using assms by (auto simp: block_size_def)
  then show ?thesis
    using block_frames.simps [of data b] block_frames.simps [of "drop 1024 data" "b + 1"]
    by (simp add: Let_def add.commute [of b] add.assoc)
qed

lemma page_upload:
  assumes "uploading st" "ready s" "offset st = 0" "2048 \<le> length data"
    and "rx s = concat (block_frames data (frame st - 1)) @ left"
    and "next_flash_offset st < flash_limit st"
    and "unat (flash_start st) + 2048 * j = unat (flash_limit st)" "next_page_blank st (fl s)"
  shows "\<exists>s'. ready s' \<and> rx s' = concat (block_frames (drop 2048 data) (frame st + 1)) @ left \<and>
    tx s' = tx s @ [kXModemAck, kXModemAck] \<and>
    fl s' = store_bytes (next_flash_offset st) (take 2048 data) (erased_first st (2048 * j) (fl s)) \<and>
    protocol_loop H own command st nm s = protocol_loop H own command
      (st\<lparr>rdata := take 2048 data, offset := 0, frame := frame st + 2,
         flash_offset := next_flash_offset st + 2048\<rparr>) nm s'"
proof -
  let ?c1 = "take 1024 data" and ?c2 = "take 1024 (drop 1024 data)"
  have rx: "rx s = frame_bytes 1024 (frame st) ?c1 (crc16_block ?c1 1024) @
      frame_bytes 1024 (frame st + 1) ?c2 (crc16_block ?c2 1024) @
      concat (block_frames (drop 2048 data) (frame st + 1)) @ left"
    unfolding assms(5) block_frames_page [OF assms(4)] by (simp add: algebra_simps)
  have l: "length ?c1 = 1024" "length ?c2 = 1024" using assms(4) by simp_all
  from round_first [OF assms(1-3) l(1) rx, of own command nm] obtain s1
    where s1: "ready s1" "rx s1 = frame_bytes 1024 (frame st + 1) ?c2 (crc16_block ?c2 1024) @
        concat (block_frames (drop 2048 data) (frame st + 1)) @ left"
      "tx s1 = tx s @ [kXModemAck]" "fl s1 = fl s"
      "protocol_round H own command st nm s = Some (Inr (command, nm),
        st\<lparr>rdata := ?c1 @ drop 1024 (rdata st), offset := 1024, frame := frame st + 1\<rparr>, s1)" by blast
  let ?st1 = "st\<lparr>rdata := ?c1 @ drop 1024 (rdata st), offset := 1024, frame := frame st + 1\<rparr>"
  have up: "uploading ?st1" using assms(1) l by (simp add: uploading_def)
  have nfo: "next_flash_offset ?st1 = next_flash_offset st" "erased_first ?st1 = erased_first st"
    by (simp_all add: next_flash_offset_def erased_first_def fun_eq_iff)
  have pg: "take 1024 (rdata ?st1) @ ?c2 = take 2048 data"
    using l take_add [of 1024 1024 data] by simp
  have rx1: "rx s1 = frame_bytes 1024 (frame ?st1) ?c2 (crc16_block ?c2 1024) @
      concat (block_frames (drop 2048 data) (frame st + 1)) @ left" using s1(2) by simp
  have lim: "next_flash_offset ?st1 < flash_limit ?st1"
    "unat (flash_start ?st1) + 2048 * j = unat (flash_limit ?st1)" "next_page_blank ?st1 (fl s1)"
    using assms(6-8) nfo s1(4) by (simp_all add: next_page_blank_def)
  from round_second [OF up s1(1) _ l(2) rx1 lim, of own command nm] obtain s2
    where s2: "ready s2" "rx s2 = concat (block_frames (drop 2048 data) (frame st + 1)) @ left"
      "tx s2 = tx s1 @ [kXModemAck]"
      "fl s2 = store_bytes (next_flash_offset st) (take 2048 data) (erased_first st (2048 * j) (fl s1))"
      "protocol_round H own command ?st1 nm s1 = Some (Inr (command, nm),
        st\<lparr>rdata := take 2048 data, offset := 0, frame := frame st + 2,
          flash_offset := next_flash_offset st + 2048\<rparr>, s2)"
    unfolding pg nfo by (auto simp: algebra_simps)
  have "protocol_loop H own command st nm s = protocol_loop H own command
      (st\<lparr>rdata := take 2048 data, offset := 0, frame := frame st + 2,
         flash_offset := next_flash_offset st + 2048\<rparr>) nm s2"
    by (subst protocol_loop.simps, simp add: s1(5), subst protocol_loop.simps, simp add: s2(5))
  with s1 s2 show ?thesis by auto
qed

text \<open>The end of file after whole pages ends the upload with a request to reboot.\<close>

lemma upload_end:
  assumes "uploading st" "ready s" "offset st = 0" "rx s = kXModemEof # left"
  shows "\<exists>s'. ready s' \<and> rx s' = left \<and> tx s' = tx s @ [kXModemAck] \<and> fl s' = fl s \<and>
    (\<exists>st'. protocol_loop H own command st nm s = Some (kErrorRescueReboot, st', s'))"
proof -
  have one: "length [kXModemEof] = unat (1 :: u32)" by simp
  from xmodem_read_line [OF assms(2) _ one] assms(4) obtain s1
    where s1: "xmodem_read H 1 kXModemLongTimeout s = Some ([kXModemEof], s1)"
      and q: "quiet s s1 left" by auto
  then have "ready s1" by (simp add: quiet_def)
  from ack_line [OF this] obtain s2 where s2: "xmodem_ack H True s1 = Some s2" "ready s2"
    "rx s2 = rx s1" "tx s2 = tx s1 @ [kXModemAck]" "fl s2 = fl s1" by blast
  have "handle_send_modes H own st s = Some (kErrorOk, st, s)"
    using assms(1) by (simp add: handle_send_modes_def rescue_send_handler_def Let_def uploading_def
        rescue_modes)
  then have "\<exists>st'. protocol_round H own command st nm s = Some (Inl kErrorRescueReboot, st', s2)"
    using assms(1,3) s1 s2
    by (simp add: protocol_round_def recv_into_def xmodem_recv_frame_def xmodem_chars
        protocol_result_def uploading_def)
  then have "\<exists>st'. protocol_loop H own command st nm s = Some (kErrorRescueReboot, st', s2)"
    by (subst protocol_loop.simps) auto
  with s2 q show ?thesis by (auto simp: quiet_def)
qed

text \<open>From any page on.\<close>

lemma upload_pages:
  assumes "uploading st" "ready s" "offset st = 0" "length data = 2048 * n"
    and "rx s = concat (block_frames data (frame st - 1)) @ [kXModemEof]"
    and "0 < unat (flash_offset st)"
    and "unat (flash_offset st) + 2048 * n \<le> unat (flash_limit st)"
    and "unat (flash_start st) + 2048 * j = unat (flash_limit st)"
    and "\<forall>x. unat (x - flash_offset st) < 2048 * n \<longrightarrow> fl s x = 0xFF"
  shows "\<exists>st' s'. protocol_loop H own command st nm s = Some (kErrorRescueReboot, st', s') \<and>
    tx s' = tx s @ replicate (2 * n + 1) kXModemAck \<and>
    fl s' = store_bytes (flash_offset st) data (fl s)"
  using assms
proof (induction n arbitrary: st s data)
  case 0
  then have "rx s = kXModemEof # []" by (simp add: block_frames.simps)
  from upload_end [OF 0(1-3) this, of own command nm] 0 show ?case by auto
next
  case (Suc n)
  have nz: "flash_offset st \<noteq> 0" using Suc.prems(6) by (simp add: unat_gt_0)
  then have nfo: "next_flash_offset st = flash_offset st" "erased_first st k m = m" for k m
    by (simp_all add: next_flash_offset_def erased_first_def)
  have lt: "next_flash_offset st < flash_limit st"
    using Suc.prems(7) nfo by (simp add: word_less_nat_alt)
  have l: "2048 \<le> length data" using Suc.prems(4) by simp
  have blank: "next_page_blank st (fl s)" using Suc.prems(9) by (simp add: next_page_blank_def)
  from page_upload [OF Suc.prems(1-3) l Suc.prems(5) lt Suc.prems(8) blank, of own command nm] nfo
  obtain s1 where s1: "ready s1" "tx s1 = tx s @ [kXModemAck, kXModemAck]"
      "rx s1 = concat (block_frames (drop 2048 data) (frame st + 1)) @ [kXModemEof]"
      "fl s1 = store_bytes (flash_offset st) (take 2048 data) (fl s)"
      "protocol_loop H own command st nm s = protocol_loop H own command
        (st\<lparr>rdata := take 2048 data, offset := 0, frame := frame st + 2,
           flash_offset := flash_offset st + 2048\<rparr>) nm s1" by auto
  let ?st = "st\<lparr>rdata := take 2048 data, offset := 0, frame := frame st + 2,
           flash_offset := flash_offset st + 2048\<rparr>"
  have fo: "unat (flash_offset st + 2048) = unat (flash_offset st) + 2048"
    using Suc.prems(7) unsigned_less [of "flash_limit st", where 'a = nat]
    by (subst unat_word_ariths) simp
  have up: "uploading ?st" using Suc.prems(1) l by (simp add: uploading_def)
  have len: "length (drop 2048 data) = 2048 * n" using Suc.prems(4) by simp
  have rx1: "rx s1 = concat (block_frames (drop 2048 data) (frame ?st - 1)) @ [kXModemEof]"
    using s1(3) by (simp add: algebra_simps)
  have bounds: "0 < unat (flash_offset ?st)"
    "unat (flash_offset ?st) + 2048 * n \<le> unat (flash_limit ?st)"
    "unat (flash_start ?st) + 2048 * j = unat (flash_limit ?st)"
    using fo Suc.prems(7,8) by simp_all
  have "2048 * Suc n \<le> (2 :: nat) ^ 32"
    using Suc.prems(7) unsigned_less [of "flash_limit st", where 'a = nat] by simp
  then have "\<forall>x. unat (x - flash_offset ?st) < 2048 * n \<longrightarrow> fl s1 x = 0xFF"
    using blank_after_page [of "take 2048 data" n "flash_offset st" "fl s"] Suc.prems(9) l s1(4) by simp
  from Suc.IH [OF up s1(1) _ len rx1 bounds this] obtain st' s'
    where r: "protocol_loop H own command ?st nm s1 = Some (kErrorRescueReboot, st', s')"
      "tx s' = tx s1 @ replicate (2 * n + 1) kXModemAck"
      "fl s' = store_bytes (flash_offset ?st) (drop 2048 data) (fl s1)" by auto
  have "store_bytes (flash_offset st) data (fl s) = fl s'"
    using store_bytes_append [of "flash_offset st" "take 2048 data" "drop 2048 data" "fl s"] l r(3) s1(4)
    by simp
  with s1(2,5) r(1,2) show ?case by simp
qed

lemma image_upload:
  assumes "uploading st" "ready s" "offset st = 0" "length data = 2048 * Suc n"
    and "frame st = 1" "flash_offset st = 0" "rx s = concat (block_frames data 0) @ [kXModemEof]"
    and "unat (flash_start st) + 2048 * j = unat (flash_limit st)" "Suc n \<le> j"
  shows "\<exists>st' s'. protocol_loop H own command st nm s = Some (kErrorRescueReboot, st', s') \<and>
    tx s' = tx s @ replicate (2 * n + 3) kXModemAck \<and>
    fl s' = store_bytes (flash_start st) data (page_erased (flash_start st) (2048 * j) (fl s))"
proof -
  have nfo: "next_flash_offset st = flash_start st"
    "erased_first st k m = page_erased (flash_start st) k m" for k m
    using assms(6) by (simp_all add: next_flash_offset_def erased_first_def)
  have lim: "unat (flash_limit st) < 2 ^ 32"
    using unsigned_less [of "flash_limit st", where 'a = nat] by simp
  have lt: "next_flash_offset st < flash_limit st"
    using assms(8,9) nfo by (simp add: word_less_nat_alt)
  have l: "2048 \<le> length data" using assms(4) by simp
  have rx: "rx s = concat (block_frames data (frame st - 1)) @ [kXModemEof]"
    using assms(5,7) by simp
  let ?st = "st\<lparr>rdata := take 2048 data, offset := 0, frame := frame st + 2,
           flash_offset := flash_start st + 2048\<rparr>"
  have blank: "next_page_blank st (fl s)" using assms(6) by (simp add: next_page_blank_def)
  from page_upload [OF assms(1-3) l rx lt assms(8) blank, of own command nm] nfo
  obtain s1 where s1: "ready s1" "tx s1 = tx s @ [kXModemAck, kXModemAck]"
      "rx s1 = concat (block_frames (drop 2048 data) (frame st + 1)) @ [kXModemEof]"
      "fl s1 = store_bytes (flash_start st) (take 2048 data)
         (page_erased (flash_start st) (2048 * j) (fl s))"
      "protocol_loop H own command st nm s = protocol_loop H own command ?st nm s1" by auto
  have fo: "unat (flash_start st + 2048) = unat (flash_start st) + 2048"
    using assms(8,9) lim by (subst unat_word_ariths) simp
  have up: "uploading ?st" using assms(1) l by (simp add: uploading_def)
  have len: "length (drop 2048 data) = 2048 * n" using assms(4) by simp
  have rx1: "rx s1 = concat (block_frames (drop 2048 data) (frame ?st - 1)) @ [kXModemEof]"
    using s1(3) by (simp add: algebra_simps)
  have bounds: "0 < unat (flash_offset ?st)"
    "unat (flash_offset ?st) + 2048 * n \<le> unat (flash_limit ?st)"
    "unat (flash_start ?st) + 2048 * j = unat (flash_limit ?st)"
    using fo assms(8,9) by simp_all
  have "2048 * Suc n \<le> (2 :: nat) ^ 32" "2048 * Suc n \<le> 2048 * j" using assms(8,9) lim by simp_all
  then have "\<forall>x. unat (x - flash_offset ?st) < 2048 * n \<longrightarrow> fl s1 x = 0xFF"
    using blank_after_page [of "take 2048 data" n "flash_start st" "page_erased (flash_start st) (2048 * j) (fl s)"]
      l s1(4) by (simp add: page_erased_def)
  from upload_pages [OF up s1(1) _ len rx1 bounds this, of own command nm] obtain st' s'
    where r: "protocol_loop H own command ?st nm s1 = Some (kErrorRescueReboot, st', s')"
      "tx s' = tx s1 @ replicate (2 * n + 1) kXModemAck"
      "fl s' = store_bytes (flash_start st + 2048) (drop 2048 data) (fl s1)" by auto
  have "store_bytes (flash_start st) data (page_erased (flash_start st) (2048 * j) (fl s)) = fl s'"
    using store_bytes_append [of "flash_start st" "take 2048 data" "drop 2048 data"] l r(3) s1(4)
    by simp
  moreover have "2 * n + 3 = Suc (Suc (2 * n + 1))" by simp
  ultimately show ?thesis
    using s1(2,5) r(1,2) by (simp only: replicate_Suc) simp
qed

lemma firmware_mode_line:
  assumes "ready s" "owner_rescue_command_allowed (config st) kRescueModeFirmware"
  shows "\<exists>s' pre. validate_mode H own kRescueModeFirmware st s =
      Some (kErrorOk, exitproc (st\<lparr>mode := kRescueModeFirmware\<rparr>), s') \<and>
    ready s' \<and> rx s' = rx s \<and> tx s' = tx s @ pre \<and> fl s' = fl s"
proof -
  from send_all [OF assms(1), of "mode_text kRescueModeFirmware"] obtain s1
    where s1: "rom_uart_write H (mode_text kRescueModeFirmware) s = Some s1" "ready s1" "rx s1 = rx s"
      "tx s1 = tx s @ mode_text kRescueModeFirmware" "fl s1 = fl s" by blast
  have plain: "plain_message ''ok: send firmware''"
    by (simp add: plain_message_def str_bytes_def)
  from send_all [OF s1(2)] obtain s2
    where s2: "dbg_line H ''ok: send firmware'' s1 = Some s2" "ready s2" "rx s2 = rx s1"
      "tx s2 = tx s1 @ str_bytes ''ok: send firmware'' @ crlf_bytes" "fl s2 = fl s1"
    unfolding dbg_line_write [OF plain] by blast
  have "mode_message H kRescueModeFirmware own s1 = (True, ''ok: send firmware'')"
    by (simp add: mode_message_def rescue_modes)
  then show ?thesis
    using s1 s2 assms(2)
    by (simp add: validate_mode_def rescue_validate_mode_def mode_message_write rescue_modes)
qed

lemma rescue_upload:
  assumes "ready s" "owner_rescue_command_allowed cfg kRescueModeFirmware"
    and "length (rdata st) = 2048" "length img = 2048 * Suc n"
    and "st0 = rescue_state_init H cfg st"
    and "unat (flash_start st0) + 2048 * j = unat (flash_limit st0)" "Suc n \<le> j"
    and "rx s = concat (block_frames img 0) @ [kXModemEof]"
  shows "\<exists>st' s' pre. rescue_protocol H own cfg command st s =
      Some (kErrorRescueReboot, st', rstmgr_reset H s') \<and>
    tx s' = tx s @ pre @ replicate (2 * n + 3) kXModemAck \<and>
    fl s' = store_bytes (flash_start st0) img (page_erased (flash_start st0) (2048 * j) (fl s))"
proof -
  have st0: "config st0 = cfg" "rdata st0 = rdata st"
    by (simp_all add: assms(5) rescue_state_init_def Let_def split: option.split)
  have "owner_rescue_command_allowed (config (st0\<lparr>reboot := True\<rparr>)) kRescueModeFirmware"
    using assms(2) st0 by simp
  from firmware_mode_line [OF assms(1) this, of own] obtain s1 pre
    where s1: "validate_mode H own kRescueModeFirmware (st0\<lparr>reboot := True\<rparr>) s =
        Some (kErrorOk, exitproc (st0\<lparr>reboot := True, mode := kRescueModeFirmware\<rparr>), s1)"
      "ready s1" "rx s1 = rx s" "tx s1 = tx s @ pre" "fl s1 = fl s" by auto
  from send [OF s1(2), of kXModemCrc16] obtain s2
    where s2: "xmodem_recv_start H s1 = Some s2" "ready s2" "rx s2 = rx s1"
      "tx s2 = tx s1 @ [kXModemCrc16]" "fl s2 = fl s1"
    by (auto simp: xmodem_recv_start_def xmodem_putchar_def xmodem_write_def)
  let ?st = "exitproc (st0\<lparr>reboot := True, mode := kRescueModeFirmware\<rparr>)"
  have up: "uploading ?st"
    using assms(2,3) st0 by (simp add: uploading_def exitproc_def)
  have f: "offset ?st = 0" "frame ?st = 1" "flash_offset ?st = 0" "flash_start ?st = flash_start st0"
    "flash_limit ?st = flash_limit st0"
    by (simp_all add: exitproc_def)
  have rx2: "rx s2 = concat (block_frames img 0) @ [kXModemEof]" using s1 s2 assms(8) by simp
  from image_upload [OF up s2(2) f(1) assms(4) f(2,3) rx2 _ assms(7), of own command 0] assms(6) f
  obtain st' s' where r: "protocol_loop H own command ?st 0 s2 = Some (kErrorRescueReboot, st', s')"
    "tx s' = tx s2 @ replicate (2 * n + 3) kXModemAck"
    "fl s' = store_bytes (flash_start st0) img (page_erased (flash_start st0) (2048 * j) (fl s2))"
    by auto
  have "rescue_protocol H own cfg command st s = Some (kErrorRescueReboot, st', rstmgr_reset H s')"
    using s1(1) s2(1) r(1) by (simp add: rescue_protocol_def protocol_def assms(5))
  moreover have "tx s' = tx s @ (pre @ [kXModemCrc16]) @ replicate (2 * n + 3) kXModemAck"
    using r(2) s1(4) s2(4) by simp
  ultimately show ?thesis using r(3) s1(5) s2(5) by metis
qed

end

section \<open>A chip\<close>

record flash_chip = line_chip +
  flash_data :: mem

definition rescue_chip :: "('x flash_chip_scheme) rescue_hw" where
  "rescue_chip = chip_hw (rescue_hw.fields 2048 0x80000 0x10000 (\<lambda>s. s)
     (\<lambda>a s. (kErrorOk, s\<lparr>flash_data := page_erased a 2048 (flash_data s)\<rparr>))
     (\<lambda>a bs s. (kErrorOk, s\<lparr>flash_data := programmed a bs (flash_data s)\<rparr>))
     (\<lambda>_ s. (kErrorOk, s)) (\<lambda>_ _ s. (kErrorOk, s)) (\<lambda>_ s. (kErrorOk, replicate 2048 0xFF, s))
     (\<lambda>_. False) (\<lambda>_. replicate 128 0) (\<lambda>_. replicate 256 0) (\<lambda>_ s. s) (\<lambda>_. replicate 32 0)
     (\<lambda>s. s) (\<lambda>_ _. 0) (\<lambda>_. 0) 0 0 0 0 0 0)"

lemma rescue_chip_fields:
  "kFlashPageSize rescue_chip = 2048" "kFlashBankSize rescue_chip = 0x80000"
  "CHIP_ROM_EXT_SIZE_MAX rescue_chip = 0x10000"
  "flash_ctrl_data_default_perms_set rescue_chip s = s"
  "flash_ctrl_data_erase rescue_chip a s = (kErrorOk, s\<lparr>flash_data := page_erased a 2048 (flash_data s)\<rparr>)"
  "flash_ctrl_data_write rescue_chip a bs s = (kErrorOk, s\<lparr>flash_data := programmed a bs (flash_data s)\<rparr>)"
  by (simp_all add: rescue_chip_def chip_hw_def rescue_hw.defs)

lemma flash_data_more: "line_chip.more s' = line_chip.more s \<Longrightarrow> flash_data s' = flash_data s"
  by (cases s; cases s') simp

interpretation chip_rescue: rescue_platform rescue_chip "\<lambda>_. True" line_in line_out flash_data
proof unfold_locales
  fix s s' :: "'x flash_chip_scheme" and c :: u8 and n t a :: u32 and bs :: "u8 list"
  show "\<exists>s'. rom_uart_putchar rescue_chip c s = Some s' \<and> True \<and> line_in s' = line_in s \<and>
      line_out s' = line_out s @ [c] \<and> flash_data s' = flash_data s"
    by (simp add: rescue_chip_def putchar_chip)
  show "\<exists>s'. rom_uart_read rescue_chip n t s = Some (take (unat n) (line_in s), s') \<and> True \<and>
      line_in s' = drop (unat n) (line_in s) \<and> line_out s' = line_out s \<and> flash_data s' = flash_data s"
    if "unat n \<le> length (line_in s)"
    unfolding rescue_chip_def using chip_line.recv [OF TrueI that, where t = t]
    by (fastforce dest: flash_data_more)
qed (simp_all add: rescue_chip_fields)

section \<open>Properties\<close>

text \<open>
  C19: A firmware image of whole pages that a host sends as XModem frames ends up in flash: when
  the configuration allows firmware rescue and the image fits in its range, \<open>rescue_protocol\<close>
  acknowledges every frame and ends with a reset; the range then has exactly the image at its start
  and is erased after it, whatever was in it, and nothing outside has changed. The flash only clears
  bits when it is programmed, so this rests on the erasure before the first page.
\<close>

theorem rescue_flashes_image:
  assumes "rescue_platform H ready rx tx fl" "ready s"
    and "owner_rescue_command_allowed cfg kRescueModeFirmware"
    and "length (rdata st) = 2048" "length img = 2048 * Suc n"
    and "st0 = rescue_state_init H cfg st"
    and "unat (flash_start st0) + 2048 * j = unat (flash_limit st0)" "Suc n \<le> j"
    and "rx s = concat (block_frames img 0) @ [kXModemEof]"
  shows "\<exists>st' s' pre. rescue_protocol H own cfg command st s =
      Some (kErrorRescueReboot, st', rstmgr_reset H s') \<and>
    tx s' = tx s @ pre @ replicate (2 * n + 3) kXModemAck \<and>
    mem_bytes (fl s') (flash_start st0) (length img) = img \<and>
    (\<forall>a. length img \<le> unat (a - flash_start st0) \<and> unat (a - flash_start st0) < 2048 * j \<longrightarrow>
       fl s' a = 0xFF) \<and>
    (\<forall>a. unat (a - flash_start st0) < 2048 * j \<or> fl s' a = fl s a)"
proof -
  from rescue_platform.rescue_upload [OF assms, of own command] obtain st' s' pre
    where r: "rescue_protocol H own cfg command st s = Some (kErrorRescueReboot, st', rstmgr_reset H s')"
      "tx s' = tx s @ pre @ replicate (2 * n + 3) kXModemAck"
      "fl s' = store_bytes (flash_start st0) img (page_erased (flash_start st0) (2048 * j) (fl s))"
    by blast
  have "2048 * j \<le> 2 ^ 32"
    using assms(7) unsigned_less [of "flash_limit st0", where 'a = nat] by simp
  with assms(5,8) have len: "length img \<le> 2 ^ 32" "length img \<le> 2048 * j" by simp_all
  have "fl s' a = fl s a" if "\<not> unat (a - flash_start st0) < 2048 * j" for a
    using that len by (simp add: r(3) store_bytes_apply page_erased_def)
  moreover have "fl s' a = 0xFF" if "length img \<le> unat (a - flash_start st0)" "unat (a - flash_start st0) < 2048 * j" for a
    using that len by (simp add: r(3) store_bytes_apply page_erased_def)
  ultimately show ?thesis using r mem_bytes_store_same [OF len(1)] by metis
qed

definition demo_state :: rescue_state where
  "demo_state = \<lparr>mode = 0, reboot = False, frame = 0, offset = 0, staged_len = 0, flash_offset = 0,
     flash_start = 0, flash_limit = 0, config = None, rdata = replicate 2048 0\<rparr>"

theorem rescue_flashes_image_witness:
  "\<exists>st' s'. rescue_protocol rescue_chip 0 None 0 demo_state
      \<lparr>line_in = concat (block_frames (replicate 2048 7) 0) @ [kXModemEof], line_out = [],
        flash_data = (\<lambda>_. 0)\<rparr> = Some (kErrorRescueReboot, st', s') \<and>
    mem_bytes (flash_data s') 0x10000 2048 = replicate 2048 7 \<and> flash_data s' 0x10800 = 0xFF"
proof -
  let ?s = "\<lparr>line_in = concat (block_frames (replicate 2048 7) 0) @ [kXModemEof], line_out = [],
        flash_data = (\<lambda>_. 0)\<rparr>"
  let ?st0 = "rescue_state_init (rescue_chip :: flash_chip rescue_hw) None demo_state"
  have r: "unat (flash_start ?st0) + 2048 * 224 = unat (flash_limit ?st0)" "flash_start ?st0 = 0x10000"
    by (simp_all add: rescue_state_init_def rescue_chip_fields)
  have rst: "rstmgr_reset rescue_chip s = s" for s :: flash_chip
    by (simp add: rescue_chip_def chip_hw_def rescue_hw.defs)
  have c: "owner_rescue_command_allowed None kRescueModeFirmware" "length (rdata demo_state) = 2048"
    "length (replicate 2048 (7 :: u8)) = 2048 * Suc 0" "Suc 0 \<le> 224"
    "line_in ?s = concat (block_frames (replicate 2048 7) 0) @ [kXModemEof]"
    by (simp_all add: owner_rescue_command_allowed_def demo_state_def)
  from rescue_flashes_image [OF chip_rescue.rescue_platform_axioms TrueI c(1-3) refl r(1) c(4,5),
      of 0 0] obtain st' and s' :: flash_chip where
    "rescue_protocol rescue_chip 0 None 0 demo_state ?s = Some (kErrorRescueReboot, st', rstmgr_reset rescue_chip s')"
    "mem_bytes (flash_data s') (flash_start ?st0) (length (replicate 2048 (7 :: u8))) = replicate 2048 7"
    "\<forall>a. length (replicate 2048 (7 :: u8)) \<le> unat (a - flash_start ?st0) \<and> unat (a - flash_start ?st0) < 2048 * 224 \<longrightarrow>
       flash_data s' a = 0xFF"
    by blast
  moreover have "unat (0x10800 - flash_start ?st0) = 2048" by (simp add: r(2))
  ultimately show ?thesis
    unfolding rst r(2) length_replicate by (intro exI [of _ st'] exI [of _ s']) simp
qed

section \<open>Any hardware\<close>

text \<open>
  The buffer has its 2048 bytes and the offset lies in it. Records and pages the drivers copy
  into the buffer fit: their types have that size.
\<close>

definition rescue_ok :: "rescue_state \<Rightarrow> bool" where
  "rescue_ok st \<longleftrightarrow> length (rdata st) = 2048 \<and> unat (offset st) \<le> 2048"

definition records_fit :: "('d, 'm) rescue_hw_scheme \<Rightarrow> bool" where
  "records_fit H \<longleftrightarrow> (\<forall>d. length (ret_boot_log H d) \<le> 2048 \<and> length (ret_boot_svc_msg H d) \<le> 2048 \<and>
     length (lifecycle_device_id_get H d) \<le> 2048 \<and>
     (\<forall>i e page d'. flash_ctrl_info_read H i d = (e, page, d') \<longrightarrow> length page = 2048))"

lemma recv_payload_length:
  assumes "recv_payload H fr len b d = Some (e, b', d')" "unat len \<le> length (rx_data b)"
  shows "length (rx_data b') = length (rx_data b) \<and> (e = kErrorOk \<longrightarrow> rxlen b' = len)"
proof -
  have "length (rx_data (fill bs b)) = length (rx_data b)"
    if "rom_uart_read H len t s = Some (bs, s')" for bs s s' t
    using length_rom_uart_read [OF that] assms(2) by (simp add: fill_def)
  then show ?thesis
    using assms(1)
    by (auto simp: recv_payload_def xmodem_read_def Let_def split: bind_split_asm if_split_asm)
qed

lemma recv_frame_length:
  assumes "xmodem_recv_frame H fr avail b d = Some (e, b', d')" "unat avail \<le> length (rx_data b)"
  shows "length (rx_data b') = length (rx_data b) \<and> (e = kErrorOk \<longrightarrow> rxlen b' \<le> avail)"
proof -
  have pay: "length (rx_data b') = length (rx_data b) \<and> (e = kErrorOk \<longrightarrow> rxlen b' \<le> avail)"
    if "recv_payload H fr len b s = Some (e, b', d')" "\<not> avail < len" for len s
    using recv_payload_length [OF that(1)] that(2) assms(2)
    by (simp add: word_less_nat_alt word_le_nat_alt)
  from assms(1) show ?thesis
    by (auto simp: xmodem_recv_frame_def Let_def pay split: bind_split_asm if_split_asm)
qed

lemma recv_into_ok:
  assumes "rescue_ok st" "recv_into H st command d = Some (e, rxl, c, st', d')"
  shows "rescue_ok st'" "offset st' = offset st"
    "e = kErrorOk \<Longrightarrow> unat (offset st) + unat rxl \<le> 2048"
proof -
  have av: "unat (2048 - offset st) = 2048 - unat (offset st)"
    using assms(1) by (subst unat_sub) (simp_all add: rescue_ok_def word_le_nat_alt)
  let ?b = "\<lparr>rx_data = drop (unat (offset st)) (rdata st), rxlen = 0, unknown_rx = command\<rparr>"
  from assms(2) obtain b' where b': "xmodem_recv_frame H (frame st) (2048 - offset st) ?b d = Some (e, b', d')"
    and st': "st' = st\<lparr>rdata := take (unat (offset st)) (rdata st) @ rx_data b'\<rparr>" "rxl = rxlen b'"
    by (auto simp: recv_into_def Let_def split: bind_split_asm)
  have "unat (2048 - offset st) \<le> length (rx_data ?b)" using assms(1) av by (simp add: rescue_ok_def)
  from recv_frame_length [OF b' this] st' assms(1) av
  show "rescue_ok st'" "offset st' = offset st" "e = kErrorOk \<Longrightarrow> unat (offset st) + unat rxl \<le> 2048"
    by (auto simp: rescue_ok_def word_le_nat_alt)
qed

lemma exitproc_ok: "length (rdata st) = 2048 \<Longrightarrow> rescue_ok (exitproc st)"
  by (simp add: rescue_ok_def exitproc_def)

lemma validate_mode_ok:
  assumes "rescue_ok st" "validate_mode H own md st d = Some (e, st', d')"
  shows "rescue_ok st'"
  using assms
  by (auto simp: validate_mode_def rescue_validate_mode_def Let_def rescue_ok_def exitproc_def
      split: bind_split_asm if_split_asm prod.split_asm)

lemma flash_firmware_block_ok:
  assumes "rescue_ok st" "flash_firmware_block H st d = Some (e, st', d')"
  shows "rescue_ok st'"
  using assms
  by (auto simp: flash_firmware_block_def flash_write_block_def Let_def rescue_ok_def
      split: bind_split_asm if_split_asm prod.split_asm)

lemma offset_0_ok: "rescue_ok st \<Longrightarrow> rescue_ok (st\<lparr>offset := 0\<rparr>)"
  by (simp add: rescue_ok_def)

lemma recv_modes_ok:
  assumes "rescue_ok st" "handle_recv_modes H own st d = Some (e, st', d')"
  shows "rescue_ok st'"
proof -
  have "rescue_ok st2" if "rescue_recv_handler H own st d = Some (e2, st2, d2)" for e2 st2 d2
    using that assms(1)
    by (auto simp: rescue_recv_handler_def Let_def offset_0_ok split: bind_split_asm if_split_asm)
      (rule offset_0_ok flash_firmware_block_ok [OF assms(1)] | assumption)+
  with assms(2) show ?thesis
    by (auto simp: handle_recv_modes_def split: bind_split_asm if_split_asm)
qed

lemma send_modes_ok:
  assumes "records_fit H" "rescue_ok st" "handle_send_modes H own st d = Some (e, st', d')"
  shows "rescue_ok st'"
proof -
  have stage: "rescue_ok (stage bs st)" if "length bs \<le> 2048" for bs
    using that assms(2) by (simp add: rescue_ok_def stage_def)
  have page: "rescue_ok (st\<lparr>rdata := page\<rparr>)" if "length page = 2048" for page
    using that assms(2) by (simp add: rescue_ok_def)
  obtain e1 st1 d1 where h: "rescue_send_handler H st d = (e1, st1, d1)" by (metis prod_cases3)
  have info: "length pg = 2048" if "flash_ctrl_info_read H i d = (er, pg, s)" for i er pg s
    using assms(1) that unfolding records_fit_def by blast
  have fits: "length (ret_boot_log H s) \<le> 2048" "length (ret_boot_svc_msg H s) \<le> 2048"
    "length (lifecycle_device_id_get H s) \<le> 2048" for s
    using assms(1) by (simp_all add: records_fit_def)
  from h have "rescue_ok st1"
    using assms(2)
    by (auto simp: rescue_send_handler_def Let_def stage fits
        intro: page [OF info] stage [OF eq_imp_le [OF info]] split: if_split_asm prod.split_asm)
  then have ok: "rescue_ok (st1\<lparr>staged_len := 0\<rparr>)" "rescue_ok st1" by (simp_all add: rescue_ok_def)
  with assms(3) h validate_mode_ok [OF ok(1)] show ?thesis
    by (auto simp: handle_send_modes_def split: bind_split_asm if_split_asm)
qed

lemma pad_residue_ok: "rescue_ok st \<Longrightarrow> rescue_ok (pad_residue st)"
proof -
  assume ok: "rescue_ok st"
  let ?o = "unat (offset st)"
  have "?o mod 2048 \<noteq> 0 \<Longrightarrow> ?o < 2048" using ok
    by (cases "?o = 2048") (simp_all add: rescue_ok_def)
  then show "rescue_ok (pad_residue st)"
    using ok by (auto simp: rescue_ok_def pad_residue_def Let_def)
qed

lemma protocol_round_ok:
  assumes "records_fit H" "rescue_ok st" "protocol_round H own c st nm d = Some (r, st', d')"
  shows "rescue_ok st'"
proof -
  from assms(3) obtain e1 st1 d1 where s1: "handle_send_modes H own st d = Some (e1, st1, d1)"
    by (auto simp: protocol_round_def split: bind_split_asm)
  note ok1 = send_modes_ok [OF assms(1,2) s1]
  show ?thesis
  proof (cases "e1 = kErrorOk")
    case False
    with assms(3) s1 ok1 show ?thesis by (simp add: protocol_round_def)
  next
    case True
    with assms(3) s1 obtain e2 rxl c2 st2 d2 where
      s2: "recv_into H st1 c d1 = Some (e2, rxl, c2, st2, d2)"
      and s3: "protocol_result H own e2 rxl c2 st2 nm d2 = Some (r, st', d')"
      by (auto simp: protocol_round_def split: bind_split_asm)
    note ok2 = recv_into_ok [OF ok1 s2]
    have grown: "rescue_ok (st2\<lparr>offset := offset st2 + rxl\<rparr>)" if "e2 = kErrorOk"
    proof -
      have "unat (offset st2 + rxl) = unat (offset st2) + unat rxl"
        using ok2(2,3) that by (subst unat_word_ariths) simp
      with ok2 that show ?thesis by (simp add: rescue_ok_def)
    qed
    have frame: "rescue_ok (st3\<lparr>frame := f\<rparr>)" if "rescue_ok st3" for st3 f
      using that by (simp add: rescue_ok_def)
    have exit: "rescue_ok (exitproc st3)" if "rescue_ok st3" for st3
      using that by (simp add: rescue_ok_def exitproc_def)
    consider (ok) "e2 = kErrorOk" | (eof) "e2 = kErrorXModemEndOfFile"
      | (other) "e2 \<noteq> kErrorOk" "e2 \<noteq> kErrorXModemEndOfFile" by blast
    then show ?thesis
    proof cases
      case ok
      with s3 obtain a b x where hm: "handle_recv_modes H own (st2\<lparr>offset := offset st2 + rxl\<rparr>) d2 =
          Some (a, b, x)" and "st' = b \<or> st' = b\<lparr>frame := frame b + 1\<rparr>"
        by (auto simp: protocol_result_def split: bind_split_asm if_split_asm)
      with recv_modes_ok [OF grown [OF ok] hm] frame show ?thesis by auto
    next
      case eof
      show ?thesis
      proof (cases "offset st2 mod 2048 = 0")
        case True
        with s3 eof have "st' = st2 \<or> st' = exitproc st2"
          by (auto simp: protocol_result_def split: bind_split_asm if_split_asm)
        with ok2(1) exit show ?thesis by auto
      next
        case False
        with s3 eof obtain a b x where hm: "handle_recv_modes H own (pad_residue st2) d2 = Some (a, b, x)"
          and "st' = b \<or> st' = exitproc b"
          by (auto simp: protocol_result_def split: bind_split_asm if_split_asm)
        with recv_modes_ok [OF pad_residue_ok [OF ok2(1)] hm] exit show ?thesis by auto
      qed
    next
      case other
      with s3 ok2(1) show ?thesis
        by (cases e2) (auto simp: protocol_result_def split: bind_split_asm if_split_asm
            dest: validate_mode_ok)
    qed
  qed
qed

text \<open>The states in which a round of the protocol starts.\<close>

inductive protocol_reach :: "('d, 'm) rescue_hw_scheme \<Rightarrow> u32 \<Rightarrow> rescue_state \<Rightarrow> 'd \<Rightarrow>
    u8 \<Rightarrow> rescue_state \<Rightarrow> u32 \<Rightarrow> 'd \<Rightarrow> bool" for H own st0 d0 where
  start: "validate_mode H own kRescueModeFirmware (st0\<lparr>reboot := True\<rparr>) d0 = Some (e, st, d) \<Longrightarrow>
     xmodem_recv_start H d = Some d' \<Longrightarrow> protocol_reach H own st0 d0 c st 0 d'"
| round: "protocol_reach H own st0 d0 c st nm d \<Longrightarrow>
     protocol_round H own c st nm d = Some (Inr (c', nm'), st', d') \<Longrightarrow>
     protocol_reach H own st0 d0 c' st' nm' d'"

text \<open>
  C20: The upload buffer is never overrun: in every round of the protocol, on any hardware and
  whatever the host sends, the offset lies in the 2048 bytes of the buffer, and the round writes
  inside it only and leaves it like that.
\<close>

theorem rescue_buffer_safe:
  assumes "records_fit H" "length (rdata st0) = 2048"
    and "protocol_reach H own st0 d0 c st nm d"
  shows "rescue_ok st \<and> (\<forall>r st' d'. protocol_round H own c st nm d = Some (r, st', d') \<longrightarrow> rescue_ok st')"
proof -
  from assms(3) have "rescue_ok st"
  proof induction
    case (start e st d d' c)
    then show ?case
      using assms(2)
      by (auto simp: validate_mode_def rescue_validate_mode_def mode_message_def rescue_modes
          Let_def exitproc_ok split: bind_split_asm if_split_asm prod.split_asm)
  next
    case (round c st nm d c' nm' st' d')
    then show ?case by (blast intro: protocol_round_ok [OF assms(1)])
  qed
  then show ?thesis by (blast intro: protocol_round_ok [OF assms(1)])
qed

theorem rescue_buffer_safe_witness:
  "\<exists>st d. protocol_reach rescue_chip 0 demo_state \<lparr>line_in = [], line_out = [], flash_data = (\<lambda>_. 0)\<rparr>
     0 st 0 d \<and> rescue_ok st"
proof -
  let ?H = "rescue_chip :: flash_chip rescue_hw"
  let ?d = "\<lparr>line_in = [], line_out = [], flash_data = (\<lambda>_. 0)\<rparr>"
  have fit: "records_fit ?H"
    by (auto simp: records_fit_def rescue_chip_def chip_hw_def rescue_hw.defs)
  have len: "length (rdata demo_state) = 2048" by (simp add: demo_state_def)
  have "owner_rescue_command_allowed (config (demo_state\<lparr>reboot := True\<rparr>)) kRescueModeFirmware"
    by (simp add: demo_state_def owner_rescue_command_allowed_def)
  from chip_rescue.firmware_mode_line [OF TrueI this, of 0 ?d] obtain s1 st where
    s1: "validate_mode ?H 0 kRescueModeFirmware (demo_state\<lparr>reboot := True\<rparr>) ?d = Some (kErrorOk, st, s1)"
    by blast
  obtain s2 where "xmodem_recv_start ?H s1 = Some s2"
    using chip_rescue.send [OF TrueI, of kXModemCrc16 s1]
    by (auto simp: xmodem_recv_start_def xmodem_putchar_def xmodem_write_def)
  from protocol_reach.start [OF s1 this] have r: "protocol_reach ?H 0 demo_state ?d 0 st 0 s2" .
  from rescue_buffer_safe [OF fit len r] r show ?thesis by blast
qed

section \<open>Modes a configuration does not allow\<close>

context serial_line
begin

lemma mode_messages_line:
  assumes "ready s" "plain_message msg"
  shows "\<exists>s1 s2. dbg_printf H (crlf_bytes @ str_bytes ''mode: %C'' @ crlf_bytes)
        [Word (bitfield_byteswap32 md)] s = Some s1 \<and> dbg_line H msg s1 = Some s2 \<and> ready s2"
  using send_all [OF assms(1), of "mode_text md"] send_all [where cs = "str_bytes msg @ crlf_bytes"]
  unfolding mode_message_write dbg_line_write [OF assms(2)] by metis

end

text \<open>
  A configuration that allows other commands but not firmware rescue makes the protocol end
  with a bad mode before it has received anything, unless the uninitialised mode on the stack
  happens to be an allowed one: the refused initial mode is never stored.
\<close>

lemma rescue_needs_firmware_mode:
  assumes "serial_line H ready rx tx rest" "ready s"
    and "\<not> owner_rescue_command_allowed cfg kRescueModeFirmware"
    and "\<not> owner_rescue_command_allowed cfg (mode st)"
  shows "\<exists>st' s'. rescue_protocol H own cfg command st s = Some (kErrorRescueBadMode, st', s')"
proof -
  have plain: "plain_message ''error: mode not allowed''"
    by (simp add: plain_message_def str_bytes_def)
  let ?st = "(rescue_state_init H cfg st)\<lparr>reboot := True\<rparr>"
  have f: "config ?st = cfg" "mode ?st = mode st"
    by (simp_all add: rescue_state_init_def Let_def split: option.split)
  from serial_line.mode_messages_line [OF assms(1,2) plain, of kRescueModeFirmware] obtain s1 s2
    where m: "dbg_printf H (crlf_bytes @ str_bytes ''mode: %C'' @ crlf_bytes)
        [Word (bitfield_byteswap32 kRescueModeFirmware)] s = Some s1"
      "dbg_line H ''error: mode not allowed'' s1 = Some s2" "ready s2" by blast
  have v: "validate_mode H own kRescueModeFirmware ?st s = Some (kErrorRescueBadMode, exitproc ?st, s2)"
    using m assms(3) f by (simp add: validate_mode_def rescue_validate_mode_def rescue_modes)
  from serial_line.send [OF assms(1) m(3), of kXModemCrc16] obtain s3
    where s3: "xmodem_recv_start H s2 = Some s3"
    by (auto simp: xmodem_recv_start_def xmodem_putchar_def xmodem_write_def)
  have "protocol_round H own command (exitproc ?st) 0 s3 = Some (Inl kErrorRescueBadMode, exitproc ?st, s3)"
    using assms(4) f
    by (simp add: protocol_round_def handle_send_modes_def rescue_send_handler_def exitproc_def)
  then have "protocol_loop H own command (exitproc ?st) 0 s3 = Some (kErrorRescueBadMode, exitproc ?st, s3)"
    by (subst protocol_loop.simps) simp
  with v s3 show ?thesis
    by (simp add: rescue_protocol_def protocol_def)
qed

definition id_only :: owner_rescue_config where
  "id_only = \<lparr>header_length = 20, gpio = 0, detect = 0, cfg_start = 32, cfg_size = 100,
     command_allow = (\<lambda>_. kRescueModeOpenTitanID)\<rparr>"

lemma rescue_needs_firmware_mode_witness:
  "owner_rescue_command_allowed (Some id_only) kRescueModeOpenTitanID \<and>
   (\<exists>st' s'. rescue_protocol rescue_chip 0 (Some id_only) 0 demo_state
     \<lparr>line_in = [], line_out = [], flash_data = (\<lambda>_. 0)\<rparr> = Some (kErrorRescueBadMode, st', s'))"
proof -
  have allow: "owner_rescue_command_allowed (Some id_only) c \<longleftrightarrow> c = kRescueModeOpenTitanID" for c
    by (simp add: owner_rescue_command_allowed_def id_only_def)
  then show ?thesis
    using rescue_needs_firmware_mode [OF chip_rescue.serial_line_axioms TrueI, of "Some id_only" demo_state
        0 0 "\<lparr>line_in = [], line_out = [], flash_data = (\<lambda>_. 0)\<rparr>"]
    by (simp add: demo_state_def rescue_modes)
qed

text \<open>
  The reboot command is accepted whatever the configuration allows, but the next round checks
  it against the configuration after all: the protocol then ends with the request to reboot
  only if the command is on the list, and with a bad mode otherwise.
\<close>

lemma rescue_reboot_needs_allow:
  assumes "serial_line H ready rx tx rest" "ready s"
  shows "\<exists>st' s'. validate_mode H own kRescueModeReboot st s = Some (kErrorOk, st', s') \<and>
    config st' = config st \<and>
    protocol_loop H own command st' nm s' =
      Some (if owner_rescue_command_allowed (config st) kRescueModeReboot
            then kErrorRescueReboot else kErrorRescueBadMode, st', s')"
proof -
  have plain: "plain_message ''ok: reboot''" by (simp add: plain_message_def str_bytes_def)
  let ?st = "exitproc (st\<lparr>mode := kRescueModeReboot\<rparr>)"
  from serial_line.mode_messages_line [OF assms plain, of kRescueModeReboot] obtain s1 s2
    where m: "dbg_printf H (crlf_bytes @ str_bytes ''mode: %C'' @ crlf_bytes)
        [Word (bitfield_byteswap32 kRescueModeReboot)] s = Some s1"
      "dbg_line H ''ok: reboot'' s1 = Some s2" by blast
  then have "validate_mode H own kRescueModeReboot st s = Some (kErrorOk, ?st, s2)"
    by (simp add: validate_mode_def rescue_validate_mode_def rescue_modes)
  moreover have "protocol_round H own command ?st nm s2 =
      Some (Inl (if owner_rescue_command_allowed (config st) kRescueModeReboot
            then kErrorRescueReboot else kErrorRescueBadMode), ?st, s2)"
    by (simp add: protocol_round_def handle_send_modes_def rescue_send_handler_def exitproc_def
        rescue_modes)
  ultimately show ?thesis
    by (intro exI [of _ ?st] exI [of _ s2]) (subst protocol_loop.simps, simp add: exitproc_def)
qed

lemma rescue_reboot_needs_allow_witness:
  "\<exists>st' s'. validate_mode rescue_chip 0 kRescueModeReboot (demo_state\<lparr>config := Some id_only\<rparr>)
      \<lparr>line_in = [], line_out = [], flash_data = (\<lambda>_. 0)\<rparr> = Some (kErrorOk, st', s') \<and>
    protocol_loop rescue_chip 0 0 st' 0 s' = Some (kErrorRescueBadMode, st', s')"
proof -
  have "\<not> owner_rescue_command_allowed (Some id_only) kRescueModeReboot"
    by (simp add: owner_rescue_command_allowed_def id_only_def rescue_modes)
  then show ?thesis
    using rescue_reboot_needs_allow [OF chip_rescue.serial_line_axioms TrueI,
        of 0 "demo_state\<lparr>config := Some id_only\<rparr>" "\<lparr>line_in = [], line_out = [], flash_data = (\<lambda>_. 0)\<rparr>" 0 0]
    by auto
qed

end
