(* ===== verification/Asn1.thy ===== *)
theory Asn1
  imports Rom_Error
begin

unbundle bit_operations_syntax

text \<open>
  The DER writer of \<open>sw/device/silicon_creator/lib/cert/asn1.c\<close>: a buffer with a sticky error,
  tags whose length is filled in (and their contents moved) when they are closed, integers and
  bit strings. A \<open>NULL\<close> buffer is \<open>None\<close>; a tag or bit string refers to the one state it was
  started on, so its pointer is a flag. \<open>pushes\<close> is the contract of an operation: it appends the
  given bytes when they fit and reports an exhausted buffer otherwise. The theorem says that
  any document written with these calls is its DER encoding.
\<close>

section \<open>The code\<close>

definition PTRDIFF_MAX :: nat where "PTRDIFF_MAX = 0x7FFFFFFF"

record asn1_state =
  abuffer :: "u8 list option"
  asize :: u32
  aoffset :: u32
  aerror :: rom_error

record asn1_tag =
  tag_live :: bool \<comment> \<open>\<open>state\<close> is not \<open>NULL\<close>\<close>
  len_offset :: u32
  len_size :: u32

record asn1_bitstring =
  bits_live :: bool
  unused_bits_offset :: u32
  used_bits :: u32
  current_byte :: u8

definition RAISE_ASN1_ERROR :: "rom_error \<Rightarrow> asn1_state \<Rightarrow> asn1_state" where
  "RAISE_ASN1_ERROR e st = st\<lparr>aerror := e\<rparr>"

definition asn1_clear_error :: "asn1_state \<Rightarrow> asn1_state" where
  "asn1_clear_error st = st\<lparr>aerror := kErrorOk\<rparr>"

definition asn1_start :: "u8 list option \<Rightarrow> u32 \<Rightarrow> asn1_state option \<Rightarrow> rom_error \<times> asn1_state option" where
  "asn1_start buffer sz new_state =
     (if new_state = None \<or> buffer = None \<or> unat sz > PTRDIFF_MAX
      then (kErrorAsn1StartInvalidArgument, new_state)
      else (kErrorOk, map_option (\<lambda>st. asn1_clear_error (st\<lparr>abuffer := buffer, asize := sz, aoffset := 0\<rparr>)) new_state))"

text \<open>The result, the number of bytes written and what the caller finds in its buffer.\<close>

definition asn1_finish :: "asn1_state \<Rightarrow> rom_error \<times> u32 \<times> u8 list option \<times> asn1_state" where
  "asn1_finish st =
     (aerror st, aoffset st, abuffer st,
      asn1_clear_error (st\<lparr>abuffer := None, asize := 0, aoffset := 0\<rparr>))"

definition overwrite :: "nat \<Rightarrow> u8 list \<Rightarrow> u8 list \<Rightarrow> u8 list" where
  "overwrite off bytes b = take off b @ bytes @ drop (off + length bytes) b"

definition asn1_push_bytes :: "u8 list \<Rightarrow> asn1_state \<Rightarrow> asn1_state" where
  "asn1_push_bytes bytes st =
     (if aerror st \<noteq> kErrorOk then st
      else if length bytes > PTRDIFF_MAX \<or> unat (aoffset st) > PTRDIFF_MAX
      then RAISE_ASN1_ERROR kErrorAsn1PushBytesInvalidArgument st
      else if aoffset st + of_nat (length bytes) > asize st
      then RAISE_ASN1_ERROR kErrorAsn1BufferExhausted st
      else st\<lparr>abuffer := map_option (overwrite (unat (aoffset st)) bytes) (abuffer st),
              aoffset := aoffset st + of_nat (length bytes)\<rparr>)"

definition asn1_push_byte :: "u8 \<Rightarrow> asn1_state \<Rightarrow> asn1_state" where
  "asn1_push_byte byte st = asn1_push_bytes [byte] st"

definition asn1_start_tag :: "u8 \<Rightarrow> asn1_state \<times> asn1_tag \<Rightarrow> asn1_state \<times> asn1_tag" where
  "asn1_start_tag ident = (\<lambda>(st, new_tag).
     let new_tag = new_tag\<lparr>tag_live := False\<rparr>
     in if aerror st \<noteq> kErrorOk then (st, new_tag)
        else
          let new_tag = new_tag\<lparr>tag_live := True\<rparr>; st = asn1_push_byte ident st
          in if aerror st \<noteq> kErrorOk then (st, new_tag)
             else
               let new_tag = new_tag\<lparr>len_offset := aoffset st\<rparr>; st = asn1_push_byte 0 st
               in if aerror st \<noteq> kErrorOk then (st, new_tag) else (st, new_tag\<lparr>len_size := 1\<rparr>))"

text \<open>Moving \<open>n\<close> bytes from \<open>from\<close> on to \<open>to\<close> on, the last byte first.\<close>

definition copy_backwards :: "nat \<Rightarrow> nat \<Rightarrow> nat \<Rightarrow> u8 list \<Rightarrow> u8 list" where
  "copy_backwards dst src n b = fold (\<lambda>i b. b[dst + n - 1 - i := b ! (src + n - 1 - i)]) [0..<n] b"

definition write_length :: "nat \<Rightarrow> u32 \<Rightarrow> u8 list \<Rightarrow> u8 list" where
  "write_length off len b =
     (if len \<le> 0x7f then b[off := ucast len]
      else if len \<le> 0xff then b[off := 0x81, off + 1 := ucast len]
      else b[off := 0x82, off + 1 := ucast (drop_bit 8 len), off + 2 := ucast (len AND 0xff)])"

definition asn1_finish_tag :: "asn1_state \<times> asn1_tag \<Rightarrow> asn1_state \<times> asn1_tag" where
  "asn1_finish_tag = (\<lambda>(st, tag).
     if \<not> tag_live tag then (st, tag)
     else if aerror st \<noteq> kErrorOk then (st, tag)
     else if len_size tag \<noteq> 1 then (RAISE_ASN1_ERROR kErrorAsn1Internal st, tag)
     else
       let len = aoffset st - len_offset tag - len_size tag
       in if len > 0xffff then (RAISE_ASN1_ERROR kErrorAsn1Internal st, tag)
          else
            let final_len_size = (if len \<le> 0x7f then 1 else if len \<le> 0xff then 2 else 3)
            in if len_size tag \<noteq> final_len_size \<and>
                  aoffset st + final_len_size - len_size tag > asize st
               then (RAISE_ASN1_ERROR kErrorAsn1BufferExhausted st, tag)
               else
                 let move = (if len_size tag \<noteq> final_len_size
                             then copy_backwards (unat (len_offset tag + final_len_size))
                                    (unat (len_offset tag + len_size tag)) (unat len)
                             else (\<lambda>b. b))
                 in (st\<lparr>abuffer := map_option (\<lambda>b. write_length (unat (len_offset tag)) len (move b)) (abuffer st),
                       aoffset := aoffset st + (final_len_size - len_size tag)\<rparr>,
                     \<lparr>tag_live = False, len_offset = 0, len_size = 0\<rparr>))"

definition asn1_push_bool :: "u8 \<Rightarrow> bool \<Rightarrow> asn1_tag \<Rightarrow> asn1_state \<Rightarrow> asn1_state" where
  "asn1_push_bool tag v tag_st st =
     (case asn1_start_tag tag (st, tag_st) of (st, tag_st) \<Rightarrow>
        fst (asn1_finish_tag (asn1_push_byte (if v then 0xff else 0) st, tag_st)))"

fun drop_zeroes :: "u8 list \<Rightarrow> u8 list" where
  "drop_zeroes (a # b # bs) = (if a = 0 \<and> drop_bit 7 b = 0 then drop_zeroes (b # bs) else a # b # bs)"
| "drop_zeroes bs = bs"

fun drop_ones :: "u8 list \<Rightarrow> u8 list" where
  "drop_ones (a # b # bs) = (if a = 0xff \<and> drop_bit 7 b = 1 then drop_ones (b # bs) else a # b # bs)"
| "drop_ones bs = bs"

text \<open>\<open>NULL\<close> for the bytes is \<open>None\<close>.\<close>

definition asn1_push_integer ::
  "u8 \<Rightarrow> bool \<Rightarrow> u8 list option \<Rightarrow> asn1_tag \<Rightarrow> asn1_state \<Rightarrow> asn1_state" where
  "asn1_push_integer tag is_signed bytes_be tag_st st =
     (if aerror st \<noteq> kErrorOk then st
      else case bytes_be of
        None \<Rightarrow> RAISE_ASN1_ERROR kErrorAsn1PushIntegerInvalidArgument st
      | Some bytes \<Rightarrow>
          if bytes = [] then RAISE_ASN1_ERROR kErrorAsn1PushIntegerInvalidArgument st
          else case asn1_start_tag tag (st, tag_st) of (st, tag_st) \<Rightarrow>
            let bytes = drop_zeroes bytes;
                bytes' = (if is_signed then drop_ones bytes else bytes);
                st = (if \<not> is_signed \<and> drop_bit 7 (bytes ! 0) = 1 then asn1_push_byte 0 st else st)
            in fst (asn1_finish_tag (asn1_push_bytes bytes' st, tag_st)))"

definition be_bytes :: "u32 \<Rightarrow> u8 list" where
  "be_bytes u_value = [ucast (drop_bit 24 u_value), ucast (drop_bit 16 u_value AND 0xff),
     ucast (drop_bit 8 u_value AND 0xff), ucast (u_value AND 0xff)]"

definition asn1_push_int32 :: "u8 \<Rightarrow> u32 \<Rightarrow> asn1_tag \<Rightarrow> asn1_state \<Rightarrow> asn1_state" where
  "asn1_push_int32 tag v tag_st st = asn1_push_integer tag True (Some (be_bytes v)) tag_st st"

definition asn1_push_uint32 :: "u8 \<Rightarrow> u32 \<Rightarrow> asn1_tag \<Rightarrow> asn1_state \<Rightarrow> asn1_state" where
  "asn1_push_uint32 tag v tag_st st = asn1_push_integer tag False (Some (be_bytes v)) tag_st st"

fun push_times :: "nat \<Rightarrow> u8 \<Rightarrow> asn1_state \<Rightarrow> asn1_state" where
  "push_times 0 byte st = st"
| "push_times (Suc n) byte st = push_times n byte (asn1_push_byte byte st)"

definition asn1_push_integer_pad :: "bool \<Rightarrow> u8 list \<Rightarrow> nat \<Rightarrow> asn1_state \<Rightarrow> asn1_state" where
  "asn1_push_integer_pad is_signed bytes_be padded_size st =
     (if aerror st \<noteq> kErrorOk then st
      else if bytes_be = [] \<or> length bytes_be > padded_size
      then RAISE_ASN1_ERROR kErrorAsn1PushIntegerPadInvalidArgument st
      else
        let padding = (if is_signed \<and> drop_bit 7 (bytes_be ! 0) = 1 then 0xff else 0)
        in asn1_push_bytes bytes_be (push_times (padded_size - length bytes_be) padding st))"

definition kAsn1TagNumberOid :: u8 where "kAsn1TagNumberOid = 0x06"

definition asn1_push_oid_raw :: "u8 list \<Rightarrow> asn1_tag \<Rightarrow> asn1_state \<Rightarrow> asn1_state" where
  "asn1_push_oid_raw bytes tag st =
     (case asn1_start_tag kAsn1TagNumberOid (st, tag) of (st, tag) \<Rightarrow>
        fst (asn1_finish_tag (asn1_push_bytes bytes st, tag)))"

text \<open>The loop over a C string: \<open>str\<close> is what lies at the pointer.\<close>

fun push_chars :: "u8 list \<Rightarrow> nat \<Rightarrow> asn1_state \<Rightarrow> asn1_state" where
  "push_chars (c # cs) (Suc max_len) st =
     (if c \<noteq> 0 then push_chars cs max_len (asn1_push_byte c st) else st)"
| "push_chars _ _ st = st"

definition asn1_push_string :: "u8 \<Rightarrow> u8 list \<Rightarrow> nat \<Rightarrow> asn1_tag \<Rightarrow> asn1_state \<Rightarrow> asn1_state" where
  "asn1_push_string ident str max_len tag st =
     (case asn1_start_tag ident (st, tag) of (st, tag) \<Rightarrow>
        fst (asn1_finish_tag (push_chars str max_len st, tag)))"

definition kLowercaseHexChars :: "u8 list" where
  "kLowercaseHexChars = str_bytes ''0123456789abcdef''"

fun push_hex :: "u8 list \<Rightarrow> asn1_state \<Rightarrow> asn1_state" where
  "push_hex [] st = st"
| "push_hex (b # bs) st = push_hex bs
     (asn1_push_byte (kLowercaseHexChars ! unat (b AND 0xf))
       (asn1_push_byte (kLowercaseHexChars ! unat (drop_bit 4 b)) st))"

definition asn1_push_hexstring :: "u8 \<Rightarrow> u8 list \<Rightarrow> asn1_tag \<Rightarrow> asn1_state \<Rightarrow> asn1_state" where
  "asn1_push_hexstring ident bytes tag st =
     (case asn1_start_tag ident (st, tag) of (st, tag) \<Rightarrow>
        fst (asn1_finish_tag (push_hex bytes st, tag)))"

definition asn1_start_bitstring :: "asn1_state \<times> asn1_bitstring \<Rightarrow> asn1_state \<times> asn1_bitstring" where
  "asn1_start_bitstring = (\<lambda>(st, out).
     if aerror st \<noteq> kErrorOk then (st, out\<lparr>bits_live := False\<rparr>)
     else (asn1_push_byte 0 st,
       \<lparr>bits_live = True, unused_bits_offset = aoffset st, used_bits = 0, current_byte = 0\<rparr>))"

definition asn1_bitstring_push_bit :: "bool \<Rightarrow> asn1_state \<times> asn1_bitstring \<Rightarrow> asn1_state \<times> asn1_bitstring" where
  "asn1_bitstring_push_bit b = (\<lambda>(st, bs).
     if \<not> bits_live bs then (st, bs)
     else if aerror st \<noteq> kErrorOk then (st, bs)
     else
       let bs = (if b then bs\<lparr>current_byte := current_byte bs OR push_bit (unat (7 - used_bits bs)) 1\<rparr> else bs);
           bs = bs\<lparr>used_bits := used_bits bs + 1\<rparr>
       in if used_bits bs = 8
          then (asn1_push_byte (current_byte bs) st, bs\<lparr>current_byte := 0, used_bits := 0\<rparr>)
          else (st, bs))"

definition asn1_finish_bitstring :: "asn1_state \<times> asn1_bitstring \<Rightarrow> asn1_state \<times> asn1_bitstring" where
  "asn1_finish_bitstring = (\<lambda>(st, bs).
     if \<not> bits_live bs then (st, bs)
     else if aerror st \<noteq> kErrorOk then (st, bs)
     else if used_bits bs \<ge> 8
     then (RAISE_ASN1_ERROR kErrorAsn1FinishBitstringInvalidArgument st, bs\<lparr>bits_live := False\<rparr>)
     else
       let st = (if used_bits bs \<noteq> 0 then
               let st = asn1_push_byte (current_byte bs) st
               in st\<lparr>abuffer := map_option (\<lambda>b. b[unat (unused_bits_offset bs) := 8 - ucast (used_bits bs)])
                     (abuffer st)\<rparr>
             else st)
       in (st, bs\<lparr>bits_live := False\<rparr>))"

section \<open>The contract of an operation\<close>

definition asn1_wf :: "asn1_state \<Rightarrow> bool" where
  "asn1_wf st \<longleftrightarrow> (\<exists>b. abuffer st = Some b \<and> length b = unat (asize st)) \<and>
     unat (asize st) \<le> PTRDIFF_MAX \<and> unat (aoffset st) \<le> unat (asize st)"

definition written :: "asn1_state \<Rightarrow> u8 list" where
  "written st = take (unat (aoffset st)) (the (abuffer st))"

definition pushes :: "(asn1_state \<Rightarrow> asn1_state) \<Rightarrow> u8 list \<Rightarrow> bool" where
  "pushes f bs \<longleftrightarrow> (\<forall>st. (aerror st \<noteq> kErrorOk \<longrightarrow> f st = st) \<and>
     (asn1_wf st \<and> aerror st = kErrorOk \<longrightarrow> asn1_wf (f st) \<and> asize (f st) = asize st \<and>
       (if unat (aoffset st) + length bs \<le> unat (asize st)
        then aerror (f st) = kErrorOk \<and> written (f st) = written st @ bs
        else aerror (f st) \<noteq> kErrorOk)))"

lemma length_written: "asn1_wf st \<Longrightarrow> length (written st) = unat (aoffset st)"
  by (auto simp: asn1_wf_def written_def)

lemma pushes_error: "pushes f bs \<Longrightarrow> aerror st \<noteq> kErrorOk \<Longrightarrow> f st = st"
  by (simp add: pushes_def)

lemma pushes_wf:
  assumes "pushes f bs" "asn1_wf st" "aerror st = kErrorOk"
  shows "asn1_wf (f st)" "asize (f st) = asize st"
    and "unat (aoffset st) + length bs \<le> unat (asize st) \<Longrightarrow> aerror (f st) = kErrorOk"
    and "unat (aoffset st) + length bs \<le> unat (asize st) \<Longrightarrow> written (f st) = written st @ bs"
    and "\<not> unat (aoffset st) + length bs \<le> unat (asize st) \<Longrightarrow> aerror (f st) \<noteq> kErrorOk"
  using assms unfolding pushes_def by (metis (no_types))+

lemma pushes_offset:
  assumes "pushes f bs" "asn1_wf st" "aerror st = kErrorOk"
    and "unat (aoffset st) + length bs \<le> unat (asize st)"
  shows "unat (aoffset (f st)) = unat (aoffset st) + length bs"
  using pushes_wf(4) [OF assms] length_written [OF pushes_wf(1) [OF assms(1-3)]]
    length_written [OF assms(2)] by simp

lemma pushes_id: "pushes (\<lambda>st. st) []"
  by (simp add: pushes_def asn1_wf_def)

lemma pushes_comp:
  assumes f: "pushes f xs" and g: "pushes g ys"
  shows "pushes (\<lambda>st. g (f st)) (xs @ ys)"
  unfolding pushes_def
proof (intro allI conjI impI)
  fix st :: asn1_state assume "aerror st \<noteq> kErrorOk"
  then show "g (f st) = st" using f g by (simp add: pushes_error)
next
  fix st :: asn1_state assume "asn1_wf st \<and> aerror st = kErrorOk"
  then have st: "asn1_wf st" "aerror st = kErrorOk" by simp_all
  note fst = pushes_wf [OF f st]
  show "asn1_wf (g (f st))" "asize (g (f st)) = asize st"
    using fst(1,2) pushes_wf(1,2) [OF g fst(1)] pushes_error [OF g, of "f st"]
    by (cases "aerror (f st) = kErrorOk"; simp)+
  show "if unat (aoffset st) + length (xs @ ys) \<le> unat (asize st)
      then aerror (g (f st)) = kErrorOk \<and> written (g (f st)) = written st @ xs @ ys
      else aerror (g (f st)) \<noteq> kErrorOk"
  proof (cases "unat (aoffset st) + length xs \<le> unat (asize st)")
    case True
    note off = pushes_offset [OF f st True]
    show ?thesis
      using pushes_wf(3-5) [OF g fst(1) fst(3) [OF True]] fst(2) fst(4) [OF True] off by auto
  next
    case False
    then show ?thesis using fst(5) pushes_error [OF g, of "f st"] by auto
  qed
qed

lemma unat_sum_u32:
  "unat (a :: u32) + n \<le> PTRDIFF_MAX + PTRDIFF_MAX \<Longrightarrow> unat (a + of_nat n) = unat a + n"
  unfolding PTRDIFF_MAX_def by (subst unat_word_ariths) (simp add: unat_of_nat)

lemma pushes_bytes: "pushes (asn1_push_bytes bs) bs"
  unfolding pushes_def
proof (intro allI conjI impI)
  fix st :: asn1_state assume "aerror st \<noteq> kErrorOk"
  then show "asn1_push_bytes bs st = st" by (simp add: asn1_push_bytes_def)
next
  fix st :: asn1_state assume "asn1_wf st \<and> aerror st = kErrorOk"
  then obtain b where st: "aerror st = kErrorOk" "abuffer st = Some b" "length b = unat (asize st)"
    "unat (asize st) \<le> PTRDIFF_MAX" "unat (aoffset st) \<le> unat (asize st)"
    by (auto simp: asn1_wf_def)
  let ?st = "asn1_push_bytes bs st"
  have sum: "length bs \<le> PTRDIFF_MAX \<Longrightarrow> unat (aoffset st + of_nat (length bs)) = unat (aoffset st) + length bs"
    using st by (intro unat_sum_u32) simp
  have fits: "length bs \<le> PTRDIFF_MAX \<Longrightarrow>
      aoffset st + of_nat (length bs) > asize st \<longleftrightarrow> \<not> unat (aoffset st) + length bs \<le> unat (asize st)"
    using sum by (simp add: word_less_nat_alt not_le)
  have eq: "?st =
     (if length bs > PTRDIFF_MAX then RAISE_ASN1_ERROR kErrorAsn1PushBytesInvalidArgument st
      else if \<not> unat (aoffset st) + length bs \<le> unat (asize st)
      then RAISE_ASN1_ERROR kErrorAsn1BufferExhausted st
      else st\<lparr>abuffer := Some (overwrite (unat (aoffset st)) bs b), aoffset := aoffset st + of_nat (length bs)\<rparr>)"
    using st fits by (auto simp: asn1_push_bytes_def)
  have "length bs > PTRDIFF_MAX \<Longrightarrow> \<not> unat (aoffset st) + length bs \<le> unat (asize st)" using st by simp
  then show "asn1_wf ?st" "asize ?st = asize st"
    "if unat (aoffset st) + length bs \<le> unat (asize st)
      then aerror ?st = kErrorOk \<and> written ?st = written st @ bs else aerror ?st \<noteq> kErrorOk"
    using st sum unfolding eq
    by (auto simp: asn1_wf_def written_def RAISE_ASN1_ERROR_def overwrite_def)
qed

lemma pushes_byte: "pushes (asn1_push_byte c) [c]"
  using pushes_bytes [of "[c]"] by (simp add: asn1_push_byte_def [abs_def])

section \<open>Closing a tag\<close>

lemma nth_copy_backwards_upto:
  assumes "src < dst" "dst + n \<le> length b" "j \<le> n"
  shows "length (fold (\<lambda>i b. b[dst + n - 1 - i := b ! (src + n - 1 - i)]) [0..<j] b) = length b \<and>
    (\<forall>k<length b. fold (\<lambda>i b. b[dst + n - 1 - i := b ! (src + n - 1 - i)]) [0..<j] b ! k =
      (if dst + n - j \<le> k \<and> k < dst + n then b ! (k - dst + src) else b ! k))"
  using assms(3)
proof (induction j)
  case 0
  then show ?case by auto
next
  case (Suc j)
  let ?b = "fold (\<lambda>i b. b[dst + n - 1 - i := b ! (src + n - 1 - i)]) [0..<j] b"
  from Suc have len: "length ?b = length b"
    and IH: "\<And>k. k < length b \<Longrightarrow> ?b ! k =
      (if dst + n - j \<le> k \<and> k < dst + n then b ! (k - dst + src) else b ! k)" by simp_all
  from Suc.prems assms have idx: "dst + n - 1 - j < length b" "src + n - 1 - j < dst + n - j"
    "dst + n - 1 - j - dst + src = src + n - 1 - j" by simp_all
  show ?case
  proof (intro conjI allI impI)
    show "length (fold (\<lambda>i b. b[dst + n - 1 - i := b ! (src + n - 1 - i)]) [0..<Suc j] b) = length b"
      using len by simp
    fix k assume k: "k < length b"
    have "?b ! (src + n - 1 - j) = b ! (src + n - 1 - j)"
      using IH [of "src + n - 1 - j"] idx assms(2) by simp
    then show "fold (\<lambda>i b. b[dst + n - 1 - i := b ! (src + n - 1 - i)]) [0..<Suc j] b ! k =
        (if dst + n - Suc j \<le> k \<and> k < dst + n then b ! (k - dst + src) else b ! k)"
      using IH [OF k] idx len Suc.prems k
      by (cases "k = dst + n - 1 - j") (auto simp: nth_list_update)
  qed
qed

lemma nth_copy_backwards:
  assumes "src < dst" "dst + n \<le> length b"
  shows "length (copy_backwards dst src n b) = length b"
    and "k < length b \<Longrightarrow> copy_backwards dst src n b ! k =
      (if dst \<le> k \<and> k < dst + n then b ! (k - dst + src) else b ! k)"
  using nth_copy_backwards_upto [OF assms, of n] unfolding copy_backwards_def by simp_all

text \<open>The DER length octets of a length up to 65535.\<close>

definition der_length :: "nat \<Rightarrow> u8 list" where
  "der_length n = (if n \<le> 0x7f then [of_nat n] else if n \<le> 0xff then [0x81, of_nat n]
     else [0x82, of_nat (n div 256), of_nat (n mod 256)])"

lemma unat_ucast_low: "unat (ucast (w :: u32) :: u8) = unat w mod 256"
  by (simp add: unsigned_ucast_eq take_bit_eq_mod)

lemma length_octets:
  assumes "n \<le> 0xffff"
  shows "(ucast (of_nat n :: u32) :: u8) = of_nat n"
    and "(ucast (drop_bit 8 (of_nat n :: u32)) :: u8) = of_nat (n div 256)"
    and "(ucast ((of_nat n :: u32) AND 0xff) :: u8) = of_nat (n mod 256)"
proof -
  have n: "unat (of_nat n :: u32) = n" using assms by simp
  have u: "unat (of_nat k :: u8) = k mod 256" for k by (simp add: unat_of_nat)
  have low: "(of_nat n :: u32) AND 0xff = take_bit 8 (of_nat n)"
    unfolding mask8_u32 by (simp only: take_bit_eq_mask)
  have h: "unat (drop_bit 8 (of_nat n :: u32)) = n div 256"
    unfolding unat_drop_bit_eq n by (simp add: drop_bit_eq_div)
  have l: "unat (take_bit 8 (of_nat n :: u32)) = n mod 256"
    unfolding unsigned_take_bit_eq n by (simp add: take_bit_eq_mod)
  show "(ucast (of_nat n :: u32) :: u8) = of_nat n"
    by (simp only: word_unat_eq_iff unat_ucast_low n u)
  show "(ucast (drop_bit 8 (of_nat n :: u32)) :: u8) = of_nat (n div 256)"
    by (simp only: word_unat_eq_iff unat_ucast_low h u)
  show "(ucast ((of_nat n :: u32) AND 0xff) :: u8) = of_nat (n mod 256)"
    unfolding low by (simp only: word_unat_eq_iff unat_ucast_low l u)
qed

lemma update_octets:
  "off < length b \<Longrightarrow> b[off := x] = take off b @ [x] @ drop (off + 1) b"
  "off + 1 < length b \<Longrightarrow> b[off := x, off + 1 := y] = take off b @ [x, y] @ drop (off + 2) b"
  "off + 2 < length b \<Longrightarrow>
     b[off := x, off + 1 := y, off + 2 := z] = take off b @ [x, y, z] @ drop (off + 3) b"
proof -
  show "off < length b \<Longrightarrow> b[off := x] = take off b @ [x] @ drop (off + 1) b"
    by (simp add: upd_conv_take_nth_drop)
  show "b[off := x, off + 1 := y] = take off b @ [x, y] @ drop (off + 2) b" if h: "off + 1 < length b"
  proof -
    have "Suc (Suc 0) \<le> length (drop off b)" using h by simp
    then obtain a c q where q: "drop off b = a # c # q" by (auto simp only: Suc_le_length_iff)
    obtain p where p: "b = p @ a # c # q" "length p = off"
      using append_take_drop_id [of off b] h q by (metis length_take min.absorb2 add_leD1 less_imp_le)
    show ?thesis unfolding p(1) p(2) [symmetric] by (simp add: list_update_append)
  qed
  show "b[off := x, off + 1 := y, off + 2 := z] = take off b @ [x, y, z] @ drop (off + 3) b"
    if h: "off + 2 < length b"
  proof -
    have "Suc (Suc (Suc 0)) \<le> length (drop off b)" using h by simp
    then obtain a c e q where q: "drop off b = a # c # e # q" by (auto simp only: Suc_le_length_iff)
    obtain p where p: "b = p @ a # c # e # q" "length p = off"
      using append_take_drop_id [of off b] h q by (metis length_take min.absorb2 add_leD1 less_imp_le)
    show ?thesis unfolding p(1) p(2) [symmetric] by (simp add: list_update_append)
  qed
qed

lemma write_length_eq:
  assumes "off + length (der_length n) \<le> length b" "n \<le> 0xffff"
  shows "write_length off (of_nat n) b = take off b @ der_length n @ drop (off + length (der_length n)) b"
proof -
  have n: "unat (of_nat n :: u32) = n" using assms(2) by simp
  have le: "(of_nat n :: u32) \<le> 0x7f \<longleftrightarrow> n \<le> 0x7f" "(of_nat n :: u32) \<le> 0xff \<longleftrightarrow> n \<le> 0xff"
    using n by (simp_all add: word_le_nat_alt)
  show ?thesis
    using assms(1) unfolding write_length_def le length_octets [OF assms(2)]
    by (simp add: der_length_def update_octets split: if_splits)
qed

text \<open>Writing the length and making room for it turns a body into a tagged body.\<close>

lemma close_buffer:
  assumes "b = p @ [x] @ c @ post" "length c = n" "n \<le> 0xffff"
    and "length p + length (der_length n) + n \<le> length b"
  shows "take (length p + length (der_length n) + n)
      (write_length (length p) (of_nat n)
        (if length (der_length n) \<noteq> 1
         then copy_backwards (length p + length (der_length n)) (length p + 1) n b else b)) =
    p @ der_length n @ c"
proof -
  let ?s = "length (der_length n)"
  let ?m = "if ?s \<noteq> 1 then copy_backwards (length p + ?s) (length p + 1) n b else b"
  have s: "1 \<le> ?s" by (simp add: der_length_def)
  have m: "length ?m = length b" "k < length p \<Longrightarrow> ?m ! k = p ! k"
    "k < n \<Longrightarrow> ?m ! (length p + ?s + k) = c ! k" for k
  proof -
    have "b ! k = p ! k" if "k < length p" using that by (simp add: assms(1) nth_append)
    moreover have "b ! (length p + 1 + k) = c ! k" if "k < n"
      using that assms(2) by (simp add: assms(1) nth_append nth_Cons)
    ultimately show "length ?m = length b" "k < length p \<Longrightarrow> ?m ! k = p ! k"
      "k < n \<Longrightarrow> ?m ! (length p + ?s + k) = c ! k"
      using nth_copy_backwards [of "length p + 1" "length p + ?s" n b] assms(1,4) s
      by (auto simp: add.assoc add.commute [of k])
  qed
  have "write_length (length p) (of_nat n) ?m =
      take (length p) ?m @ der_length n @ drop (length p + ?s) ?m"
    using assms(3,4) m(1) by (intro write_length_eq) simp_all
  moreover have "take (length p) ?m = p"
    using m(1,2) assms(4) by (intro nth_equalityI) simp_all
  moreover have "take n (drop (length p + ?s) ?m) = c"
    using m(1,3) assms(2,4) by (intro nth_equalityI) simp_all
  ultimately show ?thesis by (simp add: take_drop)
qed

definition tagged :: "u8 \<Rightarrow> (asn1_state \<Rightarrow> asn1_state) \<Rightarrow> asn1_tag \<Rightarrow> asn1_state \<Rightarrow> asn1_state" where
  "tagged ident f tag st =
     (case asn1_start_tag ident (st, tag) of (st, tag) \<Rightarrow> fst (asn1_finish_tag (f st, tag)))"

definition der_tlv :: "u8 \<Rightarrow> u8 list \<Rightarrow> u8 list" where
  "der_tlv ident c = ident # der_length (length c) @ c"

lemma finish_tag_error: "aerror st \<noteq> kErrorOk \<Longrightarrow> asn1_finish_tag (st, tag) = (st, tag)"
  by (simp add: asn1_finish_tag_def)

text \<open>Closing a tag after a body that was written in full.\<close>

lemma finish_tag_written:
  assumes wf: "asn1_wf st" "aerror st = kErrorOk" and n: "length c \<le> 0xffff"
    and tag: "tag_live tag" "len_size tag = 1" "unat (len_offset tag) = length p"
    and w: "written st = p @ [x] @ c"
  shows "let st' = fst (asn1_finish_tag (st, tag))
    in asn1_wf st' \<and> asize st' = asize st \<and>
      (if length p + length (der_length (length c)) + length c \<le> unat (asize st)
       then aerror st' = kErrorOk \<and> written st' = p @ der_length (length c) @ c
       else aerror st' \<noteq> kErrorOk)"
proof -
  let ?n = "length c" let ?s = "length (der_length (length c))"
  define fin where
    "fin = (if (of_nat ?n :: u32) \<le> 0x7f then 1 else if (of_nat ?n :: u32) \<le> 0xff then 2 else (3 :: u32))"
  from wf obtain b where b: "abuffer st = Some b" "length b = unat (asize st)"
    "unat (asize st) \<le> PTRDIFF_MAX" "unat (aoffset st) \<le> unat (asize st)" by (auto simp: asn1_wf_def)
  have off: "unat (aoffset st) = length p + 1 + ?n"
    using length_written [OF wf(1)] w by simp
  have un: "unat (of_nat ?n :: u32) = ?n" using n by simp
  have aoff: "aoffset st = len_offset tag + 1 + of_nat ?n"
  proof -
    have "aoffset st = of_nat (length p + 1 + ?n)" using off by (metis of_nat_unat ucast_id)
    moreover have "len_offset tag = of_nat (length p)" using tag(3) by (metis of_nat_unat ucast_id)
    ultimately show ?thesis by simp
  qed
  have len: "aoffset st - len_offset tag - len_size tag = of_nat ?n"
    by (simp add: aoff tag(2))
  have big: "\<not> (of_nat ?n :: u32) > 0xffff" using n un by (simp add: word_less_nat_alt)
  have fin: "unat fin = ?s" "fin = 1 \<longleftrightarrow> ?s = 1"
    using un by (auto simp: fin_def der_length_def word_le_nat_alt)
  have fin_nat: "fin = of_nat ?s" unfolding fin(1) [symmetric] by simp
  have pos: "1 \<le> ?s" "?s \<le> 3" by (auto simp: der_length_def)
  have add: "unat (aoffset st + fin - len_size tag) = length p + ?s + ?n"
    "unat (len_offset tag + fin) = length p + ?s" "unat (len_offset tag + len_size tag) = length p + 1"
    "unat (aoffset st + (fin - len_size tag)) = length p + ?s + ?n"
  proof -
    have "aoffset st + fin - len_size tag = len_offset tag + of_nat (?s + ?n)"
      "aoffset st + (fin - len_size tag) = len_offset tag + of_nat (?s + ?n)"
      "len_offset tag + fin = len_offset tag + of_nat ?s"
      by (simp_all add: aoff tag(2) fin_nat)
    moreover have "unat (len_offset tag + of_nat k) = length p + k" if "k \<le> PTRDIFF_MAX" for k
      using unat_sum_u32 [of "len_offset tag" k] that tag(3) off b(3,4) by simp
    moreover have "?s + ?n \<le> PTRDIFF_MAX" "?s \<le> PTRDIFF_MAX" "(1 :: nat) \<le> PTRDIFF_MAX"
      using n pos by (simp_all add: PTRDIFF_MAX_def)
    ultimately show "unat (aoffset st + fin - len_size tag) = length p + ?s + ?n"
      "unat (len_offset tag + fin) = length p + ?s"
      "unat (aoffset st + (fin - len_size tag)) = length p + ?s + ?n"
      "unat (len_offset tag + len_size tag) = length p + 1"
      using tag(2) by (metis add.assoc of_nat_1)+
  qed
  have split_b: "b = p @ [x] @ c @ drop (unat (aoffset st)) b"
    using w append_take_drop_id [of "unat (aoffset st)" b] by (simp add: written_def b(1))
  let ?room = "length p + ?s + ?n \<le> unat (asize st)"
  have exhausted: "(len_size tag \<noteq> fin \<and> aoffset st + fin - len_size tag > asize st) \<longleftrightarrow> \<not> ?room"
    using add(1) fin(2) off b(4) by (auto simp: tag(2) word_less_nat_alt)
  have move: "(if len_size tag \<noteq> fin then copy_backwards (unat (len_offset tag + fin))
        (unat (len_offset tag + len_size tag)) (unat (of_nat ?n :: u32)) else (\<lambda>b. b)) b =
      (if ?s \<noteq> 1 then copy_backwards (length p + ?s) (length p + 1) ?n b else b)"
    using fin(2) add un by (auto simp: tag(2))
  show ?thesis
  proof (cases ?room)
    case False
    then have "fst (asn1_finish_tag (st, tag)) = RAISE_ASN1_ERROR kErrorAsn1BufferExhausted st"
      using wf(2) tag(1,2) big exhausted unfolding asn1_finish_tag_def prod.case len Let_def fin_def [symmetric]
      by simp
    with False wf show ?thesis
      by (simp add: RAISE_ASN1_ERROR_def asn1_wf_def Let_def)
  next
    case True
    let ?b' = "write_length (length p) (of_nat ?n)
        (if ?s \<noteq> 1 then copy_backwards (length p + ?s) (length p + 1) ?n b else b)"
    have eq: "fst (asn1_finish_tag (st, tag)) =
        st\<lparr>abuffer := Some ?b', aoffset := aoffset st + (fin - len_size tag)\<rparr>"
    proof -
      have "\<not> (len_size tag \<noteq> fin \<and> aoffset st + fin - len_size tag > asize st)"
        using True exhausted by simp
      then show ?thesis
        using wf(2) tag(1) big unfolding asn1_finish_tag_def prod.case len Let_def fin_def [symmetric]
        by (simp only: tag(2) [unfolded One_nat_def] if_False if_True simp_thms fst_conv b(1) option.map
            move [unfolded tag(2)] tag(3) not_not)
    qed
    have room: "length p + ?s + ?n \<le> length b" using True b(2) by simp
    have "length ?b' = length b"
      using True b(2) nth_copy_backwards(1) [of "length p + 1" "length p + ?s" ?n b] pos
      by (simp add: write_length_def)
    moreover note close_buffer [OF split_b refl n room]
    ultimately show ?thesis
      using True b add(4) wf unfolding eq Let_def by (simp add: asn1_wf_def written_def)
  qed
qed

lemma pushes_tagged:
  assumes f: "pushes f c" and n: "length c \<le> 0xffff"
  shows "pushes (tagged ident f tag0) (der_tlv ident c)"
  unfolding pushes_def
proof (intro allI conjI impI)
  fix st :: asn1_state assume "aerror st \<noteq> kErrorOk"
  then show "tagged ident f tag0 st = st"
    by (simp add: tagged_def asn1_start_tag_def Let_def pushes_error [OF f] finish_tag_error)
next
  fix st :: asn1_state assume "asn1_wf st \<and> aerror st = kErrorOk"
  then have st: "asn1_wf st" "aerror st = kErrorOk" by simp_all
  let ?n = "length c" let ?s = "length (der_length ?n)"
  let ?total = "unat (aoffset st) + length (der_tlv ident c) \<le> unat (asize st)"
  have pos: "1 \<le> ?s" by (auto simp: der_length_def)
  let ?st1 = "asn1_push_byte ident st"
  let ?st2 = "asn1_push_byte 0 ?st1"
  let ?res = "tagged ident f tag0 st"
  note p1 = pushes_wf [OF pushes_byte [of ident] st]
  have p2: "pushes (\<lambda>st. asn1_push_byte 0 (asn1_push_byte ident st)) [ident, 0]"
    using pushes_comp [OF pushes_byte pushes_byte] by simp
  note q2 = pushes_wf [OF p2 st]
  have "asn1_wf ?res \<and> asize ?res = asize st \<and>
    (if ?total then aerror ?res = kErrorOk \<and> written ?res = written st @ der_tlv ident c
     else aerror ?res \<noteq> kErrorOk)"
  proof (cases "unat (aoffset st) + 2 \<le> unat (asize st)")
    case False
    have res: "?res = ?st1 \<or> ?res = ?st2" "aerror ?res \<noteq> kErrorOk"
    proof -
      have "aerror ?st2 \<noteq> kErrorOk" using q2(5) False by simp
      moreover have "aerror ?st1 \<noteq> kErrorOk \<Longrightarrow> ?st2 = ?st1" by (rule pushes_error [OF pushes_byte])
      ultimately show "?res = ?st1 \<or> ?res = ?st2" "aerror ?res \<noteq> kErrorOk"
        using st by (auto simp: tagged_def asn1_start_tag_def Let_def pushes_error [OF f] finish_tag_error)
    qed
    have "\<not> ?total" using False pos by (simp add: der_tlv_def)
    with res p1(1,2) q2(1,2) show ?thesis by auto
  next
    case True
    have ok: "aerror ?st1 = kErrorOk" "aerror ?st2 = kErrorOk" "written ?st2 = written st @ [ident, 0]"
      using p1(3) q2(3,4) True by simp_all
    have o1: "unat (aoffset ?st1) = unat (aoffset st) + 1"
      using pushes_offset [OF pushes_byte [of ident] st] True by simp
    have o2: "unat (aoffset ?st2) = unat (aoffset st) + 2"
      using pushes_offset [OF p2 st] True by simp
    define tag where "tag = tag0\<lparr>tag_live := True, len_offset := aoffset ?st1, len_size := 1\<rparr>"
    have res: "?res = fst (asn1_finish_tag (f ?st2, tag))"
      using st ok by (simp add: tagged_def asn1_start_tag_def Let_def tag_def)
    note p3 = pushes_wf [OF f q2(1) ok(2)]
    show ?thesis
    proof (cases "unat (aoffset ?st2) + ?n \<le> unat (asize ?st2)")
      case False
      from p3(5) [OF False] have e: "?res = f ?st2" "aerror ?res \<noteq> kErrorOk"
        unfolding res by (simp_all add: finish_tag_error)
      have "\<not> ?total" using False pos o2 q2(2) by (simp add: der_tlv_def)
      with e p3(1,2) q2(2) show ?thesis by auto
    next
      case True
      let ?p = "written st @ [ident]"
      have w: "written (f ?st2) = ?p @ [0] @ c" using p3(4) [OF True] ok(3) by simp
      have lp: "unat (len_offset tag) = length ?p"
        using o1 length_written [OF st(1)] by (simp add: tag_def)
      have tag: "tag_live tag" "len_size tag = 1" by (simp_all add: tag_def)
      from finish_tag_written [OF p3(1) p3(3) [OF True] n tag lp w]
      have fin: "asn1_wf ?res" "asize ?res = asize (f ?st2)"
        "if length ?p + ?s + ?n \<le> unat (asize (f ?st2))
         then aerror ?res = kErrorOk \<and> written ?res = ?p @ der_length ?n @ c
         else aerror ?res \<noteq> kErrorOk"
        unfolding Let_def res by simp_all
      have "?total \<longleftrightarrow> length ?p + ?s + ?n \<le> unat (asize (f ?st2))"
        using p3(2) q2(2) length_written [OF st(1)] by (simp add: der_tlv_def add.assoc)
      with fin p3(2) q2(2) show ?thesis by (simp add: der_tlv_def split: if_split_asm)
    qed
  qed
  then show "asn1_wf ?res" "asize ?res = asize st"
    "if ?total then aerror ?res = kErrorOk \<and> written ?res = written st @ der_tlv ident c
     else aerror ?res \<noteq> kErrorOk" by simp_all
qed

section \<open>Contents\<close>

definition int_content :: "bool \<Rightarrow> u8 list \<Rightarrow> u8 list" where
  "int_content is_signed bytes =
     (let z = drop_zeroes bytes
      in if is_signed then drop_ones z else if drop_bit 7 (z ! 0) = 1 then 0 # z else z)"

lemma pushes_integer:
  assumes "bytes \<noteq> []" "length (int_content is_signed bytes) \<le> 0xffff"
  shows "pushes (asn1_push_integer ident is_signed (Some bytes) tag) (der_tlv ident (int_content is_signed bytes))"
proof -
  let ?z = "drop_zeroes bytes"
  let ?body = "\<lambda>st. asn1_push_bytes (if is_signed then drop_ones ?z else ?z)
      (if \<not> is_signed \<and> drop_bit 7 (?z ! 0) = 1 then asn1_push_byte 0 st else st)"
  have "pushes ?body (int_content is_signed bytes)"
    using pushes_comp [OF pushes_byte [of 0] pushes_bytes [of ?z]] pushes_bytes
    by (simp add: int_content_def Let_def)
  note t = pushes_tagged [OF this assms(2), of ident tag]
  have "asn1_push_integer ident is_signed (Some bytes) tag = tagged ident ?body tag"
  proof (rule ext)
    fix st
    show "asn1_push_integer ident is_signed (Some bytes) tag st = tagged ident ?body tag st"
    proof (cases "aerror st = kErrorOk")
      case False
      with pushes_error [OF t False] show ?thesis by (simp add: asn1_push_integer_def)
    next
      case True
      with assms(1) show ?thesis
        by (simp add: asn1_push_integer_def tagged_def Let_def split: prod.split)
    qed
  qed
  with t show ?thesis by simp
qed

lemma pushes_chars: "0 \<notin> set str \<Longrightarrow> pushes (push_chars str (length str)) str"
proof (induction str)
  case Nil
  then show ?case using pushes_id by (simp add: pushes_def)
next
  case (Cons c str)
  then have "pushes (\<lambda>st. push_chars str (length str) (asn1_push_byte c st)) ([c] @ str)"
    by (intro pushes_comp pushes_byte) simp
  moreover have "push_chars (c # str) (length (c # str)) = (\<lambda>st. push_chars str (length str) (asn1_push_byte c st))"
    using Cons.prems by (auto simp: fun_eq_iff)
  ultimately show ?case by simp
qed

definition hex_chars :: "u8 list \<Rightarrow> u8 list" where
  "hex_chars bs = concat (map (\<lambda>b. [kLowercaseHexChars ! unat (drop_bit 4 b),
     kLowercaseHexChars ! unat (b AND 0xf)]) bs)"

lemma pushes_hex: "pushes (push_hex bs) (hex_chars bs)"
proof (induction bs)
  case Nil
  then show ?case using pushes_id by (simp add: pushes_def hex_chars_def)
next
  case (Cons b bs)
  have "push_hex (b # bs) = (\<lambda>st. push_hex bs ((\<lambda>st. asn1_push_byte (kLowercaseHexChars ! unat (b AND 0xf))
       (asn1_push_byte (kLowercaseHexChars ! unat (drop_bit 4 b)) st)) st))"
    by (simp add: fun_eq_iff)
  with pushes_comp [OF pushes_comp [OF pushes_byte pushes_byte] Cons] show ?case
    by (simp add: hex_chars_def)
qed

section \<open>Bit strings\<close>

fun byte_at :: "nat \<Rightarrow> bool list \<Rightarrow> u8" where
  "byte_at k [] = 0"
| "byte_at k (b # bs) = (if b then push_bit (7 - k) 1 else 0) OR byte_at (Suc k) bs"

fun pack :: "bool list \<Rightarrow> u8 list" where
  "pack bs = (if bs = [] then [] else byte_at 0 (take 8 bs) # pack (drop 8 bs))"

declare pack.simps [simp del]

definition bits_content :: "bool list \<Rightarrow> u8 list" where
  "bits_content bs = of_nat ((8 - length bs mod 8) mod 8) # pack bs"

definition feed :: "bool list \<Rightarrow> asn1_state \<times> asn1_bitstring \<Rightarrow> asn1_state \<times> asn1_bitstring" where
  "feed bs = fold asn1_bitstring_push_bit bs"

definition asn1_bits :: "bool list \<Rightarrow> asn1_bitstring \<Rightarrow> asn1_state \<Rightarrow> asn1_state" where
  "asn1_bits bs out st = fst (asn1_finish_bitstring (feed bs (asn1_start_bitstring (st, out))))"

lemma byte_at_snoc:
  "byte_at k (bs @ [b]) = byte_at k bs OR (if b then push_bit (7 - (k + length bs)) 1 else 0)"
  by (induction bs arbitrary: k) (simp_all add: or.assoc)

lemma feed_error: "aerror st \<noteq> kErrorOk \<Longrightarrow> feed bs (st, out) = (st, out)"
  unfolding feed_def by (induction bs) (simp_all add: asn1_bitstring_push_bit_def)

lemma feed_dead: "\<not> bits_live out \<Longrightarrow> feed bs (st, out) = (st, out)"
  unfolding feed_def by (induction bs) (simp_all add: asn1_bitstring_push_bit_def)

lemma finish_bitstring_error: "aerror st \<noteq> kErrorOk \<Longrightarrow> asn1_finish_bitstring (st, out) = (st, out)"
  by (simp add: asn1_finish_bitstring_def)

lemma bit_position:
  assumes "n < 7"
  shows "unat (of_nat n :: u32) = n" "unat (7 - of_nat n :: u32) = 7 - n" "(of_nat n + 1 :: u32) \<noteq> 8"
proof -
  consider "n = 0" | "n = 1" | "n = 2" | "n = 3" | "n = 4" | "n = 5" | "n = 6" using assms by linarith
  then show "unat (of_nat n :: u32) = n" "unat (7 - of_nat n :: u32) = 7 - n" "(of_nat n + 1 :: u32) \<noteq> 8"
    by (cases; simp)+
qed

lemma feed_partial:
  assumes "bits_live out" "used_bits out = 0" "current_byte out = 0" "aerror st = kErrorOk" "length bs \<le> 7"
  shows "feed bs (st, out) = (st, out\<lparr>used_bits := of_nat (length bs), current_byte := byte_at 0 bs\<rparr>)"
  using assms(5)
proof (induction bs rule: rev_induct)
  case Nil
  with assms show ?case by (simp add: feed_def)
next
  case (snoc b bs)
  let ?n = "length bs"
  have "?n < 7" using snoc.prems by simp
  note u = bit_position [OF this]
  have IH: "fold asn1_bitstring_push_bit bs (st, out) =
      (st, out\<lparr>used_bits := of_nat ?n, current_byte := byte_at 0 bs\<rparr>)"
    using snoc by (simp add: feed_def)
  show ?case
    using assms(1,4) u(2,3) by (simp add: feed_def IH asn1_bitstring_push_bit_def Let_def byte_at_snoc add.commute)
qed

lemma feed_byte:
  assumes "bits_live out" "used_bits out = 0" "current_byte out = 0" "aerror st = kErrorOk" "length bs = 8"
  shows "feed bs (st, out) = (asn1_push_byte (byte_at 0 bs) st, out)"
proof -
  obtain cs b where bs: "bs = cs @ [b]" "length cs = 7"
    using assms(5) by (cases bs rule: rev_cases) auto
  have "feed cs (st, out) = (st, out\<lparr>used_bits := 7, current_byte := byte_at 0 cs\<rparr>)"
    using feed_partial [OF assms(1-4), of cs] bs(2) by simp
  then show ?thesis
    using assms(1-4) bs(2)
    by (simp add: feed_def bs(1) asn1_bitstring_push_bit_def Let_def byte_at_snoc)
qed

text \<open>The bytes that are full, and the bits left over.\<close>

fun full_bytes :: "bool list \<Rightarrow> u8 list" where
  "full_bytes bs = (if length bs < 8 then [] else byte_at 0 (take 8 bs) # full_bytes (drop 8 bs))"

fun rest_bits :: "bool list \<Rightarrow> bool list" where
  "rest_bits bs = (if length bs < 8 then bs else rest_bits (drop 8 bs))"

declare full_bytes.simps [simp del] rest_bits.simps [simp del]

lemma pack_split: "pack bs = full_bytes bs @ (if rest_bits bs = [] then [] else [byte_at 0 (rest_bits bs)])"
proof (induction bs rule: full_bytes.induct)
  case (1 bs)
  show ?case
  proof (cases "length bs < 8")
    case True
    then show ?thesis
      by (simp add: pack.simps [of bs] pack.simps [of "[]"] full_bytes.simps [of bs] rest_bits.simps [of bs])
  next
    case False
    then have "bs \<noteq> []" by auto
    with 1 False show ?thesis
      by (simp add: pack.simps [of bs] full_bytes.simps [of bs] rest_bits.simps [of bs])
  qed
qed

lemma length_rest_bits: "length (rest_bits bs) = length bs mod 8"
proof (induction bs rule: rest_bits.induct)
  case (1 bs)
  then show ?case by (cases "length bs < 8") (simp_all add: rest_bits.simps [of bs] le_mod_geq)
qed

lemma pushes_feed:
  assumes out: "bits_live out" "used_bits out = 0" "current_byte out = 0"
  shows "pushes (\<lambda>st. fst (feed bs (st, out))) (full_bytes bs) \<and>
    (\<forall>st. aerror st = kErrorOk \<longrightarrow> aerror (fst (feed bs (st, out))) = kErrorOk \<longrightarrow>
      snd (feed bs (st, out)) =
        out\<lparr>used_bits := of_nat (length (rest_bits bs)), current_byte := byte_at 0 (rest_bits bs)\<rparr>)"
proof (induction bs rule: full_bytes.induct)
  case (1 bs)
  show ?case
  proof (cases "length bs < 8")
    case True
    have "(\<lambda>st. fst (feed bs (st, out))) = (\<lambda>st. st)"
    proof (rule ext)
      fix st
      show "fst (feed bs (st, out)) = st"
        using feed_partial [OF out, of st bs] feed_error [of st bs out] True
        by (cases "aerror st = kErrorOk") simp_all
    qed
    with pushes_id feed_partial [OF out, of _ bs] True show ?thesis
      by (simp add: full_bytes.simps [of bs] rest_bits.simps [of bs])
  next
    case False
    have split: "feed bs p = feed (drop 8 bs) (feed (take 8 bs) p)" for p
      unfolding feed_def by (metis append_take_drop_id comp_apply fold_append)
    have eq: "feed bs (st, out) = feed (drop 8 bs) (asn1_push_byte (byte_at 0 (take 8 bs)) st, out)"
      if "aerror st = kErrorOk" for st
      unfolding split using feed_byte [OF out that, of "take 8 bs"] False by simp
    have fst_eq: "(\<lambda>st. fst (feed bs (st, out))) =
        (\<lambda>st. fst (feed (drop 8 bs) (asn1_push_byte (byte_at 0 (take 8 bs)) st, out)))"
    proof (rule ext)
      fix st
      show "fst (feed bs (st, out)) = fst (feed (drop 8 bs) (asn1_push_byte (byte_at 0 (take 8 bs)) st, out))"
        using eq [of st] pushes_error [OF pushes_byte, of st] feed_error
        by (cases "aerror st = kErrorOk") simp_all
    qed
    note IH = "1.IH" [OF False]
    have "pushes (\<lambda>st. fst (feed bs (st, out))) (full_bytes bs)"
      using pushes_comp [OF pushes_byte [of "byte_at 0 (take 8 bs)"] conjunct1 [OF IH]] False
      by (simp add: fst_eq full_bytes.simps [of bs])
    moreover have "snd (feed bs (st, out)) =
        out\<lparr>used_bits := of_nat (length (rest_bits bs)), current_byte := byte_at 0 (rest_bits bs)\<rparr>"
      if "aerror st = kErrorOk" "aerror (fst (feed bs (st, out))) = kErrorOk" for st
    proof -
      let ?st = "asn1_push_byte (byte_at 0 (take 8 bs)) st"
      have e: "aerror (fst (feed (drop 8 bs) (?st, out))) = kErrorOk"
        using that(2) unfolding eq [OF that(1)] .
      have "aerror ?st = kErrorOk"
      proof (rule ccontr)
        assume "aerror ?st \<noteq> kErrorOk"
        from feed_error [OF this, of "drop 8 bs" out] e this show False by simp
      qed
      with conjunct2 [OF IH] e show ?thesis
        using False unfolding eq [OF that(1)] by (simp add: rest_bits.simps [of bs])
    qed
    ultimately show ?thesis by blast
  qed
qed

lemma unused_count:
  assumes "m < 8" "m \<noteq> 0"
  shows "(8 - ucast (of_nat m :: u32) :: u8) = of_nat ((8 - m) mod 8)" "(of_nat m :: u32) < 8" "(of_nat m :: u32) \<noteq> 0"
proof -
  consider "m = 1" | "m = 2" | "m = 3" | "m = 4" | "m = 5" | "m = 6" | "m = 7" using assms by linarith
  then show "(8 - ucast (of_nat m :: u32) :: u8) = of_nat ((8 - m) mod 8)" "(of_nat m :: u32) < 8" "(of_nat m :: u32) \<noteq> 0"
    by (cases; simp)+
qed

lemma pushes_bits: "pushes (asn1_bits bs out) (bits_content bs)"
  unfolding pushes_def
proof (intro allI conjI impI)
  fix st :: asn1_state assume "aerror st \<noteq> kErrorOk"
  then show "asn1_bits bs out st = st"
    by (simp add: asn1_bits_def asn1_start_bitstring_def feed_error finish_bitstring_error)
next
  fix st :: asn1_state assume "asn1_wf st \<and> aerror st = kErrorOk"
  then have st: "asn1_wf st" "aerror st = kErrorOk" by simp_all
  let ?B = "\<lparr>bits_live = True, unused_bits_offset = aoffset st, used_bits = 0, current_byte = 0\<rparr>"
  let ?r = "rest_bits bs" and ?cur = "byte_at 0 (rest_bits bs)" and ?m = "length bs mod 8"
  let ?g = "\<lambda>st. fst (feed bs (asn1_push_byte 0 st, ?B))"
  have feed: "pushes (\<lambda>st. fst (feed bs (st, ?B))) (full_bytes bs)"
    "\<And>st. aerror st = kErrorOk \<Longrightarrow> aerror (fst (feed bs (st, ?B))) = kErrorOk \<Longrightarrow>
      snd (feed bs (st, ?B)) = ?B\<lparr>used_bits := of_nat (length ?r), current_byte := ?cur\<rparr>"
    using pushes_feed [of ?B bs] by simp_all
  have p2: "pushes ?g (0 # full_bytes bs)"
    using pushes_comp [OF pushes_byte [of 0] feed(1)] by simp
  note q2 = pushes_wf [OF p2 st]
  let ?res = "asn1_bits bs out st"
  have res: "?res = fst (asn1_finish_bitstring (feed bs (asn1_push_byte 0 st, ?B)))"
    using st by (simp add: asn1_bits_def asn1_start_bitstring_def)
  have dead: "?res = ?g st" if "aerror (?g st) \<noteq> kErrorOk"
    using that unfolding res by (metis finish_bitstring_error prod.collapse)
  have live: "feed bs (asn1_push_byte 0 st, ?B) =
      (?g st, ?B\<lparr>used_bits := of_nat ?m, current_byte := ?cur\<rparr>)" if "aerror (?g st) = kErrorOk"
  proof -
    have "aerror (asn1_push_byte 0 st) = kErrorOk"
    proof (rule ccontr)
      assume e: "aerror (asn1_push_byte 0 st) \<noteq> kErrorOk"
      from feed_error [OF this, of bs ?B] that e show False by simp
    qed
    from feed(2) [OF this that] show ?thesis by (simp add: prod_eq_iff length_rest_bits)
  qed
  have "asn1_wf ?res \<and> asize ?res = asize st \<and>
      (if unat (aoffset st) + length (bits_content bs) \<le> unat (asize st)
       then aerror ?res = kErrorOk \<and> written ?res = written st @ bits_content bs
       else aerror ?res \<noteq> kErrorOk)"
  proof (cases "?m = 0")
    case True
    then have "?r = []" using length_rest_bits [of bs] by simp
    then have content: "bits_content bs = 0 # full_bytes bs"
      using True by (simp add: bits_content_def pack_split)
    have "?res = ?g st"
    proof (cases "aerror (?g st) = kErrorOk")
      case ok: True
      show ?thesis unfolding res by (subst live [OF ok]) (use True in \<open>simp add: asn1_finish_bitstring_def\<close>)
    qed (rule dead)
    with q2 show ?thesis unfolding content by (simp split: if_split)
  next
    case False
    then have r: "?r \<noteq> []" using length_rest_bits [of bs] by auto
    have m: "?m < 8" by simp
    note count = unused_count [OF m False]
    have content: "bits_content bs = of_nat ((8 - ?m) mod 8) # full_bytes bs @ [?cur]"
      using r by (simp add: bits_content_def pack_split)
    have p3: "pushes (\<lambda>st. asn1_push_byte ?cur (?g st)) (0 # full_bytes bs @ [?cur])"
      using pushes_comp [OF p2 pushes_byte [of ?cur]] by simp
    note q3 = pushes_wf [OF p3 st]
    let ?st3 = "asn1_push_byte ?cur (?g st)"
    show ?thesis
    proof (cases "aerror (?g st) = kErrorOk")
      case err: False
      with q2(3) have "\<not> unat (aoffset st) + length (bits_content bs) \<le> unat (asize st)"
        by (auto simp: content)
      with err q2(1,2) show ?thesis unfolding dead [OF err] by simp
    next
      case ok: True
      have eq: "?res = ?st3\<lparr>abuffer := map_option
          (\<lambda>b. b[unat (aoffset st) := of_nat ((8 - ?m) mod 8)]) (abuffer ?st3)\<rparr>"
        unfolding res by (subst live [OF ok]) (use count ok in \<open>simp add: asn1_finish_bitstring_def Let_def not_le\<close>)
      obtain b where b: "abuffer ?st3 = Some b" "length b = unat (asize ?st3)"
        using q3(1) by (auto simp: asn1_wf_def)
      have wf: "asn1_wf ?res" "asize ?res = asize st" "aerror ?res = aerror ?st3"
        using q3(1,2) b unfolding eq by (simp_all add: asn1_wf_def)
      have w: "written ?res = written st @ bits_content bs"
        if fits: "unat (aoffset st) + length (bits_content bs) \<le> unat (asize st)"
      proof -
        have "written ?res = (written ?st3)[length (written st) := of_nat ((8 - ?m) mod 8)]"
          unfolding length_written [OF st(1)]
          by (simp add: eq written_def b(1) take_update_swap)
        also have "written ?st3 = written st @ 0 # full_bytes bs @ [?cur]"
          using q3(4) fits by (simp add: content)
        finally show ?thesis by (simp add: content)
      qed
      with wf q3(3,5) show ?thesis by (simp add: content)
    qed
  qed
  then show "asn1_wf ?res" "asize ?res = asize st"
    "if unat (aoffset st) + length (bits_content bs) \<le> unat (asize st)
     then aerror ?res = kErrorOk \<and> written ?res = written st @ bits_content bs
     else aerror ?res \<noteq> kErrorOk" by simp_all
qed

section \<open>Integers\<close>

text \<open>Big-endian values, unsigned and two's complement, and DER's rule that the first nine bits differ.\<close>

fun be_nat :: "u8 list \<Rightarrow> int" where
  "be_nat [] = 0"
| "be_nat (b # bs) = uint b * 256 ^ length bs + be_nat bs"

fun be_signed :: "u8 list \<Rightarrow> int" where
  "be_signed [] = 0"
| "be_signed (b # bs) = sint b * 256 ^ length bs + be_nat bs"

fun minimal_int :: "u8 list \<Rightarrow> bool" where
  "minimal_int (a # b # bs) \<longleftrightarrow> \<not> (a = 0 \<and> \<not> bit b 7) \<and> \<not> (a = 0xff \<and> bit b 7)"
| "minimal_int bs \<longleftrightarrow> bs \<noteq> []"

lemma top_bit: "drop_bit 7 (b :: u8) = 0 \<longleftrightarrow> \<not> bit b 7" "drop_bit 7 (b :: u8) = 1 \<longleftrightarrow> bit b 7"
proof -
  have "drop_bit 7 b = of_bool (bit b 7)"
    by (rule bit_word_eqI) (auto simp: bit_drop_bit_eq bit_of_bool_iff less_Suc_eq numeral_eq_Suc dest: bit_imp_le_length)
  then show "drop_bit 7 b = 0 \<longleftrightarrow> \<not> bit b 7" "drop_bit 7 b = 1 \<longleftrightarrow> bit b 7" by simp_all
qed

lemma sint_byte: "sint (b :: u8) = uint b - (if bit b 7 then 256 else 0)"
  by (simp add: sint_uint signed_take_bit_eq_take_bit_minus bit_uint_iff take_bit_int_eq_self uint_lt2p [of b, simplified])

lemma drop_zeroes_keeps:
  "bs \<noteq> [] \<Longrightarrow> drop_zeroes bs \<noteq> [] \<and> be_nat (drop_zeroes bs) = be_nat bs \<and>
     be_signed (drop_zeroes bs) = be_signed bs"
  by (induction bs rule: drop_zeroes.induct) (auto simp: top_bit sint_byte)

lemma be_signed_ones: "bit b 7 \<Longrightarrow> be_signed (0xff # b # bs) = be_signed (b # bs)"
proof -
  have "sint (0xff :: u8) = -1" by simp
  then show "bit b 7 \<Longrightarrow> be_signed (0xff # b # bs) = be_signed (b # bs)"
    by (simp add: sint_byte [of b] algebra_simps)
qed

lemma drop_ones_keeps: "bs \<noteq> [] \<Longrightarrow> drop_ones bs \<noteq> [] \<and> be_signed (drop_ones bs) = be_signed bs"
proof (induction bs rule: drop_ones.induct)
  case (1 a b bs)
  then show ?case using be_signed_ones [of b bs] by (auto simp: top_bit)
qed simp_all

lemma no_zeroes:
  "drop_zeroes bs = a # b # cs \<Longrightarrow> \<not> (a = 0 \<and> \<not> bit b 7)"
  by (induction bs rule: drop_zeroes.induct) (auto simp: top_bit split: if_splits)

lemma no_ones:
  assumes "\<And>a b cs. bs = a # b # cs \<Longrightarrow> \<not> (a = 0 \<and> \<not> bit b 7)" "bs \<noteq> []"
  shows "minimal_int (drop_ones bs)"
  using assms
proof (induction bs rule: drop_ones.induct)
  case (1 a b bs)
  show ?case
  proof (cases "a = 0xff \<and> bit b 7")
    case True
    then have "b \<noteq> 0" by auto
    with 1 True show ?thesis by (simp add: top_bit)
  next
    case False
    with "1.prems"(1) [OF refl] show ?thesis by (auto simp: top_bit)
  qed
qed simp_all

lemma int_content_value:
  assumes "bytes \<noteq> []"
  shows "be_signed (int_content is_signed bytes) = (if is_signed then be_signed bytes else be_nat bytes)"
    and "minimal_int (int_content is_signed bytes)"
proof -
  let ?z = "drop_zeroes bytes"
  have z: "?z \<noteq> []" "be_nat ?z = be_nat bytes" "be_signed ?z = be_signed bytes"
    using drop_zeroes_keeps [OF assms] by simp_all
  then obtain a cs where z': "?z = a # cs" by (cases ?z) auto
  show "be_signed (int_content is_signed bytes) = (if is_signed then be_signed bytes else be_nat bytes)"
    using z drop_ones_keeps [OF z(1)] z' by (auto simp: int_content_def Let_def top_bit sint_byte)
  show "minimal_int (int_content is_signed bytes)"
  proof (cases is_signed)
    case True
    then show ?thesis
      using no_ones [of ?z] no_zeroes [of bytes] z(1) by (simp add: int_content_def Let_def)
  next
    case False
    have "minimal_int ?z" if "\<not> bit a 7"
    proof (cases cs)
      case (Cons b ds)
      have "a \<noteq> 0xff" using that by auto
      with no_zeroes [of bytes a b ds] z' Cons show ?thesis by simp
    qed (simp add: z')
    with False z' show ?thesis by (simp add: int_content_def Let_def top_bit)
  qed
qed

text \<open>
  The contents octets of an integer by its value alone: the shortest two's complement, as X.690 has it.
\<close>

function der_integer :: "int \<Rightarrow> u8 list" where
  "der_integer n = (if -128 \<le> n \<and> n < 128 then [of_int n] else der_integer (n div 256) @ [of_int n])"
  by auto
termination by (relation "measure (\<lambda>n. nat \<bar>n\<bar>)") auto

declare der_integer.simps [simp del]

lemma be_snoc:
  "be_nat (bs @ [b]) = be_nat bs * 256 + uint b"
  "bs \<noteq> [] \<Longrightarrow> be_signed (bs @ [b]) = be_signed bs * 256 + uint b"
proof -
  show nat: "be_nat (bs @ [b]) = be_nat bs * 256 + uint b" for bs
    by (induction bs) (simp_all add: algebra_simps)
  show "bs \<noteq> [] \<Longrightarrow> be_signed (bs @ [b]) = be_signed bs * 256 + uint b"
    by (cases bs) (simp_all add: nat algebra_simps)
qed

lemma der_integer_byte: "- 128 \<le> n \<Longrightarrow> n < 128 \<Longrightarrow> der_integer n = [of_int n]"
  by (simp add: der_integer.simps)

lemma der_integer_minimal: "minimal_int bs \<Longrightarrow> der_integer (be_signed bs) = bs"
proof (induction bs rule: rev_induct)
  case (snoc b bs)
  show ?case
  proof (cases "bs = []")
    case True
    have "- 128 \<le> sint b" "sint b < 128"
      using sint_greater_eq [of b] sint_lt [of b] by simp_all
    with True show ?thesis by (simp add: der_integer_byte)
  next
    case False
    let ?m = "be_signed bs"
    have "minimal_int bs" using snoc.prems False by (cases bs rule: minimal_int.cases) auto
    note IH = snoc.IH [OF this]
    have b: "0 \<le> uint b" "uint b < 256" using uint_lt2p [of b] by simp_all
    have "sint b = uint b \<or> sint b = uint b - 256" and bit: "bit b 7 \<longleftrightarrow> 128 \<le> uint b"
      using sint_byte [of b] sint_greater_eq [of b] sint_lt [of b] by (auto split: if_splits)
    have "\<not> (- 128 \<le> ?m * 256 + uint b \<and> ?m * 256 + uint b < 128)"
    proof
      assume r: "- 128 \<le> ?m * 256 + uint b \<and> ?m * 256 + uint b < 128"
      with b have "?m = 0 \<and> uint b < 128 \<or> ?m = - 1 \<and> 128 \<le> uint b" by presburger
      then show False
      proof
        assume m: "?m = 0 \<and> uint b < 128"
        with IH have "bs = [0]" by (simp add: der_integer_byte)
        with snoc.prems m bit show False by simp
      next
        assume m: "?m = - 1 \<and> 128 \<le> uint b"
        with IH have "bs = [- 1]" by (auto simp: der_integer_byte)
        moreover have "(- 1 :: u8) = 0xff" by simp
        ultimately have "bs = [0xff]" by (simp only:)
        with snoc.prems m bit show False by simp
      qed
    qed
    moreover have "(?m * 256 + uint b) div 256 = ?m" using b by simp
    moreover have "(of_int (?m * 256 + uint b) :: u8) = b"
    proof -
      have "(of_int 256 :: u8) = 0" by simp
      then show ?thesis by (simp only: of_int_add of_int_mult mult_zero_right) simp
    qed
    ultimately show ?thesis
      using IH unfolding be_snoc(2) [OF False] by (subst der_integer.simps) (simp only: if_False)
  qed
qed simp

lemma int_content_der:
  "bytes \<noteq> [] \<Longrightarrow> int_content is_signed bytes = der_integer (if is_signed then be_signed bytes else be_nat bytes)"
proof -
  assume b: "bytes \<noteq> []"
  show ?thesis
    using der_integer_minimal [OF int_content_value(2) [OF b, of is_signed]]
    unfolding int_content_value(1) [OF b] by (rule sym)
qed

lemma be_word: "be_nat (be_bytes v) = uint v" "be_signed (be_bytes v) = sint v" for v :: u32
proof -
  let ?n = "uint v"
  have n: "0 \<le> ?n" "?n < 4294967296" using uint_lt2p [of v] by simp_all
  have byte: "uint (ucast w :: u8) = uint w mod 256" for w :: u32
    by (simp add: unsigned_ucast_eq take_bit_eq_mod)
  have low: "uint (w AND 0xff) = uint w mod 256" for w :: u32
  proof -
    have "(0xff :: u32) = mask 8" by (simp add: mask_eq_exp_minus_1)
    then have "w AND 0xff = take_bit 8 w" by (simp only: take_bit_eq_mask)
    then have "uint (w AND 0xff) = take_bit 8 (uint w)" by (simp only: unsigned_take_bit_eq)
    then show ?thesis by (simp only: take_bit_eq_mod) simp
  qed
  have shift: "uint (drop_bit k v) = ?n div 2 ^ k" for k
    by (simp only: uint_nat unat_drop_bit_eq) (simp only: drop_bit_eq_div zdiv_int of_nat_power of_nat_numeral)
  show nat: "be_nat (be_bytes v) = uint v"
  proof -
    have d: "?n div 65536 = ?n div 256 div 256" "?n div 16777216 = ?n div 65536 div 256"
      by (simp_all flip: zdiv_zmult2_eq)
    have "?n div 16777216 < 256" using n by (simp add: div_less_iff_less_mult)
    moreover have "0 \<le> ?n div 16777216" by (simp add: pos_imp_zdiv_nonneg_iff)
    ultimately have "?n div 16777216 mod 256 = ?n div 16777216" by (rule mod_pos_pos_trivial [rotated])
    note top = this
    have digits: "c * 16777216 + (m2 * 65536 + (m1 * 256 + m0)) = n"
      if "c * 256 + m2 = b" "b * 256 + m1 = a" "a * 256 + m0 = n" for a b c m0 m1 m2 n :: int
      using that by linarith
    have "?n div 16777216 * 16777216 + (?n div 65536 mod 256 * 65536 +
        (?n div 256 mod 256 * 256 + ?n mod 256)) = ?n"
      unfolding d by (rule digits) (rule div_mult_mod_eq)+
    then have sum: "?n div 16777216 mod 256 * 16777216 + (?n div 65536 mod 256 * 65536 +
        (?n div 256 mod 256 * 256 + ?n mod 256)) = ?n" unfolding top .
    have "be_nat (be_bytes v) = ?n div 16777216 mod 256 * 16777216 + (?n div 65536 mod 256 * 65536 +
        (?n div 256 mod 256 * 256 + ?n mod 256))"
      by (simp add: be_bytes_def byte low shift)
    then show ?thesis unfolding sum .
  qed
  have top: "bit (ucast (drop_bit 24 v) :: u8) 7 \<longleftrightarrow> bit v 31"
    by (simp add: bit_ucast_iff bit_drop_bit_eq)
  have "sint v = uint v - (if bit v 31 then 4294967296 else 0)"
    by (simp add: sint_uint signed_take_bit_eq_take_bit_minus bit_uint_iff take_bit_int_eq_self uint_lt2p [of v, simplified])
  moreover have "be_signed (be_bytes v) = be_nat (be_bytes v) - (if bit v 31 then 4294967296 else 0)"
    by (simp add: be_bytes_def sint_byte top)
  ultimately show "be_signed (be_bytes v) = sint v" by (simp add: nat)
qed

section \<open>Documents\<close>

text \<open>A document, the calls that write it (the tag and bit string variables start with what the
  stack holds), and its DER encoding. The contents of an integer
  are a function of its value.\<close>

datatype der =
    DerBool u8 bool
  | DerInteger u8 bool "u8 list"
  | DerUint32 u8 u32
  | DerInt32 u8 u32
  | DerOid "u8 list"
  | DerString u8 "u8 list"
  | DerHexstring u8 "u8 list"
  | DerOctets u8 "u8 list"
  | DerBits u8 "bool list"
  | DerNode u8 "der list"

fun emit :: "asn1_tag \<Rightarrow> asn1_bitstring \<Rightarrow> der \<Rightarrow> asn1_state \<Rightarrow> asn1_state" where
  "emit tag out (DerBool ident v) = asn1_push_bool ident v tag"
| "emit tag out (DerInteger ident is_signed bytes) = asn1_push_integer ident is_signed (Some bytes) tag"
| "emit tag out (DerUint32 ident v) = asn1_push_uint32 ident v tag"
| "emit tag out (DerInt32 ident v) = asn1_push_int32 ident v tag"
| "emit tag out (DerOid bytes) = asn1_push_oid_raw bytes tag"
| "emit tag out (DerString ident str) = asn1_push_string ident str (length str) tag"
| "emit tag out (DerHexstring ident bytes) = asn1_push_hexstring ident bytes tag"
| "emit tag out (DerOctets ident bytes) = tagged ident (asn1_push_bytes bytes) tag"
| "emit tag out (DerBits ident bs) = tagged ident (asn1_bits bs out) tag"
| "emit tag out (DerNode ident ds) = tagged ident (fold (\<lambda>call. call) (map (emit tag out) ds)) tag"

fun der_ident :: "der \<Rightarrow> u8" where
  "der_ident (DerBool ident _) = ident"
| "der_ident (DerInteger ident _ _) = ident"
| "der_ident (DerUint32 ident _) = ident"
| "der_ident (DerInt32 ident _) = ident"
| "der_ident (DerOid _) = 0x06"
| "der_ident (DerString ident _) = ident"
| "der_ident (DerHexstring ident _) = ident"
| "der_ident (DerOctets ident _) = ident"
| "der_ident (DerBits ident _) = ident"
| "der_ident (DerNode ident _) = ident"

fun der_content :: "der \<Rightarrow> u8 list" where
  "der_content (DerBool _ v) = [if v then 0xff else 0]"
| "der_content (DerInteger _ is_signed bytes) = 
     der_integer (if is_signed then be_signed bytes else be_nat bytes)"
| "der_content (DerUint32 _ v) = der_integer (uint v)"
| "der_content (DerInt32 _ v) = der_integer (sint v)"
| "der_content (DerOid bytes) = bytes"
| "der_content (DerString _ str) = str"
| "der_content (DerHexstring _ bytes) = hex_chars bytes"
| "der_content (DerOctets _ bytes) = bytes"
| "der_content (DerBits _ bs) = bits_content bs"
| "der_content (DerNode _ ds) = concat (map (\<lambda>d. der_tlv (der_ident d) (der_content d)) ds)"

definition der_bytes :: "der \<Rightarrow> u8 list" where
  "der_bytes d = der_tlv (der_ident d) (der_content d)"

text \<open>What a document may hold: contents that fit a two-byte length, integers with a digit, strings
  without their terminator.\<close>

fun der_valid :: "der \<Rightarrow> bool" where
  "der_valid (DerInteger ident is_signed bytes) \<longleftrightarrow>
     bytes \<noteq> [] \<and> length (der_content (DerInteger ident is_signed bytes)) \<le> 0xffff"
| "der_valid (DerString ident str) \<longleftrightarrow> 0 \<notin> set str \<and> length str \<le> 0xffff"
| "der_valid (DerNode ident ds) \<longleftrightarrow> list_all der_valid ds \<and> length (der_content (DerNode ident ds)) \<le> 0xffff"
| "der_valid d \<longleftrightarrow> length (der_content d) \<le> 0xffff"

lemma be_bytes_nonempty: "be_bytes v \<noteq> []"
  by (simp add: be_bytes_def)

lemma tagged_calls:
  "asn1_push_bool ident v tag = tagged ident (asn1_push_byte (if v then 0xff else 0)) tag"
  "asn1_push_oid_raw bytes tag = tagged 0x06 (asn1_push_bytes bytes) tag"
  "asn1_push_string ident str n tag = tagged ident (push_chars str n) tag"
  "asn1_push_hexstring ident bytes tag = tagged ident (push_hex bytes) tag"
  by (simp_all add: fun_eq_iff asn1_push_bool_def asn1_push_oid_raw_def asn1_push_string_def
      asn1_push_hexstring_def tagged_def kAsn1TagNumberOid_def)

lemma pushes_fold:
  "(\<And>d. d \<in> set ds \<Longrightarrow> pushes (f d) (g d)) \<Longrightarrow> pushes (fold f ds) (concat (map g ds))"
proof (induction ds)
  case Nil
  then show ?case using pushes_id by (simp add: id_def)
next
  case (Cons d ds)
  then have "pushes (\<lambda>st. fold f ds (f d st)) (g d @ concat (map g ds))"
    by (intro pushes_comp) simp_all
  then show ?case by (simp add: comp_def)
qed

lemma pushes_emit: "der_valid d \<Longrightarrow> pushes (emit tag out d) (der_bytes d)"
proof (induction d)
  case (DerBool ident v)
  then show ?case using pushes_tagged [OF pushes_byte, of "if v then 0xff else 0" ident tag]
    by (simp add: tagged_calls der_bytes_def)
next
  case (DerInteger ident is_signed bytes)
  then show ?case using pushes_integer [of bytes is_signed ident tag] by (simp add: der_bytes_def int_content_der)
next
  case (DerUint32 ident v)
  then show ?case using pushes_integer [OF be_bytes_nonempty [of v], of False ident tag]
    by (simp add: der_bytes_def int_content_der be_bytes_nonempty be_word asn1_push_uint32_def [abs_def])
next
  case (DerInt32 ident v)
  then show ?case using pushes_integer [OF be_bytes_nonempty [of v], of True ident tag]
    by (simp add: der_bytes_def int_content_der be_bytes_nonempty be_word asn1_push_int32_def [abs_def])
next
  case (DerOid bytes)
  then show ?case using pushes_tagged [OF pushes_bytes] by (simp add: tagged_calls der_bytes_def)
next
  case (DerString ident str)
  then show ?case using pushes_tagged [OF pushes_chars] by (simp add: tagged_calls der_bytes_def)
next
  case (DerHexstring ident bytes)
  then show ?case using pushes_tagged [OF pushes_hex] by (simp add: tagged_calls der_bytes_def)
next
  case (DerOctets ident bytes)
  then show ?case using pushes_tagged [OF pushes_bytes] by (simp add: der_bytes_def)
next
  case (DerBits ident bs)
  then show ?case using pushes_tagged [OF pushes_bits] by (simp add: der_bytes_def)
next
  case (DerNode ident ds)
  then have "pushes (fold (emit tag out) ds) (concat (map der_bytes ds))"
    by (intro pushes_fold) (auto simp: list_all_iff)
  moreover have "concat (map der_bytes ds) = der_content (DerNode ident ds)"
    by (simp add: der_bytes_def [abs_def])
  ultimately show ?case
    using pushes_tagged [of "fold (emit tag out) ds"] DerNode.prems by (simp add: der_bytes_def fold_map comp_def)
qed

section \<open>Properties\<close>

text \<open>C25: writing any valid document into a buffer and finishing gives the DER encoding of the
  document and its length when the buffer has room for it, and an error otherwise; integers are encoded
  as the shortest two's complement of their value. The buffer keeps its size in both cases, whatever the
  state and the tag variables held before.\<close>

theorem asn1_document_der:
  assumes "der_valid d" "length buffer = unat sz" "unat sz \<le> PTRDIFF_MAX"
  shows "\<exists>st n b st'.
    asn1_start (Some buffer) sz (Some st0) = (kErrorOk, Some st) \<and> length b = unat sz \<and>
    (if length (der_bytes d) \<le> unat sz
     then asn1_finish (emit tag out d st) = (kErrorOk, n, Some b, st') \<and>
       unat n = length (der_bytes d) \<and> take (unat n) b = der_bytes d
     else \<exists>e. e \<noteq> kErrorOk \<and> asn1_finish (emit tag out d st) = (e, n, Some b, st'))"
proof -
  let ?st = "asn1_clear_error (st0\<lparr>abuffer := Some buffer, asize := sz, aoffset := 0\<rparr>)"
  have start: "asn1_start (Some buffer) sz (Some st0) = (kErrorOk, Some ?st)"
    using assms(3) by (simp add: asn1_start_def)
  have st: "asn1_wf ?st" "aerror ?st = kErrorOk" "unat (aoffset ?st) = 0" "asize ?st = sz" "written ?st = []"
    using assms(2,3) by (simp_all add: asn1_wf_def asn1_clear_error_def written_def)
  note e = pushes_wf [OF pushes_emit [OF assms(1), of tag out] st(1,2)]
  let ?r = "emit tag out d ?st"
  obtain b where b: "abuffer ?r = Some b" "length b = unat sz" using e(1,2) st(4) by (auto simp: asn1_wf_def)
  let ?st' = "asn1_clear_error (?r\<lparr>abuffer := None, asize := 0, aoffset := 0\<rparr>)"
  have fin: "asn1_finish ?r = (aerror ?r, aoffset ?r, Some b, ?st')" by (simp add: asn1_finish_def b(1))
  have "unat (aoffset ?r) = length (der_bytes d) \<and> take (unat (aoffset ?r)) b = der_bytes d"
    if "length (der_bytes d) \<le> unat sz"
    using e(4) that st(3-5) length_written [OF e(1)] by (simp add: written_def b(1))
  with start fin b(2) e(3,5) st(3,4) show ?thesis by (cases "length (der_bytes d) \<le> unat sz") auto
qed

text \<open>The sequence of a small certificate: an integer, a bit string and a printable string.\<close>

definition sample_der :: der where
  "sample_der = DerNode 0x30
     [DerUint32 0x02 0xf000, DerBits 0x03 [True, False, True], DerString 0x13 (str_bytes ''ok'')]"

definition sample_tag :: asn1_tag where
  "sample_tag = \<lparr>tag_live = False, len_offset = 0, len_size = 0\<rparr>"

definition sample_bits :: asn1_bitstring where
  "sample_bits = \<lparr>bits_live = False, unused_bits_offset = 0, used_bits = 0, current_byte = 0\<rparr>"

definition sample_state :: asn1_state where
  "sample_state = \<lparr>abuffer = None, asize = 0, aoffset = 0, aerror = kErrorOk\<rparr>"

lemma sample_bytes:
  "der_bytes sample_der = [0x30, 13, 0x02, 3, 0, 0xf0, 0, 0x03, 2, 5, 0xa0, 0x13, 2, 0x6f, 0x6b]"
  by code_simp

lemma sample_valid: "der_valid sample_der"
proof -
  have contents: "der_content (DerUint32 0x02 0xf000) = [0, 0xf0, 0]"
    "der_content (DerBits 0x03 [True, False, True]) = [5, 0xa0]"
    "length (str_bytes ''ok'') = 2" "0 \<notin> set (str_bytes ''ok'')"
    by code_simp+
  then show ?thesis
    by (simp only: sample_der_def der_valid.simps) (simp add: der_tlv_def der_length_def)
qed

theorem asn1_document_der_witness:
  "\<exists>st n b st'. asn1_start (Some (replicate 16 0)) 16 (Some sample_state) = (kErrorOk, Some st) \<and>
     asn1_finish (emit sample_tag sample_bits sample_der st) = (kErrorOk, n, Some b, st') \<and>
     take 15 b = [0x30, 13, 0x02, 3, 0, 0xf0, 0, 0x03, 2, 5, 0xa0, 0x13, 2, 0x6f, 0x6b]"
proof -
  have "length (replicate 16 (0 :: u8)) = unat (16 :: u32)" "unat (16 :: u32) \<le> PTRDIFF_MAX"
    by (simp_all add: PTRDIFF_MAX_def)
  note run = asn1_document_der [OF sample_valid this, of sample_state sample_tag sample_bits]
  have "length (der_bytes sample_der) = 15" by (simp add: sample_bytes)
  with run obtain st n b st' where "asn1_start (Some (replicate 16 0)) 16 (Some sample_state) = (kErrorOk, Some st)"
    "asn1_finish (emit sample_tag sample_bits sample_der st) = (kErrorOk, n, Some b, st')"
    "unat n = 15" "take (unat n) b = der_bytes sample_der" by auto
  then show ?thesis unfolding sample_bytes by auto
qed

lemma length_drop_zeroes: "length (drop_zeroes bs) \<le> length bs"
  by (induction bs rule: drop_zeroes.induct) auto

lemma length_drop_ones: "length (drop_ones bs) \<le> length bs"
  by (induction bs rule: drop_ones.induct) auto

lemma length_int_content: "length (int_content is_signed bytes) \<le> Suc (length bytes)"
  using length_drop_zeroes [of bytes] length_drop_ones [of "drop_zeroes bytes"]
  by (simp add: int_content_def Let_def)

text \<open>An integer is written with its tag, and its contents are the number's shortest two's
  complement: read as signed they are the value of the bytes given (taken as unsigned or signed as the
  caller says), and their first nine bits are not all equal.\<close>

lemma asn1_integer_minimal:
  assumes "asn1_wf st" "aerror st = kErrorOk" "bytes \<noteq> []" "length bytes < 0xffff"
    and "unat (aoffset st) + length bytes + 5 \<le> unat (asize st)"
  shows "\<exists>c. aerror (asn1_push_integer ident is_signed (Some bytes) tag st) = kErrorOk \<and>
    written (asn1_push_integer ident is_signed (Some bytes) tag st) = written st @ der_tlv ident c \<and>
    be_signed c = (if is_signed then be_signed bytes else be_nat bytes) \<and> minimal_int c"
proof -
  let ?c = "int_content is_signed bytes"
  have n: "length ?c \<le> 0xffff" using length_int_content [of is_signed bytes] assms(4) by simp
  have fits: "unat (aoffset st) + length (der_tlv ident ?c) \<le> unat (asize st)"
    using length_int_content [of is_signed bytes] assms(5) by (simp add: der_tlv_def der_length_def)
  note p = pushes_wf [OF pushes_integer [OF assms(3) n] assms(1,2)]
  show ?thesis
    using p(3,4) [OF fits] int_content_value [OF assms(3), of is_signed] by blast
qed

lemma asn1_integer_minimal_witness:
  "\<exists>c. written (asn1_push_integer 2 False (Some [0, 0, 0x80]) sample_tag
      (sample_state\<lparr>abuffer := Some (replicate 16 0), asize := 16\<rparr>)) = der_tlv 2 c \<and> be_signed c = 128"
proof -
  let ?st = "sample_state\<lparr>abuffer := Some (replicate 16 0), asize := 16\<rparr>"
  have "asn1_wf ?st" "aerror ?st = kErrorOk" "written ?st = []"
    "unat (aoffset ?st) + length [0, 0, 0x80 :: u8] + 5 \<le> unat (asize ?st)"
    by (simp_all add: asn1_wf_def sample_state_def PTRDIFF_MAX_def written_def)
  moreover have "be_nat [0, 0, 0x80] = 128" by simp
  ultimately show ?thesis
    using asn1_integer_minimal [of ?st "[0, 0, 0x80]" 2 False sample_tag] by auto
qed

end
