(* ===== verification/Cbor.thy ===== *)
theory Cbor
  imports Prelude
begin

unbundle bit_operations_syntax

text \<open>
  The CBOR writer of \<open>sw/device/silicon_creator/lib/cert/cbor.c\<close> and \<open>cbor.h\<close>. A \<open>NULL\<close> writer only computes
  sizes: it is \<open>None\<close>. The C code does not check the room in the buffer; a write past its end
  is undefined, so an operation returns an \<open>option\<close>: \<open>None\<close> is that write. The theorem decodes what
  was written with an independent reader of CBOR heads.
\<close>

section \<open>The code\<close>

record cbor_out =
  cstart :: "u8 list" \<comment> \<open>the buffer at \<open>start\<close>\<close>
  coffset :: u32

datatype cbor_type =
    Cbor_Type_Uint
  | Cbor_Type_Sint
  | Cbor_Type_Bstr
  | Cbor_Type_Tstr
  | Cbor_Type_Array
  | Cbor_Type_Map

fun cbor_type_value :: "cbor_type \<Rightarrow> u8" where
  "cbor_type_value Cbor_Type_Uint = 0"
| "cbor_type_value Cbor_Type_Sint = 1"
| "cbor_type_value Cbor_Type_Bstr = 2"
| "cbor_type_value Cbor_Type_Tstr = 3"
| "cbor_type_value Cbor_Type_Array = 4"
| "cbor_type_value Cbor_Type_Map = 5"

definition Cbor_Arg_Type_U8 :: u8 where "Cbor_Arg_Type_U8 = 24"
definition Cbor_Arg_Type_U16 :: u8 where "Cbor_Arg_Type_U16 = 25"
definition Cbor_Arg_Type_U32 :: u8 where "Cbor_Arg_Type_U32 = 26"
definition Cbor_Arg_Type_U64 :: u8 where "Cbor_Arg_Type_U64 = 27"

lemmas cbor_arg_defs = Cbor_Arg_Type_U8_def Cbor_Arg_Type_U16_def Cbor_Arg_Type_U32_def Cbor_Arg_Type_U64_def

definition cbor_out_init :: "u8 list \<Rightarrow> cbor_out \<Rightarrow> cbor_out" where
  "cbor_out_init buf p = p\<lparr>cstart := buf, coffset := 0\<rparr>"

definition cbor_out_size :: "cbor_out \<Rightarrow> u32" where
  "cbor_out_size p = coffset p"

definition cbor_calc_arg_size :: "u64 \<Rightarrow> u32" where
  "cbor_calc_arg_size v =
     (if v \<le> 23 then 0 else if v \<le> 0xff then 1 else if v \<le> 0xffff then 2 else if v \<le> 0xffffffff then 4 else 8)"

definition cbor_calc_additional_info :: "u64 \<Rightarrow> u8" where
  "cbor_calc_additional_info v =
     (if v \<le> 23 then ucast v
      else if v \<le> 0xff then Cbor_Arg_Type_U8
      else if v \<le> 0xffff then Cbor_Arg_Type_U16
      else if v \<le> 0xffffffff then Cbor_Arg_Type_U32
      else Cbor_Arg_Type_U64)"

text \<open>\<open>int64_t\<close> is its 64 bits, read with \<open><s\<close>.\<close>

definition cbor_calc_int_size :: "u64 \<Rightarrow> u32" where
  "cbor_calc_int_size v = (if v <s 0 then cbor_calc_arg_size (- (v + 1)) else cbor_calc_arg_size v)"

definition cbor_put :: "u8 list \<Rightarrow> cbor_out \<Rightarrow> cbor_out option" where
  "cbor_put bs p =
     (if unat (coffset p) + length bs \<le> length (cstart p)
      then Some (p\<lparr>cstart := take (unat (coffset p)) (cstart p) @ bs @ drop (unat (coffset p) + length bs) (cstart p),
                   coffset := coffset p + of_nat (length bs)\<rparr>)
      else None)"

definition cbor_write_raw_bytes :: "u8 list \<Rightarrow> cbor_out option \<Rightarrow> (u32 \<times> cbor_out option) option" where
  "cbor_write_raw_bytes raw p =
     (case p of
        None \<Rightarrow> Some (of_nat (length raw), None)
      | Some p \<Rightarrow> map_option (\<lambda>p. (of_nat (length raw), Some p)) (cbor_put raw p))"

text \<open>The loop that takes \<open>i\<close> bytes of the little-endian argument, the highest first.\<close>

fun cbor_arg_loop :: "nat \<Rightarrow> u64 \<Rightarrow> cbor_out \<Rightarrow> cbor_out option" where
  "cbor_arg_loop 0 arg p = Some p"
| "cbor_arg_loop (Suc i) arg p = do {
     p \<leftarrow> cbor_put [ucast (drop_bit (8 * i) arg)] p;
     cbor_arg_loop i arg p
   }"

definition cbor_write_type :: "cbor_type \<Rightarrow> u64 \<Rightarrow> cbor_out option \<Rightarrow> (u32 \<times> cbor_out option) option" where
  "cbor_write_type type arg p =
     (let sz = cbor_calc_arg_size arg
      in case p of
        None \<Rightarrow> Some (1 + sz, None)
      | Some p \<Rightarrow> do {
          p \<leftarrow> cbor_put [push_bit 5 (cbor_type_value type) OR cbor_calc_additional_info arg] p;
          p \<leftarrow> cbor_arg_loop (unat sz) arg p;
          Some (1 + sz, Some p)
        })"

definition cbor_write_int :: "u64 \<Rightarrow> cbor_out option \<Rightarrow> (u32 \<times> cbor_out option) option" where
  "cbor_write_int v p =
     (if v <s 0 then cbor_write_type Cbor_Type_Sint (- (v + 1)) p else cbor_write_type Cbor_Type_Uint v p)"

definition cbor_write_bstr_header :: "u32 \<Rightarrow> cbor_out option \<Rightarrow> (u32 \<times> cbor_out option) option" where
  "cbor_write_bstr_header n = cbor_write_type Cbor_Type_Bstr (ucast n)"

definition cbor_write_tstr_header :: "u32 \<Rightarrow> cbor_out option \<Rightarrow> (u32 \<times> cbor_out option) option" where
  "cbor_write_tstr_header n = cbor_write_type Cbor_Type_Tstr (ucast n)"

definition cbor_write_array_header :: "u32 \<Rightarrow> cbor_out option \<Rightarrow> (u32 \<times> cbor_out option) option" where
  "cbor_write_array_header n = cbor_write_type Cbor_Type_Array (ucast n)"

definition cbor_write_map_header :: "u32 \<Rightarrow> cbor_out option \<Rightarrow> (u32 \<times> cbor_out option) option" where
  "cbor_write_map_header n = cbor_write_type Cbor_Type_Map (ucast n)"

definition cbor_write_bstr :: "u8 list \<Rightarrow> cbor_out option \<Rightarrow> (u32 \<times> cbor_out option) option" where
  "cbor_write_bstr bstr p = do {
     (n, p) \<leftarrow> cbor_write_bstr_header (of_nat (length bstr)) p;
     (m, p) \<leftarrow> cbor_write_raw_bytes bstr p;
     Some (n + m, p)
   }"

definition cbor_write_tstr :: "u8 list \<Rightarrow> cbor_out option \<Rightarrow> (u32 \<times> cbor_out option) option" where
  "cbor_write_tstr tstr p = do {
     (n, p) \<leftarrow> cbor_write_tstr_header (of_nat (length tstr)) p;
     (m, p) \<leftarrow> cbor_write_raw_bytes tstr p;
     Some (n + m, p)
   }"

section \<open>A reader\<close>

text \<open>RFC 8949: three bits of major type, five bits of length information, and the argument
  in 0, 1, 2, 4 or 8 bytes, the highest first.\<close>

definition big_endian :: "u8 list \<Rightarrow> nat" where
  "big_endian bs = foldl (\<lambda>n b. 256 * n + unat b) 0 bs"

definition read_head :: "u8 list \<Rightarrow> (nat \<times> nat \<times> u8 list) option" where
  "read_head bs =
     (case bs of
        [] \<Rightarrow> None
      | b # rest \<Rightarrow>
          let info = unat b mod 32;
              n = (if info < 24 then 0 else if info = 24 then 1 else if info = 25 then 2
                   else if info = 26 then 4 else 8)
          in if info > 27 \<or> length rest < n then None
             else Some (unat b div 32, if info < 24 then info else big_endian (take n rest), drop n rest))"

datatype item =
    Item_Int int
  | Item_Bytes "u8 list"
  | Item_Text "u8 list"
  | Item_Array nat \<comment> \<open>the head of an array of so many elements\<close>
  | Item_Map nat

definition read_item :: "u8 list \<Rightarrow> (item \<times> u8 list) option" where
  "read_item bs = do {
     (major, arg, rest) \<leftarrow> read_head bs;
     if major = 0 then Some (Item_Int (int arg), rest)
     else if major = 1 then Some (Item_Int (- 1 - int arg), rest)
     else if major = 2 then (if length rest < arg then None else Some (Item_Bytes (take arg rest), drop arg rest))
     else if major = 3 then (if length rest < arg then None else Some (Item_Text (take arg rest), drop arg rest))
     else if major = 4 then Some (Item_Array arg, rest)
     else if major = 5 then Some (Item_Map arg, rest)
     else None
   }"

fun read_items :: "nat \<Rightarrow> u8 list \<Rightarrow> item list option" where
  "read_items 0 bs = (if bs = [] then Some [] else None)"
| "read_items (Suc n) bs = do {
     (i, bs) \<leftarrow> read_item bs;
     is \<leftarrow> read_items n bs;
     Some (i # is)
   }"

text \<open>The call that writes an item, and the sequence of calls for several, with the sizes added up.\<close>

fun write_item :: "item \<Rightarrow> cbor_out option \<Rightarrow> (u32 \<times> cbor_out option) option" where
  "write_item (Item_Int i) p = cbor_write_int (of_int i) p"
| "write_item (Item_Bytes bs) p = cbor_write_bstr bs p"
| "write_item (Item_Text bs) p = cbor_write_tstr bs p"
| "write_item (Item_Array n) p = cbor_write_array_header (of_nat n) p"
| "write_item (Item_Map n) p = cbor_write_map_header (of_nat n) p"

fun write_items :: "item list \<Rightarrow> cbor_out option \<Rightarrow> (u32 \<times> cbor_out option) option" where
  "write_items [] p = Some (0, p)"
| "write_items (i # is) p = do {
     (n, p) \<leftarrow> write_item i p;
     (m, p) \<leftarrow> write_items is p;
     Some (n + m, p)
   }"

text \<open>What the C types can hold.\<close>

fun item_ok :: "item \<Rightarrow> bool" where
  "item_ok (Item_Int i) \<longleftrightarrow> - (2 ^ 63) \<le> i \<and> i < 2 ^ 63"
| "item_ok (Item_Bytes bs) \<longleftrightarrow> length bs < 2 ^ 31"
| "item_ok (Item_Text bs) \<longleftrightarrow> length bs < 2 ^ 31"
| "item_ok (Item_Array n) \<longleftrightarrow> n < 2 ^ 32"
| "item_ok (Item_Map n) \<longleftrightarrow> n < 2 ^ 32"

section \<open>What an operation writes\<close>

definition cput :: "u8 list \<Rightarrow> cbor_out \<Rightarrow> cbor_out" where
  "cput bs p = p\<lparr>cstart := take (unat (coffset p)) (cstart p) @ bs @ drop (unat (coffset p) + length bs) (cstart p),
     coffset := coffset p + of_nat (length bs)\<rparr>"

definition room :: "nat \<Rightarrow> cbor_out \<Rightarrow> bool" where
  "room n p \<longleftrightarrow> unat (coffset p) + n \<le> length (cstart p) \<and> length (cstart p) < 2 ^ 32"

definition cwrites :: "(cbor_out option \<Rightarrow> (u32 \<times> cbor_out option) option) \<Rightarrow> u8 list \<Rightarrow> bool" where
  "cwrites f bs \<longleftrightarrow> f None = Some (of_nat (length bs), None) \<and>
     (\<forall>p. room (length bs) p \<longrightarrow> f (Some p) = Some (of_nat (length bs), Some (cput bs p)))"

lemma cput_offset: "room (length bs) p \<Longrightarrow> unat (coffset (cput bs p)) = unat (coffset p) + length bs"
  unfolding cput_def room_def by (simp add: unat_word_ariths unat_of_nat)

lemma cput_start: "room (length bs) p \<Longrightarrow> length (cstart (cput bs p)) = length (cstart p)"
  by (simp add: cput_def room_def)

lemma room_less: "room n p \<Longrightarrow> m \<le> n \<Longrightarrow> room m p"
  by (simp add: room_def)

lemma room_cput: "room (length as + n) p \<Longrightarrow> room n (cput as p)"
  using cput_offset [of as p] cput_start [of as p] by (simp add: room_def)

lemma cput_append:
  assumes "room (length as + length bs) p"
  shows "cput bs (cput as p) = cput (as @ bs) p"
proof -
  have r: "room (length as) p" using assms by (rule room_less) simp
  have "take (unat (coffset p) + length as) (cstart (cput as p)) = take (unat (coffset p)) (cstart p) @ as"
    "drop (unat (coffset p) + length as + length bs) (cstart (cput as p)) =
       drop (unat (coffset p) + length as + length bs) (cstart p)"
    using assms by (simp_all add: cput_def room_def add.assoc add.commute)
  then show ?thesis
    unfolding cput_def [of bs] cput_offset [OF r] by (simp add: cput_def add.assoc)
qed

lemma cbor_put_room: "room (length bs) p \<Longrightarrow> cbor_put bs p = Some (cput bs p)"
  by (simp add: cbor_put_def cput_def room_def)

lemma cwrites_bind:
  assumes f: "cwrites f as" and g: "cwrites g bs"
  shows "cwrites (\<lambda>p. Option.bind (f p) (\<lambda>(n, p). Option.bind (g p) (\<lambda>(m, p). Some (n + m, p)))) (as @ bs)"
  unfolding cwrites_def
proof (intro conjI allI impI)
  show "Option.bind (f None) (\<lambda>(n, p). Option.bind (g p) (\<lambda>(m, p). Some (n + m, p))) =
      Some (of_nat (length (as @ bs)), None)"
    using f g by (simp add: cwrites_def)
  fix p assume r: "room (length (as @ bs)) p"
  then have "room (length as) p" "room (length bs) (cput as p)"
    by (auto intro: room_less room_cput)
  with f g r show "Option.bind (f (Some p)) (\<lambda>(n, p). Option.bind (g p) (\<lambda>(m, p). Some (n + m, p))) =
      Some (of_nat (length (as @ bs)), Some (cput (as @ bs) p))"
    by (simp add: cwrites_def cput_append)
qed

lemma cwrites_raw: "cwrites (cbor_write_raw_bytes bs) bs"
  by (simp add: cwrites_def cbor_write_raw_bytes_def cbor_put_room)

definition arg_bytes :: "nat \<Rightarrow> u64 \<Rightarrow> u8 list" where
  "arg_bytes n arg = map (\<lambda>i. ucast (drop_bit (8 * i) arg)) (rev [0..<n])"

definition head_bytes :: "cbor_type \<Rightarrow> u64 \<Rightarrow> u8 list" where
  "head_bytes t arg = (push_bit 5 (cbor_type_value t) OR cbor_calc_additional_info arg)
     # arg_bytes (unat (cbor_calc_arg_size arg)) arg"

lemma length_arg_bytes [simp]: "length (arg_bytes n arg) = n" "arg_bytes n arg = [] \<longleftrightarrow> n = 0"
  by (simp_all add: arg_bytes_def)

lemma arg_loop: "room n p \<Longrightarrow> cbor_arg_loop n arg p = Some (cput (arg_bytes n arg) p)"
proof (induction n arbitrary: p)
  case 0
  then show ?case by (simp add: arg_bytes_def cput_def)
next
  case (Suc n)
  let ?b = "ucast (drop_bit (8 * n) arg) :: u8"
  have r: "room 1 p" "room n (cput [?b] p)" "room (length [?b] + length (arg_bytes n arg)) p"
    using Suc.prems room_cput [of "[?b]" n p] by (auto intro: room_less)
  have "arg_bytes (Suc n) arg = [?b] @ arg_bytes n arg" by (simp add: arg_bytes_def)
  with Suc.IH [OF r(2)] r cput_append [OF r(3)] cbor_put_room [of "[?b]" p] show ?case by simp
qed

lemma cwrites_type: "cwrites (cbor_write_type t arg) (head_bytes t arg)"
proof -
  let ?b = "push_bit 5 (cbor_type_value t) OR cbor_calc_additional_info arg"
  let ?n = "unat (cbor_calc_arg_size arg)"
  have "cbor_write_type t arg (Some p) = Some (1 + cbor_calc_arg_size arg, Some (cput (head_bytes t arg) p))"
    if r: "room (Suc ?n) p" for p
  proof -
    have "room 1 p" "room ?n (cput [?b] p)" "room (length [?b] + length (arg_bytes ?n arg)) p"
      using r room_cput [of "[?b]" ?n p] by (auto intro: room_less)
    then show ?thesis
      using cbor_put_room [of "[?b]" p] arg_loop [of ?n "cput [?b] p" arg] cput_append [of "[?b]" "arg_bytes ?n arg" p]
      by (simp add: cbor_write_type_def head_bytes_def Let_def)
  qed
  then show ?thesis
    by (simp add: cwrites_def head_bytes_def cbor_write_type_def Let_def)
qed

fun item_bytes :: "item \<Rightarrow> u8 list" where
  "item_bytes (Item_Int i) =
     (if i < 0 then head_bytes Cbor_Type_Sint (of_int (- 1 - i)) else head_bytes Cbor_Type_Uint (of_int i))"
| "item_bytes (Item_Bytes bs) = head_bytes Cbor_Type_Bstr (of_nat (length bs)) @ bs"
| "item_bytes (Item_Text bs) = head_bytes Cbor_Type_Tstr (of_nat (length bs)) @ bs"
| "item_bytes (Item_Array n) = head_bytes Cbor_Type_Array (of_nat n)"
| "item_bytes (Item_Map n) = head_bytes Cbor_Type_Map (of_nat n)"

lemma size_arg: "n < 2 ^ 32 \<Longrightarrow> ucast (of_nat n :: u32) = (of_nat n :: u64)"
  by (simp add: word_unat_eq_iff unsigned_ucast_eq unat_of_nat take_bit_nat_eq_self)

lemma int_arg:
  assumes "- (2 ^ 63) \<le> i" "i < 2 ^ 63"
  shows "(of_int i :: u64) <s 0 \<longleftrightarrow> i < 0" "- ((of_int i :: u64) + 1) = of_int (- 1 - i)"
proof -
  have "sint (of_int i :: u64) = i"
    using assms by (simp add: signed_of_int signed_take_bit_int_eq_self)
  then show "(of_int i :: u64) <s 0 \<longleftrightarrow> i < 0" by (simp add: word_sless_alt)
qed simp

lemma write_item_eta:
  "write_item (Item_Bytes bs) = cbor_write_bstr bs" "write_item (Item_Text bs) = cbor_write_tstr bs"
  "write_item (Item_Array n) = cbor_write_array_header (of_nat n)"
  "write_item (Item_Map n) = cbor_write_map_header (of_nat n)"
  by (simp_all add: fun_eq_iff)

lemma cwrites_item: "item_ok i \<Longrightarrow> cwrites (write_item i) (item_bytes i)"
proof (cases i)
  case (Item_Int v)
  assume "item_ok i"
  with Item_Int have v: "- (2 ^ 63) \<le> v" "v < 2 ^ 63" by simp_all
  have "cbor_write_int (of_int v) p = (if v < 0 then cbor_write_type Cbor_Type_Sint (of_int (- 1 - v)) p
      else cbor_write_type Cbor_Type_Uint (of_int v) p)" for p
    unfolding cbor_write_int_def int_arg(1) [OF v] int_arg(2) [OF v] by (rule refl)
  then have "write_item i = (if v < 0 then cbor_write_type Cbor_Type_Sint (of_int (- 1 - v))
      else cbor_write_type Cbor_Type_Uint (of_int v))"
    unfolding Item_Int fun_eq_iff write_item.simps by simp
  then show ?thesis using Item_Int cwrites_type by (simp del: of_int_diff)
next
  case (Item_Bytes bs)
  assume "item_ok i"
  with Item_Bytes show ?thesis
    using cwrites_bind [OF cwrites_type cwrites_raw, of Cbor_Type_Bstr "of_nat (length bs)" bs] size_arg [of "length bs"]
    by (simp add: write_item_eta cbor_write_bstr_def [abs_def] cbor_write_bstr_header_def)
next
  case (Item_Text bs)
  assume "item_ok i"
  with Item_Text show ?thesis
    using cwrites_bind [OF cwrites_type cwrites_raw, of Cbor_Type_Tstr "of_nat (length bs)" bs] size_arg [of "length bs"]
    by (simp add: write_item_eta cbor_write_tstr_def [abs_def] cbor_write_tstr_header_def)
next
  case (Item_Array n)
  assume "item_ok i"
  with Item_Array show ?thesis
    using cwrites_type [of Cbor_Type_Array "of_nat n"] size_arg [of n] by (simp add: write_item_eta cbor_write_array_header_def)
next
  case (Item_Map n)
  assume "item_ok i"
  with Item_Map show ?thesis
    using cwrites_type [of Cbor_Type_Map "of_nat n"] size_arg [of n] by (simp add: write_item_eta cbor_write_map_header_def)
qed

lemma cwrites_items: "list_all item_ok is \<Longrightarrow> cwrites (write_items is) (concat (map item_bytes is))"
proof (induction "is")
  case Nil
  then show ?case by (simp add: cwrites_def cput_def)
next
  case (Cons i "is")
  then have "cwrites (\<lambda>p. Option.bind (write_item i p) (\<lambda>(n, p). Option.bind (write_items is p)
      (\<lambda>(m, p). Some (n + m, p)))) (item_bytes i @ concat (map item_bytes is))"
    by (intro cwrites_bind cwrites_item) simp_all
  then show ?case by (simp add: write_items.simps(2) [abs_def])
qed

section \<open>Reading it back\<close>

lemma head_byte_table:
  "list_all (\<lambda>t. list_all (\<lambda>i. unat (push_bit 5 (of_nat t) OR of_nat i :: u8) = 32 * t + i) [0..<32]) [0..<6]"
  by code_simp

lemma head_byte:
  assumes "unat t < 6" "unat i < 32"
  shows "unat (push_bit 5 t OR i :: u8) = 32 * unat t + unat i"
proof -
  have "unat (push_bit 5 (of_nat (unat t)) OR of_nat (unat i) :: u8) = 32 * unat t + unat i"
    using head_byte_table assms unfolding list_all_iff set_upt by (meson atLeastLessThan_iff le0)
  then show ?thesis by simp
qed

lemma big_endian_arg: "big_endian (arg_bytes n v) = unat v mod 256 ^ n"
proof -
  have "foldl (\<lambda>n b. 256 * n + unat b) a (arg_bytes n v) = a * 256 ^ n + unat v mod 256 ^ n" for a
  proof (induction n arbitrary: a)
    case 0
    then show ?case by (simp add: arg_bytes_def)
  next
    case (Suc n)
    have b: "unat (ucast (drop_bit (8 * n) v) :: u8) = unat v div 256 ^ n mod 256"
      by (simp add: unsigned_ucast_eq take_bit_eq_mod unsigned_drop_bit_eq drop_bit_eq_div [where ?'a = nat] power_mult take_bit_eq_mod
          mod_less [OF unsigned_less [of v, simplified]])
    have "unat v mod 256 ^ Suc n = 256 ^ n * (unat v div 256 ^ n mod 256) + unat v mod 256 ^ n"
      unfolding power_Suc2 by (rule mod_mult2_eq)
    with Suc [of "256 * a + unat (ucast (drop_bit (8 * n) v) :: u8)"] show ?case
      by (simp add: arg_bytes_def b [unfolded mult.commute [of 8]] algebra_simps)
  qed
  from this [of 0] show ?thesis by (simp add: big_endian_def)
qed

lemma arg_info:
  obtains "v \<le> 23" "unat (cbor_calc_additional_info v) = unat v" "cbor_calc_arg_size v = 0" "unat v < 24"
  | "unat (cbor_calc_additional_info v) = 24" "cbor_calc_arg_size v = 1" "unat v < 256 ^ 1"
  | "unat (cbor_calc_additional_info v) = 25" "cbor_calc_arg_size v = 2" "unat v < 256 ^ 2"
  | "unat (cbor_calc_additional_info v) = 26" "cbor_calc_arg_size v = 4" "unat v < 256 ^ 4"
  | "unat (cbor_calc_additional_info v) = 27" "cbor_calc_arg_size v = 8" "unat v < 256 ^ 8"
proof -
  consider "v \<le> 23" | "\<not> v \<le> 23" "v \<le> 0xff" | "\<not> v \<le> 23" "\<not> v \<le> 0xff" "v \<le> 0xffff"
    | "\<not> v \<le> 23" "\<not> v \<le> 0xff" "\<not> v \<le> 0xffff" "v \<le> 0xffffffff"
    | "\<not> v \<le> 23" "\<not> v \<le> 0xff" "\<not> v \<le> 0xffff" "\<not> v \<le> 0xffffffff" by blast
  then show thesis
  proof cases
    case 1
    then have "unat v \<le> 23" by (simp add: word_le_nat_alt)
    with 1 show thesis
      by (intro that(1)) (simp_all add: cbor_calc_additional_info_def cbor_calc_arg_size_def unsigned_ucast_eq take_bit_nat_eq_self)
  next
    case 2
    then show thesis
      by (intro that(2))
        (simp_all add: cbor_calc_additional_info_def cbor_calc_arg_size_def cbor_arg_defs word_le_nat_alt)
  next
    case 3
    then show thesis
      by (intro that(3))
        (simp_all add: cbor_calc_additional_info_def cbor_calc_arg_size_def cbor_arg_defs word_le_nat_alt)
  next
    case 4
    then show thesis
      by (intro that(4))
        (simp_all add: cbor_calc_additional_info_def cbor_calc_arg_size_def cbor_arg_defs word_le_nat_alt)
  next
    case 5
    then show thesis using unsigned_less [of v]
      by (intro that(5))
        (simp_all add: cbor_calc_additional_info_def cbor_calc_arg_size_def cbor_arg_defs)
  qed
qed

lemma read_head_bytes: "read_head (head_bytes t v @ rest) = Some (unat (cbor_type_value t), unat v, rest)"
proof -
  have t: "unat (cbor_type_value t) < 6" by (cases t) simp_all
  show ?thesis
    by (rule arg_info [of v])
      (use head_byte [OF t, of "cbor_calc_additional_info v"]
        in \<open>simp_all add: head_bytes_def read_head_def Let_def big_endian_arg\<close>)
qed

lemma read_item_bytes: "item_ok i \<Longrightarrow> read_item (item_bytes i @ rest) = Some (i, rest)"
proof (cases i)
  case (Item_Int v)
  assume "item_ok i"
  with Item_Int have v: "- (2 ^ 63) \<le> v" "v < 2 ^ 63" by simp_all
  have "uint (of_int x :: u64) = x" if "0 \<le> x" "x < 2 ^ 63" for x
    using that by (simp add: unsigned_of_int take_bit_int_eq_self)
  then have "int (unat (of_int x :: u64)) = x" if "0 \<le> x" "x < 2 ^ 63" for x
    using that by simp
  from this [of v] this [of "- 1 - v"] v show ?thesis
    by (simp add: Item_Int read_item_def read_head_bytes del: of_int_diff)
qed (simp_all add: read_item_def read_head_bytes unat_of_nat)

lemma read_items_bytes:
  "list_all item_ok is \<Longrightarrow> read_items (length is) (concat (map item_bytes is)) = Some is"
  by (induction "is") (simp_all add: read_item_bytes)

section \<open>Properties\<close>

text \<open>C26: for any sequence of items the dry run with a \<open>NULL\<close> writer returns the number of bytes that the
  real run writes; the real run stays inside those bytes of a buffer that has room for them and changes
  nothing else, and reading them back gives exactly the items.\<close>

theorem cbor_roundtrip:
  assumes "list_all item_ok items" "length (concat (map item_bytes items)) \<le> length buf" "length buf < 2 ^ 32"
  shows "\<exists>n p. write_items items None = Some (n, None) \<and>
    write_items items (Some (cbor_out_init buf p0)) = Some (n, Some p) \<and>
    cbor_out_size p = n \<and> unat n \<le> length buf \<and> length (cstart p) = length buf \<and>
    drop (unat n) (cstart p) = drop (unat n) buf \<and>
    read_items (length items) (take (unat n) (cstart p)) = Some items"
proof -
  let ?bs = "concat (map item_bytes items)"
  let ?p = "cbor_out_init buf p0"
  have w: "cwrites (write_items items) ?bs" by (rule cwrites_items [OF assms(1)])
  have r: "room (length ?bs) ?p" using assms by (simp add: room_def cbor_out_init_def)
  have n: "unat (of_nat (length ?bs) :: u32) = length ?bs"
    using assms by (simp add: unat_of_nat)
  have "write_items items None = Some (of_nat (length ?bs), None)"
    "write_items items (Some ?p) = Some (of_nat (length ?bs), Some (cput ?bs ?p))"
    using w r by (simp_all add: cwrites_def)
  moreover have "cput ?bs ?p = ?p\<lparr>cstart := ?bs @ drop (length ?bs) buf, coffset := of_nat (length ?bs)\<rparr>"
    by (simp add: cput_def cbor_out_init_def)
  moreover note read_items_bytes [OF assms(1)]
  ultimately show ?thesis using assms(2) n by (simp add: cbor_out_size_def)
qed

theorem cbor_roundtrip_witness:
  "\<exists>n p. write_items [Item_Map 1, Item_Int (- 500), Item_Text (str_bytes ''ok'')]
      (Some \<lparr>cstart = replicate 8 0, coffset = 0\<rparr>) = Some (n, Some p) \<and>
    read_items 3 (take (unat n) (cstart p)) = Some [Item_Map 1, Item_Int (- 500), Item_Text (str_bytes ''ok'')]"
proof -
  let ?is = "[Item_Map 1, Item_Int (- 500), Item_Text (str_bytes ''ok'')]"
  have ok: "list_all item_ok ?is" by (simp add: str_bytes_def)
  have len: "length (concat (map item_bytes ?is)) = 7" by code_simp
  have "length (concat (map item_bytes ?is)) \<le> length (replicate 8 (0 :: u8))" unfolding len by simp
  from cbor_roundtrip [OF ok this, of "\<lparr>cstart = [], coffset = 0\<rparr>"]
  show ?thesis by (auto simp: cbor_out_init_def numeral_3_eq_3)
qed

end
