(* ===== verification/Math_Builtins.thy ===== *)
theory Math_Builtins
  imports Prelude
begin

unbundle bit_operations_syntax

text \<open>
  The 64-bit shifts of \<open>sw/device/lib/base/math_builtins.c\<close>, computed on the two 32-bit halves as the
  RV32 core does it, and their equality with the shifts of a 64-bit word. \<open>int64_t\<close> is a 64-bit word
  (its bits), \<open>int32_t shift\<close> an \<open>int\<close>; a shift by a negative amount or by more than 63 is undefined
  in C, and the theorem is for the others.
\<close>

type_synonym i64 = "64 word"

text \<open>The union of a 64-bit integer with its two halves, on a little-endian machine.\<close>

record u32x2 =
  lo :: u32
  hi :: u32

definition halves :: "i64 \<Rightarrow> u32x2" where
  "halves v = \<lparr>lo = ucast v, hi = ucast (drop_bit 32 v)\<rparr>"

definition full :: "u32x2 \<Rightarrow> i64" where
  "full w = push_bit 32 (ucast (hi w)) OR ucast (lo w)"

definition ot_builtin_lshift_i64 :: "i64 \<Rightarrow> int \<Rightarrow> i64" where
  "ot_builtin_lshift_i64 v shift =
     (if shift = 0 then v
      else
        let w = halves v
        in if shift \<ge> 32
           then full (w\<lparr>hi := push_bit (nat (shift - 32)) (lo w), lo := 0\<rparr>)
           else
             let w = w\<lparr>hi := push_bit (nat shift) (hi w)\<rparr>;
                 w = w\<lparr>hi := hi w OR drop_bit (nat (32 - shift)) (lo w)\<rparr>
             in full (w\<lparr>lo := push_bit (nat shift) (lo w)\<rparr>))"

definition ot_builtin_rshift_i64 :: "i64 \<Rightarrow> int \<Rightarrow> i64" where
  "ot_builtin_rshift_i64 v shift =
     (if shift = 0 then v
      else
        let w = halves v
        in if shift \<ge> 32
           then full (w\<lparr>lo := drop_bit (nat (shift - 32)) (hi w), hi := 0\<rparr>)
           else
             let w = w\<lparr>lo := drop_bit (nat shift) (lo w)\<rparr>;
                 w = w\<lparr>lo := lo w OR push_bit (nat (32 - shift)) (hi w)\<rparr>
             in full (w\<lparr>hi := drop_bit (nat shift) (hi w)\<rparr>))"

definition ot_builtin_ashift_i64 :: "i64 \<Rightarrow> int \<Rightarrow> i64" where
  "ot_builtin_ashift_i64 v shift =
     (if shift = 0 then v
      else
        let w = halves v
        in if shift \<ge> 32
           then
             let w = w\<lparr>lo := signed_drop_bit (nat (shift - 32)) (hi w)\<rparr>
             in full (w\<lparr>hi := signed_drop_bit 31 (hi w)\<rparr>)
           else
             let w = w\<lparr>lo := drop_bit (nat shift) (lo w)\<rparr>;
                 w = w\<lparr>lo := lo w OR push_bit (nat (32 - shift)) (hi w)\<rparr>
             in full (w\<lparr>hi := signed_drop_bit (nat shift) (hi w)\<rparr>))"

lemma bit_full: "bit (full w) n \<longleftrightarrow> (if n < 32 then bit (lo w) n else bit (hi w) (n - 32))"
  by (auto simp: full_def bit_or_iff bit_push_bit_iff bit_unsigned_iff dest: bit_imp_le_length)

lemma bit_halves:
  "bit (lo (halves v)) n \<longleftrightarrow> n < 32 \<and> bit v n" "bit (hi (halves v)) n \<longleftrightarrow> n < 32 \<and> bit v (n + 32)"
  by (auto simp: halves_def bit_unsigned_iff bit_drop_bit_eq add.commute numeral_eq_Suc)

lemma full_halves [simp]: "full (halves v) = v"
  by (rule bit_word_eqI) (auto simp: bit_full bit_halves)

lemma bit_sdrop: "bit (signed_drop_bit n (w :: 'a::len word)) k \<longleftrightarrow>
    bit w (if LENGTH('a) - n \<le> k \<and> k < LENGTH('a) then LENGTH('a) - 1 else n + k)"
  by (fact bit_signed_drop_bit_iff)

text \<open>For every shift of 0 to 63 bits the three routines are the left, logical right and
  arithmetic right shift of the 64-bit value.\<close>

lemma shift_builtins:
  assumes "n < 64"
  shows "ot_builtin_lshift_i64 v (int n) = push_bit n v \<and>
    ot_builtin_rshift_i64 v (int n) = drop_bit n v \<and>
    ot_builtin_ashift_i64 v (int n) = signed_drop_bit n v"
proof (intro conjI)
  show "ot_builtin_lshift_i64 v (int n) = push_bit n v"
    by (rule bit_word_eqI)
      (auto simp: ot_builtin_lshift_i64_def bit_full bit_halves Let_def bit_simps nat_diff_distrib)
  show "ot_builtin_rshift_i64 v (int n) = drop_bit n v"
    by (rule bit_word_eqI)
      (auto simp: ot_builtin_rshift_i64_def bit_full bit_halves Let_def bit_simps nat_diff_distrib add.commute
          dest: bit_imp_le_length)
  show "ot_builtin_ashift_i64 v (int n) = signed_drop_bit n v"
  proof (rule bit_word_eqI)
    fix k assume "k < LENGTH(64)"
    then have k: "k < 64" by simp
    consider "n = 0" | "0 < n" "n < 32" | "32 \<le> n" by linarith
    then show "bit (ot_builtin_ashift_i64 v (int n)) k \<longleftrightarrow> bit (signed_drop_bit n v) k"
    proof cases
      case 1
      then show ?thesis by (simp add: ot_builtin_ashift_i64_def bit_sdrop)
    next
      case 2
      then have "bit (ot_builtin_ashift_i64 v (int n)) k \<longleftrightarrow> bit v (if 64 - n \<le> k then 63 else n + k)"
        using k by (auto simp: ot_builtin_ashift_i64_def bit_full bit_halves Let_def bit_sdrop bit_or_iff
            bit_drop_bit_eq bit_push_bit_iff nat_diff_distrib add.commute)
      with k show ?thesis by (simp add: bit_sdrop)
    next
      case 3
      then have "bit (ot_builtin_ashift_i64 v (int n)) k \<longleftrightarrow> bit v (if 64 - n \<le> k then 63 else n + k)"
        using k assms by (cases "k = 32") (auto simp: ot_builtin_ashift_i64_def bit_full bit_halves Let_def
            bit_sdrop nat_diff_distrib add.commute)
      with k show ?thesis by (simp add: bit_sdrop)
    qed
  qed
qed

lemma shift_builtins_witness:
  "ot_builtin_lshift_i64 0x80000001 33 = 0x200000000 \<and>
   ot_builtin_rshift_i64 0x8000000000000000 31 = 0x100000000 \<and>
   ot_builtin_ashift_i64 0x8000000000000000 60 = 0xFFFFFFFFFFFFFFF8"
proof -
  have "push_bit 33 (0x80000001 :: i64) = 0x200000000" "drop_bit 31 (0x8000000000000000 :: i64) = 0x100000000"
    "signed_drop_bit 60 (0x8000000000000000 :: i64) = 0xFFFFFFFFFFFFFFF8"
    by code_simp+
  with shift_builtins [of 33 "0x80000001"] shift_builtins [of 31 "0x8000000000000000"]
    shift_builtins [of 60 "0x8000000000000000"] show ?thesis by simp
qed

end
