(* ===== verification/Hello.thy ===== *)
theory Hello
  imports Soc_Model
begin

unbundle bit_operations_syntax

text \<open>
  The two programs that only print: \<open>hello_world.c\<close> with its driver \<open>uart.h\<close> of
  \<open>Task_2/mysoc/sw\<close> (names \<open>hello_...\<close>), and the image \<open>Task_3/sw/image/uart.c\<close> that the boot loader starts
  (names \<open>image_...\<close>). Each \<open>main\<close> ends in an empty endless loop; its model is the device in which
  it spins. Both are run on the SoC of \<open>Soc_Model\<close>.
\<close>

section \<open>Task\_2/mysoc/sw\<close>

definition hello_UART0_BASE_ADDR :: u32 where "hello_UART0_BASE_ADDR = 0x80000000"
definition hello_UART_CTRL_OFFSET :: u32 where "hello_UART_CTRL_OFFSET = 0x10"
definition hello_UART_STATUS_OFFSET :: u32 where "hello_UART_STATUS_OFFSET = 0x14"
definition hello_UART_WDATA_OFFSET :: u32 where "hello_UART_WDATA_OFFSET = 0x1C"
definition hello_UART_FIFO_CTRL_OFFSET :: u32 where "hello_UART_FIFO_CTRL_OFFSET = 0x20"
definition hello_UART_STATUS_TXFULL :: u32 where "hello_UART_STATUS_TXFULL = push_bit 0 1"
definition hello_UART_CTRL_TX_EN :: u32 where "hello_UART_CTRL_TX_EN = push_bit 0 1"
definition hello_UART_CTRL_RX_EN :: u32 where "hello_UART_CTRL_RX_EN = push_bit 1 1"
definition hello_UART_CTRL_NCO_SHIFT :: nat where "hello_UART_CTRL_NCO_SHIFT = 16"
definition hello_UART_FIFO_CTRL_RXRST :: u32 where "hello_UART_FIFO_CTRL_RXRST = push_bit 0 1"
definition hello_UART_FIFO_CTRL_TXRST :: u32 where "hello_UART_FIFO_CTRL_TXRST = push_bit 1 1"

definition hello_UART_REG :: "u32 \<Rightarrow> u32" where
  "hello_UART_REG offset = hello_UART0_BASE_ADDR + offset"

definition hello_uart_init :: "'d bus \<Rightarrow> 'd \<Rightarrow> 'd" where
  "hello_uart_init B s =
     (let nco = 0x4B7F :: u32;
          s = bus_write B (hello_UART_REG hello_UART_FIFO_CTRL_OFFSET)
                (hello_UART_FIFO_CTRL_RXRST OR hello_UART_FIFO_CTRL_TXRST) s
      in bus_write B (hello_UART_REG hello_UART_CTRL_OFFSET)
           (hello_UART_CTRL_TX_EN OR hello_UART_CTRL_RX_EN OR push_bit hello_UART_CTRL_NCO_SHIFT nco) s)"

definition hello_uart_send_byte :: "'d bus \<Rightarrow> u8 \<Rightarrow> 'd \<Rightarrow> 'd option" where
  "hello_uart_send_byte B c s = do {
     (_, s) \<leftarrow> poll B (hello_UART_REG hello_UART_STATUS_OFFSET)
                 (\<lambda>v. v AND hello_UART_STATUS_TXFULL \<noteq> 0) s;
     Some (bus_write B (hello_UART_REG hello_UART_WDATA_OFFSET) (ucast c) s)
   }"

text \<open>\<open>str\<close> is what lies at the pointer; the loop stops at the terminating zero.\<close>

fun hello_uart_send_string :: "'d bus \<Rightarrow> u8 list \<Rightarrow> 'd \<Rightarrow> 'd option" where
  "hello_uart_send_string B [] s = Some s"
| "hello_uart_send_string B (c # cs) s =
     (if c \<noteq> 0 then do {
        s \<leftarrow> (if c = 0x0A then hello_uart_send_byte B 0x0D s else Some s);
        s \<leftarrow> hello_uart_send_byte B c s;
        hello_uart_send_string B cs s
      } else Some s)"

definition hello_main :: "'d bus \<Rightarrow> 'd \<Rightarrow> 'd option" where
  "hello_main B s =
     (let s = hello_uart_init B s
      in hello_uart_send_string B (str_bytes ''Hello World from UART!'' @ [0x0A, 0]) s)"

section \<open>Task\_3/sw/image\<close>

definition image_UART_BASE :: u32 where "image_UART_BASE = 0x80000000"
definition image_UART_CTRL_REG :: u32 where "image_UART_CTRL_REG = 0x10"
definition image_UART_STATUS_REG :: u32 where "image_UART_STATUS_REG = 0x14"
definition image_UART_TX_REG :: u32 where "image_UART_TX_REG = 0x1C"
definition image_UART_TX_FULL :: u32 where "image_UART_TX_FULL = push_bit 0 1"
definition image_BAUD_RATE :: u64 where "image_BAUD_RATE = 921600"
definition image_SYSCLK_FREQ :: u64 where "image_SYSCLK_FREQ = 50000000"

definition image_UART_WRITE :: "'d bus \<Rightarrow> u32 \<Rightarrow> u32 \<Rightarrow> 'd \<Rightarrow> 'd" where
  "image_UART_WRITE B off = bus_write B (image_UART_BASE + off)"

definition image_uart_init :: "'d bus \<Rightarrow> 'd \<Rightarrow> 'd" where
  "image_uart_init B s =
     (let nco = ucast (push_bit 20 image_BAUD_RATE div image_SYSCLK_FREQ) :: u32
      in image_UART_WRITE B image_UART_CTRL_REG (push_bit 16 nco OR 0x3) s)"

definition image_uart_putc :: "'d bus \<Rightarrow> u8 \<Rightarrow> 'd \<Rightarrow> 'd option" where
  "image_uart_putc B c s = do {
     (_, s) \<leftarrow> poll B (image_UART_BASE + image_UART_STATUS_REG) (\<lambda>v. v AND image_UART_TX_FULL \<noteq> 0) s;
     Some (image_UART_WRITE B image_UART_TX_REG (ucast c) s)
   }"

fun image_uart_print :: "'d bus \<Rightarrow> u8 list \<Rightarrow> 'd \<Rightarrow> 'd option" where
  "image_uart_print B [] s = Some s"
| "image_uart_print B (c # cs) s =
     (if c \<noteq> 0 then do { s \<leftarrow> image_uart_putc B c s; image_uart_print B cs s } else Some s)"

definition image_main :: "'d bus \<Rightarrow> 'd \<Rightarrow> 'd option" where
  "image_main B s = image_uart_print B (str_bytes ''This is a valid image'' @ [0x0A, 0]) (image_uart_init B s)"

section \<open>The drivers are the boot loader's\<close>

lemma hello_send_byte: "hello_uart_send_byte = uart_send_byte"
  unfolding fun_eq_iff hello_uart_send_byte_def uart_send_byte_def hello_UART_REG_def
    hello_UART0_BASE_ADDR_def hello_UART_STATUS_OFFSET_def hello_UART_WDATA_OFFSET_def uart_reg_defs
    uart_tx_busy_def [abs_def] hello_UART_STATUS_TXFULL_def UART_TX_FULL_def
  by simp

lemma hello_send_string: "hello_uart_send_string B cs s = uart_send_string B cs s"
  by (induction cs arbitrary: s) (simp_all add: hello_send_byte split: bind_splits)

lemma image_putc: "image_uart_putc = uart_send_byte"
  unfolding fun_eq_iff image_uart_putc_def uart_send_byte_def image_UART_WRITE_def
    image_UART_BASE_def image_UART_STATUS_REG_def image_UART_TX_REG_def uart_reg_defs
    uart_tx_busy_def [abs_def] image_UART_TX_FULL_def UART_TX_FULL_def
  by simp

lemma image_print_soc:
  assumes "bit (uart_ctrl s) 0" "0 \<notin> set cs"
  shows "\<exists>s'. image_uart_print soc_bus (cs @ [0]) s = Some s' \<and> uart_out s' = uart_out s @ cs \<and>
    uart_ctrl s' = uart_ctrl s"
  using assms
proof (induction cs arbitrary: s)
  case (Cons c cs)
  let ?s = "s\<lparr>uart_out := uart_out s @ [c], uart_wait := next_delay (delays s), delays := tl (delays s)\<rparr>"
  from Cons.IH [of ?s] Cons.prems show ?case by (auto simp: image_putc uart_send_byte_soc)
qed simp

lemma hello_string_soc:
  assumes "bit (uart_ctrl s) 0" "0 \<notin> set cs"
  shows "\<exists>s'. uart_send_string soc_bus (cs @ [0]) s = Some s' \<and> uart_out s' = uart_out s @ crlf cs \<and>
    uart_ctrl s' = uart_ctrl s"
  using assms
proof (induction cs arbitrary: s)
  case (Cons c cs)
  let ?sent = "\<lambda>b s. s\<lparr>uart_out := uart_out s @ [b], uart_wait := next_delay (delays s), delays := tl (delays s)\<rparr>"
  from Cons.IH [of "?sent c s"] Cons.IH [of "?sent c (?sent 0x0D s)"] Cons.prems show ?case
    by (cases "c = 0x0A") (auto simp: uart_send_byte_soc crlf_def)
qed (simp add: crlf_def)

text \<open>From any state of the SoC, whatever its delays, both programs program the same divisor and
  print their message once and then spin: \<open>hello_world.c\<close> with a carriage return before the line feed,
  the image with the line feed alone.\<close>

lemma programs_print:
  "\<exists>s1 s2. hello_main soc_bus s = Some s1 \<and> image_main soc_bus s = Some s2 \<and>
     uart_ctrl s1 = 0x4B7F0003 \<and> uart_ctrl s2 = 0x4B7F0003 \<and>
     uart_out s1 = uart_out s @ str_bytes ''Hello World from UART!'' @ [0x0D, 0x0A] \<and>
     uart_out s2 = uart_out s @ str_bytes ''This is a valid image'' @ [0x0A]"
proof -
  let ?hello = "str_bytes ''Hello World from UART!'' @ [0x0A]"
  let ?image = "str_bytes ''This is a valid image'' @ [0x0A]"
  have init: "hello_uart_init soc_bus s = s\<lparr>uart_ctrl := 0x4B7F0003\<rparr>"
    "image_uart_init soc_bus s = s\<lparr>uart_ctrl := 0x4B7F0003\<rparr>"
    by (simp_all add: hello_uart_init_def image_uart_init_def image_UART_WRITE_def soc_write_def uart_reg_defs
        spi_reg_defs hello_UART_REG_def hello_UART0_BASE_ADDR_def hello_UART_CTRL_OFFSET_def
        hello_UART_FIFO_CTRL_OFFSET_def hello_UART_CTRL_TX_EN_def hello_UART_CTRL_RX_EN_def
        hello_UART_CTRL_NCO_SHIFT_def image_UART_BASE_def image_UART_CTRL_REG_def image_BAUD_RATE_def
        image_SYSCLK_FREQ_def)
  have msg: "0 \<notin> set ?hello" "0 \<notin> set ?image" "crlf ?hello = str_bytes ''Hello World from UART!'' @ [0x0D, 0x0A]"
    by code_simp+
  have ctrl: "bit (uart_ctrl (s\<lparr>uart_ctrl := 0x4B7F0003\<rparr>)) 0" by simp
  from hello_string_soc [OF ctrl msg(1)] image_print_soc [OF ctrl msg(2)] show ?thesis
    unfolding hello_main_def image_main_def init Let_def hello_send_string by (auto simp: msg(3))
qed

end
