(* ===== verification/Mod_Exp.thy ===== *)
theory Mod_Exp
  imports Rom_Error
begin

unbundle bit_operations_syntax

text \<open>
  The RSA-3072 modular exponentiation of \<open>sw/device/silicon_creator/lib/sigverify/mod_exp_ibex.c\<close>: numbers are
  arrays of 96 words, the lowest first (the value of the array is \<open>digits\<close>), and products are
  Montgomery products. Each function of the file is one definition; a loop over the words is a
  recursion over the two arrays or a \<open>fold\<close> over the indices in the order of the code. The loop that
  reduces below the modulus never ends for a modulus of zero: it returns an \<open>option\<close>.
  The theorem is for a valid key: the highest bit of the modulus is set, and \<open>n0_inv\<close> is
  the negated inverse of its lowest word.
\<close>

section \<open>The code\<close>

definition kSigVerifyRsaNumWords :: nat where "kSigVerifyRsaNumWords = 96"

type_synonym sigverify_rsa_buffer = "u32 list"

record sigverify_rsa_key =
  key_n :: sigverify_rsa_buffer
  n0_inv :: "u32 list"

text \<open>The loop of \<open>subtract_modulus\<close> from the lowest word on; its result is the last borrow.\<close>

fun sub_loop :: "u32 \<Rightarrow> u32 list \<Rightarrow> u32 list \<Rightarrow> u32 \<times> u32 list" where
  "sub_loop borrow (a # as) (n # ns) =
     (let temp = a - borrow;
          borrow = (if a < borrow then 1 else 0) + (if temp < n then 1 else 0)
      in case sub_loop borrow as ns of (borrow, as) \<Rightarrow> (borrow, (temp - n) # as))"
| "sub_loop borrow as _ = (borrow, as)"

definition subtract_modulus :: "sigverify_rsa_key \<Rightarrow> sigverify_rsa_buffer \<Rightarrow> u32 \<times> sigverify_rsa_buffer" where
  "subtract_modulus key a = sub_loop 0 a (key_n key)"

text \<open>The loop of \<open>greater_equal_modulus\<close>: both arrays from the highest word down.\<close>

fun ge_loop :: "u32 list \<Rightarrow> u32 list \<Rightarrow> bool" where
  "ge_loop (a # as) (n # ns) = (if a \<noteq> n then a > n else ge_loop as ns)"
| "ge_loop _ _ = True"

definition greater_equal_modulus :: "sigverify_rsa_key \<Rightarrow> sigverify_rsa_buffer \<Rightarrow> bool" where
  "greater_equal_modulus key a = ge_loop (rev a) (rev (key_n key))"

definition shift_left :: "sigverify_rsa_buffer \<Rightarrow> u32 \<times> sigverify_rsa_buffer" where
  "shift_left a =
     (let msb = drop_bit 31 (a ! (length a - 1));
          a = fold (\<lambda>i a. a[i := push_bit 1 (a ! i) OR drop_bit 31 (a ! (i - 1))]) (rev [1..<length a]) a
      in (msb, a[0 := push_bit 1 (a ! 0)]))"

text \<open>The two accumulators and the result in the inner loop of \<open>mont_mul\<close>.\<close>

type_synonym mont_state = "u64 \<times> u64 \<times> u32 list"

definition mont_inner ::
  "sigverify_rsa_key \<Rightarrow> u32 \<Rightarrow> u32 \<Rightarrow> sigverify_rsa_buffer \<Rightarrow> nat \<Rightarrow> mont_state \<Rightarrow> mont_state" where
  "mont_inner key x_i u_i y j = (\<lambda>(acc0, acc1, result).
     let acc0 = ucast x_i * ucast (y ! j) + ucast (result ! j) + drop_bit 32 acc0;
         acc1 = ucast u_i * ucast (key_n key ! j) + ucast (ucast acc0 :: u32) + drop_bit 32 acc1
     in (acc0, acc1, result[j - 1 := ucast acc1]))"

definition mont_outer ::
  "sigverify_rsa_key \<Rightarrow> sigverify_rsa_buffer \<Rightarrow> sigverify_rsa_buffer \<Rightarrow> nat \<Rightarrow> u32 list \<Rightarrow> u32 list" where
  "mont_outer key x y i result =
     (let acc0 = ucast (x ! i) * ucast (y ! 0) + ucast (result ! 0) :: u64;
          u_i = ucast acc0 * n0_inv key ! 0 :: u32;
          acc1 = ucast u_i * ucast (key_n key ! 0) + ucast (ucast acc0 :: u32);
          (acc0, acc1, result) =
            fold (mont_inner key (x ! i) u_i y) [1..<length result] (acc0, acc1, result);
          acc0 = drop_bit 32 acc0 + drop_bit 32 acc1;
          result = result[length result - 1 := ucast acc0]
      in if drop_bit 32 acc0 \<noteq> 0 then snd (subtract_modulus key result) else result)"

definition mont_mul ::
  "sigverify_rsa_key \<Rightarrow> sigverify_rsa_buffer \<Rightarrow> sigverify_rsa_buffer \<Rightarrow> sigverify_rsa_buffer \<Rightarrow> sigverify_rsa_buffer" where
  "mont_mul key x y result = fold (mont_outer key x y) [0..<length x] (replicate (length result) 0)"

partial_function (option) reduce_loop ::
  "sigverify_rsa_key \<Rightarrow> u32 \<Rightarrow> sigverify_rsa_buffer \<Rightarrow> sigverify_rsa_buffer option" where
  "reduce_loop key msb buf =
     (if msb > 0 \<or> greater_equal_modulus key buf
      then case subtract_modulus key buf of (borrow, buf) \<Rightarrow> reduce_loop key (msb - borrow) buf
      else Some buf)"

fun double_loop :: "nat \<Rightarrow> sigverify_rsa_key \<Rightarrow> sigverify_rsa_buffer \<Rightarrow> sigverify_rsa_buffer option" where
  "double_loop 0 key buf = Some buf"
| "double_loop (Suc i) key buf = do {
     let (msb, buf) = shift_left buf;
     buf \<leftarrow> reduce_loop key msb buf;
     double_loop i key buf
   }"

fun square_loop ::
  "nat \<Rightarrow> sigverify_rsa_key \<Rightarrow> sigverify_rsa_buffer \<Rightarrow> sigverify_rsa_buffer \<Rightarrow> sigverify_rsa_buffer" where
  "square_loop 0 key buf result = result"
| "square_loop (Suc i) key buf result =
     (let buf = mont_mul key result result buf; result = mont_mul key buf buf result
      in square_loop i key buf result)"

definition calc_r_square :: "sigverify_rsa_key \<Rightarrow> sigverify_rsa_buffer \<Rightarrow> sigverify_rsa_buffer option" where
  "calc_r_square key result = do {
     let (_, buf) = subtract_modulus key (replicate kSigVerifyRsaNumWords 0);
     buf \<leftarrow> double_loop 96 key buf;
     Some (square_loop 2 key buf (mont_mul key buf buf result))
   }"

text \<open>The loop of the exponentiation: two squares in each round.\<close>

fun power_loop ::
  "nat \<Rightarrow> sigverify_rsa_key \<Rightarrow> sigverify_rsa_buffer \<Rightarrow> sigverify_rsa_buffer \<Rightarrow> sigverify_rsa_buffer \<times> sigverify_rsa_buffer" where
  "power_loop 0 key buf result = (buf, result)"
| "power_loop (Suc i) key buf result =
     (let result = mont_mul key buf buf result; buf = mont_mul key result result buf
      in power_loop i key buf result)"

text \<open>\<open>stack\<close> is what the uninitialised local buffer holds.\<close>

definition sigverify_mod_exp_ibex ::
  "sigverify_rsa_buffer \<Rightarrow> sigverify_rsa_key \<Rightarrow> sigverify_rsa_buffer \<Rightarrow> sigverify_rsa_buffer \<Rightarrow>
    (rom_error \<times> sigverify_rsa_buffer) option" where
  "sigverify_mod_exp_ibex stack key sig result =
     (if greater_equal_modulus key sig then Some (kErrorSigverifyLargeRsaSignature, result)
      else do {
        result \<leftarrow> calc_r_square key result;
        let buf = mont_mul key sig result stack;
        let (buf, result) = power_loop 8 key buf result;
        let result = mont_mul key buf sig result;
        let result = (if greater_equal_modulus key result then snd (subtract_modulus key result) else result);
        Some (kErrorOk, result)
      })"

section \<open>Values\<close>

fun digits :: "u32 list \<Rightarrow> int" where
  "digits [] = 0"
| "digits (w # ws) = uint w + 2 ^ 32 * digits ws"

abbreviation base :: int where "base \<equiv> 4294967296"

lemma uint_bound: "0 \<le> uint (w :: u32)" "uint (w :: u32) < base"
  using uint_lt2p [of w] by simp_all

lemma digits_bounds: "0 \<le> digits ws \<and> digits ws < base ^ length ws"
proof (induction ws)
  case (Cons w ws)
  then have "digits ws \<le> base ^ length ws - 1" by simp
  with uint_bound [of w] Cons show ?case by simp
qed simp

lemma digits_append: "digits (xs @ ys) = digits xs + base ^ length xs * digits ys"
  by (induction xs) (simp_all add: algebra_simps)

lemma digits_replicate_0 [simp]: "digits (replicate n 0) = 0"
  by (induction n) simp_all

lemma digits_take_Suc: "j < length ws \<Longrightarrow> digits (take (Suc j) ws) = digits (take j ws) + base ^ j * uint (ws ! j)"
  by (simp add: take_Suc_conv_app_nth digits_append)

section \<open>Subtracting and comparing\<close>

lemma uint_minus: "uint (a - b) = uint a - uint b + (if a < b then base else 0)" for a b :: u32
  by (simp add: uint_sub_if' word_less_def not_le)

lemma sub_step:
  fixes a n borrow :: u32
  assumes "borrow \<le> 1"
  defines "b \<equiv> (if a < borrow then 1 else 0) + (if a - borrow < n then 1 else 0)"
  shows "b \<le> 1" "uint (a - borrow - n) = uint a - uint borrow - uint n + base * uint b"
proof -
  have "uint (a - borrow) = base - 1" if "a < borrow"
  proof -
    have "uint borrow \<le> 1" "uint a < uint borrow" using assms(1) that by (simp_all add: word_le_def word_less_def)
    with uint_bound(1) [of a] have "uint borrow = 1" "uint a = 0" by linarith+
    with that show ?thesis by (simp add: uint_minus)
  qed
  then have "\<not> (a < borrow \<and> a - borrow < n)"
    using uint_bound(2) [of n] by (auto simp: word_less_def)
  then show "b \<le> 1" "uint (a - borrow - n) = uint a - uint borrow - uint n + base * uint b"
    unfolding b_def uint_minus [of "a - borrow"] uint_minus [of a] by auto
qed

lemma sub_loop_digits:
  assumes "length as = length ns" "borrow \<le> 1" "sub_loop borrow as ns = (b, ds)"
  shows "length ds = length ns \<and> b \<le> 1 \<and>
    digits ds = digits as - digits ns - uint borrow + uint b * base ^ length ns"
  using assms
proof (induction borrow as ns arbitrary: b ds rule: sub_loop.induct)
  case (1 borrow a as n ns)
  define c :: u32 where "c = (if a < borrow then 1 else 0) + (if a - borrow < n then 1 else 0)"
  obtain b' ds' where r: "sub_loop c as ns = (b', ds')" by fastforce
  have step: "c \<le> 1" "uint (a - borrow - n) = uint a - uint borrow - uint n + base * uint c"
    unfolding c_def using sub_step [OF "1.prems"(2), of a n] by blast+
  have d: "length ds' = length ns" "b' \<le> 1"
    "digits ds' = digits as - digits ns - uint c + uint b' * base ^ length ns"
    using "1.IH" [OF refl c_def _ step(1) r] "1.prems"(1) by auto
  have eq: "b = b'" "ds = (a - borrow - n) # ds'" using "1.prems"(3) r by (simp_all add: Let_def c_def [symmetric])
  have "digits ds = digits (a # as) - digits (n # ns) - uint borrow + uint b * base ^ length (n # ns)"
    unfolding eq digits.simps d(3) step(2) by (simp add: right_diff_distrib distrib_left)
  with d(1,2) eq show ?case by simp
qed simp_all

lemma subtract_modulus_digits:
  assumes "length a = length (key_n key)" "subtract_modulus key a = (b, a')"
  shows "length a' = length (key_n key)" "b \<le> 1"
    "digits a' = digits a - digits (key_n key) + uint b * base ^ length (key_n key)"
  using sub_loop_digits [of a "key_n key" 0 b a'] assms by (simp_all add: subtract_modulus_def)

lemma ge_loop_digits:
  "length as = length ns \<Longrightarrow> ge_loop as ns \<longleftrightarrow> digits (rev ns) \<le> digits (rev as)"
proof (induction as ns rule: ge_loop.induct)
  case (1 a as n ns)
  let ?R = "base ^ length ns"
  have eq: "digits (rev (a # as)) = digits (rev as) + ?R * uint a" "digits (rev (n # ns)) = digits (rev ns) + ?R * uint n"
    using "1.prems" by (simp_all add: digits_append)
  have b: "0 \<le> digits (rev as)" "digits (rev as) < ?R" "0 \<le> digits (rev ns)" "digits (rev ns) < ?R"
    using digits_bounds [of "rev as"] digits_bounds [of "rev ns"] "1.prems" by simp_all
  show ?case
  proof (cases "a = n")
    case True
    with 1 show ?thesis by (simp add: digits_append)
  next
    case False
    then consider "uint a < uint n" | "uint n < uint a" by (metis linorder_neqE word_uint_eq_iff)
    then show ?thesis
    proof cases
      case 1
      then have "?R * (uint a + 1) \<le> ?R * uint n" by (intro mult_left_mono) simp_all
      with 1 b show ?thesis unfolding eq using False by (simp add: word_less_def algebra_simps)
    next
      case 2
      then have "?R * (uint n + 1) \<le> ?R * uint a" by (intro mult_left_mono) simp_all
      with 2 b show ?thesis unfolding eq using False by (simp add: word_less_def algebra_simps)
    qed
  qed
qed simp_all

lemma greater_equal_digits:
  "length a = length (key_n key) \<Longrightarrow> greater_equal_modulus key a \<longleftrightarrow> digits (key_n key) \<le> digits a"
  using ge_loop_digits [of "rev a" "rev (key_n key)"] by (simp add: greater_equal_modulus_def)

section \<open>Doubling\<close>

text \<open>The shift as one pass from the lowest word on.\<close>

fun shift_words :: "u32 \<Rightarrow> u32 list \<Rightarrow> u32 list" where
  "shift_words c [] = []"
| "shift_words c (a # as) = (push_bit 1 a OR c) # shift_words (drop_bit 31 a) as"

lemma shift_words_length [simp]: "length (shift_words c as) = length as"
  by (induction as arbitrary: c) simp_all

lemma shift_words_nth:
  "k < length as \<Longrightarrow> shift_words c as ! k = push_bit 1 (as ! k) OR (if k = 0 then c else drop_bit 31 (as ! (k - 1)))"
proof (induction as arbitrary: c k)
  case (Cons a as)
  then show ?case by (cases k) (auto simp: nth_Cons')
qed simp

lemma shift_fold:
  "length as = Suc n \<Longrightarrow> m \<le> n \<Longrightarrow>
    fold (\<lambda>i a. a[i := push_bit 1 (a ! i) OR drop_bit 31 (a ! (i - 1))]) (rev [Suc (n - m)..<Suc n]) as =
    map (\<lambda>k. if n - m < k then push_bit 1 (as ! k) OR drop_bit 31 (as ! (k - 1)) else as ! k) [0..<Suc n]"
proof (induction m)
  case 0
  have "map (\<lambda>k. if n < k then push_bit 1 (as ! k) OR drop_bit 31 (as ! (k - 1)) else as ! k) [0..<Suc n] = as"
    using 0 by (intro nth_equalityI) (auto simp del: upt_Suc)
  then show ?case by simp
next
  case (Suc m)
  have "[Suc (n - Suc m)..<Suc n] = (n - m) # [Suc (n - m)..<Suc n]"
    using Suc.prems by (simp add: upt_conv_Cons Suc_diff_Suc del: upt_Suc)
  with Suc show ?case
    by (auto intro!: nth_equalityI simp: nth_list_update simp del: upt_Suc)
qed

lemma shift_left_words:
  "a \<noteq> [] \<Longrightarrow> shift_left a = (drop_bit 31 (last a), shift_words 0 a)"
proof -
  assume "a \<noteq> []"
  then obtain n where n: "length a = Suc n" by (cases a) auto
  have "(fold (\<lambda>i a. a[i := push_bit 1 (a ! i) OR drop_bit 31 (a ! (i - 1))]) (rev [1..<length a]) a)
      [0 := push_bit 1 (a ! 0)] = shift_words 0 a"
    using shift_fold [OF n, of n] n
    by (intro nth_equalityI) (auto simp: nth_list_update shift_words_nth simp del: upt_Suc)
  moreover have "fold (\<lambda>i a. a[i := push_bit 1 (a ! i) OR drop_bit 31 (a ! (i - 1))]) (rev [1..<length a]) a ! 0 = a ! 0"
    using shift_fold [OF n, of n] n by (simp del: upt_Suc)
  ultimately show ?thesis
    using \<open>a \<noteq> []\<close> by (simp add: shift_left_def Let_def last_conv_nth)
qed

lemma double_word:
  fixes a c :: u32
  assumes "c \<le> 1"
  shows "uint (push_bit 1 a OR c) + base * uint (drop_bit 31 a) = 2 * uint a + uint c"
proof -
  have "uint c \<le> 1" using assms by (simp add: word_le_def)
  then have "uint c = 0 \<or> uint c = 1" using uint_bound(1) [of c] by linarith
  then have c: "c = 0 \<or> c = 1" by (auto simp: word_uint_eq_iff)
  have "push_bit 1 a OR c = push_bit 1 a + c"
    using c by (auto simp: or_one_eq)
  moreover have "uint (push_bit 1 a + c) = uint (push_bit 1 a) + uint c"
  proof -
    have "even (2 * uint a mod base)" by (rule dvd_mod) simp_all
    then have "even (uint (push_bit 1 a))" by (simp add: uint_word_ariths push_bit_eq_mult mult.commute)
    then have "uint (push_bit 1 a) \<noteq> base - 1" by auto
    with c uint_bound [of "push_bit 1 a"] show ?thesis by (auto simp: uint_word_ariths)
  qed
  moreover have "uint (push_bit 1 a) = (2 * uint a) mod base"
    by (simp add: push_bit_eq_mult uint_word_ariths mult.commute)
  moreover have "uint (drop_bit 31 a) = 2 * uint a div base"
    by (simp add: drop_bit_eq_div uint_div_distrib)
  ultimately show ?thesis using mult_div_mod_eq [of base "2 * uint a"] by simp
qed

lemma drop_31_le: "drop_bit 31 a \<le> 1" for a :: u32
  using uint_bound [of a] by (simp add: word_le_def drop_bit_eq_div uint_div_distrib)

lemma shift_words_digits:
  "c \<le> 1 \<Longrightarrow> as \<noteq> [] \<Longrightarrow>
    digits (shift_words c as) + base ^ length as * uint (drop_bit 31 (last as)) = 2 * digits as + uint c"
proof (induction as arbitrary: c)
  case (Cons a as)
  note w = double_word [OF Cons.prems(1), of a]
  show ?case
  proof (cases "as = []")
    case True
    with w show ?thesis by simp
  next
    case False
    from Cons.IH [OF drop_31_le this, of a] w False show ?thesis
      by (simp add: algebra_simps)
  qed
qed simp

lemma shift_left_digits:
  assumes "a \<noteq> []" "shift_left a = (msb, a')"
  shows "length a' = length a" "digits a' + base ^ length a * uint msb = 2 * digits a"
  using assms shift_words_digits [of 0 a] by (auto simp: shift_left_words)

text \<open>Subtracting the modulus until the value is below it.\<close>

lemma reduce_loop_digits:
  assumes "length buf = length (key_n key)" "0 < digits (key_n key)"
  shows "\<exists>buf'. reduce_loop key msb buf = Some buf' \<and> length buf' = length (key_n key) \<and>
    digits buf' mod digits (key_n key) =
      (uint msb * base ^ length (key_n key) + digits buf) mod digits (key_n key)"
  using assms(1)
proof (induction "nat (uint msb * base ^ length (key_n key) + digits buf)" arbitrary: msb buf rule: less_induct)
  case less
  let ?R = "base ^ length (key_n key)" and ?n = "digits (key_n key)"
  show ?case
  proof (cases "msb > 0 \<or> greater_equal_modulus key buf")
    case False
    then have "msb = 0" by (simp add: word_neq_0_conv [symmetric])
    with False less.prems show ?thesis by (simp add: reduce_loop.simps [of key 0 buf])
  next
    case True
    obtain b buf' where sub: "subtract_modulus key buf = (b, buf')" by fastforce
    note d = subtract_modulus_digits [OF less.prems sub]
    have bounds: "0 \<le> digits buf" "0 \<le> digits buf'" "digits buf' < ?R"
      using digits_bounds [of buf] digits_bounds [of buf'] d(1) by simp_all
    have "b \<le> msb"
    proof (cases "msb = 0")
      case zero: True
      then have "?n \<le> digits buf" using True greater_equal_digits [OF less.prems] by simp
      then have "uint b * ?R < 1 * ?R" using d(3) bounds by linarith
      then have "uint b < 1" by (simp only: mult_less_cancel_right) simp
      then have "uint b = 0" using uint_bound(1) [of b] by linarith
      then show ?thesis by (simp add: word_le_def)
    next
      case False
      then have "1 \<le> msb" by (simp add: word_le_nat_alt unat_gt_0 Suc_le_eq)
      with d(2) show ?thesis by simp
    qed
    then have "uint (msb - b) = uint msb - uint b" by (simp add: uint_sub_if' word_le_def)
    then have v: "uint (msb - b) * ?R + digits buf' = uint msb * ?R + digits buf - ?n"
      by (simp add: d(3) left_diff_distrib)
    have pos: "0 \<le> uint (msb - b) * ?R + digits buf'" using bounds by simp
    have "nat (uint (msb - b) * ?R + digits buf') < nat (uint msb * ?R + digits buf)"
      using pos assms(2) unfolding v by linarith
    from less.hyps [OF this d(1)] obtain r where
      "reduce_loop key (msb - b) buf' = Some r" "length r = length (key_n key)"
      "digits r mod ?n = (uint msb * ?R + digits buf - ?n) mod ?n" unfolding v by blast
    with True sub show ?thesis by (simp add: reduce_loop.simps [of key msb buf])
  qed
qed

lemma double_loop_digits:
  assumes "length buf = length (key_n key)" "0 < digits (key_n key)"
  shows "\<exists>buf'. double_loop i key buf = Some buf' \<and> length buf' = length (key_n key) \<and>
    digits buf' mod digits (key_n key) = 2 ^ i * digits buf mod digits (key_n key)"
  using assms(1)
proof (induction i arbitrary: buf)
  case (Suc i)
  let ?n = "digits (key_n key)"
  obtain msb a where s: "shift_left buf = (msb, a)" by fastforce
  have "buf \<noteq> []" using assms(2) Suc.prems by auto
  note a = shift_left_digits [OF this s]
  obtain r where r: "reduce_loop key msb a = Some r" "length r = length (key_n key)"
    "digits r mod ?n = 2 * digits buf mod ?n"
    using reduce_loop_digits [of a key msb] a Suc.prems assms(2) by (auto simp: algebra_simps)
  from Suc.IH [OF r(2)] obtain r' where r': "double_loop i key r = Some r'" "length r' = length (key_n key)"
    "digits r' mod ?n = 2 ^ i * digits r mod ?n" by blast
  have "2 ^ i * digits r mod ?n = 2 ^ i * (2 * digits buf) mod ?n"
    using r(3) by (metis mod_mult_right_eq)
  with r r' s show ?case by (simp add: mult.assoc mult.left_commute)
qed simp

section \<open>Montgomery products\<close>

text \<open>The accumulators never wrap.\<close>

lemma uint_up: "uint (ucast (a :: u32) :: u64) = uint a"
  using uint_bound [of a] by (simp add: unsigned_ucast_eq take_bit_int_eq_self)

lemma acc_value:
  fixes a b c :: u32 and d :: u64
  assumes "uint d < base"
  shows "uint (ucast a * ucast b + ucast c + d :: u64) = uint a * uint b + uint c + uint d"
proof -
  have "uint a * uint b \<le> (base - 1) * (base - 1)"
    using uint_bound [of a] uint_bound [of b] by (intro mult_mono) simp_all
  then have bound: "uint a * uint b + uint c + uint d < 18446744073709551616"
    using assms uint_bound [of c] by simp
  have pos: "0 \<le> uint a * uint b" "0 \<le> uint c" "0 \<le> uint d" by simp_all
  have "uint a * uint b mod 18446744073709551616 = uint a * uint b"
    by (rule mod_pos_pos_trivial) (use bound pos in linarith)+
  then have "uint (ucast a * ucast b :: u64) = uint a * uint b"
    by (simp add: uint_word_ariths uint_up)
  moreover have "uint a * uint b + uint c < 18446744073709551616" using bound pos by linarith
  moreover from calculation have "uint (ucast a * ucast b + ucast c :: u64) = uint a * uint b + uint c"
    by (simp add: uint_plus_if' uint_up)
  ultimately show ?thesis using bound by (simp add: uint_plus_if')
qed

lemma acc_split:
  fixes v :: u64
  shows "uint (ucast v :: u32) + base * uint (drop_bit 32 v) = uint v" "uint (drop_bit 32 v) < base"
proof -
  have "uint (ucast v :: u32) = uint v mod base" by (simp add: unsigned_ucast_eq take_bit_eq_mod)
  moreover have "uint (drop_bit 32 v) = uint v div base" by (simp add: drop_bit_eq_div uint_div_distrib)
  ultimately show "uint (ucast v :: u32) + base * uint (drop_bit 32 v) = uint v" by simp
  show "uint (drop_bit 32 v) < base"
    using uint_lt2p [of v] by (simp add: drop_bit_eq_div uint_div_distrib)
qed

text \<open>What the inner loop keeps: the words of the three products seen so far are what was
  written, one word down, and the two carries.\<close>

lemma mont_inner_loop:
  fixes x_i u_i :: u32
  assumes len: "length y = length r" "length (key_n key) = length r" and j: "1 \<le> j" "j \<le> length r"
    and first: "uint x_i * uint (y ! 0) + uint (r ! 0) + uint u_i * uint (key_n key ! 0) =
      base * (uint (drop_bit 32 acc0) + uint (drop_bit 32 acc1))"
    and fold: "fold (mont_inner key x_i u_i y) [1..<j] (acc0, acc1, r) = (acc0', acc1', r')"
  shows "length r' = length r \<and> drop j r' = drop j r \<and> r' ! (j - 1) = r ! (j - 1) \<and>
    uint x_i * digits (take j y) + digits (take j r) + uint u_i * digits (take j (key_n key)) =
      base * digits (take (j - 1) r') + base ^ j * (uint (drop_bit 32 acc0') + uint (drop_bit 32 acc1'))"
  using j fold
proof (induction j arbitrary: acc0' acc1' r' rule: dec_induct)
  case base
  have "0 < length r" using j by linarith
  moreover from this have "y \<noteq> []" "key_n key \<noteq> []" using len by auto
  ultimately show ?case using base first len by (simp add: digits_take_Suc [of 0, simplified])
next
  case (step j)
  obtain a0 a1 r1 where prev: "fold (mont_inner key x_i u_i y) [1..<j] (acc0, acc1, r) = (a0, a1, r1)"
    by (cases "fold (mont_inner key x_i u_i y) [1..<j] (acc0, acc1, r)") auto
  have jl: "j < length r" using step.prems(1) by simp
  note IH = step.IH [OF less_imp_le [OF jl] prev]
  have rj: "r1 ! j = r ! j" using IH jl by (metis hd_drop_conv_nth)
  have upt: "[1..<Suc j] = [1..<j] @ [j]" using step.hyps by simp
  have inner: "mont_inner key x_i u_i y j (a0, a1, r1) = (acc0', acc1', r')"
    using step.prems(2) unfolding upt by (simp add: prev del: One_nat_def)
  then have eq: "acc0' = ucast x_i * ucast (y ! j) + ucast (r1 ! j) + drop_bit 32 a0"
    "acc1' = ucast u_i * ucast (key_n key ! j) + ucast (ucast acc0' :: u32) + drop_bit 32 a1"
    "r' = r1[j - 1 := ucast acc1']"
    by (auto simp: mont_inner_def Let_def)
  have v0: "uint (ucast acc0' :: u32) + base * uint (drop_bit 32 acc0') = uint x_i * uint (y ! j) + uint (r ! j) + uint (drop_bit 32 a0)"
    unfolding acc_split(1) eq(1) rj by (rule acc_value [OF acc_split(2)])
  have v1: "uint (ucast acc1' :: u32) + base * uint (drop_bit 32 acc1') =
      uint u_i * uint (key_n key ! j) + uint (ucast acc0' :: u32) + uint (drop_bit 32 a1)"
    unfolding acc_split(1) by (subst eq(2)) (rule acc_value [OF acc_split(2)])
  have take: "digits (take (Suc j - 1) r') = digits (take (j - 1) r1) + base ^ (j - 1) * uint (ucast acc1' :: u32)"
  proof -
    have "take j r' = take (j - 1) r1 @ [ucast acc1']"
      using step.hyps jl IH by (simp add: eq(3) list_update_append take_update_swap [symmetric] upd_conv_take_nth_drop)
    then show ?thesis using IH jl by (simp add: digits_append)
  qed
  have pow: "base * base ^ (j - 1) = base ^ j" using step.hyps by (cases j) simp_all
  have "uint x_i * digits (take (Suc j) y) + digits (take (Suc j) r) + uint u_i * digits (take (Suc j) (key_n key)) =
      (base * digits (take (j - 1) r1) + base ^ j * (uint (drop_bit 32 a0) + uint (drop_bit 32 a1))) +
      base ^ j * (uint x_i * uint (y ! j) + uint (r ! j) + uint u_i * uint (key_n key ! j))"
    using IH len jl by (simp add: digits_take_Suc algebra_simps)
  also have "\<dots> = base * digits (take (j - 1) r1) +
      base ^ j * ((uint x_i * uint (y ! j) + uint (r ! j) + uint (drop_bit 32 a0)) +
        (uint u_i * uint (key_n key ! j) + uint (drop_bit 32 a1)))"
    by (simp add: algebra_simps)
  also have "\<dots> = base * digits (take (j - 1) r1) +
      base ^ j * (uint (ucast acc1' :: u32) + base * uint (drop_bit 32 acc1') + base * uint (drop_bit 32 acc0'))"
    unfolding v0 [symmetric] using v1 by (simp add: algebra_simps)
  also have "\<dots> = base * digits (take (Suc j - 1) r') +
      base ^ Suc j * (uint (drop_bit 32 acc0') + uint (drop_bit 32 acc1'))"
    unfolding take by (simp add: distrib_left pow [symmetric] algebra_simps)
  finally show ?case
    using IH jl step.hyps rj by (simp add: eq(3) drop_Suc drop_tl nth_tl)
qed

lemma uint_muladd: "uint (a * b + c :: u32) = (uint a * uint b + uint c) mod base"
  by (simp add: uint_word_ariths mod_simps)

lemma low_word_zero:
  fixes l n0 inv :: u32
  assumes "inv * n0 = - 1"
  shows "(ucast (ucast (l * inv) * ucast n0 + ucast l :: u64) :: u32) = 0"
proof -
  have "uint (ucast (ucast (l * inv) * ucast n0 + ucast l :: u64) :: u32) =
      (uint (l * inv) * uint n0 + uint l) mod base"
    using acc_value [of 0 "l * inv" n0 l] by (simp add: unsigned_ucast_eq take_bit_eq_mod)
  also have "\<dots> = uint ((l * inv) * n0 + l)" by (rule uint_muladd [symmetric])
  also have "(l * inv) * n0 + l = l * (inv * n0 + 1)" by (simp add: algebra_simps)
  also have "\<dots> = 0" by (simp add: assms)
  finally show ?thesis by (simp add: word_uint_eq_iff)
qed

text \<open>One digit of \<open>x\<close>: the result is the sum divided by the base, up to a multiple of the modulus.\<close>

lemma mont_outer_digits:
  assumes len: "length y = length r" "length (key_n key) = length r" "0 < length r"
    and inv: "n0_inv key ! 0 * key_n key ! 0 = - 1"
  shows "length (mont_outer key x y i r) = length r \<and>
    (\<exists>k. base * digits (mont_outer key x y i r) = uint (x ! i) * digits y + digits r + k * digits (key_n key))"
proof -
  let ?N = "length r" and ?n = "digits (key_n key)" and ?R = "base ^ length r"
  define acc0 :: u64 where "acc0 = ucast (x ! i) * ucast (y ! 0) + ucast (r ! 0)"
  define u :: u32 where "u = ucast acc0 * n0_inv key ! 0"
  define acc1 :: u64 where "acc1 = ucast u * ucast (key_n key ! 0) + ucast (ucast acc0 :: u32)"
  obtain a0 a1 r1 where loop: "fold (mont_inner key (x ! i) u y) [1..<?N] (acc0, acc1, r) = (a0, a1, r1)"
    by (cases "fold (mont_inner key (x ! i) u y) [1..<?N] (acc0, acc1, r)") auto
  define acc where "acc = drop_bit 32 a0 + drop_bit 32 a1"
  define r2 where "r2 = r1[?N - 1 := ucast acc]"
  define c where "c = uint (drop_bit 32 acc)"
  have v0: "uint acc0 = uint (x ! i) * uint (y ! 0) + uint (r ! 0)"
    using acc_value [of 0 "x ! i" "y ! 0" "r ! 0"] by (simp add: acc0_def)
  have v1: "uint acc1 = uint u * uint (key_n key ! 0) + uint (ucast acc0 :: u32)"
    using acc_value [of 0 u "key_n key ! 0" "ucast acc0"] by (simp add: acc1_def)
  have "(ucast acc1 :: u32) = 0" unfolding acc1_def u_def by (rule low_word_zero [OF inv])
  with acc_split(1) [of acc1] have hi1: "uint acc1 = base * uint (drop_bit 32 acc1)" by simp
  have first: "uint (x ! i) * uint (y ! 0) + uint (r ! 0) + uint u * uint (key_n key ! 0) =
      base * (uint (drop_bit 32 acc0) + uint (drop_bit 32 acc1))"
    using v0 v1 hi1 acc_split(1) [of acc0] by (simp add: distrib_left)
  have N: "1 \<le> ?N" "?N \<le> ?N" using len(3) by linarith+
  note inner = mont_inner_loop [OF len(1,2) N first loop]
  have acc: "uint acc = uint (drop_bit 32 a0) + uint (drop_bit 32 a1)"
    using acc_split(2) [of a0] acc_split(2) [of a1] by (simp add: acc_def uint_plus_if')
  have r1: "length r1 = ?N" using inner by simp
  have r2: "length r2 = ?N" "digits r2 = digits (take (?N - 1) r1) + base ^ (?N - 1) * uint (ucast acc :: u32)"
  proof -
    show "length r2 = ?N" by (simp add: r2_def r1)
    have "r2 = take (?N - 1) r1 @ [ucast acc]"
      using r1 len(3) unfolding r2_def by (subst upd_conv_take_nth_drop) simp_all
    then show "digits r2 = digits (take (?N - 1) r1) + base ^ (?N - 1) * uint (ucast acc :: u32)"
      using r1 len(3) by (simp add: digits_append)
  qed
  have pow: "base * base ^ (?N - 1) = ?R" using len(3) by (cases ?N) simp_all
  let ?T = "uint (x ! i) * digits y + digits r + uint u * ?n"
  have T: "?T = base * (digits r2 + ?R * c)"
  proof -
    have "?T = base * digits (take (?N - 1) r1) + ?R * uint acc" using inner len(1,2) acc by simp
    also have "\<dots> = base * digits (take (?N - 1) r1) + ?R * (uint (ucast acc :: u32) + base * c)"
      unfolding c_def acc_split(1) ..
    also have "\<dots> = base * (digits r2 + ?R * c)" unfolding r2(2) pow [symmetric] by (simp add: algebra_simps)
    finally show ?thesis .
  qed
  have outer: "mont_outer key x y i r = (if drop_bit 32 acc \<noteq> 0 then snd (subtract_modulus key r2) else r2)"
    unfolding mont_outer_def acc0_def [symmetric] Let_def u_def [symmetric] acc1_def [symmetric] loop
    by (simp add: acc_def r2_def r1)
  show ?thesis
  proof (cases "drop_bit 32 acc = 0")
    case True
    then have "c = 0" by (simp add: c_def)
    with T r2(1) outer True show ?thesis by (auto intro!: exI [of _ "uint u"])
  next
    case False
    then have "c \<noteq> 0" "0 \<le> c" by (simp_all add: c_def word_uint_eq_iff)
    then have c: "1 \<le> c" by linarith
    obtain b r3 where sub: "subtract_modulus key r2 = (b, r3)" by fastforce
    note s = subtract_modulus_digits [OF _ sub, unfolded r2(1) len(2), OF refl]
    have bounds: "0 \<le> digits r3" "digits r3 < ?R" "0 \<le> digits r2" "?n < ?R" "0 \<le> ?n" "digits y \<le> ?R - 1" "digits r \<le> ?R - 1"
      using digits_bounds [of r3] digits_bounds [of r2] digits_bounds [of "key_n key"] digits_bounds [of y]
        digits_bounds [of r] s(1) len by simp_all
    have "uint (x ! i) * digits y \<le> (base - 1) * (?R - 1)"
      by (rule mult_mono) (use bounds digits_bounds [of y] uint_bound [of "x ! i"] in linarith)+
    moreover have "uint u * ?n \<le> (base - 1) * ?n"
      by (rule mult_right_mono) (use bounds uint_bound [of u] in linarith)+
    ultimately have "?T \<le> base * (?R - 1) + (base - 1) * ?n" using bounds by (simp add: algebra_simps)
    also have "\<dots> \<le> base * (?R + ?n - 1)" using bounds by (simp add: algebra_simps)
    finally have upper: "digits r2 + ?R * c - ?n < ?R" unfolding T by simp
    have "?R \<le> ?R * c" using c bounds by simp
    then have lower: "0 \<le> digits r2 + ?R * c - ?n" using bounds by linarith
    have "digits r3 - (digits r2 + ?R * c - ?n) = ?R * (uint b - c)"
      using s(3) by (simp add: algebra_simps)
    with upper lower bounds have "?R * (uint b - c) < ?R * 1" "?R * (- 1) < ?R * (uint b - c)" by linarith+
    then have "uint b - c < 1" "- 1 < uint b - c" by (simp_all only: mult_less_cancel_left) simp_all
    then have "uint b = c" by linarith
    with s(3) have "digits r3 = digits r2 + ?R * c - ?n" by (simp add: mult.commute)
    then have "base * digits r3 = uint (x ! i) * digits y + digits r + (uint u - base) * ?n"
      using T by (simp add: algebra_simps)
    with outer False sub s(1) show ?thesis by auto
  qed
qed

text \<open>The keys the routine is meant for: a 3072-bit modulus and its Montgomery constant.\<close>

definition valid_key :: "sigverify_rsa_key \<Rightarrow> bool" where
  "valid_key key \<longleftrightarrow> length (key_n key) = kSigVerifyRsaNumWords \<and> bit (last (key_n key)) 31 \<and>
     length (n0_inv key) = 8 \<and> n0_inv key ! 0 * key_n key ! 0 = - 1"

definition modulus :: "sigverify_rsa_key \<Rightarrow> int" where
  "modulus key = digits (key_n key)"

definition radix :: int where
  "radix = base ^ 96"

lemma valid_key_facts:
  assumes "valid_key key"
  shows "length (key_n key) = 96" "n0_inv key ! 0 * key_n key ! 0 = - 1" "key_n key \<noteq> []"
    "radix \<le> 2 * modulus key" "modulus key < radix" "0 < modulus key" "odd (modulus key)"
proof -
  show len: "length (key_n key) = 96" and inv: "n0_inv key ! 0 * key_n key ! 0 = - 1"
    using assms by (simp_all add: valid_key_def kSigVerifyRsaNumWords_def)
  then show ne: "key_n key \<noteq> []" by auto
  have "modulus key = digits (butlast (key_n key)) + base ^ 95 * uint (last (key_n key))"
    using digits_append [of "butlast (key_n key)" "[last (key_n key)]"] ne len by (simp add: modulus_def)
  moreover have "2 ^ 31 \<le> uint (last (key_n key))"
  proof -
    have "bit (uint (last (key_n key))) 31" using assms by (simp add: valid_key_def bit_uint_iff)
    then show ?thesis
      using uint_bound(1) [of "last (key_n key)"] by (simp add: bit_iff_odd) (rule ccontr, simp add: not_le)
  qed
  moreover have "0 \<le> digits (butlast (key_n key))" using digits_bounds by blast
  ultimately have "base ^ 95 * 2 ^ 31 \<le> modulus key" by (smt (verit) mult_left_mono zero_le_power)
  moreover have "radix = 2 * (base ^ 95 * 2 ^ 31)" by (simp add: radix_def)
  ultimately show low: "radix \<le> 2 * modulus key" by linarith
  show "modulus key < radix" using digits_bounds [of "key_n key"] len by (simp add: modulus_def radix_def)
  show "0 < modulus key" using low by (simp add: radix_def)
  obtain w ws where n: "key_n key = w # ws" using ne by (cases "key_n key") auto
  have "odd w"
  proof
    assume "even w"
    then have "even (n0_inv key ! 0 * key_n key ! 0)" by (simp add: n)
    with inv show False by simp
  qed
  then have "odd (uint w)" using bit_uint_iff [of w 0] by (simp add: bit_0)
  then show "odd (modulus key)" by (simp add: modulus_def n)
qed

lemma mont_mul_loop:
  assumes "valid_key key" "length y = 96" "length r = 96" "m \<le> length x"
  shows "length (fold (mont_outer key x y) [0..<m] (replicate 96 0)) = 96 \<and>
    modulus key dvd base ^ m * digits (fold (mont_outer key x y) [0..<m] (replicate 96 0)) - digits (take m x) * digits y"
  using assms(4)
proof (induction m)
  case (Suc m)
  let ?r = "fold (mont_outer key x y) [0..<m] (replicate 96 0)"
  from Suc have IH: "length ?r = 96" "modulus key dvd base ^ m * digits ?r - digits (take m x) * digits y" by simp_all
  obtain k where k: "length (mont_outer key x y m ?r) = 96"
    "base * digits (mont_outer key x y m ?r) = uint (x ! m) * digits y + digits ?r + k * modulus key"
    using mont_outer_digits [of y ?r key x m] valid_key_facts(1,2) [OF assms(1)] assms(2) IH(1)
    by (auto simp: modulus_def)
  have "base ^ Suc m * digits (mont_outer key x y m ?r) - digits (take (Suc m) x) * digits y =
      base ^ m * (base * digits (mont_outer key x y m ?r)) - (digits (take m x) + base ^ m * uint (x ! m)) * digits y"
    using Suc.prems by (simp add: digits_take_Suc)
  also have "\<dots> = (base ^ m * digits ?r - digits (take m x) * digits y) + base ^ m * k * modulus key"
    unfolding k(2) by (simp add: algebra_simps)
  finally show ?case using k(1) IH(2) by simp
qed simp

lemma mont_mul_digits:
  assumes "valid_key key" "length x = 96" "length y = 96" "length r = 96"
  shows "length (mont_mul key x y r) = 96" "modulus key dvd radix * digits (mont_mul key x y r) - digits x * digits y"
  using mont_mul_loop [OF assms(1,3,4), of 96 x] assms by (simp_all add: mont_mul_def radix_def)

lemma cancel_R:
  assumes "valid_key key" "modulus key dvd radix * a"
  shows "modulus key dvd a"
proof -
  have "coprime (modulus key) 2" using valid_key_facts(7) [OF assms(1)] by simp
  then have "coprime (modulus key) (2 ^ 3072)" by (rule coprime_power_right_iff [THEN iffD2, OF disjI1])
  moreover have "radix = 2 ^ 3072" by (simp add: radix_def)
  ultimately have "coprime (modulus key) radix" by simp
  with assms(2) show ?thesis by (simp add: coprime_dvd_mult_right_iff)
qed

text \<open>\<open>montgomery key x X\<close>: the array \<open>x\<close> holds \<open>X\<close> times the radix, modulo the modulus.\<close>

definition montgomery :: "sigverify_rsa_key \<Rightarrow> sigverify_rsa_buffer \<Rightarrow> int \<Rightarrow> bool" where
  "montgomery key x X \<longleftrightarrow> length x = 96 \<and> modulus key dvd digits x - X * radix"

lemma mont_mul_right:
  assumes "valid_key key" "length x = 96" "montgomery key y Y" "length r = 96"
  shows "modulus key dvd digits (mont_mul key x y r) - digits x * Y"
proof (rule cancel_R [OF assms(1)])
  have "radix * (digits (mont_mul key x y r) - digits x * Y) =
      (radix * digits (mont_mul key x y r) - digits x * digits y) + digits x * (digits y - Y * radix)"
    by (simp add: algebra_simps)
  moreover have "modulus key dvd \<dots>"
    using mont_mul_digits(2) [OF assms(1,2) _ assms(4), of y] assms(3)
    by (intro dvd_add dvd_mult) (simp_all add: montgomery_def)
  ultimately show "modulus key dvd radix * (digits (mont_mul key x y r) - digits x * Y)" by simp
qed

lemma mont_mul_left:
  assumes "valid_key key" "montgomery key x X" "length y = 96" "length r = 96"
  shows "modulus key dvd digits (mont_mul key x y r) - X * digits y"
proof (rule cancel_R [OF assms(1)])
  have "radix * (digits (mont_mul key x y r) - X * digits y) =
      (radix * digits (mont_mul key x y r) - digits x * digits y) + digits y * (digits x - X * radix)"
    by (simp add: algebra_simps)
  moreover have "modulus key dvd \<dots>"
    using mont_mul_digits(2) [OF assms(1) _ assms(3,4), of x] assms(2)
    by (intro dvd_add dvd_mult) (simp_all add: montgomery_def)
  ultimately show "modulus key dvd radix * (digits (mont_mul key x y r) - X * digits y)" by simp
qed

lemma montgomery_mul:
  assumes "valid_key key" "montgomery key x X" "montgomery key y Y" "length r = 96"
  shows "montgomery key (mont_mul key x y r) (X * Y)"
proof -
  have len: "length x = 96" "length y = 96" using assms(2,3) by (simp_all add: montgomery_def)
  have "digits (mont_mul key x y r) - X * Y * radix =
      (digits (mont_mul key x y r) - digits x * Y) + Y * (digits x - X * radix)" by (simp add: algebra_simps)
  moreover have "modulus key dvd \<dots>"
    using mont_mul_right [OF assms(1) len(1) assms(3,4)] assms(2)
    by (intro dvd_add dvd_mult) (simp_all add: montgomery_def)
  ultimately have "modulus key dvd digits (mont_mul key x y r) - X * Y * radix" by (simp only:)
  then show ?thesis
    using mont_mul_digits(1) [OF assms(1) len assms(4)] by (simp add: montgomery_def)
qed

lemma square_loop_montgomery:
  assumes "valid_key key"
  shows "montgomery key result X \<Longrightarrow> length buf = 96 \<Longrightarrow>
    montgomery key (square_loop i key buf result) (X ^ (4 ^ i))"
proof (induction i arbitrary: buf result X)
  case (Suc i)
  let ?buf = "mont_mul key result result buf"
  have len: "length result = 96" using Suc.prems(1) by (simp add: montgomery_def)
  have b: "montgomery key ?buf (X * X)" by (rule montgomery_mul [OF assms Suc.prems(1,1,2)])
  have "montgomery key (mont_mul key ?buf ?buf result) ((X * X) * (X * X))"
    by (rule montgomery_mul [OF assms b b len])
  moreover have "length ?buf = 96" using b by (simp add: montgomery_def)
  moreover have "((X * X) * (X * X)) ^ (4 ^ i) = X ^ (4 ^ Suc i)"
    by (simp add: power_mult power4_eq_xxxx mult.assoc)
  ultimately show ?case using Suc.IH [of "mont_mul key ?buf ?buf result" "(X * X) * (X * X)" ?buf]
    by (simp add: Let_def)
qed simp

lemma power_loop_montgomery:
  assumes "valid_key key"
  shows "montgomery key buf X \<Longrightarrow> length result = 96 \<Longrightarrow>
    montgomery key (fst (power_loop i key buf result)) (X ^ (4 ^ i)) \<and>
    length (snd (power_loop i key buf result)) = 96"
proof (induction i arbitrary: buf result X)
  case (Suc i)
  let ?res = "mont_mul key buf buf result"
  have len: "length buf = 96" using Suc.prems(1) by (simp add: montgomery_def)
  have b: "montgomery key ?res (X * X)" by (rule montgomery_mul [OF assms Suc.prems(1,1,2)])
  have "montgomery key (mont_mul key ?res ?res buf) ((X * X) * (X * X))"
    by (rule montgomery_mul [OF assms b b len])
  moreover have "length ?res = 96" using b by (simp add: montgomery_def)
  moreover have "((X * X) * (X * X)) ^ (4 ^ i) = X ^ (4 ^ Suc i)"
    by (simp add: power_mult power4_eq_xxxx mult.assoc)
  ultimately show ?case using Suc.IH [of "mont_mul key ?res ?res buf" "(X * X) * (X * X)" ?res]
    by (simp add: Let_def)
qed simp

lemma calc_r_square_montgomery:
  assumes key: "valid_key key" and len: "length result = 96"
  shows "\<exists>rr. calc_r_square key result = Some rr \<and> montgomery key rr radix"
proof -
  note k = valid_key_facts [OF key]
  obtain b buf0 where sub: "subtract_modulus key (replicate kSigVerifyRsaNumWords 0) = (b, buf0)" by fastforce
  note s = subtract_modulus_digits [OF _ sub, unfolded k(1), simplified, unfolded kSigVerifyRsaNumWords_def, OF refl]
  have bounds: "0 \<le> digits buf0" "digits buf0 < radix" using digits_bounds [of buf0] s(1) by (simp_all add: radix_def)
  have buf0: "modulus key dvd digits buf0 - 1 * radix"
  proof -
    have "uint b * radix = digits buf0 + modulus key" using s(3) by (simp add: modulus_def radix_def)
    with bounds k(5,6) have "0 < uint b * radix" "uint b * radix < 2 * radix" by linarith+
    moreover have "0 < radix" by (simp add: radix_def)
    ultimately have "0 < uint b" "uint b < 2" by (simp_all add: zero_less_mult_iff)
    then have "uint b = 1" by linarith
    with s(3) have "digits buf0 - 1 * radix = - modulus key" by (simp add: modulus_def radix_def)
    then show ?thesis by simp
  qed
  obtain buf where buf: "double_loop 96 key buf0 = Some buf" "length buf = 96"
    "digits buf mod modulus key = 2 ^ 96 * digits buf0 mod modulus key"
    using double_loop_digits [of buf0 key 96] s(1) k(1,6) by (auto simp: modulus_def)
  have "montgomery key buf (2 ^ 96)"
  proof -
    have "digits buf - 2 ^ 96 * radix = (digits buf - 2 ^ 96 * digits buf0) + 2 ^ 96 * (digits buf0 - 1 * radix)"
      by (simp add: algebra_simps)
    moreover have "modulus key dvd \<dots>"
      using buf(3) buf0 by (intro dvd_add dvd_mult) (simp_all add: mod_eq_dvd_iff)
    ultimately have "modulus key dvd digits buf - 2 ^ 96 * radix" by (simp only:)
    then show ?thesis using buf(2) by (simp add: montgomery_def)
  qed
  note b = this
  have "montgomery key (mont_mul key buf buf result) (2 ^ 96 * 2 ^ 96)"
    by (rule montgomery_mul [OF key b b len])
  from square_loop_montgomery [OF key this buf(2), of 2]
  have "montgomery key (square_loop 2 key buf (mont_mul key buf buf result)) radix"
    by (simp add: radix_def)
  moreover have "calc_r_square key result = Some (square_loop 2 key buf (mont_mul key buf buf result))"
    using sub buf(1) by (simp add: calc_r_square_def)
  ultimately show ?thesis by blast
qed

lemma mod_exp_value:
  assumes "valid_key key" "length sig = 96" "length result = 96" "length stack = 96"
  shows "\<exists>r. sigverify_mod_exp_ibex stack key sig result =
      Some (if modulus key \<le> digits sig then (kErrorSigverifyLargeRsaSignature, result) else (kErrorOk, r)) \<and>
    length r = 96 \<and> digits r = digits sig ^ 65537 mod modulus key"
proof -
  note k = valid_key_facts [OF assms(1)]
  obtain rr where rr: "calc_r_square key result = Some rr" "montgomery key rr radix"
    using calc_r_square_montgomery [OF assms(1,3)] by blast
  let ?b0 = "mont_mul key sig rr stack"
  have len: "length rr = 96" using rr(2) by (simp add: montgomery_def)
  have "montgomery key ?b0 (digits sig)"
    using mont_mul_right [OF assms(1,2) rr(2) assms(4)] mont_mul_digits(1) [OF assms(1,2) len assms(4)]
    by (simp add: montgomery_def)
  note p = power_loop_montgomery [OF assms(1) this len, of 8]
  obtain b1 r1 where loop: "power_loop 8 key ?b0 rr = (b1, r1)" by fastforce
  with p have b1: "montgomery key b1 (digits sig ^ 65536)" "length r1 = 96" by simp_all
  let ?r = "mont_mul key b1 sig r1"
  have r: "modulus key dvd digits ?r - digits sig ^ 65537" "length ?r = 96"
    using mont_mul_left [OF assms(1) b1(1) assms(2) b1(2)] mont_mul_digits(1) [OF assms(1) _ assms(2) b1(2), of b1] b1(1)
    by (simp_all add: montgomery_def power_Suc2 [symmetric] del: power_Suc2)
  define r2 where "r2 = (if greater_equal_modulus key ?r then snd (subtract_modulus key ?r) else ?r)"
  have bounds: "0 \<le> digits ?r" "digits ?r < radix" using digits_bounds [of ?r] r(2) by (simp_all add: radix_def)
  have r2: "length r2 = 96 \<and> 0 \<le> digits r2 \<and> digits r2 < modulus key \<and> modulus key dvd digits r2 - digits ?r"
  proof (cases "modulus key \<le> digits ?r")
    case False
    then have "\<not> greater_equal_modulus key ?r" using greater_equal_digits [of ?r key] r(2) k(1) by (simp add: modulus_def)
    with False r(2) bounds show ?thesis by (simp add: r2_def)
  next
    case True
    then have ge: "greater_equal_modulus key ?r" using greater_equal_digits [of ?r key] r(2) k(1) by (simp add: modulus_def)
    obtain b a where sub: "subtract_modulus key ?r = (b, a)" by fastforce
    note s = subtract_modulus_digits [OF _ sub, unfolded k(1), OF r(2)]
    have a: "0 \<le> digits a" "digits a < radix" using digits_bounds [of a] s(1) by (simp_all add: radix_def)
    have "uint b * radix < 1 * radix" using s(3) a True by (simp add: modulus_def radix_def)
    moreover have "0 < radix" by (simp add: radix_def)
    ultimately have "uint b < 1" by simp
    then have "uint b = 0" using uint_bound(1) [of b] by linarith
    with s(3) have eq: "digits a = digits ?r - modulus key" by (simp add: modulus_def)
    then have "digits a < modulus key" using bounds(2) k(4) by linarith
    with ge sub s(1) a(1) eq show ?thesis by (simp add: r2_def)
  qed
  have "modulus key dvd digits r2 - digits sig ^ 65537"
    using dvd_add [OF conjunct2 [OF conjunct2 [OF conjunct2 [OF r2]]] r(1)] by simp
  then have "digits r2 = digits sig ^ 65537 mod modulus key"
    using r2 by (metis mod_eq_dvd_iff mod_pos_pos_trivial)
  moreover have "sigverify_mod_exp_ibex stack key sig result =
      Some (if modulus key \<le> digits sig then (kErrorSigverifyLargeRsaSignature, result) else (kErrorOk, r2))"
    using greater_equal_digits [of sig key] assms(2) k(1) rr(1) loop
    by (simp add: sigverify_mod_exp_ibex_def modulus_def r2_def Let_def)
  ultimately show ?thesis using r2 by blast
qed

text \<open>C18: for a valid key, whatever the buffers held, the exponentiation returns; a signature that is
  not below the modulus is refused and the result is left alone, and otherwise the result is the
  65537th power of the signature modulo the modulus.\<close>

theorem mod_exp_correct:
  assumes "valid_key key" "length sig = 96" "length result = 96" "length stack = 96"
  shows "\<exists>r. sigverify_mod_exp_ibex stack key sig result =
      Some (if modulus key \<le> digits sig then (kErrorSigverifyLargeRsaSignature, result) else (kErrorOk, r)) \<and>
    length r = 96 \<and> digits r = digits sig ^ 65537 mod modulus key"
  by (rule mod_exp_value [OF assms])

definition sample_key :: sigverify_rsa_key where
  "sample_key = \<lparr>key_n = 1 # replicate 94 0 @ [0x80000000], n0_inv = - 1 # replicate 7 0\<rparr>"

lemma sample_key_valid: "valid_key sample_key"
  by (simp add: valid_key_def sample_key_def kSigVerifyRsaNumWords_def bit_simps)

lemma sample_key_modulus: "modulus sample_key = 2 ^ 3071 + 1"
  by (simp add: modulus_def sample_key_def digits_append)

theorem mod_exp_correct_witness:
  "\<exists>r. sigverify_mod_exp_ibex (replicate 96 0) sample_key (2 # replicate 95 0) (replicate 96 7) =
      Some (kErrorOk, r) \<and> digits r = 2 ^ 65537 mod (2 ^ 3071 + 1)"
proof -
  have d: "digits (2 # replicate 95 0) = 2" by simp
  have len: "length (2 # replicate 95 0 :: u32 list) = 96" "length (replicate 96 7 :: u32 list) = 96"
    "length (replicate 96 0 :: u32 list) = 96" by simp_all
  from mod_exp_correct [OF sample_key_valid len] obtain r where
    "sigverify_mod_exp_ibex (replicate 96 0) sample_key (2 # replicate 95 0) (replicate 96 7) =
      Some (if modulus sample_key \<le> 2 then (kErrorSigverifyLargeRsaSignature, replicate 96 7) else (kErrorOk, r))"
    "digits r = 2 ^ 65537 mod modulus sample_key" unfolding d by blast
  moreover have "\<not> modulus sample_key \<le> 2" unfolding sample_key_modulus by simp
  ultimately show ?thesis unfolding sample_key_modulus by (simp only: if_False) blast
qed

end
