(* ===== verification/Rsa_Verify.thy ===== *)
theory Rsa_Verify
  imports Mod_Exp Asn1 Rom_Codes
begin

unbundle bit_operations_syntax

text \<open>
  The signature check of \<open>sw/device/silicon_creator/lib/sigverify/rsa_verify.c\<close>: the padding and digest of the
  message are checked by secret sharing, so that the value that unlocks execution only comes into
  being when every word is right. \<open>launder32\<close> is the identity, and the hardened checks, which
  repeat a condition just tested, are left out. The theorem compares with the encoding of
  PKCS #1, a big-endian string of 384 bytes.
\<close>

section \<open>The code\<close>

definition kHmacDigestNumWords :: nat where "kHmacDigestNumWords = 8"
definition kSigverifyRsaSuccess :: u32 where "kSigverifyRsaSuccess = 0x2f06b4e0"

definition kSigverifyShares :: "u32 list" where
  "kSigverifyShares =
    [0xaf28073b, 0x5eb7dcfb, 0x177240b5, 0xa8469df3, 0x2e92e9c0, 0x83ed133b,
     0x0c9e99f0, 0x25611bd9, 0x411a9d85, 0x5c52b3df, 0x4347a537, 0x1e78e574,
     0x273e33af, 0x6f363bba, 0x11e4ee52, 0xd29ad9aa, 0x4fc2ac85, 0x52490c66,
     0x59c2528c, 0xef8d3ab2, 0xe74d7eb8, 0x2822259c, 0xe58efaa3, 0xe702fa04,
     0x82c670f6, 0x42be0a77, 0x3b021ea0, 0x09bd2a22, 0x26d656a4, 0x2f8e008f,
     0xefca5842, 0xfbc3a713, 0x4ce07aa1, 0xc1826ecc, 0xc697d53f, 0xf6a69161,
     0x4a7d7628, 0x87f2e957, 0x84db848d, 0xe05e01c5, 0x6188ff27, 0xbf1a2b31,
     0xb51d4166, 0x85fd6e7c, 0x59c5d2d5, 0x13c6e4e6, 0xff83c944, 0xc78cd4bb,
     0x8710d989, 0x7608c41e, 0x1061b036, 0x9c2fb244, 0x34a26844, 0x2bdc22a2,
     0xfd1d95f3, 0x94ac4e84, 0x1a99ce21, 0xd54eb8f7, 0x54c2cd9f, 0x70a967c8,
     0xde39d471, 0x652563cd, 0x3d4adea1, 0x1cf6631c, 0xb27d16ee, 0x3a18bafa,
     0xd8a86a86, 0xd839cd7b, 0xda2ab05a, 0x37fc1d99, 0xbc702308, 0x01d57596,
     0x480d3091, 0x51420446, 0xcc56d97c, 0x7aa57434, 0x7b6097ae, 0x45bca8ae,
     0xb0b1e322, 0x5487b90f, 0x1045e6ef, 0x87ad10f0, 0x4c72b7f0, 0xc527c9a3,
     0x29ed4350, 0xe345625b, 0x57063d83, 0xbb56900a, 0xbfb1be4c, 0x1c454e8f,
     0xdb27c1b7, 0xbe02c694, 0x2604d74a, 0x4d6516dd, 0x322918ab, 0x5f320b43]"

definition kEncodedSha256 :: "u32 list" where
  "kEncodedSha256 = [0x05000420, 0x03040201, 0x86480165, 0x0d060960, 0x00303130]"

definition kPsLen :: nat where
  "kPsLen = kSigVerifyRsaNumWords - length kEncodedSha256 - kHmacDigestNumWords - 1"

definition sigverify_rsa_success_to_ok :: "u32 \<Rightarrow> u32" where
  "sigverify_rsa_success_to_ok v = drop_bit 21 (push_bit 22 v XOR push_bit 19 v XOR push_bit 3 v)"

text \<open>A loop \<open>for (j = 0; j < n; ++j, ++i)\<close> over the message: \<open>i\<close> starts at \<open>off\<close>.\<close>

definition xor_loop :: "nat \<Rightarrow> nat \<Rightarrow> (nat \<Rightarrow> u32) \<Rightarrow> u32 list \<Rightarrow> u32 list" where
  "xor_loop off n val enc =
     fold (\<lambda>j enc. enc[off + j := enc ! (off + j) XOR (val j XOR kSigverifyShares ! (off + j))]) [0..<n] enc"

definition share_message :: "u32 list \<Rightarrow> u32 list \<Rightarrow> u32 list" where
  "share_message enc_msg act_digest =
     (let enc = xor_loop 0 kHmacDigestNumWords (\<lambda>j. act_digest ! j) enc_msg;
          enc = xor_loop kHmacDigestNumWords (length kEncodedSha256) (\<lambda>j. kEncodedSha256 ! j) enc;
          i = kHmacDigestNumWords + length kEncodedSha256;
          enc = xor_loop i kPsLen (\<lambda>_. 0xffffffff) enc;
          i = i + kPsLen
      in enc[i := enc ! i XOR (0x0001ffff XOR kSigverifyShares ! i)])"

definition reduce_step :: "u32 list \<Rightarrow> nat \<Rightarrow> u32 \<times> u32 \<Rightarrow> u32 \<times> u32" where
  "reduce_step enc i = (\<lambda>(diff, flash_exec_rsa).
     let diff = diff OR (enc ! i XOR kSigverifyShares ! i);
         diff = diff OR (NOT diff + 1);
         diff = diff OR (NOT (drop_bit 31 diff) + 1);
         flash_exec_rsa = flash_exec_rsa XOR enc ! i
     in (diff, flash_exec_rsa OR diff))"

definition sigverify_encoded_message_check :: "u32 list \<Rightarrow> u32 list \<Rightarrow> u32 \<Rightarrow> rom_error \<times> u32" where
  "sigverify_encoded_message_check enc_msg act_digest flash_exec =
     (let enc = share_message enc_msg act_digest;
          (diff, flash_exec_rsa) = fold (reduce_step enc) [0..<kSigVerifyRsaNumWords] (0, 0);
          result = sigverify_rsa_success_to_ok flash_exec_rsa;
          flash_exec = flash_exec XOR flash_exec_rsa
      in (if result = kErrorOk_value then kErrorOk else kErrorSigverifyBadRsaSignature, flash_exec))"

text \<open>\<open>enc_msg\<close> and \<open>stack\<close> are what the uninitialised local buffers hold.\<close>

definition sigverify_rsa_verify ::
  "u32 list \<Rightarrow> u32 list \<Rightarrow> sigverify_rsa_buffer \<Rightarrow> sigverify_rsa_key \<Rightarrow> u32 list \<Rightarrow> u32 \<Rightarrow> (rom_error \<times> u32) option" where
  "sigverify_rsa_verify stack enc_msg signature key act_digest flash_exec = do {
     (error, enc_msg) \<leftarrow> sigverify_mod_exp_ibex stack key signature enc_msg;
     if error \<noteq> kErrorOk then Some (error, flash_exec XOR 0xffffffff)
     else Some (sigverify_encoded_message_check enc_msg act_digest flash_exec)
   }"

section \<open>Sharing\<close>

definition expected_words :: "u32 list \<Rightarrow> u32 list" where
  "expected_words digest = digest @ kEncodedSha256 @ replicate 82 0xffffffff @ [0x0001ffff]"

lemma shares_facts: "length kSigverifyShares = 96" "foldl (XOR) 0 kSigverifyShares = kSigverifyRsaSuccess"
  by code_simp+

lemma xor_loop_nth:
  "off + n \<le> length enc \<Longrightarrow> length (xor_loop off n val enc) = length enc \<and>
    (\<forall>k<length enc. xor_loop off n val enc ! k =
      (if off \<le> k \<and> k < off + n then enc ! k XOR (val (k - off) XOR kSigverifyShares ! k) else enc ! k))"
proof (induction n)
  case 0
  then show ?case by (auto simp: xor_loop_def)
next
  case (Suc n)
  then have len: "length (xor_loop off n val enc) = length enc"
    and IH: "\<And>k. k < length enc \<Longrightarrow> xor_loop off n val enc ! k =
      (if off \<le> k \<and> k < off + n then enc ! k XOR (val (k - off) XOR kSigverifyShares ! k) else enc ! k)" by simp_all
  have "xor_loop off (Suc n) val enc = (xor_loop off n val enc)
      [off + n := xor_loop off n val enc ! (off + n) XOR (val n XOR kSigverifyShares ! (off + n))]"
    by (simp add: xor_loop_def)
  with len IH Suc.prems show ?case by (auto simp: nth_list_update)
qed

lemma share_message_nth:
  assumes "length enc = 96" "length digest = 8"
  shows "length (share_message enc digest) = 96 \<and>
    (\<forall>k<96. share_message enc digest ! k = enc ! k XOR (expected_words digest ! k XOR kSigverifyShares ! k))"
proof -
  let ?a = "xor_loop 0 8 (\<lambda>j. digest ! j) enc"
  let ?b = "xor_loop 8 5 (\<lambda>j. kEncodedSha256 ! j) ?a"
  let ?c = "xor_loop 13 82 (\<lambda>_. 0xffffffff) ?b"
  have e5: "length kEncodedSha256 = 5" by (simp add: kEncodedSha256_def)
  have eq: "share_message enc digest = ?c[95 := ?c ! 95 XOR (0x0001ffff XOR kSigverifyShares ! 95)]"
    by (simp add: share_message_def kHmacDigestNumWords_def kPsLen_def kSigVerifyRsaNumWords_def e5 Let_def)
  note a = xor_loop_nth [of 0 8 enc "\<lambda>j. digest ! j"]
  note b = xor_loop_nth [of 8 5 ?a "\<lambda>j. kEncodedSha256 ! j"]
  note c = xor_loop_nth [of 13 82 ?b "\<lambda>_. 0xffffffff"]
  have la: "length ?a = 96" "length ?b = 96" "length ?c = 96" using a b c assms(1) by simp_all
  have ex: "expected_words digest ! k = (if k < 8 then digest ! k else if k < 13 then kEncodedSha256 ! (k - 8)
      else if k < 95 then 0xffffffff else 0x0001ffff)" if "k < 96" for k
    using that assms(2) e5 by (auto simp: expected_words_def nth_append)
  have "share_message enc digest ! k = enc ! k XOR (expected_words digest ! k XOR kSigverifyShares ! k)"
    if "k < 96" for k
    unfolding eq ex [OF that] using a b c la assms(1) that by (auto simp: nth_list_update)
  with la(3) show ?thesis by (simp add: eq)
qed

section \<open>The reduction\<close>

lemma reduce_step_eq:
  "reduce_step enc i (diff, fe) =
     (let d = (if diff = 0 \<and> enc ! i = kSigverifyShares ! i then 0 else 0xffffffff)
      in (d, (fe XOR enc ! i) OR d))"
  unfolding reduce_step_def Let_def prod.case spread_word by (simp add: or_eq_0_iff xor_eq_0_iff_word)

lemma reduce_fold:
  "m \<le> 96 \<Longrightarrow> fold (reduce_step enc) [0..<m] (0, 0) =
     (if \<forall>k<m. enc ! k = kSigverifyShares ! k then (0, foldl (XOR) 0 (take m kSigverifyShares))
      else (0xffffffff, 0xffffffff))"
proof (induction m)
  case (Suc m)
  then have "take (Suc m) kSigverifyShares = take m kSigverifyShares @ [kSigverifyShares ! m]"
    by (simp add: take_Suc_conv_app_nth shares_facts)
  then show ?case using Suc by (auto simp: reduce_step_eq Let_def less_Suc_eq or_ones)
qed simp

lemma message_check:
  assumes "length enc = 96" "length digest = 8"
  shows "sigverify_encoded_message_check enc digest fe =
    (if enc = expected_words digest then (kErrorOk, fe XOR kSigverifyRsaSuccess)
     else (kErrorSigverifyBadRsaSignature, fe XOR 0xffffffff))"
proof -
  let ?s = "share_message enc digest"
  note s = share_message_nth [OF assms]
  have len: "length (expected_words digest) = 96" using assms(2) by (simp add: expected_words_def kEncodedSha256_def)
  have "?s ! k = kSigverifyShares ! k \<longleftrightarrow> enc ! k = expected_words digest ! k" if "k < 96" for k
    using s that xor_right_cancel_word [of "enc ! k XOR expected_words digest ! k" "kSigverifyShares ! k" 0]
    by (auto simp: xor_eq_0_iff_word xor.assoc [symmetric])
  then have "(\<forall>k<96. ?s ! k = kSigverifyShares ! k) \<longleftrightarrow> enc = expected_words digest"
    using assms(1) len by (auto simp: list_eq_iff_nth_eq)
  then have "fold (reduce_step ?s) [0..<96] (0, 0) =
      (if enc = expected_words digest then (0, kSigverifyRsaSuccess) else (0xffffffff, 0xffffffff))"
    using reduce_fold [of 96 ?s] shares_facts by simp
  moreover have "sigverify_rsa_success_to_ok kSigverifyRsaSuccess = kErrorOk_value"
    "sigverify_rsa_success_to_ok 0xffffffff \<noteq> kErrorOk_value" by code_simp+
  ultimately show ?thesis
    by (simp add: sigverify_encoded_message_check_def kSigVerifyRsaNumWords_def Let_def)
qed

section \<open>PKCS \#1\<close>

text \<open>Big-endian strings as numbers, and the encoded message for a SHA-256 digest: \<open>00 01\<close>, 330 bytes of
  \<open>FF\<close>, \<open>00\<close>, the 19 bytes of the algorithm identifier, and the digest.\<close>

definition os2ip :: "u8 list \<Rightarrow> int" where
  "os2ip bs = foldl (\<lambda>n b. 256 * n + uint b) 0 bs"

text \<open>The object identifier 2.16.840.1.101.3.4.2.1 and the \<open>DigestInfo\<close> of a hash, with the tags of DER.\<close>

definition sha256_oid :: "u8 list" where "sha256_oid = [96, 134, 72, 1, 101, 3, 4, 2, 1]"

definition digest_info :: "u8 list \<Rightarrow> u8 list" where
  "digest_info hash = der_tlv 0x30 (der_tlv 0x30 (der_tlv 6 sha256_oid @ der_tlv 5 []) @ der_tlv 4 hash)"

definition pkcs1_encoding :: "u8 list \<Rightarrow> u8 list" where
  "pkcs1_encoding hash = [0x00, 0x01] @ replicate 330 0xff @ [0x00] @ digest_info hash"

text \<open>The digest register of the HMAC block is little-endian.\<close>

definition digest_bytes :: "u32 list \<Rightarrow> u8 list" where
  "digest_bytes digest = rev (concat (map word_bytes digest))"

lemma os2ip_append: "os2ip (xs @ ys) = os2ip xs * 256 ^ length ys + os2ip ys"
proof -
  have "foldl (\<lambda>n b. 256 * n + uint b) a ys = a * 256 ^ length ys + foldl (\<lambda>n b. 256 * n + uint b) 0 ys"
    for a and ys :: "u8 list"
  proof (induction ys arbitrary: a)
    case (Cons y ys)
    show ?case using Cons [of "256 * a + uint y"] Cons [of "uint y"] by (simp add: algebra_simps)
  qed simp
  then show ?thesis unfolding os2ip_def foldl_append by blast
qed

lemma horner_four:
  fixes x :: int
  assumes "x = d * 256 + a" "d = e * 256 + b" "e = f * 256 + c"
  shows "256 * (256 * (256 * f + c) + b) + a = x"
  using assms by simp

lemma os2ip_four: "os2ip [s, r, q, p] = 256 * (256 * (256 * uint s + uint r) + uint q) + uint p"
  by (simp add: os2ip_def)

lemma os2ip_word: "os2ip (rev (word_bytes w)) = uint w"
proof -
  have b: "uint (ucast (drop_bit n w) :: u8) = uint w div 2 ^ n mod 256" for n
    by (simp add: unsigned_ucast_eq take_bit_eq_mod unsigned_drop_bit_eq drop_bit_eq_div [where ?'a = int]
        uint_bound [of w] mod_pos_pos_trivial)
  have bytes: "uint (byte_of w 0) = uint w mod 256" "uint (byte_of w 1) = uint w div 256 mod 256"
    "uint (byte_of w 2) = uint w div 65536 mod 256"
    using b [of 0] b [of 8] b [of 16] by (simp_all add: byte_of_def)
  have top: "uint (byte_of w 3) = uint w div 16777216"
  proof -
    have "0 \<le> uint w div 16777216" "uint w div 16777216 < 256"
      using uint_bound [of w] by (simp_all add: pos_imp_zdiv_nonneg_iff)
    then have "uint w div 16777216 mod 256 = uint w div 16777216" by (rule mod_pos_pos_trivial)
    with b [of 24] show ?thesis by (simp add: byte_of_def)
  qed
  have q: "uint w div 16777216 = uint w div 65536 div 256" "uint w div 65536 = uint w div 256 div 256"
    by (simp_all add: zdiv_zmult2_eq [symmetric])
  have "256 * (256 * (256 * (uint w div 16777216) + uint w div 65536 mod 256) + uint w div 256 mod 256) +
      uint w mod 256 = uint w"
  proof (rule horner_four)
    show "uint w = uint w div 256 * 256 + uint w mod 256" by simp
    show "uint w div 256 = uint w div 65536 * 256 + uint w div 256 mod 256" unfolding q(2) by simp
    show "uint w div 65536 = uint w div 16777216 * 256 + uint w div 65536 mod 256" unfolding q(1) by simp
  qed
  then show ?thesis
    unfolding word_bytes_def rev.simps append.simps os2ip_four bytes top .
qed

lemma digits_os2ip: "digits ws = os2ip (digest_bytes ws)"
proof (induction ws)
  case Nil
  then show ?case by (simp add: digest_bytes_def os2ip_def)
next
  case (Cons w ws)
  have "digest_bytes (w # ws) = digest_bytes ws @ rev (word_bytes w)" by (simp add: digest_bytes_def)
  with Cons show ?case by (simp add: os2ip_append os2ip_word)
qed

lemma concat_replicate_same: "concat (replicate n (replicate m x)) = replicate (n * m) x"
  by (induction n) (simp_all add: replicate_add)

lemma length_digest_bytes: "length (digest_bytes digest) = 4 * length digest"
  by (simp add: digest_bytes_def length_concat comp_def word_bytes_def sum_list_triv)

lemma encoded_info:
  assumes "length hash = 32"
  shows "rev (concat (map word_bytes kEncodedSha256)) @ hash = 0 # digest_info hash"
proof -
  have "rev (concat (map word_bytes kEncodedSha256)) =
      [0, 0x30, 49, 0x30, 13] @ der_tlv 6 sha256_oid @ der_tlv 5 [] @ [4, 32]" by code_simp
  moreover have "length (der_tlv 6 sha256_oid @ der_tlv 5 []) = 13" by code_simp
  moreover have "der_tlv 0x30 c = 0x30 # of_nat (length c) # c" "der_tlv 4 c = 4 # of_nat (length c) # c"
    if "length c \<le> 0x7f" for c
    using that by (simp_all add: der_tlv_def der_length_def)
  ultimately show ?thesis
    using assms by (simp add: digest_info_def)
qed

lemma expected_bytes:
  assumes "length digest = 8"
  shows "digest_bytes (expected_words digest) = pkcs1_encoding (digest_bytes digest)"
proof -
  have "word_bytes 0xffffffff = replicate 4 0xff" by code_simp
  then have ps: "concat (map word_bytes (replicate 82 0xffffffff)) = replicate 328 (0xff :: u8)"
    by (simp only: map_replicate concat_replicate_same) simp
  have ends: "rev (word_bytes 0x0001ffff) = [0, 1] @ replicate 2 0xff" by code_simp
  have "replicate 2 (0xff :: u8) @ replicate 328 0xff = replicate 330 0xff"
    by (simp only: replicate_add [symmetric]) simp
  then have ff: "replicate 2 (0xff :: u8) @ replicate 328 0xff @ xs = replicate 330 0xff @ xs" for xs
    by (metis append.assoc)
  have info: "rev (concat (map word_bytes kEncodedSha256)) @ digest_bytes digest = [0] @ digest_info (digest_bytes digest)"
    using encoded_info [of "digest_bytes digest"] assms by (simp add: length_digest_bytes)
  have "digest_bytes (expected_words digest) = rev (word_bytes 0x0001ffff) @
      rev (concat (map word_bytes (replicate 82 0xffffffff))) @ rev (concat (map word_bytes kEncodedSha256)) @
      digest_bytes digest"
    by (simp add: digest_bytes_def expected_words_def del: replicate_Suc)
  also have "\<dots> = pkcs1_encoding (digest_bytes digest)"
    unfolding ps ends info rev_replicate pkcs1_encoding_def append_assoc ff ..
  finally show ?thesis .
qed

lemma digits_inject:
  "length xs = length ys \<Longrightarrow> digits xs = digits ys \<Longrightarrow> xs = ys"
proof (induction xs ys rule: list_induct2)
  case (Cons x xs y ys)
  have low: "digits (w # ws) mod base = uint w" for w ws
    using uint_bound [of w] by simp
  from Cons.prems low [of x xs] low [of y ys] have eq: "uint x = uint y" by simp
  with Cons.prems have "digits xs = digits ys" by simp
  with Cons.IH eq show ?case by (simp add: word_uint_eq_iff)
qed simp

section \<open>Property\<close>

text \<open>C17: with a valid key the check returns, and it accepts a signature exactly when it is below the modulus and its
  65537th power modulo the modulus is the PKCS \#1 encoding of the digest. Only then is the value that
  unlocks execution combined with the caller's; otherwise all ones are.\<close>

theorem rsa_verify_correct:
  assumes "valid_key key" "length signature = 96" "length act_digest = 8" "length enc_msg = 96" "length stack = 96"
  shows "\<exists>e. sigverify_rsa_verify stack enc_msg signature key act_digest flash_exec = Some
      (if digits signature < modulus key \<and>
          digits signature ^ 65537 mod modulus key = os2ip (pkcs1_encoding (digest_bytes act_digest))
       then (kErrorOk, flash_exec XOR kSigverifyRsaSuccess)
       else (e, flash_exec XOR 0xffffffff)) \<and> e \<noteq> kErrorOk"
proof -
  obtain r where r: "sigverify_mod_exp_ibex stack key signature enc_msg =
      Some (if modulus key \<le> digits signature then (kErrorSigverifyLargeRsaSignature, enc_msg) else (kErrorOk, r))"
    "length r = 96" "digits r = digits signature ^ 65537 mod modulus key"
    using mod_exp_value [OF assms(1,2,4,5)] by blast
  have "length (expected_words act_digest) = 96"
    using assms(3) by (simp add: expected_words_def kEncodedSha256_def)
  then have "r = expected_words act_digest \<longleftrightarrow> digits r = os2ip (pkcs1_encoding (digest_bytes act_digest))"
    using digits_inject [of r "expected_words act_digest"] r(2) digits_os2ip [of "expected_words act_digest"]
    by (auto simp: expected_bytes [OF assms(3)])
  with message_check [OF r(2) assms(3), of flash_exec] r(1,3) show ?thesis
    by (cases "modulus key \<le> digits signature") (auto simp: sigverify_rsa_verify_def)
qed

text \<open>The signature 1 is not accepted for any digest.\<close>

theorem rsa_verify_correct_witness:
  "\<exists>e. sigverify_rsa_verify (replicate 96 0) (replicate 96 0) (1 # replicate 95 0) sample_key (replicate 8 5) 0 =
     Some (e, 0xffffffff) \<and> e \<noteq> kErrorOk"
proof -
  let ?d = "replicate 8 5 :: u32 list"
  have len: "length (1 # replicate 95 0 :: u32 list) = 96" "length ?d = 8" "length (replicate 96 0 :: u32 list) = 96"
    by simp_all
  have d: "digits (1 # replicate 95 0) = 1" by simp
  have "length (?d @ kEncodedSha256 @ replicate 82 0xffffffff) = 95" by (simp add: kEncodedSha256_def)
  then have "digits (expected_words ?d) = digits (?d @ kEncodedSha256 @ replicate 82 0xffffffff) + base ^ 95 * 0x1ffff"
    using digits_append [of "?d @ kEncodedSha256 @ replicate 82 0xffffffff" "[0x1ffff]"]
    by (simp add: expected_words_def)
  moreover have "0 \<le> digits (?d @ kEncodedSha256 @ replicate 82 0xffffffff)" using digits_bounds by blast
  ultimately have "digits (expected_words ?d) \<noteq> 1" by simp
  then have "os2ip (pkcs1_encoding (digest_bytes ?d)) \<noteq> 1" unfolding digits_os2ip expected_bytes [OF len(2)] .
  moreover have "1 ^ 65537 mod modulus sample_key = 1" unfolding sample_key_modulus by simp
  ultimately have rejected: "\<not> (digits (1 # replicate 95 0) < modulus sample_key \<and>
      digits (1 # replicate 95 0) ^ 65537 mod modulus sample_key = os2ip (pkcs1_encoding (digest_bytes ?d)))"
    unfolding d by metis
  from rsa_verify_correct [OF sample_key_valid len(1,2,3,3), of 0]
  show ?thesis unfolding if_not_P [OF rejected] xor.left_neutral .
qed

end
