(* ===== verification/Boot_Data.thy ===== *)
theory Boot_Data
  imports Rom_Codes
begin

unbundle bit_operations_syntax

text \<open>
  The boot data of \<open>sw/device/silicon_creator/lib/boot_data.c\<close>: entries of 32 words in two info
  pages of the flash, found by a search over both pages and replaced by writing a new entry and then
  invalidating the old one. The drivers it calls (flash controller, HMAC, OTP) are the fields of
  \<open>boot_hw\<close>; \<open>'h\<close> is the state of the hardware. A hardened trap is None. \<open>launder32\<close> is the
  identity; the counters \<open>r\<close> that run against the loop counters and the checks on them, and the
  hardened checks that repeat a condition just tested, are left out.
\<close>

section \<open>Data\<close>

datatype flash_ctrl_info_page =
    kFlashCtrlInfoPageFactoryId | kFlashCtrlInfoPageCreatorSecret | kFlashCtrlInfoPageOwnerSecret
  | kFlashCtrlInfoPageWaferAuthSecret | kFlashCtrlInfoPageAttestationKeySeeds
  | kFlashCtrlInfoPageOwnerReserved0 | kFlashCtrlInfoPageOwnerReserved1 | kFlashCtrlInfoPageOwnerReserved2
  | kFlashCtrlInfoPageOwnerReserved3 | kFlashCtrlInfoPageFactoryCerts
  | kFlashCtrlInfoPageBootData0 | kFlashCtrlInfoPageBootData1
  | kFlashCtrlInfoPageOwnerSlot0 | kFlashCtrlInfoPageOwnerSlot1 | kFlashCtrlInfoPageCreatorReserved0
  | kFlashCtrlInfoPageOwnerReserved4 | kFlashCtrlInfoPageOwnerReserved5 | kFlashCtrlInfoPageOwnerReserved6
  | kFlashCtrlInfoPageOwnerReserved7 | kFlashCtrlInfoPageDiceCerts

record flash_ctrl_perms =
  perm_read :: u32
  perm_write :: u32
  perm_erase :: u32

record boot_data =
  bd_digest :: "u32 list"
  bd_is_valid :: u64
  bd_identifier :: u32
  bd_version :: u32
  bd_counter :: u32
  bd_min_security_version_rom_ext :: u32
  bd_min_security_version_bl0 :: u32
  bd_primary_bl0_slot :: u32
  bd_next_owner :: "u32 list"
  bd_nonce :: "u32 list"
  bd_ownership_state :: u32
  bd_ownership_transfers :: u32
  bd_padding :: "u32 list"

definition kBootDataIdentifier :: u32 where "kBootDataIdentifier = 0x41444f42"
definition kBootDataVersion1 :: u32 where "kBootDataVersion1 = 0xd4ce468e"
definition kBootDataVersion2 :: u32 where "kBootDataVersion2 = 0xad51e729"
definition kBootDataValidEntry :: u64 where "kBootDataValidEntry = - 1"
definition kBootDataDefaultCounterVal :: u32 where "kBootDataDefaultCounterVal = 5"
definition kBootDataNumWords :: nat where "kBootDataNumWords = 32"
definition kBootDataEntriesPerPage :: nat where "kBootDataEntriesPerPage = 16"
definition kBootSlotA :: u32 where "kBootSlotA = 0x5f5f4141"
definition kBootSlotB :: u32 where "kBootSlotB = 0x42425f5f"
definition kBootSlotUnspecified :: u32 where "kBootSlotUnspecified = 0x55555555"
definition kFlashCtrlErasedWord :: u32 where "kFlashCtrlErasedWord = 0xffffffff"

definition kLcStateTest :: u32 where "kLcStateTest = 0xb2865fbb"
definition kLcStateDev :: u32 where "kLcStateDev = 0x0b5a75e0"
definition kLcStateProd :: u32 where "kLcStateProd = 0x65f2520f"
definition kLcStateProdEnd :: u32 where "kLcStateProdEnd = 0x91b9b68a"
definition kLcStateRma :: u32 where "kLcStateRma = 0xcf8cfaab"

text \<open>The 32 words of an entry as it lies in memory and in the flash.\<close>

definition bd_words :: "boot_data \<Rightarrow> u32 list" where
  "bd_words d = bd_digest d @ [ucast (bd_is_valid d), ucast (drop_bit 32 (bd_is_valid d)),
     bd_identifier d, bd_version d, bd_counter d, bd_min_security_version_rom_ext d,
     bd_min_security_version_bl0 d, bd_primary_bl0_slot d] @ bd_next_owner d @ bd_nonce d @
     [bd_ownership_state d, bd_ownership_transfers d] @ bd_padding d"

definition bd_of_words :: "u32 list \<Rightarrow> boot_data" where
  "bd_of_words ws = \<lparr>bd_digest = take 8 ws, bd_is_valid = ucast (ws ! 8) OR push_bit 32 (ucast (ws ! 9)),
     bd_identifier = ws ! 10, bd_version = ws ! 11, bd_counter = ws ! 12,
     bd_min_security_version_rom_ext = ws ! 13, bd_min_security_version_bl0 = ws ! 14,
     bd_primary_bl0_slot = ws ! 15, bd_next_owner = take 8 (drop 16 ws), bd_nonce = take 2 (drop 24 ws),
     bd_ownership_state = ws ! 26, bd_ownership_transfers = ws ! 27, bd_padding = drop 28 ws\<rparr>"

definition bd_wf :: "boot_data \<Rightarrow> bool" where
  "bd_wf d \<longleftrightarrow> length (bd_digest d) = 8 \<and> length (bd_next_owner d) = 8 \<and> length (bd_nonce d) = 2 \<and>
     length (bd_padding d) = 4"

section \<open>Drivers\<close>

text \<open>
  A read gives the words it read; offsets are in bytes. The message of \<open>hmac_sha256\<close> and its
  digest are words, as they lie in memory. The OTP addresses are constants of a generated header.
\<close>

record 'h boot_hw =
  info_read :: "flash_ctrl_info_page \<Rightarrow> u32 \<Rightarrow> nat \<Rightarrow> 'h \<Rightarrow> u32 \<times> u32 list \<times> 'h"
  info_write :: "flash_ctrl_info_page \<Rightarrow> u32 \<Rightarrow> u32 list \<Rightarrow> 'h \<Rightarrow> u32 \<times> 'h"
  info_erase_page :: "flash_ctrl_info_page \<Rightarrow> 'h \<Rightarrow> u32 \<times> 'h"
  info_perms_set :: "flash_ctrl_info_page \<Rightarrow> flash_ctrl_perms \<Rightarrow> 'h \<Rightarrow> 'h"
  sec_mmio_write_increment :: "nat \<Rightarrow> 'h \<Rightarrow> 'h"
  hmac_sha256 :: "u32 list \<Rightarrow> u32 list"
  otp_read32 :: "u32 \<Rightarrow> u32"
  otp_DEFAULT_BOOT_DATA_IN_PROD_EN :: u32
  otp_MIN_SEC_VER_ROM_EXT :: u32
  otp_MIN_SEC_VER_BL0 :: u32

definition kFlashCtrlSecMmioInfoPermsSet :: nat where "kFlashCtrlSecMmioInfoPermsSet = 1"

section \<open>Single entries\<close>

definition boot_data_digest_compute :: "('h, 'm) boot_hw_scheme \<Rightarrow> boot_data \<Rightarrow> u32 list" where
  "boot_data_digest_compute H bd = hmac_sha256 H (drop 8 (bd_words bd))"

definition boot_data_is_empty :: "boot_data \<Rightarrow> u32" where
  "boot_data_is_empty bd =
     (let (res, is_empty) = fold (\<lambda>w (res, is_empty). (res AND w, is_empty AND w)) (bd_words bd)
            (kFlashCtrlErasedWord, kHardenedBoolTrue)
      in if res = kFlashCtrlErasedWord then is_empty else kHardenedBoolFalse)"

definition boot_data_sniff ::
  "('h, 'm) boot_hw_scheme \<Rightarrow> flash_ctrl_info_page \<Rightarrow> nat \<Rightarrow> 'h \<Rightarrow> u32 \<times> u32 \<times> 'h" where
  "boot_data_sniff H page index h =
     (case info_read H page (of_nat (index * 128 + 32)) 3 h of (e, buf, h) \<Rightarrow>
        if e \<noteq> kErrorOk_value then (e, 0, h) else (kErrorOk_value, buf ! 0 AND buf ! 1 AND buf ! 2, h))"

definition boot_data_entry_read ::
  "('h, 'm) boot_hw_scheme \<Rightarrow> flash_ctrl_info_page \<Rightarrow> nat \<Rightarrow> 'h \<Rightarrow> u32 \<times> boot_data \<times> 'h" where
  "boot_data_entry_read H page index h =
     (case info_read H page (of_nat (index * 128)) kBootDataNumWords h of (e, ws, h) \<Rightarrow> (e, bd_of_words ws, h))"

definition kCheckShares :: "u32 list" where
  "kCheckShares = [0xe021e1a9, 0xf81e8365, 0xbf8322db, 0xc7a37080, 0x271a933f,
     0xdd8ce33f, 0x7585d574, 0x951777af, 0x381dee3a]"

definition boot_data_check :: "('h, 'm) boot_hw_scheme \<Rightarrow> boot_data \<Rightarrow> u32" where
  "boot_data_check H bd =
     (let act_digest = boot_data_digest_compute H bd;
          err = fold (\<lambda>i e. e XOR (bd_digest bd ! i XOR act_digest ! i XOR kCheckShares ! i)) [0..<8]
                  kErrorBootDataInvalid;
          err = err XOR (bd_identifier bd XOR kCheckShares ! 8)
      in if err = kErrorOk_value then err else kErrorBootDataInvalid)"

section \<open>Writing and invalidating an entry\<close>

definition boot_data_entry_write_impl ::
  "('h, 'm) boot_hw_scheme \<Rightarrow> flash_ctrl_info_page \<Rightarrow> nat \<Rightarrow> boot_data \<Rightarrow> u32 \<Rightarrow> 'h \<Rightarrow> u32 \<times> 'h" where
  "boot_data_entry_write_impl H page index bd erase h =
     (let offset = of_nat (index * 128) :: u32;
          (e, h) = (if erase = kHardenedBoolTrue then info_erase_page H page h else (kErrorOk_value, h))
      in if e \<noteq> kErrorOk_value then (e, h) else
         case info_write H page offset (take 8 (bd_words bd)) h of (e, h) \<Rightarrow>
         if e \<noteq> kErrorOk_value then (e, h) else
         case info_write H page (offset + 40) (drop 10 (bd_words bd)) h of (e, h) \<Rightarrow>
         if e \<noteq> kErrorOk_value then (e, h) else
         case info_read H page offset kBootDataNumWords h of (e, written, h) \<Rightarrow>
         if e \<noteq> kErrorOk_value then (e, h)
         else (if written \<noteq> bd_words bd then kErrorBootDataWriteCheck else kErrorOk_value, h))"

definition no_perms :: flash_ctrl_perms where
  "no_perms = \<lparr>perm_read = kMultiBitBool4False, perm_write = kMultiBitBool4False, perm_erase = kMultiBitBool4False\<rparr>"

definition boot_data_entry_write ::
  "('h, 'm) boot_hw_scheme \<Rightarrow> flash_ctrl_info_page \<Rightarrow> nat \<Rightarrow> boot_data \<Rightarrow> u32 \<Rightarrow> 'h \<Rightarrow> u32 \<times> 'h" where
  "boot_data_entry_write H page index bd erase h =
     (let h = info_perms_set H page \<lparr>perm_read = kMultiBitBool4True, perm_write = kMultiBitBool4True,
            perm_erase = if erase = kHardenedBoolTrue then kMultiBitBool4True else kMultiBitBool4False\<rparr> h;
          (err, h) = boot_data_entry_write_impl H page index bd erase h;
          h = info_perms_set H page no_perms h
      in (err, sec_mmio_write_increment H (2 * kFlashCtrlSecMmioInfoPermsSet) h))"

definition boot_data_entry_invalidate ::
  "('h, 'm) boot_hw_scheme \<Rightarrow> flash_ctrl_info_page \<Rightarrow> nat \<Rightarrow> 'h \<Rightarrow> u32 \<times> 'h" where
  "boot_data_entry_invalidate H page index h =
     (let h = info_perms_set H page \<lparr>perm_read = kMultiBitBool4False, perm_write = kMultiBitBool4True,
            perm_erase = kMultiBitBool4False\<rparr> h;
          (err, h) = info_write H page (of_nat (index * 128 + 32)) [0, 0] h;
          h = info_perms_set H page no_perms h
      in (err, sec_mmio_write_increment H (2 * kFlashCtrlSecMmioInfoPermsSet) h))"

section \<open>Searching the pages\<close>

record active_page_info =
  ap_page :: "flash_ctrl_info_page option"
  has_empty_entry :: u32
  first_empty_index :: nat
  has_valid_entry :: u32
  last_valid_index :: nat

text \<open>
  The forward search over the entries \<open>i, i + 1, \<dots>\<close>: the error, the results of sniffing, whether an
  empty entry was found, and where the search stopped.
\<close>

fun find_empty ::
  "('h, 'm) boot_hw_scheme \<Rightarrow> flash_ctrl_info_page \<Rightarrow> nat \<Rightarrow> nat \<Rightarrow> u32 list \<Rightarrow> 'h \<Rightarrow>
     (u32 \<times> u32 list \<times> u32 \<times> nat \<times> 'h) option" where
  "find_empty H page 0 i sniff_results h = Some (kErrorOk_value, sniff_results, kHardenedBoolFalse, i, h)"
| "find_empty H page (Suc n) i sniff_results h =
     (case boot_data_sniff H page i h of (e, masked, h) \<Rightarrow>
      let sniff_results = sniff_results @ [masked] in
      if e \<noteq> kErrorOk_value then Some (e, sniff_results, kHardenedBoolFalse, i, h)
      else if masked = kFlashCtrlErasedWord then
        (case boot_data_entry_read H page i h of (e, buf, h) \<Rightarrow>
         if e \<noteq> kErrorOk_value then Some (e, sniff_results, kHardenedBoolFalse, i, h)
         else if boot_data_is_empty buf = kHardenedBoolTrue
         then Some (kErrorOk_value, sniff_results, kHardenedBoolTrue, i, h)
         else do { HARDENED_CHECK (boot_data_is_empty buf = kHardenedBoolFalse);
                   find_empty H page n (Suc i) sniff_results h })
      else find_empty H page n (Suc i) sniff_results h)"

text \<open>The backward search over the entries below \<open>i\<close>, with the last valid entry and its index if any.\<close>

fun find_valid ::
  "('h, 'm) boot_hw_scheme \<Rightarrow> flash_ctrl_info_page \<Rightarrow> nat \<Rightarrow> u32 list \<Rightarrow> 'h \<Rightarrow>
     (u32 \<times> (nat \<times> boot_data) option \<times> 'h) option" where
  "find_valid H page 0 sniff_results h = Some (kErrorOk_value, None, h)"
| "find_valid H page (Suc i) sniff_results h =
     (if sniff_results ! i = kBootDataIdentifier then
        (case boot_data_entry_read H page i h of (e, buf, h) \<Rightarrow>
         if e \<noteq> kErrorOk_value then Some (e, None, h)
         else let is_valid = boot_data_check H buf in
           if is_valid = kErrorOk_value then Some (kErrorOk_value, Some (i, buf), h)
           else do { HARDENED_CHECK (is_valid = kErrorBootDataInvalid);
                     find_valid H page i sniff_results h })
      else find_valid H page i sniff_results h)"

definition boot_data_page_info_update_impl ::
  "('h, 'm) boot_hw_scheme \<Rightarrow> flash_ctrl_info_page \<Rightarrow> active_page_info \<Rightarrow> boot_data \<Rightarrow> 'h \<Rightarrow>
     (u32 \<times> active_page_info \<times> boot_data \<times> 'h) option" where
  "boot_data_page_info_update_impl H page page_info bd h = do {
     (e, sniff_results, has_empty, first_empty, h) \<leftarrow> find_empty H page kBootDataEntriesPerPage 0 [] h;
     if e \<noteq> kErrorOk_value then Some (e, page_info, bd, h) else do {
       (e, valid, h) \<leftarrow> find_valid H page first_empty sniff_results h;
       if e \<noteq> kErrorOk_value then Some (e, page_info, bd, h) else
       (case valid of
          None \<Rightarrow> Some (kErrorOk_value, page_info, bd, h)
        | Some (i, buf) \<Rightarrow>
            let found = \<lparr>ap_page = Some page, has_empty_entry = has_empty, first_empty_index = first_empty,
                  has_valid_entry = kHardenedBoolTrue, last_valid_index = i\<rparr> in
            if has_valid_entry page_info = kHardenedBoolFalse then Some (kErrorOk_value, found, buf, h)
            else if has_valid_entry page_info = kHardenedBoolTrue \<and> bd_counter buf > bd_counter bd
            then Some (kErrorOk_value, found, buf, h)
            else do { HARDENED_CHECK (has_valid_entry page_info = kHardenedBoolTrue);
                      HARDENED_CHECK (bd_counter buf < bd_counter bd);
                      Some (kErrorOk_value, page_info, bd, h) }) } }"

definition boot_data_page_info_update ::
  "('h, 'm) boot_hw_scheme \<Rightarrow> flash_ctrl_info_page \<Rightarrow> active_page_info \<Rightarrow> boot_data \<Rightarrow> 'h \<Rightarrow>
     (u32 \<times> active_page_info \<times> boot_data \<times> 'h) option" where
  "boot_data_page_info_update H page page_info bd h = do {
     let h = info_perms_set H page \<lparr>perm_read = kMultiBitBool4True, perm_write = kMultiBitBool4False,
            perm_erase = kMultiBitBool4False\<rparr> h;
     (e, page_info, bd, h) \<leftarrow> boot_data_page_info_update_impl H page page_info bd h;
     let h = info_perms_set H page no_perms h;
     Some (e, page_info, bd, sec_mmio_write_increment H (2 * kFlashCtrlSecMmioInfoPermsSet) h) }"

definition boot_data_active_page_find ::
  "('h, 'm) boot_hw_scheme \<Rightarrow> boot_data \<Rightarrow> 'h \<Rightarrow> (u32 \<times> active_page_info \<times> boot_data \<times> 'h) option" where
  "boot_data_active_page_find H bd h = do {
     let page_info = \<lparr>ap_page = None, has_empty_entry = kHardenedBoolFalse,
       first_empty_index = kBootDataEntriesPerPage, has_valid_entry = kHardenedBoolFalse,
       last_valid_index = kBootDataEntriesPerPage\<rparr>;
     (e, page_info, bd, h) \<leftarrow> boot_data_page_info_update H kFlashCtrlInfoPageBootData0 page_info bd h;
     if e \<noteq> kErrorOk_value then Some (e, page_info, bd, h)
     else boot_data_page_info_update H kFlashCtrlInfoPageBootData1 page_info bd h }"

section \<open>Reading and writing the boot data\<close>

definition boot_data_default_get ::
  "('h, 'm) boot_hw_scheme \<Rightarrow> u32 \<Rightarrow> boot_data \<Rightarrow> (u32 \<times> boot_data) option" where
  "boot_data_default_get H lc_state bd = do {
     let allowed_in_prod = otp_read32 H (otp_DEFAULT_BOOT_DATA_IN_PROD_EN H);
     let res = lc_state XOR kErrorBootDataNotFound;
     res \<leftarrow>
       (if lc_state = kLcStateTest then Some (res XOR (kLcStateTest XOR kErrorBootDataNotFound XOR kErrorOk_value))
        else if lc_state = kLcStateDev then Some (res XOR (kLcStateDev XOR kErrorBootDataNotFound XOR kErrorOk_value))
        else if lc_state = kLcStateProd then
          Some (let res = res XOR kLcStateProd in
                if allowed_in_prod = kHardenedBoolTrue then res XOR (kErrorBootDataNotFound XOR kErrorOk_value) else res)
        else if lc_state = kLcStateProdEnd then
          Some (let res = res XOR kLcStateProdEnd in
                if allowed_in_prod = kHardenedBoolTrue then res XOR (kErrorBootDataNotFound XOR kErrorOk_value) else res)
        else if lc_state = kLcStateRma then Some (res XOR (kLcStateRma XOR kErrorBootDataNotFound XOR kErrorOk_value))
        else None);
     if res \<noteq> kErrorOk_value then Some (res, bd) else
     let bd = (bd_of_words (replicate 32 0))\<lparr>bd_is_valid := kBootDataValidEntry, bd_identifier := kBootDataIdentifier,
           bd_version := kBootDataVersion2, bd_counter := kBootDataDefaultCounterVal,
           bd_min_security_version_rom_ext := otp_read32 H (otp_MIN_SEC_VER_ROM_EXT H),
           bd_min_security_version_bl0 := otp_read32 H (otp_MIN_SEC_VER_BL0 H),
           bd_primary_bl0_slot := kBootSlotA\<rparr>
     in Some (res, bd\<lparr>bd_digest := boot_data_digest_compute H bd\<rparr>) }"

definition boot_data_as_v2 :: "('h, 'm) boot_hw_scheme \<Rightarrow> boot_data \<Rightarrow> (u32 \<times> boot_data) option" where
  "boot_data_as_v2 H bd =
     (if bd_version bd = kBootDataVersion1 then
        let bd = bd\<lparr>bd_primary_bl0_slot := kBootSlotA, bd_version := kBootDataVersion2\<rparr>
        in Some (kErrorOk_value, bd\<lparr>bd_digest := boot_data_digest_compute H bd\<rparr>)
      else if bd_version bd = kBootDataVersion2 then Some (kErrorOk_value, bd)
      else None)"

definition boot_data_read ::
  "('h, 'm) boot_hw_scheme \<Rightarrow> u32 \<Rightarrow> boot_data \<Rightarrow> 'h \<Rightarrow> (u32 \<times> boot_data \<times> 'h) option" where
  "boot_data_read H lc_state bd h = do {
     (e, active_page, bd, h) \<leftarrow> boot_data_active_page_find H bd h;
     if e \<noteq> kErrorOk_value then Some (e, bd, h)
     else if has_valid_entry active_page = kHardenedBoolTrue then do {
       (e, bd) \<leftarrow> boot_data_as_v2 H bd;
       Some (e, bd, h) }
     else if has_valid_entry active_page = kHardenedBoolFalse then do {
       (e, bd) \<leftarrow> boot_data_default_get H lc_state bd;
       Some (e, bd, h) }
     else None }"

text \<open>The local variable \<open>last_entry\<close> is uninitialised; its first value is an argument of the model.\<close>

definition boot_data_write ::
  "('h, 'm) boot_hw_scheme \<Rightarrow> boot_data \<Rightarrow> boot_data \<Rightarrow> 'h \<Rightarrow> (u32 \<times> 'h) option" where
  "boot_data_write H last_entry bd h = do {
     let new_entry = bd\<lparr>bd_is_valid := kBootDataValidEntry, bd_identifier := kBootDataIdentifier\<rparr>;
     (e, active_page, last_entry, h) \<leftarrow> boot_data_active_page_find H last_entry h;
     if e \<noteq> kErrorOk_value then Some (e, h)
     else if has_valid_entry active_page = kHardenedBoolTrue then
       let new_entry = new_entry\<lparr>bd_counter := bd_counter last_entry + 1\<rparr>;
           new_entry = new_entry\<lparr>bd_digest := boot_data_digest_compute H new_entry\<rparr>;
           page = the (ap_page active_page);
           (e, h) = (if has_empty_entry active_page = kHardenedBoolTrue
             then boot_data_entry_write H page (first_empty_index active_page) new_entry kHardenedBoolFalse h
             else boot_data_entry_write H
               (if page = kFlashCtrlInfoPageBootData0 then kFlashCtrlInfoPageBootData1 else kFlashCtrlInfoPageBootData0)
               0 new_entry kHardenedBoolTrue h)
       in if e \<noteq> kErrorOk_value then Some (e, h)
          else Some (boot_data_entry_invalidate H page (last_valid_index active_page) h)
     else
       let new_entry = new_entry\<lparr>bd_counter := kBootDataDefaultCounterVal + 1\<rparr>;
           new_entry = new_entry\<lparr>bd_digest := boot_data_digest_compute H new_entry\<rparr>
       in Some (boot_data_entry_write H kFlashCtrlInfoPageBootData0 0 new_entry kHardenedBoolTrue h) }"

end
