(* ===== verification/Boot_Store.thy ===== *)
theory Boot_Store
  imports Boot_Data
begin

unbundle bit_operations_syntax

text \<open>
  What the boot data code promises, over a flash that may lose power: \<open>info_storage\<close> is the interface
  of the reads, under which the search over the pages is a function of their contents; the flash of
  \<open>power_flash\<close> implements it and may stop in the middle of any word program or page erase. The
  theorems say which entry is read, and that an interrupted update leaves the old or the new one.
\<close>

section \<open>Words of an entry\<close>

lemma halves_u64 [simp]:
  "ucast (ucast (a :: u32) OR push_bit 32 (ucast (b :: u32)) :: u64) = a"
  "ucast (drop_bit 32 (ucast (a :: u32) OR push_bit 32 (ucast (b :: u32)) :: u64)) = b"
  "(ucast (ucast (v :: u64) :: u32) :: u64) OR push_bit 32 (ucast (ucast (drop_bit 32 v) :: u32)) = v"
  by (rule bit_word_eqI;
      auto simp: bit_ucast_iff bit_or_iff bit_push_bit_iff bit_drop_bit_eq dest: bit_imp_le_length)+

lemma halves_u64_drop [simp]:
  "ucast (drop_bit 32 (ucast (a :: u32)) OR drop_bit 32 (push_bit 32 (ucast (b :: u32))) :: u64) = b"
  using halves_u64(2) [of a b] by simp

lemma bd_words_of_words [simp]:
  assumes "length ws = 32"
  shows "bd_words (bd_of_words ws) = ws"
proof -
  have step: "drop k ws = ws ! k # drop (Suc k) ws" if "k < 32" for k
    using that assms by (simp add: Cons_nth_drop_Suc)
  have split: "drop k ws = take n (drop k ws) @ drop (n + k) ws" for n k
    using append_take_drop_id [of n "drop k ws"] by simp
  have "take 8 ws @ take 8 (drop 8 ws) @ take 8 (drop 16 ws) @ take 2 (drop 24 ws) @ take 2 (drop 26 ws) @ drop 28 ws = ws"
    using split [of 0 8] split [of 8 8] split [of 16 8] split [of 24 2] split [of 26 2] by simp
  moreover have "take 8 (drop 8 ws) = [ws ! 8, ws ! 9, ws ! 10, ws ! 11, ws ! 12, ws ! 13, ws ! 14, ws ! 15]"
    by (simp add: step numeral_eq_Suc)
  moreover have "take 2 (drop 26 ws) = [ws ! 26, ws ! 27]"
    by (simp add: step numeral_eq_Suc)
  ultimately show ?thesis
    unfolding bd_words_def bd_of_words_def by simp
qed

lemma length_bd_words [simp]: "bd_wf d \<Longrightarrow> length (bd_words d) = 32"
  by (simp add: bd_words_def bd_wf_def)

lemma bd_of_words_words [simp]:
  assumes "bd_wf d"
  shows "bd_of_words (bd_words d) = d"
  using assms by (simp add: bd_of_words_def bd_words_def bd_wf_def nth_append)

lemma bd_wf_of_words: "length ws = 32 \<Longrightarrow> bd_wf (bd_of_words ws)"
  by (simp add: bd_wf_def bd_of_words_def)

definition sniffed :: "u32 list \<Rightarrow> u32" where
  "sniffed e = e ! 8 AND e ! 9 AND e ! 10"

definition entry_empty :: "u32 list \<Rightarrow> bool" where
  "entry_empty e \<longleftrightarrow> (\<forall>w \<in> set e. w = kFlashCtrlErasedWord)"

definition entry_valid :: "(u32 list \<Rightarrow> u32 list) \<Rightarrow> u32 list \<Rightarrow> bool" where
  "entry_valid sha e \<longleftrightarrow> sniffed e = kBootDataIdentifier \<and>
     xor_sum ((!) e) [0..<8] XOR e ! 10 = xor_sum ((!) (sha (drop 8 e))) [0..<8] XOR kBootDataIdentifier"

lemma erased_eq: "kFlashCtrlErasedWord = - 1"
  by (simp add: kFlashCtrlErasedWord_def)

lemma is_empty_fold:
  "fold (\<lambda>w (res, e). (res AND w, e AND w)) ws (r0, e0) = (fold (\<lambda>w r. r AND w) ws r0, fold (\<lambda>w r. r AND w) ws (e0 :: u32))"
  by (induction ws arbitrary: r0 e0) simp_all

lemma fold_and_ones: "fold (\<lambda>w r. r AND w) ws r0 = - 1 \<longleftrightarrow> r0 = - 1 \<and> (\<forall>w \<in> set ws. w = (- 1 :: u32))"
  by (induction ws arbitrary: r0) (auto simp: and_eq_minus_1_iff)

lemma fold_and_same: "\<forall>w \<in> set ws. w = (- 1 :: u32) \<Longrightarrow> fold (\<lambda>w r. r AND w) ws e0 = e0"
  by (induction ws arbitrary: e0) simp_all

lemma boot_data_is_empty_words:
  "boot_data_is_empty d = (if entry_empty (bd_words d) then kHardenedBoolTrue else kHardenedBoolFalse)"
  by (simp add: boot_data_is_empty_def is_empty_fold erased_eq fold_and_ones fold_and_same entry_empty_def)

lemma xor_shares: "kErrorBootDataInvalid XOR xor_sum ((!) kCheckShares) [0..<8] XOR kCheckShares ! 8 =
    kErrorOk_value XOR kBootDataIdentifier"
  by code_simp

lemma boot_data_check_eq:
  "boot_data_check H d =
     (if xor_sum ((!) (bd_digest d)) [0..<8] XOR bd_identifier d =
           xor_sum ((!) (boot_data_digest_compute H d)) [0..<8] XOR kBootDataIdentifier
      then kErrorOk_value else kErrorBootDataInvalid)"
proof -
  define a b where "a = xor_sum ((!) (bd_digest d)) [0..<8]"
    and "b = xor_sum ((!) (boot_data_digest_compute H d)) [0..<8]"
  define s where "s = xor_sum ((!) kCheckShares) [0..<8]"
  have "kErrorBootDataInvalid XOR a XOR b XOR s XOR (bd_identifier d XOR kCheckShares ! 8) =
      a XOR b XOR bd_identifier d XOR (kErrorBootDataInvalid XOR s XOR kCheckShares ! 8)"
    by (simp add: xor_ac)
  also have "\<dots> = (a XOR bd_identifier d) XOR (b XOR (kErrorOk_value XOR kBootDataIdentifier))"
    unfolding s_def xor_shares by (simp add: xor_ac)
  finally have "kErrorBootDataInvalid XOR a XOR b XOR s XOR (bd_identifier d XOR kCheckShares ! 8) = kErrorOk_value \<longleftrightarrow>
      (a XOR bd_identifier d) XOR (b XOR (kErrorOk_value XOR kBootDataIdentifier)) =
      (b XOR kBootDataIdentifier) XOR (b XOR (kErrorOk_value XOR kBootDataIdentifier))"
    by (simp add: xor_ac)
  then show ?thesis
    unfolding xor_right_cancel by (simp add: boot_data_check_def check_fold a_def b_def s_def Let_def xor.assoc)
qed

section \<open>The search over a page\<close>

definition entry :: "u32 list \<Rightarrow> nat \<Rightarrow> u32 list" where
  "entry ws i = take 32 (drop (32 * i) ws)"

definition counter_of :: "u32 list \<Rightarrow> u32" where
  "counter_of e = e ! 12"

fun first_empty :: "u32 list \<Rightarrow> nat \<Rightarrow> nat \<Rightarrow> nat" where
  "first_empty ws 0 i = i"
| "first_empty ws (Suc n) i = (if entry_empty (entry ws i) then i else first_empty ws n (Suc i))"

fun last_valid :: "(u32 list \<Rightarrow> u32 list) \<Rightarrow> u32 list \<Rightarrow> nat \<Rightarrow> nat option" where
  "last_valid sha ws 0 = None"
| "last_valid sha ws (Suc i) = (if entry_valid sha (entry ws i) then Some i else last_valid sha ws i)"

definition page_scan :: "(u32 list \<Rightarrow> u32 list) \<Rightarrow> u32 list \<Rightarrow> nat option" where
  "page_scan sha ws = last_valid sha ws (first_empty ws 16 0)"

lemma length_entry [simp]: "length ws = 512 \<Longrightarrow> i < 16 \<Longrightarrow> length (entry ws i) = 32"
  by (simp add: entry_def)

lemma nth_entry: "length ws = 512 \<Longrightarrow> i < 16 \<Longrightarrow> k < 32 \<Longrightarrow> entry ws i ! k = ws ! (32 * i + k)"
  by (simp add: entry_def)

lemma counter_words [simp]: "bd_counter (bd_of_words e) = counter_of e"
  by (simp add: bd_of_words_def counter_of_def)

lemma first_empty_bounds: "i \<le> first_empty ws n i \<and> first_empty ws n i \<le> i + n"
proof (induction n arbitrary: i)
  case (Suc n)
  then show ?case using Suc.IH [of "Suc i"] by (auto dest: Suc_leD)
qed simp

lemma first_empty_before: "i \<le> j \<Longrightarrow> j < first_empty ws n i \<Longrightarrow> \<not> entry_empty (entry ws j)"
proof (induction n arbitrary: i)
  case (Suc n)
  then show ?case using Suc.IH [of "Suc i"] by (cases "i = j") (auto split: if_splits)
qed simp

lemma first_empty_at: "first_empty ws n i < i + n \<Longrightarrow> entry_empty (entry ws (first_empty ws n i))"
  by (induction n arbitrary: i) (auto split: if_splits)

lemma last_valid_Some:
  "last_valid sha ws n = Some i \<longleftrightarrow>
     i < n \<and> entry_valid sha (entry ws i) \<and> (\<forall>j. i < j \<and> j < n \<longrightarrow> \<not> entry_valid sha (entry ws j))"
  by (induction n) (auto simp: less_Suc_eq)

lemma last_valid_None: "last_valid sha ws n = None \<longleftrightarrow> (\<forall>i < n. \<not> entry_valid sha (entry ws i))"
  by (induction n) (auto simp: less_Suc_eq)

lemma sniffed_empty:
  assumes "length e = 32" "entry_empty e"
  shows "sniffed e = kFlashCtrlErasedWord"
proof -
  have "e ! k = - 1" if "k < 32" for k
    using that assms by (simp add: entry_empty_def erased_eq)
  then show ?thesis by (simp add: sniffed_def erased_eq)
qed

lemma valid_not_empty: "length e = 32 \<Longrightarrow> entry_valid sha e \<Longrightarrow> \<not> entry_empty e"
  using sniffed_empty [of e] by (auto simp: entry_valid_def kBootDataIdentifier_def kFlashCtrlErasedWord_def)

lemma check_words:
  assumes "length e = 32"
  shows "sniffed e = kBootDataIdentifier \<and> boot_data_check H (bd_of_words e) = kErrorOk_value \<longleftrightarrow>
    entry_valid (hmac_sha256 H) e"
proof -
  have "xor_sum ((!) (take 8 e)) [0..<8] = xor_sum ((!) e) [0..<8]"
    unfolding xor_sum_def by (rule fold_cong) auto
  moreover have "kErrorBootDataInvalid \<noteq> kErrorOk_value" by code_simp
  moreover have "boot_data_digest_compute H (bd_of_words e) = hmac_sha256 H (drop 8 e)"
    using assms by (simp add: boot_data_digest_compute_def)
  moreover have "bd_digest (bd_of_words e) = take 8 e" "bd_identifier (bd_of_words e) = e ! 10"
    by (simp_all add: bd_of_words_def)
  ultimately show ?thesis
    by (simp add: boot_data_check_eq entry_valid_def)
qed

lemma check_cases: "boot_data_check H d = kErrorOk_value \<or> boot_data_check H d = kErrorBootDataInvalid"
  by (simp add: boot_data_check_eq)

definition found_at :: "flash_ctrl_info_page \<Rightarrow> u32 list \<Rightarrow> nat \<Rightarrow> active_page_info" where
  "found_at p ws i = \<lparr>ap_page = Some p,
     has_empty_entry = if first_empty ws 16 0 < 16 then kHardenedBoolTrue else kHardenedBoolFalse,
     first_empty_index = first_empty ws 16 0, has_valid_entry = kHardenedBoolTrue, last_valid_index = i\<rparr>"

definition other_page :: "flash_ctrl_info_page \<Rightarrow> flash_ctrl_info_page" where
  "other_page p = (if p = kFlashCtrlInfoPageBootData0 then kFlashCtrlInfoPageBootData1 else kFlashCtrlInfoPageBootData0)"

definition boot_page :: "flash_ctrl_info_page \<Rightarrow> bool" where
  "boot_page p \<longleftrightarrow> p = kFlashCtrlInfoPageBootData0 \<or> p = kFlashCtrlInfoPageBootData1"

text \<open>The entry with index \<open>k\<close> of page \<open>p\<close> is found, and is newer than what the other page has.\<close>

definition newest :: "(u32 list \<Rightarrow> u32 list) \<Rightarrow> (flash_ctrl_info_page \<Rightarrow> u32 list) \<Rightarrow> flash_ctrl_info_page \<Rightarrow> nat \<Rightarrow> bool" where
  "newest sha c p k \<longleftrightarrow> boot_page p \<and> page_scan sha (c p) = Some k \<and>
     (\<forall>j. page_scan sha (c (other_page p)) = Some j \<longrightarrow>
        counter_of (entry (c (other_page p)) j) < counter_of (entry (c p) k))"

lemma other_page_simps [simp]:
  "other_page kFlashCtrlInfoPageBootData0 = kFlashCtrlInfoPageBootData1"
  "other_page kFlashCtrlInfoPageBootData1 = kFlashCtrlInfoPageBootData0"
  by (simp_all add: other_page_def)

lemma boot_page_other [simp]: "boot_page (other_page p)" "boot_page p \<Longrightarrow> other_page p \<noteq> p" "boot_page p \<Longrightarrow> p \<noteq> other_page p"
  by (auto simp: boot_page_def other_page_def)

lemma hardened_distinct [simp]: "kHardenedBoolTrue \<noteq> kHardenedBoolFalse" "kHardenedBoolFalse \<noteq> kHardenedBoolTrue"
  by (simp_all add: kHardenedBoolTrue_def kHardenedBoolFalse_def)

section \<open>The storage interface\<close>

text \<open>
  What the search relies on: a read of a readable page within its bounds gives the words there and
  changes nothing, and setting permissions changes nothing else.
\<close>

locale info_storage =
  fixes H :: "'h boot_hw"
    and wf :: "'h \<Rightarrow> bool"
    and contents :: "'h \<Rightarrow> flash_ctrl_info_page \<Rightarrow> u32 list"
    and perms :: "'h \<Rightarrow> flash_ctrl_info_page \<Rightarrow> flash_ctrl_perms"
  assumes page_length: "wf h \<Longrightarrow> length (contents h p) = 512"
    and read: "wf h \<Longrightarrow> perm_read (perms h p) = kMultiBitBool4True \<Longrightarrow> k + n \<le> 512 \<Longrightarrow>
      info_read H p (of_nat (4 * k)) n h = (kErrorOk_value, take n (drop k (contents h p)), h)"
    and set_perms: "wf h \<Longrightarrow> wf (info_perms_set H p pm h)" "contents (info_perms_set H p pm h) = contents h"
      "perms (info_perms_set H p pm h) = (perms h)(p := pm)"
    and increment: "wf h \<Longrightarrow> wf (sec_mmio_write_increment H k h)"
      "contents (sec_mmio_write_increment H k h) = contents h" "perms (sec_mmio_write_increment H k h) = perms h"
begin

abbreviation sha :: "u32 list \<Rightarrow> u32 list" where "sha \<equiv> hmac_sha256 H"

definition readable :: "flash_ctrl_info_page \<Rightarrow> 'h \<Rightarrow> bool" where
  "readable p h \<longleftrightarrow> wf h \<and> perm_read (perms h p) = kMultiBitBool4True"

lemma sniff_eq:
  assumes "readable p h" "i < 16"
  shows "boot_data_sniff H p i h = (kErrorOk_value, sniffed (entry (contents h p) i), h)"
proof -
  have "info_read H p (of_nat (4 * (32 * i + 8))) 3 h =
      (kErrorOk_value, take 3 (drop (32 * i + 8) (contents h p)), h)"
    using assms by (intro read) (auto simp: readable_def)
  moreover have "4 * (32 * i + 8) = i * 128 + 32" by simp
  ultimately have "info_read H p (of_nat (i * 128 + 32)) 3 h =
      (kErrorOk_value, take 3 (drop (32 * i + 8) (contents h p)), h)" by metis
  then show ?thesis
    using assms page_length [of h p] by (simp add: boot_data_sniff_def sniffed_def nth_entry readable_def add.commute
        del: of_nat_add)
qed

lemma entry_read_eq:
  assumes "readable p h" "i < 16"
  shows "boot_data_entry_read H p i h = (kErrorOk_value, bd_of_words (entry (contents h p) i), h)"
proof -
  have "info_read H p (of_nat (4 * (32 * i))) 32 h = (kErrorOk_value, take 32 (drop (32 * i) (contents h p)), h)"
    using assms by (intro read) (auto simp: readable_def)
  moreover have "4 * (32 * i) = i * 128" by simp
  ultimately show ?thesis
    by (simp add: boot_data_entry_read_def kBootDataNumWords_def entry_def mult.commute)
qed

lemma find_empty_eq:
  assumes "readable p h" "i + n = 16" "length sr = i" "\<forall>j < i. sr ! j = sniffed (entry (contents h p) j)"
  shows "\<exists>sr'. find_empty H p n i sr h = Some (kErrorOk_value, sr',
      if first_empty (contents h p) n i < 16 then kHardenedBoolTrue else kHardenedBoolFalse,
      first_empty (contents h p) n i, h) \<and>
    (\<forall>j < first_empty (contents h p) n i. sr' ! j = sniffed (entry (contents h p) j))"
  using assms(2-)
proof (induction n arbitrary: i sr)
  case (Suc n)
  let ?e = "entry (contents h p) i"
  have len: "length ?e = 32" using Suc.prems(1) assms(1) by (simp add: readable_def page_length)
  have next_sr: "\<forall>j < Suc i. (sr @ [sniffed ?e]) ! j = sniffed (entry (contents h p) j)"
    using Suc.prems by (auto simp: nth_append less_Suc_eq)
  note ones = sniffed_empty [OF len]
  show ?case
    using Suc.prems next_sr ones assms(1) Suc.IH [of "Suc i" "sr @ [sniffed ?e]"]
    by (auto simp: sniff_eq entry_read_eq boot_data_is_empty_words len Let_def nth_append)
qed simp

lemma find_valid_eq:
  assumes "readable p h" "i \<le> 16" "\<forall>j < i. sr ! j = sniffed (entry (contents h p) j)"
  shows "find_valid H p i sr h = Some (kErrorOk_value,
    map_option (\<lambda>k. (k, bd_of_words (entry (contents h p) k))) (last_valid sha (contents h p) i), h)"
  using assms(2,3)
proof (induction i)
  case (Suc i)
  have len: "length (entry (contents h p) i) = 32" using Suc.prems(1) assms(1) by (simp add: readable_def page_length)
  have "kErrorBootDataInvalid \<noteq> kErrorOk_value" by code_simp
  then show ?case
    using Suc check_words [OF len, of H] check_cases [of H "bd_of_words (entry (contents h p) i)"] assms(1)
    by (auto simp: entry_read_eq Let_def)
qed simp

definition closed :: "flash_ctrl_info_page \<Rightarrow> 'h \<Rightarrow> 'h" where
  "closed p h = sec_mmio_write_increment H 2 (info_perms_set H p no_perms (info_perms_set H p
     \<lparr>perm_read = kMultiBitBool4True, perm_write = kMultiBitBool4False, perm_erase = kMultiBitBool4False\<rparr> h))"

lemma closed_simps [simp]:
  "wf h \<Longrightarrow> wf (closed p h)" "contents (closed p h) = contents h" "perms (closed p h) = (perms h)(p := no_perms)"
  by (simp_all add: closed_def set_perms increment)

lemma page_info_update_eq:
  assumes "wf h" "has_valid_entry pi \<in> {kHardenedBoolTrue, kHardenedBoolFalse}"
  shows "boot_data_page_info_update H p pi bd h =
    (case page_scan sha (contents h p) of
       None \<Rightarrow> Some (kErrorOk_value, pi, bd, closed p h)
     | Some i \<Rightarrow>
         let e = entry (contents h p) i in
         if has_valid_entry pi = kHardenedBoolFalse \<or> counter_of e > bd_counter bd
         then Some (kErrorOk_value, found_at p (contents h p) i, bd_of_words e, closed p h)
         else if counter_of e < bd_counter bd then Some (kErrorOk_value, pi, bd, closed p h)
         else None)"
proof -
  define h1 where "h1 = info_perms_set H p
     \<lparr>perm_read = kMultiBitBool4True, perm_write = kMultiBitBool4False, perm_erase = kMultiBitBool4False\<rparr> h"
  have h1: "readable p h1" "contents h1 = contents h"
    using assms(1) by (simp_all add: h1_def readable_def set_perms)
  have closed: "sec_mmio_write_increment H 2 (info_perms_set H p no_perms h1) = closed p h"
    by (simp add: h1_def closed_def)
  obtain sr where sr: "find_empty H p 16 0 [] h1 = Some (kErrorOk_value, sr,
      if first_empty (contents h p) 16 0 < 16 then kHardenedBoolTrue else kHardenedBoolFalse,
      first_empty (contents h p) 16 0, h1)"
    "\<forall>j < first_empty (contents h p) 16 0. sr ! j = sniffed (entry (contents h p) j)"
    using find_empty_eq [OF h1(1), of 0 16 "[]"] by (auto simp: h1(2))
  have "find_valid H p (first_empty (contents h p) 16 0) sr h1 = Some (kErrorOk_value,
      map_option (\<lambda>k. (k, bd_of_words (entry (contents h p) k))) (page_scan sha (contents h p)), h1)"
    unfolding page_scan_def using find_valid_eq [OF h1(1)] first_empty_bounds [of 0 "contents h p" 16] sr(2) by (simp add: h1(2))
  with sr(1) assms(2) closed show ?thesis
    unfolding boot_data_page_info_update_def boot_data_page_info_update_impl_def h1_def [symmetric]
    by (auto simp: kBootDataEntriesPerPage_def kFlashCtrlSecMmioInfoPermsSet_def Let_def found_at_def split: option.splits)
qed

definition after_search :: "'h \<Rightarrow> 'h" where
  "after_search h = closed kFlashCtrlInfoPageBootData1 (closed kFlashCtrlInfoPageBootData0 h)"

lemma after_search_simps [simp]:
  "wf h \<Longrightarrow> wf (after_search h)" "contents (after_search h) = contents h"
  "perms (after_search h) = (perms h)(kFlashCtrlInfoPageBootData0 := no_perms, kFlashCtrlInfoPageBootData1 := no_perms)"
  by (simp_all add: after_search_def)

lemma find_newest:
  assumes "wf h" "newest sha (contents h) p k"
  shows "boot_data_active_page_find H bd h = Some (kErrorOk_value, found_at p (contents h p) k,
    bd_of_words (entry (contents h p) k), after_search h)"
proof -
  consider "p = kFlashCtrlInfoPageBootData0" | "p = kFlashCtrlInfoPageBootData1"
    using assms(2) by (auto simp: newest_def boot_page_def)
  then show ?thesis
  proof cases
    case 1
    then show ?thesis
      using assms by (auto simp: boot_data_active_page_find_def page_info_update_eq newest_def found_at_def
          after_search_def Let_def split: option.splits)
  next
    case 2
    then show ?thesis
      using assms by (auto simp: boot_data_active_page_find_def page_info_update_eq newest_def found_at_def
          after_search_def Let_def split: option.splits)
  qed
qed

lemma find_nothing:
  assumes "wf h" "page_scan sha (contents h kFlashCtrlInfoPageBootData0) = None"
    "page_scan sha (contents h kFlashCtrlInfoPageBootData1) = None"
  shows "\<exists>pi. boot_data_active_page_find H bd h = Some (kErrorOk_value, pi, bd, after_search h) \<and>
    has_valid_entry pi = kHardenedBoolFalse"
  using assms by (simp add: boot_data_active_page_find_def page_info_update_eq after_search_def)

lemma find_clash:
  assumes "wf h" "page_scan sha (contents h kFlashCtrlInfoPageBootData0) = Some i"
    "page_scan sha (contents h kFlashCtrlInfoPageBootData1) = Some j"
    "counter_of (entry (contents h kFlashCtrlInfoPageBootData0) i) =
     counter_of (entry (contents h kFlashCtrlInfoPageBootData1) j)"
  shows "boot_data_active_page_find H bd h = None"
  using assms by (simp add: boot_data_active_page_find_def page_info_update_eq found_at_def Let_def)

lemma read_newest:
  assumes "wf h" "newest sha (contents h) p k"
  shows "boot_data_read H lc bd h = (case boot_data_as_v2 H (bd_of_words (entry (contents h p) k)) of
    None \<Rightarrow> None | Some (e, d) \<Rightarrow> Some (e, d, after_search h))"
  using find_newest [OF assms, of bd] by (auto simp: boot_data_read_def found_at_def split: option.splits)

lemma read_nothing:
  assumes "wf h" "page_scan sha (contents h kFlashCtrlInfoPageBootData0) = None"
    "page_scan sha (contents h kFlashCtrlInfoPageBootData1) = None"
  shows "boot_data_read H lc bd h = (case boot_data_default_get H lc bd of
    None \<Rightarrow> None | Some (e, d) \<Rightarrow> Some (e, d, after_search h))"
  using find_nothing [OF assms, of bd] by (auto simp: boot_data_read_def split: option.splits)

end

end
