(* ===== verification/Boot_Flash.thy ===== *)
theory Boot_Flash
  imports Boot_Store
begin

unbundle bit_operations_syntax

text \<open>
  A flash that may lose power, as provider of the storage interface, and the updates of the boot data
  on it. Programming clears bits, erasing sets all bits of a page, and both need the permission.
  \<open>pf_power\<close> is 0 when the power is off (then nothing is changed any more, whatever the code goes on to
  do), 1 when it fails during the next word program or page erase, and otherwise one more than
  the operations that still complete. The word or the page that is hit has arbitrary contents
  afterwards (\<open>pf_torn_word\<close>, \<open>pf_torn_page\<close>). The two last fields count the security-critical
  register writes made and announced.
\<close>

section \<open>The flash\<close>

record power_flash =
  pf_page :: "flash_ctrl_info_page \<Rightarrow> u32 list"
  pf_perms :: "flash_ctrl_info_page \<Rightarrow> flash_ctrl_perms"
  pf_power :: nat
  pf_torn_word :: u32
  pf_torn_page :: "u32 list"
  pf_sec_writes :: nat
  pf_sec_announced :: nat

definition pf_wf :: "power_flash \<Rightarrow> bool" where
  "pf_wf s \<longleftrightarrow> (\<forall>p. length (pf_page s p) = 512) \<and> length (pf_torn_page s) = 512"

definition pf_read :: "flash_ctrl_info_page \<Rightarrow> u32 \<Rightarrow> nat \<Rightarrow> power_flash \<Rightarrow> u32 \<times> u32 list \<times> power_flash" where
  "pf_read p offset n s =
     (let k = unat offset div 4 in
      if perm_read (pf_perms s p) = kMultiBitBool4True \<and> k + n \<le> 512
      then (kErrorOk_value, take n (drop k (pf_page s p)), s)
      else (kErrorFlashCtrlInfoRead, replicate n kFlashCtrlErasedWord, s))"

definition program_word :: "flash_ctrl_info_page \<Rightarrow> nat \<Rightarrow> u32 \<Rightarrow> power_flash \<Rightarrow> power_flash" where
  "program_word p k w s =
     (if pf_power s = 0 then s
      else s\<lparr>pf_page := (pf_page s)(p := (pf_page s p)[k := if pf_power s = 1 then pf_torn_word s else pf_page s p ! k AND w]),
             pf_power := pf_power s - 1\<rparr>)"

fun program_words :: "flash_ctrl_info_page \<Rightarrow> nat \<Rightarrow> u32 list \<Rightarrow> power_flash \<Rightarrow> power_flash" where
  "program_words p k [] s = s"
| "program_words p k (w # ws) s = program_words p (Suc k) ws (program_word p k w s)"

definition pf_write :: "flash_ctrl_info_page \<Rightarrow> u32 \<Rightarrow> u32 list \<Rightarrow> power_flash \<Rightarrow> u32 \<times> power_flash" where
  "pf_write p offset ws s =
     (let k = unat offset div 4 in
      if perm_write (pf_perms s p) = kMultiBitBool4True \<and> k + length ws \<le> 512
      then (kErrorOk_value, program_words p k ws s) else (kErrorFlashCtrlInfoWrite, s))"

definition pf_erase :: "flash_ctrl_info_page \<Rightarrow> power_flash \<Rightarrow> u32 \<times> power_flash" where
  "pf_erase p s =
     (if perm_erase (pf_perms s p) \<noteq> kMultiBitBool4True then (kErrorFlashCtrlInfoErase, s)
      else if pf_power s = 0 then (kErrorOk_value, s)
      else (kErrorOk_value,
        s\<lparr>pf_page := (pf_page s)(p := if pf_power s = 1 then pf_torn_page s else replicate 512 kFlashCtrlErasedWord),
          pf_power := pf_power s - 1\<rparr>))"

definition pf_perms_set :: "flash_ctrl_info_page \<Rightarrow> flash_ctrl_perms \<Rightarrow> power_flash \<Rightarrow> power_flash" where
  "pf_perms_set p pm s = s\<lparr>pf_perms := (pf_perms s)(p := pm), pf_sec_writes := Suc (pf_sec_writes s)\<rparr>"

definition pf_increment :: "nat \<Rightarrow> power_flash \<Rightarrow> power_flash" where
  "pf_increment k s = s\<lparr>pf_sec_announced := pf_sec_announced s + k\<rparr>"

text \<open>A board: the hash, the OTP and its three addresses.\<close>

record board =
  board_sha :: "u32 list \<Rightarrow> u32 list"
  board_otp :: "u32 \<Rightarrow> u32"
  board_prod_en :: u32
  board_rom_ext :: u32
  board_bl0 :: u32

definition power_hw :: "board \<Rightarrow> power_flash boot_hw" where
  "power_hw B = \<lparr>info_read = pf_read, info_write = pf_write, info_erase_page = pf_erase, info_perms_set = pf_perms_set,
     sec_mmio_write_increment = pf_increment, hmac_sha256 = board_sha B, otp_read32 = board_otp B,
     otp_DEFAULT_BOOT_DATA_IN_PROD_EN = board_prod_en B, otp_MIN_SEC_VER_ROM_EXT = board_rom_ext B,
     otp_MIN_SEC_VER_BL0 = board_bl0 B\<rparr>"

lemma power_hw_simps [simp]:
  "info_read (power_hw B) = pf_read" "info_write (power_hw B) = pf_write" "info_erase_page (power_hw B) = pf_erase"
  "info_perms_set (power_hw B) = pf_perms_set" "sec_mmio_write_increment (power_hw B) = pf_increment"
  "hmac_sha256 (power_hw B) = board_sha B" "otp_read32 (power_hw B) = board_otp B"
  by (simp_all add: power_hw_def)

lemma word_offset:
  assumes "k \<le> 512"
  shows "unat (of_nat (4 * k) :: u32) div 4 = k"
proof -
  have "4 * k < 2 ^ 32" using assms by simp
  then show ?thesis by (simp add: unsigned_of_nat take_bit_nat_eq_self del: of_nat_mult)
qed

interpretation pf: info_storage "power_hw B" pf_wf pf_page pf_perms for B
proof
  show "info_read (power_hw B) p (of_nat (4 * k)) n h = (kErrorOk_value, take n (drop k (pf_page h p)), h)"
    if "perm_read (pf_perms h p) = kMultiBitBool4True" "k + n \<le> 512" for h p k n
    using that by (simp add: pf_read_def word_offset Let_def del: of_nat_mult)
qed (simp_all add: pf_wf_def pf_perms_set_def pf_increment_def)

section \<open>Programming an entry\<close>

definition put_entry :: "u32 list \<Rightarrow> nat \<Rightarrow> u32 list \<Rightarrow> u32 list" where
  "put_entry ws i e = take (32 * i) ws @ e @ drop (32 * i + 32) ws"

lemma length_put_entry [simp]: "length ws = 512 \<Longrightarrow> length e = 32 \<Longrightarrow> i < 16 \<Longrightarrow> length (put_entry ws i e) = 512"
  by (simp add: put_entry_def)

lemma nth_put_entry:
  "length ws = 512 \<Longrightarrow> length e = 32 \<Longrightarrow> i < 16 \<Longrightarrow> k < 512 \<Longrightarrow>
   put_entry ws i e ! k = (if 32 * i \<le> k \<and> k < 32 * i + 32 then e ! (k - 32 * i) else ws ! k)"
  by (auto simp: put_entry_def nth_append)

lemma entry_put_entry:
  assumes "length ws = 512" "length e = 32" "i < 16" "j < 16"
  shows "entry (put_entry ws i e) j = (if i = j then e else entry ws j)"
  using assms by (intro nth_equalityI) (auto simp: nth_entry nth_put_entry)

lemma program_words_frame [simp]:
  "pf_perms (program_words p k ws s) = pf_perms s" "pf_torn_word (program_words p k ws s) = pf_torn_word s"
  "pf_torn_page (program_words p k ws s) = pf_torn_page s" "pf_power (program_words p k ws s) = pf_power s - length ws"
  "q \<noteq> p \<Longrightarrow> pf_page (program_words p k ws s) q = pf_page s q"
  "length (pf_page (program_words p k ws s) q) = length (pf_page s q)"
  "pf_sec_writes (program_words p k ws s) = pf_sec_writes s"
  "pf_sec_announced (program_words p k ws s) = pf_sec_announced s"
  by (induction ws arbitrary: k s) (simp_all add: program_word_def)

lemma program_word_simps:
  "length (pf_page (program_word p k w s) p) = length (pf_page s p)"
  "pf_power (program_word p k w s) = pf_power s - 1" "pf_torn_word (program_word p k w s) = pf_torn_word s"
  "k < length (pf_page s p) \<Longrightarrow> pf_page (program_word p k w s) p ! j =
     (if j = k \<and> 0 < pf_power s then if pf_power s = 1 then pf_torn_word s else pf_page s p ! k AND w
      else pf_page s p ! j)"
  by (auto simp: program_word_def)

lemma nth_program_words:
  assumes "k + length ws \<le> length (pf_page s p)" "j < length (pf_page s p)"
  shows "pf_page (program_words p k ws s) p ! j =
    (if k \<le> j \<and> j < k + length ws then
       if Suc (j - k) < pf_power s then pf_page s p ! j AND ws ! (j - k)
       else if Suc (j - k) = pf_power s then pf_torn_word s else pf_page s p ! j
     else pf_page s p ! j)"
  using assms
proof (induction ws arbitrary: k s)
  case (Cons w ws)
  then have k: "k < length (pf_page s p)" by simp
  note IH = Cons.IH [of "Suc k" "program_word p k w s"]
  consider "j < k" | "j = k" | "k < j" by linarith
  then show ?case
  proof cases
    case 3
    then obtain d where "j = Suc k + d" using less_iff_Suc_add by auto
    then show ?thesis using IH Cons.prems k by (simp add: program_word_simps) linarith
  qed (use IH Cons.prems k in \<open>auto simp: program_word_simps\<close>)
qed auto

text \<open>
  What an empty entry holds after the two write transactions: the words before the power failure,
  the torn word, and erased words; the field \<open>is_valid\<close> is skipped.
\<close>

definition partial_entry :: "nat \<Rightarrow> u32 \<Rightarrow> u32 list \<Rightarrow> u32 list" where
  "partial_entry n torn e = map (\<lambda>i. if i = 8 \<or> i = 9 then kFlashCtrlErasedWord else
     let pos = if i < 8 then i else i - 2 in
     if Suc pos < n then e ! i else if Suc pos = n then torn else kFlashCtrlErasedWord) [0..<32]"

lemma length_partial_entry [simp]: "length (partial_entry n torn e) = 32"
  by (simp add: partial_entry_def)

definition program_entry :: "flash_ctrl_info_page \<Rightarrow> nat \<Rightarrow> u32 list \<Rightarrow> power_flash \<Rightarrow> power_flash" where
  "program_entry p i e s = program_words p (32 * i + 10) (drop 10 e) (program_words p (32 * i) (take 8 e) s)"

lemma program_entry_frame [simp]:
  assumes "length e = 32"
  shows "pf_perms (program_entry p i e s) = pf_perms s" "pf_torn_word (program_entry p i e s) = pf_torn_word s"
    "pf_torn_page (program_entry p i e s) = pf_torn_page s" "pf_power (program_entry p i e s) = pf_power s - 30"
    "q \<noteq> p \<Longrightarrow> pf_page (program_entry p i e s) q = pf_page s q"
    "length (pf_page (program_entry p i e s) q) = length (pf_page s q)"
    "pf_sec_writes (program_entry p i e s) = pf_sec_writes s"
    "pf_sec_announced (program_entry p i e s) = pf_sec_announced s"
  using assms by (simp_all add: program_entry_def)

lemma program_entry_page:
  assumes "length (pf_page s p) = 512" "i < 16" "length e = 32" "entry_empty (entry (pf_page s p) i)"
  shows "pf_page (program_entry p i e s) p = put_entry (pf_page s p) i (partial_entry (pf_power s) (pf_torn_word s) e)"
proof (intro nth_equalityI)
  fix j assume "j < length (pf_page (program_entry p i e s) p)"
  with assms have j: "j < 512" by simp
  have ones: "pf_page s p ! j = - 1" if "32 * i \<le> j" "j < 32 * i + 32"
  proof -
    have "entry (pf_page s p) i ! (j - 32 * i) = kFlashCtrlErasedWord"
      using assms that by (simp add: entry_empty_def)
    then show ?thesis using assms that by (simp add: nth_entry erased_eq)
  qed
  consider "j < 32 * i" | "32 * i + 32 \<le> j" | d where "j = 32 * i + d" "d < 32"
    by (metis add_less_cancel_left le_add_diff_inverse not_le)
  then show "pf_page (program_entry p i e s) p ! j =
      put_entry (pf_page s p) i (partial_entry (pf_power s) (pf_torn_word s) e) ! j"
  proof cases
    case 3
    consider "d < 8" | "d = 8 \<or> d = 9" | m where "d = m + 10" 
      using le_Suc_ex [of 10 d] by (cases "10 \<le> d") (auto simp: add.commute, linarith)
    then show ?thesis
      using assms(1-3) j 3 ones
      by cases (auto simp: program_entry_def nth_program_words nth_put_entry partial_entry_def erased_eq add.commute [of 10])
  qed (use assms(1-3) j in \<open>simp_all add: program_entry_def nth_program_words nth_put_entry\<close>)
qed (use assms in simp)

section \<open>Writing and invalidating on the flash\<close>

definition erased :: "flash_ctrl_info_page \<Rightarrow> u32 \<Rightarrow> power_flash \<Rightarrow> power_flash" where
  "erased p erase s =
     (if erase = kHardenedBoolTrue \<and> pf_power s \<noteq> 0 then
        s\<lparr>pf_page := (pf_page s)(p := if pf_power s = 1 then pf_torn_page s else replicate 512 kFlashCtrlErasedWord),
          pf_power := pf_power s - 1\<rparr>
      else s)"

lemma erased_frame [simp]:
  "pf_perms (erased p er s) = pf_perms s" "pf_torn_word (erased p er s) = pf_torn_word s"
  "pf_torn_page (erased p er s) = pf_torn_page s" "q \<noteq> p \<Longrightarrow> pf_page (erased p er s) q = pf_page s q"
  "pf_wf s \<Longrightarrow> length (pf_page (erased p er s) q) = 512"
  by (simp_all add: erased_def pf_wf_def)

definition entry_store :: "flash_ctrl_info_page \<Rightarrow> nat \<Rightarrow> boot_data \<Rightarrow> u32 \<Rightarrow> power_flash \<Rightarrow> power_flash" where
  "entry_store p i d erase s = program_entry p i (bd_words d) (erased p erase s)"

lemma pf_write_at:
  assumes "k + length ws \<le> 512" "perm_write (pf_perms s p) = kMultiBitBool4True"
  shows "pf_write p (of_nat (4 * k)) ws s = (kErrorOk_value, program_words p k ws s)"
  using assms by (simp add: pf_write_def word_offset Let_def del: of_nat_mult)

lemma pf_read_at:
  assumes "k + n \<le> 512" "perm_read (pf_perms s p) = kMultiBitBool4True"
  shows "pf_read p (of_nat (4 * k)) n s = (kErrorOk_value, take n (drop k (pf_page s p)), s)"
  using assms by (simp add: pf_read_def word_offset Let_def del: of_nat_mult)

lemma entry_write_impl:
  assumes "bd_wf d" "i < 16" "perm_read (pf_perms s p) = kMultiBitBool4True"
    "perm_write (pf_perms s p) = kMultiBitBool4True"
    "erase = kHardenedBoolTrue \<Longrightarrow> perm_erase (pf_perms s p) = kMultiBitBool4True"
  shows "boot_data_entry_write_impl (power_hw B) p i d erase s =
    (if entry (pf_page (entry_store p i d erase s) p) i = bd_words d then kErrorOk_value else kErrorBootDataWriteCheck,
     entry_store p i d erase s)"
proof -
  let ?s = "erased p erase s"
  let ?t = "program_words p (32 * i) (take 8 (bd_words d)) ?s"
  have e: "(if erase = kHardenedBoolTrue then pf_erase p s else (kErrorOk_value, s)) = (kErrorOk_value, ?s)"
    using assms(5) by (simp add: pf_erase_def erased_def)
  have off: "word_of_nat (i * 128) = (word_of_nat (4 * (32 * i)) :: u32)"
    "word_of_nat (i * 128) + 40 = (word_of_nat (4 * (32 * i + 10)) :: u32)"
    by (simp_all add: algebra_simps)
  have "pf_write p (word_of_nat (i * 128)) (take 8 (bd_words d)) ?s = (kErrorOk_value, ?t)"
    unfolding off(1) using assms by (intro pf_write_at) simp_all
  moreover have "pf_write p (word_of_nat (i * 128) + 40) (drop 10 (bd_words d)) ?t =
      (kErrorOk_value, entry_store p i d erase s)"
    unfolding off(2) entry_store_def program_entry_def using assms by (intro pf_write_at) simp_all
  moreover have "pf_read p (word_of_nat (i * 128)) kBootDataNumWords (entry_store p i d erase s) =
      (kErrorOk_value, entry (pf_page (entry_store p i d erase s) p) i, entry_store p i d erase s)"
    unfolding off(1) entry_def kBootDataNumWords_def
    using assms by (intro pf_read_at) (simp_all add: entry_store_def)
  ultimately show ?thesis
    unfolding boot_data_entry_write_impl_def power_hw_simps Let_def e by (simp del: of_nat_mult)
qed

lemma pf_perms_set_simps [simp]:
  "pf_page (pf_perms_set p pm s) = pf_page s" "pf_power (pf_perms_set p pm s) = pf_power s"
  "pf_torn_word (pf_perms_set p pm s) = pf_torn_word s" "pf_torn_page (pf_perms_set p pm s) = pf_torn_page s"
  "pf_perms (pf_perms_set p pm s) = (pf_perms s)(p := pm)" "pf_wf (pf_perms_set p pm s) = pf_wf s"
  "pf_page (pf_increment k s) = pf_page s" "pf_power (pf_increment k s) = pf_power s"
  "pf_torn_word (pf_increment k s) = pf_torn_word s" "pf_torn_page (pf_increment k s) = pf_torn_page s"
  "pf_perms (pf_increment k s) = pf_perms s" "pf_wf (pf_increment k s) = pf_wf s"
  by (simp_all add: pf_perms_set_def pf_increment_def pf_wf_def)

text \<open>The page after an entry was written, by the power left before.\<close>

definition stored_page :: "u32 list \<Rightarrow> nat \<Rightarrow> u32 list \<Rightarrow> u32 \<Rightarrow> nat \<Rightarrow> u32 \<Rightarrow> u32 list \<Rightarrow> u32 list" where
  "stored_page ws i e erase n torn torn_page =
     (if erase = kHardenedBoolTrue then
        if n = 0 then ws else if n = 1 then torn_page
        else put_entry (replicate 512 kFlashCtrlErasedWord) i (partial_entry (n - 1) torn e)
      else put_entry ws i (partial_entry n torn e))"

lemma program_words_frozen: "pf_power s = 0 \<Longrightarrow> program_words p k ws s = s"
  by (induction ws arbitrary: k) (simp_all add: program_word_def)

lemma entry_store_page:
  assumes "pf_wf s" "bd_wf d" "i < 16" "erase = kHardenedBoolTrue \<or> entry_empty (entry (pf_page s p) i)"
  shows "pf_page (entry_store p i d erase s) =
    (pf_page s)(p := stored_page (pf_page s p) i (bd_words d) erase (pf_power s) (pf_torn_word s) (pf_torn_page s))"
proof
  fix q
  show "pf_page (entry_store p i d erase s) q =
      ((pf_page s)(p := stored_page (pf_page s p) i (bd_words d) erase (pf_power s) (pf_torn_word s) (pf_torn_page s))) q"
  proof (cases "q = p")
    case True
    have len: "length (pf_page s p) = 512" using assms(1) by (simp add: pf_wf_def)
    have ones: "entry_empty (entry (replicate 512 kFlashCtrlErasedWord) i)"
      by (auto simp: entry_empty_def entry_def dest: in_set_takeD in_set_dropD)
    show ?thesis
    proof (cases "erase = kHardenedBoolTrue")
      case er: True
      show ?thesis
      proof (cases "pf_power s \<le> 1")
        case True
        then show ?thesis
          using \<open>q = p\<close> er by (auto simp: entry_store_def erased_def stored_page_def program_entry_def program_words_frozen le_Suc_eq)
      next
        case False
        let ?t = "erased p erase s"
        have "pf_page (program_entry p i (bd_words d) ?t) p =
            put_entry (pf_page ?t p) i (partial_entry (pf_power ?t) (pf_torn_word ?t) (bd_words d))"
          using assms False er ones by (intro program_entry_page) (simp_all add: erased_def)
        then show ?thesis
          using \<open>q = p\<close> False er by (simp add: entry_store_def erased_def stored_page_def)
      qed
    next
      case False
      then show ?thesis
        using \<open>q = p\<close> program_entry_page [OF len assms(3)] assms by (simp add: entry_store_def erased_def stored_page_def)
    qed
  qed (use assms in \<open>simp add: entry_store_def\<close>)
qed

definition ops_of :: "u32 \<Rightarrow> nat" where
  "ops_of erase = (if erase = kHardenedBoolTrue then 31 else 30)"

lemma length_stored_page:
  "length ws = 512 \<Longrightarrow> length e = 32 \<Longrightarrow> i < 16 \<Longrightarrow> length tp = 512 \<Longrightarrow> length (stored_page ws i e er n x tp) = 512"
  by (simp add: stored_page_def)

lemma entry_write_eq:
  assumes "pf_wf s" "bd_wf d" "i < 16" "erase = kHardenedBoolTrue \<or> entry_empty (entry (pf_page s p) i)"
  defines "ws \<equiv> stored_page (pf_page s p) i (bd_words d) erase (pf_power s) (pf_torn_word s) (pf_torn_page s)"
  shows "\<exists>s'. boot_data_entry_write (power_hw B) p i d erase s =
      (if entry ws i = bd_words d then kErrorOk_value else kErrorBootDataWriteCheck, s') \<and>
    pf_page s' = (pf_page s)(p := ws) \<and> pf_wf s' \<and> pf_power s' = pf_power s - ops_of erase \<and>
    pf_torn_word s' = pf_torn_word s \<and> pf_torn_page s' = pf_torn_page s"
proof -
  define s1 where "s1 = pf_perms_set p \<lparr>perm_read = kMultiBitBool4True, perm_write = kMultiBitBool4True,
            perm_erase = if erase = kHardenedBoolTrue then kMultiBitBool4True else kMultiBitBool4False\<rparr> s"
  let ?t = "entry_store p i d erase s1"
  have page: "pf_page ?t = (pf_page s)(p := ws)"
    using entry_store_page [of s1 d i erase p] assms by (simp add: s1_def ws_def)
  have len: "\<And>q. length (pf_page s q) = 512" "length (pf_torn_page s) = 512"
    using assms(1) by (simp_all add: pf_wf_def)
  then have "pf_wf ?t"
    using assms(1-3) length_stored_page [of "pf_page s p" "bd_words d" i]
    unfolding pf_wf_def page by (simp add: entry_store_def s1_def ws_def)
  moreover have "boot_data_entry_write_impl (power_hw B) p i d erase s1 =
      (if entry ws i = bd_words d then kErrorOk_value else kErrorBootDataWriteCheck, ?t)"
    using entry_write_impl [of d i s1 p erase B] assms(2,3) by (simp add: page) (simp add: s1_def)
  ultimately show ?thesis
    using assms(2) page unfolding boot_data_entry_write_def power_hw_simps s1_def [symmetric] Let_def
    by (simp add: entry_store_def ops_of_def) (simp add: s1_def erased_def)
qed

end
