(* ===== verification/Boot_Update.thy ===== *)
theory Boot_Update
  imports Boot_Flash
begin

unbundle bit_operations_syntax

text \<open>
  Updates of the boot data on the flash that may lose power: the invariant \<open>stored\<close>, and the
  properties of \<open>boot_data_read\<close> and \<open>boot_data_write\<close>.
\<close>

section \<open>The invariant\<close>

text \<open>
  The entry with index \<open>k\<close> of page \<open>p\<close> is valid, no entry before it in its page is empty, no valid
  entry follows it in its page, and every other valid entry has a smaller counter.
\<close>

definition stored :: "(u32 list \<Rightarrow> u32 list) \<Rightarrow> (flash_ctrl_info_page \<Rightarrow> u32 list) \<Rightarrow> flash_ctrl_info_page \<Rightarrow> nat \<Rightarrow> bool" where
  "stored sha c p k \<longleftrightarrow> boot_page p \<and> k < 16 \<and> entry_valid sha (entry (c p) k) \<and>
     (\<forall>j < k. \<not> entry_empty (entry (c p) j)) \<and> (\<forall>j < 16. entry_valid sha (entry (c p) j) \<longrightarrow> j \<le> k) \<and>
     (\<forall>q j. boot_page q \<and> j < 16 \<and> (q, j) \<noteq> (p, k) \<and> entry_valid sha (entry (c q) j) \<longrightarrow>
        counter_of (entry (c q) j) < counter_of (entry (c p) k))"

lemma storedI:
  assumes "boot_page p" "k < 16" "entry_valid sha (entry (c p) k)"
    "\<And>j. j < k \<Longrightarrow> \<not> entry_empty (entry (c p) j)"
    "\<And>j. j < 16 \<Longrightarrow> entry_valid sha (entry (c p) j) \<Longrightarrow> j \<le> k"
    "\<And>q j. boot_page q \<Longrightarrow> j < 16 \<Longrightarrow> entry_valid sha (entry (c q) j) \<Longrightarrow> q = p \<Longrightarrow> j \<noteq> k \<Longrightarrow>
       counter_of (entry (c q) j) < counter_of (entry (c p) k)"
    "\<And>q j. boot_page q \<Longrightarrow> j < 16 \<Longrightarrow> entry_valid sha (entry (c q) j) \<Longrightarrow> q \<noteq> p \<Longrightarrow>
       counter_of (entry (c q) j) < counter_of (entry (c p) k)"
  shows "stored sha c p k"
  using assms unfolding stored_def by blast

lemma storedD:
  assumes "stored sha c p k"
  shows "boot_page p" "k < 16" "entry_valid sha (entry (c p) k)"
    "j < k \<Longrightarrow> \<not> entry_empty (entry (c p) j)"
    "j < 16 \<Longrightarrow> entry_valid sha (entry (c p) j) \<Longrightarrow> j \<le> k"
    "boot_page q \<Longrightarrow> j < 16 \<Longrightarrow> entry_valid sha (entry (c q) j) \<Longrightarrow> q \<noteq> p \<Longrightarrow>
       counter_of (entry (c q) j) < counter_of (entry (c p) k)"
    "j < 16 \<Longrightarrow> entry_valid sha (entry (c p) j) \<Longrightarrow> j \<noteq> k \<Longrightarrow>
       counter_of (entry (c p) j) < counter_of (entry (c p) k)"
  using assms unfolding stored_def by blast+

text \<open>No entry is valid.\<close>

definition blank :: "(u32 list \<Rightarrow> u32 list) \<Rightarrow> (flash_ctrl_info_page \<Rightarrow> u32 list) \<Rightarrow> bool" where
  "blank sha c \<longleftrightarrow> (\<forall>q j. boot_page q \<and> j < 16 \<longrightarrow> \<not> entry_valid sha (entry (c q) j))"

lemma page_scan_Some:
  "page_scan sha ws = Some i \<Longrightarrow> i < 16 \<and> entry_valid sha (entry ws i)"
  using first_empty_bounds [of 0 ws 16] by (auto simp: page_scan_def last_valid_Some)

lemma page_scan_blank: "blank sha c \<Longrightarrow> boot_page q \<Longrightarrow> page_scan sha (c q) = None"
  using page_scan_Some [of sha "c q"] by (cases "page_scan sha (c q)") (auto simp: blank_def)

lemma first_empty_after:
  assumes "length ws = 512" "k < 16" "entry_valid sha (entry ws k)" "\<forall>j < k. \<not> entry_empty (entry ws j)"
  shows "k < first_empty ws 16 0"
proof (rule ccontr)
  let ?i = "first_empty ws 16 0"
  assume "\<not> k < ?i"
  then have "?i \<le> k" "entry_empty (entry ws ?i)"
    using first_empty_at [of ws 16 0] assms(2) by simp_all
  with assms(3,4) valid_not_empty [of "entry ws k" sha] show False
    using assms(1,2) by (cases "?i = k") auto
qed

lemma stored_newest:
  assumes "stored sha c p k" "length (c p) = 512"
  shows "newest sha c p k"
proof -
  have "k < first_empty (c p) 16 0"
    using storedD(2-4) [OF assms(1)] assms(2) by (intro first_empty_after) auto
  moreover have "\<not> entry_valid sha (entry (c p) j)" if "k < j" "j < first_empty (c p) 16 0" for j
    using storedD(5) [OF assms(1), of j] that first_empty_bounds [of 0 "c p" 16] by auto
  ultimately have "page_scan sha (c p) = Some k"
    using storedD(3) [OF assms(1)] by (auto simp: page_scan_def last_valid_Some)
  moreover have "counter_of (entry (c (other_page p)) j) < counter_of (entry (c p) k)"
    if "page_scan sha (c (other_page p)) = Some j" for j
    using assms(1) page_scan_Some [OF that] by (simp add: stored_def)
  ultimately show ?thesis
    using assms(1) by (simp add: newest_def stored_def)
qed

lemma stored_put_invalid:
  assumes "stored sha c p k" "length (c q) = 512" "length e = 32" "i < 16" "\<not> entry_valid sha e" "(q, i) \<noteq> (p, k)"
    "q = p \<Longrightarrow> i < k \<Longrightarrow> \<not> entry_empty e"
  shows "stored sha (c(q := put_entry (c q) i e)) p k"
  using storedD [OF assms(1)] assms(2-)
  by (intro storedI) (auto simp: entry_put_entry split: if_splits)

lemma stored_put_valid:
  assumes "stored sha c p k" "length (c p) = 512" "length e = 32" "i < 16" "k < i" "entry_valid sha e"
    "\<forall>j < i. \<not> entry_empty (entry (c p) j)" "counter_of (entry (c p) k) < counter_of e"
  shows "stored sha (c(p := put_entry (c p) i e)) p i"
proof (rule storedI)
  let ?c = "c(p := put_entry (c p) i e)"
  show "counter_of (entry (?c q) j) < counter_of (entry (?c p) i)"
    if "boot_page q" "j < 16" "entry_valid sha (entry (?c q) j)" "q = p" "j \<noteq> i" for q j
    using that assms storedD(7) [OF assms(1), of j] by (cases "j = k") (auto simp: entry_put_entry)
  show "counter_of (entry (?c q) j) < counter_of (entry (?c p) i)"
    if "boot_page q" "j < 16" "entry_valid sha (entry (?c q) j)" "q \<noteq> p" for q j
    using that assms storedD(6) [OF assms(1), of q j] by (auto simp: entry_put_entry)
  show "j \<le> i" if "j < 16" "entry_valid sha (entry (?c p) j)" for j
    using that assms storedD(5) [OF assms(1), of j] by (auto simp: entry_put_entry split: if_splits)
qed (use storedD [OF assms(1)] assms in \<open>auto simp: entry_put_entry\<close>)

lemma stored_replace_page:
  assumes "stored sha c p k" "q \<noteq> p"
    "\<forall>j < 16. entry_valid sha (entry g j) \<longrightarrow> entry g j = entry (c q) j"
  shows "stored sha (c(q := g)) p k"
  using storedD [OF assms(1)] assms(2,3) by (intro storedI) (auto split: if_splits)

lemma entry_ones [simp]: "i < 16 \<Longrightarrow> entry (replicate 512 w) i = replicate 32 w"
  by (intro nth_equalityI) (simp_all add: nth_entry)

lemma ones_empty [simp]: "entry_empty (replicate n kFlashCtrlErasedWord)"
  by (simp add: entry_empty_def)

lemma ones_invalid [simp]: "\<not> entry_valid sha (replicate 32 kFlashCtrlErasedWord)"
  using valid_not_empty [of "replicate 32 kFlashCtrlErasedWord" sha] by auto

lemma stored_new_page:
  assumes "boot_page q" "length e = 32" "entry_valid sha e"
    "\<And>p j. boot_page p \<Longrightarrow> p \<noteq> q \<Longrightarrow> j < 16 \<Longrightarrow> entry_valid sha (entry (c p) j) \<Longrightarrow>
       counter_of (entry (c p) j) < counter_of e"
  shows "stored sha (c(q := put_entry (replicate 512 kFlashCtrlErasedWord) 0 e)) q 0"
  using assms by (intro storedI) (auto simp: entry_put_entry split: if_splits)

lemma stored_change_old:
  assumes "stored sha c q i" "boot_page p" "k < 16" "length (c p) = 512" "entry_valid sha (entry (c p) k)" "(p, k) \<noteq> (q, i)"
    "length e = 32" "counter_of e = counter_of (entry (c p) k)" "\<not> entry_empty e"
  shows "stored sha (c(p := put_entry (c p) k e)) q i"
proof -
  have "counter_of e < counter_of (entry (c q) i)" "p = q \<Longrightarrow> k \<le> i"
    using storedD(5-7) [OF assms(1)] assms(2-8) by auto
  then show ?thesis
    using storedD [OF assms(1)] assms(2-) by (intro storedI) (auto simp: entry_put_entry split: if_splits)
qed

section \<open>The new entry\<close>

definition board_wf :: "board \<Rightarrow> bool" where
  "board_wf B \<longleftrightarrow> (\<forall>m. length (board_sha B m) = 8)"

definition new_entry :: "board \<Rightarrow> u32 \<Rightarrow> boot_data \<Rightarrow> boot_data" where
  "new_entry B c bd =
     (let d = bd\<lparr>bd_is_valid := kBootDataValidEntry, bd_identifier := kBootDataIdentifier, bd_counter := c\<rparr>
      in d\<lparr>bd_digest := board_sha B (drop 8 (bd_words d))\<rparr>)"

lemma new_entry_wf: "board_wf B \<Longrightarrow> bd_wf bd \<Longrightarrow> bd_wf (new_entry B c bd)"
  by (simp add: bd_wf_def new_entry_def board_wf_def Let_def)

lemma ones_u64 [simp]: "ucast (- 1 :: u64) = (- 1 :: u32)" "ucast (mask 32 :: u64) = (- 1 :: u32)"
  by (rule bit_word_eqI; simp add: bit_ucast_iff bit_mask_iff)+

lemma new_entry_words:
  assumes "board_wf B" "bd_wf bd"
  shows "take 8 (bd_words (new_entry B c bd)) = board_sha B (drop 8 (bd_words (new_entry B c bd)))"
    "bd_words (new_entry B c bd) ! 8 = kFlashCtrlErasedWord" "bd_words (new_entry B c bd) ! 9 = kFlashCtrlErasedWord"
    "bd_words (new_entry B c bd) ! 10 = kBootDataIdentifier" "bd_words (new_entry B c bd) ! 12 = c"
  using assms by (auto simp: new_entry_def bd_words_def Let_def board_wf_def bd_wf_def nth_append kBootDataValidEntry_def erased_eq)

lemma digest_sum:
  assumes "take 8 e = d" "length e = 32" "length d = 8"
  shows "xor_sum ((!) e) [0..<8] = xor_sum ((!) d) [0..<8]"
  unfolding xor_sum_def using assms by (intro fold_cong) auto

lemma new_entry_valid:
  assumes "board_wf B" "bd_wf bd"
  shows "entry_valid (board_sha B) (bd_words (new_entry B c bd))" "counter_of (bd_words (new_entry B c bd)) = c"
  using digest_sum [OF new_entry_words(1) [OF assms]] new_entry_words(2-) [OF assms] assms new_entry_wf [OF assms]
  by (simp_all add: entry_valid_def sniffed_def erased_eq counter_of_def board_wf_def)

text \<open>
  The hash, folded to the 32 bits that \<open>boot_data_check\<close> compares, tells the new entry from what it
  looks like when its last 22 words are only partly written.
\<close>

definition no_torn_collision :: "board \<Rightarrow> u32 \<Rightarrow> u32 list \<Rightarrow> bool" where
  "no_torn_collision B torn e \<longleftrightarrow> (\<forall>n \<in> {9..<31}. drop 8 (partial_entry n torn e) \<noteq> drop 8 e \<longrightarrow>
     xor_sum ((!) (board_sha B (drop 8 (partial_entry n torn e)))) [0..<8] \<noteq> xor_sum ((!) (board_sha B (drop 8 e))) [0..<8])"

lemma nth_partial_entry:
  "i < 32 \<Longrightarrow> partial_entry n torn e ! i = (if i = 8 \<or> i = 9 then kFlashCtrlErasedWord else
     let pos = if i < 8 then i else i - 2 in
     if Suc pos < n then e ! i else if Suc pos = n then torn else kFlashCtrlErasedWord)"
  by (simp add: partial_entry_def Let_def)

lemma partial_entry_complete:
  assumes "30 < n" "length e = 32" "e ! 8 = kFlashCtrlErasedWord" "e ! 9 = kFlashCtrlErasedWord"
  shows "partial_entry n torn e = e"
  using assms by (intro nth_equalityI) (auto simp: nth_partial_entry Let_def)

lemma partial_entry_valid:
  assumes "board_wf B" "bd_wf bd" "no_torn_collision B torn (bd_words (new_entry B c bd))"
    "entry_valid (board_sha B) (partial_entry n torn (bd_words (new_entry B c bd)))"
  shows "partial_entry n torn (bd_words (new_entry B c bd)) = bd_words (new_entry B c bd)"
proof -
  define e where "e = bd_words (new_entry B c bd)"
  let ?p = "partial_entry n torn e"
  note new = new_entry_words [OF assms(1,2), of c, folded e_def]
  have len: "length e = 32" using new_entry_wf [OF assms(1,2)] by (simp add: e_def)
  have sniff: "sniffed ?p = ?p ! 10"
    by (simp add: sniffed_def nth_partial_entry erased_eq)
  then have ident: "?p ! 10 = kBootDataIdentifier"
    using assms(4) by (simp add: entry_valid_def flip: e_def)
  have n: "9 \<le> n"
  proof (rule ccontr)
    assume "\<not> 9 \<le> n"
    with ident show False
      by (simp add: nth_partial_entry Let_def kBootDataIdentifier_def kFlashCtrlErasedWord_def)
  qed
  then have front: "take 8 ?p = take 8 e"
    using len by (intro nth_equalityI) (simp_all add: nth_partial_entry)
  have "?p = e"
  proof (cases "30 < n")
    case True
    then show ?thesis using partial_entry_complete new len by blast
  next
    case False
    have "length (board_sha B m) = 8" for m using assms(1) by (simp add: board_wf_def)
    then have "xor_sum ((!) ?p) [0..<8] = xor_sum ((!) (board_sha B (drop 8 e))) [0..<8]"
      using digest_sum [of ?p "board_sha B (drop 8 e)"] front new(1) by simp
    then have "xor_sum ((!) (board_sha B (drop 8 e))) [0..<8] = xor_sum ((!) (board_sha B (drop 8 ?p))) [0..<8]"
      using assms(4) by (simp add: entry_valid_def ident xor_right_cancel flip: e_def)
    moreover have "n \<in> {9..<31}" using n False by simp
    ultimately have "drop 8 ?p = drop 8 e"
      using assms(3) unfolding no_torn_collision_def e_def [symmetric] by metis
    with front show ?thesis by (metis append_take_drop_id)
  qed
  then show ?thesis by (simp add: e_def)
qed

section \<open>One update\<close>

text \<open>
  A page erase that is interrupted turns nothing into a valid entry: what passes the check afterwards
  was there before.
\<close>

definition torn_erase :: "board \<Rightarrow> power_flash \<Rightarrow> flash_ctrl_info_page \<Rightarrow> bool" where
  "torn_erase B s p \<longleftrightarrow> (\<forall>i < 16. entry_valid (board_sha B) (entry (pf_torn_page s) i) \<longrightarrow>
     entry (pf_torn_page s) i = entry (pf_page s p) i)"

lemma append_step:
  assumes "stored sha c p k" "length (c p) = 512" "i < 16" "i = first_empty (c p) 16 0" "length w = 32"
    "entry_valid sha w" "counter_of (entry (c p) k) < counter_of w" "length e = 32" "entry_valid sha e \<Longrightarrow> e = w"
  defines "c' \<equiv> c(p := put_entry (c p) i e)"
  shows "entry (c' p) i = e \<and> entry (c' p) k = entry (c p) k \<and> i \<noteq> k \<and>
    (if e = w then stored sha c' p i else stored sha c' p k)"
proof -
  have k: "k < i"
    using first_empty_after [OF assms(2) storedD(2,3) [OF assms(1)]] storedD(4) [OF assms(1)] assms(4) by blast
  have "stored sha c' p i" if "e = w"
    unfolding c'_def that
    using first_empty_before [of 0 _ "c p" 16] assms(4)
    by (intro stored_put_valid [OF assms(1,2,5,3) k assms(6) _ assms(7)]) simp
  moreover have "stored sha c' p k" if "e \<noteq> w"
    unfolding c'_def using that assms(9) k by (intro stored_put_invalid [OF assms(1,2,8,3)]) auto
  moreover have "entry (c' p) i = e" "entry (c' p) k = entry (c p) k"
    using assms(2,3,8) k by (simp_all add: c'_def entry_put_entry)
  ultimately show ?thesis using k by simp
qed

lemma other_step:
  fixes n :: nat
  assumes "stored sha c p k" "length (c (other_page p)) = 512" "length w = 32"
    "entry_valid sha w" "counter_of (entry (c p) k) < counter_of w" "\<And>m. entry_valid sha (partial_entry m x w) \<Longrightarrow> partial_entry m x w = w"
    "\<forall>j < 16. entry_valid sha (entry g j) \<longrightarrow> entry g j = entry (c (other_page p)) j" "length g = 512"
  defines "ws \<equiv> stored_page (c (other_page p)) 0 w kHardenedBoolTrue n x g"
  shows "if entry ws 0 = w then stored sha (c(other_page p := ws)) (other_page p) 0 else stored sha (c(other_page p := ws)) p k"
proof -
  let ?q = "other_page p"
  have q: "boot_page ?q" "?q \<noteq> p" "boot_page p" using storedD(1) [OF assms(1)] by simp_all
  have old: "counter_of (entry (c ?q) j) < counter_of (entry (c p) k)" if "j < 16" "entry_valid sha (entry (c ?q) j)" for j
    using storedD(6) [OF assms(1) q(1) that q(2)] .
  consider "n = 0" | "n = 1" | "1 < n" by linarith
  then show ?thesis
  proof cases
    case 1
    then have ws: "ws = c ?q" by (simp add: ws_def stored_page_def)
    have "entry (c ?q) 0 \<noteq> w" using old [of 0] assms(4,5) by auto
    with ws assms(1) show ?thesis by simp
  next
    case 2
    then have ws: "ws = g" by (simp add: ws_def stored_page_def)
    have "entry g 0 \<noteq> w" using old [of 0] assms(4,5,7) by auto
    with ws show ?thesis using stored_replace_page [OF assms(1) q(2) assms(7)] by simp
  next
    case 3
    then have ws: "ws = put_entry (replicate 512 kFlashCtrlErasedWord) 0 (partial_entry (n - 1) x w)"
      by (simp add: ws_def stored_page_def)
    have e: "entry ws 0 = partial_entry (n - 1) x w" by (simp add: ws entry_put_entry)
    show ?thesis
    proof (cases "partial_entry (n - 1) x w = w")
      case True
      have "stored sha (c(?q := ws)) ?q 0"
        unfolding ws True
      proof (rule stored_new_page [OF q(1) assms(3,4)])
        fix p' j assume "boot_page p'" "p' \<noteq> ?q" "j < 16" "entry_valid sha (entry (c p') j)"
        then show "counter_of (entry (c p') j) < counter_of w"
          using storedD(7) [OF assms(1), of j] q assms(5) by (cases "j = k") (auto simp: boot_page_def other_page_def split: if_splits)
      qed
      then show ?thesis using e True by simp
    next
      case False
      then have "\<not> entry_valid sha (partial_entry (n - 1) x w)" using assms(6) by blast
      then have "stored sha (c(?q := ws)) p k"
        using ws by (intro stored_replace_page [OF assms(1) q(2)]) (auto simp: entry_put_entry)
      then show ?thesis using e False by simp
    qed
  qed
qed

lemma invalidate_eq:
  assumes "pf_wf s" "i < 16"
  shows "\<exists>s' e. boot_data_entry_invalidate (power_hw B) p i s = (kErrorOk_value, s') \<and> pf_wf s' \<and>
    pf_page s' = (pf_page s)(p := put_entry (pf_page s p) i e) \<and> length e = 32 \<and>
    (\<forall>m < 32. m \<noteq> 8 \<longrightarrow> m \<noteq> 9 \<longrightarrow> e ! m = entry (pf_page s p) i ! m) \<and> (3 \<le> pf_power s \<longrightarrow> e ! 8 = 0 \<and> e ! 9 = 0)"
proof -
  let ?s = "pf_perms_set p \<lparr>perm_read = kMultiBitBool4False, perm_write = kMultiBitBool4True,
            perm_erase = kMultiBitBool4False\<rparr> s"
  define t where "t = program_words p (32 * i + 8) [0, 0] ?s"
  have len: "length (pf_page s q) = 512" "length (pf_torn_page s) = 512" for q
    using assms(1) by (simp_all add: pf_wf_def)
  have t: "length (pf_page t q) = 512" "length (pf_torn_page t) = 512" "q \<noteq> p \<Longrightarrow> pf_page t q = pf_page s q" for q
    using len unfolding t_def by (simp_all del: program_words.simps)
  have "word_of_nat (i * 128 + 32) = (word_of_nat (4 * (32 * i + 8)) :: u32)"
    by (simp add: algebra_simps)
  moreover have "pf_write p (word_of_nat (4 * (32 * i + 8))) [0, 0] ?s = (kErrorOk_value, t)"
    unfolding t_def using assms(2) by (intro pf_write_at) simp_all
  ultimately have "pf_write p (word_of_nat (i * 128 + 32)) [0, 0] ?s = (kErrorOk_value, t)" by metis
  then have run: "boot_data_entry_invalidate (power_hw B) p i s =
      (kErrorOk_value, pf_increment 2 (pf_perms_set p no_perms t))"
    by (simp add: boot_data_entry_invalidate_def kFlashCtrlSecMmioInfoPermsSet_def Let_def del: of_nat_add of_nat_mult)
  have page: "pf_page t p ! j = pf_page s p ! j" if "j < 512" "j \<noteq> 32 * i + 8" "j \<noteq> 32 * i + 9" for j
    unfolding t_def using that assms(2) len by (subst nth_program_words) auto
  have zero: "pf_page t p ! (32 * i + 8) = 0" "pf_page t p ! (32 * i + 9) = 0" if "3 \<le> pf_power s"
    unfolding t_def using that assms(2) len by (subst nth_program_words; simp)+
  let ?e = "entry (pf_page t p) i"
  have "pf_page t p = put_entry (pf_page s p) i ?e"
    using assms(2) len t(1) page by (intro nth_equalityI) (auto simp: nth_put_entry nth_entry)
  then have "pf_page t = (pf_page s)(p := put_entry (pf_page s p) i ?e)"
    using t(3) by (intro ext) simp
  moreover have "pf_wf t" using t by (simp add: pf_wf_def)
  moreover have "\<forall>m < 32. m \<noteq> 8 \<longrightarrow> m \<noteq> 9 \<longrightarrow> ?e ! m = entry (pf_page s p) i ! m"
    using assms(2) len t(1) page by (simp add: nth_entry)
  moreover have "length ?e = 32" "3 \<le> pf_power s \<longrightarrow> ?e ! 8 = 0 \<and> ?e ! 9 = 0"
    using assms(2) t(1) zero by (simp_all add: nth_entry)
  ultimately show ?thesis
    unfolding run by (intro exI [of _ "pf_increment 2 (pf_perms_set p no_perms t)"] exI [of _ ?e]) simp
qed

lemma after_search_flash [simp]:
  "pf_power (pf.after_search B s) = pf_power s" "pf_torn_word (pf.after_search B s) = pf_torn_word s"
  "pf_torn_page (pf.after_search B s) = pf_torn_page s"
  by (simp_all add: pf.after_search_def pf.closed_def)

text \<open>The conditions of an update: the data, and what a power failure may leave.\<close>

definition update_ok :: "board \<Rightarrow> power_flash \<Rightarrow> u32 \<Rightarrow> boot_data \<Rightarrow> bool" where
  "update_ok B s c bd \<longleftrightarrow> pf_wf s \<and> board_wf B \<and> bd_wf bd \<and>
     no_torn_collision B (pf_torn_word s) (bd_words (new_entry B (c + 1) bd))"

definition entry_at :: "board \<Rightarrow> power_flash \<Rightarrow> flash_ctrl_info_page \<Rightarrow> nat \<Rightarrow> boot_data \<Rightarrow> bool" where
  "entry_at B s p k d \<longleftrightarrow> stored (board_sha B) (pf_page s) p k \<and> entry (pf_page s p) k = bd_words d"

lemma invalidate_old:
  assumes "entry_at B s q i d" "pf_wf s" "boot_page p" "k < 16" "entry_valid (board_sha B) (entry (pf_page s p) k)"
    "(p, k) \<noteq> (q, i)" "counter_of (entry (pf_page s p) k) \<noteq> - 1"
  shows "\<exists>s'. boot_data_entry_invalidate (power_hw B) p k s = (kErrorOk_value, s') \<and> pf_wf s' \<and> entry_at B s' q i d \<and>
    (3 \<le> pf_power s \<longrightarrow> \<not> entry_valid (board_sha B) (entry (pf_page s' p) k))"
proof -
  obtain s' e where s': "boot_data_entry_invalidate (power_hw B) p k s = (kErrorOk_value, s')" "pf_wf s'"
    "pf_page s' = (pf_page s)(p := put_entry (pf_page s p) k e)" "length e = 32"
    "\<forall>m < 32. m \<noteq> 8 \<longrightarrow> m \<noteq> 9 \<longrightarrow> e ! m = entry (pf_page s p) k ! m" "3 \<le> pf_power s \<longrightarrow> e ! 8 = 0 \<and> e ! 9 = 0"
    using invalidate_eq [OF assms(2,4), of B p] by blast
  have len: "length (pf_page s r) = 512" for r using assms(2) by (simp add: pf_wf_def)
  have c: "counter_of e = counter_of (entry (pf_page s p) k)" using s'(5) by (simp add: counter_of_def)
  then have "\<not> entry_empty e"
    using assms(7) nth_mem [of 12 e] s'(4) unfolding counter_of_def entry_empty_def erased_eq by fastforce
  moreover have at: "stored (board_sha B) (pf_page s) q i" "entry (pf_page s q) i = bd_words d"
    using assms(1) by (simp_all add: entry_at_def)
  ultimately have "stored (board_sha B) (pf_page s') q i"
    unfolding s'(3) using stored_change_old [OF at(1) assms(3,4) len assms(5,6) s'(4) c] by blast
  moreover have "entry (pf_page s' q) i = bd_words d"
    using at assms(4,6) storedD(2) [OF at(1)] s'(3,4) len by (auto simp: entry_put_entry)
  moreover have "\<not> entry_valid (board_sha B) e" if "3 \<le> pf_power s"
    using that s'(6) by (simp add: entry_valid_def sniffed_def kBootDataIdentifier_def)
  ultimately show ?thesis
    using s' assms(4) len by (auto simp: entry_at_def entry_put_entry)
qed

text \<open>
  One call of \<open>boot_data_write\<close> when an entry is stored: it returns, and afterwards the old entry or
  the new one is stored, the new one if the call reports success or the power lasts for all of
  its 33 operations.
\<close>

definition update_result :: "board \<Rightarrow> power_flash \<Rightarrow> flash_ctrl_info_page \<Rightarrow> nat \<Rightarrow> boot_data \<Rightarrow> nat \<Rightarrow> u32 \<Rightarrow> power_flash \<Rightarrow> bool" where
  "update_result B s p k new ops e s' \<longleftrightarrow> pf_wf s' \<and>
     (if e = kErrorOk_value
      then \<exists>q i. (q, i) \<noteq> (p, k) \<and> entry_at B s' q i new \<and>
        (ops \<le> pf_power s \<longrightarrow> \<not> entry_valid (board_sha B) (entry (pf_page s' p) k))
      else pf_power s < ops \<and> stored (board_sha B) (pf_page s') p k \<and> entry (pf_page s' p) k = entry (pf_page s p) k)"

lemma write_then_invalidate:
  assumes "pf_wf s" "stored (board_sha B) (pf_page s) p k" "counter_of (entry (pf_page s p) k) \<noteq> - 1"
    "bd_wf new" "i < 16" "(p, k) \<noteq> (q, i)" "boot_page q"
    "erase = kHardenedBoolTrue \<or> entry_empty (entry (pf_page s q) i)"
  defines "ws \<equiv> stored_page (pf_page s q) i (bd_words new) erase (pf_power s) (pf_torn_word s) (pf_torn_page s)"
  assumes "if entry ws i = bd_words new then stored (board_sha B) ((pf_page s)(q := ws)) q i
     else stored (board_sha B) ((pf_page s)(q := ws)) p k"
    "entry (((pf_page s)(q := ws)) p) k = entry (pf_page s p) k"
    "34 \<le> pf_power s \<Longrightarrow> entry ws i = bd_words new"
  shows "\<exists>e s'. (let (e, h) = boot_data_entry_write (power_hw B) q i new erase s
      in if e \<noteq> kErrorOk_value then Some (e, h) else Some (boot_data_entry_invalidate (power_hw B) p k h)) = Some (e, s') \<and>
    update_result B s p k new 34 e s'"
proof -
  obtain t where t: "boot_data_entry_write (power_hw B) q i new erase s =
      (if entry ws i = bd_words new then kErrorOk_value else kErrorBootDataWriteCheck, t)"
    "pf_page t = (pf_page s)(q := ws)" "pf_wf t" "pf_power t = pf_power s - ops_of erase"
    using entry_write_eq [OF assms(1,4,5,8), of B] unfolding ws_def by blast
  have distinct: "kErrorBootDataWriteCheck \<noteq> kErrorOk_value" by code_simp
  show ?thesis
  proof (cases "entry ws i = bd_words new")
    case True
    have valid: "entry_valid (board_sha B) (entry (pf_page t p) k)" "boot_page p" "k < 16"
      using storedD [OF assms(2)] assms(11) t(2) by simp_all
    have "entry_at B t q i new"
      using assms(10) True t(2) by (simp add: entry_at_def)
    then obtain s' where "boot_data_entry_invalidate (power_hw B) p k t = (kErrorOk_value, s')" "pf_wf s'" "entry_at B s' q i new"
      "3 \<le> pf_power t \<longrightarrow> \<not> entry_valid (board_sha B) (entry (pf_page s' p) k)"
      using invalidate_old [OF _ t(3) valid(2,3,1) assms(6)] assms(3,11) t(2) by force
    moreover have "3 \<le> pf_power t" if "34 \<le> pf_power s" 
      using that t(4) by (cases "erase = kHardenedBoolTrue") (simp_all add: ops_of_def)
    ultimately have "update_result B s p k new 34 kErrorOk_value s'"
      using assms(6) unfolding update_result_def by (metis (no_types))
    with t(1) True \<open>boot_data_entry_invalidate (power_hw B) p k t = _\<close> show ?thesis by simp
  next
    case False
    then show ?thesis
      using t distinct assms(10-12) by (cases "34 \<le> pf_power s") (auto simp: update_result_def)
  qed
qed

lemma less_next:
  assumes "c \<noteq> (- 1 :: u32)"
  shows "c < c + 1"
proof -
  have "uint (- 1 :: u32) = 4294967295" by code_simp
  then have "uint c \<noteq> 4294967295" using assms by (metis word_uint_eq_iff)
  then have "uint c + 1 < 4294967296" using uint_lt2p [of c] by simp
  then show ?thesis by (simp add: word_less_def uint_plus_if')
qed

lemma update_stored:
  assumes "stored (board_sha B) (pf_page s) p k" "counter_of (entry (pf_page s p) k) \<noteq> - 1"
    "update_ok B s (counter_of (entry (pf_page s p) k)) bd" "torn_erase B s (other_page p)"
  shows "\<exists>e s'. boot_data_write (power_hw B) last_entry bd s = Some (e, s') \<and>
    update_result B s p k (new_entry B (counter_of (entry (pf_page s p) k) + 1) bd) 34 e s'"
proof -
  have same: "\<And>t new e s'. pf_page t = pf_page s \<Longrightarrow> pf_power t = pf_power s \<Longrightarrow>
      update_result B t p k new 34 e s' = update_result B s p k new 34 e s'"
    by (simp only: update_result_def)
  define t c where "t = pf.after_search B s" and "c = counter_of (entry (pf_page s p) k)"
  define new where "new = new_entry B (c + 1) bd"
  have wf: "pf_wf s" "board_wf B" "bd_wf bd" "no_torn_collision B (pf_torn_word s) (bd_words new)"
    using assms(3) by (simp_all add: update_ok_def new_def c_def)
  have t: "pf_wf t" "pf_page t = pf_page s" "pf_power t = pf_power s" "pf_torn_word t = pf_torn_word s"
    "pf_torn_page t = pf_torn_page s"
    using wf(1) by (simp_all add: t_def)
  have len: "length (pf_page s r) = 512" for r using wf(1) by (simp add: pf_wf_def)
  have new: "bd_wf new" "entry_valid (board_sha B) (bd_words new)" "counter_of (bd_words new) = c + 1"
    "bd_words new ! 8 = kFlashCtrlErasedWord" "bd_words new ! 9 = kFlashCtrlErasedWord"
    using new_entry_wf new_entry_valid new_entry_words wf(2,3) by (simp_all add: new_def)
  have less: "counter_of (entry (pf_page s p) k) < counter_of (bd_words new)"
    unfolding new(3) c_def [symmetric] using assms(2) unfolding c_def by (rule less_next)
  have torn: "entry_valid (board_sha B) (partial_entry m (pf_torn_word s) (bd_words new)) \<Longrightarrow>
      partial_entry m (pf_torn_word s) (bd_words new) = bd_words new" for m
    using partial_entry_valid [OF wf(2,3)] wf(4) by (simp add: new_def)
  have find: "boot_data_active_page_find (power_hw B) last_entry s = Some (kErrorOk_value, found_at p (pf_page s p) k,
      bd_of_words (entry (pf_page s p) k), t)"
    using pf.find_newest [OF wf(1), of B p k last_entry] stored_newest [OF assms(1) len] by (simp add: t_def)
  have entry': "bd\<lparr>bd_is_valid := kBootDataValidEntry, bd_identifier := kBootDataIdentifier, bd_counter := c + 1,
      bd_digest := boot_data_digest_compute (power_hw B)
        (bd\<lparr>bd_is_valid := kBootDataValidEntry, bd_identifier := kBootDataIdentifier, bd_counter := c + 1\<rparr>)\<rparr> = new"
    by (simp add: new_def new_entry_def boot_data_digest_compute_def Let_def)
  have page: "boot_page p" "k < 16" using storedD [OF assms(1)] by simp_all
  show ?thesis
  proof (cases "first_empty (pf_page s p) 16 0 < 16")
    case True
    let ?i = "first_empty (pf_page s p) 16 0"
    let ?ws = "stored_page (pf_page t p) ?i (bd_words new) kHardenedBoolFalse (pf_power t) (pf_torn_word t) (pf_torn_page t)"
    have ws: "?ws = put_entry (pf_page s p) ?i (partial_entry (pf_power s) (pf_torn_word s) (bd_words new))"
      by (simp add: stored_page_def t)
    note step = append_step [OF assms(1) len True refl length_bd_words [OF new(1)] new(2) less
        length_partial_entry torn [of "pf_power s"], folded ws]
    have "\<exists>e s'. (let (e, h) = boot_data_entry_write (power_hw B) p ?i new kHardenedBoolFalse t
        in if e \<noteq> kErrorOk_value then Some (e, h) else Some (boot_data_entry_invalidate (power_hw B) p k h)) = Some (e, s') \<and>
      update_result B t p k new 34 e s'"
    proof (rule write_then_invalidate)
      show "34 \<le> pf_power t \<Longrightarrow> entry ?ws ?i = bd_words new"
        using step partial_entry_complete [OF _ length_bd_words [OF new(1)] new(4,5)] by (simp add: t)
    qed (use step assms(1,2) t new(1) True page first_empty_at [of "pf_page s p" 16 0] in auto)
    then obtain e s' where "(let (e, h) = boot_data_entry_write (power_hw B) p ?i new kHardenedBoolFalse t
        in if e \<noteq> kErrorOk_value then Some (e, h) else Some (boot_data_entry_invalidate (power_hw B) p k h)) = Some (e, s')"
      "update_result B t p k new 34 e s'" by blast
    moreover have "boot_data_write (power_hw B) last_entry bd s = (let (e, h) = boot_data_entry_write (power_hw B) p ?i new kHardenedBoolFalse t
        in if e \<noteq> kErrorOk_value then Some (e, h) else Some (boot_data_entry_invalidate (power_hw B) p k h))"
      unfolding boot_data_write_def using find True entry'
      by (cases "boot_data_entry_write (power_hw B) p ?i new kHardenedBoolFalse t") (simp add: found_at_def Let_def flip: c_def)
    ultimately show ?thesis
      using same [OF t(2,3)] by (auto simp flip: c_def new_def)
  next
    case False
    let ?q = "other_page p"
    let ?ws = "stored_page (pf_page t ?q) 0 (bd_words new) kHardenedBoolTrue (pf_power t) (pf_torn_word t) (pf_torn_page t)"
    have "length (pf_torn_page s) = 512" using wf(1) by (simp add: pf_wf_def)
    then have step: "if entry ?ws 0 = bd_words new then stored (board_sha B) ((pf_page s)(?q := ?ws)) ?q 0
        else stored (board_sha B) ((pf_page s)(?q := ?ws)) p k"
      using other_step [OF assms(1) len length_bd_words [OF new(1)] new(2) less torn, of "pf_torn_page s" "pf_power s"] assms(4)
      by (simp add: t torn_erase_def)
    have "\<exists>e s'. (let (e, h) = boot_data_entry_write (power_hw B) ?q 0 new kHardenedBoolTrue t
        in if e \<noteq> kErrorOk_value then Some (e, h) else Some (boot_data_entry_invalidate (power_hw B) p k h)) = Some (e, s') \<and>
      update_result B t p k new 34 e s'"
    proof (rule write_then_invalidate)
      show "34 \<le> pf_power t \<Longrightarrow> entry ?ws 0 = bd_words new"
        using partial_entry_complete [OF _ length_bd_words [OF new(1)] new(4,5)] new(1)
        by (simp add: t stored_page_def entry_put_entry)
    qed (use step assms(1,2) t new(1) page in auto)
    then obtain e s' where "(let (e, h) = boot_data_entry_write (power_hw B) ?q 0 new kHardenedBoolTrue t
        in if e \<noteq> kErrorOk_value then Some (e, h) else Some (boot_data_entry_invalidate (power_hw B) p k h)) = Some (e, s')"
      "update_result B t p k new 34 e s'" by blast
    moreover have "boot_data_write (power_hw B) last_entry bd s = (let (e, h) = boot_data_entry_write (power_hw B) ?q 0 new kHardenedBoolTrue t
        in if e \<noteq> kErrorOk_value then Some (e, h) else Some (boot_data_entry_invalidate (power_hw B) p k h))"
      unfolding boot_data_write_def using find False entry'
      by (cases "boot_data_entry_write (power_hw B) ?q 0 new kHardenedBoolTrue t") (simp add: found_at_def Let_def other_page_def flip: c_def)
    ultimately show ?thesis
      using same [OF t(2,3)] by (auto simp flip: c_def new_def)
  qed
qed

lemma update_blank:
  assumes "blank (board_sha B) (pf_page s)" "update_ok B s kBootDataDefaultCounterVal bd"
    "torn_erase B s kFlashCtrlInfoPageBootData0"
  defines "new \<equiv> new_entry B (kBootDataDefaultCounterVal + 1) bd"
  shows "\<exists>e s'. boot_data_write (power_hw B) last_entry bd s = Some (e, s') \<and> pf_wf s' \<and>
    (if e = kErrorOk_value then entry_at B s' kFlashCtrlInfoPageBootData0 0 new
     else pf_power s < 32 \<and> blank (board_sha B) (pf_page s'))"
proof -
  let ?p = kFlashCtrlInfoPageBootData0
  define t where "t = pf.after_search B s"
  have wf: "pf_wf s" "board_wf B" "bd_wf bd" "no_torn_collision B (pf_torn_word s) (bd_words new)"
    using assms(2) by (simp_all add: update_ok_def new_def)
  have t: "pf_wf t" "pf_page t = pf_page s" "pf_power t = pf_power s" "pf_torn_word t = pf_torn_word s"
    "pf_torn_page t = pf_torn_page s"
    using wf(1) by (simp_all add: t_def)
  have new: "bd_wf new" "entry_valid (board_sha B) (bd_words new)"
    "bd_words new ! 8 = kFlashCtrlErasedWord" "bd_words new ! 9 = kFlashCtrlErasedWord"
    using new_entry_wf new_entry_valid new_entry_words wf(2,3) by (simp_all add: new_def)
  have page: "boot_page ?p" by (simp add: boot_page_def)
  let ?ws = "stored_page (pf_page t ?p) 0 (bd_words new) kHardenedBoolTrue (pf_power t) (pf_torn_word t) (pf_torn_page t)"
  obtain u where u: "boot_data_entry_write (power_hw B) ?p 0 new kHardenedBoolTrue t =
      (if entry ?ws 0 = bd_words new then kErrorOk_value else kErrorBootDataWriteCheck, u)"
    "pf_page u = (pf_page s)(?p := ?ws)" "pf_wf u"
    using entry_write_eq [OF t(1) new(1), of 0 kHardenedBoolTrue ?p B] t(2) by auto
  obtain pi where "boot_data_active_page_find (power_hw B) last_entry s = Some (kErrorOk_value, pi, last_entry, t)"
    "has_valid_entry pi = kHardenedBoolFalse"
    using pf.find_nothing [OF wf(1), of B last_entry] page_scan_blank [OF assms(1)] by (auto simp: t_def boot_page_def)
  moreover have "bd\<lparr>bd_is_valid := kBootDataValidEntry, bd_identifier := kBootDataIdentifier, bd_counter := kBootDataDefaultCounterVal + 1,
      bd_digest := boot_data_digest_compute (power_hw B)
        (bd\<lparr>bd_is_valid := kBootDataValidEntry, bd_identifier := kBootDataIdentifier, bd_counter := kBootDataDefaultCounterVal + 1\<rparr>)\<rparr> = new"
    by (simp add: new_def new_entry_def boot_data_digest_compute_def Let_def)
  ultimately have "boot_data_write (power_hw B) last_entry bd s = Some (boot_data_entry_write (power_hw B) ?p 0 new kHardenedBoolTrue t)"
    by (simp add: boot_data_write_def Let_def)
  moreover have "if entry ?ws 0 = bd_words new then stored (board_sha B) (pf_page u) ?p 0
      else pf_power s < 32 \<and> blank (board_sha B) (pf_page u)"
  proof -
    consider "pf_power s = 0" | "pf_power s = 1" | "1 < pf_power s" by linarith
    then show ?thesis
    proof cases
      case 1
      then have "?ws = pf_page s ?p" by (simp add: stored_page_def t)
      moreover have "entry (pf_page s ?p) 0 \<noteq> bd_words new"
        using assms(1) page new(2) unfolding blank_def by (metis zero_less_numeral)
      ultimately show ?thesis using assms(1) 1 unfolding u(2) by simp
    next
      case 2
      then have ws: "?ws = pf_torn_page s" by (simp add: stored_page_def t)
      have "\<not> entry_valid (board_sha B) (entry (pf_torn_page s) j)" if "j < 16" for j
        using assms(1,3) page that by (auto simp: torn_erase_def blank_def)
      moreover from this [of 0] have "entry (pf_torn_page s) 0 \<noteq> bd_words new" using new(2) by auto
      ultimately show ?thesis using assms(1) 2 unfolding u(2) ws by (auto simp: blank_def)
    next
      case 3
      let ?pe = "partial_entry (pf_power s - 1) (pf_torn_word s) (bd_words new)"
      have ws: "?ws = put_entry (replicate 512 kFlashCtrlErasedWord) 0 ?pe"
        using 3 by (simp add: stored_page_def t)
      have e: "entry ?ws 0 = ?pe" by (simp add: ws entry_put_entry)
      show ?thesis
      proof (cases "?pe = bd_words new")
        case True
        have "stored (board_sha B) (pf_page u) ?p 0"
          unfolding u(2) ws True using assms(1) by (intro stored_new_page [OF page _ new(2)]) (auto simp: new(1) blank_def)
        then show ?thesis using e True by simp
      next
        case False
        then have "\<not> entry_valid (board_sha B) ?pe"
          using partial_entry_valid [OF wf(2,3)] wf(4) by (auto simp: new_def)
        then have "blank (board_sha B) (pf_page u)"
          using assms(1) unfolding u(2) ws by (auto simp: blank_def entry_put_entry)
        moreover have "pf_power s < 32"
        proof (rule ccontr)
          assume "\<not> pf_power s < 32"
          then have "30 < pf_power s - 1" by linarith
          with False show False
            using partial_entry_complete [OF _ length_bd_words [OF new(1)] new(3,4)] by blast
        qed
        ultimately show ?thesis using e False by simp
      qed
    qed
  qed
  moreover have "kErrorBootDataWriteCheck \<noteq> kErrorOk_value" by code_simp
  moreover have "entry (pf_page u ?p) 0 = entry ?ws 0" by (simp add: u(2))
  ultimately show ?thesis using u(1,3) by (simp add: entry_at_def)
qed

end
