(* ===== verification/Boot_Session.thy ===== *)
theory Boot_Session
  imports Boot_Update
begin

unbundle bit_operations_syntax

text \<open>
  The properties of the boot data: what is read from a store, from a blank one, and over a sequence
  of sessions each of which tries one update and may lose power in it. The last part is about drivers
  that may fail in any call (the locale \<open>info_registers\<close>): which permissions a read or an update leaves.
\<close>

section \<open>Sessions\<close>

record session =
  ses_power :: nat
  ses_torn_word :: u32
  ses_torn_page :: "u32 list"
  ses_data :: boot_data

definition power_up :: "nat \<Rightarrow> power_flash \<Rightarrow> power_flash" where
  "power_up n s = s\<lparr>pf_power := n, pf_perms := (\<lambda>p. no_perms)\<rparr>"

definition start_session :: "session \<Rightarrow> power_flash \<Rightarrow> power_flash" where
  "start_session x s = (power_up (ses_power x) s)\<lparr>pf_torn_word := ses_torn_word x, pf_torn_page := ses_torn_page x\<rparr>"

definition session_write :: "board \<Rightarrow> session \<Rightarrow> power_flash \<Rightarrow> (u32 \<times> power_flash) option" where
  "session_write B x s = boot_data_write (power_hw B) (bd_of_words (replicate 32 0)) (ses_data x) (start_session x s)"

fun run_sessions :: "board \<Rightarrow> session list \<Rightarrow> power_flash \<Rightarrow> (u32 list \<times> power_flash) option" where
  "run_sessions B [] s = Some ([], s)"
| "run_sessions B (x # xs) s = do {
     (e, s) \<leftarrow> session_write B x s;
     (es, s) \<leftarrow> run_sessions B xs s;
     Some (e # es, s) }"

text \<open>The entry of the last session that reported success, or the first one.\<close>

fun kept :: "board \<Rightarrow> boot_data \<Rightarrow> session list \<Rightarrow> u32 list \<Rightarrow> boot_data" where
  "kept B d (x # xs) (e # es) = kept B (if e = kErrorOk_value then new_entry B (bd_counter d + 1) (ses_data x) else d) xs es"
| "kept B d xs es = d"

text \<open>What a power failure in a session may leave, when \<open>d\<close> is the entry stored before.\<close>

definition session_ok :: "board \<Rightarrow> boot_data \<Rightarrow> session \<Rightarrow> power_flash \<Rightarrow> bool" where
  "session_ok B d x s \<longleftrightarrow> length (ses_torn_page x) = 512 \<and> bd_wf (ses_data x) \<and> bd_version (ses_data x) = kBootDataVersion2 \<and>
     no_torn_collision B (ses_torn_word x) (bd_words (new_entry B (bd_counter d + 1) (ses_data x))) \<and>
     (\<forall>p. (\<exists>k. stored (board_sha B) (pf_page s) p k) \<or> torn_erase B (start_session x s) p)"

fun sessions_ok :: "board \<Rightarrow> boot_data \<Rightarrow> session list \<Rightarrow> power_flash \<Rightarrow> bool" where
  "sessions_ok B d [] s \<longleftrightarrow> True"
| "sessions_ok B d (x # xs) s \<longleftrightarrow> session_ok B d x s \<and>
     (case session_write B x s of
        None \<Rightarrow> True
      | Some (e, s) \<Rightarrow>
          sessions_ok B (if e = kErrorOk_value then new_entry B (bd_counter d + 1) (ses_data x) else d) xs s)"

lemma start_session_simps [simp]:
  "pf_page (start_session x s) = pf_page s" "pf_power (start_session x s) = ses_power x"
  "pf_torn_word (start_session x s) = ses_torn_word x"
  "pf_wf s \<Longrightarrow> length (ses_torn_page x) = 512 \<Longrightarrow> pf_wf (start_session x s)"
  "pf_page (power_up n s) = pf_page s" "pf_wf s \<Longrightarrow> pf_wf (power_up n s)"
  by (simp_all add: start_session_def power_up_def pf_wf_def)

lemma counter_of_words: "bd_wf d \<Longrightarrow> counter_of (bd_words d) = bd_counter d"
  by (simp flip: counter_words)

lemma new_entry_fields [simp]:
  "bd_version (new_entry B c bd) = bd_version bd" "bd_counter (new_entry B c bd) = c"
  by (simp_all add: new_entry_def Let_def)

lemma read_entry:
  assumes "entry_at B s p k d" "pf_wf s" "bd_wf d" "bd_version d = kBootDataVersion2"
  shows "boot_data_read (power_hw B) lc_state x s = Some (kErrorOk_value, d, pf.after_search B s)"
proof -
  have "newest (board_sha B) (pf_page s) p k" "entry (pf_page s p) k = bd_words d"
    using assms(1,2) stored_newest by (simp_all add: entry_at_def pf_wf_def)
  then show ?thesis
    using pf.read_newest [OF assms(2), of B p k lc_state x] assms(3,4)
    by (simp add: boot_data_as_v2_def kBootDataVersion1_def kBootDataVersion2_def)
qed

lemma session_step:
  assumes "entry_at B s p k d" "pf_wf s" "board_wf B" "bd_wf d" "bd_counter d \<noteq> - 1" "session_ok B d x s"
  shows "\<exists>e s' q i. session_write B x s = Some (e, s') \<and> pf_wf s' \<and> (34 \<le> ses_power x \<longrightarrow> e = kErrorOk_value) \<and>
    entry_at B s' q i (if e = kErrorOk_value then new_entry B (bd_counter d + 1) (ses_data x) else d)"
proof -
  let ?s = "start_session x s"
  have st: "stored (board_sha B) (pf_page ?s) p k" "entry (pf_page ?s p) k = bd_words d"
    using assms(1) by (simp_all add: entry_at_def)
  then have c: "counter_of (entry (pf_page ?s p) k) = bd_counter d" using assms(4) by (simp add: counter_of_words)
  have "\<not> stored (board_sha B) (pf_page s) (other_page p) j" for j
  proof
    assume "stored (board_sha B) (pf_page s) (other_page p) j"
    from storedD [OF this] st storedD [OF st(1)] show False
      by (metis boot_page_other(2) not_less_iff_gr_or_eq start_session_simps(1))
  qed
  then have "torn_erase B ?s (other_page p)" "update_ok B ?s (bd_counter d) (ses_data x)"
    using assms(2,3,6) by (auto simp: session_ok_def update_ok_def)
  then obtain e s' where "session_write B x s = Some (e, s')"
    "update_result B ?s p k (new_entry B (bd_counter d + 1) (ses_data x)) 34 e s'"
    using update_stored [OF st(1)] assms(5) unfolding c session_write_def by blast
  then show ?thesis
    using st(2) by (force simp: update_result_def entry_at_def)
qed

lemma sessions_run:
  assumes "entry_at B s p k d" "pf_wf s" "board_wf B" "bd_wf d" "bd_version d = kBootDataVersion2"
    "unat (bd_counter d) + length xs < 2 ^ 32" "sessions_ok B d xs s"
  shows "\<exists>es s' q i. run_sessions B xs s = Some (es, s') \<and> pf_wf s' \<and>
    list_all2 (\<lambda>x e. 34 \<le> ses_power x \<longrightarrow> e = kErrorOk_value) xs es \<and>
    entry_at B s' q i (kept B d xs es) \<and> bd_wf (kept B d xs es) \<and> bd_version (kept B d xs es) = kBootDataVersion2"
  using assms
proof (induction xs arbitrary: s p k d)
  case Nil
  then show ?case by auto
next
  case (Cons x xs)
  have max: "bd_counter d \<noteq> - 1"
  proof
    assume "bd_counter d = - 1"
    then have "unat (bd_counter d) = 2 ^ 32 - 1" by (simp add: unsigned_minus_1_eq_mask mask_eq_exp_minus_1)
    with Cons.prems(6) show False by simp
  qed
  let ?n = "new_entry B (bd_counter d + 1) (ses_data x)"
  from Cons.prems(7) have ok: "session_ok B d x s" by simp
  obtain e s' q i where e: "session_write B x s = Some (e, s')" "pf_wf s'" "34 \<le> ses_power x \<longrightarrow> e = kErrorOk_value"
    "entry_at B s' q i (if e = kErrorOk_value then ?n else d)"
    using session_step [OF Cons.prems(1-4) max ok] by blast
  let ?d = "if e = kErrorOk_value then ?n else d"
  have d: "bd_wf ?d" "bd_version ?d = kBootDataVersion2"
    using Cons.prems(3-5) ok new_entry_wf by (simp_all add: session_ok_def)
  have "unat (bd_counter ?d) \<le> unat (bd_counter d) + 1"
    by (simp add: unat_word_ariths)
  then have "unat (bd_counter ?d) + length xs < 2 ^ 32" using Cons.prems(6) by simp
  moreover have "sessions_ok B ?d xs s'" using Cons.prems(7) e(1) by simp
  ultimately obtain es t q' i' where "run_sessions B xs s' = Some (es, t)" "pf_wf t"
    "list_all2 (\<lambda>x e. 34 \<le> ses_power x \<longrightarrow> e = kErrorOk_value) xs es" "entry_at B t q' i' (kept B ?d xs es)"
    "bd_wf (kept B ?d xs es)" "bd_version (kept B ?d xs es) = kBootDataVersion2"
    using Cons.IH [OF e(4,2) Cons.prems(3) d] by blast
  with e(1,3) show ?case
    by (intro exI [of _ "e # es"] exI [of _ t] exI [of _ q'] exI [of _ i']) simp
qed

section \<open>Properties\<close>

text \<open>C15: over any sequence of sessions, each trying one update and each possibly losing power during any word
  program or page erase, the code never traps, the store stays readable, and what is read is the entry of the
  last session that reported success. A session whose power lasts for the 33 flash operations
  reports success.\<close>

theorem boot_updates_survive:
  assumes "entry_at B s p k d" "pf_wf s" "board_wf B" "bd_wf d" "bd_version d = kBootDataVersion2"
    "unat (bd_counter d) + length xs < 2 ^ 32" "sessions_ok B d xs s"
  shows "\<exists>es s'. run_sessions B xs s = Some (es, s') \<and>
    list_all2 (\<lambda>x e. 34 \<le> ses_power x \<longrightarrow> e = kErrorOk_value) xs es \<and>
    (\<forall>lc_state y n. \<exists>s''. boot_data_read (power_hw B) lc_state y (power_up n s') = Some (kErrorOk_value, kept B d xs es, s'') \<and>
       pf_page s'' = pf_page s')"
proof -
  from sessions_run [OF assms] obtain es s' q i where run: "run_sessions B xs s = Some (es, s')" "pf_wf s'"
    "list_all2 (\<lambda>x e. 34 \<le> ses_power x \<longrightarrow> e = kErrorOk_value) xs es" "entry_at B s' q i (kept B d xs es)"
    "bd_wf (kept B d xs es)" "bd_version (kept B d xs es) = kBootDataVersion2" by blast
  have "entry_at B (power_up n s') q i (kept B d xs es)" for n
    using run(4) by (simp add: entry_at_def)
  from read_entry [OF this _ run(5,6)] run(1-3) show ?thesis by auto
qed

definition sample_board :: board where
  "sample_board = \<lparr>board_sha = (\<lambda>m. [last m, 0, 0, 0, 0, 0, 0, 0]), board_otp = (\<lambda>a. 3),
     board_prod_en = 0, board_rom_ext = 4, board_bl0 = 8\<rparr>"

definition sample_data :: "u32 \<Rightarrow> boot_data" where
  "sample_data slot = (bd_of_words (replicate 32 0))\<lparr>bd_version := kBootDataVersion2, bd_primary_bl0_slot := slot\<rparr>"

definition sample_store :: power_flash where
  "sample_store = \<lparr>pf_page = (\<lambda>p. replicate 512 kFlashCtrlErasedWord)
       (kFlashCtrlInfoPageBootData0 := put_entry (replicate 512 kFlashCtrlErasedWord) 0
          (bd_words (new_entry sample_board 6 (sample_data kBootSlotA)))),
     pf_perms = (\<lambda>p. no_perms), pf_power = 0, pf_torn_word = 0, pf_torn_page = replicate 512 kFlashCtrlErasedWord,
     pf_sec_writes = 0, pf_sec_announced = 0\<rparr>"

definition sample_session :: "nat \<Rightarrow> session" where
  "sample_session n = \<lparr>ses_power = n, ses_torn_word = 0xf0f0f0f0, ses_torn_page = replicate 512 kFlashCtrlErasedWord,
     ses_data = sample_data kBootSlotB\<rparr>"

lemma sample_board_wf: "board_wf sample_board"
  by (simp add: board_wf_def sample_board_def)

lemma sample_data_wf: "bd_wf (sample_data slot)" "bd_version (sample_data slot) = kBootDataVersion2"
  by (simp_all add: sample_data_def bd_wf_def bd_of_words_def)

lemma sample_sum: "xor_sum ((!) (board_sha sample_board m)) [0..<8] = last m"
  by (simp add: xor_sum_def sample_board_def upt_rec)

lemma sample_no_collision: "no_torn_collision sample_board 0xf0f0f0f0 (bd_words (new_entry sample_board c (sample_data slot)))"
proof -
  let ?d = "new_entry sample_board c (sample_data slot)"
  have len: "length (bd_words ?d) = 32"
    using new_entry_wf [OF sample_board_wf sample_data_wf(1)] by simp
  have "last (bd_words ?d) = 0"
    by (simp add: bd_words_def new_entry_def sample_data_def bd_of_words_def Let_def)
  moreover have ne: "bd_words ?d \<noteq> []" "drop 8 (bd_words ?d) \<noteq> []"
    using len by auto
  ultimately have "bd_words ?d ! 31 = 0" using len last_conv_nth [OF ne(1)] by simp
  moreover have "last (drop 8 (partial_entry n x e)) = partial_entry n x e ! 31" for n x e
    using last_conv_nth [of "drop 8 (partial_entry n x e)"] length_partial_entry [of n x e] by force
  moreover have "last (drop 8 (bd_words ?d)) = bd_words ?d ! 31"
    using len last_conv_nth [OF ne(2)] by simp
  ultimately show ?thesis
    by (auto simp: no_torn_collision_def sample_sum nth_partial_entry Let_def kFlashCtrlErasedWord_def)
qed

lemma sample_stored: "entry_at sample_board sample_store kFlashCtrlInfoPageBootData0 0 (new_entry sample_board 6 (sample_data kBootSlotA))"
proof -
  let ?d = "new_entry sample_board 6 (sample_data kBootSlotA)"
  have len: "length (bd_words ?d) = 32"
    using new_entry_wf [OF sample_board_wf sample_data_wf(1)] by simp
  have "stored (board_sha sample_board) (pf_page sample_store) kFlashCtrlInfoPageBootData0 0"
    unfolding sample_store_def power_flash.simps
    using new_entry_valid(1) [OF sample_board_wf sample_data_wf(1)] len
    by (intro stored_new_page) (simp_all add: boot_page_def)
  then show ?thesis
    using len by (simp add: entry_at_def sample_store_def entry_put_entry)
qed

lemma sample_session_ok: "session_ok sample_board (new_entry sample_board c d) (sample_session n) s"
  using sample_no_collision [of "c + 1" kBootSlotB] sample_data_wf [of kBootSlotB]
  by (simp add: session_ok_def sample_session_def torn_erase_def start_session_def)

lemma sample_sessions_ok: "sessions_ok sample_board (new_entry sample_board c d) (map sample_session ns) s"
proof (induction ns arbitrary: c d s)
  case (Cons n ns)
  then show ?case by (simp add: sample_session_ok split: option.splits)
qed simp

lemma sample_store_wf: "pf_wf sample_store"
  using new_entry_wf [OF sample_board_wf sample_data_wf(1)] by (simp add: pf_wf_def sample_store_def)

text \<open>The power fails in the second write of the first session, and lasts in the second session.\<close>

theorem boot_updates_survive_witness:
  "\<exists>es s'. run_sessions sample_board (map sample_session [12, 40]) sample_store = Some (es, s') \<and>
    list_all2 (\<lambda>x e. 34 \<le> ses_power x \<longrightarrow> e = kErrorOk_value) (map sample_session [12, 40]) es \<and>
    (\<forall>lc_state y n. \<exists>s''. boot_data_read (power_hw sample_board) lc_state y (power_up n s') =
       Some (kErrorOk_value, kept sample_board (new_entry sample_board 6 (sample_data kBootSlotA)) (map sample_session [12, 40]) es, s'') \<and>
       pf_page s'' = pf_page s')"
proof (rule boot_updates_survive [OF sample_stored sample_store_wf sample_board_wf _ _ _ sample_sessions_ok])
  show "bd_wf (new_entry sample_board 6 (sample_data kBootSlotA))"
    "bd_version (new_entry sample_board 6 (sample_data kBootSlotA)) = kBootDataVersion2"
    using new_entry_wf [OF sample_board_wf sample_data_wf(1)] sample_data_wf(2) by simp_all
  show "unat (bd_counter (new_entry sample_board 6 (sample_data kBootSlotA))) + length (map sample_session [12, 40]) < 2 ^ 32"
    by simp
qed

text \<open>On a blank store the code falls back to the default entry in the test, development and RMA states and, when the
  OTP allows it, in production; it passes the check and takes the security versions from the OTP.
  Otherwise it reports that nothing was found, and an unknown life cycle state traps.\<close>

lemma boot_data_default_policy:
  assumes "blank (board_sha B) (pf_page s)" "pf_wf s" "board_wf B"
  shows "if lc_state \<notin> {kLcStateTest, kLcStateDev, kLcStateProd, kLcStateProdEnd, kLcStateRma}
    then boot_data_read (power_hw B) lc_state x s = None
    else if lc_state \<in> {kLcStateProd, kLcStateProdEnd} \<and> board_otp B (board_prod_en B) \<noteq> kHardenedBoolTrue
    then \<exists>s'. boot_data_read (power_hw B) lc_state x s = Some (kErrorBootDataNotFound, x, s')
    else \<exists>d s'. boot_data_read (power_hw B) lc_state x s = Some (kErrorOk_value, d, s') \<and>
      entry_valid (board_sha B) (bd_words d) \<and> bd_counter d = 5 \<and> bd_version d = kBootDataVersion2 \<and>
      bd_primary_bl0_slot d = kBootSlotA \<and> bd_min_security_version_rom_ext d = board_otp B (board_rom_ext B) \<and>
      bd_min_security_version_bl0 d = board_otp B (board_bl0 B)"
proof -
  let ?c = "(bd_of_words (replicate 32 0))\<lparr>bd_is_valid := kBootDataValidEntry, bd_identifier := kBootDataIdentifier,
      bd_version := kBootDataVersion2, bd_counter := kBootDataDefaultCounterVal,
      bd_min_security_version_rom_ext := board_otp B (board_rom_ext B),
      bd_min_security_version_bl0 := board_otp B (board_bl0 B), bd_primary_bl0_slot := kBootSlotA\<rparr>"
  let ?d = "?c\<lparr>bd_digest := boot_data_digest_compute (power_hw B) ?c\<rparr>"
  have read: "boot_data_read (power_hw B) lc_state x s = (case boot_data_default_get (power_hw B) lc_state x of
      None \<Rightarrow> None | Some (e, d) \<Rightarrow> Some (e, d, pf.after_search B s))"
    using pf.read_nothing [OF assms(2), of B lc_state x] page_scan_blank [OF assms(1)] by (simp add: boot_page_def)
  note states = kLcStateTest_def kLcStateDev_def kLcStateProd_def kLcStateProdEnd_def kLcStateRma_def
  have codes: "kErrorBootDataNotFound \<noteq> kErrorOk_value" by code_simp
  have get: "boot_data_default_get (power_hw B) lc_state x =
     (if lc_state \<notin> {kLcStateTest, kLcStateDev, kLcStateProd, kLcStateProdEnd, kLcStateRma} then None
      else if lc_state \<in> {kLcStateProd, kLcStateProdEnd} \<and> board_otp B (board_prod_en B) \<noteq> kHardenedBoolTrue
      then Some (kErrorBootDataNotFound, x)
      else Some (kErrorOk_value, ?d))"
    using codes by (simp add: boot_data_default_get_def Let_def xor_ac power_hw_def states)
  have "new_entry B 5 ?c = ?d"
    by (simp add: new_entry_def boot_data_digest_compute_def Let_def kBootDataDefaultCounterVal_def bd_of_words_def)
  moreover have "bd_wf ?c" by (simp add: bd_wf_def bd_of_words_def)
  ultimately have "entry_valid (board_sha B) (bd_words ?d)"
    using new_entry_valid(1) [OF assms(3), of ?c 5] by simp
  then show ?thesis
    unfolding read get by (simp add: kBootDataDefaultCounterVal_def)
qed

definition blank_store :: power_flash where
  "blank_store = sample_store\<lparr>pf_page := (\<lambda>p. replicate 512 kFlashCtrlErasedWord)\<rparr>"

lemma blank_store_ok: "blank (board_sha sample_board) (pf_page blank_store)" "pf_wf blank_store"
  by (simp_all add: blank_store_def blank_def pf_wf_def sample_store_def)

lemma boot_data_default_policy_witness:
  "\<exists>d s'. boot_data_read (power_hw sample_board) kLcStateDev (sample_data 0) blank_store = Some (kErrorOk_value, d, s') \<and>
      entry_valid (board_sha sample_board) (bd_words d) \<and> bd_counter d = 5 \<and> bd_version d = kBootDataVersion2 \<and>
      bd_primary_bl0_slot d = kBootSlotA \<and> bd_min_security_version_rom_ext d = board_otp sample_board (board_rom_ext sample_board) \<and>
      bd_min_security_version_bl0 d = board_otp sample_board (board_bl0 sample_board)"
proof -
  have "kLcStateDev \<noteq> kLcStateProd" "kLcStateDev \<noteq> kLcStateProdEnd"
    by (simp_all add: kLcStateDev_def kLcStateProd_def kLcStateProdEnd_def)
  then show ?thesis
    using boot_data_default_policy [OF blank_store_ok sample_board_wf, of kLcStateDev "sample_data 0"] by simp
qed

text \<open>On a blank store the first update either succeeds, and its data is read back with counter 6, or leaves
  the store blank; it succeeds when the power lasts for its 31 flash operations.\<close>

lemma boot_first_update:
  assumes "blank (board_sha B) (pf_page s)" "update_ok B s kBootDataDefaultCounterVal bd"
    "torn_erase B s kFlashCtrlInfoPageBootData0" "bd_version bd = kBootDataVersion2"
  shows "\<exists>e s'. boot_data_write (power_hw B) last_entry bd s = Some (e, s') \<and> (32 \<le> pf_power s \<longrightarrow> e = kErrorOk_value) \<and>
    (if e = kErrorOk_value then \<exists>s''. boot_data_read (power_hw B) lc_state x s' = Some (kErrorOk_value, new_entry B 6 bd, s'')
     else blank (board_sha B) (pf_page s'))"
proof -
  obtain e s' where e: "boot_data_write (power_hw B) last_entry bd s = Some (e, s')" "pf_wf s'"
    "if e = kErrorOk_value then entry_at B s' kFlashCtrlInfoPageBootData0 0 (new_entry B (kBootDataDefaultCounterVal + 1) bd)
     else pf_power s < 32 \<and> blank (board_sha B) (pf_page s')"
    using update_blank [OF assms(1-3)] by blast
  have six: "kBootDataDefaultCounterVal + 1 = 6" by (simp add: kBootDataDefaultCounterVal_def)
  have "bd_wf (new_entry B 6 bd)" using assms(2) by (intro new_entry_wf) (simp_all add: update_ok_def)
  then show ?thesis
    using e read_entry [of B s' kFlashCtrlInfoPageBootData0 0 "new_entry B 6 bd" lc_state x] assms(4)
    unfolding six by (auto split: if_splits)
qed

lemma boot_first_update_witness:
  "\<exists>e s'. boot_data_write (power_hw sample_board) (sample_data 0) (sample_data kBootSlotB)
       (blank_store\<lparr>pf_power := 20, pf_torn_word := 0xf0f0f0f0\<rparr>) = Some (e, s') \<and>
     (32 \<le> (20 :: nat) \<longrightarrow> e = kErrorOk_value) \<and>
    (if e = kErrorOk_value then \<exists>s''. boot_data_read (power_hw sample_board) kLcStateProd (sample_data 0) s' =
       Some (kErrorOk_value, new_entry sample_board 6 (sample_data kBootSlotB), s'')
     else blank (board_sha sample_board) (pf_page s'))"
proof -
  let ?s = "blank_store\<lparr>pf_power := 20, pf_torn_word := 0xf0f0f0f0\<rparr>"
  have "blank (board_sha sample_board) (pf_page ?s)" "pf_wf ?s" "torn_erase sample_board ?s kFlashCtrlInfoPageBootData0"
    using blank_store_ok by (simp_all add: pf_wf_def torn_erase_def) (simp add: blank_store_def sample_store_def)
  moreover from this(2) have "update_ok sample_board ?s kBootDataDefaultCounterVal (sample_data kBootSlotB)"
    using sample_no_collision sample_board_wf sample_data_wf by (simp add: update_ok_def)
  ultimately show ?thesis
    using boot_first_update [of sample_board ?s "sample_data kBootSlotB" "sample_data 0" kLcStateProd "sample_data 0"] sample_data_wf
    by simp
qed

section \<open>Permissions and announced writes\<close>

text \<open>
  What is relied on of the drivers, whatever their reads, writes and erases do and return, errors
  included: only \<open>info_perms_set\<close> changes the permission registers, that of its page, and it is one
  security-critical register write (nothing is said of pages other than the two of the boot data, whose
  registers may be locked); \<open>sec_mmio_write_increment\<close> announces such writes. \<open>perms\<close>, \<open>made\<close>
  and \<open>announced\<close> observe the hardware.
\<close>

lemma HARDENED_CHECK_Some: "HARDENED_CHECK c = Some x \<longleftrightarrow> c"
  by (cases c) auto

locale info_registers =
  fixes H :: "('h, 'm) boot_hw_scheme"
    and perms :: "'h \<Rightarrow> flash_ctrl_info_page \<Rightarrow> flash_ctrl_perms"
    and made :: "'h \<Rightarrow> nat" and announced :: "'h \<Rightarrow> nat"
  assumes set_perms: "boot_page p \<Longrightarrow> perms (info_perms_set H p pm h) = (perms h)(p := pm)"
      "boot_page p \<Longrightarrow> made (info_perms_set H p pm h) = made h + 1"
      "boot_page p \<Longrightarrow> announced (info_perms_set H p pm h) = announced h"
    and increment: "perms (sec_mmio_write_increment H n h) = perms h"
      "made (sec_mmio_write_increment H n h) = made h" "announced (sec_mmio_write_increment H n h) = announced h + n"
    and read_frame: "info_read H p a n h = (e, ws, t) \<Longrightarrow> perms t = perms h \<and> made t = made h \<and> announced t = announced h"
    and write_frame: "info_write H p a ws h = (e, t) \<Longrightarrow> perms t = perms h \<and> made t = made h \<and> announced t = announced h"
    and erase_frame: "info_erase_page H p h = (e, t) \<Longrightarrow> perms t = perms h \<and> made t = made h \<and> announced t = announced h"
begin

definition framed :: "'h \<Rightarrow> 'h \<Rightarrow> bool" where
  "framed s t \<longleftrightarrow> perms t = perms s \<and> made t = made s \<and> announced t = announced s"

text \<open>The registers after a bracket of two permission writes around a framed call.\<close>

definition bracketed :: "flash_ctrl_info_page \<Rightarrow> 'h \<Rightarrow> 'h \<Rightarrow> bool" where
  "bracketed p s t \<longleftrightarrow> perms t = (perms s)(p := no_perms) \<and> made t + announced s = made s + announced t"

lemma framed_trans: "framed s t \<Longrightarrow> framed t u \<Longrightarrow> framed s u"
  by (simp add: framed_def)

lemma framed_refl [simp]: "framed s s"
  by (simp add: framed_def)

lemma framed_ops:
  "info_read H p a n s = (e, ws, t) \<Longrightarrow> framed s t" "info_write H p a ws s = (e, t) \<Longrightarrow> framed s t"
  "info_erase_page H p s = (e, t) \<Longrightarrow> framed s t"
  unfolding framed_def by (rule read_frame write_frame erase_frame; assumption)+

lemma bracketI:
  "boot_page p \<Longrightarrow> framed (info_perms_set H p pm s) t \<Longrightarrow>
     bracketed p s (sec_mmio_write_increment H (2 * kFlashCtrlSecMmioInfoPermsSet) (info_perms_set H p no_perms t))"
  by (simp add: framed_def bracketed_def set_perms increment kFlashCtrlSecMmioInfoPermsSet_def)

lemma sniff_framed: "boot_data_sniff H p i s = (e, m, t) \<Longrightarrow> framed s t"
  by (auto simp: boot_data_sniff_def split: prod.splits if_splits dest: framed_ops(1))

lemma entry_read_framed: "boot_data_entry_read H p i s = (e, m, t) \<Longrightarrow> framed s t"
  by (auto simp: boot_data_entry_read_def split: prod.splits dest: framed_ops(1))

lemma find_empty_framed: "find_empty H p n i sr s = Some (e, sr', he, fe, t) \<Longrightarrow> framed s t"
proof (induction n arbitrary: i sr s)
  case (Suc n)
  from Suc.prems show ?case
    by (auto simp: Let_def HARDENED_CHECK_Some bind_eq_Some_conv split: prod.splits if_splits
        dest!: sniff_framed entry_read_framed Suc.IH intro: framed_trans)
qed simp

lemma find_valid_framed: "find_valid H p i sr s = Some (e, v, t) \<Longrightarrow> framed s t"
proof (induction i arbitrary: s)
  case (Suc i)
  from Suc.prems show ?case
    by (auto simp: Let_def HARDENED_CHECK_Some bind_eq_Some_conv split: prod.splits if_splits
        dest!: entry_read_framed Suc.IH intro: framed_trans)
qed simp

lemma page_info_impl_framed:
  assumes "boot_data_page_info_update_impl H p pi bd h = Some (e', pi', bd', u)"
  shows "framed h u \<and> (pi' = pi \<or> ap_page pi' = Some p)"
proof -
  obtain e1 sr he fe h1 where fe: "find_empty H p kBootDataEntriesPerPage 0 [] h = Some (e1, sr, he, fe, h1)"
    using assms by (auto simp: boot_data_page_info_update_impl_def bind_eq_Some_conv)
  show ?thesis
  proof (cases "e1 = kErrorOk_value")
    case False
    with assms find_empty_framed [OF fe] show ?thesis by (simp add: boot_data_page_info_update_impl_def fe)
  next
    case True
    obtain e2 valid h2 where fv: "find_valid H p fe sr h1 = Some (e2, valid, h2)"
      using assms True by (auto simp: boot_data_page_info_update_impl_def fe bind_eq_Some_conv)
    have "framed h h2" by (rule framed_trans [OF find_empty_framed [OF fe] find_valid_framed [OF fv]])
    with assms show ?thesis
      by (auto simp: boot_data_page_info_update_impl_def fe fv True HARDENED_CHECK_Some bind_eq_Some_conv Let_def
          split: if_splits option.splits)
  qed
qed

lemma page_info_bracketed:
  assumes "boot_data_page_info_update H p pi bd s = Some (e, pi', bd', t)" "boot_page p"
  shows "bracketed p s t \<and> (pi' = pi \<or> ap_page pi' = Some p)"
  using assms page_info_impl_framed bracketI
  by (fastforce simp: boot_data_page_info_update_def bind_eq_Some_conv)

lemma active_page_bracketed:
  assumes "boot_data_active_page_find H bd s = Some (e, pi, bd', t)"
  shows "\<exists>u. bracketed kFlashCtrlInfoPageBootData0 s u \<and> (t = u \<or> bracketed kFlashCtrlInfoPageBootData1 u t) \<and>
     (has_valid_entry pi = kHardenedBoolTrue \<longrightarrow> boot_page (the (ap_page pi)))"
  using assms
  by (fastforce simp: boot_data_active_page_find_def bind_eq_Some_conv boot_page_def split: if_splits
      dest!: page_info_bracketed)

lemma entry_write_bracketed:
  assumes "boot_data_entry_write H p i d er s = (e, t)" "boot_page p"
  shows "bracketed p s t"
proof -
  have "framed h u" if "boot_data_entry_write_impl H p i d er h = (e', u)" for h e' u
    using that by (auto simp: boot_data_entry_write_impl_def Let_def split: prod.splits if_splits
        dest!: framed_ops intro: framed_trans)
  with assms show ?thesis
    by (auto simp: boot_data_entry_write_def Let_def intro!: bracketI split: prod.splits)
qed

lemma invalidate_bracketed:
  "boot_data_entry_invalidate H p i s = (e, t) \<Longrightarrow> boot_page p \<Longrightarrow> bracketed p s t"
  by (auto simp: boot_data_entry_invalidate_def Let_def intro!: bracketI split: prod.splits dest: framed_ops)

end

text \<open>
  The first page of the boot data is left without permissions, the second one too unless it was
  never opened, no other page is touched, and the register writes made are the ones announced.
\<close>

definition tidy ::
  "('h \<Rightarrow> flash_ctrl_info_page \<Rightarrow> flash_ctrl_perms) \<Rightarrow> ('h \<Rightarrow> nat) \<Rightarrow> ('h \<Rightarrow> nat) \<Rightarrow> 'h \<Rightarrow> 'h \<Rightarrow> bool" where
  "tidy perms made announced s t \<longleftrightarrow>
     perms t kFlashCtrlInfoPageBootData0 = no_perms \<and>
     perms t kFlashCtrlInfoPageBootData1 \<in> {no_perms, perms s kFlashCtrlInfoPageBootData1} \<and>
     (\<forall>p. p \<noteq> kFlashCtrlInfoPageBootData0 \<and> p \<noteq> kFlashCtrlInfoPageBootData1 \<longrightarrow> perms t p = perms s p) \<and>
     made t + announced s = made s + announced t"

context info_registers
begin

abbreviation tidy_step :: "'h \<Rightarrow> 'h \<Rightarrow> bool" where "tidy_step \<equiv> tidy perms made announced"

lemma tidy_find:
  "bracketed kFlashCtrlInfoPageBootData0 s u \<Longrightarrow> t = u \<or> bracketed kFlashCtrlInfoPageBootData1 u t \<Longrightarrow> tidy_step s t"
  by (auto simp: tidy_def bracketed_def)

lemma tidy_bracketed: "tidy_step s t \<Longrightarrow> bracketed p t u \<Longrightarrow> boot_page p \<Longrightarrow> tidy_step s u"
  by (auto simp: tidy_def bracketed_def boot_page_def)

lemma read_tidy: "boot_data_read H lc_state bd s = Some (e, d, t) \<Longrightarrow> tidy_step s t"
  by (auto simp: boot_data_read_def bind_eq_Some_conv split: if_splits dest!: active_page_bracketed intro: tidy_find)

lemma write_tidy:
  assumes "boot_data_write H last_entry bd s = Some (e, t)"
  shows "tidy_step s t"
proof -
  obtain e1 ap le u where f: "boot_data_active_page_find H last_entry s = Some (e1, ap, le, u)"
  proof (cases "boot_data_active_page_find H last_entry s")
    case None
    with assms show ?thesis by (simp add: boot_data_write_def)
  next
    case (Some r)
    then show ?thesis using that by (cases r) auto
  qed
  from active_page_bracketed [OF f] have u: "tidy_step s u"
    and page: "has_valid_entry ap = kHardenedBoolTrue \<Longrightarrow> boot_page (the (ap_page ap))"
    by (auto intro: tidy_find)
  have written: "tidy_step s (snd (boot_data_entry_write H p i d er u))" if "boot_page p" for p i d er
    by (rule tidy_bracketed [OF u entry_write_bracketed [OF prod.collapse [symmetric] that] that])
  have both: "tidy_step s (snd (boot_data_entry_invalidate H q j (snd (boot_data_entry_write H p i d er u))))"
    if "boot_page p" "boot_page q" for p i d er q j
    by (rule tidy_bracketed [OF written [OF that(1)] invalidate_bracketed [OF prod.collapse [symmetric] that(2)] that(2)])
  have step: "tidy_step s t" if "(let (e, h) = boot_data_entry_write H p i d er u
      in if e \<noteq> kErrorOk_value then Some (e, h) else Some (boot_data_entry_invalidate H q j h)) = Some (e, t)"
      "boot_page p" "boot_page q" for p i d er q j
    using that(1) written [OF that(2), of i d er] both [OF that(2,3), of j i d er]
    by (cases "boot_data_entry_write H p i d er u") (auto split: if_splits dest: arg_cong [where f = snd])
  have other: "boot_page (if p = kFlashCtrlInfoPageBootData0 then kFlashCtrlInfoPageBootData1 else kFlashCtrlInfoPageBootData0)"
    for p by (simp add: boot_page_def)
  consider "e1 \<noteq> kErrorOk_value" | "e1 = kErrorOk_value" "has_valid_entry ap \<noteq> kHardenedBoolTrue"
    | "e1 = kErrorOk_value" "has_valid_entry ap = kHardenedBoolTrue" by blast
  then show ?thesis
  proof cases
    case 1
    with assms u show ?thesis by (simp add: boot_data_write_def f)
  next
    case 2
    with assms show ?thesis
      using written [of kFlashCtrlInfoPageBootData0]
      by (auto simp: boot_data_write_def f Let_def boot_page_def dest!: arg_cong [where f = snd])
  next
    case 3
    note run = assms [unfolded boot_data_write_def f bind.bind_lunit prod.case Let_def [of "_ :: boot_data"] Let_def [of "the _"]]
    show ?thesis
    proof (cases "has_empty_entry ap = kHardenedBoolTrue")
      case True
      with run 3 show ?thesis by (intro step [OF _ page page]) simp_all
    next
      case False
      with run 3 show ?thesis by (intro step [OF _ other page]) simp_all
    qed
  qed
qed

end

text \<open>The store of the other properties, where a power failure stops the flash, is one such hardware.\<close>

interpretation pf_registers: info_registers "power_hw B" pf_perms pf_sec_writes pf_sec_announced for B
  by unfold_locales
    (auto simp: pf_perms_set_def pf_increment_def pf_read_def pf_write_def pf_erase_def Let_def split: if_splits)

text \<open>
  A flash that fails: \<open>fl_results\<close> are the errors of the calls to come; a read gives zeros. When no
  result is left a call succeeds.
\<close>

record failing_flash =
  fl_results :: "u32 list"
  fl_perms :: "flash_ctrl_info_page \<Rightarrow> flash_ctrl_perms"
  fl_made :: nat
  fl_announced :: nat

definition fl_call :: "failing_flash \<Rightarrow> u32 \<times> failing_flash" where
  "fl_call s = (case fl_results s of [] \<Rightarrow> (kErrorOk_value, s) | r # rs \<Rightarrow> (r, s\<lparr>fl_results := rs\<rparr>))"

definition failing_hw :: "failing_flash boot_hw" where
  "failing_hw = \<lparr>info_read = (\<lambda>p a n s. case fl_call s of (e, s) \<Rightarrow> (e, replicate n 0, s)),
     info_write = (\<lambda>p a ws. fl_call), info_erase_page = (\<lambda>p. fl_call),
     info_perms_set = (\<lambda>p pm s. s\<lparr>fl_perms := (fl_perms s)(p := pm), fl_made := fl_made s + 1\<rparr>),
     sec_mmio_write_increment = (\<lambda>n s. s\<lparr>fl_announced := fl_announced s + n\<rparr>),
     hmac_sha256 = (\<lambda>_. replicate 8 0), otp_read32 = (\<lambda>_. 0), otp_DEFAULT_BOOT_DATA_IN_PROD_EN = 0,
     otp_MIN_SEC_VER_ROM_EXT = 0, otp_MIN_SEC_VER_BL0 = 0\<rparr>"

lemma failing_hw_simps [simp]:
  "info_read failing_hw p a n s = (case fl_call s of (e, s) \<Rightarrow> (e, replicate n 0, s))"
  "info_perms_set failing_hw p pm s = s\<lparr>fl_perms := (fl_perms s)(p := pm), fl_made := fl_made s + 1\<rparr>"
  "sec_mmio_write_increment failing_hw n s = s\<lparr>fl_announced := fl_announced s + n\<rparr>"
  by (simp_all add: failing_hw_def)

interpretation failing: info_registers failing_hw fl_perms fl_made fl_announced
  by unfold_locales (auto simp: failing_hw_def fl_call_def split: prod.splits list.splits)

text \<open>
  C16: on every path, errors of the flash included, \<open>boot_data_read\<close> and \<open>boot_data_write\<close> leave the first boot
  data page without permissions, the second one too unless it was never opened, and every other info page
  as it was, and they announce exactly the security-critical register writes they make. The flash may fail
  in any call and return anything; a run that ends in a hardened trap does not return.
\<close>

theorem boot_data_tidy:
  assumes "info_registers H perms made announced"
  shows "(case boot_data_read H lc_state bd s of None \<Rightarrow> True | Some (e, d, s') \<Rightarrow> tidy perms made announced s s') \<and>
   (case boot_data_write H last_entry bd s of None \<Rightarrow> True | Some (e, s') \<Rightarrow> tidy perms made announced s s')"
  using info_registers.read_tidy [OF assms] info_registers.write_tidy [OF assms]
  by (auto split: option.split)

text \<open>
  The second read of a write fails, after the permissions for the first page were set: the error is
  returned, and the page is closed again.
\<close>

theorem boot_data_tidy_witness:
  "\<exists>s'. boot_data_write failing_hw (bd_of_words []) (bd_of_words [])
      \<lparr>fl_results = [kErrorOk_value, kErrorFlashCtrlInfoRead], fl_perms = (\<lambda>p. no_perms), fl_made = 0, fl_announced = 0\<rparr> =
      Some (kErrorFlashCtrlInfoRead, s') \<and> (\<forall>p. fl_perms s' p = no_perms) \<and> fl_made s' = fl_announced s'"
proof -
  let ?s = "\<lparr>fl_results = [kErrorOk_value, kErrorFlashCtrlInfoRead], fl_perms = (\<lambda>p. no_perms), fl_made = 0, fl_announced = 0\<rparr>"
  have "\<exists>s'. boot_data_write failing_hw (bd_of_words []) (bd_of_words []) ?s = Some (kErrorFlashCtrlInfoRead, s')"
  proof -
    have n: "kBootDataEntriesPerPage = Suc (Suc 14)" by (simp add: kBootDataEntriesPerPage_def)
    have e: "kErrorFlashCtrlInfoRead \<noteq> kErrorOk_value" "kFlashCtrlErasedWord \<noteq> 0" by code_simp+
    have "find_empty failing_hw p (Suc (Suc m)) 0 [] t =
        Some (kErrorFlashCtrlInfoRead, [0, 0], kHardenedBoolFalse, 1, t\<lparr>fl_results := []\<rparr>)"
      if "fl_results t = [kErrorOk_value, kErrorFlashCtrlInfoRead]" for p t m
      using that e by (simp add: boot_data_sniff_def fl_call_def numeral_3_eq_3)
    note fe = this [of _ _ 14, folded n]
    have "\<exists>ap d s'. boot_data_active_page_find failing_hw (bd_of_words []) ?s = Some (kErrorFlashCtrlInfoRead, ap, d, s')"
      using e(1) by (simp add: boot_data_active_page_find_def boot_data_page_info_update_def
          boot_data_page_info_update_impl_def fe)
    then show ?thesis using e(1) by (auto simp: boot_data_write_def)
  qed
  then obtain s' where run: "boot_data_write failing_hw (bd_of_words []) (bd_of_words []) ?s = Some (kErrorFlashCtrlInfoRead, s')" by blast
  from boot_data_tidy [OF failing.info_registers_axioms, where lc_state = 0 and bd = "bd_of_words []" and s = ?s
      and last_entry = "bd_of_words []"] run
  have "tidy fl_perms fl_made fl_announced ?s s'" by simp
  then have "fl_perms s' p = no_perms" for p
    by (cases "p = kFlashCtrlInfoPageBootData0 \<or> p = kFlashCtrlInfoPageBootData1") (auto simp: tidy_def)
  with run \<open>tidy fl_perms fl_made fl_announced ?s s'\<close> show ?thesis by (auto simp: tidy_def)
qed

section \<open>The check\<close>

text \<open>The check \<open>boot_data_check\<close> compares the digests only through the exclusive or of their eight words: an accepted
  entry is still accepted after any value is added to two words of its digest.\<close>

lemma boot_data_check_blind:
  assumes "bd_wf d" "i < j" "j < 8" "boot_data_check H d = kErrorOk_value"
  shows "boot_data_check H (d\<lparr>bd_digest := (bd_digest d)[i := bd_digest d ! i XOR x, j := bd_digest d ! j XOR x]\<rparr>) = kErrorOk_value"
proof -
  let ?f = "(!) (bd_digest d)"
  let ?d = "d\<lparr>bd_digest := (bd_digest d)[i := ?f i XOR x, j := ?f j XOR x]\<rparr>"
  define g where "g = ?f(i := ?f i XOR x)"
  have "xor_sum ((!) (bd_digest ?d)) [0..<8] = xor_sum (g(j := g j XOR x)) [0..<8]"
    using assms(1-3) by (intro xor_sum_cong) (auto simp: g_def bd_wf_def nth_list_update)
  also have "\<dots> = xor_sum g [0..<8] XOR x" using assms(3) by (intro xor_sum_flip) auto
  also have "xor_sum g [0..<8] = xor_sum ?f [0..<8] XOR x"
    unfolding g_def using assms(2,3) by (intro xor_sum_flip) auto
  finally have "xor_sum ((!) (bd_digest ?d)) [0..<8] = xor_sum ?f [0..<8]" by (simp add: xor_ac)
  moreover have "boot_data_digest_compute H ?d = boot_data_digest_compute H d"
    using assms(1) by (simp add: boot_data_digest_compute_def bd_words_def bd_wf_def)
  moreover have "kErrorBootDataInvalid \<noteq> kErrorOk_value" by code_simp
  ultimately show ?thesis
    using assms(4) by (simp add: boot_data_check_eq split: if_splits)
qed

text \<open>The digest of the sample entry with 5 added to its first two words is not its hash, and is accepted.\<close>

lemma boot_data_check_blind_witness:
  "boot_data_check (power_hw sample_board) ((new_entry sample_board 6 (sample_data 0))
     \<lparr>bd_digest := (bd_digest (new_entry sample_board 6 (sample_data 0)))
       [0 := bd_digest (new_entry sample_board 6 (sample_data 0)) ! 0 XOR 5,
        1 := bd_digest (new_entry sample_board 6 (sample_data 0)) ! 1 XOR 5]\<rparr>) = kErrorOk_value"
proof (rule boot_data_check_blind)
  show wf: "bd_wf (new_entry sample_board 6 (sample_data 0))"
    by (rule new_entry_wf [OF sample_board_wf sample_data_wf(1)])
  show "boot_data_check (power_hw sample_board) (new_entry sample_board 6 (sample_data 0)) = kErrorOk_value"
    using check_words [of "bd_words (new_entry sample_board 6 (sample_data 0))" "power_hw sample_board"] wf
      new_entry_valid(1) [OF sample_board_wf sample_data_wf(1)] by simp
qed simp_all

end
