(* ===== verification/Hardened.thy ===== *)
theory Hardened
  imports Rom_Codes
begin

unbundle bit_operations_syntax

text \<open>
  The branch-free selections of \<open>sw/device/lib/base/hardened.h\<close>, the random traversal of
  \<open>random_order.c\<close> and the memory routines of \<open>hardened_memory.c\<close> that visit a buffer in that order.
  A buffer is the list of its words (bytes in the byte-wise routines), the source and the target do
  not overlap (\<open>restrict\<close>), and \<open>rnd\<close> is the source of random words, on the state \<open>'h\<close>. The laundering and
  barriers that keep the compiler from reordering are the identity. None is a hardened trap.
\<close>

section \<open>Constant-time booleans\<close>

definition ct_sltz32 :: "u32 \<Rightarrow> u32" where
  "ct_sltz32 a = signed_drop_bit 31 a"

definition ct_sltu32 :: "u32 \<Rightarrow> u32 \<Rightarrow> u32" where
  "ct_sltu32 a b = ct_sltz32 ((NOT a AND b) OR ((NOT a OR b) AND (a - b)))"

definition ct_seqz32 :: "u32 \<Rightarrow> u32" where
  "ct_seqz32 a = ct_sltz32 (NOT a AND (a - 1))"

definition ct_seq32 :: "u32 \<Rightarrow> u32 \<Rightarrow> u32" where
  "ct_seq32 a b = ct_seqz32 (a XOR b)"

definition ct_cmov32 :: "u32 \<Rightarrow> u32 \<Rightarrow> u32 \<Rightarrow> u32" where
  "ct_cmov32 c a b = (c AND a) OR (NOT c AND b)"

text \<open>The pointer-sized versions, on a machine whose pointers have 32 bits.\<close>

definition ct_sltzw :: "u32 \<Rightarrow> u32" where
  "ct_sltzw a = signed_drop_bit 31 a"

definition ct_sltuw :: "u32 \<Rightarrow> u32 \<Rightarrow> u32" where
  "ct_sltuw a b = ct_sltzw ((a AND NOT b) OR ((a XOR NOT b) AND (a - b)))"

definition ct_seqzw :: "u32 \<Rightarrow> u32" where
  "ct_seqzw a = ct_sltzw (NOT a AND (a - 1))"

definition ct_seqw :: "u32 \<Rightarrow> u32 \<Rightarrow> u32" where
  "ct_seqw a b = ct_seqzw (a XOR b)"

definition ct_cmovw :: "u32 \<Rightarrow> u32 \<Rightarrow> u32 \<Rightarrow> u32" where
  "ct_cmovw c a b = (c AND a) OR (NOT c AND b)"

definition ct_bool :: "bool \<Rightarrow> u32" where
  "ct_bool p = (if p then - 1 else 0)"

lemma signed_shift_sign: "signed_drop_bit 31 a = ct_bool (bit a 31)" for a :: u32
  by (rule bit_word_eqI)
    (auto simp: bit_signed_drop_bit_iff ct_bool_def min_def Suc_le_eq dest: bit_imp_le_length)

lemma bit_31_diff: "bit (a - b) 31 \<longleftrightarrow>
    (if unat b \<le> unat a then 2 ^ 31 \<le> unat a - unat b else 2 ^ 31 \<le> 2 ^ 32 + unat a - unat b)"
  for a b :: u32
proof (cases "unat b \<le> unat a")
  case True
  then show ?thesis by (simp add: bit_31 word_le_nat_alt unat_sub)
next
  case False
  then have "unat (a - b) = 2 ^ 32 + unat a - unat b"
    using unat_sub_if_size [of a b] by (simp add: word_size)
  with False show ?thesis by (simp add: bit_31)
qed

lemma ct_sltu32_less: "ct_sltu32 a b = ct_bool (a < b)"
proof -
  have "bit ((NOT a AND b) OR ((NOT a OR b) AND (a - b))) 31 \<longleftrightarrow> unat a < unat b"
    using unat_u32_less [of a] unat_u32_less [of b]
    by (simp add: bit_or_iff bit_and_iff bit_not_iff bit_31_diff) (simp add: bit_31, arith)
  then show ?thesis by (simp add: ct_sltu32_def ct_sltz32_def signed_shift_sign word_less_nat_alt)
qed

lemma ct_seqz32_zero: "ct_seqz32 a = ct_bool (a = 0)"
proof -
  have "bit (NOT a AND (a - 1)) 31 \<longleftrightarrow> unat a = 0"
    using unat_u32_less [of a] bit_31_diff [of a 1]
    by (simp add: bit_and_iff bit_not_iff) (simp add: bit_31, arith)
  then show ?thesis by (simp add: ct_seqz32_def ct_sltz32_def signed_shift_sign unat_eq_0)
qed

lemma ct_seq32_eq: "ct_seq32 a b = ct_bool (a = b)"
  by (simp add: ct_seq32_def ct_seqz32_zero xor_eq_0_iff_word)

lemma ct_cmov32_if: "ct_cmov32 (ct_bool p) a b = (if p then a else b)"
  by (simp add: ct_cmov32_def ct_bool_def)

text \<open>
  The pointer-sized comparison has the operands of its first term exchanged.
\<close>

lemma ct_sltuw_wrong:
  "ct_sltuw a b = ct_bool (if bit a 31 = bit b 31 then a < b else b < a)"
proof -
  have "bit ((a AND NOT b) OR ((a XOR NOT b) AND (a - b))) 31 \<longleftrightarrow>
      (if bit a 31 = bit b 31 then unat a < unat b else unat b < unat a)"
    using unat_u32_less [of a] unat_u32_less [of b]
    by (simp add: bit_or_iff bit_and_iff bit_xor_iff bit_not_iff bit_31_diff) (simp add: bit_31, arith)
  then show ?thesis by (simp add: ct_sltuw_def ct_sltzw_def signed_shift_sign word_less_nat_alt)
qed

lemma ct_equal_words: "ct_seqzw = ct_seqz32" "ct_seqw = ct_seq32" "ct_cmovw = ct_cmov32"
  by (simp_all add: fun_eq_iff ct_seqzw_def ct_sltzw_def ct_seqz32_def ct_sltz32_def ct_seqw_def
      ct_seq32_def ct_cmovw_def ct_cmov32_def)

section \<open>Random order\<close>

record random_order =
  ro_state :: u32
  ro_max :: u32
  ro_ctr :: u32

definition random_order_init :: "('h \<Rightarrow> u32 \<times> 'h) \<Rightarrow> u32 \<Rightarrow> 'h \<Rightarrow> random_order \<times> 'h" where
  "random_order_init rnd min_len h =
     (let (st, h) = (if min_len > 0 then case rnd h of (r, h) \<Rightarrow> (r mod min_len, h) else (0, h))
      in (\<lparr>ro_state = st, ro_max = min_len, ro_ctr = 0\<rparr>, h))"

definition random_order_len :: "random_order \<Rightarrow> u32" where
  "random_order_len ctx = ro_max ctx"

definition random_order_advance :: "random_order \<Rightarrow> (u32 \<times> random_order) option" where
  "random_order_advance ctx =
     (let out = ro_state ctx;
          next_st = ro_state ctx + 1;
          next_overflow = next_st - ro_max ctx;
          which = ct_sltu32 next_st (ro_max ctx);
          ctx = ctx\<lparr>ro_state := ct_cmov32 which next_st next_overflow, ro_ctr := ro_ctr ctx + 1\<rparr>
      in do { HARDENED_CHECK (ro_state ctx \<le> ro_max ctx); Some (out, ctx) })"

definition order_done :: "random_order \<Rightarrow> unit option" where
  "order_done ctx = HARDENED_CHECK (ro_max ctx = ro_ctr ctx)"

text \<open>The loop the routines share: \<open>count\<close> more turns, each on the next index.\<close>

fun order_loop :: "(nat \<Rightarrow> 's \<Rightarrow> 's) \<Rightarrow> nat \<Rightarrow> random_order \<Rightarrow> 's \<Rightarrow> (random_order \<times> 's) option" where
  "order_loop body 0 order s = Some (order, s)"
| "order_loop body (Suc count) order s = do {
     (idx, order) \<leftarrow> random_order_advance order;
     order_loop body count order (body (unat idx) s) }"

definition random_traversal ::
  "('h \<Rightarrow> u32 \<times> 'h) \<Rightarrow> u32 \<Rightarrow> (nat \<Rightarrow> 's \<times> 'h \<Rightarrow> 's \<times> 'h) \<Rightarrow> 's \<Rightarrow> 'h \<Rightarrow> (random_order \<times> 's \<times> 'h) option" where
  "random_traversal rnd len body s h =
     (let (order, h) = random_order_init rnd len h in order_loop body (unat len) order (s, h))"

text \<open>With the check that the order is used up, which every routine but \<open>consttime_memeq_byte\<close> makes.\<close>

definition in_random_order ::
  "('h \<Rightarrow> u32 \<times> 'h) \<Rightarrow> u32 \<Rightarrow> (nat \<Rightarrow> 's \<times> 'h \<Rightarrow> 's \<times> 'h) \<Rightarrow> 's \<Rightarrow> 'h \<Rightarrow> ('s \<times> 'h) option" where
  "in_random_order rnd len body s h = do {
     (order, s, h) \<leftarrow> random_traversal rnd len body s h;
     order_done order;
     Some (s, h) }"

lemma random_traversal_checked:
  "in_random_order rnd len body s h = Some (s', h') \<Longrightarrow>
     \<exists>order. random_traversal rnd len body s h = Some (order, s', h')"
  by (auto simp: in_random_order_def bind_eq_Some_conv)

section \<open>Memory routines\<close>

text \<open>
  They return \<open>OTCRYPTO_OK\<close> whenever they return, so the model leaves the status out; the result is
  the target buffer. The indices are those of the words; the code multiplies them by 4 to address them.
\<close>

definition hardened_memcpy ::
  "('h \<Rightarrow> u32 \<times> 'h) \<Rightarrow> u32 list \<Rightarrow> u32 list \<Rightarrow> u32 \<Rightarrow> 'h \<Rightarrow> (u32 list \<times> 'h) option" where
  "hardened_memcpy rnd dest src word_len h =
     in_random_order rnd word_len (\<lambda>i (dest, h). (dest[i := src ! i], h)) dest h"

definition hardened_memshred :: "('h \<Rightarrow> u32 \<times> 'h) \<Rightarrow> u32 list \<Rightarrow> u32 \<Rightarrow> 'h \<Rightarrow> (u32 list \<times> 'h) option" where
  "hardened_memshred rnd dest word_len h =
     in_random_order rnd word_len (\<lambda>i (dest, h). case rnd h of (w, h) \<Rightarrow> (dest[i := w], h)) dest h"

definition memeq_result :: "u32 \<times> u32 \<Rightarrow> u32 option" where
  "memeq_result = (\<lambda>(zeros, ones).
     if zeros = 0 then do { HARDENED_CHECK (ones = - 1); Some kHardenedBoolTrue }
     else do { HARDENED_CHECK (ones \<noteq> - 1); Some kHardenedBoolFalse })"

definition hardened_memeq ::
  "('h \<Rightarrow> u32 \<times> 'h) \<Rightarrow> u32 list \<Rightarrow> u32 list \<Rightarrow> u32 \<Rightarrow> 'h \<Rightarrow> (u32 \<times> 'h) option" where
  "hardened_memeq rnd lhs rhs word_len h = do {
     (acc, h) \<leftarrow> in_random_order rnd word_len
       (\<lambda>i ((zeros, ones), h). ((zeros OR (lhs ! i XOR rhs ! i), ones AND (lhs ! i XOR NOT (rhs ! i))), h)) (0, - 1) h;
     eq \<leftarrow> memeq_result acc;
     Some (eq, h) }"

definition consttime_memeq_byte ::
  "('h \<Rightarrow> u32 \<times> 'h) \<Rightarrow> u8 list \<Rightarrow> u8 list \<Rightarrow> u32 \<Rightarrow> 'h \<Rightarrow> (u32 \<times> 'h) option" where
  "consttime_memeq_byte rnd lhs rhs len h = do {
     (_, acc, h) \<leftarrow> random_traversal rnd len
       (\<lambda>i ((zeros, ones), h). ((zeros OR (ucast (lhs ! i) XOR ucast (rhs ! i)),
           ones AND (ucast (lhs ! i) XOR NOT (ucast (rhs ! i)))), h)) (0, - 1) h;
     eq \<leftarrow> memeq_result acc;
     Some (eq, h) }"

text \<open>The local array \<open>rand\<close> is filled before it is read; the zeros stand for its first contents.\<close>

definition hardened_xor ::
  "('h \<Rightarrow> u32 \<times> 'h) \<Rightarrow> u32 list \<Rightarrow> u32 list \<Rightarrow> u32 \<Rightarrow> u32 list \<Rightarrow> 'h \<Rightarrow> (u32 list \<times> 'h) option" where
  "hardened_xor rnd x y word_len dest h = do {
     (dest, h) \<leftarrow> hardened_memshred rnd dest word_len h;
     (rand, h) \<leftarrow> hardened_memshred rnd (replicate (unat word_len) 0) word_len h;
     in_random_order rnd word_len
       (\<lambda>i (dest, h).
          let dest = dest[i := x ! i XOR rand ! i];
              dest = dest[i := dest ! i XOR y ! i];
              dest = dest[i := dest ! i XOR rand ! i]
          in (dest, h)) dest h }"

definition hardened_xor_in_place ::
  "('h \<Rightarrow> u32 \<times> 'h) \<Rightarrow> u32 list \<Rightarrow> u32 list \<Rightarrow> u32 \<Rightarrow> 'h \<Rightarrow> (u32 list \<times> 'h) option" where
  "hardened_xor_in_place rnd x y word_len h =
     in_random_order rnd word_len (\<lambda>i (x, h). (x[i := x ! i XOR y ! i], h)) x h"

definition randomized_bytecopy ::
  "('h \<Rightarrow> u32 \<times> 'h) \<Rightarrow> u8 list \<Rightarrow> u8 list \<Rightarrow> u32 \<Rightarrow> 'h \<Rightarrow> (u8 list \<times> 'h) option" where
  "randomized_bytecopy rnd dest src byte_len h =
     in_random_order rnd byte_len (\<lambda>i (dest, h). (dest[i := src ! i], h)) dest h"

definition randomized_bytexor_in_place ::
  "('h \<Rightarrow> u32 \<times> 'h) \<Rightarrow> u8 list \<Rightarrow> u8 list \<Rightarrow> u32 \<Rightarrow> 'h \<Rightarrow> (u8 list \<times> 'h) option" where
  "randomized_bytexor_in_place rnd x y byte_len h =
     in_random_order rnd byte_len (\<lambda>i (x, h). (x[i := x ! i XOR y ! i], h)) x h"

section \<open>Every index exactly once\<close>

lemma random_order_advance_step:
  assumes "ro_state ctx < ro_max ctx"
  shows "\<exists>ctx'. random_order_advance ctx = Some (ro_state ctx, ctx') \<and> ro_max ctx' = ro_max ctx \<and>
     ro_ctr ctx' = ro_ctr ctx + 1 \<and> ro_state ctx' < ro_max ctx \<and>
     unat (ro_state ctx') = Suc (unat (ro_state ctx)) mod unat (ro_max ctx)"
proof -
  have lt: "unat (ro_state ctx) < unat (ro_max ctx)" using assms by (simp add: word_less_nat_alt)
  then have suc: "unat (ro_state ctx + 1) = Suc (unat (ro_state ctx))"
    using unat_u32_less [of "ro_max ctx"] by (simp add: unat_word_ariths)
  show ?thesis
  proof (cases "Suc (unat (ro_state ctx)) = unat (ro_max ctx)")
    case True
    then have "ro_state ctx + 1 = ro_max ctx" using suc by (simp add: word_unat_eq_iff)
    with True lt show ?thesis
      by (simp add: random_order_advance_def Let_def ct_sltu32_less ct_cmov32_if word_less_nat_alt)
  next
    case False
    with lt have "ro_state ctx + 1 < ro_max ctx" using suc by (simp add: word_less_nat_alt)
    moreover from this have "ro_state ctx + 1 \<le> ro_max ctx" by (rule order_less_imp_le)
    ultimately show ?thesis using False suc lt
      by (simp add: random_order_advance_def Let_def ct_sltu32_less ct_cmov32_if)
  qed
qed

lemma order_loop_run:
  assumes "ro_state ctx < ro_max ctx"
  shows "\<exists>ctx'. order_loop body k ctx s = Some (ctx',
       fold body (map (\<lambda>i. (unat (ro_state ctx) + i) mod unat (ro_max ctx)) [0..<k]) s) \<and>
     ro_max ctx' = ro_max ctx \<and> ro_ctr ctx' = ro_ctr ctx + of_nat k"
  using assms
proof (induction k arbitrary: ctx s)
  case 0
  then show ?case by simp
next
  case (Suc k)
  from random_order_advance_step [OF Suc.prems] obtain c where
    c: "random_order_advance ctx = Some (ro_state ctx, c)" "ro_max c = ro_max ctx"
      "ro_ctr c = ro_ctr ctx + 1" "ro_state c < ro_max c"
      "unat (ro_state c) = Suc (unat (ro_state ctx)) mod unat (ro_max ctx)" by auto
  have "(Suc (unat (ro_state ctx)) mod unat (ro_max ctx) + i) mod unat (ro_max ctx) =
      (unat (ro_state ctx) + Suc i) mod unat (ro_max ctx)" for i
    by (simp add: mod_simps)
  then have "map (\<lambda>i. (unat (ro_state c) + i) mod unat (ro_max c)) [0..<k] =
      map (\<lambda>i. (unat (ro_state ctx) + i) mod unat (ro_max ctx)) [Suc 0..<Suc k]"
    using c by (simp add: map_Suc_upt [symmetric] del: upt_Suc)
  moreover have "unat (ro_state ctx) mod unat (ro_max ctx) = unat (ro_state ctx)"
    using Suc.prems by (simp add: word_less_nat_alt)
  ultimately show ?case
    using Suc.IH [OF c(4), of "body (unat (ro_state ctx)) s"] c by (auto simp: upt_conv_Cons simp del: upt_Suc)
qed

text \<open>
  Whatever the random word, the traversal is a rotation of the indices: no index is left out or
  visited twice, and none of the hardened checks traps.
\<close>

definition start_index :: "('h \<Rightarrow> u32 \<times> 'h) \<Rightarrow> u32 \<Rightarrow> 'h \<Rightarrow> nat" where
  "start_index rnd len h = unat (fst (rnd h) mod len)"

definition after_start :: "('h \<Rightarrow> u32 \<times> 'h) \<Rightarrow> u32 \<Rightarrow> 'h \<Rightarrow> 'h" where
  "after_start rnd len h = (if len > 0 then snd (rnd h) else h)"

lemma in_random_order_fold:
  "in_random_order rnd len body s h =
     Some (fold body (rotate (start_index rnd len h) [0..<unat len]) (s, after_start rnd len h))"
proof (cases "len = 0")
  case True
  then show ?thesis
    by (simp add: in_random_order_def random_traversal_def random_order_init_def order_done_def after_start_def)
next
  case False
  then have pos: "0 < len" by (simp add: word_neq_0_conv)
  let ?k = "start_index rnd len h"
  define ctx where "ctx = \<lparr>ro_state = fst (rnd h) mod len, ro_max = len, ro_ctr = 0\<rparr>"
  have lt: "ro_state ctx < ro_max ctx"
    using pos by (simp add: ctx_def word_mod_less_divisor)
  have "map (\<lambda>i. (?k + i) mod unat len) [0..<unat len] = rotate ?k [0..<unat len]"
    using pos by (intro nth_equalityI) (simp_all add: nth_rotate word_less_nat_alt)
  moreover from order_loop_run [OF lt, of body "unat len" "(s, after_start rnd len h)"] obtain c where
    "order_loop body (unat len) ctx (s, after_start rnd len h) = Some (c,
       fold body (map (\<lambda>i. (?k + i) mod unat len) [0..<unat len]) (s, after_start rnd len h))"
    "ro_max c = len" "ro_ctr c = len"
    by (auto simp: ctx_def start_index_def)
  ultimately show ?thesis
    using pos by (simp add: in_random_order_def random_traversal_def random_order_init_def order_done_def after_start_def
        ctx_def case_prod_unfold)
qed

text \<open>The check at the end of a traversal never traps.\<close>

lemma random_traversal_bind:
  "Option.bind (random_traversal rnd len body s h) (\<lambda>(_, s, h). f s h) =
   Option.bind (in_random_order rnd len body s h) (\<lambda>(s, h). f s h)"
proof -
  obtain s' h' where r: "in_random_order rnd len body s h = Some (s', h')"
    unfolding in_random_order_fold by (metis surj_pair)
  with random_traversal_checked [OF r] show ?thesis by auto
qed

section \<open>What the routines compute\<close>

lemma fold_ignore_state: "fold (\<lambda>i (d, h). (g i d, h)) xs (d, h) = (fold g xs d, h)"
  by (induction xs arbitrary: d) simp_all

text \<open>A loop that replaces each word by a function of the word alone.\<close>

lemma length_fold_pointwise: "length (fold (\<lambda>i d. d[i := f i (d ! i)]) xs d) = length d"
  by (induction xs arbitrary: d) simp_all

lemma nth_fold_pointwise:
  "distinct xs \<Longrightarrow> j < length d \<Longrightarrow>
     fold (\<lambda>i d. d[i := f i (d ! i)]) xs d ! j = (if j \<in> set xs then f j (d ! j) else d ! j)"
proof (induction xs arbitrary: d)
  case (Cons a xs)
  then show ?case by (cases "j = a") auto
qed simp

lemma pointwise_in_random_order:
  assumes "unat len \<le> length d"
  shows "in_random_order rnd len (\<lambda>i (d, h). (d[i := f i (d ! i)], h)) d h =
     Some (map (\<lambda>i. f i (d ! i)) [0..<unat len] @ drop (unat len) d, after_start rnd len h)"
  unfolding in_random_order_fold fold_ignore_state using assms
  by (auto intro!: nth_equalityI simp: length_fold_pointwise nth_fold_pointwise nth_append)

lemma take_as_map: "n \<le> length xs \<Longrightarrow> map (\<lambda>i. xs ! i) [0..<n] = take n xs"
  by (rule nth_equalityI) simp_all

lemma hardened_memcpy_copies:
  "unat n \<le> length dest \<Longrightarrow> unat n \<le> length src \<Longrightarrow>
     hardened_memcpy rnd dest src n h = Some (take (unat n) src @ drop (unat n) dest, after_start rnd n h)"
  using pointwise_in_random_order [of n dest rnd "\<lambda>i _. src ! i" h]
  by (simp add: hardened_memcpy_def take_as_map)

lemma randomized_bytecopy_copies:
  "unat n \<le> length dest \<Longrightarrow> unat n \<le> length src \<Longrightarrow>
     randomized_bytecopy rnd dest src n h = Some (take (unat n) src @ drop (unat n) dest, after_start rnd n h)"
  using pointwise_in_random_order [of n dest rnd "\<lambda>i _. src ! i" h]
  by (simp add: randomized_bytecopy_def take_as_map)

lemma map2_as_map:
  "n \<le> length xs \<Longrightarrow> n \<le> length ys \<Longrightarrow>
     map (\<lambda>i. f (xs ! i) (ys ! i)) [0..<n] = map2 f (take n xs) (take n ys)"
  by (rule nth_equalityI) simp_all

lemma hardened_xor_in_place_xors:
  "unat n \<le> length x \<Longrightarrow> unat n \<le> length y \<Longrightarrow>
     hardened_xor_in_place rnd x y n h =
       Some (map2 (XOR) (take (unat n) x) (take (unat n) y) @ drop (unat n) x, after_start rnd n h)"
  using pointwise_in_random_order [of n x rnd "\<lambda>i v. v XOR y ! i" h]
  by (simp add: hardened_xor_in_place_def map2_as_map)

lemma randomized_bytexor_in_place_xors:
  "unat n \<le> length x \<Longrightarrow> unat n \<le> length y \<Longrightarrow>
     randomized_bytexor_in_place rnd x y n h =
       Some (map2 (XOR) (take (unat n) x) (take (unat n) y) @ drop (unat n) x, after_start rnd n h)"
  using pointwise_in_random_order [of n x rnd "\<lambda>i v. v XOR y ! i" h]
  by (simp add: randomized_bytexor_in_place_def map2_as_map)

lemma length_fold_shred:
  "length (fst (fold (\<lambda>i (d, h). case rnd h of (w, h) \<Rightarrow> (d[i := w], h)) xs (d, h))) = length d"
  by (induction xs arbitrary: d h) (simp_all add: case_prod_unfold)

lemma nth_fold_shred:
  "j \<notin> set xs \<Longrightarrow> fst (fold (\<lambda>i (d, h). case rnd h of (w, h) \<Rightarrow> (d[i := w], h)) xs (d, h)) ! j = d ! j"
  by (induction xs arbitrary: d h) (auto simp: case_prod_unfold)

lemma hardened_memshred_keeps:
  "\<exists>d' h'. hardened_memshred rnd d n h = Some (d', h') \<and> length d' = length d \<and>
     drop (unat n) d' = drop (unat n) d"
proof -
  let ?r = "fold (\<lambda>i (d, h). case rnd h of (w, h) \<Rightarrow> (d[i := w], h))
    (rotate (start_index rnd n h) [0..<unat n]) (d, after_start rnd n h)"
  have "hardened_memshred rnd d n h = Some ?r"
    unfolding hardened_memshred_def by (rule in_random_order_fold)
  moreover have "length (fst ?r) = length d" by (rule length_fold_shred)
  moreover have "drop (unat n) (fst ?r) = drop (unat n) d"
    by (rule nth_equalityI) (simp_all add: length_fold_shred nth_fold_shred)
  ultimately show ?thesis by (cases ?r) auto
qed

lemma hardened_xor_xors:
  assumes "unat n \<le> length x" "unat n \<le> length y" "unat n \<le> length dest"
  shows "\<exists>h'. hardened_xor rnd x y n dest h =
     Some (map2 (XOR) (take (unat n) x) (take (unat n) y) @ drop (unat n) dest, h')"
proof -
  from hardened_memshred_keeps [of rnd dest n h] obtain d1 h1 where
    d1: "hardened_memshred rnd dest n h = Some (d1, h1)" "length d1 = length dest"
      "drop (unat n) d1 = drop (unat n) dest" by auto
  from hardened_memshred_keeps [of rnd "replicate (unat n) 0" n h1] obtain rand h2 where
    r: "hardened_memshred rnd (replicate (unat n) 0) n h1 = Some (rand, h2)" by auto
  have "(let d = d[i := x ! i XOR rand ! i]; d = d[i := d ! i XOR y ! i];
        d = d[i := d ! i XOR rand ! i] in (d, h)) = (d[i := x ! i XOR y ! i], h)" for i d and h :: 'a
  proof (cases "i < length d")
    case True
    then show ?thesis by (simp add: Let_def xor.left_commute xor.commute xor.assoc)
  qed (simp add: Let_def linorder_not_less list_update_beyond)
  then have body: "(\<lambda>i (d, h). let d = d[i := x ! i XOR rand ! i]; d = d[i := d ! i XOR y ! i];
        d = d[i := d ! i XOR rand ! i] in (d, h)) = (\<lambda>i (d, h :: 'a). (d[i := x ! i XOR y ! i], h))"
    by (simp add: fun_eq_iff)
  have "hardened_xor rnd x y n dest h =
      Some (map (\<lambda>i. x ! i XOR y ! i) [0..<unat n] @ drop (unat n) d1, after_start rnd n h2)"
    using pointwise_in_random_order [of n d1 rnd "\<lambda>i _. x ! i XOR y ! i" h2] assms d1 r
    unfolding hardened_xor_def by (simp only: bind.simps body case_prod_conv)
  with assms d1 show ?thesis by (simp add: map2_as_map)
qed

text \<open>The two accumulators of a comparison.\<close>

lemma or_eq_0_word: "a OR b = 0 \<longleftrightarrow> a = 0 \<and> b = 0" for a b :: "'a::len word"
  by (auto simp: bit_eq_iff bit_or_iff)

lemma xor_not_eq_minus_1: "NOT (a XOR b) = - 1 \<longleftrightarrow> a = b" for a b :: "'a::len word"
  by (auto simp: bit_eq_iff bit_xor_iff bit_not_iff)

lemma fold_memeq:
  "fold (\<lambda>i (zeros, ones). (zeros OR (f i XOR g i), ones AND (f i XOR NOT (g i)))) xs (z, q) = (z', q') \<Longrightarrow>
     (z' = 0 \<longleftrightarrow> z = 0 \<and> (\<forall>i\<in>set xs. f i = g i)) \<and>
     (q' = - 1 \<longleftrightarrow> q = - 1 \<and> (\<forall>i\<in>set xs. f i = g i))" for f g :: "nat \<Rightarrow> u32"
proof (induction xs arbitrary: z q)
  case (Cons x xs)
  then show ?case
    by (simp add: or_eq_0_word and_eq_minus_1_iff xor_eq_0_iff_word xor_not_eq_minus_1)
qed simp

lemma memeq_run:
  "(do { (acc, h) \<leftarrow> in_random_order rnd len
       (\<lambda>i ((zeros, ones), h). ((zeros OR (f i XOR g i), ones AND (f i XOR NOT (g i))), h)) (0, - 1) h;
     eq \<leftarrow> memeq_result acc;
     Some (eq, h) }) =
   Some (if \<forall>i < unat len. f i = g i then kHardenedBoolTrue else kHardenedBoolFalse, after_start rnd len h)"
  for f g :: "nat \<Rightarrow> u32"
proof -
  let ?xs = "rotate (start_index rnd len h) [0..<unat len]"
  define G where "G = (\<lambda>i :: nat. \<lambda>(zeros, ones). (zeros OR (f i XOR g i), ones AND (f i XOR NOT (g i))))"
  obtain z q where zq: "fold G ?xs (0, - 1) = (z, q)" by (rule prod.exhaust)
  have G: "(\<lambda>i ((zeros, ones), h). ((zeros OR (f i XOR g i), ones AND (f i XOR NOT (g i))), h)) =
      (\<lambda>i (acc, h). (G i acc, h))" by (simp add: G_def fun_eq_iff)
  have "in_random_order rnd len
       (\<lambda>i ((zeros, ones), h). ((zeros OR (f i XOR g i), ones AND (f i XOR NOT (g i))), h)) (0, - 1) h =
      Some ((z, q), after_start rnd len h)"
    unfolding G in_random_order_fold fold_ignore_state zq ..
  moreover have "z = 0 \<longleftrightarrow> (\<forall>i < unat len. f i = g i)" "q = - 1 \<longleftrightarrow> (\<forall>i < unat len. f i = g i)"
    using fold_memeq [OF zq [unfolded G_def]] by auto
  ultimately show ?thesis by (auto simp: memeq_result_def)
qed

lemma take_eq_nth:
  "n \<le> length xs \<Longrightarrow> n \<le> length ys \<Longrightarrow> (\<forall>i < n. xs ! i = ys ! i) \<longleftrightarrow> take n xs = take n ys"
  by (auto simp: list_eq_iff_nth_eq)

lemma hardened_memeq_equal:
  "unat n \<le> length lhs \<Longrightarrow> unat n \<le> length rhs \<Longrightarrow>
     hardened_memeq rnd lhs rhs n h =
       Some (if take (unat n) lhs = take (unat n) rhs then kHardenedBoolTrue else kHardenedBoolFalse,
         after_start rnd n h)"
  unfolding hardened_memeq_def memeq_run by (simp add: take_eq_nth)

lemma consttime_memeq_byte_equal:
  assumes "unat n \<le> length lhs" "unat n \<le> length rhs"
  shows "consttime_memeq_byte rnd lhs rhs n h =
       Some (if take (unat n) lhs = take (unat n) rhs then kHardenedBoolTrue else kHardenedBoolFalse,
         after_start rnd n h)"
proof -
  have "uint (ucast w :: u32) = uint w" for w :: u8
    using uint_lt2p [of w] by (simp add: unsigned_ucast_eq take_bit_int_eq_self)
  then have "(ucast (lhs ! i) :: u32) = ucast (rhs ! i) \<longleftrightarrow> lhs ! i = rhs ! i" for i
    by (simp add: word_uint_eq_iff)
  then show ?thesis
    unfolding consttime_memeq_byte_def random_traversal_bind memeq_run using assms by (simp add: take_eq_nth)
qed

section \<open>Properties\<close>

text \<open>
  C40: The 32-bit comparison \<open>ct_sltu32\<close> and its selection \<open>ct_cmov32\<close> are the comparison of unsigned words and
  the conditional. The pointer-sized \<open>ct_sltuw\<close> is the comparison only of words whose top bits agree: on all
  others it answers the opposite.
\<close>

theorem ct_comparisons:
  "ct_cmov32 (ct_sltu32 a b) x y = (if a < b then x else y) \<and>
   ct_cmovw (ct_sltuw a b) x y = (if (bit a 31 \<longleftrightarrow> bit b 31) = (a < b) then x else y)"
proof -
  have "(bit a 31 \<noteq> bit b 31) \<Longrightarrow> a < b \<or> b < a" by (metis linorder_neqE)
  then show ?thesis by (auto simp: ct_sltu32_less ct_sltuw_wrong ct_cmov32_if ct_equal_words)
qed

text \<open>
  C37: The routines that visit a buffer in a random order do what their sequential counterparts do, for every
  random source: the copy copies, the comparison is equality of the words compared, the exclusive or
  combines, each leaves the words behind its length alone and none of them traps.
\<close>

theorem hardened_memory_correct:
  assumes "unat n \<le> length d" "unat n \<le> length x" "unat n \<le> length y"
  shows "(\<exists>h'. hardened_memcpy rnd d x n h = Some (take (unat n) x @ drop (unat n) d, h')) \<and>
    (\<exists>h'. hardened_memeq rnd x y n h =
       Some (if take (unat n) x = take (unat n) y then kHardenedBoolTrue else kHardenedBoolFalse, h')) \<and>
    (\<exists>h'. hardened_xor rnd x y n d h =
       Some (map2 (XOR) (take (unat n) x) (take (unat n) y) @ drop (unat n) d, h')) \<and>
    (\<exists>h'. hardened_xor_in_place rnd x y n h =
       Some (map2 (XOR) (take (unat n) x) (take (unat n) y) @ drop (unat n) x, h'))"
  using hardened_xor_xors [OF assms(2,3,1)]
  by (simp add: assms hardened_memcpy_copies hardened_memeq_equal hardened_xor_in_place_xors)

theorem hardened_memory_correct_witness:
  "(\<exists>h'. hardened_memcpy (\<lambda>h. (h, 5 * h + 1)) [1, 2, 3] [7, 8, 9] 2 3 = Some ([7, 8, 3 :: u32], h')) \<and>
   (\<exists>h'. hardened_memeq (\<lambda>h. (h, 5 * h + 1)) [7, 8, 9] [7, 8, 1] 2 3 = Some (kHardenedBoolTrue, h'))"
  using hardened_memory_correct [of 2 "[1, 2, 3]" "[7, 8, 9]" "[7, 8, 1]" "\<lambda>h. (h, 5 * h + 1)" 3] by simp

end
