(* ===== verification/Owner_Hw.thy ===== *)
theory Owner_Hw
  imports Boot_Data Owner_Codes Bitfield Hardened
begin

unbundle bit_operations_syntax

text \<open>
  What the ownership code of \<open>sw/device/silicon_creator/lib/ownership\<close> calls: drivers and accelerators
  as fields of a record that extends the one of the boot data, and the constants of generated headers.
  Keys, signatures and digests are their words; a null pointer is None. \<open>info_type0_params_build\<close>
  (\<open>drivers/flash_ctrl.c\<close>), \<open>lifecycle_din_eq\<close> (\<open>drivers/lifecycle.c\<close>) and the nonces (\<open>nonce.c\<close>) are
  small enough to be modelled.
\<close>

record flash_ctrl_cfg =
  cfg_scrambling :: u32
  cfg_ecc :: u32
  cfg_he :: u32

text \<open>An info page given by its address and registers, as \<open>flash_ctrl_info_type0_params_build\<close> makes it.\<close>

record info_params =
  ip_base_addr :: u32
  ip_cfg_offset :: u32
  ip_cfg_wen_offset :: u32

text \<open>The constants of \<open>flash_ctrl_regs.h\<close> and \<open>top_earlgrey.h\<close>, which the build generates.\<close>

record chip =
  flash_mem_base :: u32
  flash_mem_size :: u32
  flash_bytes_per_page :: u32
  flash_bytes_per_bank :: u32
  flash_pages_per_bank :: u32
  flash_num_banks :: u32
  flash_num_infos0 :: u32
  bank0_info0_cfg :: u32
  bank0_info0_regwen :: u32
  bank1_info0_cfg :: u32
  bank1_info0_regwen :: u32
  muxed_pads_last :: u32

record 'h own_hw = "'h boot_hw" +
  sha256_bytes :: "u8 list \<Rightarrow> u32 list" \<comment> \<open>\<open>hmac_sha256\<close> of a message that need not be whole words\<close>
  rnd_uint32 :: "'h \<Rightarrow> u32 \<times> 'h"
  device_id :: "'h \<Rightarrow> u32 list" \<comment> \<open>\<open>lifecycle_device_id_get\<close>\<close>
  otbn_boot_sigverify_start :: "u32 list \<Rightarrow> u32 list option \<Rightarrow> u32 list \<Rightarrow> 'h \<Rightarrow> u32 \<times> 'h"
  otbn_boot_sigverify_finish :: "'h \<Rightarrow> u32 \<times> u32 list \<times> 'h"
  spx_verify :: "u32 list \<Rightarrow> u8 list \<Rightarrow> u8 list \<Rightarrow> u8 list \<Rightarrow> u8 list \<Rightarrow> u32 list \<Rightarrow> 'h \<Rightarrow> u32 \<times> u32 list \<times> 'h"
  flash_mem_word :: "'h \<Rightarrow> u32 \<Rightarrow> u32" \<comment> \<open>the word of the memory-mapped flash at an address\<close>
  kmac_kmac256_start :: "'h \<Rightarrow> u32 \<times> 'h"
  kmac_kmac256_absorb :: "u32 list \<Rightarrow> 'h \<Rightarrow> 'h"
  kmac_kmac256_final :: "nat \<Rightarrow> 'h \<Rightarrow> u32 \<times> u32 list \<times> 'h"
  kmac_configure :: "'h \<Rightarrow> u32 \<times> 'h"
  kmac_set_prefix :: "u8 list \<Rightarrow> 'h \<Rightarrow> 'h"
  keymgr_generate_sealing_key :: "u32 list \<Rightarrow> u32 \<Rightarrow> 'h \<Rightarrow> u32 \<times> 'h" \<comment> \<open>salt and version; destination KMAC\<close>
  keymgr_sideload_clear :: "'h \<Rightarrow> u32 \<times> 'h"
  info_cfg_set :: "flash_ctrl_info_page \<Rightarrow> flash_ctrl_cfg \<Rightarrow> 'h \<Rightarrow> 'h"
  info_lock :: "flash_ctrl_info_page \<Rightarrow> 'h \<Rightarrow> 'h"
  params_cfg_set :: "info_params \<Rightarrow> flash_ctrl_cfg \<Rightarrow> 'h \<Rightarrow> 'h"
  params_perms_set :: "info_params \<Rightarrow> flash_ctrl_perms \<Rightarrow> 'h \<Rightarrow> 'h"
  params_read :: "info_params \<Rightarrow> u32 \<Rightarrow> nat \<Rightarrow> 'h \<Rightarrow> u32 \<times> u32 list \<times> 'h"
  data_region_protect :: "u32 \<Rightarrow> u32 \<Rightarrow> u32 \<Rightarrow> flash_ctrl_perms \<Rightarrow> flash_ctrl_cfg \<Rightarrow> u32 \<Rightarrow> 'h \<Rightarrow> 'h"
  pinmux_configure_input :: "u32 \<Rightarrow> u32 \<Rightarrow> 'h \<Rightarrow> 'h"
  pinmux_enable_pull :: "u32 \<Rightarrow> bool \<Rightarrow> bool \<Rightarrow> 'h \<Rightarrow> 'h"
  no_owner_recovery_key :: "u32 list option"
  device_silicon :: bool \<comment> \<open>\<open>kDeviceType == kDeviceSilicon\<close>\<close>
  chip :: chip

definition kFlashCtrlSecMmioDataRegionProtect :: nat where "kFlashCtrlSecMmioDataRegionProtect = 1"
definition kFlashCtrlSecMmioDataRegionProtectLock :: nat where "kFlashCtrlSecMmioDataRegionProtectLock = 1"

definition info_type0_params_build :: "chip \<Rightarrow> u8 \<Rightarrow> u8 \<Rightarrow> (u32 \<times> info_params) option" where
  "info_type0_params_build C bank page = do {
     HARDENED_CHECK (ucast bank < flash_num_banks C);
     HARDENED_CHECK (ucast page < flash_num_infos0 C);
     (cfg_offset, cfg_wen_offset) \<leftarrow>
       (if bank = 0 then Some (bank0_info0_cfg C, bank0_info0_regwen C)
        else if bank = 1 then Some (bank1_info0_cfg C, bank1_info0_regwen C)
        else None);
     Some (kErrorOk_value,
       \<lparr>ip_base_addr = ucast bank * flash_bytes_per_bank C + ucast page * flash_bytes_per_page C,
        ip_cfg_offset = cfg_offset + ucast page * 4,
        ip_cfg_wen_offset = cfg_wen_offset + ucast page * 4\<rparr>) }"

definition lifecycle_din_eq :: "u32 list \<Rightarrow> u32 list \<Rightarrow> u32" where
  "lifecycle_din_eq ident din =
     (if ident ! 1 = din ! 0 \<and> ident ! 2 = din ! 1 then kHardenedBoolTrue else kHardenedBoolFalse)"

definition nonce_new :: "('h, 'm) own_hw_scheme \<Rightarrow> 'h \<Rightarrow> u32 list \<times> 'h" where
  "nonce_new H h = (case rnd_uint32 H h of (v0, h) \<Rightarrow> case rnd_uint32 H h of (v1, h) \<Rightarrow> ([v0, v1], h))"

definition nonce_equal :: "u32 list \<Rightarrow> u32 list \<Rightarrow> bool" where
  "nonce_equal a b \<longleftrightarrow> a ! 0 = b ! 0 \<and> a ! 1 = b ! 1"

text \<open>The constants of Earl Grey: 2 KiB pages, 256 of them in each of two banks.\<close>

definition earlgrey :: chip where
  "earlgrey = \<lparr>flash_mem_base = 0x20000000, flash_mem_size = 0x100000, flash_bytes_per_page = 2048,
     flash_bytes_per_bank = 0x80000, flash_pages_per_bank = 256, flash_num_banks = 2, flash_num_infos0 = 10,
     bank0_info0_cfg = 0x88, bank0_info0_regwen = 0x60, bank1_info0_cfg = 0x110, bank1_info0_regwen = 0xE8,
     muxed_pads_last = 46\<rparr>"

end
