(* ===== verification/Owner_Block.thy ===== *)
theory Owner_Block
  imports Owner_Hw
begin

unbundle bit_operations_syntax

text \<open>
  The owner configuration block of \<open>ownership/datatypes.h\<close> and its parser, \<open>ownership/owner_block.c\<close>: a
  block of 512 words with keys and a region of tagged items (application keys, flash and info
  configuration, rescue, ISFB), each item starting with its tag and length. Items lie at multiples of 4,
  since the parser refuses other lengths, so the region is the list of its words; a pointer to an item is
  the list of the words from there to the end of the region. \<open>None\<close> for such a pointer is the bogus value
  \<open>kHardenedBoolFalse\<close>. None as a result is a hardened trap.
\<close>

section \<open>The block\<close>

record owner_block =
  ob_tag :: u32
  ob_length :: u16
  ob_major :: u8
  ob_minor :: u8
  ob_config_version :: u32
  ob_sram_exec_mode :: u32
  ob_ownership_key_alg :: u32
  ob_update_mode :: u32
  ob_min_security_version_bl0 :: u32
  ob_lock_constraint :: u32
  ob_device_id :: "u32 list"
  ob_reserved :: "u32 list"
  ob_owner_key :: "u32 list"
  ob_activate_key :: "u32 list"
  ob_unlock_key :: "u32 list"
  ob_data :: "u32 list"
  ob_signature :: "u32 list"
  ob_seal :: "u32 list"

definition ob_words :: "owner_block \<Rightarrow> u32 list" where
  "ob_words b = [ob_tag b,
       ucast (ob_length b) OR push_bit 16 (ucast (ob_major b)) OR push_bit 24 (ucast (ob_minor b)),
       ob_config_version b, ob_sram_exec_mode b, ob_ownership_key_alg b, ob_update_mode b,
       ob_min_security_version_bl0 b, ob_lock_constraint b] @
     ob_device_id b @ ob_reserved b @ ob_owner_key b @ ob_activate_key b @ ob_unlock_key b @ ob_data b @
     ob_signature b @ ob_seal b"

definition ob_of_words :: "u32 list \<Rightarrow> owner_block" where
  "ob_of_words ws = \<lparr>ob_tag = ws ! 0, ob_length = ucast (ws ! 1), ob_major = byte_of (ws ! 1) 2,
     ob_minor = byte_of (ws ! 1) 3, ob_config_version = ws ! 2, ob_sram_exec_mode = ws ! 3,
     ob_ownership_key_alg = ws ! 4, ob_update_mode = ws ! 5, ob_min_security_version_bl0 = ws ! 6,
     ob_lock_constraint = ws ! 7, ob_device_id = take 8 (drop 8 ws), ob_reserved = take 16 (drop 16 ws),
     ob_owner_key = take 24 (drop 32 ws), ob_activate_key = take 24 (drop 56 ws),
     ob_unlock_key = take 24 (drop 80 ws), ob_data = take 384 (drop 104 ws),
     ob_signature = take 16 (drop 488 ws), ob_seal = take 8 (drop 504 ws)\<rparr>"

section \<open>Items\<close>

definition lo16 :: "u32 \<Rightarrow> u32" where "lo16 w = w AND 0xFFFF"
definition hi16 :: "u32 \<Rightarrow> u32" where "hi16 w = drop_bit 16 w"

definition tlv_tag :: "u32 list \<Rightarrow> u32" where "tlv_tag item = item ! 0"
definition tlv_length :: "u32 list \<Rightarrow> u32" where "tlv_length item = lo16 (item ! 1)"
definition tlv_major :: "u32 list \<Rightarrow> u8" where "tlv_major item = byte_of (item ! 1) 2"

text \<open>The structures of the items, read at a pointer.\<close>

definition app_key_alg :: "u32 list \<Rightarrow> u32" where "app_key_alg item = item ! 2"
definition app_data :: "u32 list \<Rightarrow> u32 list" where "app_data item = take 24 (drop 12 item)"

record owner_flash_region =
  fr_start :: u32
  fr_size :: u32
  fr_access :: u32
  fr_properties :: u32

definition flash_region :: "u32 list \<Rightarrow> nat \<Rightarrow> owner_flash_region" where
  "flash_region item i = \<lparr>fr_start = lo16 (item ! (2 + 3 * i)), fr_size = hi16 (item ! (2 + 3 * i)),
     fr_access = item ! (3 + 3 * i), fr_properties = item ! (4 + 3 * i)\<rparr>"

record owner_info_page =
  ip_bank :: u8
  ip_page :: u8
  ip_access :: u32
  ip_properties :: u32

definition info_page :: "u32 list \<Rightarrow> nat \<Rightarrow> owner_info_page" where
  "info_page item i = \<lparr>ip_bank = byte_of (item ! (2 + 3 * i)) 0, ip_page = byte_of (item ! (2 + 3 * i)) 1,
     ip_access = item ! (3 + 3 * i), ip_properties = item ! (4 + 3 * i)\<rparr>"

definition rescue_gpio :: "u32 list \<Rightarrow> u8" where "rescue_gpio item = byte_of (item ! 2) 1"
definition rescue_detect :: "u32 list \<Rightarrow> u8" where "rescue_detect item = byte_of (item ! 2) 3"
definition rescue_start :: "u32 list \<Rightarrow> u32" where "rescue_start item = lo16 (item ! 3)"
definition rescue_size :: "u32 list \<Rightarrow> u32" where "rescue_size item = hi16 (item ! 3)"

definition isfb_bank :: "u32 list \<Rightarrow> u8" where "isfb_bank item = byte_of (item ! 2) 0"
definition isfb_page :: "u32 list \<Rightarrow> u8" where "isfb_page item = byte_of (item ! 2) 1"
definition isfb_product_words :: "u32 list \<Rightarrow> u32" where "isfb_product_words item = item ! 10"

definition FLASH_CONFIG_READ :: bitfield_field32 where "FLASH_CONFIG_READ = \<lparr>fmask = 0xF, findex = 0\<rparr>"
definition FLASH_CONFIG_PROGRAM :: bitfield_field32 where "FLASH_CONFIG_PROGRAM = \<lparr>fmask = 0xF, findex = 4\<rparr>"
definition FLASH_CONFIG_ERASE :: bitfield_field32 where "FLASH_CONFIG_ERASE = \<lparr>fmask = 0xF, findex = 8\<rparr>"
definition FLASH_CONFIG_PROTECT_WHEN_PRIMARY :: bitfield_field32 where
  "FLASH_CONFIG_PROTECT_WHEN_PRIMARY = \<lparr>fmask = 0xF, findex = 24\<rparr>"
definition FLASH_CONFIG_LOCK :: bitfield_field32 where "FLASH_CONFIG_LOCK = \<lparr>fmask = 0xF, findex = 28\<rparr>"
definition FLASH_CONFIG_SCRAMBLE :: bitfield_field32 where "FLASH_CONFIG_SCRAMBLE = \<lparr>fmask = 0xF, findex = 0\<rparr>"
definition FLASH_CONFIG_ECC :: bitfield_field32 where "FLASH_CONFIG_ECC = \<lparr>fmask = 0xF, findex = 4\<rparr>"
definition FLASH_CONFIG_HIGH_ENDURANCE :: bitfield_field32 where
  "FLASH_CONFIG_HIGH_ENDURANCE = \<lparr>fmask = 0xF, findex = 8\<rparr>"
definition FLASH_CONFIG_REGIONS_PER_SLOT :: u32 where "FLASH_CONFIG_REGIONS_PER_SLOT = 3"

definition RESCUE_GPIO_PULL_EN_BIT :: nat where "RESCUE_GPIO_PULL_EN_BIT = 1"
definition RESCUE_GPIO_VALUE_BIT :: nat where "RESCUE_GPIO_VALUE_BIT = 0"

section \<open>Checks\<close>

definition CHIP_ROM_EXT_SIZE_MAX :: u32 where "CHIP_ROM_EXT_SIZE_MAX = 0x10000"
definition kProtectSlots :: u32 where "kProtectSlots = 8"
definition kRomExtRegions :: u32 where "kRomExtRegions = 2"

definition kRomExtSizeInPages :: "chip \<Rightarrow> u32" where
  "kRomExtSizeInPages C = CHIP_ROM_EXT_SIZE_MAX div flash_bytes_per_page C"

definition kRomExtAStart :: u32 where "kRomExtAStart = 0"

definition kRomExtAEnd :: "chip \<Rightarrow> u32" where
  "kRomExtAEnd C = kRomExtAStart + kRomExtSizeInPages C"

definition kRomExtBStart :: "chip \<Rightarrow> u32" where
  "kRomExtBStart C = flash_pages_per_bank C + kRomExtAStart"

definition kRomExtBEnd :: "chip \<Rightarrow> u32" where
  "kRomExtBEnd C = kRomExtBStart C + kRomExtSizeInPages C"

definition is_owner_page :: "u8 \<Rightarrow> u8 \<Rightarrow> u32" where
  "is_owner_page bank page = (if page \<ge> 5 \<and> page \<le> 8 then kHardenedBoolTrue else kHardenedBoolFalse)"

definition rom_ext_flash_overlap :: "chip \<Rightarrow> u32 \<Rightarrow> u32 \<Rightarrow> u32" where
  "rom_ext_flash_overlap C start end' =
     (if (start < kRomExtAEnd C \<and> end' > kRomExtAStart) \<or> (start < kRomExtBEnd C \<and> end' > kRomExtBStart C)
      then kHardenedBoolTrue else kHardenedBoolFalse)"

definition rom_ext_flash_exclusive :: "chip \<Rightarrow> u32 \<Rightarrow> u32 \<Rightarrow> u32" where
  "rom_ext_flash_exclusive C start end' =
     (if (kRomExtAStart \<le> start \<and> start < kRomExtAEnd C \<and> kRomExtAStart < end' \<and> end' \<le> kRomExtAEnd C) \<or>
         (kRomExtBStart C \<le> start \<and> start < kRomExtBEnd C \<and> kRomExtBStart C < end' \<and> end' \<le> kRomExtBEnd C)
      then kHardenedBoolTrue else kHardenedBoolFalse)"

definition owner_block_application_key_check :: "u32 list \<Rightarrow> u32" where
  "owner_block_application_key_check key =
     (if tlv_length key < 48 \<or> tlv_length key > 144 then kErrorOwnershipInvalidTagLength
      else if app_key_alg key = kOwnershipKeyAlgEcdsaP256 \<or> app_key_alg key = kOwnershipKeyAlgHybridSpxPure \<or>
        app_key_alg key = kOwnershipKeyAlgHybridSpxPrehash then kErrorOk_value
      else kErrorOwnershipInvalidAlgorithm)"

fun info_pages_ok :: "u32 list \<Rightarrow> nat \<Rightarrow> nat \<Rightarrow> u32" where
  "info_pages_ok info i 0 = kErrorOk_value"
| "info_pages_ok info i (Suc n) =
     (if is_owner_page (ip_bank (info_page info i)) (ip_page (info_page info i)) \<noteq> kHardenedBoolTrue
      then kErrorOwnershipBadInfoPage else info_pages_ok info (Suc i) n)"

definition owner_block_flash_info_check :: "u32 list \<Rightarrow> u32" where
  "owner_block_flash_info_check info =
     (if tlv_length info < 8 then kErrorOwnershipInvalidTagLength
      else let len = tlv_length info - 8 in
        if len mod 12 \<noteq> 0 then kErrorOwnershipInvalidTagLength
        else info_pages_ok info 0 (unat (len div 12)))"

definition owner_block_rescue_check :: "chip \<Rightarrow> u32 list \<Rightarrow> u32" where
  "owner_block_rescue_check C rescue =
     (if tlv_length rescue < 16 then kErrorOwnershipInvalidTagLength
      else let end' = rescue_start rescue + rescue_size rescue in
        if rescue_start rescue < kRomExtSizeInPages C \<or> end' > flash_pages_per_bank C
        then kErrorOwnershipInvalidRescueBounds else kErrorOk_value)"

definition owner_isfb_config_check :: "u32 list \<Rightarrow> u32" where
  "owner_isfb_config_check isfb =
     (if tlv_length isfb < 44 then kErrorOwnershipInvalidTagLength
      else if is_owner_page (isfb_bank isfb) (isfb_page isfb) = kHardenedBoolFalse then kErrorOwnershipISFBPage
      else if isfb_product_words isfb > 256 then kErrorOwnershipISFBSize
      else kErrorOk_value)"

definition in_flash_slot :: "chip \<Rightarrow> u32 \<Rightarrow> u32 \<Rightarrow> u32 \<Rightarrow> u32" where
  "in_flash_slot C bank_start start end' =
     (let bank_end = bank_start + flash_pages_per_bank C
      in if bank_start \<le> start \<and> start < bank_end \<and> bank_start < end' \<and> end' \<le> bank_end
         then kHardenedBoolTrue else kHardenedBoolFalse)"

definition kFlashSlotAStart :: u32 where "kFlashSlotAStart = 0"

definition kFlashSlotBStart :: "chip \<Rightarrow> u32" where
  "kFlashSlotBStart C = flash_pages_per_bank C"

text \<open>The loop over the regions from \<open>i\<close> on; the xor mask \<open>crypt\<close> that it counts is not used.\<close>

fun flash_regions_check :: "chip \<Rightarrow> u32 list \<Rightarrow> nat \<Rightarrow> nat \<Rightarrow> u32 \<Rightarrow> u32 \<Rightarrow> u32" where
  "flash_regions_check C flash i 0 num_slot_a num_slot_b = kErrorOk_value"
| "flash_regions_check C flash i (Suc n) num_slot_a num_slot_b =
     (let start = fr_start (flash_region flash i);
          end' = start + fr_size (flash_region flash i)
      in if rom_ext_flash_overlap C start end' = kHardenedBoolTrue then kErrorOwnershipFlashConfigRomExt
      else if in_flash_slot C kFlashSlotAStart start end' = kHardenedBoolTrue then
        (let num_slot_a = num_slot_a + 1
         in if num_slot_a > FLASH_CONFIG_REGIONS_PER_SLOT then kErrorOwnershipFlashConfigSlots
            else flash_regions_check C flash (Suc i) n num_slot_a num_slot_b)
      else if in_flash_slot C (kFlashSlotBStart C) start end' = kHardenedBoolTrue then
        (let num_slot_b = num_slot_b + 1
         in if num_slot_b > FLASH_CONFIG_REGIONS_PER_SLOT then kErrorOwnershipFlashConfigSlots
            else flash_regions_check C flash (Suc i) n num_slot_a num_slot_b)
      else kErrorOwnershipFlashConfigBounds)"

definition owner_block_flash_check :: "chip \<Rightarrow> u32 list \<Rightarrow> u32" where
  "owner_block_flash_check C flash =
     (if tlv_length flash < 8 then kErrorOwnershipInvalidTagLength
      else let len = tlv_length flash - 8 in
        if len mod 12 \<noteq> 0 then kErrorOwnershipInvalidTagLength
        else let len = len div 12 in
          if len > kProtectSlots - kRomExtRegions then kErrorOwnershipFlashConfigLength
          else flash_regions_check C flash 0 (unat len) 0 0)"

section \<open>Applying the configuration\<close>

text \<open>The permissions and the lock of a region: \<open>val\<close> is its access word without the mask.\<close>

definition region_cfg :: "u32 \<Rightarrow> flash_ctrl_cfg" where
  "region_cfg val = \<lparr>cfg_scrambling = bitfield_field32_read val FLASH_CONFIG_SCRAMBLE,
     cfg_ecc = bitfield_field32_read val FLASH_CONFIG_ECC,
     cfg_he = bitfield_field32_read val FLASH_CONFIG_HIGH_ENDURANCE\<rparr>"

definition region_perms :: "u32 \<Rightarrow> flash_ctrl_perms" where
  "region_perms val = \<lparr>perm_read = bitfield_field32_read val FLASH_CONFIG_READ,
     perm_write = bitfield_field32_read val FLASH_CONFIG_PROGRAM,
     perm_erase = bitfield_field32_read val FLASH_CONFIG_ERASE\<rparr>"

definition apply_region ::
  "('h, 'm) own_hw_scheme \<Rightarrow> owner_flash_region \<Rightarrow> u32 \<Rightarrow> u32 \<Rightarrow> u32 \<Rightarrow> u32 \<Rightarrow> 'h \<Rightarrow> u32 \<times> 'h" where
  "apply_region H config crypt config_side owner_lockdown mp_index h =
     (let cfg = region_cfg (fr_properties config XOR crypt);
          val = fr_access config XOR crypt;
          perm = region_perms val;
          pwp = bitfield_field32_read val FLASH_CONFIG_PROTECT_WHEN_PRIMARY;
          lock = (if bitfield_field32_read val FLASH_CONFIG_LOCK \<noteq> kMultiBitBool4False
                  then kHardenedBoolTrue else kHardenedBoolFalse);
          perm = (if config_side = owner_lockdown \<and> pwp \<noteq> kMultiBitBool4False
                  then perm\<lparr>perm_write := kMultiBitBool4False, perm_erase := kMultiBitBool4False\<rparr> else perm);
          lock = (if owner_lockdown = kHardenedBoolFalse then kHardenedBoolFalse else lock);
          h = (if mp_index < 2 * FLASH_CONFIG_REGIONS_PER_SLOT then
                 sec_mmio_write_increment H
                   (kFlashCtrlSecMmioDataRegionProtect +
                     (if lock = kHardenedBoolTrue then kFlashCtrlSecMmioDataRegionProtectLock else 0))
                   (data_region_protect H (kRomExtRegions + mp_index) (fr_start config) (fr_size config) perm cfg lock h)
               else h)
      in (mp_index + 1, h))"

fun flash_regions_apply ::
  "('h, 'm) own_hw_scheme \<Rightarrow> u32 list \<Rightarrow> u32 \<Rightarrow> u32 \<Rightarrow> u32 \<Rightarrow> u32 \<Rightarrow> nat \<Rightarrow> nat \<Rightarrow> u32 \<Rightarrow> u32 \<Rightarrow> 'h \<Rightarrow> u32 \<times> 'h" where
  "flash_regions_apply H flash config_side owner_lockdown start end' i 0 crypt mp_index h = (mp_index, h)"
| "flash_regions_apply H flash config_side owner_lockdown start end' i (Suc n) crypt mp_index h =
     (let config = flash_region flash i;
          (mp_index, h) =
            (if fr_start config \<ge> start \<and> fr_start config + fr_size config \<le> end'
             then apply_region H config crypt config_side owner_lockdown mp_index h else (mp_index, h))
      in flash_regions_apply H flash config_side owner_lockdown start end' (Suc i) n (crypt + 0x11111111) mp_index h)"

definition owner_block_flash_apply ::
  "('h, 'm) own_hw_scheme \<Rightarrow> u32 list option \<Rightarrow> u32 \<Rightarrow> u32 \<Rightarrow> u32 \<Rightarrow> 'h \<Rightarrow> u32 \<times> u32 \<times> 'h" where
  "owner_block_flash_apply H flash config_side owner_lockdown mp_index h =
     (case flash of
        None \<Rightarrow> (kErrorOk_value, mp_index, h)
      | Some flash \<Rightarrow>
          let start = (if config_side = kBootSlotA then 0
                       else if config_side = kBootSlotB then flash_pages_per_bank (chip H) else 0xFFFFFFFF);
              end' = (if config_side = kBootSlotA then flash_pages_per_bank (chip H)
                      else if config_side = kBootSlotB then 2 * flash_pages_per_bank (chip H) else 0);
              len = (tlv_length flash - 8) div 12
          in if len > kProtectSlots - kRomExtRegions then (kErrorOwnershipFlashConfigLength, mp_index, h)
          else case flash_regions_apply H flash config_side owner_lockdown start end' 0 (unat len) 0 mp_index h of
            (mp_index, h) \<Rightarrow> (kErrorOk_value, mp_index, h))"

fun info_pages_apply ::
  "('h, 'm) own_hw_scheme \<Rightarrow> u32 list \<Rightarrow> nat \<Rightarrow> nat \<Rightarrow> u32 \<Rightarrow> 'h \<Rightarrow> (u32 \<times> 'h) option" where
  "info_pages_apply H info i 0 crypt h = Some (kErrorOk_value, h)"
| "info_pages_apply H info i (Suc n) crypt h =
     (let config = info_page info i in
      if is_owner_page (ip_bank config) (ip_page config) = kHardenedBoolTrue then do {
        (e, page) \<leftarrow> info_type0_params_build (chip H) (ip_bank config) (ip_page config);
        if e \<noteq> kErrorOk_value then Some (e, h)
        else let h = params_cfg_set H page (region_cfg (ip_properties config XOR crypt)) h;
                 h = params_perms_set H page (region_perms (ip_access config XOR crypt)) h
             in info_pages_apply H info (Suc i) n (crypt + 0x11111111) h }
      else info_pages_apply H info (Suc i) n (crypt + 0x11111111) h)"

definition owner_block_info_apply ::
  "('h, 'm) own_hw_scheme \<Rightarrow> u32 list option \<Rightarrow> 'h \<Rightarrow> (u32 \<times> 'h) option" where
  "owner_block_info_apply H info h =
     (case info of
        None \<Rightarrow> Some (kErrorOk_value, h)
      | Some info \<Rightarrow> info_pages_apply H info 0 (unat ((tlv_length info - 8) div 12)) 0 h)"

definition owner_block_rescue_apply :: "('h, 'm) own_hw_scheme \<Rightarrow> u32 list \<Rightarrow> 'h \<Rightarrow> 'h" where
  "owner_block_rescue_apply H rescue h =
     (let detect = bitfield_field32_read (ucast (rescue_detect rescue)) RESCUE_DETECT;
          index = bitfield_field32_read (ucast (rescue_detect rescue)) RESCUE_DETECT_INDEX;
          pull_en = bitfield_bit32_read (ucast (rescue_gpio rescue)) RESCUE_GPIO_PULL_EN_BIT;
          gpio_value = bitfield_bit32_read (ucast (rescue_gpio rescue)) RESCUE_GPIO_VALUE_BIT
      in if detect = kRescueDetectGpio \<and> index \<le> muxed_pads_last (chip H)
         then pinmux_enable_pull H index pull_en (\<not> gpio_value) (pinmux_configure_input H 0 (index + 2) h)
         else h)"

section \<open>Parsing\<close>

record owner_config =
  oc_sram_exec :: u32
  oc_flash :: "u32 list option"
  oc_info :: "u32 list option"
  oc_rescue :: "u32 list option"
  oc_isfb :: "u32 list option"

definition owner_config_default :: owner_config where
  "owner_config_default = \<lparr>oc_sram_exec = kOwnerSramExecModeDisabledLocked, oc_flash = None, oc_info = None,
     oc_rescue = None, oc_isfb = None\<rparr>"

text \<open>One round of the switch over the tag of an item. The keyring holds at most 16 keys.\<close>

definition parse_item ::
  "('h, 'm) own_hw_scheme \<Rightarrow> bool \<Rightarrow> u32 list \<Rightarrow> owner_config \<times> u32 list list \<times> 'h \<Rightarrow>
     u32 \<times> owner_config \<times> u32 list list \<times> 'h" where
  "parse_item H check_only item = (\<lambda>(config, keyring, h).
     if tlv_tag item = kTlvTagApplicationKey then
       if tlv_major item \<noteq> 0 then (kErrorOwnershipAPPKVersion, config, keyring, h)
       else if \<not> check_only then
         (kErrorOk_value, config, (if length keyring < 16 then keyring @ [item] else keyring), h)
       else (owner_block_application_key_check item, config, keyring, h)
     else if tlv_tag item = kTlvTagFlashConfig then
       if tlv_major item \<noteq> 0 then (kErrorOwnershipFLSHVersion, config, keyring, h)
       else if \<not> check_only then
         if oc_flash config \<noteq> None then (kErrorOwnershipDuplicateItem, config, keyring, h)
         else (kErrorOk_value, config\<lparr>oc_flash := Some item\<rparr>, keyring, h)
       else (owner_block_flash_check (chip H) item, config, keyring, h)
     else if tlv_tag item = kTlvTagInfoConfig then
       if tlv_major item \<noteq> 0 then (kErrorOwnershipINFOVersion, config, keyring, h)
       else if \<not> check_only then
         if oc_info config \<noteq> None then (kErrorOwnershipDuplicateItem, config, keyring, h)
         else (kErrorOk_value, config\<lparr>oc_info := Some item\<rparr>, keyring, h)
       else (owner_block_flash_info_check item, config, keyring, h)
     else if tlv_tag item = kTlvTagRescueConfig then
       if tlv_major item \<noteq> 0 then (kErrorOwnershipRESQVersion, config, keyring, h)
       else if \<not> check_only then
         if oc_rescue config \<noteq> None then (kErrorOwnershipDuplicateItem, config, keyring, h)
         else (kErrorOk_value, config\<lparr>oc_rescue := Some item\<rparr>, keyring, owner_block_rescue_apply H item h)
       else (owner_block_rescue_check (chip H) item, config, keyring, h)
     else if tlv_tag item = kTlvTagIntegrationSpecificFirmwareBinding then
       if tlv_major item \<noteq> 0 then (kErrorOwnershipISFBVersion, config, keyring, h)
       else if \<not> check_only then
         if oc_isfb config \<noteq> None then (kErrorOwnershipDuplicateItem, config, keyring, h)
         else (kErrorOk_value, config\<lparr>oc_isfb := Some item\<rparr>, keyring, h)
       else (owner_isfb_config_check item, config, keyring, h)
     else (kErrorOwnershipInvalidTag, config, keyring, h))"

text \<open>The walk over the items, from the byte \<open>offset\<close> of the region, with \<open>remain\<close> bytes left.\<close>

function parse_items ::
  "('h, 'm) own_hw_scheme \<Rightarrow> bool \<Rightarrow> u32 list \<Rightarrow> nat \<Rightarrow> nat \<Rightarrow> owner_config \<times> u32 list list \<times> 'h \<Rightarrow>
     u32 \<times> owner_config \<times> u32 list list \<times> 'h" where
  "parse_items H check_only data remain offset s =
     (if remain < 8 then (kErrorOk_value, s)
      else let item = drop (offset div 4) data;
               len = unat (tlv_length item)
        in if tlv_tag item = kTlvTagNotPresent then (kErrorOk_value, s)
        else if len < 8 \<or> len > remain \<or> len mod 4 \<noteq> 0 then (kErrorOwnershipInvalidTagLength, s)
        else case parse_item H check_only item s of (e, s) \<Rightarrow>
          if e \<noteq> kErrorOk_value then (e, s)
          else parse_items H check_only data (remain - len) (offset + len) s)"
  by pat_completeness auto
termination by (relation "measure (\<lambda>(_, _, _, remain, _). remain)") auto

declare parse_items.simps [simp del]

definition owner_block_parse ::
  "('h, 'm) own_hw_scheme \<Rightarrow> owner_block \<Rightarrow> bool \<Rightarrow> owner_config \<times> u32 list list \<times> 'h \<Rightarrow>
     u32 \<times> owner_config \<times> u32 list list \<times> 'h" where
  "owner_block_parse H block check_only = (\<lambda>(config, keyring, h).
     if ob_tag block \<noteq> kTlvTagOwner then (kErrorOwnershipInvalidTag, config, keyring, h)
     else if ob_length block \<noteq> 2048 then (kErrorOwnershipInvalidTagLength, config, keyring, h)
     else if ob_major block \<noteq> 0 then (kErrorOwnershipOWNRVersion, config, keyring, h)
     else let config = (if \<not> check_only then owner_config_default\<lparr>oc_sram_exec := ob_sram_exec_mode block\<rparr> else config)
       in parse_items H check_only (ob_data block) 1536 0 (config, keyring, h))"

text \<open>The parse of a block without looking at the configuration: the error of a check.\<close>

definition owner_block_check :: "('h, 'm) own_hw_scheme \<Rightarrow> owner_block \<Rightarrow> 'h \<Rightarrow> u32" where
  "owner_block_check H block h = fst (owner_block_parse H block True (owner_config_default, [], h))"

section \<open>Reading the configuration\<close>

fun find_key :: "u32 list list \<Rightarrow> nat \<Rightarrow> u32 \<Rightarrow> u32 \<times> nat option" where
  "find_key [] i key_id = (kErrorOwnershipKeyNotFound, None)"
| "find_key (key # keys) i key_id =
     (let ident = app_data key ! 0;
          ident = (if app_key_alg key AND kOwnershipKeyAlgCategoryMask = kOwnershipKeyAlgCategoryHybrid
                then ident XOR app_data key ! 16 else ident)
      in if ident = key_id then (kErrorOk_value, Some i) else find_key keys (Suc i) key_id)"

definition owner_keyring_find_key :: "u32 list list \<Rightarrow> u32 \<Rightarrow> u32 \<times> nat option" where
  "owner_keyring_find_key keyring key_id = find_key (take 16 keyring) 0 key_id"

definition owner_rescue_command_ok :: "u32 list option \<Rightarrow> u32 \<Rightarrow> u32" where
  "owner_rescue_command_ok rescue command =
     (case rescue of
        None \<Rightarrow> kHardenedBoolTrue
      | Some rescue \<Rightarrow>
          fold (\<lambda>i allowed. if command = rescue ! (4 + i) then kHardenedBoolTrue else allowed)
            [0..<unat ((tlv_length rescue - 16) div 4)] kHardenedBoolFalse)"

end
