(* ===== verification/Owner_Verify.thy ===== *)
theory Owner_Verify
  imports Owner_Hw
begin

unbundle bit_operations_syntax

text \<open>
  The check of a signature by an owner's key: \<open>owner_verify.c\<close> under
  \<open>sw/device/silicon_creator/lib/ownership\<close>, with the ECDSA check of \<open>lib/sigverify/ecdsa_p256_verify.c\<close>,
  whose arithmetic runs on OTBN, and the SPHINCS+ check, whose tree is computed by \<open>spx_verify\<close>. The two
  computations are fields of the hardware record; the comparison of their results by shares is modelled.
  Keys, signatures and digests are their words; a null pointer is None.
\<close>

section \<open>ECDSA\<close>

definition kSigverifyEcdsaSuccess :: u32 where "kSigverifyEcdsaSuccess = 0x2f06b4e0"
definition kEcdsaP256SignatureComponentWords :: nat where "kEcdsaP256SignatureComponentWords = 8"

definition kEcdsaShares :: "u32 list" where
  "kEcdsaShares = [0xaf28073b, 0x5eb7dcfb, 0x177240b5, 0xa8469df3,
     0x2e92e9c0, 0x83ed133b, 0x0c9e99f0, 0xc04cd16d]"

definition sigverify_ecdsa_p256_success_to_ok :: "u32 \<Rightarrow> u32" where
  "sigverify_ecdsa_p256_success_to_ok v = drop_bit 21 (push_bit 22 v XOR push_bit 19 v XOR push_bit 3 v)"

definition ecdsa_reduce_step :: "u32 list \<Rightarrow> nat \<Rightarrow> u32 \<times> u32 \<Rightarrow> u32 \<times> u32" where
  "ecdsa_reduce_step r i = (\<lambda>(diff, flash_exec_ecdsa).
     let diff = diff OR (r ! i XOR kEcdsaShares ! i);
         diff = diff OR (NOT diff + 1);
         diff = diff OR (NOT (drop_bit 31 diff) + 1);
         flash_exec_ecdsa = flash_exec_ecdsa XOR r ! i
     in (diff, flash_exec_ecdsa OR diff))"

definition ecdsa_message_check :: "u32 list \<Rightarrow> u32 list \<Rightarrow> u32 \<Rightarrow> u32 \<times> u32" where
  "ecdsa_message_check recovered_r signature flash_exec =
     (let r = fold (\<lambda>i r. r[i := r ! i XOR (signature ! i XOR kEcdsaShares ! i)])
            [0..<kEcdsaP256SignatureComponentWords] recovered_r;
          (diff, flash_exec_ecdsa) = fold (ecdsa_reduce_step r) [0..<kEcdsaP256SignatureComponentWords] (0, 0);
          result = sigverify_ecdsa_p256_success_to_ok flash_exec_ecdsa;
          flash_exec = flash_exec XOR flash_exec_ecdsa
      in (if result = kErrorOk_value then result else kErrorSigverifyBadEcdsaSignature, flash_exec))"

definition sigverify_ecdsa_p256_start ::
  "('h, 'm) own_hw_scheme \<Rightarrow> u32 list option \<Rightarrow> u32 list \<Rightarrow> u32 list \<Rightarrow> 'h \<Rightarrow> u32 \<times> 'h" where
  "sigverify_ecdsa_p256_start H signature key act_digest h = otbn_boot_sigverify_start H key signature act_digest h"

definition sigverify_ecdsa_p256_finish ::
  "('h, 'm) own_hw_scheme \<Rightarrow> u32 list option \<Rightarrow> u32 \<Rightarrow> 'h \<Rightarrow> u32 \<times> u32 \<times> 'h" where
  "sigverify_ecdsa_p256_finish H signature flash_exec h =
     (case signature of
        None \<Rightarrow> (kErrorSigverifyEcdsaNotFound, flash_exec, h)
      | Some signature \<Rightarrow>
          (case otbn_boot_sigverify_finish H h of (error, recovered_r, h) \<Rightarrow>
           if error \<noteq> kErrorOk_value then (error, flash_exec XOR 0xffffffff, h)
           else case ecdsa_message_check recovered_r signature flash_exec of
             (result, flash_exec) \<Rightarrow> (result, flash_exec, h)))"

section \<open>SPHINCS+\<close>

definition kSigverifySpxSuccess :: u32 where "kSigverifySpxSuccess = 0x8d6c8c17"
definition kSigverifySpxRootNumWords :: nat where "kSigverifySpxRootNumWords = 4"

definition kSpxVerifyPureDomainSep :: "u8 list" where "kSpxVerifyPureDomainSep = [0, 0]"
definition kSpxVerifyPrehashDomainSep :: "u8 list" where
  "kSpxVerifyPrehashDomainSep = [0x01, 0x00, 0x06, 0x09, 0x60, 0x86, 0x48, 0x01, 0x65, 0x03, 0x04, 0x02, 0x01]"

definition spx_public_key_root :: "u32 list \<Rightarrow> u32 list" where
  "spx_public_key_root pk = take 4 (drop 4 pk)"

definition util_reverse_bytes :: "u8 list \<Rightarrow> u8 list" where
  "util_reverse_bytes buf =
     fold (\<lambda>i buf. buf[i := buf ! (length buf - i - 1), length buf - i - 1 := buf ! i]) [0..<length buf div 2] buf"

definition kSpxShares :: "u32 list" where
  "kSpxShares = [0x11deb806, 0x06457f69, 0x647f10c4, 0x73e4d092]"

definition spx_reduce_step :: "u32 list \<Rightarrow> u32 list \<Rightarrow> nat \<Rightarrow> u32 \<times> u32 \<times> u32 \<Rightarrow> u32 \<times> u32 \<times> u32" where
  "spx_reduce_step expected_root actual_root i = (\<lambda>(diff, result, flash_exec).
     let val = expected_root ! i XOR actual_root ! i;
         diff = diff OR (val XOR kSpxShares ! i);
         diff = diff OR (NOT diff + 1);
         diff = diff OR (NOT (drop_bit 31 diff) + 1)
     in (diff, (result XOR val) OR diff, (flash_exec XOR val) OR diff))"

text \<open>The switch over the algorithm: the computed root.\<close>

definition owner_spx_root ::
  "('h, 'm) own_hw_scheme \<Rightarrow> u32 \<Rightarrow> u32 list \<Rightarrow> u32 list \<Rightarrow> u8 list \<Rightarrow> u8 list \<Rightarrow> u8 list \<Rightarrow> u32 list \<Rightarrow> 'h \<Rightarrow>
     u32 \<times> u32 list \<times> 'h" where
  "owner_spx_root H key_alg key signature msg_prefix_1 msg_prefix_2 msg digest h =
     (if key_alg = kOwnershipKeyAlgSpxPure then
        spx_verify H signature kSpxVerifyPureDomainSep msg_prefix_1 msg_prefix_2 msg key h
      else if key_alg = kOwnershipKeyAlgSpxPrehash then
        spx_verify H signature kSpxVerifyPrehashDomainSep [] [] (util_reverse_bytes (words_bytes digest)) key h
      else (kErrorSigverifyBadSpxConfig, [], h))"

definition owner_spx_verify ::
  "('h, 'm) own_hw_scheme \<Rightarrow> u32 \<Rightarrow> u32 list \<Rightarrow> u32 list option \<Rightarrow> u8 list \<Rightarrow> u8 list \<Rightarrow> u8 list \<Rightarrow> u32 list \<Rightarrow>
     u32 \<Rightarrow> 'h \<Rightarrow> u32 \<times> u32 \<times> 'h" where
  "owner_spx_verify H key_alg key signature msg_prefix_1 msg_prefix_2 msg digest flash_exec h =
     (case signature of
        None \<Rightarrow> (kErrorSigverifySpxNotFound, flash_exec, h)
      | Some signature \<Rightarrow>
     let key_alg = key_alg AND NOT kOwnershipKeyAlgCategoryMask;
         key_alg = key_alg OR kOwnershipKeyAlgCategorySpx;
         expected_root = fold (\<lambda>i r. r[i := r ! i XOR kSpxShares ! i]) [0..<kSigverifySpxRootNumWords]
           (spx_public_key_root key);
         (error, actual_root, h) =
           owner_spx_root H key_alg key signature msg_prefix_1 msg_prefix_2 msg digest h
     in if error \<noteq> kErrorOk_value then (error, flash_exec, h)
     else case fold (spx_reduce_step expected_root actual_root) (rev [0..<kSigverifySpxRootNumWords])
            (0, 0, kErrorOk_value XOR kSigverifySpxSuccess) of (diff, result, flash_exec) \<Rightarrow>
       (if result \<noteq> kErrorOk_value then kErrorSigverifyBadSpxSignature else result, flash_exec, h))"

section \<open>An owner's key\<close>

text \<open>The members of the union \<open>owner_keydata_t\<close>.\<close>

definition key_ecdsa :: "u32 list \<Rightarrow> u32 list" where "key_ecdsa key = take 16 key"
definition key_spx :: "u32 list \<Rightarrow> u32 list" where "key_spx key = take 8 key"
definition key_hybrid_spx :: "u32 list \<Rightarrow> u32 list" where "key_hybrid_spx key = take 8 (drop 16 key)"

definition owner_verify ::
  "('h, 'm) own_hw_scheme \<Rightarrow> u32 \<Rightarrow> u32 list \<Rightarrow> u32 list option \<Rightarrow> u32 list option \<Rightarrow> u8 list \<Rightarrow> u8 list \<Rightarrow>
     u8 list \<Rightarrow> u32 list \<Rightarrow> 'h \<Rightarrow> (u32 \<times> u32 option \<times> 'h) option" where
  "owner_verify H key_alg key ecdsa_sig spx_sig msg_prefix_1 msg_prefix_2 msg digest h =
     (let category = key_alg AND kOwnershipKeyAlgCategoryMask;
          (error, h) =
            (if category = kOwnershipKeyAlgCategoryEcdsa \<or> category = kOwnershipKeyAlgCategoryHybrid
             then sigverify_ecdsa_p256_start H ecdsa_sig (key_ecdsa key) digest h
             else (kErrorOk_value, h))
      in if error \<noteq> kErrorOk_value then Some (error, None, h) else do {
        (spx, spx_flash_exec, h) \<leftarrow>
          (if category = kOwnershipKeyAlgCategorySpx \<or> category = kOwnershipKeyAlgCategoryHybrid then
             Some (owner_spx_verify H key_alg
               (if category = kOwnershipKeyAlgCategoryHybrid then key_hybrid_spx key else key_spx key)
               spx_sig msg_prefix_1 msg_prefix_2 msg digest 0 h)
           else do { HARDENED_CHECK (category = kOwnershipKeyAlgCategoryEcdsa);
                     Some (kErrorOk_value, kSigverifySpxSuccess, h) });
        (ecdsa, ec_flash_exec, h) \<leftarrow>
          (if category = kOwnershipKeyAlgCategoryEcdsa \<or> category = kOwnershipKeyAlgCategoryHybrid then
             Some (sigverify_ecdsa_p256_finish H ecdsa_sig 0 h)
           else do { HARDENED_CHECK (category = kOwnershipKeyAlgCategorySpx);
                     Some (kErrorOk_value, kSigverifyEcdsaSuccess, h) });
        if spx \<noteq> kErrorOk_value then Some (spx, None, h)
        else if ecdsa \<noteq> kErrorOk_value then Some (ecdsa, None, h)
        else Some (drop_bit 1 (spx + ecdsa), Some (ec_flash_exec XOR spx_flash_exec), h) })"

section \<open>The comparisons\<close>

lemma fold_xor_nth:
  "n \<le> length r \<Longrightarrow> length (fold (\<lambda>i r. r[i := r ! i XOR f i]) [0..<n] r) = length r \<and>
     (\<forall>k<length r. fold (\<lambda>i r. r[i := r ! i XOR f i]) [0..<n] r ! k = (if k < n then r ! k XOR f k else r ! k))"
  for r :: "u32 list"
  by (induction n) (auto simp: nth_list_update less_Suc_eq)

lemma ecdsa_shares: "length kEcdsaShares = 8" "foldl (XOR) 0 kEcdsaShares = kSigverifyEcdsaSuccess"
  by code_simp+

lemma ecdsa_reduce_step_eq:
  "ecdsa_reduce_step r i (diff, fe) =
     (let d = (if diff = 0 \<and> r ! i = kEcdsaShares ! i then 0 else 0xffffffff) in (d, (fe XOR r ! i) OR d))"
  unfolding ecdsa_reduce_step_def Let_def prod.case spread_word by (simp add: or_eq_0_iff xor_eq_0_iff_word)

lemma ecdsa_reduce_fold:
  "m \<le> 8 \<Longrightarrow> fold (ecdsa_reduce_step r) [0..<m] (0, 0) =
     (if \<forall>k<m. r ! k = kEcdsaShares ! k then (0, foldl (XOR) 0 (take m kEcdsaShares)) else (0xffffffff, 0xffffffff))"
proof (induction m)
  case (Suc m)
  then have "take (Suc m) kEcdsaShares = take m kEcdsaShares @ [kEcdsaShares ! m]"
    by (simp add: take_Suc_conv_app_nth ecdsa_shares)
  with Suc show ?case by (auto simp: ecdsa_reduce_step_eq Let_def less_Suc_eq or_ones)
qed simp

lemma ecdsa_message_check_eq:
  assumes "length r = 8" "8 \<le> length sig"
  shows "ecdsa_message_check r sig fe =
     (if r = take 8 sig then (kErrorOk_value, fe XOR kSigverifyEcdsaSuccess)
      else (kErrorSigverifyBadEcdsaSignature, fe XOR 0xffffffff))"
proof -
  let ?s = "fold (\<lambda>i r. r[i := r ! i XOR (sig ! i XOR kEcdsaShares ! i)]) [0..<8] r"
  have s: "\<forall>k<8. ?s ! k = r ! k XOR (sig ! k XOR kEcdsaShares ! k)"
    using fold_xor_nth [of 8 r "\<lambda>i. sig ! i XOR kEcdsaShares ! i"] assms(1) by simp
  have "?s ! k = kEcdsaShares ! k \<longleftrightarrow> r ! k = sig ! k" if "k < 8" for k
    using s that xor_right_cancel_word [of "r ! k XOR sig ! k" "kEcdsaShares ! k" 0]
    by (auto simp: xor_eq_0_iff_word xor.assoc [symmetric])
  then have "(\<forall>k<8. ?s ! k = kEcdsaShares ! k) \<longleftrightarrow> r = take 8 sig"
    using assms by (auto simp: list_eq_iff_nth_eq)
  then have "fold (ecdsa_reduce_step ?s) [0..<8] (0, 0) =
      (if r = take 8 sig then (0, kSigverifyEcdsaSuccess) else (0xffffffff, 0xffffffff))"
    using ecdsa_reduce_fold [of 8 ?s] ecdsa_shares by simp
  moreover have "sigverify_ecdsa_p256_success_to_ok kSigverifyEcdsaSuccess = kErrorOk_value"
    "sigverify_ecdsa_p256_success_to_ok 0xffffffff \<noteq> kErrorOk_value" by code_simp+
  ultimately show ?thesis
    by (simp add: ecdsa_message_check_def kEcdsaP256SignatureComponentWords_def Let_def)
qed

lemma spx_reduce_step_eq:
  "spx_reduce_step e a i (diff, res, fe) =
     (let d = (if diff = 0 \<and> e ! i XOR a ! i = kSpxShares ! i then 0 else 0xffffffff)
      in (d, (res XOR (e ! i XOR a ! i)) OR d, (fe XOR (e ! i XOR a ! i)) OR d))"
  unfolding spx_reduce_step_def Let_def prod.case spread_word by (simp add: or_eq_0_iff xor_eq_0_iff_word)

lemma spx_reduce_fold:
  "fold (spx_reduce_step e a) (rev [0..<4]) (0, 0, fe) =
     (if \<forall>k<4. e ! k XOR a ! k = kSpxShares ! k then (0, kErrorOk_value, fe XOR kErrorOk_value)
      else (0xffffffff, 0xffffffff, 0xffffffff))"
proof -
  have idx: "rev [0..<4] = [3, 2, 1, 0 :: nat]" by (simp add: upt_rec)
  have four: "(\<forall>k<4. P k) \<longleftrightarrow> P 3 \<and> P 2 \<and> P 1 \<and> P (0 :: nat)" for P
    by (auto simp: numeral_eq_Suc less_Suc_eq)
  have ok: "kSpxShares ! 3 XOR kSpxShares ! 2 XOR kSpxShares ! 1 XOR kSpxShares ! 0 = kErrorOk_value"
    by code_simp
  show ?thesis
    unfolding idx four using ok by (auto simp: spx_reduce_step_eq Let_def or_ones xor.assoc)
qed

lemma root_shared:
  assumes "length r = 4" "length a = 4"
  shows "(\<forall>k<4. fold (\<lambda>i r. r[i := r ! i XOR kSpxShares ! i]) [0..<4] r ! k XOR a ! k = kSpxShares ! k) \<longleftrightarrow> a = r"
proof -
  have s: "\<forall>k<4. fold (\<lambda>i r. r[i := r ! i XOR kSpxShares ! i]) [0..<4] r ! k = r ! k XOR kSpxShares ! k"
    using fold_xor_nth [of 4 r "\<lambda>i. kSpxShares ! i"] assms(1) by simp
  have "(r ! k XOR kSpxShares ! k) XOR a ! k = kSpxShares ! k \<longleftrightarrow> a ! k = r ! k" for k
    using xor_right_cancel_word [of "r ! k XOR a ! k" "kSpxShares ! k" 0]
    by (auto simp: xor_eq_0_iff_word xor_ac)
  with s show ?thesis using assms by (auto simp: list_eq_iff_nth_eq)
qed

section \<open>When a signature is accepted\<close>

text \<open>What the hardware promises of the lengths of its results.\<close>

definition verify_lengths :: "('h, 'm) own_hw_scheme \<Rightarrow> bool" where
  "verify_lengths H \<longleftrightarrow>
     (\<forall>h r h'. otbn_boot_sigverify_finish H h = (kErrorOk_value, r, h') \<longrightarrow> length r = 8) \<and>
     (\<forall>sig d p1 p2 m k h r h'. spx_verify H sig d p1 p2 m k h = (kErrorOk_value, r, h') \<longrightarrow> length r = 4)"

definition spx_alg :: "u32 \<Rightarrow> u32" where
  "spx_alg key_alg = (key_alg AND NOT kOwnershipKeyAlgCategoryMask) OR kOwnershipKeyAlgCategorySpx"

text \<open>The ECDSA part accepts when OTBN, started with key, signature and digest, recovers the \<open>r\<close> of the signature.\<close>

definition ecdsa_finish_ok :: "('h, 'm) own_hw_scheme \<Rightarrow> u32 list option \<Rightarrow> 'h \<Rightarrow> bool" where
  "ecdsa_finish_ok H ecdsa_sig h \<longleftrightarrow>
     (\<exists>sig h'. ecdsa_sig = Some sig \<and> otbn_boot_sigverify_finish H h = (kErrorOk_value, take 8 sig, h'))"

text \<open>The SPHINCS+ part accepts when the computed root is the one of the public key.\<close>

definition spx_ok ::
  "('h, 'm) own_hw_scheme \<Rightarrow> u32 \<Rightarrow> u32 list \<Rightarrow> u32 list option \<Rightarrow> u8 list \<Rightarrow> u8 list \<Rightarrow> u8 list \<Rightarrow> u32 list \<Rightarrow> 'h \<Rightarrow> bool" where
  "spx_ok H key_alg key spx_sig p1 p2 msg digest h \<longleftrightarrow>
     (\<exists>sig h'. spx_sig = Some sig \<and>
        owner_spx_root H (spx_alg key_alg) key sig p1 p2 msg digest h = (kErrorOk_value, spx_public_key_root key, h'))"

lemma ecdsa_finish_correct:
  assumes "verify_lengths H" "\<forall>sig. ecdsa_sig = Some sig \<longrightarrow> 8 \<le> length sig"
  shows "fst (sigverify_ecdsa_p256_finish H ecdsa_sig fe h) = kErrorOk_value \<longleftrightarrow> ecdsa_finish_ok H ecdsa_sig h"
proof (cases ecdsa_sig)
  case None
  moreover have "kErrorSigverifyEcdsaNotFound \<noteq> kErrorOk_value"
    by (simp add: kErrorSigverifyEcdsaNotFound_def ownership_errors)
  ultimately show ?thesis by (simp add: sigverify_ecdsa_p256_finish_def ecdsa_finish_ok_def)
next
  case (Some sig)
  obtain e r h' where f: "otbn_boot_sigverify_finish H h = (e, r, h')" by (rule prod_cases3)
  have bad: "kErrorSigverifyBadEcdsaSignature \<noteq> kErrorOk_value"
    by (simp add: kErrorSigverifyBadEcdsaSignature_def ownership_errors)
  show ?thesis
  proof (cases "e = kErrorOk_value")
    case True
    with f assms(1) have "length r = 8" by (auto simp: verify_lengths_def)
    then show ?thesis
      using Some f True assms(2) bad
      by (simp add: sigverify_ecdsa_p256_finish_def ecdsa_finish_ok_def ecdsa_message_check_eq)
  qed (use Some f in \<open>simp add: sigverify_ecdsa_p256_finish_def ecdsa_finish_ok_def\<close>)
qed

lemma owner_spx_root_length:
  assumes "verify_lengths H" "owner_spx_root H a k sig p1 p2 m d h = (kErrorOk_value, r, h')"
  shows "length r = 4"
proof -
  have spx: "spx_verify H sig dm q1 q2 m' k h = (kErrorOk_value, r, h') \<Longrightarrow> length r = 4" for dm q1 q2 m'
    using assms(1) unfolding verify_lengths_def by blast
  have "kErrorSigverifyBadSpxConfig \<noteq> kErrorOk_value"
    by (simp add: kErrorSigverifyBadSpxConfig_def ownership_errors)
  with assms(2) show ?thesis by (auto simp: owner_spx_root_def intro: spx split: if_splits)
qed

lemma owner_spx_correct:
  assumes "verify_lengths H" "length key = 8"
  shows "fst (owner_spx_verify H key_alg key spx_sig p1 p2 msg digest fe h) = kErrorOk_value \<longleftrightarrow>
      spx_ok H key_alg key spx_sig p1 p2 msg digest h"
proof (cases spx_sig)
  case None
  moreover have "kErrorSigverifySpxNotFound \<noteq> kErrorOk_value"
    by (simp add: kErrorSigverifySpxNotFound_def ownership_errors)
  ultimately show ?thesis by (simp add: owner_spx_verify_def spx_ok_def)
next
  case (Some sig)
  obtain e r h' where f: "owner_spx_root H (spx_alg key_alg) key sig p1 p2 msg digest h = (e, r, h')"
    by (rule prod_cases3)
  have bad: "kErrorSigverifyBadSpxSignature \<noteq> kErrorOk_value" "(0xffffffff :: u32) \<noteq> kErrorOk_value"
    by (simp_all add: kErrorSigverifyBadSpxSignature_def ownership_errors)
  have root: "length (spx_public_key_root key) = 4" using assms(2) by (simp add: spx_public_key_root_def)
  show ?thesis
  proof (cases "e = kErrorOk_value")
    case True
    with f assms(1) have len: "length r = 4" by (auto intro: owner_spx_root_length)
    show ?thesis
      using Some f True bad root_shared [OF root len] unfolding spx_alg_def
      by (simp add: owner_spx_verify_def spx_ok_def spx_alg_def kSigverifySpxRootNumWords_def spx_reduce_fold
          eq_commute [of r] del: upt_Suc)
  qed (use Some f in \<open>simp add: owner_spx_verify_def spx_ok_def spx_alg_def\<close>)
qed

lemma categories_distinct:
  "kOwnershipKeyAlgCategoryEcdsa \<noteq> kOwnershipKeyAlgCategorySpx"
  "kOwnershipKeyAlgCategoryEcdsa \<noteq> kOwnershipKeyAlgCategoryHybrid"
  "kOwnershipKeyAlgCategorySpx \<noteq> kOwnershipKeyAlgCategoryHybrid"
  by (simp_all add: key_algs)

definition alg_category :: "u32 \<Rightarrow> u32" where
  "alg_category key_alg = key_alg AND kOwnershipKeyAlgCategoryMask"

text \<open>The state of the hardware after the start of OTBN, and after the computation of the root.\<close>

definition after_ecdsa_start ::
  "('h, 'm) own_hw_scheme \<Rightarrow> u32 \<Rightarrow> u32 list \<Rightarrow> u32 list option \<Rightarrow> u32 list \<Rightarrow> 'h \<Rightarrow> u32 \<times> 'h" where
  "after_ecdsa_start H key_alg key ecdsa_sig digest h =
     (if alg_category key_alg = kOwnershipKeyAlgCategoryEcdsa \<or> alg_category key_alg = kOwnershipKeyAlgCategoryHybrid
      then otbn_boot_sigverify_start H (key_ecdsa key) ecdsa_sig digest h else (kErrorOk_value, h))"

definition spx_key_of :: "u32 \<Rightarrow> u32 list \<Rightarrow> u32 list" where
  "spx_key_of key_alg key =
     (if alg_category key_alg = kOwnershipKeyAlgCategoryHybrid then key_hybrid_spx key else key_spx key)"

definition after_spx ::
  "('h, 'm) own_hw_scheme \<Rightarrow> u32 \<Rightarrow> u32 list \<Rightarrow> u32 list option \<Rightarrow> u8 list \<Rightarrow> u8 list \<Rightarrow> u8 list \<Rightarrow> u32 list \<Rightarrow> 'h \<Rightarrow> 'h" where
  "after_spx H key_alg key spx_sig p1 p2 msg digest h =
     (if alg_category key_alg = kOwnershipKeyAlgCategorySpx \<or> alg_category key_alg = kOwnershipKeyAlgCategoryHybrid
      then snd (snd (owner_spx_verify H key_alg (spx_key_of key_alg key) spx_sig p1 p2 msg digest 0 h)) else h)"

text \<open>
  A key accepts a signature: every part its algorithm asks for is there and verifies.
\<close>

definition key_accepts ::
  "('h, 'm) own_hw_scheme \<Rightarrow> u32 \<Rightarrow> u32 list \<Rightarrow> u32 list option \<Rightarrow> u32 list option \<Rightarrow> u8 list \<Rightarrow> u8 list \<Rightarrow>
     u8 list \<Rightarrow> u32 list \<Rightarrow> 'h \<Rightarrow> bool" where
  "key_accepts H key_alg key ecdsa_sig spx_sig p1 p2 msg digest h \<longleftrightarrow>
     (let category = alg_category key_alg;
          h1 = snd (after_ecdsa_start H key_alg key ecdsa_sig digest h);
          h2 = after_spx H key_alg key spx_sig p1 p2 msg digest h1
      in category \<in> {kOwnershipKeyAlgCategoryEcdsa, kOwnershipKeyAlgCategorySpx, kOwnershipKeyAlgCategoryHybrid} \<and>
         (category \<noteq> kOwnershipKeyAlgCategorySpx \<longrightarrow>
            fst (after_ecdsa_start H key_alg key ecdsa_sig digest h) = kErrorOk_value \<and>
            ecdsa_finish_ok H ecdsa_sig h2) \<and>
         (category \<noteq> kOwnershipKeyAlgCategoryEcdsa \<longrightarrow>
            spx_ok H key_alg (spx_key_of key_alg key) spx_sig p1 p2 msg digest h1))"

lemma ok_mix: "drop_bit 1 (kErrorOk_value + kErrorOk_value) = kErrorOk_value"
  by code_simp

lemma owner_verify_accept:
  assumes "verify_lengths H" "length key = 24" "\<forall>sig. ecdsa_sig = Some sig \<longrightarrow> 8 \<le> length sig"
  shows "(\<exists>fe h'. owner_verify H key_alg key ecdsa_sig spx_sig p1 p2 msg digest h = Some (kErrorOk_value, fe, h')) \<longleftrightarrow>
     key_accepts H key_alg key ecdsa_sig spx_sig p1 p2 msg digest h"
proof -
  obtain e1 h1 where st: "after_ecdsa_start H key_alg key ecdsa_sig digest h = (e1, h1)" by (rule prod.exhaust)
  obtain sp sf h2 where sx: "owner_spx_verify H key_alg (spx_key_of key_alg key) spx_sig p1 p2 msg digest 0 h1 = (sp, sf, h2)"
    by (rule prod_cases3)
  have keys: "length (spx_key_of key_alg key) = 8"
    using assms(2) by (simp add: spx_key_of_def key_spx_def key_hybrid_spx_def)
  have spok: "sp = kErrorOk_value \<longleftrightarrow> spx_ok H key_alg (spx_key_of key_alg key) spx_sig p1 p2 msg digest h1"
    using owner_spx_correct [OF assms(1) keys, of key_alg spx_sig p1 p2 msg digest 0 h1] sx by simp
  have ecok: "fst (sigverify_ecdsa_p256_finish H ecdsa_sig 0 s) = kErrorOk_value \<longleftrightarrow> ecdsa_finish_ok H ecdsa_sig s" for s
    by (rule ecdsa_finish_correct [OF assms(1,3)])
  note defs = owner_verify_def Let_def sigverify_ecdsa_p256_start_def alg_category_def [symmetric]
    after_ecdsa_start_def spx_key_of_def after_spx_def
  consider "alg_category key_alg = kOwnershipKeyAlgCategoryEcdsa"
    | "alg_category key_alg = kOwnershipKeyAlgCategorySpx"
    | "alg_category key_alg = kOwnershipKeyAlgCategoryHybrid"
    | "alg_category key_alg \<notin> {kOwnershipKeyAlgCategoryEcdsa, kOwnershipKeyAlgCategorySpx, kOwnershipKeyAlgCategoryHybrid}"
    by blast
  then show ?thesis
  proof cases
    case 1
    obtain ec ef h3 where ec: "sigverify_ecdsa_p256_finish H ecdsa_sig 0 h1 = (ec, ef, h3)" by (rule prod_cases3)
    show ?thesis
      using 1 st ec ecok [of h1] categories_distinct ok_mix by (auto simp: defs key_accepts_def)
  next
    case 2
    show ?thesis
      using 2 st sx spok categories_distinct [symmetric] categories_distinct ok_mix
      by (auto simp: defs key_accepts_def)
  next
    case 3
    obtain ec ef h3 where ec: "sigverify_ecdsa_p256_finish H ecdsa_sig 0 h2 = (ec, ef, h3)" by (rule prod_cases3)
    show ?thesis
      using 3 st sx spok ec ecok [of h2] categories_distinct categories_distinct [symmetric] ok_mix
      by (auto simp: defs key_accepts_def)
  next
    case 4
    then show ?thesis by (simp add: defs key_accepts_def)
  qed
qed

text \<open>
  C29: The check of a signature returns success exactly when the key accepts it: the algorithm is one of the
  three categories, OTBN recovers the \<open>r\<close> of the ECDSA signature unless the key is SPHINCS+ only, and
  the computed root is the one of the key unless it is ECDSA only. A missing signature, a failed computation
  and a comparison that differs in any word all end in an error or a trap.
\<close>

theorem owner_verify_accepts:
  assumes "verify_lengths H" "length key = 24" "\<forall>sig. ecdsa_sig = Some sig \<longrightarrow> 8 \<le> length sig"
  shows "(\<exists>fe h'. owner_verify H key_alg key ecdsa_sig spx_sig p1 p2 msg digest h = Some (kErrorOk_value, fe, h')) \<longleftrightarrow>
     key_accepts H key_alg key ecdsa_sig spx_sig p1 p2 msg digest h"
  by (rule owner_verify_accept [OF assms])

definition demo_verifier :: "unit own_hw \<Rightarrow> unit own_hw" where
  "demo_verifier H = H\<lparr>otbn_boot_sigverify_start := (\<lambda>key sig digest h. (kErrorOk_value, h)),
     otbn_boot_sigverify_finish := (\<lambda>h. (kErrorOk_value, replicate 8 5, h)),
     spx_verify := (\<lambda>sig d p1 p2 m key h. (kErrorOk_value, replicate 4 6, h))\<rparr>"

theorem owner_verify_accepts_witness:
  "\<forall>H. (\<exists>fe h'. owner_verify (demo_verifier H) kOwnershipKeyAlgHybridSpxPure (replicate 24 6)
       (Some (replicate 16 5)) (Some []) [] [] [] [] () = Some (kErrorOk_value, fe, h')) \<and>
     \<not> (\<exists>fe h'. owner_verify (demo_verifier H) kOwnershipKeyAlgHybridSpxPure (replicate 24 7)
       (Some (replicate 16 5)) (Some []) [] [] [] [] () = Some (kErrorOk_value, fe, h'))"
proof
  fix H :: "unit own_hw"
  have len: "verify_lengths (demo_verifier H)" by (simp add: verify_lengths_def demo_verifier_def)
  have alg: "alg_category kOwnershipKeyAlgHybridSpxPure = kOwnershipKeyAlgCategoryHybrid"
    "spx_alg kOwnershipKeyAlgHybridSpxPure = kOwnershipKeyAlgSpxPure" by code_simp+
  have acc: "key_accepts (demo_verifier H) kOwnershipKeyAlgHybridSpxPure (replicate 24 k) (Some (replicate 16 5)) (Some []) [] [] [] [] () =
      (k = 6)" for k
    using categories_distinct categories_distinct [symmetric]
    by (simp add: key_accepts_def alg after_ecdsa_start_def ecdsa_finish_ok_def spx_ok_def owner_spx_root_def
        demo_verifier_def spx_key_of_def key_hybrid_spx_def spx_public_key_root_def Let_def numeral_eq_Suc)
  show "(\<exists>fe h'. owner_verify (demo_verifier H) kOwnershipKeyAlgHybridSpxPure (replicate 24 6)
       (Some (replicate 16 5)) (Some []) [] [] [] [] () = Some (kErrorOk_value, fe, h')) \<and>
     \<not> (\<exists>fe h'. owner_verify (demo_verifier H) kOwnershipKeyAlgHybridSpxPure (replicate 24 7)
       (Some (replicate 16 5)) (Some []) [] [] [] [] () = Some (kErrorOk_value, fe, h'))"
    using owner_verify_accepts [OF len, of "replicate 24 6"] owner_verify_accepts [OF len, of "replicate 24 7"] acc
    by simp
qed

end
