(* ===== verification/Ownership_Key.thy ===== *)
theory Ownership_Key
  imports Owner_Block Owner_Verify
begin

unbundle bit_operations_syntax

text \<open>
  \<open>ownership/ownership_key.c\<close>: which signature and which keys of an owner page authorise a command, the
  seal that binds a page to the chip, and the secret page with the history of owners. A detached
  signature is looked for in the memory-mapped flash, at the addresses of its pages. The two owner
  pages in RAM are a function from the page number. None is a hardened trap or a search that never ends.
\<close>

section \<open>Signatures\<close>

definition is_signature_empty :: "u32 list \<Rightarrow> bool" where
  "is_signature_empty signature \<longleftrightarrow> list_all (\<lambda>w. w = 0) (take 16 signature)"

definition flash_words :: "('h, 'm) own_hw_scheme \<Rightarrow> 'h \<Rightarrow> u32 \<Rightarrow> nat \<Rightarrow> u32 list" where
  "flash_words H h addr n = map (\<lambda>i. flash_mem_word H h (addr + 4 * of_nat i)) [0..<n]"

text \<open>The structure \<open>owner_detached_signature_t\<close> at an address.\<close>

definition kDetachedSignatureSize :: u32 where "kDetachedSignatureSize = 8192"
definition kSpxSignatureWords :: nat where "kSpxSignatureWords = 1964"

definition detached_matches ::
  "('h, 'm) own_hw_scheme \<Rightarrow> 'h \<Rightarrow> u32 \<Rightarrow> u32 list \<Rightarrow> u32 \<Rightarrow> bool" where
  "detached_matches H h command nonce addr \<longleftrightarrow>
     (let sig = flash_words H h addr 8
      in tlv_tag sig = kTlvTagDetachedSignature \<and> tlv_length sig = kDetachedSignatureSize \<and>
         tlv_major sig = 0 \<and> sig ! 4 = command \<and> nonce_equal (drop 6 sig) nonce)"

partial_function (option) signature_scan_loop ::
  "('h, 'm) own_hw_scheme \<Rightarrow> 'h \<Rightarrow> u32 \<Rightarrow> u32 list \<Rightarrow> u32 \<Rightarrow> u32 \<Rightarrow> u32 option option" where
  "signature_scan_loop H h command nonce start end' =
     (if start < end' then
        if detached_matches H h command nonce start then Some (Some start)
        else signature_scan_loop H h command nonce (start + flash_bytes_per_page (chip H)) end'
      else Some None)"

declare signature_scan_loop.simps [code]

definition ownership_signature_scan ::
  "('h, 'm) own_hw_scheme \<Rightarrow> 'h \<Rightarrow> u32 \<Rightarrow> u32 \<Rightarrow> u32 \<Rightarrow> u32 list \<Rightarrow> u32 option option" where
  "ownership_signature_scan H h start len command nonce =
     (if len < kDetachedSignatureSize then Some None
      else let len = len - kDetachedSignatureSize; end' = start + len
        in signature_scan_loop H h command nonce start end')"

text \<open>The signatures to check: the one in the message, or a detached one for an empty field.\<close>

definition signature_source ::
  "('h, 'm) own_hw_scheme \<Rightarrow> u32 \<Rightarrow> u32 \<Rightarrow> u32 list \<Rightarrow> u32 list \<Rightarrow> 'h \<Rightarrow>
     (u32 + u32 list option \<times> u32 list option) option" where
  "signature_source H key_alg command nonce signature h =
     (if \<not> is_signature_empty signature then
        if key_alg \<noteq> kOwnershipKeyAlgEcdsaP256 then Some (Inl kErrorOwnershipInvalidAlgorithm)
        else Some (Inr (Some (take 16 signature), None))
      else do {
        detached \<leftarrow> ownership_signature_scan H h (flash_mem_base (chip H)) (flash_mem_size (chip H)) command nonce;
        case detached of
          None \<Rightarrow> Some (Inl kErrorOwnershipSignatureNotFound)
        | Some addr \<Rightarrow>
            let category = key_alg AND kOwnershipKeyAlgCategoryMask in
            if category = kOwnershipKeyAlgCategoryEcdsa then
              Some (Inr (Some (flash_words H h (addr + 32) 16), None))
            else if category = kOwnershipKeyAlgCategorySpx then
              Some (Inr (None, Some (flash_words H h (addr + 32) kSpxSignatureWords)))
            else if category = kOwnershipKeyAlgCategoryHybrid then
              Some (Inr (Some (flash_words H h (addr + 32) 16),
                Some (flash_words H h (addr + 96) kSpxSignatureWords)))
            else Some (Inl kErrorOwnershipInvalidAlgorithm) })"

text \<open>The keys in the order in which they are tried; the owner key is tried for every command.\<close>

definition candidate_keys :: "('h, 'm) own_hw_scheme \<Rightarrow> owner_block \<Rightarrow> u32 \<Rightarrow> u32 list list" where
  "candidate_keys H page key =
     (if key AND kOwnershipKeyUnlock = kOwnershipKeyUnlock then [ob_unlock_key page] else []) @
     (if key AND kOwnershipKeyActivate = kOwnershipKeyActivate then [ob_activate_key page] else []) @
     (case no_owner_recovery_key H of
        None \<Rightarrow> []
      | Some k \<Rightarrow> if key AND kOwnershipKeyRecovery = kOwnershipKeyRecovery then [k] else []) @
     [ob_owner_key page]"

fun try_keys ::
  "('h, 'm) own_hw_scheme \<Rightarrow> u32 \<Rightarrow> u32 list option \<Rightarrow> u32 list option \<Rightarrow> u32 list \<Rightarrow> u32 list \<Rightarrow>
     u32 list list \<Rightarrow> 'h \<Rightarrow> (u32 \<times> 'h) option" where
  "try_keys H key_alg ecdsa spx message digest [] h = Some (kErrorOwnershipInvalidSignature, h)"
| "try_keys H key_alg ecdsa spx message digest (key # keys) h = do {
     (e, _, h) \<leftarrow> owner_verify H key_alg key ecdsa spx [] [] (words_bytes message) digest h;
     if e = kErrorOk_value then Some (kErrorOk_value, h)
     else try_keys H key_alg ecdsa spx message digest keys h }"

definition ownership_key_validate ::
  "('h, 'm) own_hw_scheme \<Rightarrow> (nat \<Rightarrow> owner_block) \<Rightarrow> nat \<Rightarrow> u32 \<Rightarrow> u32 \<Rightarrow> u32 list \<Rightarrow> u32 list \<Rightarrow> u32 list \<Rightarrow>
     'h \<Rightarrow> (u32 \<times> 'h) option" where
  "ownership_key_validate H owner_page page key command nonce signature message h = do {
     source \<leftarrow> signature_source H (ob_ownership_key_alg (owner_page page)) command nonce signature h;
     case source of
       Inl e \<Rightarrow> Some (e, h)
     | Inr (ecdsa, spx) \<Rightarrow>
         try_keys H (ob_ownership_key_alg (owner_page page)) ecdsa spx message (hmac_sha256 H message)
           (candidate_keys H (owner_page page) key) h }"

section \<open>The seal\<close>

definition ownership_seal_init :: "('h, 'm) own_hw_scheme \<Rightarrow> 'h \<Rightarrow> u32 \<times> 'h" where
  "ownership_seal_init H h =
     (case keymgr_generate_sealing_key H [4004, 8008, 8080, 1802, 6800, 6502, 6809, 8088] 0 h of (e, h) \<Rightarrow>
      if e \<noteq> kErrorOk_value then (e, h)
      else case kmac_configure H h of (e, h) \<Rightarrow>
      if e \<noteq> kErrorOk_value then (e, h)
      else (kErrorOk_value, kmac_set_prefix H (str_bytes ''Ownership'') h))"

definition ownership_seal_clear :: "('h, 'm) own_hw_scheme \<Rightarrow> 'h \<Rightarrow> u32 \<times> 'h" where
  "ownership_seal_clear H h = keymgr_sideload_clear H h"

text \<open>The words up to the seal are absorbed; the result is the seal buffer afterwards.\<close>

definition seal_generate ::
  "('h, 'm) own_hw_scheme \<Rightarrow> owner_block \<Rightarrow> u32 list \<Rightarrow> 'h \<Rightarrow> u32 \<times> u32 list \<times> 'h" where
  "seal_generate H page seal h =
     (case kmac_kmac256_start H h of (e, h) \<Rightarrow>
      if e \<noteq> kErrorOk_value then (e, seal, h)
      else kmac_kmac256_final H 8 (kmac_kmac256_absorb H (take 504 (ob_words page)) h))"

definition ownership_seal_page ::
  "('h, 'm) own_hw_scheme \<Rightarrow> (nat \<Rightarrow> owner_block) \<Rightarrow> nat \<Rightarrow> 'h \<Rightarrow> u32 \<times> (nat \<Rightarrow> owner_block) \<times> 'h" where
  "ownership_seal_page H owner_page page h =
     (case seal_generate H (owner_page page) (ob_seal (owner_page page)) h of (e, seal, h) \<Rightarrow>
      (e, owner_page(page := (owner_page page)\<lparr>ob_seal := seal\<rparr>), h))"

definition ownership_seal_check ::
  "('h, 'm) own_hw_scheme \<Rightarrow> (nat \<Rightarrow> owner_block) \<Rightarrow> nat \<Rightarrow> 'h \<Rightarrow> (u32 \<times> 'h) option" where
  "ownership_seal_check H owner_page page h =
     (case seal_generate H (owner_page page) (replicate 8 0) h of (e, check, h) \<Rightarrow>
      if e \<noteq> kErrorOk_value then Some (e, h)
      else do {
        (result, h) \<leftarrow> hardened_memeq (rnd_uint32 H) (ob_seal (owner_page page)) check 8 h;
        if result = kHardenedBoolTrue then Some (result, h)
        else Some (kErrorOwnershipInvalidInfoPage, h) })"

section \<open>The secret page\<close>

text \<open>Words from bytes, the lowest first; the two pointers of \<open>reverse\<close> meet in the middle.\<close>

definition words_of_bytes :: "u8 list \<Rightarrow> u32 list" where
  "words_of_bytes bs = map (\<lambda>i. bytes_word (bs ! (4 * i)) (bs ! (4 * i + 1)) (bs ! (4 * i + 2)) (bs ! (4 * i + 3)))
     [0..<length bs div 4]"

fun reverse_loop :: "nat \<Rightarrow> nat \<Rightarrow> nat \<Rightarrow> u8 list \<Rightarrow> u8 list" where
  "reverse_loop 0 x y buf = buf"
| "reverse_loop (Suc n) x y buf =
     (if x < y then reverse_loop n (x + 1) (y - 1) (buf[x := buf ! y, y := buf ! x]) else buf)"

definition reverse :: "u8 list \<Rightarrow> u8 list" where
  "reverse buf = reverse_loop (length buf) 0 (length buf - 1) buf"

definition secret_page_enable :: "('h, 'm) own_hw_scheme \<Rightarrow> u32 \<Rightarrow> u32 \<Rightarrow> 'h \<Rightarrow> 'h" where
  "secret_page_enable H read write h =
     info_perms_set H kFlashCtrlInfoPageOwnerSecret \<lparr>perm_read = read, perm_write = write, perm_erase = write\<rparr> h"

definition key_size_words :: "u32 \<Rightarrow> nat" where
  "key_size_words key_alg =
     (let category = key_alg AND kOwnershipKeyAlgCategoryMask
      in if category = kOwnershipKeyAlgCategoryEcdsa then 16
         else if category = kOwnershipKeyAlgCategorySpx then 8 else 24)"

text \<open>
  The page is the owner's secret (8 words) and the hash chain of the owners (8 words). Both are replaced
  by their hash with the key of the prior owner.
\<close>

definition next_secret :: "('h, 'm) own_hw_scheme \<Rightarrow> u32 \<Rightarrow> u32 list \<Rightarrow> u32 list \<Rightarrow> u32 list" where
  "next_secret H prior_key_alg prior_owner_key secret =
     (let key = take (key_size_words prior_key_alg) prior_owner_key;
          history = words_of_bytes (reverse (words_bytes (hmac_sha256 H (take 8 (drop 8 secret) @ key))));
          owner_secret = hmac_sha256 H (take 8 secret @ key)
      in owner_secret @ history)"

definition ownership_secret_new ::
  "('h, 'm) own_hw_scheme \<Rightarrow> u32 \<Rightarrow> u32 list \<Rightarrow> 'h \<Rightarrow> (u32 \<times> 'h) option" where
  "ownership_secret_new H prior_key_alg prior_owner_key h =
     (let h = secret_page_enable H kMultiBitBool4True kMultiBitBool4True h;
          exitproc = (\<lambda>error h. Some (error, secret_page_enable H kMultiBitBool4False kMultiBitBool4False h));
          (error, secret, h) = info_read H kFlashCtrlInfoPageOwnerSecret 0 16 h;
          (error, secret, h) =
            (if error \<noteq> kErrorOk_value \<and> \<not> device_silicon H then
               case info_erase_page H kFlashCtrlInfoPageOwnerSecret h of (error, h) \<Rightarrow>
               (error, replicate 16 0xFFFFFFFF, h)
             else (error, secret, h))
      in if error \<noteq> kErrorOk_value then exitproc error h
         else let secret = next_secret H prior_key_alg prior_owner_key secret;
                  (error, h) = info_erase_page H kFlashCtrlInfoPageOwnerSecret h
         in if error \<noteq> kErrorOk_value then exitproc error h
         else case info_write H kFlashCtrlInfoPageOwnerSecret 0 secret h of (error, h) \<Rightarrow> exitproc error h)"

definition ownership_history_get :: "('h, 'm) own_hw_scheme \<Rightarrow> 'h \<Rightarrow> u32 \<times> u32 list \<times> 'h" where
  "ownership_history_get H h =
     (let h = secret_page_enable H kMultiBitBool4True kMultiBitBool4False h;
          (error, history, h) = info_read H kFlashCtrlInfoPageOwnerSecret 32 8 h;
          history = (if error \<noteq> kErrorOk_value then replicate 8 0xFFFFFFFF else history)
      in (error, history, secret_page_enable H kMultiBitBool4False kMultiBitBool4False h))"

section \<open>What the functions compute\<close>

lemma reverse_loop_nth:
  "x + y + 1 = length buf \<Longrightarrow> y \<le> x + 2 * n \<Longrightarrow>
     length (reverse_loop n x y buf) = length buf \<and>
     (\<forall>i<length buf. reverse_loop n x y buf ! i = (if x \<le> i \<and> i \<le> y then buf ! (x + y - i) else buf ! i))"
proof (induction n arbitrary: x y buf)
  case (Suc n)
  show ?case
  proof (cases "x < y")
    case True
    let ?b = "buf[x := buf ! y, y := buf ! x]"
    have "(x + 1) + (y - 1) + 1 = length ?b" "y - 1 \<le> (x + 1) + 2 * n" using True Suc.prems by simp_all
    note IH = Suc.IH [OF this]
    show ?thesis
      using IH True Suc.prems(1) by (auto simp: nth_list_update)
  next
    case False
    then have "x = y \<or> y < x" by auto
    then show ?thesis using Suc.prems(1) False by (auto intro: arg_cong [where f = "(!) buf"])
  qed
qed (auto intro: arg_cong [where f = "\<lambda>i. buf ! i" for buf])

lemma reverse_rev: "reverse buf = rev buf"
proof (cases "buf = []")
  case False
  then have "0 + (length buf - 1) + 1 = length buf" "length buf - 1 \<le> 0 + 2 * length buf" by (cases buf, simp_all)
  note r = reverse_loop_nth [OF this]
  show ?thesis
    using r False by (intro nth_equalityI) (auto simp: reverse_def rev_nth)
qed (simp add: reverse_def)

lemma signature_scan_loop_find:
  assumes "unat end' + unat (flash_bytes_per_page (chip H)) < 2 ^ 32"
  shows "(\<forall>i<n. unat start + i * unat (flash_bytes_per_page (chip H)) < unat end') \<Longrightarrow>
     unat end' \<le> unat start + n * unat (flash_bytes_per_page (chip H)) \<Longrightarrow>
     signature_scan_loop H h command nonce start end' =
       Some (find (detached_matches H h command nonce)
         (map (\<lambda>i. start + of_nat i * flash_bytes_per_page (chip H)) [0..<n]))"
proof (induction n arbitrary: start)
  case 0
  then show ?case by (subst signature_scan_loop.simps) (simp add: word_less_nat_alt)
next
  case (Suc n)
  let ?step = "flash_bytes_per_page (chip H)"
  have lt: "unat start < unat end'" using Suc.prems(1) by (auto dest: spec [of _ 0])
  then have next_start: "unat (start + ?step) = unat start + unat ?step" using assms by (simp add: unat_word_ariths)
  have pages: "map (\<lambda>i. start + of_nat i * ?step) [0..<Suc n] =
      start # map (\<lambda>i. (start + ?step) + of_nat i * ?step) [0..<n]"
    by (simp only: upt_conv_Cons zero_less_Suc list.map map_Suc_upt [symmetric] map_map) (simp add: algebra_simps)
  have "signature_scan_loop H h command nonce (start + ?step) end' =
      Some (find (detached_matches H h command nonce) (map (\<lambda>i. (start + ?step) + of_nat i * ?step) [0..<n]))"
    using Suc.prems next_start by (intro Suc.IH) auto
  then show ?case
    using lt unfolding pages by (subst signature_scan_loop.simps) (simp add: word_less_nat_alt)
qed

text \<open>
  A command is authorised by a signature, in the message or detached, that one of the given keys accepts.
\<close>

definition authorised ::
  "('h, 'm) own_hw_scheme \<Rightarrow> owner_block \<Rightarrow> u32 list set \<Rightarrow> u32 \<Rightarrow> u32 list \<Rightarrow> u32 list \<Rightarrow> u32 list \<Rightarrow> 'h \<Rightarrow> bool" where
  "authorised H page keys command nonce signature message h \<longleftrightarrow>
     (\<exists>ecdsa spx. signature_source H (ob_ownership_key_alg page) command nonce signature h = Some (Inr (ecdsa, spx)) \<and>
        (\<exists>k \<in> keys. \<exists>hk.
           key_accepts H (ob_ownership_key_alg page) k ecdsa spx [] [] (words_bytes message) (hmac_sha256 H message) hk))"

text \<open>Keys of the declared length.\<close>

definition keys_ok :: "('h, 'm) own_hw_scheme \<Rightarrow> owner_block \<Rightarrow> bool" where
  "keys_ok H page \<longleftrightarrow> length (ob_owner_key page) = 24 \<and> length (ob_activate_key page) = 24 \<and>
     length (ob_unlock_key page) = 24 \<and> (\<forall>k. no_owner_recovery_key H = Some k \<longrightarrow> length k = 24)"

lemma candidate_keys_length: "keys_ok H page \<Longrightarrow> k \<in> set (candidate_keys H page key) \<Longrightarrow> length k = 24"
  by (auto simp: candidate_keys_def keys_ok_def split: if_splits option.splits)

lemma validate_errors_not_ok [simp]:
  "kErrorOwnershipInvalidSignature \<noteq> kErrorOk_value" "kErrorOwnershipInvalidAlgorithm \<noteq> kErrorOk_value"
  "kErrorOwnershipSignatureNotFound \<noteq> kErrorOk_value"
  by (simp_all add: kErrorOwnershipInvalidSignature_def kErrorOwnershipInvalidAlgorithm_def
      kErrorOwnershipSignatureNotFound_def ownership_errors)

lemma try_keys_result:
  assumes "verify_lengths H" "\<forall>sig. ecdsa = Some sig \<longrightarrow> 8 \<le> length sig"
  shows "try_keys H alg ecdsa spx message digest keys h = Some (e, h') \<Longrightarrow> \<forall>k \<in> set keys. length k = 24 \<Longrightarrow>
     e = kErrorOwnershipInvalidSignature \<or>
     e = kErrorOk_value \<and> (\<exists>k \<in> set keys. \<exists>hk. key_accepts H alg k ecdsa spx [] [] (words_bytes message) digest hk)"
proof (induction keys arbitrary: h)
  case (Cons key keys)
  from Cons.prems(1) obtain e1 fe h1 where v: "owner_verify H alg key ecdsa spx [] [] (words_bytes message) digest h = Some (e1, fe, h1)"
    and r: "(if e1 = kErrorOk_value then Some (kErrorOk_value, h1) else try_keys H alg ecdsa spx message digest keys h1) = Some (e, h')"
    by (auto split: bind_splits)
  show ?case
  proof (cases "e1 = kErrorOk_value")
    case True
    with v owner_verify_accept [OF assms(1) _ assms(2), of key alg spx "[]" "[]" "words_bytes message" digest h] Cons.prems(2)
    have "key_accepts H alg key ecdsa spx [] [] (words_bytes message) digest h" by auto
    with True r show ?thesis by auto
  next
    case False
    with r Cons.IH [of h1] Cons.prems(2) show ?thesis by auto
  qed
qed simp

lemma signature_source_length:
  "signature_source H alg command nonce signature h = Some (Inr (ecdsa, spx)) \<Longrightarrow> length signature = 16 \<Longrightarrow>
     ecdsa = Some sig \<Longrightarrow> length sig = 16"
  by (auto simp: signature_source_def flash_words_def Let_def split: if_splits bind_splits option.splits)

lemma signature_source_errors:
  "signature_source H alg command nonce signature h = Some (Inl e) \<Longrightarrow>
     e = kErrorOwnershipInvalidAlgorithm \<or> e = kErrorOwnershipSignatureNotFound"
  by (auto simp: signature_source_def Let_def split: if_splits bind_splits option.splits)

lemma ownership_key_validate_result:
  assumes "verify_lengths H" "keys_ok H (pages page)" "length signature = 16"
    "ownership_key_validate H pages page key command nonce signature message h = Some (e, h')"
  shows "e \<in> {kErrorOwnershipInvalidAlgorithm, kErrorOwnershipSignatureNotFound, kErrorOwnershipInvalidSignature} \<or>
     e = kErrorOk_value \<and> authorised H (pages page) (set (candidate_keys H (pages page) key)) command nonce signature message h"
proof -
  let ?alg = "ob_ownership_key_alg (pages page)"
  from assms(4) obtain source where s: "signature_source H ?alg command nonce signature h = Some source"
    and r: "(case source of Inl e \<Rightarrow> Some (e, h)
       | Inr (ecdsa, spx) \<Rightarrow> try_keys H ?alg ecdsa spx message (hmac_sha256 H message)
           (candidate_keys H (pages page) key) h) = Some (e, h')"
    by (auto simp: ownership_key_validate_def split: bind_splits)
  show ?thesis
  proof (cases source)
    case (Inl e')
    with s r signature_source_errors [of H ?alg command nonce signature h e'] show ?thesis by auto
  next
    case (Inr p)
    obtain ecdsa spx where p: "p = (ecdsa, spx)" by (rule prod.exhaust)
    have "\<forall>sig. ecdsa = Some sig \<longrightarrow> 8 \<le> length sig"
      using signature_source_length [OF s [unfolded Inr p] assms(3)] by auto
    from try_keys_result [OF assms(1) this, of ?alg spx message "hmac_sha256 H message" "candidate_keys H (pages page) key" h e h']
      r Inr p candidate_keys_length [OF assms(2)] s
    show ?thesis by (auto simp: authorised_def)
  qed
qed

section \<open>The search for a detached signature\<close>

text \<open>The flash is \<open>m\<close> pages that do not reach the end of the address space; a signature takes \<open>d\<close> of them.\<close>

definition scan_geometry :: "chip \<Rightarrow> nat \<Rightarrow> nat \<Rightarrow> bool" where
  "scan_geometry C m d \<longleftrightarrow> 0 < unat (flash_bytes_per_page C) \<and> d \<le> m \<and>
     unat (flash_mem_size C) = m * unat (flash_bytes_per_page C) \<and> 8192 = d * unat (flash_bytes_per_page C) \<and>
     unat (flash_mem_base C) + unat (flash_mem_size C) + unat (flash_bytes_per_page C) < 2 ^ 32"

text \<open>
  C36: The search ends and finds the first page of the flash that holds a matching signature, among all pages
  but the last that would fit: on page \<open>m - d\<close> the signature ends with the flash, yet the loop stops
  before it.
\<close>

theorem signature_scan_pages:
  assumes "scan_geometry (chip H) m d"
  shows "ownership_signature_scan H h (flash_mem_base (chip H)) (flash_mem_size (chip H)) command nonce =
      Some (find (detached_matches H h command nonce)
        (map (\<lambda>i. flash_mem_base (chip H) + of_nat i * flash_bytes_per_page (chip H)) [0..<m - d])) \<and>
    unat (flash_mem_base (chip H) + of_nat (m - d) * flash_bytes_per_page (chip H)) + 8192 =
      unat (flash_mem_base (chip H)) + unat (flash_mem_size (chip H))"
proof -
  let ?C = "chip H" and ?step = "unat (flash_bytes_per_page (chip H))"
  from assms have g: "0 < ?step" "d \<le> m" "unat (flash_mem_size ?C) = m * ?step" "8192 = d * ?step"
    "unat (flash_mem_base ?C) + m * ?step + ?step < 2 ^ 32" by (simp_all add: scan_geometry_def)
  have k: "unat (kDetachedSignatureSize) = 8192" by (simp add: kDetachedSignatureSize_def)
  have sub: "m * ?step - d * ?step = (m - d) * ?step" by (simp add: diff_mult_distrib)
  have le: "kDetachedSignatureSize \<le> flash_mem_size ?C"
    unfolding word_le_nat_alt k g(3) using g(2,4) mult_le_mono1 [OF g(2), of ?step] by simp
  have len: "unat (flash_mem_size ?C - kDetachedSignatureSize) = (m - d) * ?step"
    using le k g(3,4) sub by (simp only: unat_sub_if_size word_le_nat_alt if_True)
  have md: "(m - d) * ?step \<le> m * ?step" by simp
  have small: "unat (flash_mem_base ?C) + (m - d) * ?step < 2 ^ 32" using g(5) md by linarith
  have few: "m - d \<le> (m - d) * ?step" using mult_le_mono2 [of 1 ?step "m - d"] g(1) by simp
  have e: "unat (flash_mem_base ?C + (flash_mem_size ?C - kDetachedSignatureSize)) =
      unat (flash_mem_base ?C) + (m - d) * ?step"
    using small by (simp add: unat_word_ariths len)
  have lt: "\<forall>i<m - d. unat (flash_mem_base ?C) + i * ?step < unat (flash_mem_base ?C) + (m - d) * ?step"
    using g(1) by simp
  have fin: "unat (flash_mem_base ?C) + (m - d) * ?step + ?step < 2 ^ 32" using g(5) md by linarith
  have scan: "ownership_signature_scan H h (flash_mem_base ?C) (flash_mem_size ?C) command nonce =
      Some (find (detached_matches H h command nonce)
        (map (\<lambda>i. flash_mem_base ?C + of_nat i * flash_bytes_per_page ?C) [0..<m - d]))"
    using le signature_scan_loop_find [of "flash_mem_base ?C + (flash_mem_size ?C - kDetachedSignatureSize)" H
        "m - d" "flash_mem_base ?C" h command nonce] lt g(5) md e fin
    by (simp add: ownership_signature_scan_def Let_def not_less)
  have "m - d < 2 ^ 32" "(m - d) * ?step < 2 ^ 32"
    using small few by linarith+
  then have "unat (of_nat (m - d) * flash_bytes_per_page ?C) = (m - d) * ?step"
    by (simp add: unat_word_ariths unat_of_nat)
  then have last: "unat (flash_mem_base ?C + of_nat (m - d) * flash_bytes_per_page ?C) =
      unat (flash_mem_base ?C) + (m - d) * ?step"
    using small by (simp add: unat_word_ariths)
  have "(m - d) * ?step + 8192 = m * ?step"
    using g(2,4) sub mult_le_mono1 [OF g(2), of ?step] by simp
  with scan last g(3) show ?thesis by simp
qed

text \<open>A flash with one detached signature, at the address \<open>a\<close>.\<close>

definition demo_signed_flash :: "u32 \<Rightarrow> unit own_hw \<Rightarrow> unit own_hw" where
  "demo_signed_flash a H = H\<lparr>chip := earlgrey,
     flash_mem_word := (\<lambda>h addr. if addr = a then kTlvTagDetachedSignature else if addr = a + 4 then 8192
       else if addr = a + 16 then 7 else 0)\<rparr>"

lemma demo_matches: "detached_matches (demo_signed_flash a H) h 7 [0, 0] addr \<longleftrightarrow> addr = a"
proof
  assume "detached_matches (demo_signed_flash a H) h 7 [0, 0] addr"
  then have "flash_mem_word (demo_signed_flash a H) h addr = kTlvTagDetachedSignature"
    by (simp add: detached_matches_def flash_words_def tlv_tag_def Let_def numeral_eq_Suc)
  then show "addr = a" by (simp add: demo_signed_flash_def kTlvTagDetachedSignature_def split: if_splits)
next
  assume [simp]: "addr = a"
  have ne: "a + 8 \<noteq> a" "a + 12 \<noteq> a" by simp_all
  show "detached_matches (demo_signed_flash a H) h 7 [0, 0] addr"
    by (simp add: detached_matches_def flash_words_def tlv_tag_def tlv_length_def tlv_major_def lo16_def byte_of_def
        Let_def demo_signed_flash_def kDetachedSignatureSize_def nonce_equal_def upt_conv_Cons)
qed

lemma demo_scan_address: "i < 512 \<Longrightarrow> unat (0x20000000 + of_nat i * 2048 :: u32) = 0x20000000 + i * 2048"
  by (simp add: unat_word_ariths unat_of_nat)

theorem signature_scan_pages_witness:
  "\<forall>H. ownership_signature_scan (demo_signed_flash 0x20000000 H) () 0x20000000 0x100000 7 [0, 0] = Some (Some 0x20000000) \<and>
       ownership_signature_scan (demo_signed_flash 0x200FE000 H) () 0x20000000 0x100000 7 [0, 0] = Some None"
proof
  fix H :: "unit own_hw"
  have chip: "chip (demo_signed_flash a H) = earlgrey" for a by (simp add: demo_signed_flash_def)
  have geo: "scan_geometry (chip (demo_signed_flash a H)) 512 4" for a
    by (simp add: chip scan_geometry_def earlgrey_def)
  have matches: "detached_matches (demo_signed_flash a H) h 7 [0, 0] = (\<lambda>addr. addr = a)" for a h
    by (simp add: fun_eq_iff demo_matches)
  have scan: "ownership_signature_scan (demo_signed_flash a H) () 0x20000000 0x100000 7 [0, 0] =
      Some (find (\<lambda>addr. addr = a) (map (\<lambda>i. 0x20000000 + of_nat i * 2048) [0..<508]))" for a
    using signature_scan_pages [OF geo, of a "()" 7 "[0, 0]"] unfolding matches by (simp add: chip earlgrey_def)
  have "(0x20000000 + of_nat i * 2048 :: u32) \<noteq> 0x200FE000" if "i < 508" for i
  proof
    assume "(0x20000000 + of_nat i * 2048 :: u32) = 0x200FE000"
    then have "0x20000000 + i * 2048 = (0x200FE000 :: nat)" using demo_scan_address [of i] that by simp
    with that show False by simp
  qed
  then have "find (\<lambda>addr. addr = 0x200FE000) (map (\<lambda>i. 0x20000000 + of_nat i * 2048 :: u32) [0..<508]) = None"
    by (auto simp: find_None_iff)
  moreover have "find (\<lambda>addr. addr = 0x20000000) (map (\<lambda>i. 0x20000000 + of_nat i * 2048 :: u32) [0..<508]) = Some 0x20000000"
    by (simp add: upt_conv_Cons [of 0 508] del: upt_Suc)
  ultimately show "ownership_signature_scan (demo_signed_flash 0x20000000 H) () 0x20000000 0x100000 7 [0, 0] = Some (Some 0x20000000) \<and>
       ownership_signature_scan (demo_signed_flash 0x200FE000 H) () 0x20000000 0x100000 7 [0, 0] = Some None"
    by (simp add: scan)
qed

end
