(* ===== verification/Owner_Config.thy ===== *)
theory Owner_Config
  imports Owner_Block
begin

unbundle bit_operations_syntax

text \<open>
  What the checks of \<open>owner_block.c\<close> promise to the code that applies a configuration: the items of
  a block as a list, the regions of an accepted flash configuration, and the two ways in which a
  block that passes the check cannot be applied at the next boot.
\<close>

section \<open>The items of a region\<close>

text \<open>
  The items up to the end of the region or the end tag; the flag tells whether the walk ended
  there and not at an item of a bad length.
\<close>

function tlv_walk :: "u32 list \<Rightarrow> nat \<Rightarrow> nat \<Rightarrow> u32 list list \<times> bool" where
  "tlv_walk data remain offset =
     (let item = drop (offset div 4) data; len = unat (tlv_length item)
      in if remain < 8 \<or> tlv_tag item = kTlvTagNotPresent then ([], True)
      else if len < 8 \<or> len > remain \<or> len mod 4 \<noteq> 0 then ([], False)
      else let (items, ok) = tlv_walk data (remain - len) (offset + len) in (item # items, ok))"
  by pat_completeness auto
termination by (relation "measure (\<lambda>(_, remain, _). remain)") auto

declare tlv_walk.simps [simp del]

fun parse_list ::
  "('h, 'm) own_hw_scheme \<Rightarrow> bool \<Rightarrow> u32 list list \<Rightarrow> bool \<Rightarrow> owner_config \<times> u32 list list \<times> 'h \<Rightarrow>
     u32 \<times> owner_config \<times> u32 list list \<times> 'h" where
  "parse_list H check_only [] ok s = (if ok then kErrorOk_value else kErrorOwnershipInvalidTagLength, s)"
| "parse_list H check_only (item # items) ok s =
     (case parse_item H check_only item s of (e, s) \<Rightarrow>
        if e \<noteq> kErrorOk_value then (e, s) else parse_list H check_only items ok s)"

lemma parse_items_list:
  "parse_items H check_only data remain offset s =
     (case tlv_walk data remain offset of (items, ok) \<Rightarrow> parse_list H check_only items ok s)"
proof (induction data remain offset arbitrary: s rule: tlv_walk.induct)
  case (1 data remain offset)
  let ?item = "drop (offset div 4) data"
  let ?len = "unat (tlv_length ?item)"
  consider "remain < 8 \<or> tlv_tag ?item = kTlvTagNotPresent"
    | "\<not> (remain < 8 \<or> tlv_tag ?item = kTlvTagNotPresent)" "?len < 8 \<or> ?len > remain \<or> ?len mod 4 \<noteq> 0"
    | "\<not> (remain < 8 \<or> tlv_tag ?item = kTlvTagNotPresent)" "\<not> (?len < 8 \<or> ?len > remain \<or> ?len mod 4 \<noteq> 0)"
    by blast
  then show ?case
  proof cases
    case 3
    obtain e s' where s': "parse_item H check_only ?item s = (e, s')" by (rule prod.exhaust)
    obtain items ok where w: "tlv_walk data (remain - ?len) (offset + ?len) = (items, ok)" by (rule prod.exhaust)
    note IH = "1" [OF refl refl 3, of s']
    show ?thesis
      using 3 s' w IH
      by (subst parse_items.simps, subst tlv_walk.simps) (simp add: Let_def)
  qed (subst parse_items.simps, subst tlv_walk.simps, auto simp: Let_def)+
qed

definition item_check :: "chip \<Rightarrow> u32 list \<Rightarrow> u32" where
  "item_check C item =
     (if tlv_tag item = kTlvTagApplicationKey then
        if tlv_major item \<noteq> 0 then kErrorOwnershipAPPKVersion else owner_block_application_key_check item
      else if tlv_tag item = kTlvTagFlashConfig then
        if tlv_major item \<noteq> 0 then kErrorOwnershipFLSHVersion else owner_block_flash_check C item
      else if tlv_tag item = kTlvTagInfoConfig then
        if tlv_major item \<noteq> 0 then kErrorOwnershipINFOVersion else owner_block_flash_info_check item
      else if tlv_tag item = kTlvTagRescueConfig then
        if tlv_major item \<noteq> 0 then kErrorOwnershipRESQVersion else owner_block_rescue_check C item
      else if tlv_tag item = kTlvTagIntegrationSpecificFirmwareBinding then
        if tlv_major item \<noteq> 0 then kErrorOwnershipISFBVersion else owner_isfb_config_check item
      else kErrorOwnershipInvalidTag)"

lemma parse_item_check: "parse_item H True item s = (item_check (chip H) item, s)"
  by (cases s) (simp add: parse_item_def item_check_def)

lemma tag_length_not_ok [simp]: "kErrorOwnershipInvalidTagLength \<noteq> kErrorOk_value"
  by (simp add: kErrorOwnershipInvalidTagLength_def ownership_errors)

lemma parse_list_check:
  "snd (parse_list H True items ok s) = s \<and>
   (fst (parse_list H True items ok s) = kErrorOk_value \<longleftrightarrow>
     ok \<and> (\<forall>item \<in> set items. item_check (chip H) item = kErrorOk_value))"
  by (induction items) (auto simp: parse_item_check)

definition block_items :: "owner_block \<Rightarrow> u32 list list" where
  "block_items b = fst (tlv_walk (ob_data b) 1536 0)"

definition block_walk_ok :: "owner_block \<Rightarrow> bool" where
  "block_walk_ok b \<longleftrightarrow> ob_tag b = kTlvTagOwner \<and> ob_length b = 2048 \<and> ob_major b = 0 \<and>
     snd (tlv_walk (ob_data b) 1536 0)"

lemma header_errors_not_ok [simp]:
  "kErrorOwnershipInvalidTag \<noteq> kErrorOk_value" "kErrorOwnershipOWNRVersion \<noteq> kErrorOk_value"
  by (simp_all add: kErrorOwnershipInvalidTag_def kErrorOwnershipOWNRVersion_def ownership_errors)

lemma owner_block_check_iff:
  "owner_block_check H b h = kErrorOk_value \<longleftrightarrow>
     block_walk_ok b \<and> (\<forall>item \<in> set (block_items b). item_check (chip H) item = kErrorOk_value)"
  using parse_list_check [of H "block_items b" "snd (tlv_walk (ob_data b) 1536 0)" "(owner_config_default, [], h)"]
  by (auto simp: owner_block_check_def owner_block_parse_def parse_items_list block_walk_ok_def block_items_def
      case_prod_unfold)

section \<open>Flash regions\<close>

text \<open>
  The geometry of the flash: a bank has at most \<open>2 ^ 16\<close> pages, the ROM extension lies within one, and
  there are two banks with info pages beyond page 8.
\<close>

definition chip_ok :: "chip \<Rightarrow> bool" where
  "chip_ok C \<longleftrightarrow> unat (flash_pages_per_bank C) \<le> 65536 \<and> 0 < unat (kRomExtSizeInPages C) \<and>
     unat (kRomExtSizeInPages C) \<le> unat (flash_pages_per_bank C) \<and>
     flash_num_banks C = 2 \<and> 8 < flash_num_infos0 C"

definition first_page :: "owner_flash_region \<Rightarrow> nat" where "first_page r = unat (fr_start r)"
definition end_page :: "owner_flash_region \<Rightarrow> nat" where "end_page r = unat (fr_start r) + unat (fr_size r)"

text \<open>The pages a region may have in a slot: those of the slot behind the ROM extension.\<close>

definition in_slot_a :: "chip \<Rightarrow> owner_flash_region \<Rightarrow> bool" where
  "in_slot_a C r \<longleftrightarrow> unat (kRomExtSizeInPages C) \<le> first_page r \<and> end_page r \<le> unat (flash_pages_per_bank C) \<and>
     first_page r < unat (flash_pages_per_bank C)"

definition in_slot_b :: "chip \<Rightarrow> owner_flash_region \<Rightarrow> bool" where
  "in_slot_b C r \<longleftrightarrow> unat (flash_pages_per_bank C) + unat (kRomExtSizeInPages C) \<le> first_page r \<and>
     end_page r \<le> 2 * unat (flash_pages_per_bank C) \<and> first_page r < 2 * unat (flash_pages_per_bank C)"

lemma lo16_less: "unat (lo16 w) < 65536"
proof -
  have "(0xFFFF :: u32) = mask 16" by (simp add: mask_eq_exp_minus_1)
  then have "lo16 w = take_bit 16 w" by (simp only: lo16_def take_bit_eq_mask)
  then have "unat (lo16 w) = take_bit 16 (unat w)" by (simp only: unsigned_take_bit_eq)
  then have "unat (lo16 w) = unat w mod 2 ^ 16" by (simp only: take_bit_eq_mod)
  then show ?thesis by simp
qed

lemma hi16_less: "unat (hi16 w) < 65536"
proof -
  have "unat (hi16 w) = drop_bit 16 (unat w)" unfolding hi16_def by (rule unat_drop_bit_eq)
  then have "unat (hi16 w) = unat w div 2 ^ 16" by (simp only: drop_bit_eq_div)
  then show ?thesis using unat_u32_less [of w] by (simp add: less_mult_imp_div_less)
qed

lemma region_bounds:
  "unat (fr_start (flash_region f i)) < 65536" "unat (fr_size (flash_region f i)) < 65536"
  by (simp_all add: flash_region_def lo16_less hi16_less)

lemma region_end:
  "unat (fr_start (flash_region f i) + fr_size (flash_region f i)) = end_page (flash_region f i)"
  using region_bounds [of f i] by (simp add: end_page_def unat_word_ariths)

lemma geometry_sums:
  assumes "chip_ok C"
  shows "unat (flash_pages_per_bank C + flash_pages_per_bank C) = 2 * unat (flash_pages_per_bank C)"
    "unat (2 * flash_pages_per_bank C) = 2 * unat (flash_pages_per_bank C)"
    "unat (flash_pages_per_bank C + kRomExtSizeInPages C) =
       unat (flash_pages_per_bank C) + unat (kRomExtSizeInPages C)"
  using assms by (simp_all add: chip_ok_def unat_word_ariths)

lemma hardened_bools [simp]: "kHardenedBoolFalse \<noteq> kHardenedBoolTrue" "kHardenedBoolTrue \<noteq> kHardenedBoolFalse"
  by (simp_all add: kHardenedBoolTrue_def kHardenedBoolFalse_def)

text \<open>The three conditions of the loop over an accepted region, in pages.\<close>

lemma region_conditions:
  fixes f :: "u32 list" and i :: nat
  assumes "chip_ok C"
  defines "r \<equiv> flash_region f i"
  shows "(rom_ext_flash_overlap C (fr_start r) (fr_start r + fr_size r) \<noteq> kHardenedBoolTrue \<and>
       in_flash_slot C kFlashSlotAStart (fr_start r) (fr_start r + fr_size r) = kHardenedBoolTrue) = in_slot_a C r"
    "(rom_ext_flash_overlap C (fr_start r) (fr_start r + fr_size r) \<noteq> kHardenedBoolTrue \<and>
       in_flash_slot C (kFlashSlotBStart C) (fr_start r) (fr_start r + fr_size r) = kHardenedBoolTrue) = in_slot_b C r"
proof -
  note g = geometry_sums [OF assms(1)]
  have e: "unat (fr_start r + fr_size r) = end_page r" by (simp add: r_def region_end)
  have le: "first_page r \<le> end_page r" by (simp add: first_page_def end_page_def)
  have P: "0 < unat (kRomExtSizeInPages C)" "unat (kRomExtSizeInPages C) \<le> unat (flash_pages_per_bank C)"
    using assms(1) by (simp_all add: chip_ok_def)
  show "(rom_ext_flash_overlap C (fr_start r) (fr_start r + fr_size r) \<noteq> kHardenedBoolTrue \<and>
       in_flash_slot C kFlashSlotAStart (fr_start r) (fr_start r + fr_size r) = kHardenedBoolTrue) = in_slot_a C r"
    using P le by (auto simp: rom_ext_flash_overlap_def in_flash_slot_def kRomExtAEnd_def kRomExtAStart_def
        kRomExtBEnd_def kRomExtBStart_def kFlashSlotAStart_def Let_def word_less_nat_alt word_le_nat_alt e g
        in_slot_a_def first_page_def [symmetric])
  show "(rom_ext_flash_overlap C (fr_start r) (fr_start r + fr_size r) \<noteq> kHardenedBoolTrue \<and>
       in_flash_slot C (kFlashSlotBStart C) (fr_start r) (fr_start r + fr_size r) = kHardenedBoolTrue) = in_slot_b C r"
    using P le by (auto simp: rom_ext_flash_overlap_def in_flash_slot_def kRomExtAEnd_def kRomExtAStart_def
        kRomExtBEnd_def kRomExtBStart_def kFlashSlotBStart_def Let_def word_less_nat_alt word_le_nat_alt e g
        in_slot_b_def first_page_def [symmetric])
qed

lemma slots_disjoint: "chip_ok C \<Longrightarrow> in_slot_a C r \<Longrightarrow> \<not> in_slot_b C r"
  by (auto simp: chip_ok_def in_slot_a_def in_slot_b_def)

lemma flash_errors_not_ok [simp]:
  "kErrorOwnershipFlashConfigRomExt \<noteq> kErrorOk_value" "kErrorOwnershipFlashConfigSlots \<noteq> kErrorOk_value"
  "kErrorOwnershipFlashConfigBounds \<noteq> kErrorOk_value" "kErrorOwnershipFlashConfigLength \<noteq> kErrorOk_value"
  by (simp_all add: kErrorOwnershipFlashConfigRomExt_def kErrorOwnershipFlashConfigSlots_def
      kErrorOwnershipFlashConfigBounds_def kErrorOwnershipFlashConfigLength_def ownership_errors)

text \<open>
  The loop accepts exactly the lists of regions that lie in a slot behind the ROM extension, with at
  most three in each slot.
\<close>

lemma flash_regions_check_ok:
  assumes "chip_ok C" "na \<le> 3" "nb \<le> 3"
  shows "flash_regions_check C f i n (of_nat na) (of_nat nb) = kErrorOk_value \<longleftrightarrow>
     (\<forall>k \<in> {i..<i + n}. in_slot_a C (flash_region f k) \<or> in_slot_b C (flash_region f k)) \<and>
     na + length (filter (\<lambda>k. in_slot_a C (flash_region f k)) [i..<i + n]) \<le> 3 \<and>
     nb + length (filter (\<lambda>k. in_slot_b C (flash_region f k)) [i..<i + n]) \<le> 3"
  using assms(2,3)
proof (induction n arbitrary: i na nb)
  case 0
  then show ?case by simp
next
  case (Suc n)
  let ?r = "flash_region f i"
  have upt: "[i..<i + Suc n] = i # [Suc i..<Suc i + n]" "{i..<i + Suc n} = insert i {Suc i..<Suc i + n}"
    by (auto simp: upt_conv_Cons simp del: upt_Suc)
  have small: "of_nat k + 1 > FLASH_CONFIG_REGIONS_PER_SLOT \<longleftrightarrow> k = 3" if "k \<le> 3" for k
  proof -
    have "k \<in> {0, 1, 2, 3}" using that by auto
    then show ?thesis by (auto simp: FLASH_CONFIG_REGIONS_PER_SLOT_def)
  qed
  note rc = region_conditions [OF assms(1), of f i]
  consider "in_slot_a C ?r" "\<not> in_slot_b C ?r" | "in_slot_b C ?r" "\<not> in_slot_a C ?r"
    | "\<not> in_slot_a C ?r" "\<not> in_slot_b C ?r"
    using slots_disjoint [OF assms(1)] by blast
  then show ?case
  proof cases
    case 1
    have step: "flash_regions_check C f i (Suc n) (of_nat na) (of_nat nb) =
        (if na = 3 then kErrorOwnershipFlashConfigSlots
         else flash_regions_check C f (Suc i) n (of_nat (Suc na)) (of_nat nb))"
      using rc 1 small [OF Suc.prems(1)] by (simp add: Let_def add.commute)
    show ?thesis
    proof (cases "na = 3")
      case False
      then have IH: "flash_regions_check C f (Suc i) n (of_nat (Suc na)) (of_nat nb) = kErrorOk_value \<longleftrightarrow>
          (\<forall>k \<in> {Suc i..<Suc i + n}. in_slot_a C (flash_region f k) \<or> in_slot_b C (flash_region f k)) \<and>
          Suc na + length (filter (\<lambda>k. in_slot_a C (flash_region f k)) [Suc i..<Suc i + n]) \<le> 3 \<and>
          nb + length (filter (\<lambda>k. in_slot_b C (flash_region f k)) [Suc i..<Suc i + n]) \<le> 3"
        using Suc.prems by (intro Suc.IH) auto
      show ?thesis unfolding step upt using False 1 IH by simp
    qed (unfold step upt, use 1 in simp)
  next
    case 2
    have step: "flash_regions_check C f i (Suc n) (of_nat na) (of_nat nb) =
        (if nb = 3 then kErrorOwnershipFlashConfigSlots
         else flash_regions_check C f (Suc i) n (of_nat na) (of_nat (Suc nb)))"
      using rc 2 small [OF Suc.prems(2)] by (simp add: Let_def add.commute)
    show ?thesis
    proof (cases "nb = 3")
      case False
      then have IH: "flash_regions_check C f (Suc i) n (of_nat na) (of_nat (Suc nb)) = kErrorOk_value \<longleftrightarrow>
          (\<forall>k \<in> {Suc i..<Suc i + n}. in_slot_a C (flash_region f k) \<or> in_slot_b C (flash_region f k)) \<and>
          na + length (filter (\<lambda>k. in_slot_a C (flash_region f k)) [Suc i..<Suc i + n]) \<le> 3 \<and>
          Suc nb + length (filter (\<lambda>k. in_slot_b C (flash_region f k)) [Suc i..<Suc i + n]) \<le> 3"
        using Suc.prems by (intro Suc.IH) auto
      show ?thesis unfolding step upt using False 2 IH by simp
    qed (unfold step upt, use 2 in simp)
  next
    case 3
    then have "rom_ext_flash_overlap C (fr_start ?r) (fr_start ?r + fr_size ?r) = kHardenedBoolTrue \<or>
        in_flash_slot C kFlashSlotAStart (fr_start ?r) (fr_start ?r + fr_size ?r) \<noteq> kHardenedBoolTrue \<and>
        in_flash_slot C (kFlashSlotBStart C) (fr_start ?r) (fr_start ?r + fr_size ?r) \<noteq> kHardenedBoolTrue"
      using rc by blast
    then have "flash_regions_check C f i (Suc n) (of_nat na) (of_nat nb) \<noteq> kErrorOk_value"
      by (elim disjE) (simp_all add: Let_def)
    with 3 show ?thesis unfolding upt by simp
  qed
qed

definition region_count :: "u32 list \<Rightarrow> nat" where
  "region_count f = unat ((tlv_length f - 8) div 12)"

definition regions_a :: "chip \<Rightarrow> u32 list \<Rightarrow> nat list" where
  "regions_a C f = filter (\<lambda>k. in_slot_a C (flash_region f k)) [0..<region_count f]"

definition regions_b :: "chip \<Rightarrow> u32 list \<Rightarrow> nat list" where
  "regions_b C f = filter (\<lambda>k. in_slot_b C (flash_region f k)) [0..<region_count f]"

lemma tag_length_less: "unat (tlv_length item) < 65536"
  by (simp add: tlv_length_def lo16_less)

lemma flash_check_regions:
  assumes "chip_ok C" "owner_block_flash_check C f = kErrorOk_value"
  shows "region_count f \<le> 6"
    "\<forall>k<region_count f. in_slot_a C (flash_region f k) \<or> in_slot_b C (flash_region f k)"
    "length (regions_a C f) \<le> 3" "length (regions_b C f) \<le> 3"
proof -
  have six: "kProtectSlots - kRomExtRegions = 6" by (simp add: kProtectSlots_def kRomExtRegions_def)
  from assms(2) have d: "(tlv_length f - 8) div 12 \<le> 6"
    "flash_regions_check C f 0 (region_count f) 0 0 = kErrorOk_value"
    by (auto simp: owner_block_flash_check_def Let_def six region_count_def not_less split: if_splits)
  from d(1) show "region_count f \<le> 6" by (simp add: region_count_def word_le_nat_alt)
  from d(2) flash_regions_check_ok [OF assms(1), of 0 0 f 0 "region_count f"]
  show "\<forall>k<region_count f. in_slot_a C (flash_region f k) \<or> in_slot_b C (flash_region f k)"
    "length (regions_a C f) \<le> 3" "length (regions_b C f) \<le> 3"
    by (auto simp: regions_a_def regions_b_def)
qed

text \<open>Applying the regions of one slot is a fold over those regions.\<close>

definition region_mask :: "nat \<Rightarrow> u32" where
  "region_mask k = of_nat k * 0x11111111"

lemma flash_regions_apply_fold:
  "flash_regions_apply H f side lockdown start end' i n (region_mask i) mp h =
     fold (\<lambda>k (mp, h). apply_region H (flash_region f k) (region_mask k) side lockdown mp h)
       (filter (\<lambda>k. fr_start (flash_region f k) \<ge> start \<and>
            fr_start (flash_region f k) + fr_size (flash_region f k) \<le> end') [i..<i + n]) (mp, h)"
proof (induction n arbitrary: i mp h)
  case (Suc n)
  have "region_mask i + 0x11111111 = region_mask (Suc i)" by (simp add: region_mask_def algebra_simps)
  with Suc [of "Suc i"] show ?case by (simp add: upt_conv_Cons case_prod_unfold Let_def del: upt_Suc)
qed simp

definition protect_region ::
  "('h, 'm) own_hw_scheme \<Rightarrow> u32 list \<Rightarrow> u32 \<Rightarrow> u32 \<Rightarrow> nat \<times> nat \<Rightarrow> 'h \<Rightarrow> 'h" where
  "protect_region H f side lockdown = (\<lambda>(j, k) h.
     snd (apply_region H (flash_region f k) (region_mask k) side lockdown (of_nat j) h))"

lemma apply_regions_enumerate:
  "j + length ks \<le> 6 \<Longrightarrow>
     fold (\<lambda>k (mp, h). apply_region H (flash_region f k) (region_mask k) side lockdown mp h) ks (of_nat j, h) =
       (of_nat (j + length ks), fold (protect_region H f side lockdown) (enumerate j ks) h)"
proof (induction ks arbitrary: j h)
  case (Cons k ks)
  have "fst (apply_region H (flash_region f k) (region_mask k) side lockdown (of_nat j) h) = of_nat (Suc j)"
    by (simp add: apply_region_def Let_def add.commute)
  then have "apply_region H (flash_region f k) (region_mask k) side lockdown (of_nat j) h =
      (of_nat (Suc j), protect_region H f side lockdown (j, k) h)"
    by (simp add: protect_region_def prod_eq_iff)
  with Cons.IH [of "Suc j" "protect_region H f side lockdown (j, k) h"] Cons.prems show ?case
    by (simp add: enumerate_simps algebra_simps)
qed simp

text \<open>What is written for a region: the protection register behind those of the ROM extension.\<close>

lemma protect_region_write:
  "j < 6 \<Longrightarrow> \<exists>perm cfg lock inc. protect_region H f side lockdown (j, k) h =
     sec_mmio_write_increment H inc
       (data_region_protect H (of_nat (2 + j)) (fr_start (flash_region f k)) (fr_size (flash_region f k)) perm cfg lock h)"
proof -
  assume j: "j < 6"
  then have "j \<in> {0, 1, 2, 3, 4, 5}" by auto
  then have "of_nat j < 2 * FLASH_CONFIG_REGIONS_PER_SLOT" by (auto simp: FLASH_CONFIG_REGIONS_PER_SLOT_def)
  then show ?thesis
    by (simp add: protect_region_def apply_region_def Let_def kRomExtRegions_def) blast
qed

lemma slot_filters:
  assumes "chip_ok C" "in_slot_a C (flash_region f k) \<or> in_slot_b C (flash_region f k)"
  shows "fr_start (flash_region f k) + fr_size (flash_region f k) \<le> flash_pages_per_bank C \<longleftrightarrow>
      in_slot_a C (flash_region f k)"
    "fr_start (flash_region f k) \<ge> flash_pages_per_bank C \<and>
      fr_start (flash_region f k) + fr_size (flash_region f k) \<le> 2 * flash_pages_per_bank C \<longleftrightarrow>
      in_slot_b C (flash_region f k)"
proof -
  note g = geometry_sums [OF assms(1)]
  have P: "0 < unat (kRomExtSizeInPages C)" using assms(1) by (simp add: chip_ok_def)
  have le: "first_page (flash_region f k) \<le> end_page (flash_region f k)" by (simp add: first_page_def end_page_def)
  show "fr_start (flash_region f k) + fr_size (flash_region f k) \<le> flash_pages_per_bank C \<longleftrightarrow>
      in_slot_a C (flash_region f k)"
    using assms(2) P le by (auto simp: word_le_nat_alt region_end in_slot_a_def in_slot_b_def)
  show "fr_start (flash_region f k) \<ge> flash_pages_per_bank C \<and>
      fr_start (flash_region f k) + fr_size (flash_region f k) \<le> 2 * flash_pages_per_bank C \<longleftrightarrow>
      in_slot_b C (flash_region f k)"
    using assms(2) P le
    by (auto simp: word_le_nat_alt region_end g in_slot_a_def in_slot_b_def first_page_def [symmetric])
qed

lemma slots_are_different: "kBootSlotA \<noteq> kBootSlotB"
  by (simp add: kBootSlotA_def kBootSlotB_def)

lemma flash_apply_slots:
  assumes "chip_ok (chip H)" "owner_block_flash_check (chip H) f = kErrorOk_value"
  shows "j + length (regions_a (chip H) f) \<le> 6 \<Longrightarrow>
      owner_block_flash_apply H (Some f) kBootSlotA lockdown (of_nat j) h =
        (kErrorOk_value, of_nat (j + length (regions_a (chip H) f)),
         fold (protect_region H f kBootSlotA lockdown) (enumerate j (regions_a (chip H) f)) h)"
    "j + length (regions_b (chip H) f) \<le> 6 \<Longrightarrow>
      owner_block_flash_apply H (Some f) kBootSlotB lockdown (of_nat j) h =
        (kErrorOk_value, of_nat (j + length (regions_b (chip H) f)),
         fold (protect_region H f kBootSlotB lockdown) (enumerate j (regions_b (chip H) f)) h)"
proof -
  let ?C = "chip H"
  note c = flash_check_regions [OF assms]
  have six: "kProtectSlots - kRomExtRegions = 6" by (simp add: kProtectSlots_def kRomExtRegions_def)
  have cnt: "\<not> (tlv_length f - 8) div 12 > kProtectSlots - kRomExtRegions"
    using c(1) unfolding six by (simp add: region_count_def not_less word_le_nat_alt)
  have m0: "region_mask 0 = 0" by (simp add: region_mask_def)
  have fa: "filter (\<lambda>k. fr_start (flash_region f k) \<ge> 0 \<and>
      fr_start (flash_region f k) + fr_size (flash_region f k) \<le> flash_pages_per_bank ?C) [0..<region_count f] = regions_a ?C f"
    unfolding regions_a_def using c(2) slot_filters(1) [OF assms(1)] by (intro filter_cong) auto
  have fb: "filter (\<lambda>k. fr_start (flash_region f k) \<ge> flash_pages_per_bank ?C \<and>
      fr_start (flash_region f k) + fr_size (flash_region f k) \<le> 2 * flash_pages_per_bank ?C) [0..<region_count f] = regions_b ?C f"
    unfolding regions_b_def using c(2) slot_filters(2) [OF assms(1)] by (intro filter_cong) auto
  show "owner_block_flash_apply H (Some f) kBootSlotA lockdown (of_nat j) h =
        (kErrorOk_value, of_nat (j + length (regions_a (chip H) f)),
         fold (protect_region H f kBootSlotA lockdown) (enumerate j (regions_a (chip H) f)) h)"
    if "j + length (regions_a (chip H) f) \<le> 6"
    using cnt flash_regions_apply_fold [of H f kBootSlotA lockdown 0 "flash_pages_per_bank ?C" 0 "region_count f" "of_nat j" h]
      apply_regions_enumerate [OF that, of H f kBootSlotA lockdown h] fa
    by (simp add: owner_block_flash_apply_def Let_def m0 region_count_def [symmetric])
  show "owner_block_flash_apply H (Some f) kBootSlotB lockdown (of_nat j) h =
        (kErrorOk_value, of_nat (j + length (regions_b (chip H) f)),
         fold (protect_region H f kBootSlotB lockdown) (enumerate j (regions_b (chip H) f)) h)"
    if "j + length (regions_b (chip H) f) \<le> 6"
    using cnt flash_regions_apply_fold [of H f kBootSlotB lockdown "flash_pages_per_bank ?C" "2 * flash_pages_per_bank ?C" 0
        "region_count f" "of_nat j" h]
      apply_regions_enumerate [OF that, of H f kBootSlotB lockdown h] fb
      slots_are_different [symmetric]
    by (simp add: owner_block_flash_apply_def Let_def m0 region_count_def [symmetric])
qed

section \<open>From the check to the full parse\<close>

lemma version_errors_not_ok [simp]:
  "kErrorOwnershipAPPKVersion \<noteq> kErrorOk_value" "kErrorOwnershipFLSHVersion \<noteq> kErrorOk_value"
  "kErrorOwnershipINFOVersion \<noteq> kErrorOk_value" "kErrorOwnershipRESQVersion \<noteq> kErrorOk_value"
  "kErrorOwnershipISFBVersion \<noteq> kErrorOk_value" "kErrorOwnershipDuplicateItem \<noteq> kErrorOk_value"
  "kErrorOwnershipBadInfoPage \<noteq> kErrorOk_value"
  by (simp_all add: kErrorOwnershipAPPKVersion_def kErrorOwnershipFLSHVersion_def kErrorOwnershipINFOVersion_def
      kErrorOwnershipRESQVersion_def kErrorOwnershipISFBVersion_def kErrorOwnershipDuplicateItem_def
      kErrorOwnershipBadInfoPage_def ownership_errors)

lemma tlv_tags_distinct:
  "distinct [kTlvTagApplicationKey, kTlvTagFlashConfig, kTlvTagInfoConfig, kTlvTagRescueConfig,
     kTlvTagIntegrationSpecificFirmwareBinding, kTlvTagNotPresent]"
  "distinct (rev [kTlvTagApplicationKey, kTlvTagFlashConfig, kTlvTagInfoConfig, kTlvTagRescueConfig,
     kTlvTagIntegrationSpecificFirmwareBinding, kTlvTagNotPresent])"
  by (simp_all add: tlv_tags)

lemmas tlv_tags_neq = tlv_tags_distinct [simplified]

lemma item_check_ok:
  "item_check C item = kErrorOk_value \<Longrightarrow> tlv_major item = 0 \<and>
     tlv_tag item \<in> {kTlvTagApplicationKey, kTlvTagFlashConfig, kTlvTagInfoConfig, kTlvTagRescueConfig,
       kTlvTagIntegrationSpecificFirmwareBinding}"
  by (auto simp: item_check_def split: if_splits)

lemma item_check_tag:
  assumes "item_check C item = kErrorOk_value"
  shows "tlv_tag item = kTlvTagFlashConfig \<Longrightarrow> owner_block_flash_check C item = kErrorOk_value"
    "tlv_tag item = kTlvTagInfoConfig \<Longrightarrow> owner_block_flash_info_check item = kErrorOk_value"
  using assms by (simp_all add: item_check_def tlv_tags_neq split: if_splits)

text \<open>The first item of a tag, and a field that at most one item still fills.\<close>

definition items_of :: "u32 \<Rightarrow> u32 list list \<Rightarrow> u32 list list" where
  "items_of t items = filter (\<lambda>item. tlv_tag item = t) items"

definition first_item :: "u32 \<Rightarrow> u32 list list \<Rightarrow> u32 list option" where
  "first_item t items = (case items_of t items of [] \<Rightarrow> None | item # _ \<Rightarrow> Some item)"

definition fills_once :: "u32 list option \<Rightarrow> u32 \<Rightarrow> u32 list list \<Rightarrow> bool" where
  "fills_once field t items \<longleftrightarrow> length (items_of t items) + (case field of None \<Rightarrow> 0 | Some _ \<Rightarrow> 1) \<le> 1"

definition filled :: "u32 list option \<Rightarrow> u32 \<Rightarrow> u32 list list \<Rightarrow> u32 list option" where
  "filled field t items = (case field of None \<Rightarrow> first_item t items | Some item \<Rightarrow> Some item)"

lemma items_of_Cons [simp]:
  "items_of t [] = []"
  "items_of t (item # items) = (if tlv_tag item = t then item # items_of t items else items_of t items)"
  by (simp_all add: items_of_def)

lemma fills_once_other [simp]: "tlv_tag item \<noteq> t \<Longrightarrow> fills_once field t (item # items) = fills_once field t items"
  by (simp add: fills_once_def)

lemma filled_other [simp]: "tlv_tag item \<noteq> t \<Longrightarrow> filled field t (item # items) = filled field t items"
  by (simp add: filled_def first_item_def split: option.split)

lemma filled_None [simp]: "tlv_tag item = t \<Longrightarrow> filled None t (item # items) = filled (Some item) t items"
  by (simp add: filled_def first_item_def)

lemma fills_once_same:
  "tlv_tag item = t \<Longrightarrow> fills_once field t (item # items) \<Longrightarrow>
     field = None \<and> fills_once (Some item) t items"
  by (auto simp: fills_once_def split: option.splits)

lemma parse_list_full:
  assumes "\<forall>item \<in> set items. item_check C item = kErrorOk_value"
    "fills_once (oc_flash config) kTlvTagFlashConfig items"
    "fills_once (oc_info config) kTlvTagInfoConfig items"
    "fills_once (oc_rescue config) kTlvTagRescueConfig items"
    "fills_once (oc_isfb config) kTlvTagIntegrationSpecificFirmwareBinding items"
    "length keyring \<le> 16"
  shows "\<exists>config' h'. parse_list H False items True (config, keyring, h) =
      (kErrorOk_value, config', take 16 (keyring @ items_of kTlvTagApplicationKey items), h') \<and>
    oc_sram_exec config' = oc_sram_exec config \<and>
    oc_flash config' = filled (oc_flash config) kTlvTagFlashConfig items \<and>
    oc_info config' = filled (oc_info config) kTlvTagInfoConfig items \<and>
    oc_rescue config' = filled (oc_rescue config) kTlvTagRescueConfig items \<and>
    oc_isfb config' = filled (oc_isfb config) kTlvTagIntegrationSpecificFirmwareBinding items"
  using assms
proof (induction items arbitrary: config keyring h)
  case Nil
  then show ?case by (auto simp: filled_def first_item_def split: option.split)
next
  case (Cons item items)
  from Cons.prems(1) item_check_ok [of C item] have ok: "tlv_major item = 0"
    "tlv_tag item \<in> {kTlvTagApplicationKey, kTlvTagFlashConfig, kTlvTagInfoConfig, kTlvTagRescueConfig,
       kTlvTagIntegrationSpecificFirmwareBinding}" by auto
  have rest: "\<forall>item \<in> set items. item_check C item = kErrorOk_value" using Cons.prems(1) by simp
  from ok(2) consider "tlv_tag item = kTlvTagApplicationKey" | "tlv_tag item = kTlvTagFlashConfig"
    | "tlv_tag item = kTlvTagInfoConfig" | "tlv_tag item = kTlvTagRescueConfig"
    | "tlv_tag item = kTlvTagIntegrationSpecificFirmwareBinding" by auto
  then show ?case
  proof cases
    case 1
    let ?k = "if length keyring < 16 then keyring @ [item] else keyring"
    have "take 16 (keyring @ item # items_of kTlvTagApplicationKey items) =
        take 16 (?k @ items_of kTlvTagApplicationKey items)"
      using Cons.prems(6) by (auto simp: take_Cons')
    then show ?thesis
      using Cons.IH [OF rest, of config ?k h] Cons.prems(2-6) 1 ok(1) tlv_tags_neq
      by (simp add: parse_item_def)
  next
    case 2
    note once = fills_once_same [OF 2 Cons.prems(2)]
    show ?thesis
      using Cons.IH [OF rest, of "config\<lparr>oc_flash := Some item\<rparr>" keyring h] Cons.prems(3-6) 2 ok(1) tlv_tags_neq once
      by (simp add: parse_item_def)
  next
    case 3
    note once = fills_once_same [OF 3 Cons.prems(3)]
    show ?thesis
      using Cons.IH [OF rest, of "config\<lparr>oc_info := Some item\<rparr>" keyring h] Cons.prems(2,4-6) 3 ok(1) tlv_tags_neq once
      by (simp add: parse_item_def)
  next
    case 4
    note once = fills_once_same [OF 4 Cons.prems(4)]
    show ?thesis
      using Cons.IH [OF rest, of "config\<lparr>oc_rescue := Some item\<rparr>" keyring "owner_block_rescue_apply H item h"]
        Cons.prems(2,3,5,6) 4 ok(1) tlv_tags_neq once
      by (simp add: parse_item_def)
  next
    case 5
    note once = fills_once_same [OF 5 Cons.prems(5)]
    show ?thesis
      using Cons.IH [OF rest, of "config\<lparr>oc_isfb := Some item\<rparr>" keyring h] Cons.prems(2-4,6) 5 ok(1) tlv_tags_neq once
      by (simp add: parse_item_def)
  qed
qed

section \<open>Info pages\<close>

definition info_count :: "u32 list \<Rightarrow> nat" where
  "info_count info = unat ((tlv_length info - 8) div 12)"

lemma info_pages_ok_iff:
  "info_pages_ok info i n = kErrorOk_value \<longleftrightarrow>
     (\<forall>k \<in> {i..<i + n}. 5 \<le> ip_page (info_page info k) \<and> ip_page (info_page info k) \<le> 8)"
proof (induction n arbitrary: i)
  case (Suc n)
  have "{i..<i + Suc n} = insert i {Suc i..<Suc i + n}" by auto
  with Suc [of "Suc i"] show ?case by (auto simp: is_owner_page_def)
qed simp

text \<open>The pages are configured when their banks exist; a page of any other bank traps.\<close>

lemma params_build_ok:
  assumes "chip_ok C" "bank < 2" "page \<le> 8"
  shows "\<exists>p. info_type0_params_build C bank page = Some (kErrorOk_value, p)"
proof -
  have b: "bank = 0 \<or> bank = 1" using assms(2) by (auto simp: word_less_nat_alt unat_arith_simps)
  have "unat (ucast page :: u32) = unat page"
    using unsigned_less [of page, where 'a = nat] by (simp add: unsigned_ucast_eq take_bit_nat_eq_self)
  moreover have "unat page \<le> 8" using assms(3) by (simp add: word_le_nat_alt)
  ultimately have "(ucast page :: u32) < flash_num_infos0 C"
    using assms(1) by (auto simp: chip_ok_def word_less_nat_alt)
  with b assms(1) show ?thesis by (auto simp: info_type0_params_build_def chip_ok_def)
qed

lemma info_pages_apply_ok:
  assumes "chip_ok (chip H)"
  shows "\<forall>k \<in> {i..<i + n}. ip_bank (info_page info k) < 2 \<and> 5 \<le> ip_page (info_page info k) \<and> ip_page (info_page info k) \<le> 8 \<Longrightarrow>
     \<exists>h'. info_pages_apply H info i n crypt h = Some (kErrorOk_value, h')"
proof (induction n arbitrary: i crypt h)
  case (Suc n)
  have ins: "{i..<i + Suc n} = insert i {Suc i..<Suc i + n}" by auto
  with Suc.prems have p: "ip_bank (info_page info i) < 2" "5 \<le> ip_page (info_page info i)" "ip_page (info_page info i) \<le> 8"
    and rest: "\<forall>k \<in> {Suc i..<Suc i + n}. ip_bank (info_page info k) < 2 \<and> 5 \<le> ip_page (info_page info k) \<and> ip_page (info_page info k) \<le> 8"
    by auto
  from params_build_ok [OF assms p(1,3)] obtain q where
    "info_type0_params_build (chip H) (ip_bank (info_page info i)) (ip_page (info_page info i)) = Some (kErrorOk_value, q)" ..
  then show ?case using Suc.IH [OF rest] p by (simp add: is_owner_page_def Let_def)
qed simp

lemma info_pages_apply_traps:
  assumes "chip_ok (chip H)" "k < n" "ip_bank (info_page info (i + k)) \<ge> 2"
    "\<forall>j<n. 5 \<le> ip_page (info_page info (i + j)) \<and> ip_page (info_page info (i + j)) \<le> 8"
  shows "info_pages_apply H info i n crypt h = None"
  using assms(2-4)
proof (induction n arbitrary: i k crypt h)
  case (Suc n)
  have page: "is_owner_page (ip_bank (info_page info i)) (ip_page (info_page info i)) = kHardenedBoolTrue"
    using Suc.prems(3) by (auto simp: is_owner_page_def dest: spec [of _ 0])
  show ?case
  proof (cases "ip_bank (info_page info i) < 2")
    case True
    then have "k \<noteq> 0" using Suc.prems(2) by (metis add.right_neutral linorder_not_le)
    then obtain k' where k': "k = Suc k'" by (cases k) auto
    have "\<forall>j<n. 5 \<le> ip_page (info_page info (Suc i + j)) \<and> ip_page (info_page info (Suc i + j)) \<le> 8"
      using Suc.prems(3) by auto
    then have IH: "info_pages_apply H info (Suc i) n crypt' h' = None" for crypt' h'
      using Suc.IH [of k' "Suc i"] Suc.prems(1,2) k' by simp
    have "ip_page (info_page info i) \<le> 8" using Suc.prems(3) by (auto dest: spec [of _ 0])
    from params_build_ok [OF assms(1) True this] IH page show ?thesis by (auto simp: Let_def)
  next
    case False
    have "unat (ip_bank (info_page info i)) \<ge> 2" using False by (simp add: word_less_nat_alt)
    moreover have "unat (ucast (ip_bank (info_page info i)) :: u32) = unat (ip_bank (info_page info i))"
      using unsigned_less [of "ip_bank (info_page info i)", where 'a = nat]
      by (simp add: unsigned_ucast_eq take_bit_nat_eq_self)
    ultimately have "\<not> (ucast (ip_bank (info_page info i)) :: u32) < flash_num_banks (chip H)"
      using assms(1) by (simp add: chip_ok_def word_less_nat_alt)
    then show ?thesis using page by (simp add: info_type0_params_build_def Let_def)
  qed
qed simp

lemma info_check_pages:
  "owner_block_flash_info_check info = kErrorOk_value \<Longrightarrow>
     \<forall>k<info_count info. 5 \<le> ip_page (info_page info k) \<and> ip_page (info_page info k) \<le> 8"
  using info_pages_ok_iff [of info 0 "info_count info"]
  by (auto simp: owner_block_flash_info_check_def Let_def info_count_def split: if_splits)

section \<open>Properties\<close>

text \<open>
  C27: An accepted flash configuration cannot touch the ROM extension. Applied at boot to slot A and then to
  slot B, it protects every region of the list once, in the registers 2 to 7 behind those of the ROM
  extension, and each of them covers only pages of one slot that lie behind the ROM extension.
\<close>

theorem owner_flash_confined:
  assumes "chip_ok (chip H)" "owner_block_flash_check (chip H) f = kErrorOk_value"
  defines "as \<equiv> regions_a (chip H) f" and "bs \<equiv> regions_b (chip H) f"
  shows "owner_block_flash_apply H (Some f) kBootSlotA lockdown 0 h =
      (kErrorOk_value, of_nat (length as), fold (protect_region H f kBootSlotA lockdown) (enumerate 0 as) h) \<and>
    owner_block_flash_apply H (Some f) kBootSlotB lockdown (of_nat (length as)) h' =
      (kErrorOk_value, of_nat (region_count f),
       fold (protect_region H f kBootSlotB lockdown) (enumerate (length as) bs) h') \<and>
    region_count f \<le> 6 \<and> set as \<union> set bs = {..<region_count f} \<and> distinct (as @ bs) \<and>
    (\<forall>k \<in> set as. in_slot_a (chip H) (flash_region f k)) \<and>
    (\<forall>k \<in> set bs. in_slot_b (chip H) (flash_region f k)) \<and>
    (\<forall>j<6. \<forall>k side s. \<exists>perm cfg lock inc. protect_region H f side lockdown (j, k) s =
       sec_mmio_write_increment H inc
         (data_region_protect H (of_nat (2 + j)) (fr_start (flash_region f k)) (fr_size (flash_region f k)) perm cfg lock s))"
proof -
  note c = flash_check_regions [OF assms(1,2)]
  have sets: "set as \<union> set bs = {..<region_count f}" "set as \<inter> set bs = {}"
    using c(2) slots_disjoint [OF assms(1)] by (auto simp: as_def bs_def regions_a_def regions_b_def)
  have dist: "distinct (as @ bs)" using sets(2) by (simp add: as_def bs_def regions_a_def regions_b_def)
  have "length (as @ bs) = card (set (as @ bs))" using dist by (simp only: distinct_card)
  then have len: "length as + length bs = region_count f" using sets(1) by simp
  show ?thesis
    using flash_apply_slots(1) [OF assms(1,2), of 0 lockdown h]
      flash_apply_slots(2) [OF assms(1,2), of "length as" lockdown h'] c(1) len sets(1) dist
      protect_region_write [of _ H f _ lockdown]
    by (auto simp: as_def [symmetric] bs_def [symmetric]) (auto simp: as_def bs_def regions_a_def regions_b_def)
qed

text \<open>
  C28: A block that passes the check can be installed: if it has at most one item of each configuration and names
  info pages of the two banks only, the parse at the next boot succeeds and finds those items and the first 16 keys, and
  the flash and the info configuration are applied without error or trap.
\<close>

theorem checked_block_applies:
  assumes "chip_ok (chip H)" "owner_block_check H b s = kErrorOk_value"
    "\<forall>t \<in> {kTlvTagFlashConfig, kTlvTagInfoConfig, kTlvTagRescueConfig, kTlvTagIntegrationSpecificFirmwareBinding}.
       length (items_of t (block_items b)) \<le> 1"
    "\<forall>info \<in> set (items_of kTlvTagInfoConfig (block_items b)). \<forall>k<info_count info. ip_bank (info_page info k) < 2"
  shows "\<exists>config h1. owner_block_parse H b False (c0, [], h) =
      (kErrorOk_value, config, take 16 (items_of kTlvTagApplicationKey (block_items b)), h1) \<and>
    oc_sram_exec config = ob_sram_exec_mode b \<and>
    oc_flash config = first_item kTlvTagFlashConfig (block_items b) \<and>
    oc_info config = first_item kTlvTagInfoConfig (block_items b) \<and>
    oc_rescue config = first_item kTlvTagRescueConfig (block_items b) \<and>
    oc_isfb config = first_item kTlvTagIntegrationSpecificFirmwareBinding (block_items b) \<and>
    (\<exists>mp mp' h2 h3. owner_block_flash_apply H (oc_flash config) kBootSlotA lockdown 0 h1 = (kErrorOk_value, mp, h2) \<and>
       owner_block_flash_apply H (oc_flash config) kBootSlotB lockdown mp h2 = (kErrorOk_value, mp', h3)) \<and>
    (\<forall>h2. \<exists>h3. owner_block_info_apply H (oc_info config) h2 = Some (kErrorOk_value, h3))"
proof -
  let ?items = "block_items b"
  from assms(2) have walk: "block_walk_ok b" and items: "\<forall>item \<in> set ?items. item_check (chip H) item = kErrorOk_value"
    by (simp_all add: owner_block_check_iff)
  have once: "fills_once None t ?items" if "t \<in> {kTlvTagFlashConfig, kTlvTagInfoConfig, kTlvTagRescueConfig,
      kTlvTagIntegrationSpecificFirmwareBinding}" for t
    using assms(3) that by (auto simp: fills_once_def)
  define c1 where "c1 = owner_config_default\<lparr>oc_sram_exec := ob_sram_exec_mode b\<rparr>"
  have none: "oc_flash c1 = None" "oc_info c1 = None" "oc_rescue c1 = None" "oc_isfb c1 = None"
    "oc_sram_exec c1 = ob_sram_exec_mode b" by (simp_all add: c1_def owner_config_default_def)
  obtain config h1 where p: "parse_list H False ?items True (c1, [], h) =
      (kErrorOk_value, config, take 16 (items_of kTlvTagApplicationKey ?items), h1)"
    "oc_sram_exec config = ob_sram_exec_mode b"
    "oc_flash config = first_item kTlvTagFlashConfig ?items" "oc_info config = first_item kTlvTagInfoConfig ?items"
    "oc_rescue config = first_item kTlvTagRescueConfig ?items"
    "oc_isfb config = first_item kTlvTagIntegrationSpecificFirmwareBinding ?items"
    using parse_list_full [OF items, of c1 "[]" H h] once none by (auto simp: filled_def)
  have first: "first_item t ?items = Some item \<Longrightarrow> item \<in> set ?items \<and> tlv_tag item = t \<and> item \<in> set (items_of t ?items)" for t item
    unfolding first_item_def items_of_def
    using filter_set [of "\<lambda>item. tlv_tag item = t" ?items] by (cases "filter (\<lambda>item. tlv_tag item = t) ?items") auto
  have flash: "\<exists>mp mp' h2 h3. owner_block_flash_apply H (oc_flash config) kBootSlotA lockdown 0 h1 = (kErrorOk_value, mp, h2) \<and>
       owner_block_flash_apply H (oc_flash config) kBootSlotB lockdown mp h2 = (kErrorOk_value, mp', h3)"
  proof (cases "oc_flash config")
    case (Some f)
    then have "item_check (chip H) f = kErrorOk_value" "tlv_tag f = kTlvTagFlashConfig"
      using first [of kTlvTagFlashConfig f] items p(3) by auto
    then have chk: "owner_block_flash_check (chip H) f = kErrorOk_value"
      by (rule item_check_tag(1))
    note c = flash_check_regions [OF assms(1) chk]
    have "length (regions_a (chip H) f) + length (regions_b (chip H) f) \<le> 6" using c(3,4) by simp
    then show ?thesis
      using Some c(3) flash_apply_slots(1) [OF assms(1) chk, of 0 lockdown h1]
        flash_apply_slots(2) [OF assms(1) chk, of "length (regions_a (chip H) f)" lockdown] by simp
  qed (simp add: owner_block_flash_apply_def)
  have info: "\<exists>h3. owner_block_info_apply H (oc_info config) h2 = Some (kErrorOk_value, h3)" for h2
  proof (cases "oc_info config")
    case (Some f)
    then have f: "item_check (chip H) f = kErrorOk_value" "tlv_tag f = kTlvTagInfoConfig"
      "f \<in> set (items_of kTlvTagInfoConfig ?items)"
      using first [of kTlvTagInfoConfig f] items p(4) by auto
    from info_check_pages [OF item_check_tag(2) [OF f(1,2)]] assms(4) f(3)
    have "\<forall>k \<in> {0..<0 + info_count f}. ip_bank (info_page f k) < 2 \<and> 5 \<le> ip_page (info_page f k) \<and> ip_page (info_page f k) \<le> 8"
      by auto
    from info_pages_apply_ok [OF assms(1) this, of 0 h2] Some show ?thesis
      by (simp add: owner_block_info_apply_def info_count_def)
  qed (simp add: owner_block_info_apply_def)
  have "owner_block_parse H b False (c0, [], h) = parse_list H False ?items True (c1, [], h)"
    using walk by (simp add: owner_block_parse_def block_walk_ok_def parse_items_list block_items_def c1_def
        case_prod_unfold)
  with p flash info show ?thesis by auto
qed

text \<open>
  C39: The check of an info configuration looks at the page number and not at the bank. A configuration that
  names a bank the flash does not have passes the check, so its block can be installed; the code that applies it at
  every boot from then on then traps.
\<close>

theorem info_bank_unchecked:
  assumes "chip_ok (chip H)" "owner_block_flash_info_check info = kErrorOk_value"
    "k < info_count info" "ip_bank (info_page info k) \<ge> 2"
  shows "owner_block_info_apply H (Some info) h = None"
  using info_pages_apply_traps [OF assms(1,3), of info 0 0 h] assms(4) info_check_pages [OF assms(2)]
  by (simp add: owner_block_info_apply_def info_count_def)


section \<open>A configuration of the chip\<close>

text \<open>
  The demonstration block has a flash
  configuration with a region in each slot, an info configuration with page 6 of both banks, and padding.
\<close>

definition demo_flash :: "u32 list" where
  "demo_flash = [kTlvTagFlashConfig, 32, 0x00E00020, 0, 0, 0x00E00120, 0, 0]"

definition demo_info :: "u32 \<Rightarrow> u32 list" where
  "demo_info bank = [kTlvTagInfoConfig, 32, 0x0600, 0, 0, 0x0600 + bank, 0, 0]"

definition demo_data :: "u32 list" where
  "demo_data = demo_flash @ demo_info 1 @ replicate 368 kTlvTagNotPresent"

definition demo_block :: owner_block where
  "demo_block = \<lparr>ob_tag = kTlvTagOwner, ob_length = 2048, ob_major = 0, ob_minor = 0, ob_config_version = 1,
     ob_sram_exec_mode = kOwnerSramExecModeDisabledLocked, ob_ownership_key_alg = kOwnershipKeyAlgEcdsaP256,
     ob_update_mode = 0, ob_min_security_version_bl0 = 0, ob_lock_constraint = 0,
     ob_device_id = replicate 8 kLockConstraintNone, ob_reserved = replicate 16 0, ob_owner_key = replicate 24 1,
     ob_activate_key = replicate 24 2, ob_unlock_key = replicate 24 3, ob_data = demo_data,
     ob_signature = replicate 16 0, ob_seal = replicate 8 0\<rparr>"

lemma earlgrey_ok: "chip_ok earlgrey"
  by (simp add: chip_ok_def earlgrey_def kRomExtSizeInPages_def CHIP_ROM_EXT_SIZE_MAX_def)

lemma demo_flash_ok: "owner_block_flash_check earlgrey demo_flash = kErrorOk_value"
  by code_simp

lemma demo_regions: "regions_a earlgrey demo_flash = [0] \<and> regions_b earlgrey demo_flash = [1]"
  by code_simp

theorem owner_flash_confined_witness:
  "\<forall>(H :: unit own_hw) h. \<exists>h1 h2.
     owner_block_flash_apply (H\<lparr>chip := earlgrey\<rparr>) (Some demo_flash) kBootSlotA kBootSlotA 0 h = (kErrorOk_value, 1, h1) \<and>
     owner_block_flash_apply (H\<lparr>chip := earlgrey\<rparr>) (Some demo_flash) kBootSlotB kBootSlotA 1 h1 = (kErrorOk_value, 2, h2)"
proof (intro allI)
  fix H :: "unit own_hw" and h
  have n: "region_count demo_flash = 2" by code_simp
  show "\<exists>h1 h2.
     owner_block_flash_apply (H\<lparr>chip := earlgrey\<rparr>) (Some demo_flash) kBootSlotA kBootSlotA 0 h = (kErrorOk_value, 1, h1) \<and>
     owner_block_flash_apply (H\<lparr>chip := earlgrey\<rparr>) (Some demo_flash) kBootSlotB kBootSlotA 1 h1 = (kErrorOk_value, 2, h2)"
    using owner_flash_confined [of "H\<lparr>chip := earlgrey\<rparr>" demo_flash kBootSlotA]
    by (simp add: earlgrey_ok demo_flash_ok demo_regions n)
qed

lemma demo_items: "block_walk_ok demo_block \<and> block_items demo_block =
    [demo_data, drop 8 demo_data]"
  by code_simp

lemma demo_item_checks: "list_all (\<lambda>item. item_check earlgrey item = kErrorOk_value) (block_items demo_block)"
  by code_simp


lemma demo_check: "owner_block_check (H\<lparr>chip := earlgrey\<rparr>) demo_block h = kErrorOk_value"
  using demo_items demo_item_checks by (simp add: owner_block_check_iff list_all_iff)

lemma demo_tags: "tlv_tag demo_data = kTlvTagFlashConfig" "tlv_tag (drop 8 demo_data) = kTlvTagInfoConfig"
  by (simp_all add: demo_data_def demo_flash_def demo_info_def tlv_tag_def)

lemma demo_items_of: "items_of t (block_items demo_block) =
    (if t = kTlvTagFlashConfig then [demo_data] else if t = kTlvTagInfoConfig then [drop 8 demo_data] else [])"
  using demo_items tlv_tags_neq by (auto simp: demo_tags)

lemma demo_banks: "list_all (\<lambda>k. ip_bank (info_page (drop 8 demo_data) k) < 2) [0..<info_count (drop 8 demo_data)]"
  by code_simp

theorem checked_block_applies_witness:
  "\<forall>(H :: unit own_hw) c0 h. \<exists>config h1 h2.
     owner_block_parse (H\<lparr>chip := earlgrey\<rparr>) demo_block False (c0, [], h) = (kErrorOk_value, config, [], h1) \<and>
     oc_flash config = Some demo_data \<and> oc_info config = Some (drop 8 demo_data) \<and>
     owner_block_info_apply (H\<lparr>chip := earlgrey\<rparr>) (oc_info config) h1 = Some (kErrorOk_value, h2)"
proof (intro allI)
  fix H :: "unit own_hw" and c0 h
  have banks: "\<forall>info \<in> set (items_of kTlvTagInfoConfig (block_items demo_block)). \<forall>k<info_count info. ip_bank (info_page info k) < 2"
    using demo_banks tlv_tags_neq by (simp add: demo_items_of list_all_iff)
  have once: "\<forall>t \<in> {kTlvTagFlashConfig, kTlvTagInfoConfig, kTlvTagRescueConfig, kTlvTagIntegrationSpecificFirmwareBinding}.
      length (items_of t (block_items demo_block)) \<le> 1"
    by (simp add: demo_items_of)
  have keys: "items_of kTlvTagApplicationKey (block_items demo_block) = []"
    "first_item kTlvTagFlashConfig (block_items demo_block) = Some demo_data"
    "first_item kTlvTagInfoConfig (block_items demo_block) = Some (drop 8 demo_data)"
    using tlv_tags_neq by (simp_all add: demo_items_of first_item_def)
  have "chip_ok (chip (H\<lparr>chip := earlgrey\<rparr>))" by (simp add: earlgrey_ok)
  from checked_block_applies [OF this demo_check once banks, of c0 h kBootSlotA] keys
  show "\<exists>config h1 h2.
     owner_block_parse (H\<lparr>chip := earlgrey\<rparr>) demo_block False (c0, [], h) = (kErrorOk_value, config, [], h1) \<and>
     oc_flash config = Some demo_data \<and> oc_info config = Some (drop 8 demo_data) \<and>
     owner_block_info_apply (H\<lparr>chip := earlgrey\<rparr>) (oc_info config) h1 = Some (kErrorOk_value, h2)"
    by auto
qed

lemma demo_bad_info: "owner_block_flash_info_check (demo_info 7) = kErrorOk_value" "info_count (demo_info 7) = 2"
    "2 \<le> ip_bank (info_page (demo_info 7) 1)"
  by code_simp+

theorem info_bank_unchecked_witness:
  "owner_block_flash_info_check (demo_info 7) = kErrorOk_value \<and>
   (\<forall>(H :: unit own_hw) h. owner_block_info_apply (H\<lparr>chip := earlgrey\<rparr>) (Some (demo_info 7)) h = None)"
  using info_bank_unchecked [of "H\<lparr>chip := earlgrey\<rparr>" "demo_info 7" 1 for H :: "unit own_hw"] demo_bad_info earlgrey_ok
  by simp

end
