(* ===== verification/Boot_Svc.thy ===== *)
theory Boot_Svc
  imports Owner_Codes
begin

unbundle bit_operations_syntax

text \<open>
  The messages of the boot services, \<open>sw/device/silicon_creator/lib/boot_svc\<close>: a request that the owner
  firmware leaves in the retention RAM for the ROM extension, which overwrites it with its response.
  A message is the list of the 64 words of the buffer; the union \<open>boot_svc_msg_t\<close> is the readings of
  that list, and each \<open>*_init\<close> function writes the words of its structure. \<open>sha\<close> is SHA-256 as the
  HMAC driver computes it: from the bytes of the message to the eight words of the digest.
\<close>

section \<open>Header\<close>

definition CHIP_BOOT_SVC_MSG_HEADER_SIZE :: u32 where "CHIP_BOOT_SVC_MSG_HEADER_SIZE = 44"
definition CHIP_BOOT_SVC_MSG_SIZE_MAX :: u32 where "CHIP_BOOT_SVC_MSG_SIZE_MAX = 256"
definition kBootSvcIdentifier :: u32 where "kBootSvcIdentifier = 0x43565342"

record boot_svc_header =
  hdr_digest :: "u32 list"
  hdr_identifier :: u32
  hdr_type :: u32
  hdr_length :: u32

definition svc_header :: "u32 list \<Rightarrow> boot_svc_header" where
  "svc_header msg = \<lparr>hdr_digest = take 8 msg, hdr_identifier = msg ! 8, hdr_type = msg ! 9, hdr_length = msg ! 10\<rparr>"

definition boot_svc_header_digest_compute :: "(u8 list \<Rightarrow> u32 list) \<Rightarrow> u32 list \<Rightarrow> u32 list" where
  "boot_svc_header_digest_compute sha msg =
     sha (take (unat (hdr_length (svc_header msg) - 32)) (drop 32 (words_bytes msg)))"

definition boot_svc_header_finalize :: "(u8 list \<Rightarrow> u32 list) \<Rightarrow> u32 \<Rightarrow> u32 \<Rightarrow> u32 list \<Rightarrow> u32 list" where
  "boot_svc_header_finalize sha type len msg =
     (let msg = msg[8 := kBootSvcIdentifier, 9 := type, 10 := len]
      in boot_svc_header_digest_compute sha msg @ drop 8 msg)"

definition kSvcCheckShares :: "u32 list" where
  "kSvcCheckShares = [0xc038253c, 0xfa1ebc13, 0x608b15e1, 0x883053ed, 0x3d28e980, 0x16009f6e,
     0xa7944bde, 0x3c096b6f, 0xe2828469, 0x2d507673, 0xefee6c10]"

definition boot_svc_header_check :: "(u8 list \<Rightarrow> u32 list) \<Rightarrow> u32 list \<Rightarrow> u32" where
  "boot_svc_header_check sha msg =
     (let err = kErrorBootSvcBadHeader; header = svc_header msg
      in if hdr_length header < CHIP_BOOT_SVC_MSG_HEADER_SIZE then kErrorBootSvcBadHeader
      else let err = err XOR kSvcCheckShares ! 0
      in if hdr_length header > CHIP_BOOT_SVC_MSG_SIZE_MAX then kErrorBootSvcBadHeader
      else let err = err XOR kSvcCheckShares ! 1;
          digest = boot_svc_header_digest_compute sha msg;
          err = fold (\<lambda>j err. err XOR (hdr_digest header ! j XOR digest ! j XOR kSvcCheckShares ! (2 + j))) [0..<8] err;
          err = err XOR (hdr_identifier header XOR kSvcCheckShares ! 10)
      in if err = kErrorOk_value then err else kErrorBootSvcBadHeader)"

section \<open>Messages\<close>

definition kBootSvcEmptyReqType :: u32 where "kBootSvcEmptyReqType = 0x54504d45"
definition kBootSvcEmptyResType :: u32 where "kBootSvcEmptyResType = 0x454d5054"
definition kBootSvcEnterRescueReqType :: u32 where "kBootSvcEnterRescueReqType = 0x51535245"
definition kBootSvcEnterRescueResType :: u32 where "kBootSvcEnterRescueResType = 0x45525351"
definition kBootSvcNextBl0SlotReqType :: u32 where "kBootSvcNextBl0SlotReqType = 0x5458454e"
definition kBootSvcNextBl0SlotResType :: u32 where "kBootSvcNextBl0SlotResType = 0x4e455854"
definition kBootSvcMinBl0SecVerReqType :: u32 where "kBootSvcMinBl0SecVerReqType = 0x4345534d"
definition kBootSvcMinBl0SecVerResType :: u32 where "kBootSvcMinBl0SecVerResType = 0x4d534543"
definition kBootSvcOwnershipActivateReqType :: u32 where "kBootSvcOwnershipActivateReqType = 0x56544341"
definition kBootSvcOwnershipActivateResType :: u32 where "kBootSvcOwnershipActivateResType = 0x41435456"
definition kBootSvcOwnershipHistoryReqType :: u32 where "kBootSvcOwnershipHistoryReqType = 0x54534948"
definition kBootSvcOwnershipHistoryResType :: u32 where "kBootSvcOwnershipHistoryResType = 0x48495354"
definition kBootSvcOwnershipUnlockReqType :: u32 where "kBootSvcOwnershipUnlockReqType = 0x4b4c4e55"
definition kBootSvcOwnershipUnlockResType :: u32 where "kBootSvcOwnershipUnlockResType = 0x554e4c4b"

definition kBootSvcUnlockAny :: u32 where "kBootSvcUnlockAny = 0x00594e41"
definition kBootSvcUnlockEndorsed :: u32 where "kBootSvcUnlockEndorsed = 0x4f444e45"
definition kBootSvcUnlockUpdate :: u32 where "kBootSvcUnlockUpdate = 0x00445055"
definition kBootSvcUnlockAbort :: u32 where "kBootSvcUnlockAbort = 0x54524241"

definition kBootSvcEmptyPayloadWordCount :: nat where "kBootSvcEmptyPayloadWordCount = 53"

text \<open>The structures of the messages; the payload starts at word 11.\<close>

record next_boot_bl0_slot_req =
  nreq_next_bl0_slot :: u32
  nreq_primary_bl0_slot :: u32

definition next_boot_bl0_slot_req_of :: "u32 list \<Rightarrow> next_boot_bl0_slot_req" where
  "next_boot_bl0_slot_req_of msg = \<lparr>nreq_next_bl0_slot = msg ! 11, nreq_primary_bl0_slot = msg ! 12\<rparr>"

record next_boot_bl0_slot_res =
  nres_status :: u32
  nres_primary_bl0_slot :: u32

definition next_boot_bl0_slot_res_of :: "u32 list \<Rightarrow> next_boot_bl0_slot_res" where
  "next_boot_bl0_slot_res_of msg = \<lparr>nres_status = msg ! 11, nres_primary_bl0_slot = msg ! 12\<rparr>"

definition min_bl0_sec_ver_req :: "u32 list \<Rightarrow> u32" where
  "min_bl0_sec_ver_req msg = msg ! 11"

record min_bl0_sec_ver_res =
  mres_min_bl0_sec_ver :: u32
  mres_status :: u32

definition min_bl0_sec_ver_res_of :: "u32 list \<Rightarrow> min_bl0_sec_ver_res" where
  "min_bl0_sec_ver_res_of msg = \<lparr>mres_min_bl0_sec_ver = msg ! 11, mres_status = msg ! 12\<rparr>"

definition status_res :: "u32 list \<Rightarrow> u32" where
  "status_res msg = msg ! 11"

record ownership_activate_req =
  areq_primary_bl0_slot :: u32
  areq_din :: "u32 list"
  areq_erase_previous :: u32
  areq_reserved :: "u32 list"
  areq_nonce :: "u32 list"
  areq_signature :: "u32 list"

definition ownership_activate_req_of :: "u32 list \<Rightarrow> ownership_activate_req" where
  "ownership_activate_req_of msg = \<lparr>areq_primary_bl0_slot = msg ! 11, areq_din = take 2 (drop 12 msg),
     areq_erase_previous = msg ! 14, areq_reserved = take 31 (drop 15 msg), areq_nonce = take 2 (drop 46 msg),
     areq_signature = take 16 (drop 48 msg)\<rparr>"

record ownership_history_res =
  hres_status :: u32
  hres_history_digest :: "u32 list"

definition ownership_history_res_of :: "u32 list \<Rightarrow> ownership_history_res" where
  "ownership_history_res_of msg = \<lparr>hres_status = msg ! 11, hres_history_digest = take 8 (drop 12 msg)\<rparr>"

record ownership_unlock_req =
  ureq_unlock_mode :: u32
  ureq_din :: "u32 list"
  ureq_reserved :: "u32 list"
  ureq_nonce :: "u32 list"
  ureq_next_owner_key :: "u32 list"
  ureq_signature :: "u32 list"

definition ownership_unlock_req_of :: "u32 list \<Rightarrow> ownership_unlock_req" where
  "ownership_unlock_req_of msg = \<lparr>ureq_unlock_mode = msg ! 11, ureq_din = take 2 (drop 12 msg),
     ureq_reserved = take 8 (drop 14 msg), ureq_nonce = take 2 (drop 22 msg),
     ureq_next_owner_key = take 24 (drop 24 msg), ureq_signature = take 16 (drop 48 msg)\<rparr>"

text \<open>The words from \<open>first\<close> on are overwritten with \<open>ws\<close>.\<close>

definition put_words :: "nat \<Rightarrow> u32 list \<Rightarrow> u32 list \<Rightarrow> u32 list" where
  "put_words first ws msg = take first msg @ ws @ drop (first + length ws) msg"

definition boot_svc_empty_req_init :: "(u8 list \<Rightarrow> u32 list) \<Rightarrow> u32 list \<Rightarrow> u32 list" where
  "boot_svc_empty_req_init sha msg = boot_svc_header_finalize sha kBootSvcEmptyReqType 256
     (fold (\<lambda>i msg. msg[11 + i := 0]) [0..<kBootSvcEmptyPayloadWordCount] msg)"

definition boot_svc_empty_res_init :: "(u8 list \<Rightarrow> u32 list) \<Rightarrow> u32 list \<Rightarrow> u32 list" where
  "boot_svc_empty_res_init sha msg = boot_svc_header_finalize sha kBootSvcEmptyResType 256 msg"

definition boot_svc_enter_rescue_req_init :: "(u8 list \<Rightarrow> u32 list) \<Rightarrow> u32 list \<Rightarrow> u32 list" where
  "boot_svc_enter_rescue_req_init sha msg = boot_svc_header_finalize sha kBootSvcEnterRescueReqType 44 msg"

definition boot_svc_enter_rescue_res_init :: "(u8 list \<Rightarrow> u32 list) \<Rightarrow> u32 \<Rightarrow> u32 list \<Rightarrow> u32 list" where
  "boot_svc_enter_rescue_res_init sha status msg =
     boot_svc_header_finalize sha kBootSvcEnterRescueResType 48 (msg[11 := status])"

definition boot_svc_min_bl0_sec_ver_req_init :: "(u8 list \<Rightarrow> u32 list) \<Rightarrow> u32 \<Rightarrow> u32 list \<Rightarrow> u32 list" where
  "boot_svc_min_bl0_sec_ver_req_init sha min_bl0_sec_ver msg =
     boot_svc_header_finalize sha kBootSvcMinBl0SecVerReqType 48 (msg[11 := min_bl0_sec_ver])"

definition boot_svc_min_bl0_sec_ver_res_init ::
  "(u8 list \<Rightarrow> u32 list) \<Rightarrow> u32 \<Rightarrow> u32 \<Rightarrow> u32 list \<Rightarrow> u32 list" where
  "boot_svc_min_bl0_sec_ver_res_init sha min_bl0_sec_ver status msg =
     boot_svc_header_finalize sha kBootSvcMinBl0SecVerResType 52 (msg[11 := min_bl0_sec_ver, 12 := status])"

definition boot_svc_next_boot_bl0_slot_req_init ::
  "(u8 list \<Rightarrow> u32 list) \<Rightarrow> u32 \<Rightarrow> u32 \<Rightarrow> u32 list \<Rightarrow> u32 list" where
  "boot_svc_next_boot_bl0_slot_req_init sha primary_slot next_slot msg =
     boot_svc_header_finalize sha kBootSvcNextBl0SlotReqType 52 (msg[11 := next_slot, 12 := primary_slot])"

definition boot_svc_next_boot_bl0_slot_res_init ::
  "(u8 list \<Rightarrow> u32 list) \<Rightarrow> u32 \<Rightarrow> u32 \<Rightarrow> u32 list \<Rightarrow> u32 list" where
  "boot_svc_next_boot_bl0_slot_res_init sha status primary_slot msg =
     boot_svc_header_finalize sha kBootSvcNextBl0SlotResType 52 (msg[11 := status, 12 := primary_slot])"

definition boot_svc_ownership_activate_req_init ::
  "(u8 list \<Rightarrow> u32 list) \<Rightarrow> u32 \<Rightarrow> u32 \<Rightarrow> u32 list \<Rightarrow> u32 list \<Rightarrow> u32 list \<Rightarrow> u32 list" where
  "boot_svc_ownership_activate_req_init sha primary_bl0_slot erase_previous nonce signature msg =
     (let msg = msg[11 := primary_bl0_slot, 14 := erase_previous];
          msg = put_words 15 (replicate 31 0) msg;
          msg = put_words 46 nonce msg;
          msg = put_words 48 signature msg
      in boot_svc_header_finalize sha kBootSvcOwnershipActivateReqType 256 msg)"

definition boot_svc_ownership_activate_res_init :: "(u8 list \<Rightarrow> u32 list) \<Rightarrow> u32 \<Rightarrow> u32 list \<Rightarrow> u32 list" where
  "boot_svc_ownership_activate_res_init sha status msg =
     boot_svc_header_finalize sha kBootSvcOwnershipActivateResType 48 (msg[11 := status])"

definition boot_svc_ownership_history_req_init :: "(u8 list \<Rightarrow> u32 list) \<Rightarrow> u32 list \<Rightarrow> u32 list" where
  "boot_svc_ownership_history_req_init sha msg =
     boot_svc_header_finalize sha kBootSvcOwnershipHistoryReqType 44 msg"

definition boot_svc_ownership_history_res_init ::
  "(u8 list \<Rightarrow> u32 list) \<Rightarrow> u32 \<Rightarrow> u32 list \<Rightarrow> u32 list \<Rightarrow> u32 list" where
  "boot_svc_ownership_history_res_init sha status history_digest msg =
     boot_svc_header_finalize sha kBootSvcOwnershipHistoryResType 80
       (put_words 12 history_digest (msg[11 := status]))"

definition boot_svc_ownership_unlock_req_init ::
  "(u8 list \<Rightarrow> u32 list) \<Rightarrow> u32 \<Rightarrow> u32 list \<Rightarrow> u32 list \<Rightarrow> u32 list \<Rightarrow> u32 list \<Rightarrow> u32 list" where
  "boot_svc_ownership_unlock_req_init sha unlock_mode nonce next_owner_key signature msg =
     (let msg = msg[11 := unlock_mode];
          msg = put_words 14 (replicate 8 0) msg;
          msg = put_words 22 nonce msg;
          msg = put_words 24 next_owner_key msg;
          msg = put_words 48 signature msg
      in boot_svc_header_finalize sha kBootSvcOwnershipUnlockReqType 256 msg)"

definition boot_svc_ownership_unlock_res_init :: "(u8 list \<Rightarrow> u32 list) \<Rightarrow> u32 \<Rightarrow> u32 list \<Rightarrow> u32 list" where
  "boot_svc_ownership_unlock_res_init sha status msg =
     boot_svc_header_finalize sha kBootSvcOwnershipUnlockResType 48 (msg[11 := status])"

section \<open>The check of the header\<close>

lemma drop_words_bytes: "drop (4 * n) (words_bytes ws) = words_bytes (drop n ws)"
proof (induction ws arbitrary: n)
  case (Cons w ws)
  then show ?case by (cases n) (simp_all add: words_bytes_def)
qed (simp add: words_bytes_def)

lemma digest_drop_8:
  "boot_svc_header_digest_compute sha msg =
     sha (take (unat (hdr_length (svc_header msg) - 32)) (words_bytes (drop 8 msg)))"
  using drop_words_bytes [of 8 msg] by (simp add: boot_svc_header_digest_compute_def)

text \<open>A message is accepted when its length is in range and the words compared cancel.\<close>

lemma svc_shares:
  "kErrorBootSvcBadHeader XOR kSvcCheckShares ! 0 XOR kSvcCheckShares ! 1 XOR
     xor_sum (\<lambda>j. kSvcCheckShares ! (2 + j)) [0..<8] XOR kSvcCheckShares ! 10 =
   kErrorOk_value XOR kBootSvcIdentifier"
  by code_simp

lemma boot_svc_header_check_eq:
  "boot_svc_header_check sha msg =
     (if 44 \<le> hdr_length (svc_header msg) \<and> hdr_length (svc_header msg) \<le> 256 \<and>
         xor_sum ((!) (hdr_digest (svc_header msg))) [0..<8] XOR hdr_identifier (svc_header msg) =
         xor_sum ((!) (boot_svc_header_digest_compute sha msg)) [0..<8] XOR kBootSvcIdentifier
      then kErrorOk_value else kErrorBootSvcBadHeader)"
proof -
  define a b where "a = xor_sum ((!) (hdr_digest (svc_header msg))) [0..<8]"
    and "b = xor_sum ((!) (boot_svc_header_digest_compute sha msg)) [0..<8]"
  define s where "s = xor_sum (\<lambda>j. kSvcCheckShares ! (2 + j)) [0..<8]"
  define k where "k = kErrorBootSvcBadHeader XOR kSvcCheckShares ! 0 XOR kSvcCheckShares ! 1"
  define i where "i = hdr_identifier (svc_header msg)"
  have e: "k XOR s XOR kSvcCheckShares ! 10 = kErrorOk_value XOR kBootSvcIdentifier"
    unfolding k_def s_def using svc_shares by (simp only: xor.assoc)
  have "k XOR a XOR b XOR s XOR (i XOR kSvcCheckShares ! 10) =
      a XOR b XOR i XOR (k XOR s XOR kSvcCheckShares ! 10)" by (simp add: xor_ac)
  also have "\<dots> = (a XOR i) XOR (b XOR (kErrorOk_value XOR kBootSvcIdentifier))"
    unfolding e by (simp add: xor_ac)
  finally have "k XOR a XOR b XOR s XOR (i XOR kSvcCheckShares ! 10) = kErrorOk_value \<longleftrightarrow>
      (a XOR i) XOR (b XOR (kErrorOk_value XOR kBootSvcIdentifier)) =
      (b XOR kBootSvcIdentifier) XOR (b XOR (kErrorOk_value XOR kBootSvcIdentifier))"
    by (simp add: xor_ac)
  then have iff: "k XOR a XOR b XOR s XOR (i XOR kSvcCheckShares ! 10) = kErrorOk_value \<longleftrightarrow>
      a XOR i = b XOR kBootSvcIdentifier" unfolding xor_right_cancel .
  have E: "(((kErrorBootSvcBadHeader XOR kSvcCheckShares ! 0) XOR kSvcCheckShares ! 1) XOR
      (a XOR b XOR s)) XOR (i XOR kSvcCheckShares ! 10) =
      k XOR a XOR b XOR s XOR (i XOR kSvcCheckShares ! 10)" by (simp only: k_def xor.assoc)
  have same: "(if e = kErrorOk_value then e else c) = (if e = kErrorOk_value then kErrorOk_value else c)" for e c
    by simp
  have chk: "boot_svc_header_check sha msg =
      (if hdr_length (svc_header msg) < 44 then kErrorBootSvcBadHeader
       else if 256 < hdr_length (svc_header msg) then kErrorBootSvcBadHeader
       else if k XOR a XOR b XOR s XOR (i XOR kSvcCheckShares ! 10) = kErrorOk_value then kErrorOk_value
       else kErrorBootSvcBadHeader)"
    by (simp only: boot_svc_header_check_def Let_def check_fold a_def [symmetric] b_def [symmetric]
        s_def [symmetric] i_def [symmetric] E same CHIP_BOOT_SVC_MSG_HEADER_SIZE_def CHIP_BOOT_SVC_MSG_SIZE_MAX_def)
  show ?thesis unfolding chk iff unfolding a_def b_def i_def by (auto simp: not_less not_le)
qed

lemma length_finalize:
  "length msg = 64 \<Longrightarrow> \<forall>bs. length (sha bs) = 8 \<Longrightarrow> length (boot_svc_header_finalize sha t l msg) = 64"
  by (simp add: boot_svc_header_finalize_def boot_svc_header_digest_compute_def Let_def)

lemma nth_finalize:
  assumes "length msg = 64" "\<forall>bs. length (sha bs) = 8"
  shows "boot_svc_header_finalize sha t l msg ! 8 = kBootSvcIdentifier"
    "boot_svc_header_finalize sha t l msg ! 9 = t"
    "boot_svc_header_finalize sha t l msg ! 10 = l"
    "drop 11 (boot_svc_header_finalize sha t l msg) = drop 11 msg"
  using assms
  by (simp_all add: boot_svc_header_finalize_def boot_svc_header_digest_compute_def Let_def nth_append drop_update_cancel)

lemma finalize_payload:
  assumes "length msg = 64" "\<forall>bs. length (sha bs) = 8" "11 \<le> i" "i < 64"
  shows "boot_svc_header_finalize sha t l msg ! i = msg ! i"
proof -
  have "boot_svc_header_finalize sha t l msg ! i = drop 11 (boot_svc_header_finalize sha t l msg) ! (i - 11)"
    using assms by (simp add: length_finalize)
  also have "\<dots> = msg ! i" using assms by (simp add: nth_finalize)
  finally show ?thesis .
qed

lemma finalize_digest:
  assumes "length msg = 64" "\<forall>bs. length (sha bs) = 8"
  shows "hdr_digest (svc_header (boot_svc_header_finalize sha t l msg)) =
     boot_svc_header_digest_compute sha (boot_svc_header_finalize sha t l msg)"
proof -
  let ?m = "msg[8 := kBootSvcIdentifier, 9 := t, 10 := l]"
  have "drop 8 (boot_svc_header_finalize sha t l msg) = drop 8 ?m"
    using assms by (simp add: boot_svc_header_finalize_def boot_svc_header_digest_compute_def Let_def)
  moreover have "hdr_length (svc_header (boot_svc_header_finalize sha t l msg)) = hdr_length (svc_header ?m)"
    using assms by (simp add: svc_header_def nth_finalize)
  ultimately have "boot_svc_header_digest_compute sha (boot_svc_header_finalize sha t l msg) =
      boot_svc_header_digest_compute sha ?m" by (simp only: digest_drop_8)
  then show ?thesis
    using assms by (simp add: svc_header_def boot_svc_header_finalize_def Let_def)
      (simp add: boot_svc_header_digest_compute_def)
qed

lemma finalize_check:
  assumes "length msg = 64" "\<forall>bs. length (sha bs) = 8" "44 \<le> l" "l \<le> 256"
  shows "boot_svc_header_check sha (boot_svc_header_finalize sha t l msg) = kErrorOk_value"
  unfolding boot_svc_header_check_eq finalize_digest [OF assms(1,2)]
  using assms by (simp add: svc_header_def nth_finalize)

lemma length_put_words: "first + length ws \<le> length msg \<Longrightarrow> length (put_words first ws msg) = length msg"
  by (simp add: put_words_def)

section \<open>Properties\<close>

text \<open>
  C38: An unlock request that \<open>boot_svc_ownership_unlock_req_init\<close> writes is accepted by the check of the ROM
  extension and read back field by field. The device identifier is the exception: the function does not
  write it, so the request carries whatever the buffer held there. A changed message is accepted only if
  its digest words and identifier still combine to the same value.
\<close>

theorem unlock_request_roundtrip:
  fixes mode :: u32
  assumes "length msg = 64" "\<forall>bs. length (sha bs) = 8" "length nonce = 2" "length key = 24" "length sig = 16"
  defines "req \<equiv> boot_svc_ownership_unlock_req_init sha mode nonce key sig msg"
  shows "boot_svc_header_check sha req = kErrorOk_value \<and>
    hdr_type (svc_header req) = kBootSvcOwnershipUnlockReqType \<and>
    ownership_unlock_req_of req = \<lparr>ureq_unlock_mode = mode, ureq_din = take 2 (drop 12 msg),
      ureq_reserved = replicate 8 0, ureq_nonce = nonce, ureq_next_owner_key = key, ureq_signature = sig\<rparr> \<and>
    (\<forall>req'. boot_svc_header_check sha req' = kErrorOk_value \<longleftrightarrow>
       44 \<le> hdr_length (svc_header req') \<and> hdr_length (svc_header req') \<le> 256 \<and>
       xor_sum ((!) (hdr_digest (svc_header req'))) [0..<8] XOR hdr_identifier (svc_header req') =
       xor_sum ((!) (boot_svc_header_digest_compute sha req')) [0..<8] XOR kBootSvcIdentifier)"
proof -
  define m where "m = put_words 48 sig (put_words 24 key (put_words 22 nonce
    (put_words 14 (replicate 8 0) (msg[11 := mode]))))"
  have req: "req = boot_svc_header_finalize sha kBootSvcOwnershipUnlockReqType 256 m"
    by (simp add: req_def boot_svc_ownership_unlock_req_init_def Let_def m_def)
  have m: "m = take 12 (msg[11 := mode]) @ take 2 (drop 12 msg) @ replicate 8 0 @ nonce @ key @ sig"
    using assms(1,3,4,5) take_add [of 12 2 "msg[11 := mode]"] by (simp add: m_def put_words_def min_def)
  have len: "length m = 64" using assms(1,3,4,5) by (simp add: m)
  have pay: "drop 11 req = drop 11 m" using len assms(2) by (simp add: req nth_finalize)
  have "drop 11 (msg[11 := mode]) = mode # drop 12 msg"
    using assms(1) by (simp add: Cons_nth_drop_Suc [symmetric])
  then have one: "drop 11 (take 12 (msg[11 := mode])) = [mode]" by (simp add: drop_take)
  have "drop 11 req = mode # take 2 (drop 12 msg) @ replicate 8 0 @ nonce @ key @ sig"
    using assms(1,3,4,5) one unfolding pay m by simp
  moreover have "length req = 64" using len assms(2) by (simp add: req length_finalize)
  then have "drop 11 req = req ! 11 # drop 12 req" using Cons_nth_drop_Suc [of 11 req] by simp
  ultimately have d: "req ! 11 = mode" "drop 12 req = take 2 (drop 12 msg) @ replicate 8 0 @ nonce @ key @ sig"
    by simp_all
  have tail: "drop (12 + k) req = drop k (take 2 (drop 12 msg) @ replicate 8 0 @ nonce @ key @ sig)" for k
    using d(2) by (metis add.commute drop_drop)
  have view: "ownership_unlock_req_of req = \<lparr>ureq_unlock_mode = mode, ureq_din = take 2 (drop 12 msg),
      ureq_reserved = replicate 8 0, ureq_nonce = nonce, ureq_next_owner_key = key, ureq_signature = sig\<rparr>"
    using tail [of 0] tail [of 2] tail [of 10] tail [of 12] tail [of 36] d(1) assms(1,3-5)
    by (simp add: ownership_unlock_req_of_def)
  have "boot_svc_header_check sha req = kErrorOk_value"
    unfolding req by (rule finalize_check) (use len assms(2) in simp_all)
  moreover have "hdr_type (svc_header req) = kBootSvcOwnershipUnlockReqType"
    using len assms(2) by (simp add: req svc_header_def nth_finalize)
  moreover have "boot_svc_header_check sha req' = kErrorOk_value \<longleftrightarrow>
       44 \<le> hdr_length (svc_header req') \<and> hdr_length (svc_header req') \<le> 256 \<and>
       xor_sum ((!) (hdr_digest (svc_header req'))) [0..<8] XOR hdr_identifier (svc_header req') =
       xor_sum ((!) (boot_svc_header_digest_compute sha req')) [0..<8] XOR kBootSvcIdentifier" for req'
    by (auto simp: boot_svc_header_check_eq kErrorBootSvcBadHeader_def ownership_errors)
  ultimately show ?thesis using view by simp
qed

theorem unlock_request_roundtrip_witness:
  "boot_svc_header_check (\<lambda>bs. replicate 8 (of_nat (length bs)))
     (boot_svc_ownership_unlock_req_init (\<lambda>bs. replicate 8 (of_nat (length bs)))
       kBootSvcUnlockAny [3, 4] (replicate 24 0) (replicate 16 9) (replicate 64 1)) = kErrorOk_value \<and>
   ureq_din (ownership_unlock_req_of (boot_svc_ownership_unlock_req_init (\<lambda>bs. replicate 8 (of_nat (length bs)))
       kBootSvcUnlockAny [3, 4] (replicate 24 0) (replicate 16 9) (replicate 64 1))) = [1, 1]"
  using unlock_request_roundtrip [of "replicate 64 1" "\<lambda>bs. replicate 8 (of_nat (length bs))" "[3, 4]"
      "replicate 24 0" "replicate 16 9" kBootSvcUnlockAny]
  by (simp add: numeral_eq_Suc)

end
