(* ===== verification/Ownership_Svc.thy ===== *)
theory Ownership_Svc
  imports Ownership_Key Owner_Config Boot_Svc
begin

unbundle bit_operations_syntax

text \<open>
  Changing the owner: \<open>ownership/ownership_unlock.c\<close>, \<open>ownership/ownership_activate.c\<close> and the two tests
  of \<open>owner_block.c\<close> on the owner pages. A request comes as a message of 64 words (\<open>Boot_Svc\<close>); the state is
  the boot data, the two owner pages in RAM with the status of each, and the hardware. The handlers
  return the error, the message with the response, and the new state. None is a hardened trap or a
  search for a detached signature that never ends.
\<close>

section \<open>Owner pages\<close>

record 'h owner_state =
  owner_page :: "nat \<Rightarrow> owner_block"
  owner_page_valid :: "nat \<Rightarrow> u32"
  hw :: 'h

text \<open>A page whose copy in RAM was destroyed: every word is \<open>w\<close>.\<close>

definition destroyed_page :: "u32 \<Rightarrow> owner_block" where
  "destroyed_page w = ob_of_words (replicate 512 w)"

definition owner_block_newversion_mode :: "('h, 'm) owner_state_scheme \<Rightarrow> u32" where
  "owner_block_newversion_mode s =
     (if owner_page_valid s 0 = kOwnerPageStatusSealed \<and>
         (ob_update_mode (owner_page s 0) = kOwnershipUpdateModeNewVersion \<or>
          ob_update_mode (owner_page s 0) = kOwnershipUpdateModeSelfVersion)
      then kHardenedBoolTrue else kHardenedBoolFalse)"

definition owner_block_page1_valid_for_transfer ::
  "('h, 'm) own_hw_scheme \<Rightarrow> boot_data \<Rightarrow> 'h owner_state \<Rightarrow> (u32 \<times> 'h owner_state) option" where
  "owner_block_page1_valid_for_transfer H bootdata s =
     (if bd_ownership_state bootdata = kOwnershipStateLockedOwner \<and> owner_page_valid s 1 = kOwnerPageStatusSealed
      then Some (kHardenedBoolTrue, s)
      else if owner_page_valid s 1 = kOwnerPageStatusSigned then
        if bd_ownership_state bootdata = kOwnershipStateUnlockedAny then Some (kHardenedBoolTrue, s)
        else if bd_ownership_state bootdata = kOwnershipStateUnlockedSelf then do {
          (eq, h) \<leftarrow> hardened_memeq (rnd_uint32 H) (ob_owner_key (owner_page s 0)) (ob_owner_key (owner_page s 1)) 24 (hw s);
          Some (if eq = kHardenedBoolTrue then kHardenedBoolTrue else kHardenedBoolFalse, s\<lparr>hw := h\<rparr>) }
        else if bd_ownership_state bootdata = kOwnershipStateUnlockedEndorsed then do {
          (eq, h) \<leftarrow> hardened_memeq (rnd_uint32 H) (bd_next_owner bootdata)
            (hmac_sha256 H (ob_owner_key (owner_page s 1))) 8 (hw s);
          Some (if eq = kHardenedBoolTrue then kHardenedBoolTrue else kHardenedBoolFalse, s\<lparr>hw := h\<rparr>) }
        else Some (kHardenedBoolFalse, s)
      else Some (kHardenedBoolFalse, s))"

section \<open>Unlock\<close>

definition is_locked_none :: "u32 \<Rightarrow> u32" where
  "is_locked_none ownership_state =
     (if ownership_state = kOwnershipStateLockedOwner \<or> ownership_state = kOwnershipStateUnlockedSelf \<or>
         ownership_state = kOwnershipStateUnlockedAny \<or> ownership_state = kOwnershipStateUnlockedEndorsed
      then kHardenedBoolFalse else kHardenedBoolTrue)"

definition do_unlock ::
  "('h, 'm) own_hw_scheme \<Rightarrow> u32 list \<Rightarrow> boot_data \<Rightarrow> 'h \<Rightarrow> u32 \<times> boot_data \<times> 'h" where
  "do_unlock H msg bootdata h =
     (let req = ownership_unlock_req_of msg in
      if \<not> nonce_equal (ureq_nonce req) (bd_nonce bootdata) then (kErrorOwnershipInvalidNonce, bootdata, h)
      else if lifecycle_din_eq (device_id H h) (ureq_din req) \<noteq> kHardenedBoolTrue
      then (kErrorOwnershipInvalidDin, bootdata, h)
      else let unlocked = (\<lambda>bootdata. case nonce_new H h of (nonce, h) \<Rightarrow>
             (kErrorWriteBootdataThenReboot, bootdata\<lparr>bd_nonce := nonce\<rparr>, h))
      in if ureq_unlock_mode req = kBootSvcUnlockEndorsed then
           unlocked (bootdata\<lparr>bd_next_owner := hmac_sha256 H (ureq_next_owner_key req),
                              bd_ownership_state := kOwnershipStateUnlockedEndorsed\<rparr>)
         else if ureq_unlock_mode req = kBootSvcUnlockAny then
           unlocked (bootdata\<lparr>bd_ownership_state := kOwnershipStateUnlockedAny\<rparr>)
         else if ureq_unlock_mode req = kBootSvcUnlockUpdate then
           unlocked (bootdata\<lparr>bd_ownership_state := kOwnershipStateUnlockedSelf\<rparr>)
         else (kErrorOwnershipInvalidMode, bootdata, h))"

text \<open>The signed part of a request: from the mode to the key, 37 words.\<close>

definition request_payload :: "u32 list \<Rightarrow> u32 list" where
  "request_payload msg = take 37 (drop 11 msg)"

definition validate_request ::
  "('h, 'm) own_hw_scheme \<Rightarrow> 'h owner_state \<Rightarrow> nat \<Rightarrow> u32 \<Rightarrow> u32 list \<Rightarrow> boot_data \<Rightarrow> (u32 \<times> 'h owner_state) option" where
  "validate_request H s page key msg bootdata = do {
     (e, h) \<leftarrow> ownership_key_validate H (owner_page s) page key (hdr_type (svc_header msg)) (bd_nonce bootdata)
       (ureq_signature (ownership_unlock_req_of msg)) (request_payload msg) (hw s);
     Some (e, s\<lparr>hw := h\<rparr>) }"

definition unlock ::
  "('h, 'm) own_hw_scheme \<Rightarrow> u32 list \<Rightarrow> boot_data \<Rightarrow> 'h owner_state \<Rightarrow> (u32 \<times> boot_data \<times> 'h owner_state) option" where
  "unlock H msg bootdata s =
     (let checked = (\<lambda>key. do {
            (e, s) \<leftarrow> validate_request H s 0 key msg bootdata;
            if e \<noteq> kErrorOk_value then Some (e, bootdata, s)
            else case do_unlock H msg bootdata (hw s) of (e, bootdata, h) \<Rightarrow> Some (e, bootdata, s\<lparr>hw := h\<rparr>) })
      in if bd_ownership_state bootdata = kOwnershipStateLockedOwner then
           if ob_update_mode (owner_page s 0) = kOwnershipUpdateModeOpen then
             checked (kOwnershipKeyUnlock OR kOwnershipKeyRecovery)
           else if ob_update_mode (owner_page s 0) = kOwnershipUpdateModeNewVersion
           then Some (kErrorOwnershipUnlockDenied, bootdata, s)
           else Some (kErrorOwnershipInvalidMode, bootdata, s)
         else if is_locked_none (bd_ownership_state bootdata) = kHardenedBoolTrue then checked kOwnershipKeyRecovery
         else Some (kErrorOwnershipInvalidState, bootdata, s))"

definition unlock_update ::
  "('h, 'm) own_hw_scheme \<Rightarrow> u32 list \<Rightarrow> boot_data \<Rightarrow> 'h owner_state \<Rightarrow> (u32 \<times> boot_data \<times> 'h owner_state) option" where
  "unlock_update H msg bootdata s =
     (if bd_ownership_state bootdata = kOwnershipStateLockedOwner then
        if ob_update_mode (owner_page s 0) = kOwnershipUpdateModeNewVersion
        then Some (kErrorOwnershipUnlockDenied, bootdata, s)
        else do {
          (e, s) \<leftarrow> validate_request H s 0 kOwnershipKeyUnlock msg bootdata;
          if e \<noteq> kErrorOk_value then Some (e, bootdata, s)
          else case do_unlock H msg bootdata (hw s) of (e, bootdata, h) \<Rightarrow> Some (e, bootdata, s\<lparr>hw := h\<rparr>) }
      else Some (kErrorOwnershipInvalidState, bootdata, s))"

definition unlock_abort ::
  "('h, 'm) own_hw_scheme \<Rightarrow> u32 list \<Rightarrow> boot_data \<Rightarrow> 'h owner_state \<Rightarrow> (u32 \<times> boot_data \<times> 'h owner_state) option" where
  "unlock_abort H msg bootdata s =
     (if bd_ownership_state bootdata = kOwnershipStateUnlockedEndorsed \<or>
         bd_ownership_state bootdata = kOwnershipStateUnlockedAny \<or>
         bd_ownership_state bootdata = kOwnershipStateUnlockedSelf then do {
        (e, s) \<leftarrow> validate_request H s 0 kOwnershipKeyUnlock msg bootdata;
        if e \<noteq> kErrorOk_value then Some (e, bootdata, s)
        else let req = ownership_unlock_req_of msg in
          if \<not> nonce_equal (ureq_nonce req) (bd_nonce bootdata) then Some (kErrorOwnershipInvalidNonce, bootdata, s)
          else if lifecycle_din_eq (device_id H (hw s)) (ureq_din req) \<noteq> kHardenedBoolTrue
          then Some (kErrorOwnershipInvalidDin, bootdata, s)
          else case nonce_new H (hw s) of (nonce, h) \<Rightarrow>
            Some (kErrorWriteBootdataThenReboot,
              bootdata\<lparr>bd_ownership_state := kOwnershipStateLockedOwner, bd_nonce := nonce\<rparr>, s\<lparr>hw := h\<rparr>) }
      else Some (kErrorOwnershipInvalidState, bootdata, s))"

text \<open>The status of a response: a reboot that is asked for counts as success.\<close>

definition response_status :: "u32 \<Rightarrow> u32" where
  "response_status error = (if error = kErrorWriteBootdataThenReboot then kErrorOk_value else error)"

definition ownership_unlock_handler ::
  "('h, 'm) own_hw_scheme \<Rightarrow> u32 list \<Rightarrow> boot_data \<Rightarrow> 'h owner_state \<Rightarrow>
     (u32 \<times> u32 list \<times> boot_data \<times> 'h owner_state) option" where
  "ownership_unlock_handler H msg bootdata s = do {
     let unlock_mode = ureq_unlock_mode (ownership_unlock_req_of msg);
     (error, bootdata, s) \<leftarrow>
       (if unlock_mode = kBootSvcUnlockAny then unlock H msg bootdata s
        else if unlock_mode = kBootSvcUnlockEndorsed then unlock H msg bootdata s
        else if unlock_mode = kBootSvcUnlockUpdate then unlock_update H msg bootdata s
        else if unlock_mode = kBootSvcUnlockAbort then unlock_abort H msg bootdata s
        else Some (kErrorOwnershipInvalidRequest, bootdata, s));
     Some (error, boot_svc_ownership_unlock_res_init (sha256_bytes H) (response_status error) msg, bootdata, s) }"

section \<open>Activate\<close>

text \<open>The sealed page 1 is written to its slot, and to the one of page 0 if the caller asks for it.\<close>

definition program_slot ::
  "('h, 'm) own_hw_scheme \<Rightarrow> flash_ctrl_info_page \<Rightarrow> owner_block \<Rightarrow> 'h \<Rightarrow> u32 \<times> 'h" where
  "program_slot H slot page h =
     (case info_erase_page H slot h of (e, h) \<Rightarrow>
      if e \<noteq> kErrorOk_value then (e, h)
      else case info_write H slot 0 (ob_words page) h of (e, h) \<Rightarrow>
      if e \<noteq> kErrorOk_value then (e, h) else (kErrorOk_value, h))"

definition ownership_activate ::
  "('h, 'm) own_hw_scheme \<Rightarrow> boot_data \<Rightarrow> bool \<Rightarrow> 'h owner_state \<Rightarrow> u32 \<times> boot_data \<times> 'h owner_state" where
  "ownership_activate H bootdata write_both_pages s =
     (let e = owner_block_check H (owner_page s 1) (hw s) in
      if e \<noteq> kErrorOk_value then (e, bootdata, s)
      else let (_, pages, h) = ownership_seal_page H (owner_page s) 1 (hw s);
               s = s\<lparr>owner_page := pages, hw := h\<rparr>;
               bootdata = (if ob_min_security_version_bl0 (owner_page s 1) \<noteq> 0xFFFFFFFF
                 then bootdata\<lparr>bd_min_security_version_bl0 := ob_min_security_version_bl0 (owner_page s 1)\<rparr>
                 else bootdata);
               (e, h) = program_slot H kFlashCtrlInfoPageOwnerSlot1 (owner_page s 1) (hw s)
      in if e \<noteq> kErrorOk_value then (e, bootdata, s\<lparr>hw := h\<rparr>)
      else if write_both_pages then
        (case program_slot H kFlashCtrlInfoPageOwnerSlot0 (owner_page s 1) h of (e, h) \<Rightarrow> (e, bootdata, s\<lparr>hw := h\<rparr>))
      else (kErrorOk_value, bootdata, s\<lparr>hw := h\<rparr>))"

text \<open>Every activation but the one of the same owner replaces the owner's secret and counts as a transfer.\<close>

definition transfer_secret ::
  "('h, 'm) own_hw_scheme \<Rightarrow> u32 \<Rightarrow> u32 list \<Rightarrow> boot_data \<Rightarrow> 'h owner_state \<Rightarrow> (u32 \<times> boot_data \<times> 'h owner_state) option" where
  "transfer_secret H prior_key_alg prior_owner_key bootdata s =
     (if bd_ownership_state bootdata = kOwnershipStateUnlockedSelf then Some (kErrorOk_value, bootdata, s)
      else do {
        (e, h) \<leftarrow> ownership_secret_new H prior_key_alg prior_owner_key (hw s);
        if e \<noteq> kErrorOk_value then Some (e, bootdata, s\<lparr>hw := h\<rparr>)
        else Some (kErrorOk_value, bootdata\<lparr>bd_ownership_transfers := bd_ownership_transfers bootdata + 1\<rparr>,
          s\<lparr>hw := h\<rparr>) })"

text \<open>The handler after its checks.\<close>

definition activate_page1 ::
  "('h, 'm) own_hw_scheme \<Rightarrow> ownership_activate_req \<Rightarrow> boot_data \<Rightarrow> 'h owner_state \<Rightarrow> (u32 \<times> boot_data \<times> 'h owner_state) option" where
  "activate_page1 H req bootdata s = do {
     let prior_key_alg = ob_ownership_key_alg (owner_page s 0);
     let prior_owner_key = ob_owner_key (owner_page s 0);
     let (e, bootdata, s) = ownership_activate H bootdata True s;
     if e \<noteq> kErrorOk_value then Some (e, bootdata, s) else do {
     let bootdata = bootdata\<lparr>bd_primary_bl0_slot :=
       (if areq_primary_bl0_slot req = kBootSlotB then kBootSlotB else kBootSlotA)\<rparr>;
     (e, bootdata, s) \<leftarrow> transfer_secret H prior_key_alg prior_owner_key bootdata s;
     if e \<noteq> kErrorOk_value then Some (e, bootdata, s) else do {
     let (nonce, h) = nonce_new H (hw s);
     Some (kErrorWriteBootdataThenReboot,
       bootdata\<lparr>bd_nonce := nonce, bd_ownership_state := kOwnershipStateLockedOwner,
         bd_next_owner := replicate 8 0\<rparr>, s\<lparr>hw := h\<rparr>) } } }"

definition activate_handler ::
  "('h, 'm) own_hw_scheme \<Rightarrow> u32 list \<Rightarrow> boot_data \<Rightarrow> 'h owner_state \<Rightarrow> (u32 \<times> boot_data \<times> 'h owner_state) option" where
  "activate_handler H msg bootdata s = do {
     (valid, s) \<leftarrow> owner_block_page1_valid_for_transfer H bootdata s;
     if valid \<noteq> kHardenedBoolTrue then Some (kErrorOwnershipInvalidInfoPage, bootdata, s) else do {
     (e, s) \<leftarrow> validate_request H s 1 kOwnershipKeyActivate msg bootdata;
     let req = ownership_activate_req_of msg;
     if e \<noteq> kErrorOk_value then Some (e, bootdata, s)
     else if \<not> nonce_equal (areq_nonce req) (bd_nonce bootdata) then Some (kErrorOwnershipInvalidNonce, bootdata, s)
     else if lifecycle_din_eq (device_id H (hw s)) (areq_din req) \<noteq> kHardenedBoolTrue
     then Some (kErrorOwnershipInvalidDin, bootdata, s)
     else activate_page1 H req bootdata s } }"

definition ownership_activate_handler ::
  "('h, 'm) own_hw_scheme \<Rightarrow> u32 list \<Rightarrow> boot_data \<Rightarrow> 'h owner_state \<Rightarrow>
     (u32 \<times> u32 list \<times> boot_data \<times> 'h owner_state) option" where
  "ownership_activate_handler H msg bootdata s = do {
     (error, bootdata, s) \<leftarrow>
       (if bd_ownership_state bootdata = kOwnershipStateUnlockedSelf \<or>
           bd_ownership_state bootdata = kOwnershipStateUnlockedAny \<or>
           bd_ownership_state bootdata = kOwnershipStateUnlockedEndorsed
        then activate_handler H msg bootdata s
        else Some (kErrorOwnershipInvalidState, bootdata, s));
     Some (error, boot_svc_ownership_activate_res_init (sha256_bytes H) (response_status error) msg, bootdata, s) }"

section \<open>The state machine of an unlock\<close>

text \<open>
  The keys that may authorise a request, by the update mode of page 0, the mode of the request and the
  ownership state; None where the request is refused. The state a request asks for.
\<close>

definition unlock_keys :: "u32 \<Rightarrow> u32 \<Rightarrow> u32 \<Rightarrow> u32 option" where
  "unlock_keys update_mode unlock_mode state =
     (if unlock_mode = kBootSvcUnlockAny \<or> unlock_mode = kBootSvcUnlockEndorsed then
        if state = kOwnershipStateLockedOwner then
          if update_mode = kOwnershipUpdateModeOpen then Some (kOwnershipKeyUnlock OR kOwnershipKeyRecovery) else None
        else if is_locked_none state = kHardenedBoolTrue then Some kOwnershipKeyRecovery else None
      else if unlock_mode = kBootSvcUnlockUpdate then
        if state = kOwnershipStateLockedOwner \<and> update_mode \<noteq> kOwnershipUpdateModeNewVersion
        then Some kOwnershipKeyUnlock else None
      else if unlock_mode = kBootSvcUnlockAbort then
        if state \<in> {kOwnershipStateUnlockedEndorsed, kOwnershipStateUnlockedAny, kOwnershipStateUnlockedSelf}
        then Some kOwnershipKeyUnlock else None
      else None)"

definition unlocked_boot_data :: "('h, 'm) own_hw_scheme \<Rightarrow> ownership_unlock_req \<Rightarrow> u32 list \<Rightarrow> boot_data \<Rightarrow> boot_data" where
  "unlocked_boot_data H req nonce bootdata =
     bootdata\<lparr>bd_nonce := nonce,
       bd_next_owner := (if ureq_unlock_mode req = kBootSvcUnlockEndorsed then hmac_sha256 H (ureq_next_owner_key req)
                         else bd_next_owner bootdata),
       bd_ownership_state :=
         (if ureq_unlock_mode req = kBootSvcUnlockAny then kOwnershipStateUnlockedAny
          else if ureq_unlock_mode req = kBootSvcUnlockEndorsed then kOwnershipStateUnlockedEndorsed
          else if ureq_unlock_mode req = kBootSvcUnlockUpdate then kOwnershipStateUnlockedSelf
          else kOwnershipStateLockedOwner)\<rparr>"

text \<open>What every mode does after the signature is checked: nonce and device, then the new state.\<close>

definition grant ::
  "('h, 'm) own_hw_scheme \<Rightarrow> ownership_unlock_req \<Rightarrow> boot_data \<Rightarrow> 'h owner_state \<Rightarrow> u32 \<times> boot_data \<times> 'h owner_state" where
  "grant H req bootdata s =
     (if \<not> nonce_equal (ureq_nonce req) (bd_nonce bootdata) then (kErrorOwnershipInvalidNonce, bootdata, s)
      else if lifecycle_din_eq (device_id H (hw s)) (ureq_din req) \<noteq> kHardenedBoolTrue
      then (kErrorOwnershipInvalidDin, bootdata, s)
      else (kErrorWriteBootdataThenReboot, unlocked_boot_data H req (fst (nonce_new H (hw s))) bootdata,
            s\<lparr>hw := snd (nonce_new H (hw s))\<rparr>))"

definition granted ::
  "('h, 'm) own_hw_scheme \<Rightarrow> u32 \<Rightarrow> u32 list \<Rightarrow> boot_data \<Rightarrow> 'h owner_state \<Rightarrow> (u32 \<times> boot_data \<times> 'h owner_state) option" where
  "granted H key msg bootdata s = do {
     (e, s) \<leftarrow> validate_request H s 0 key msg bootdata;
     if e \<noteq> kErrorOk_value then Some (e, bootdata, s)
     else Some (grant H (ownership_unlock_req_of msg) bootdata s) }"

lemma unlock_modes_distinct:
  "distinct [kBootSvcUnlockAny, kBootSvcUnlockEndorsed, kBootSvcUnlockUpdate, kBootSvcUnlockAbort]"
  "distinct (rev [kBootSvcUnlockAny, kBootSvcUnlockEndorsed, kBootSvcUnlockUpdate, kBootSvcUnlockAbort])"
  by (simp_all add: kBootSvcUnlockAny_def kBootSvcUnlockEndorsed_def kBootSvcUnlockUpdate_def kBootSvcUnlockAbort_def)

lemmas unlock_modes_neq = unlock_modes_distinct [simplified]

lemma do_unlock_grant:
  assumes "ureq_unlock_mode (ownership_unlock_req_of msg) \<in> {kBootSvcUnlockAny, kBootSvcUnlockEndorsed, kBootSvcUnlockUpdate}"
  shows "(case do_unlock H msg bootdata (hw s) of (e, bootdata, h) \<Rightarrow> Some (e, bootdata, s\<lparr>hw := h\<rparr>)) =
     Some (grant H (ownership_unlock_req_of msg) bootdata s)"
proof -
  obtain nonce h where n: "nonce_new H (hw s) = (nonce, h)" by (rule prod.exhaust)
  show ?thesis
    using assms n unlock_modes_neq
    by (auto simp: do_unlock_def grant_def unlocked_boot_data_def Let_def)
qed

lemma granted_checked:
  assumes "ureq_unlock_mode (ownership_unlock_req_of msg) \<in> {kBootSvcUnlockAny, kBootSvcUnlockEndorsed, kBootSvcUnlockUpdate}"
  shows "do { (e, s) \<leftarrow> validate_request H s 0 key msg bootdata;
       if e \<noteq> kErrorOk_value then Some (e, bootdata, s)
       else case do_unlock H msg bootdata (hw s) of (e, bootdata, h) \<Rightarrow> Some (e, bootdata, s\<lparr>hw := h\<rparr>) } =
     granted H key msg bootdata s"
proof (cases "validate_request H s 0 key msg bootdata")
  case (Some r)
  then show ?thesis by (cases r) (simp add: granted_def do_unlock_grant [OF assms])
qed (simp add: granted_def)

lemma unlock_denied_not_ok:
  "kErrorOwnershipUnlockDenied \<noteq> kErrorWriteBootdataThenReboot"
  "kErrorOwnershipInvalidMode \<noteq> kErrorWriteBootdataThenReboot"
  "kErrorOwnershipInvalidState \<noteq> kErrorWriteBootdataThenReboot"
  "kErrorOwnershipInvalidRequest \<noteq> kErrorWriteBootdataThenReboot"
  "kErrorOwnershipInvalidNonce \<noteq> kErrorWriteBootdataThenReboot"
  "kErrorOwnershipInvalidDin \<noteq> kErrorWriteBootdataThenReboot"
  "kErrorOwnershipInvalidAlgorithm \<noteq> kErrorWriteBootdataThenReboot"
  "kErrorOwnershipSignatureNotFound \<noteq> kErrorWriteBootdataThenReboot"
  "kErrorOwnershipInvalidSignature \<noteq> kErrorWriteBootdataThenReboot"
  by code_simp+

lemma update_modes_distinct: "kOwnershipUpdateModeOpen \<noteq> kOwnershipUpdateModeNewVersion"
  by (simp add: update_modes)

text \<open>The handler is the table and one way to grant a request.\<close>

lemma abort_granted:
  assumes "ureq_unlock_mode (ownership_unlock_req_of msg) = kBootSvcUnlockAbort"
    "bd_ownership_state bootdata \<in> {kOwnershipStateUnlockedEndorsed, kOwnershipStateUnlockedAny, kOwnershipStateUnlockedSelf}"
  shows "unlock_abort H msg bootdata s = granted H kOwnershipKeyUnlock msg bootdata s"
proof (cases "validate_request H s 0 kOwnershipKeyUnlock msg bootdata")
  case (Some r)
  then show ?thesis
    using assms unlock_modes_neq
    by (cases r) (auto simp: unlock_abort_def granted_def grant_def unlocked_boot_data_def Let_def case_prod_unfold)
qed (use assms in \<open>auto simp: unlock_abort_def granted_def\<close>)

lemma unlock_handler_table:
  "\<exists>denied. denied \<noteq> kErrorWriteBootdataThenReboot \<and>
     ownership_unlock_handler H msg bootdata s = do {
       (error, bootdata, s) \<leftarrow>
         (case unlock_keys (ob_update_mode (owner_page s 0)) (ureq_unlock_mode (ownership_unlock_req_of msg))
            (bd_ownership_state bootdata) of
            None \<Rightarrow> Some (denied, bootdata, s)
          | Some key \<Rightarrow> granted H key msg bootdata s);
       Some (error, boot_svc_ownership_unlock_res_init (sha256_bytes H) (response_status error) msg, bootdata, s) }"
proof -
  let ?mode = "ureq_unlock_mode (ownership_unlock_req_of msg)"
  let ?um = "ob_update_mode (owner_page s 0)" and ?st = "bd_ownership_state bootdata"
  have any: "\<exists>denied. denied \<noteq> kErrorWriteBootdataThenReboot \<and> unlock H msg bootdata s =
      (case unlock_keys ?um ?mode ?st of None \<Rightarrow> Some (denied, bootdata, s) | Some key \<Rightarrow> granted H key msg bootdata s)"
    if "?mode \<in> {kBootSvcUnlockAny, kBootSvcUnlockEndorsed}"
    using that granted_checked [of msg H _ _ bootdata] unlock_denied_not_ok update_modes_distinct
    by (auto simp: unlock_def unlock_keys_def Let_def)
  have upd: "\<exists>denied. denied \<noteq> kErrorWriteBootdataThenReboot \<and> unlock_update H msg bootdata s =
      (case unlock_keys ?um ?mode ?st of None \<Rightarrow> Some (denied, bootdata, s) | Some key \<Rightarrow> granted H key msg bootdata s)"
    if "?mode = kBootSvcUnlockUpdate"
    using that granted_checked [of msg H _ _ bootdata] unlock_denied_not_ok unlock_modes_neq
    by (auto simp: unlock_update_def unlock_keys_def Let_def)
  have abt: "\<exists>denied. denied \<noteq> kErrorWriteBootdataThenReboot \<and> unlock_abort H msg bootdata s =
      (case unlock_keys ?um ?mode ?st of None \<Rightarrow> Some (denied, bootdata, s) | Some key \<Rightarrow> granted H key msg bootdata s)"
    if "?mode = kBootSvcUnlockAbort"
  proof (cases "?st \<in> {kOwnershipStateUnlockedEndorsed, kOwnershipStateUnlockedAny, kOwnershipStateUnlockedSelf}")
    case True
    then show ?thesis
      using abort_granted [OF that True] that unlock_denied_not_ok unlock_modes_neq by (auto simp: unlock_keys_def)
  qed (use that unlock_denied_not_ok unlock_modes_neq in \<open>auto simp: unlock_abort_def unlock_keys_def\<close>)
  have other: "\<exists>denied. denied \<noteq> kErrorWriteBootdataThenReboot \<and> Some (kErrorOwnershipInvalidRequest, bootdata, s) =
      (case unlock_keys ?um ?mode ?st of None \<Rightarrow> Some (denied, bootdata, s) | Some key \<Rightarrow> granted H key msg bootdata s)"
    if "?mode \<notin> {kBootSvcUnlockAny, kBootSvcUnlockEndorsed, kBootSvcUnlockUpdate, kBootSvcUnlockAbort}"
    using that unlock_denied_not_ok by (auto simp: unlock_keys_def)
  consider "?mode \<in> {kBootSvcUnlockAny, kBootSvcUnlockEndorsed}" | "?mode = kBootSvcUnlockUpdate" | "?mode = kBootSvcUnlockAbort"
    | "?mode \<notin> {kBootSvcUnlockAny, kBootSvcUnlockEndorsed, kBootSvcUnlockUpdate, kBootSvcUnlockAbort}" by blast
  then show ?thesis
  proof cases
    case 1
    from any [OF 1] obtain denied where d: "denied \<noteq> kErrorWriteBootdataThenReboot" "unlock H msg bootdata s =
      (case unlock_keys ?um ?mode ?st of None \<Rightarrow> Some (denied, bootdata, s) | Some key \<Rightarrow> granted H key msg bootdata s)"
      by blast
    show ?thesis
      by (rule exI [of _ denied]) (use 1 d(1) in \<open>auto simp: ownership_unlock_handler_def Let_def d(2) [symmetric]\<close>)
  next
    case 2
    from upd [OF 2] obtain denied where d: "denied \<noteq> kErrorWriteBootdataThenReboot" "unlock_update H msg bootdata s =
      (case unlock_keys ?um ?mode ?st of None \<Rightarrow> Some (denied, bootdata, s) | Some key \<Rightarrow> granted H key msg bootdata s)"
      by blast
    show ?thesis
      by (rule exI [of _ denied]) (use 2 d(1) unlock_modes_neq in \<open>auto simp: ownership_unlock_handler_def Let_def d(2)\<close>)
  next
    case 3
    from abt [OF 3] obtain denied where d: "denied \<noteq> kErrorWriteBootdataThenReboot" "unlock_abort H msg bootdata s =
      (case unlock_keys ?um ?mode ?st of None \<Rightarrow> Some (denied, bootdata, s) | Some key \<Rightarrow> granted H key msg bootdata s)"
      by blast
    show ?thesis
      by (rule exI [of _ denied]) (use 3 d(1) unlock_modes_neq in \<open>auto simp: ownership_unlock_handler_def Let_def d(2)\<close>)
  next
    case 4
    from other [OF 4] obtain denied where d: "denied \<noteq> kErrorWriteBootdataThenReboot"
      "Some (kErrorOwnershipInvalidRequest, bootdata, s) =
      (case unlock_keys ?um ?mode ?st of None \<Rightarrow> Some (denied, bootdata, s) | Some key \<Rightarrow> granted H key msg bootdata s)"
      by blast
    show ?thesis
      by (rule exI [of _ denied]) (use 4 d(1) in \<open>auto simp: ownership_unlock_handler_def Let_def d(2) [symmetric]\<close>)
  qed
qed

lemma validate_request_state:
  "validate_request H s page key msg bootdata = Some (e, s') \<Longrightarrow>
     owner_page s' = owner_page s \<and> owner_page_valid s' = owner_page_valid s"
  by (auto simp: validate_request_def split: bind_splits)

lemma request_signature_length: "length msg = 64 \<Longrightarrow> length (ureq_signature (ownership_unlock_req_of msg)) = 16"
  by (simp add: ownership_unlock_req_of_def)

lemma validate_request_result:
  assumes "verify_lengths H" "keys_ok H (owner_page s page)" "length msg = 64"
    "validate_request H s page key msg bootdata = Some (e, s')"
  shows "e \<noteq> kErrorWriteBootdataThenReboot \<and>
     (e = kErrorOk_value \<longrightarrow> authorised H (owner_page s page) (set (candidate_keys H (owner_page s page) key)) (hdr_type (svc_header msg)) (bd_nonce bootdata)
        (ureq_signature (ownership_unlock_req_of msg)) (request_payload msg) (hw s))"
proof -
  from assms(4) obtain h where v: "ownership_key_validate H (owner_page s) page key (hdr_type (svc_header msg)) (bd_nonce bootdata)
       (ureq_signature (ownership_unlock_req_of msg)) (request_payload msg) (hw s) = Some (e, h)"
    by (auto simp: validate_request_def split: bind_splits)
  have "kErrorOk_value \<noteq> kErrorWriteBootdataThenReboot" by code_simp
  with ownership_key_validate_result [OF assms(1,2) request_signature_length [OF assms(3)] v] unlock_denied_not_ok
  show ?thesis by auto
qed

lemma granted_result:
  assumes "verify_lengths H" "keys_ok H (owner_page s 0)" "length msg = 64"
    "granted H key msg bootdata s = Some (error, bootdata', s')"
  shows "owner_page s' = owner_page s \<and> owner_page_valid s' = owner_page_valid s \<and>
    (error \<noteq> kErrorWriteBootdataThenReboot \<and> bootdata' = bootdata \<or>
     error = kErrorWriteBootdataThenReboot \<and>
     authorised H (owner_page s 0) (set (candidate_keys H (owner_page s 0) key)) (hdr_type (svc_header msg)) (bd_nonce bootdata)
       (ureq_signature (ownership_unlock_req_of msg)) (request_payload msg) (hw s) \<and>
     nonce_equal (ureq_nonce (ownership_unlock_req_of msg)) (bd_nonce bootdata) \<and>
     (\<exists>h1. lifecycle_din_eq (device_id H h1) (ureq_din (ownership_unlock_req_of msg)) = kHardenedBoolTrue \<and>
        bootdata' = unlocked_boot_data H (ownership_unlock_req_of msg) (fst (nonce_new H h1)) bootdata))"
proof -
  from assms(4) obtain e s1 where v: "validate_request H s 0 key msg bootdata = Some (e, s1)"
    and r: "(if e \<noteq> kErrorOk_value then Some (e, bootdata, s1)
       else Some (grant H (ownership_unlock_req_of msg) bootdata s1)) = Some (error, bootdata', s')"
    by (auto simp: granted_def split: bind_splits)
  note a = validate_request_result [OF assms(1-3) v] validate_request_state [OF v]
  show ?thesis
  proof (cases "e = kErrorOk_value")
    case True
    with r have "grant H (ownership_unlock_req_of msg) bootdata s1 = (error, bootdata', s')" by simp
    with a True unlock_denied_not_ok show ?thesis by (auto simp: grant_def split: if_splits)
  qed (use r a in auto)
qed

text \<open>
  Who may sign a request, as a table of its own: the keys of page 0 for the mode of the request, the
  ownership state and the update mode of the page; no key where the request is not admitted. The
  recovery key is the silicon creator's and may be absent.
\<close>

definition unlock_signers :: "('h, 'm) own_hw_scheme \<Rightarrow> owner_block \<Rightarrow> u32 \<Rightarrow> u32 \<Rightarrow> u32 list set" where
  "unlock_signers H page mode state =
     (let unlocked = {kOwnershipStateUnlockedSelf, kOwnershipStateUnlockedAny, kOwnershipStateUnlockedEndorsed};
          recovery = set_option (no_owner_recovery_key H)
      in if mode \<in> {kBootSvcUnlockAny, kBootSvcUnlockEndorsed} then
           if state = kOwnershipStateLockedOwner then
             if ob_update_mode page = kOwnershipUpdateModeOpen
             then {ob_unlock_key page, ob_owner_key page} \<union> recovery else {}
           else if state \<in> unlocked then {}
           else {ob_owner_key page} \<union> recovery
         else if mode = kBootSvcUnlockUpdate then
           if state = kOwnershipStateLockedOwner \<and> ob_update_mode page \<noteq> kOwnershipUpdateModeNewVersion
           then {ob_unlock_key page, ob_owner_key page} else {}
         else if mode = kBootSvcUnlockAbort then
           if state \<in> unlocked then {ob_unlock_key page, ob_owner_key page} else {}
         else {})"

lemma unlock_keys_signers:
  "unlock_keys (ob_update_mode page) mode state = Some key \<Longrightarrow>
     set (candidate_keys H page key) = unlock_signers H page mode state"
  using unlock_modes_neq
  by (auto simp: unlock_keys_def unlock_signers_def candidate_keys_def is_locked_none_def ownership_keys
      hardened_bools split: if_splits option.splits)

section \<open>Properties\<close>

text \<open>
  C30: Only an authorised request changes who owns the chip. The unlock handler changes the boot data only when
  one of the keys that \<open>unlock_signers\<close> names for the request's mode, the ownership state and the update
  mode of page 0 accepts its signature (in the message or detached), and nonce and device identifier
  match; the new boot data then has the state of the request, the endorsed key's digest and a fresh nonce,
  and nothing else changes. Every other request leaves the boot data as it was. The owner pages are never
  touched, also not by an abort (\<open>ownership.md\<close> says it copies page 0 to page 1).
\<close>

theorem unlock_authorised:
  fixes s :: "'h owner_state"
  assumes "verify_lengths H" "keys_ok H (owner_page s 0)" "length msg = 64"
    "ownership_unlock_handler H msg bootdata s = Some (error, msg', bootdata', s')"
  defines "req \<equiv> ownership_unlock_req_of msg" and "page \<equiv> owner_page s 0"
  shows "msg' = boot_svc_ownership_unlock_res_init (sha256_bytes H) (response_status error) msg \<and>
    owner_page s' = owner_page s \<and> owner_page_valid s' = owner_page_valid s \<and>
    (error \<noteq> kErrorWriteBootdataThenReboot \<and> bootdata' = bootdata \<or>
     error = kErrorWriteBootdataThenReboot \<and>
     authorised H page (unlock_signers H page (ureq_unlock_mode req) (bd_ownership_state bootdata))
       (hdr_type (svc_header msg)) (bd_nonce bootdata) (ureq_signature req) (request_payload msg) (hw s) \<and>
     (\<exists>h1. nonce_equal (ureq_nonce req) (bd_nonce bootdata) \<and>
        lifecycle_din_eq (device_id H h1) (ureq_din req) = kHardenedBoolTrue \<and>
        bootdata' = unlocked_boot_data H req (fst (nonce_new H h1)) bootdata))"
proof -
  let ?keys = "unlock_keys (ob_update_mode (owner_page s 0)) (ureq_unlock_mode req) (bd_ownership_state bootdata)"
  from unlock_handler_table [of H msg bootdata s] obtain denied where
    d: "denied \<noteq> kErrorWriteBootdataThenReboot" and
    run: "ownership_unlock_handler H msg bootdata s = do {
       (error, bootdata, s) \<leftarrow>
         (case ?keys of None \<Rightarrow> Some (denied, bootdata, s) | Some key \<Rightarrow> granted H key msg bootdata s);
       Some (error, boot_svc_ownership_unlock_res_init (sha256_bytes H) (response_status error) msg, bootdata, s) }"
    unfolding req_def by blast
  show ?thesis
  proof (cases ?keys)
    case None
    with run assms(4) d show ?thesis by auto
  next
    case (Some key)
    with run assms(4) have g: "granted H key msg bootdata s = Some (error, bootdata', s')"
      and m: "msg' = boot_svc_ownership_unlock_res_init (sha256_bytes H) (response_status error) msg"
      by (auto split: bind_splits)
    from granted_result [OF assms(1-3) g, unfolded unlock_keys_signers [OF Some [unfolded req_def], of H]] m
    show ?thesis unfolding req_def page_def by blast
  qed
qed

lemma destroyed_alg: "ob_ownership_key_alg (destroyed_page w) = w"
  by (simp add: destroyed_page_def ob_of_words_def)

lemma destroyed_source:
  assumes "w = 0x5a5a5a5a \<or> w = 0xffffffff" "signature_source H w command nonce signature h = Some source"
  shows "\<exists>e. source = Inl e"
proof -
  have "w AND kOwnershipKeyAlgCategoryMask \<notin>
      {kOwnershipKeyAlgCategoryEcdsa, kOwnershipKeyAlgCategorySpx, kOwnershipKeyAlgCategoryHybrid}"
    "w \<noteq> kOwnershipKeyAlgEcdsaP256"
    using assms(1) by (auto simp: key_algs)
  with assms(2) show ?thesis
    by (auto simp: signature_source_def Let_def split: if_splits bind_splits option.splits)
qed

text \<open>
  C35: A chip that lost its owner cannot be unlocked. In the recovery state, with page 0 destroyed (as
  \<open>owner_page_validity_check\<close> leaves it, or as \<open>ownership_init\<close> does after a failed read), every request is
  refused and changes nothing, whoever signed it: the algorithm for the recovery key is taken from the
  destroyed page, where it is none.
\<close>

theorem recovery_impossible:
  assumes "w = 0x5a5a5a5a \<or> w = 0xffffffff" "owner_page s 0 = destroyed_page w"
    "ownership_unlock_handler H msg bootdata s = Some (error, msg', bootdata', s')"
  shows "error \<noteq> kErrorWriteBootdataThenReboot \<and> bootdata' = bootdata"
proof -
  have denied_val: "e \<noteq> kErrorWriteBootdataThenReboot \<and> e \<noteq> kErrorOk_value"
    if "validate_request H s 0 key msg bootdata = Some (e, s1)" for key e s1
  proof -
    let ?alg = "ob_ownership_key_alg (owner_page s 0)"
    from that obtain source where src: "signature_source H ?alg (hdr_type (svc_header msg)) (bd_nonce bootdata)
        (ureq_signature (ownership_unlock_req_of msg)) (hw s) = Some source"
      and r: "(case source of Inl e \<Rightarrow> Some (e, hw s) | Inr (ecdsa, spx) \<Rightarrow> try_keys H ?alg ecdsa spx (request_payload msg)
          (hmac_sha256 H (request_payload msg)) (candidate_keys H (owner_page s 0) key) (hw s)) = Some (e, hw s1)"
      by (auto simp: validate_request_def ownership_key_validate_def split: bind_splits)
    have alg: "?alg = w" by (simp add: assms(2) destroyed_alg)
    from destroyed_source [OF assms(1) src [unfolded alg]] obtain e' where sl: "source = Inl e'" by blast
    from signature_source_errors [OF src [unfolded sl]] sl r unlock_denied_not_ok show ?thesis by auto
  qed
  have granted_val: "error \<noteq> kErrorWriteBootdataThenReboot \<and> bootdata' = bootdata"
    if "granted H key msg bootdata s = Some (error, bootdata', s')" for key
    using that denied_val by (auto simp: granted_def split: bind_splits if_splits)
  from unlock_handler_table [of H msg bootdata s] assms(3) granted_val show ?thesis
    by (auto split: bind_splits option.splits)
qed


section \<open>A chip and a request\<close>

text \<open>
  A chip whose OTBN accepts one signature, with the identifier 1, 2 and a random source that always gives 9;
  a locked owner whose update mode is \<open>w\<close>; a request with the mode \<open>m\<close> and that signature.
\<close>

definition demo_owner_hw :: "unit own_hw \<Rightarrow> unit own_hw" where
  "demo_owner_hw H = (demo_verifier H)\<lparr>chip := earlgrey, rnd_uint32 := (\<lambda>h. (9, h)),
     device_id := (\<lambda>h. [0, 1, 2, 0, 0, 0, 0, 0]), hmac_sha256 := (\<lambda>ws. replicate 8 (of_nat (length ws))),
     no_owner_recovery_key := None\<rparr>"

definition demo_request :: "u32 \<Rightarrow> u32 list" where
  "demo_request m = replicate 11 0 @ [m, 1, 2] @ replicate 8 0 @ [3, 4] @ replicate 24 0 @ replicate 16 5"

definition demo_boot_data :: "u32 \<Rightarrow> boot_data" where
  "demo_boot_data state = (bd_of_words (replicate 32 0))\<lparr>bd_nonce := [3, 4], bd_ownership_state := state\<rparr>"

definition demo_owner_state :: "owner_block \<Rightarrow> unit owner_state" where
  "demo_owner_state page = \<lparr>owner_page = (\<lambda>_. page), owner_page_valid = (\<lambda>_. kOwnerPageStatusSealed), hw = ()\<rparr>"

lemma demo_request_view:
  "ownership_unlock_req_of (demo_request m) = \<lparr>ureq_unlock_mode = m, ureq_din = [1, 2], ureq_reserved = replicate 8 0,
     ureq_nonce = [3, 4], ureq_next_owner_key = replicate 24 0, ureq_signature = replicate 16 5\<rparr>"
  by (simp add: ownership_unlock_req_of_def demo_request_def numeral_eq_Suc)

lemma demo_lengths: "verify_lengths (demo_owner_hw H)"
  by (simp add: verify_lengths_def demo_owner_hw_def demo_verifier_def)

lemma demo_accepts:
  "key_accepts (demo_owner_hw H) kOwnershipKeyAlgEcdsaP256 key (Some (replicate 16 5)) None [] [] m d h"
proof -
  have "alg_category kOwnershipKeyAlgEcdsaP256 = kOwnershipKeyAlgCategoryEcdsa" by code_simp
  then show ?thesis
    using categories_distinct
    by (simp add: key_accepts_def after_ecdsa_start_def ecdsa_finish_ok_def Let_def demo_owner_hw_def demo_verifier_def)
qed

lemma demo_try_keys:
  "length k = 24 \<Longrightarrow>
     try_keys (demo_owner_hw H) kOwnershipKeyAlgEcdsaP256 (Some (replicate 16 5)) None message digest (k # keys) h =
       Some (kErrorOk_value, ())"
  using owner_verify_accept [OF demo_lengths, of k "Some (replicate 16 5)" H kOwnershipKeyAlgEcdsaP256 None "[]" "[]"
      "words_bytes message" digest h] demo_accepts [of H k "words_bytes message" digest h]
  by auto

definition open_block :: owner_block where
  "open_block = demo_block\<lparr>ob_update_mode := kOwnershipUpdateModeOpen\<rparr>"

lemma open_block_keys:
  "ob_ownership_key_alg open_block = kOwnershipKeyAlgEcdsaP256" "length (ob_unlock_key open_block) = 24"
  "length (ob_activate_key open_block) = 24" "length (ob_owner_key open_block) = 24"
  "ob_update_mode open_block = kOwnershipUpdateModeOpen"
  by (simp_all add: open_block_def demo_block_def)

lemma demo_signature: "\<not> is_signature_empty (replicate 16 5)" "take 16 (replicate 16 (5 :: u32)) = replicate 16 5"
  by code_simp+

lemma demo_source:
  "signature_source H kOwnershipKeyAlgEcdsaP256 command nonce (replicate 16 5) h = Some (Inr (Some (replicate 16 5), None))"
  by (simp add: signature_source_def demo_signature)

lemma demo_validate:
  assumes "kOwnershipKeyUnlock = key AND kOwnershipKeyUnlock"
  shows "validate_request (demo_owner_hw H) (demo_owner_state open_block) 0 key (demo_request m) bootdata =
       Some (kErrorOk_value, demo_owner_state open_block)"
proof -
  obtain keys where "candidate_keys (demo_owner_hw H) open_block key = ob_unlock_key open_block # keys"
    using assms by (simp add: candidate_keys_def)
  then show ?thesis
    by (simp add: validate_request_def ownership_key_validate_def demo_owner_state_def open_block_keys
        demo_request_view demo_source demo_try_keys del: try_keys.simps)
qed

lemma demo_unlock:
  "\<exists>msg' bootdata'. ownership_unlock_handler (demo_owner_hw H) (demo_request kBootSvcUnlockAny)
     (demo_boot_data kOwnershipStateLockedOwner) (demo_owner_state open_block) =
       Some (kErrorWriteBootdataThenReboot, msg', bootdata', demo_owner_state open_block)"
proof -
  have keys: "kOwnershipKeyUnlock = (kOwnershipKeyUnlock OR kOwnershipKeyRecovery) AND kOwnershipKeyUnlock"
    by (simp add: ownership_keys)
  have table: "unlock_keys (ob_update_mode (owner_page (demo_owner_state open_block) 0)) kBootSvcUnlockAny
      (bd_ownership_state (demo_boot_data kOwnershipStateLockedOwner)) = Some (kOwnershipKeyUnlock OR kOwnershipKeyRecovery)"
    by (simp add: unlock_keys_def demo_owner_state_def open_block_keys demo_boot_data_def)
  have grant: "grant (demo_owner_hw H) (ownership_unlock_req_of (demo_request kBootSvcUnlockAny))
      (demo_boot_data kOwnershipStateLockedOwner) (demo_owner_state open_block) =
      (kErrorWriteBootdataThenReboot,
        unlocked_boot_data (demo_owner_hw H) (ownership_unlock_req_of (demo_request kBootSvcUnlockAny)) [9, 9]
          (demo_boot_data kOwnershipStateLockedOwner), demo_owner_state open_block)"
    by (simp add: grant_def demo_request_view demo_boot_data_def nonce_equal_def
        lifecycle_din_eq_def demo_owner_hw_def demo_owner_state_def nonce_new_def)
  have "granted (demo_owner_hw H) (kOwnershipKeyUnlock OR kOwnershipKeyRecovery) (demo_request kBootSvcUnlockAny)
      (demo_boot_data kOwnershipStateLockedOwner) (demo_owner_state open_block) =
      Some (kErrorWriteBootdataThenReboot,
        unlocked_boot_data (demo_owner_hw H) (ownership_unlock_req_of (demo_request kBootSvcUnlockAny)) [9, 9]
          (demo_boot_data kOwnershipStateLockedOwner), demo_owner_state open_block)"
    unfolding granted_def demo_validate [OF keys] using grant by simp
  with unlock_handler_table [of "demo_owner_hw H" "demo_request kBootSvcUnlockAny"
      "demo_boot_data kOwnershipStateLockedOwner" "demo_owner_state open_block"] table
  show ?thesis by (auto simp: demo_request_view)
qed

theorem unlock_authorised_witness:
  "\<forall>H. \<exists>msg' bootdata'. ownership_unlock_handler (demo_owner_hw H) (demo_request kBootSvcUnlockAny)
     (demo_boot_data kOwnershipStateLockedOwner) (demo_owner_state open_block) =
       Some (kErrorWriteBootdataThenReboot, msg', bootdata', demo_owner_state open_block) \<and>
     bd_ownership_state bootdata' = kOwnershipStateUnlockedAny \<and> bd_nonce bootdata' = [9, 9]"
proof
  fix H :: "unit own_hw"
  obtain msg' bootdata' where run: "ownership_unlock_handler (demo_owner_hw H) (demo_request kBootSvcUnlockAny)
     (demo_boot_data kOwnershipStateLockedOwner) (demo_owner_state open_block) =
       Some (kErrorWriteBootdataThenReboot, msg', bootdata', demo_owner_state open_block)"
    using demo_unlock by blast
  have k: "keys_ok (demo_owner_hw H) (owner_page (demo_owner_state open_block) 0)"
    by (simp add: keys_ok_def demo_owner_state_def open_block_keys demo_owner_hw_def)
  have "length (demo_request kBootSvcUnlockAny) = 64" by (simp add: demo_request_def)
  from unlock_authorised [OF demo_lengths k this run]
  have "bd_ownership_state bootdata' = kOwnershipStateUnlockedAny \<and> bd_nonce bootdata' = [9, 9]"
    by (auto simp: unlocked_boot_data_def demo_request_view nonce_new_def demo_owner_hw_def)
  with run show "\<exists>msg' bootdata'. ownership_unlock_handler (demo_owner_hw H) (demo_request kBootSvcUnlockAny)
     (demo_boot_data kOwnershipStateLockedOwner) (demo_owner_state open_block) =
       Some (kErrorWriteBootdataThenReboot, msg', bootdata', demo_owner_state open_block) \<and>
     bd_ownership_state bootdata' = kOwnershipStateUnlockedAny \<and> bd_nonce bootdata' = [9, 9]" by blast
qed

lemma demo_recovery:
  "\<exists>msg'. ownership_unlock_handler (demo_owner_hw H) (demo_request kBootSvcUnlockAny)
     (demo_boot_data 0) (demo_owner_state (destroyed_page 0x5a5a5a5a)) =
       Some (kErrorOwnershipInvalidAlgorithm, msg', demo_boot_data 0, demo_owner_state (destroyed_page 0x5a5a5a5a))"
proof -
  have table: "unlock_keys w kBootSvcUnlockAny (bd_ownership_state (demo_boot_data 0)) = Some kOwnershipKeyRecovery" for w
    by (simp add: unlock_keys_def demo_boot_data_def is_locked_none_def ownership_states)
  have bad: "(0x5a5a5a5a :: u32) \<noteq> kOwnershipKeyAlgEcdsaP256" by (simp add: key_algs)
  have "granted (demo_owner_hw H) kOwnershipKeyRecovery (demo_request kBootSvcUnlockAny)
      (demo_boot_data 0) (demo_owner_state (destroyed_page 0x5a5a5a5a)) =
      Some (kErrorOwnershipInvalidAlgorithm, demo_boot_data 0, demo_owner_state (destroyed_page 0x5a5a5a5a))"
    using bad by (simp add: granted_def validate_request_def ownership_key_validate_def signature_source_def destroyed_alg
        demo_signature demo_request_view demo_owner_state_def)
  with unlock_handler_table [of "demo_owner_hw H" "demo_request kBootSvcUnlockAny"
      "demo_boot_data 0" "demo_owner_state (destroyed_page 0x5a5a5a5a)"] table
  show ?thesis by (auto simp: demo_request_view)
qed

theorem recovery_impossible_witness:
  "\<forall>H. \<exists>error msg' bootdata' s'. ownership_unlock_handler (demo_owner_hw H) (demo_request kBootSvcUnlockAny)
     (demo_boot_data 0) (demo_owner_state (destroyed_page 0x5a5a5a5a)) = Some (error, msg', bootdata', s') \<and>
     error \<noteq> kErrorWriteBootdataThenReboot \<and> bootdata' = demo_boot_data 0"
proof
  fix H :: "unit own_hw"
  have p: "owner_page (demo_owner_state (destroyed_page 0x5a5a5a5a)) 0 = destroyed_page 0x5a5a5a5a"
    by (simp add: demo_owner_state_def)
  from demo_recovery [of H] obtain error msg' bootdata' s' where
    run: "ownership_unlock_handler (demo_owner_hw H) (demo_request kBootSvcUnlockAny)
      (demo_boot_data 0) (demo_owner_state (destroyed_page 0x5a5a5a5a)) = Some (error, msg', bootdata', s')" by blast
  from recovery_impossible [OF _ p run] run
  show "\<exists>error msg' bootdata' s'. ownership_unlock_handler (demo_owner_hw H) (demo_request kBootSvcUnlockAny)
     (demo_boot_data 0) (demo_owner_state (destroyed_page 0x5a5a5a5a)) = Some (error, msg', bootdata', s') \<and>
     error \<noteq> kErrorWriteBootdataThenReboot \<and> bootdata' = demo_boot_data 0" by auto
qed

end
