(* ===== verification/Ownership_Transfer.thy ===== *)
theory Ownership_Transfer
  imports Ownership_Svc
begin

unbundle bit_operations_syntax

text \<open>
  What the activation handler of \<open>Ownership_Svc\<close> does when it succeeds and when it fails, and a chip on
  which it succeeds.
\<close>

section \<open>What an activation does\<close>

text \<open>When page 1 may become the configuration of the chip, by the state the owner was unlocked to.\<close>

definition transfer_allowed :: "('h, 'm) own_hw_scheme \<Rightarrow> boot_data \<Rightarrow> 'h owner_state \<Rightarrow> bool" where
  "transfer_allowed H bootdata s \<longleftrightarrow> owner_page_valid s 1 = kOwnerPageStatusSigned \<and>
     (bd_ownership_state bootdata = kOwnershipStateUnlockedAny \<or>
      bd_ownership_state bootdata = kOwnershipStateUnlockedSelf \<and>
        ob_owner_key (owner_page s 1) = ob_owner_key (owner_page s 0) \<or>
      bd_ownership_state bootdata = kOwnershipStateUnlockedEndorsed \<and>
        bd_next_owner bootdata = hmac_sha256 H (ob_owner_key (owner_page s 1)))"

lemma states_distinct:
  "distinct [kOwnershipStateLockedOwner, kOwnershipStateUnlockedSelf, kOwnershipStateUnlockedAny, kOwnershipStateUnlockedEndorsed]"
  "distinct (rev [kOwnershipStateLockedOwner, kOwnershipStateUnlockedSelf, kOwnershipStateUnlockedAny, kOwnershipStateUnlockedEndorsed])"
  by (simp_all add: ownership_states)

lemmas states_neq = states_distinct [simplified]

lemma page1_valid_result:
  assumes "length (ob_owner_key (owner_page s 0)) = 24" "length (ob_owner_key (owner_page s 1)) = 24"
    "length (bd_next_owner bootdata) = 8" "\<forall>ws. length (hmac_sha256 H ws) = 8"
    "bd_ownership_state bootdata \<noteq> kOwnershipStateLockedOwner"
    "owner_block_page1_valid_for_transfer H bootdata s = Some (valid, s')"
  shows "owner_page s' = owner_page s \<and> owner_page_valid s' = owner_page_valid s \<and>
     (valid = kHardenedBoolTrue \<longleftrightarrow> transfer_allowed H bootdata s)"
proof -
  have n: "unat (24 :: u32) = 24" "unat (8 :: u32) = 8" by simp_all
  have k: "hardened_memeq rnd (ob_owner_key (owner_page s 0)) (ob_owner_key (owner_page s 1)) 24 h =
      Some (if ob_owner_key (owner_page s 0) = ob_owner_key (owner_page s 1) then kHardenedBoolTrue else kHardenedBoolFalse,
        after_start rnd 24 h)" for rnd :: "'a \<Rightarrow> u32 \<times> 'a" and h
    using assms(1,2) by (simp add: hardened_memeq_equal n)
  have d: "hardened_memeq rnd (bd_next_owner bootdata) (hmac_sha256 H (ob_owner_key (owner_page s 1))) 8 h =
      Some (if bd_next_owner bootdata = hmac_sha256 H (ob_owner_key (owner_page s 1)) then kHardenedBoolTrue else kHardenedBoolFalse,
        after_start rnd 8 h)" for rnd :: "'a \<Rightarrow> u32 \<times> 'a" and h
    using assms(3,4) by (simp add: hardened_memeq_equal n)
  show ?thesis
    using assms(5,6) states_neq unfolding owner_block_page1_valid_for_transfer_def transfer_allowed_def k d
    by (auto split: if_splits)
qed

text \<open>The boot data after the sealed page is programmed, and after a whole activation.\<close>

definition with_min_version :: "owner_block \<Rightarrow> boot_data \<Rightarrow> boot_data" where
  "with_min_version page bootdata =
     (if ob_min_security_version_bl0 page \<noteq> 0xFFFFFFFF
      then bootdata\<lparr>bd_min_security_version_bl0 := ob_min_security_version_bl0 page\<rparr> else bootdata)"

lemma ownership_activate_result:
  assumes "ownership_activate H bootdata True s = (e, bootdata', s')"
  shows "owner_page_valid s' = owner_page_valid s \<and>
     (e \<noteq> kErrorOk_value \<and> bootdata' \<in> {bootdata, with_min_version (owner_page s 1) bootdata} \<or>
      e = kErrorOk_value \<and> bootdata' = with_min_version (owner_page s 1) bootdata \<and>
      owner_block_check H (owner_page s 1) (hw s) = kErrorOk_value \<and>
      (\<exists>seal h1 h2. owner_page s' = (owner_page s)(1 := (owner_page s 1)\<lparr>ob_seal := seal\<rparr>) \<and>
         program_slot H kFlashCtrlInfoPageOwnerSlot1 ((owner_page s 1)\<lparr>ob_seal := seal\<rparr>) h1 = (kErrorOk_value, h2) \<and>
         program_slot H kFlashCtrlInfoPageOwnerSlot0 ((owner_page s 1)\<lparr>ob_seal := seal\<rparr>) h2 = (kErrorOk_value, hw s')))"
proof (cases "owner_block_check H (owner_page s 1) (hw s) = kErrorOk_value")
  case True
  obtain se seal h1 where seal: "seal_generate H (owner_page s 1) (ob_seal (owner_page s 1)) (hw s) = (se, seal, h1)"
    by (rule prod_cases3)
  let ?page = "(owner_page s 1)\<lparr>ob_seal := seal\<rparr>"
  obtain e1 h2 where p1: "program_slot H kFlashCtrlInfoPageOwnerSlot1 ?page h1 = (e1, h2)" by (rule prod.exhaust)
  obtain e0 h3 where p0: "program_slot H kFlashCtrlInfoPageOwnerSlot0 ?page h2 = (e0, h3)" by (rule prod.exhaust)
  have r: "(e, bootdata', s') =
      (if e1 \<noteq> kErrorOk_value then (e1, with_min_version (owner_page s 1) bootdata,
         s\<lparr>owner_page := (owner_page s)(1 := ?page), hw := h2\<rparr>)
       else (e0, with_min_version (owner_page s 1) bootdata, s\<lparr>owner_page := (owner_page s)(1 := ?page), hw := h3\<rparr>))"
    using assms True seal p1 p0
    by (simp add: ownership_activate_def ownership_seal_page_def with_min_version_def Let_def split: if_splits)
  show ?thesis
  proof (cases "e1 = kErrorOk_value")
    case ok: True
    with r True p0 p1 show ?thesis by (cases "e0 = kErrorOk_value") auto
  qed (use r in simp)
qed (use assms in \<open>auto simp: ownership_activate_def Let_def\<close>)

definition activated_boot_data :: "ownership_activate_req \<Rightarrow> owner_block \<Rightarrow> u32 list \<Rightarrow> boot_data \<Rightarrow> boot_data" where
  "activated_boot_data req page nonce bootdata =
     (with_min_version page bootdata)\<lparr>
       bd_primary_bl0_slot := (if areq_primary_bl0_slot req = kBootSlotB then kBootSlotB else kBootSlotA),
       bd_ownership_transfers := bd_ownership_transfers bootdata +
         (if bd_ownership_state bootdata = kOwnershipStateUnlockedSelf then 0 else 1),
       bd_nonce := nonce, bd_ownership_state := kOwnershipStateLockedOwner, bd_next_owner := replicate 8 0\<rparr>"

text \<open>What an update of the version, the slot and nothing else leaves alone.\<close>

definition same_owner :: "boot_data \<Rightarrow> boot_data \<Rightarrow> bool" where
  "same_owner b b' \<longleftrightarrow> bd_ownership_state b' = bd_ownership_state b \<and> bd_nonce b' = bd_nonce b \<and>
     bd_next_owner b' = bd_next_owner b \<and> bd_ownership_transfers b' = bd_ownership_transfers b"

lemma with_min_version_same [simp]:
  "bd_ownership_state (with_min_version p b) = bd_ownership_state b" "bd_nonce (with_min_version p b) = bd_nonce b"
  "bd_next_owner (with_min_version p b) = bd_next_owner b"
  "bd_ownership_transfers (with_min_version p b) = bd_ownership_transfers b"
  by (simp_all add: with_min_version_def)


lemma transfer_secret_result:
  assumes "transfer_secret H alg key b s = Some (e, b', s')"
  shows "owner_page s' = owner_page s \<and> owner_page_valid s' = owner_page_valid s \<and>
    (e \<noteq> kErrorOk_value \<and> b' = b \<or>
     e = kErrorOk_value \<and> b' = b\<lparr>bd_ownership_transfers := bd_ownership_transfers b +
       (if bd_ownership_state b = kOwnershipStateUnlockedSelf then 0 else 1)\<rparr>)"
  using assms by (auto simp: transfer_secret_def split: if_splits bind_splits)

lemma activate_page1_result:
  assumes "activate_page1 H req bootdata s = Some (error, bootdata', s')"
  shows "owner_page_valid s' = owner_page_valid s \<and>
    (same_owner bootdata bootdata' \<or>
     error = kErrorWriteBootdataThenReboot \<and> owner_block_check H (owner_page s 1) (hw s) = kErrorOk_value \<and>
     (\<exists>seal h1 h2 h3. owner_page s' = (owner_page s)(1 := (owner_page s 1)\<lparr>ob_seal := seal\<rparr>) \<and>
        program_slot H kFlashCtrlInfoPageOwnerSlot1 ((owner_page s 1)\<lparr>ob_seal := seal\<rparr>) h1 = (kErrorOk_value, h2) \<and>
        program_slot H kFlashCtrlInfoPageOwnerSlot0 ((owner_page s 1)\<lparr>ob_seal := seal\<rparr>) h2 = (kErrorOk_value, h3)) \<and>
     (\<exists>h4. bootdata' = activated_boot_data req (owner_page s 1) (fst (nonce_new H h4)) bootdata))"
proof -
  obtain e b1 s1 where act: "ownership_activate H bootdata True s = (e, b1, s1)" by (rule prod_cases3)
  note a = ownership_activate_result [OF act]
  show ?thesis
  proof (cases "e = kErrorOk_value")
    case False
    with assms act a show ?thesis by (auto simp: activate_page1_def same_owner_def)
  next
    case True
    define b2 where "b2 = b1\<lparr>bd_primary_bl0_slot :=
       (if areq_primary_bl0_slot req = kBootSlotB then kBootSlotB else kBootSlotA)\<rparr>"
    have run: "do { (e, bootdata, s) \<leftarrow> transfer_secret H (ob_ownership_key_alg (owner_page s 0)) (ob_owner_key (owner_page s 0)) b2 s1;
        if e \<noteq> kErrorOk_value then Some (e, bootdata, s)
        else let (nonce, h) = nonce_new H (hw s) in Some (kErrorWriteBootdataThenReboot,
           bootdata\<lparr>bd_nonce := nonce, bd_ownership_state := kOwnershipStateLockedOwner, bd_next_owner := replicate 8 0\<rparr>,
           s\<lparr>hw := h\<rparr>) } = Some (error, bootdata', s')"
      using assms True by (simp add: activate_page1_def Let_def b2_def act split del: if_split)
    then obtain e2 b3 s2 where sec: "transfer_secret H (ob_ownership_key_alg (owner_page s 0)) (ob_owner_key (owner_page s 0)) b2 s1 = Some (e2, b3, s2)"
      by (auto split: bind_splits)
    note t = transfer_secret_result [OF sec]
    from run have fin: "(if e2 \<noteq> kErrorOk_value then Some (e2, b3, s2)
         else (case nonce_new H (hw s2) of (nonce, h) \<Rightarrow> Some (kErrorWriteBootdataThenReboot,
           b3\<lparr>bd_nonce := nonce, bd_ownership_state := kOwnershipStateLockedOwner, bd_next_owner := replicate 8 0\<rparr>,
           s2\<lparr>hw := h\<rparr>))) = Some (error, bootdata', s')"
      unfolding sec Let_def by simp
    from t have s2: "owner_page s2 = owner_page s1" "owner_page_valid s2 = owner_page_valid s1" by simp_all
    show ?thesis
    proof (cases "e2 = kErrorOk_value")
      case False
      then have "b3 = b2" "bootdata' = b3" "s' = s2" using t fin by auto
      with a True s2 show ?thesis by (auto simp: same_owner_def b2_def)
    next
      case ok: True
      obtain nonce h where n: "nonce_new H (hw s2) = (nonce, h)" by (rule prod.exhaust)
      have b3: "b3 = b2\<lparr>bd_ownership_transfers := bd_ownership_transfers b2 +
          (if bd_ownership_state b2 = kOwnershipStateUnlockedSelf then 0 else 1)\<rparr>"
        using t ok by auto
      from fin ok n have f: "error = kErrorWriteBootdataThenReboot" "s' = s2\<lparr>hw := h\<rparr>"
        "bootdata' = b3\<lparr>bd_nonce := nonce, bd_ownership_state := kOwnershipStateLockedOwner, bd_next_owner := replicate 8 0\<rparr>"
        by simp_all
      from a True have b1: "b1 = with_min_version (owner_page s 1) bootdata" by simp
      have "bootdata' = activated_boot_data req (owner_page s 1) (fst (nonce_new H (hw s2))) bootdata"
        unfolding f(3) b3 b2_def b1 n by (simp add: activated_boot_data_def)
      moreover from a True obtain seal h1 h2 where
        "owner_page s1 = (owner_page s)(1 := (owner_page s 1)\<lparr>ob_seal := seal\<rparr>)"
        "program_slot H kFlashCtrlInfoPageOwnerSlot1 ((owner_page s 1)\<lparr>ob_seal := seal\<rparr>) h1 = (kErrorOk_value, h2)"
        "program_slot H kFlashCtrlInfoPageOwnerSlot0 ((owner_page s 1)\<lparr>ob_seal := seal\<rparr>) h2 = (kErrorOk_value, hw s1)"
        by blast
      ultimately show ?thesis using a True s2 f(1,2) by (simp, blast)
    qed
  qed
qed

lemma activate_candidates:
  "set (candidate_keys H page kOwnershipKeyActivate) = {ob_activate_key page, ob_owner_key page}"
  by (simp add: candidate_keys_def ownership_keys split: option.splits)

lemma activate_handler_result:
  assumes "verify_lengths H" "keys_ok H (owner_page s 0)" "keys_ok H (owner_page s 1)" "length msg = 64"
    "length (bd_next_owner bootdata) = 8" "\<forall>ws. length (hmac_sha256 H ws) = 8"
    "bd_ownership_state bootdata \<noteq> kOwnershipStateLockedOwner"
    "activate_handler H msg bootdata s = Some (error, bootdata', s')"
  defines "req \<equiv> ownership_activate_req_of msg"
  shows "same_owner bootdata bootdata' \<or>
     error = kErrorWriteBootdataThenReboot \<and> transfer_allowed H bootdata s \<and>
     (\<exists>h. authorised H (owner_page s 1) {ob_activate_key (owner_page s 1), ob_owner_key (owner_page s 1)} (hdr_type (svc_header msg)) (bd_nonce bootdata)
        (areq_signature req) (request_payload msg) h) \<and>
     nonce_equal (areq_nonce req) (bd_nonce bootdata) \<and>
     (\<exists>h. lifecycle_din_eq (device_id H h) (areq_din req) = kHardenedBoolTrue) \<and>
     (\<exists>h. owner_block_check H (owner_page s 1) h = kErrorOk_value) \<and>
     (\<exists>seal h1 h2 h3. owner_page s' = (owner_page s)(1 := (owner_page s 1)\<lparr>ob_seal := seal\<rparr>) \<and>
        program_slot H kFlashCtrlInfoPageOwnerSlot1 ((owner_page s 1)\<lparr>ob_seal := seal\<rparr>) h1 = (kErrorOk_value, h2) \<and>
        program_slot H kFlashCtrlInfoPageOwnerSlot0 ((owner_page s 1)\<lparr>ob_seal := seal\<rparr>) h2 = (kErrorOk_value, h3)) \<and>
     (\<exists>h4. bootdata' = activated_boot_data req (owner_page s 1) (fst (nonce_new H h4)) bootdata)"
proof -
  have same: "same_owner bootdata bootdata" by (simp add: same_owner_def)
  have sig: "ureq_signature (ownership_unlock_req_of msg) = areq_signature req"
    by (simp add: req_def ownership_unlock_req_of_def ownership_activate_req_of_def)
  from assms(8) obtain valid s1 where v: "owner_block_page1_valid_for_transfer H bootdata s = Some (valid, s1)"
    by (auto simp: activate_handler_def split: bind_splits)
  from assms(2,3) have keys: "length (ob_owner_key (owner_page s 0)) = 24" "length (ob_owner_key (owner_page s 1)) = 24"
    by (simp_all add: keys_ok_def)
  note p = page1_valid_result [OF keys assms(5,6,7) v]
  show ?thesis
  proof (cases "valid = kHardenedBoolTrue")
    case False
    with assms(8) v have "bootdata' = bootdata" by (simp add: activate_handler_def)
    with same show ?thesis by simp
  next
    case True
    with assms(8) v obtain e s2 where q: "validate_request H s1 1 kOwnershipKeyActivate msg bootdata = Some (e, s2)"
      by (auto simp: activate_handler_def split: bind_splits)
    have keys1: "keys_ok H (owner_page s1 1)" using p assms(3) by simp
    note a = validate_request_result [OF assms(1) keys1 assms(4) q] validate_request_state [OF q]
    from assms(8) v q True have r: "(if e \<noteq> kErrorOk_value then Some (e, bootdata, s2)
        else if \<not> nonce_equal (areq_nonce req) (bd_nonce bootdata) then Some (kErrorOwnershipInvalidNonce, bootdata, s2)
        else if lifecycle_din_eq (device_id H (hw s2)) (areq_din req) \<noteq> kHardenedBoolTrue
        then Some (kErrorOwnershipInvalidDin, bootdata, s2)
        else activate_page1 H req bootdata s2) = Some (error, bootdata', s')"
      by (simp add: activate_handler_def req_def [symmetric] split del: if_split)
    show ?thesis
    proof (cases "e = kErrorOk_value \<and> nonce_equal (areq_nonce req) (bd_nonce bootdata) \<and>
        lifecycle_din_eq (device_id H (hw s2)) (areq_din req) = kHardenedBoolTrue")
      case False
      with r have "bootdata' = bootdata" by (auto split: if_splits)
      with same show ?thesis by simp
    next
      case ok: True
      with r have "activate_page1 H req bootdata s2 = Some (error, bootdata', s')" by simp
      note t = activate_page1_result [OF this]
      have pages: "owner_page s2 = owner_page s" using p a(2) by simp
      from a(1) ok have auth: "authorised H (owner_page s 1) {ob_activate_key (owner_page s 1), ob_owner_key (owner_page s 1)} (hdr_type (svc_header msg)) (bd_nonce bootdata)
        (areq_signature req) (request_payload msg) (hw s1)" using p sig by (simp add: activate_candidates)
      from t auth ok True p pages show ?thesis by auto
    qed
  qed
qed

section \<open>Properties of the activation\<close>

text \<open>
  C31: A new owner is installed only as the old one allowed. When the activation handler succeeds, the chip was unlocked,
  page 1 was signed by the owner it names and is any page, one of the same owner or the endorsed one,
  according to how it was unlocked; its activation key (or owner key) accepted the request, nonce and device
  match, the page passed the check of owner blocks, and the page with its seal was written to both slots.
  The chip is then locked to it, with a fresh nonce. When the handler fails, state, nonce, endorsement and
  transfer count are unchanged.
\<close>

theorem activation_authorised:
  fixes s :: "'h owner_state"
  assumes "verify_lengths H" "keys_ok H (owner_page s 0)" "keys_ok H (owner_page s 1)" "length msg = 64"
    "length (bd_next_owner bootdata) = 8" "\<forall>ws. length (hmac_sha256 H ws) = 8"
    "ownership_activate_handler H msg bootdata s = Some (error, msg', bootdata', s')"
  defines "req \<equiv> ownership_activate_req_of msg"
  shows "msg' = boot_svc_ownership_activate_res_init (sha256_bytes H) (response_status error) msg \<and>
    (same_owner bootdata bootdata' \<or>
     error = kErrorWriteBootdataThenReboot \<and> transfer_allowed H bootdata s \<and>
     (\<exists>h. authorised H (owner_page s 1) {ob_activate_key (owner_page s 1), ob_owner_key (owner_page s 1)} (hdr_type (svc_header msg)) (bd_nonce bootdata)
        (areq_signature req) (request_payload msg) h) \<and>
     nonce_equal (areq_nonce req) (bd_nonce bootdata) \<and>
     (\<exists>h. lifecycle_din_eq (device_id H h) (areq_din req) = kHardenedBoolTrue) \<and>
     (\<exists>h. owner_block_check H (owner_page s 1) h = kErrorOk_value) \<and>
     (\<exists>seal h1 h2 h3. owner_page s' = (owner_page s)(1 := (owner_page s 1)\<lparr>ob_seal := seal\<rparr>) \<and>
        program_slot H kFlashCtrlInfoPageOwnerSlot1 ((owner_page s 1)\<lparr>ob_seal := seal\<rparr>) h1 = (kErrorOk_value, h2) \<and>
        program_slot H kFlashCtrlInfoPageOwnerSlot0 ((owner_page s 1)\<lparr>ob_seal := seal\<rparr>) h2 = (kErrorOk_value, h3)) \<and>
     (\<exists>h4. bootdata' = activated_boot_data req (owner_page s 1) (fst (nonce_new H h4)) bootdata))"
proof (cases "bd_ownership_state bootdata = kOwnershipStateUnlockedSelf \<or>
    bd_ownership_state bootdata = kOwnershipStateUnlockedAny \<or> bd_ownership_state bootdata = kOwnershipStateUnlockedEndorsed")
  case True
  then have unlocked: "bd_ownership_state bootdata \<noteq> kOwnershipStateLockedOwner" using states_neq by auto
  from True assms(7) have run: "activate_handler H msg bootdata s = Some (error, bootdata', s')"
    and m: "msg' = boot_svc_ownership_activate_res_init (sha256_bytes H) (response_status error) msg"
    by (auto simp: ownership_activate_handler_def split: bind_splits)
  from activate_handler_result [OF assms(1-6) unlocked run] m show ?thesis unfolding req_def by blast
next
  case False
  with assms(7) show ?thesis by (simp add: ownership_activate_handler_def same_owner_def)
qed


text \<open>A chip whose flash and KMAC never fail, with page 1 signed and the chip unlocked to anyone.\<close>

definition demo_activate_hw :: "unit own_hw \<Rightarrow> unit own_hw" where
  "demo_activate_hw H = (demo_owner_hw H)\<lparr>kmac_kmac256_start := (\<lambda>h. (kErrorOk_value, h)),
     kmac_kmac256_absorb := (\<lambda>ws h. h), kmac_kmac256_final := (\<lambda>n h. (kErrorOk_value, replicate n 1, h)),
     info_erase_page := (\<lambda>page h. (kErrorOk_value, h)), info_write := (\<lambda>page off ws h. (kErrorOk_value, h)),
     info_read := (\<lambda>page off n h. (kErrorOk_value, replicate n 0, h)), info_perms_set := (\<lambda>page p h. h)\<rparr>"

definition demo_activate_request :: "u32 list" where
  "demo_activate_request = replicate 11 0 @ [kBootSlotB, 1, 2] @ replicate 32 0 @ [3, 4] @ replicate 16 5"

definition demo_activate_state :: "unit owner_state" where
  "demo_activate_state = \<lparr>owner_page = (\<lambda>_. open_block),
     owner_page_valid = (\<lambda>_. kOwnerPageStatusSealed)(1 := kOwnerPageStatusSigned), hw = ()\<rparr>"

lemma demo_activate_view:
  "ownership_activate_req_of demo_activate_request = \<lparr>areq_primary_bl0_slot = kBootSlotB, areq_din = [1, 2],
     areq_erase_previous = 0, areq_reserved = replicate 31 0, areq_nonce = [3, 4], areq_signature = replicate 16 5\<rparr>"
  "ureq_signature (ownership_unlock_req_of demo_activate_request) = replicate 16 5"
  by (simp_all add: ownership_activate_req_of_def ownership_unlock_req_of_def demo_activate_request_def numeral_eq_Suc)

lemma demo_activate_hw_fields:
  "verify_lengths (demo_activate_hw H)" "chip (demo_activate_hw H) = earlgrey"
  "rnd_uint32 (demo_activate_hw H) = (\<lambda>h. (9, h))" "device_id (demo_activate_hw H) = (\<lambda>h. [0, 1, 2, 0, 0, 0, 0, 0])"
  "no_owner_recovery_key (demo_activate_hw H) = None" "length (hmac_sha256 (demo_activate_hw H) ws) = 8"
  by (simp_all add: verify_lengths_def demo_activate_hw_def demo_owner_hw_def demo_verifier_def)

lemma demo_activate_try_keys:
  assumes "length k = 24"
  shows "try_keys (demo_activate_hw H) kOwnershipKeyAlgEcdsaP256 (Some (replicate 16 5)) None message digest (k # keys) h =
       Some (kErrorOk_value, ())"
proof -
  have "alg_category kOwnershipKeyAlgEcdsaP256 = kOwnershipKeyAlgCategoryEcdsa" by code_simp
  then have "key_accepts (demo_activate_hw H) kOwnershipKeyAlgEcdsaP256 k (Some (replicate 16 5)) None [] []
      (words_bytes message) digest h"
    using categories_distinct
    by (simp add: key_accepts_def after_ecdsa_start_def ecdsa_finish_ok_def Let_def demo_activate_hw_def
        demo_owner_hw_def demo_verifier_def)
  with owner_verify_accept [OF demo_activate_hw_fields(1) assms, of "Some (replicate 16 5)" H kOwnershipKeyAlgEcdsaP256 None "[]" "[]"
      "words_bytes message" digest h] show ?thesis by auto
qed

lemma demo_activate_validate:
  "validate_request (demo_activate_hw H) demo_activate_state 1 kOwnershipKeyActivate demo_activate_request bootdata =
     Some (kErrorOk_value, demo_activate_state)"
proof -
  have "\<exists>keys. candidate_keys (demo_activate_hw H) open_block kOwnershipKeyActivate = ob_activate_key open_block # keys"
    by (simp add: candidate_keys_def ownership_keys)
  then obtain keys where "candidate_keys (demo_activate_hw H) open_block kOwnershipKeyActivate = ob_activate_key open_block # keys" ..
  then show ?thesis
    by (simp add: validate_request_def ownership_key_validate_def demo_activate_state_def open_block_keys
        demo_activate_view demo_source demo_activate_try_keys del: try_keys.simps)
qed

lemma open_block_check: "owner_block_check (demo_activate_hw H) open_block h = kErrorOk_value"
proof -
  have "block_walk_ok open_block = block_walk_ok demo_block" "block_items open_block = block_items demo_block"
    by (simp_all add: open_block_def block_walk_ok_def block_items_def)
  with demo_items demo_item_checks show ?thesis
    by (simp add: owner_block_check_iff list_all_iff demo_activate_hw_fields)
qed

lemma demo_program: "program_slot (demo_activate_hw H) slot page h = (kErrorOk_value, ())"
  by (simp add: program_slot_def demo_activate_hw_def)

lemma demo_secret: "ownership_secret_new (demo_activate_hw H) alg key h = Some (kErrorOk_value, ())"
  by (simp add: ownership_secret_new_def demo_activate_hw_def secret_page_enable_def)

lemma demo_bd: "bd_nonce (demo_boot_data state) = [3, 4]" by (simp add: demo_boot_data_def)

lemma demo_activate:
  "\<exists>bootdata' s'. activate_handler (demo_activate_hw H) demo_activate_request (demo_boot_data kOwnershipStateUnlockedAny)
     demo_activate_state = Some (kErrorWriteBootdataThenReboot, bootdata', s') \<and> bd_nonce bootdata' = [9, 9]"
proof -
  have v: "owner_block_page1_valid_for_transfer (demo_activate_hw H) (demo_boot_data kOwnershipStateUnlockedAny) demo_activate_state =
      Some (kHardenedBoolTrue, demo_activate_state)"
    using states_neq by (simp add: owner_block_page1_valid_for_transfer_def demo_boot_data_def demo_activate_state_def)
  obtain e b1 s1 where act: "ownership_activate (demo_activate_hw H) (demo_boot_data kOwnershipStateUnlockedAny) True demo_activate_state = (e, b1, s1)"
    by (rule prod_cases3)
  have e: "e = kErrorOk_value"
    using act by (auto simp: ownership_activate_def demo_activate_state_def open_block_check demo_program Let_def
        split: prod.splits)
  have "\<exists>bootdata' s'. activate_page1 (demo_activate_hw H) req (demo_boot_data kOwnershipStateUnlockedAny) demo_activate_state =
      Some (kErrorWriteBootdataThenReboot, bootdata', s') \<and> bd_nonce bootdata' = [9, 9]" for req
    by (simp add: activate_page1_def act e transfer_secret_def demo_secret Let_def nonce_new_def demo_activate_hw_fields)
  then show ?thesis
    by (simp add: activate_handler_def v demo_activate_validate [unfolded One_nat_def] demo_activate_view demo_bd nonce_equal_def
        lifecycle_din_eq_def demo_activate_hw_fields)
qed

theorem activation_authorised_witness:
  "\<forall>H. \<exists>msg' bootdata' s'. ownership_activate_handler (demo_activate_hw H) demo_activate_request
     (demo_boot_data kOwnershipStateUnlockedAny) demo_activate_state = Some (kErrorWriteBootdataThenReboot, msg', bootdata', s') \<and>
     bd_ownership_state bootdata' = kOwnershipStateLockedOwner \<and> bd_primary_bl0_slot bootdata' = kBootSlotB \<and>
     bd_ownership_transfers bootdata' = 1"
proof
  fix H :: "unit own_hw"
  obtain bootdata' s' where run: "activate_handler (demo_activate_hw H) demo_activate_request (demo_boot_data kOwnershipStateUnlockedAny)
     demo_activate_state = Some (kErrorWriteBootdataThenReboot, bootdata', s')" "bd_nonce bootdata' = [9, 9]"
    using demo_activate by blast
  from run(1) obtain msg' where h: "ownership_activate_handler (demo_activate_hw H) demo_activate_request
     (demo_boot_data kOwnershipStateUnlockedAny) demo_activate_state = Some (kErrorWriteBootdataThenReboot, msg', bootdata', s')"
    by (simp add: ownership_activate_handler_def demo_boot_data_def)
  have k: "keys_ok (demo_activate_hw H) (owner_page demo_activate_state p)" for p
    by (simp add: keys_ok_def demo_activate_state_def open_block_keys demo_activate_hw_fields)
  have len: "length demo_activate_request = 64" "length (bd_next_owner (demo_boot_data kOwnershipStateUnlockedAny)) = 8"
    by (simp_all add: demo_activate_request_def demo_boot_data_def bd_of_words_def)
  have b: "\<not> same_owner (demo_boot_data kOwnershipStateUnlockedAny) bootdata'"
    using run(2) by (simp add: same_owner_def demo_boot_data_def)
  from activation_authorised [OF demo_activate_hw_fields(1) k k len _ h] b
  have "bd_ownership_state bootdata' = kOwnershipStateLockedOwner \<and> bd_primary_bl0_slot bootdata' = kBootSlotB \<and>
     bd_ownership_transfers bootdata' = 1"
    using states_neq by (auto simp: demo_activate_hw_fields activated_boot_data_def demo_activate_view demo_boot_data_def bd_of_words_def)
  with h show "\<exists>msg' bootdata' s'. ownership_activate_handler (demo_activate_hw H) demo_activate_request
     (demo_boot_data kOwnershipStateUnlockedAny) demo_activate_state = Some (kErrorWriteBootdataThenReboot, msg', bootdata', s') \<and>
     bd_ownership_state bootdata' = kOwnershipStateLockedOwner \<and> bd_primary_bl0_slot bootdata' = kBootSlotB \<and>
     bd_ownership_transfers bootdata' = 1" by blast
qed

end
