(* ===== verification/Ownership_Init.thy ===== *)
theory Ownership_Init
  imports Ownership_Transfer
begin

unbundle bit_operations_syntax

text \<open>
  Ownership at boot: \<open>ownership/ownership.c\<close>. The two owner pages are read into RAM and their status is
  found; a locked chip keeps the pages the same, an unlocked one configures itself from both; before the
  owner's firmware runs the pages are locked down. \<open>sku_creator_owner_init\<close> is the weak default of the
  file, which does nothing; the messages on the console and the build with \<open>ROM_EXT_KLOBBER_ALLOWED\<close> are
  left out. \<open>last_entry\<close> is the uninitialised entry of \<open>boot_data_write\<close>. None is a hardened trap or a
  search that never ends.
\<close>

section \<open>The status of a page\<close>

definition owner_page_device_id :: "u32 list \<Rightarrow> owner_block \<Rightarrow> u32 list" where
  "owner_page_device_id ident page =
     map (\<lambda>i. if ob_lock_constraint page AND push_bit i 1 \<noteq> 0 then ident ! i else kLockConstraintNone) [0..<8]"

definition owner_page_validity_check ::
  "('h, 'm) own_hw_scheme \<Rightarrow> nat \<Rightarrow> boot_data \<Rightarrow> 'h owner_state \<Rightarrow> (u32 \<times> 'h owner_state) option" where
  "owner_page_validity_check H page bootdata s = do {
     let block = (owner_page s page)\<lparr>ob_device_id := owner_page_device_id (device_id H (hw s)) (owner_page s page)\<rparr>;
     let s = s\<lparr>owner_page := (owner_page s)(page := block)\<rparr>;
     (sealed, h) \<leftarrow> ownership_seal_check H (owner_page s) page (hw s);
     if sealed = kErrorOk_value then Some (kOwnerPageStatusSealed, s\<lparr>hw := h\<rparr>)
     else do {
       (result, h) \<leftarrow> ownership_key_validate H (owner_page s) page kOwnershipKeyOwner kTlvTagOwner
         (bd_nonce bootdata) (ob_signature block) (take 488 (ob_words block)) h;
       if result \<noteq> kErrorOk_value then
         Some (kOwnerPageStatusInvalid, s\<lparr>owner_page := (owner_page s)(page := destroyed_page 0x5a5a5a5a), hw := h\<rparr>)
       else Some (kOwnerPageStatusSigned, s\<lparr>hw := h\<rparr>) } }"

definition sku_creator_owner_init :: "boot_data \<Rightarrow> u32" where
  "sku_creator_owner_init bootdata = kErrorOk_value"

section \<open>A locked chip\<close>

text \<open>The other page is copied over a page that is not sealed, in RAM and in flash.\<close>

definition restore_page ::
  "('h, 'm) own_hw_scheme \<Rightarrow> nat \<Rightarrow> nat \<Rightarrow> flash_ctrl_info_page \<Rightarrow> 'h owner_state \<Rightarrow> u32 \<times> 'h owner_state" where
  "restore_page H bad good slot s =
     (let s = s\<lparr>owner_page := (owner_page s)(bad := owner_page s good)\<rparr>;
          (e, h) = program_slot H slot (owner_page s bad) (hw s)
      in if e \<noteq> kErrorOk_value then (e, s\<lparr>hw := h\<rparr>)
         else (kErrorOk_value, s\<lparr>owner_page_valid := (owner_page_valid s)(bad := owner_page_valid s good), hw := h\<rparr>))"

definition update_locked_owner ::
  "('h, 'm) own_hw_scheme \<Rightarrow> boot_data \<Rightarrow> 'h owner_state \<Rightarrow> (boot_data \<times> 'h owner_state) option" where
  "update_locked_owner H bootdata s =
     (if owner_page_valid s 0 = kOwnerPageStatusSealed \<and> owner_page_valid s 1 = kOwnerPageStatusSigned \<and>
         owner_block_newversion_mode s = kHardenedBoolTrue \<and>
         ob_config_version (owner_page s 1) > ob_config_version (owner_page s 0) then do {
        (eq, h) \<leftarrow> hardened_memeq (rnd_uint32 H) (ob_owner_key (owner_page s 0)) (ob_owner_key (owner_page s 1)) 24 (hw s);
        let s = s\<lparr>hw := h\<rparr>;
        if eq = kHardenedBoolTrue then
          (case ownership_activate H bootdata False s of (error, bootdata, s) \<Rightarrow>
             if error = kErrorOk_value
             then Some (bootdata, s\<lparr>owner_page_valid := (owner_page_valid s)(0 := kOwnerPageStatusInvalid, 1 := kOwnerPageStatusSealed)\<rparr>)
             else Some (bootdata, s))
        else Some (bootdata, s) }
      else Some (bootdata, s))"

definition enter_recovery ::
  "('h, 'm) own_hw_scheme \<Rightarrow> boot_data \<Rightarrow> boot_data \<Rightarrow> 'h owner_state \<Rightarrow> (u32 \<times> boot_data \<times> 'h owner_state) option" where
  "enter_recovery H last_entry bootdata s = do {
     let (nonce, h) = nonce_new H (hw s);
     let bootdata = bootdata\<lparr>bd_ownership_state := kOwnershipStateRecovery, bd_nonce := nonce\<rparr>;
     (e, h) \<leftarrow> boot_data_write H last_entry bootdata h;
     if e \<noteq> kErrorOk_value then Some (e, bootdata, s\<lparr>hw := h\<rparr>)
     else Some (kErrorOwnershipBadInfoPage, bootdata, s\<lparr>hw := h\<rparr>) }"

text \<open>Make the two pages the same; the error of the choice between them, and the new state.\<close>

definition sync_pages ::
  "('h, 'm) own_hw_scheme \<Rightarrow> boot_data \<Rightarrow> boot_data \<Rightarrow> 'h owner_state \<Rightarrow> (u32 \<times> boot_data \<times> 'h owner_state) option" where
  "sync_pages H last_entry bootdata s =
     (if owner_page_valid s 0 = kOwnerPageStatusSealed \<and> owner_page_valid s 1 = kOwnerPageStatusSealed
      then Some (kErrorOk_value, bootdata, s)
      else if owner_page_valid s 0 \<noteq> kOwnerPageStatusSealed \<and> owner_page_valid s 1 = kOwnerPageStatusSealed then
        (case restore_page H 0 1 kFlashCtrlInfoPageOwnerSlot0 s of (e, s) \<Rightarrow> Some (e, bootdata, s))
      else if owner_page_valid s 1 \<noteq> kOwnerPageStatusSealed \<and> owner_page_valid s 0 = kOwnerPageStatusSealed then
        (case restore_page H 1 0 kFlashCtrlInfoPageOwnerSlot1 s of (e, s) \<Rightarrow> Some (e, bootdata, s))
      else enter_recovery H last_entry bootdata s)"

text \<open>The configuration and the keyring are those of the parser in \<open>Owner_Block\<close>.\<close>

type_synonym owner_setup = "owner_config \<times> u32 list list"

definition parse_page ::
  "('h, 'm) own_hw_scheme \<Rightarrow> nat \<Rightarrow> owner_setup \<Rightarrow> 'h owner_state \<Rightarrow> u32 \<times> owner_setup \<times> 'h owner_state" where
  "parse_page H page = (\<lambda>(config, keyring) s.
     case owner_block_parse H (owner_page s page) False (config, keyring, hw s) of (e, config, keyring, h) \<Rightarrow>
       (e, (config, keyring), s\<lparr>hw := h\<rparr>))"

definition apply_flash ::
  "('h, 'm) own_hw_scheme \<Rightarrow> owner_config \<Rightarrow> u32 \<Rightarrow> u32 \<Rightarrow> u32 \<Rightarrow> 'h owner_state \<Rightarrow> u32 \<times> u32 \<times> 'h owner_state" where
  "apply_flash H config side lockdown mp_index s =
     (case owner_block_flash_apply H (oc_flash config) side lockdown mp_index (hw s) of (e, mp_index, h) \<Rightarrow>
       (e, mp_index, s\<lparr>hw := h\<rparr>))"

definition apply_info ::
  "('h, 'm) own_hw_scheme \<Rightarrow> owner_config \<Rightarrow> 'h owner_state \<Rightarrow> (u32 \<times> 'h owner_state) option" where
  "apply_info H config s = do {
     (e, h) \<leftarrow> owner_block_info_apply H (oc_info config) (hw s);
     Some (e, s\<lparr>hw := h\<rparr>) }"

definition locked_owner_init ::
  "('h, 'm) own_hw_scheme \<Rightarrow> boot_data \<Rightarrow> boot_data \<Rightarrow> owner_setup \<Rightarrow> 'h owner_state \<Rightarrow>
     (u32 \<times> boot_data \<times> owner_setup \<times> 'h owner_state) option" where
  "locked_owner_init H last_entry bootdata conf s = do {
     (bootdata, s) \<leftarrow> update_locked_owner H bootdata s;
     (e, bootdata, s) \<leftarrow> sync_pages H last_entry bootdata s;
     if e \<noteq> kErrorOk_value then Some (e, bootdata, conf, s) else do {
     let (e, conf, s) = parse_page H 0 conf s;
     if e \<noteq> kErrorOk_value then Some (e, bootdata, conf, s) else do {
     let (e, mp_index, s) = apply_flash H (fst conf) kBootSlotA kHardenedBoolFalse 0 s;
     if e \<noteq> kErrorOk_value then Some (e, bootdata, conf, s) else do {
     let (e, mp_index, s) = apply_flash H (fst conf) kBootSlotB kHardenedBoolFalse mp_index s;
     if e \<noteq> kErrorOk_value then Some (e, bootdata, conf, s) else do {
     (e, s) \<leftarrow> apply_info H (fst conf) s;
     Some (e, bootdata, conf, s) } } } } }"

section \<open>An unlocked chip\<close>

definition unlocked_init ::
  "('h, 'm) own_hw_scheme \<Rightarrow> boot_data \<Rightarrow> boot_data \<Rightarrow> owner_setup \<Rightarrow> 'h owner_state \<Rightarrow>
     (u32 \<times> boot_data \<times> owner_setup \<times> 'h owner_state) option" where
  "unlocked_init H last_entry bootdata conf s =
     (let secondary = (if bd_primary_bl0_slot bootdata = kBootSlotA then kBootSlotB else kBootSlotA) in
      if bd_ownership_state bootdata = kOwnershipStateUnlockedSelf \<and> owner_page_valid s 0 \<noteq> kOwnerPageStatusSealed then do {
        (e, bootdata, s) \<leftarrow> enter_recovery H last_entry bootdata s;
        Some (e, bootdata, conf, s) }
      else do {
        let (e, mp_index, conf, s) =
          (if owner_page_valid s 0 = kOwnerPageStatusSealed then
             (case parse_page H 0 conf s of (e, conf, s) \<Rightarrow>
              if e \<noteq> kErrorOk_value then (e, 0, conf, s)
              else case apply_flash H (fst conf) (bd_primary_bl0_slot bootdata) kHardenedBoolFalse 0 s of
                (e, mp_index, s) \<Rightarrow> (e, mp_index, conf, s))
           else (kErrorOk_value, 0, conf, s));
        if e \<noteq> kErrorOk_value then Some (e, bootdata, conf, s) else do {
        (valid, s) \<leftarrow> owner_block_page1_valid_for_transfer H bootdata s;
        let (e, conf, s) =
          (if valid = kHardenedBoolTrue \<and> owner_block_check H (owner_page s 1) (hw s) = kErrorOk_value
           then parse_page H 1 conf s else (kErrorOk_value, conf, s));
        if e \<noteq> kErrorOk_value then Some (e, bootdata, conf, s) else do {
        let (e, mp_index, s) = apply_flash H (fst conf) secondary kHardenedBoolFalse mp_index s;
        if e \<noteq> kErrorOk_value then Some (e, bootdata, conf, s) else do {
        (e, s) \<leftarrow> apply_info H (fst conf) s;
        Some (e, bootdata, conf, s) } } } })"

section \<open>Initialisation and lockdown\<close>

definition perms_all :: flash_ctrl_perms where
  "perms_all = \<lparr>perm_read = kMultiBitBool4True, perm_write = kMultiBitBool4True, perm_erase = kMultiBitBool4True\<rparr>"

definition perms_read_only :: flash_ctrl_perms where
  "perms_read_only = \<lparr>perm_read = kMultiBitBool4True, perm_write = kMultiBitBool4False, perm_erase = kMultiBitBool4False\<rparr>"

definition owner_page_cfg :: flash_ctrl_cfg where
  "owner_page_cfg = \<lparr>cfg_scrambling = kMultiBitBool4True, cfg_ecc = kMultiBitBool4True, cfg_he = kMultiBitBool4False\<rparr>"

definition read_owner_page ::
  "('h, 'm) own_hw_scheme \<Rightarrow> nat \<Rightarrow> flash_ctrl_info_page \<Rightarrow> boot_data \<Rightarrow> 'h owner_state \<Rightarrow> 'h owner_state option" where
  "read_owner_page H page slot bootdata s =
     (case info_read H slot 0 512 (hw s) of (e, ws, h) \<Rightarrow>
      if e = kErrorOk_value then do {
        (status, s) \<leftarrow> owner_page_validity_check H page bootdata
          (s\<lparr>owner_page := (owner_page s)(page := ob_of_words ws), hw := h\<rparr>);
        Some (s\<lparr>owner_page_valid := (owner_page_valid s)(page := status)\<rparr>) }
      else Some (s\<lparr>owner_page := (owner_page s)(page := destroyed_page 0xffffffff),
        owner_page_valid := (owner_page_valid s)(page := kOwnerPageStatusInvalid), hw := h\<rparr>))"

definition ownership_init ::
  "('h, 'm) own_hw_scheme \<Rightarrow> boot_data \<Rightarrow> boot_data \<Rightarrow> u32 list list \<Rightarrow> 'h owner_state \<Rightarrow>
     (u32 \<times> boot_data \<times> owner_setup \<times> 'h owner_state) option" where
  "ownership_init H last_entry bootdata keyring s = do {
     let h = info_perms_set H kFlashCtrlInfoPageOwnerSlot0 perms_all (hw s);
     let h = info_cfg_set H kFlashCtrlInfoPageOwnerSlot0 owner_page_cfg h;
     let h = info_perms_set H kFlashCtrlInfoPageOwnerSlot1 perms_all h;
     let h = info_cfg_set H kFlashCtrlInfoPageOwnerSlot1 owner_page_cfg h;
     let h = info_cfg_set H kFlashCtrlInfoPageOwnerSecret owner_page_cfg h;
     s \<leftarrow> read_owner_page H 0 kFlashCtrlInfoPageOwnerSlot0 bootdata (s\<lparr>hw := h\<rparr>);
     s \<leftarrow> read_owner_page H 1 kFlashCtrlInfoPageOwnerSlot1 bootdata s;
     let conf = (owner_config_default, keyring);
     if sku_creator_owner_init bootdata \<noteq> kErrorOk_value
     then Some (sku_creator_owner_init bootdata, bootdata, conf, s)
     else if bd_ownership_state bootdata = kOwnershipStateLockedOwner then locked_owner_init H last_entry bootdata conf s
     else if bd_ownership_state bootdata = kOwnershipStateUnlockedSelf \<or>
       bd_ownership_state bootdata = kOwnershipStateUnlockedAny \<or>
       bd_ownership_state bootdata = kOwnershipStateUnlockedEndorsed then unlocked_init H last_entry bootdata conf s
     else Some (kErrorOwnershipNoOwner, bootdata, conf, s) }"

definition ownership_flash_lockdown ::
  "('h, 'm) own_hw_scheme \<Rightarrow> boot_data \<Rightarrow> u32 \<Rightarrow> owner_config \<Rightarrow> 'h owner_state \<Rightarrow> u32 \<times> 'h owner_state" where
  "ownership_flash_lockdown H bootdata bl0_slot config s =
     (if bd_ownership_state bootdata = kOwnershipStateLockedOwner then
        (case apply_flash H config kBootSlotA bl0_slot 0 s of (e, mp_index, s) \<Rightarrow>
         if e \<noteq> kErrorOk_value then (e, s)
         else case apply_flash H config kBootSlotB bl0_slot mp_index s of (e, mp_index, s) \<Rightarrow>
         if e \<noteq> kErrorOk_value then (e, s) else (kErrorOk_value, s))
      else (kErrorOk_value, s))"

definition make_read_only :: "('h, 'm) own_hw_scheme \<Rightarrow> flash_ctrl_info_page \<Rightarrow> 'h \<Rightarrow> 'h" where
  "make_read_only H slot h = info_cfg_set H slot owner_page_cfg (info_perms_set H slot perms_read_only h)"

definition ownership_pages_lockdown ::
  "('h, 'm) own_hw_scheme \<Rightarrow> boot_data \<Rightarrow> u32 \<Rightarrow> 'h owner_state \<Rightarrow> 'h owner_state" where
  "ownership_pages_lockdown H bootdata rescue s =
     (let h = info_lock H kFlashCtrlInfoPageOwnerSlot0 (make_read_only H kFlashCtrlInfoPageOwnerSlot0 (hw s)) in
      if rescue = kHardenedBoolTrue then s\<lparr>hw := h\<rparr>
      else let h = (if bd_ownership_state bootdata = kOwnershipStateLockedOwner \<and>
                       owner_block_newversion_mode s \<noteq> kHardenedBoolTrue
                    then make_read_only H kFlashCtrlInfoPageOwnerSlot1 h else h)
        in s\<lparr>hw := info_lock H kFlashCtrlInfoPageOwnerSlot1 h\<rparr>)"

section \<open>The pages of a locked chip\<close>

lemma page_statuses_neq [simp]:
  "kOwnerPageStatusSealed \<noteq> kOwnerPageStatusSigned" "kOwnerPageStatusSigned \<noteq> kOwnerPageStatusSealed"
  "kOwnerPageStatusInvalid \<noteq> kOwnerPageStatusSealed" "kOwnerPageStatusSealed \<noteq> kOwnerPageStatusInvalid"
  "kOwnerPageStatusInvalid \<noteq> kOwnerPageStatusSigned" "kOwnerPageStatusSigned \<noteq> kOwnerPageStatusInvalid"
  by (simp_all add: page_statuses)

lemma same_owner_refl [simp]: "same_owner b b"
  by (simp add: same_owner_def)

lemma ownership_activate_frame:
  assumes "ownership_activate H bootdata both s = (e, bootdata', s')"
  shows "same_owner bootdata bootdata' \<and> owner_page_valid s' = owner_page_valid s \<and> owner_page s' 0 = owner_page s 0"
  using assms by (auto simp: ownership_activate_def ownership_seal_page_def same_owner_def Let_def
      split: if_splits prod.splits)

lemma update_locked_owner_result:
  assumes "update_locked_owner H bootdata s = Some (bootdata', s')"
  shows "same_owner bootdata bootdata' \<and> owner_page s' 0 = owner_page s 0 \<and>
    (owner_page_valid s 1 = kOwnerPageStatusSealed \<longrightarrow> bootdata' = bootdata \<and> s' = s) \<and>
    (owner_page_valid s' 1 = kOwnerPageStatusSealed \<and> owner_page_valid s' 0 = kOwnerPageStatusSealed \<longrightarrow>
       owner_page_valid s 1 = kOwnerPageStatusSealed \<and> owner_page_valid s 0 = kOwnerPageStatusSealed)"
proof (cases "owner_page_valid s 0 = kOwnerPageStatusSealed \<and> owner_page_valid s 1 = kOwnerPageStatusSigned \<and>
    owner_block_newversion_mode s = kHardenedBoolTrue \<and> ob_config_version (owner_page s 1) > ob_config_version (owner_page s 0)")
  case True
  then obtain eq h where m: "hardened_memeq (rnd_uint32 H) (ob_owner_key (owner_page s 0)) (ob_owner_key (owner_page s 1)) 24 (hw s) = Some (eq, h)"
    using assms by (auto simp: update_locked_owner_def split: bind_splits)
  obtain e b1 s1 where act: "ownership_activate H bootdata False (s\<lparr>hw := h\<rparr>) = (e, b1, s1)" by (rule prod_cases3)
  have u: "update_locked_owner H bootdata s =
      (if eq = kHardenedBoolTrue \<and> e = kErrorOk_value
       then Some (b1, s1\<lparr>owner_page_valid := (owner_page_valid s1)(0 := kOwnerPageStatusInvalid, 1 := kOwnerPageStatusSealed)\<rparr>)
       else if eq = kHardenedBoolTrue then Some (b1, s1) else Some (bootdata, s\<lparr>hw := h\<rparr>))"
    using True by (simp add: update_locked_owner_def m [unfolded One_nat_def] act Let_def)
  from ownership_activate_frame [OF act] True assms show ?thesis
    by (auto simp: u split: if_splits)
qed (use assms in \<open>auto simp: update_locked_owner_def\<close>)

lemma restore_page_result:
  assumes "restore_page H bad good slot s = (e, s')" "bad \<noteq> good"
  shows "e = kErrorOk_value \<longrightarrow> owner_page s' = (owner_page s)(bad := owner_page s good) \<and>
    owner_page_valid s' = (owner_page_valid s)(bad := owner_page_valid s good)"
  using assms by (auto simp: restore_page_def Let_def split: if_splits prod.splits)

lemma enter_recovery_result:
  assumes "enter_recovery H last_entry bootdata s = Some (e, bootdata', s')"
  shows "e \<noteq> kErrorOk_value \<and> bd_ownership_state bootdata' = kOwnershipStateRecovery"
  using assms by (auto simp: enter_recovery_def Let_def split: if_splits bind_splits prod.splits)

lemma sync_pages_result:
  assumes "sync_pages H last_entry bootdata s = Some (kErrorOk_value, bootdata', s')"
  shows "bootdata' = bootdata \<and> owner_page_valid s' 0 = kOwnerPageStatusSealed \<and> owner_page_valid s' 1 = kOwnerPageStatusSealed \<and>
    (owner_page s' 0 = owner_page s' 1 \<or>
     owner_page_valid s 0 = kOwnerPageStatusSealed \<and> owner_page_valid s 1 = kOwnerPageStatusSealed \<and> s' = s)"
proof -
  have r: "e = kErrorOk_value \<Longrightarrow> restore_page H bad good slot s = (e, s') \<Longrightarrow> bad \<noteq> good \<Longrightarrow>
      owner_page s' = (owner_page s)(bad := owner_page s good) \<and>
      owner_page_valid s' = (owner_page_valid s)(bad := owner_page_valid s good)" for e bad good slot
    using restore_page_result by blast
  show ?thesis
    using assms r [of _ 0 1 kFlashCtrlInfoPageOwnerSlot0] r [of _ 1 0 kFlashCtrlInfoPageOwnerSlot1]
      enter_recovery_result [of H last_entry bootdata s kErrorOk_value bootdata' s']
    by (auto simp: sync_pages_def split: if_splits prod.splits)
qed

lemma parse_page_frame:
  "parse_page H page conf s = (e, conf', s') \<Longrightarrow>
     owner_page s' = owner_page s \<and> owner_page_valid s' = owner_page_valid s \<and>
     (\<exists>h'. owner_block_parse H (owner_page s page) False (fst conf, snd conf, hw s) = (e, fst conf', snd conf', h'))"
  by (auto simp: parse_page_def split: prod.splits)

lemma apply_flash_frame:
  "apply_flash H config side lockdown mp s = (e, mp', s') \<Longrightarrow>
     owner_page s' = owner_page s \<and> owner_page_valid s' = owner_page_valid s"
  by (auto simp: apply_flash_def split: prod.splits)

lemma apply_info_frame:
  "apply_info H config s = Some (e, s') \<Longrightarrow> owner_page s' = owner_page s \<and> owner_page_valid s' = owner_page_valid s"
  by (auto simp: apply_info_def split: bind_splits)

lemma locked_init_steps:
  assumes "locked_owner_init H last_entry bootdata conf s = Some (kErrorOk_value, bootdata', conf', s')"
  shows "\<exists>b1 s1 s2 s3. update_locked_owner H bootdata s = Some (b1, s1) \<and>
    sync_pages H last_entry b1 s1 = Some (kErrorOk_value, bootdata', s2) \<and>
    parse_page H 0 conf s2 = (kErrorOk_value, conf', s3) \<and>
    owner_page s' = owner_page s3 \<and> owner_page_valid s' = owner_page_valid s3"
proof -
  from assms obtain b1 s1 where u: "update_locked_owner H bootdata s = Some (b1, s1)"
    by (auto simp: locked_owner_init_def split: bind_splits)
  with assms obtain e b2 s2 where y: "sync_pages H last_entry b1 s1 = Some (e, b2, s2)"
    by (auto simp: locked_owner_init_def split: bind_splits)
  obtain e3 conf3 s3 where p: "parse_page H 0 conf s2 = (e3, conf3, s3)" by (rule prod_cases3)
  obtain e4 mp4 s4 where a: "apply_flash H (fst conf3) kBootSlotA kHardenedBoolFalse 0 s3 = (e4, mp4, s4)" by (rule prod_cases3)
  obtain e5 mp5 s5 where b: "apply_flash H (fst conf3) kBootSlotB kHardenedBoolFalse mp4 s4 = (e5, mp5, s5)" by (rule prod_cases3)
  from assms u y p a b have r: "e = kErrorOk_value" "e3 = kErrorOk_value" "e4 = kErrorOk_value" "e5 = kErrorOk_value"
    by (auto simp: locked_owner_init_def Let_def split: if_splits)
  with assms u y p a b have "apply_info H (fst conf3) s5 = Some (kErrorOk_value, s')" "conf' = conf3" "bootdata' = b2"
    by (auto simp: locked_owner_init_def Let_def split: bind_splits)
  with apply_flash_frame [OF a] apply_flash_frame [OF b] apply_info_frame [of H "fst conf3" s5 kErrorOk_value s'] u y p r
  show ?thesis by auto
qed

text \<open>
  C34: A locked chip boots from two sealed pages. When \<open>locked_owner_init\<close> succeeds, both pages are sealed
  and the configuration in use is the one of page 0; a page that was not sealed has become a copy of
  the other one. Pages that are both sealed are left alone even if they differ, although the comment in
  \<open>ownership_init\<close> says that the two are made identical.
\<close>

theorem locked_init_pages:
  assumes "locked_owner_init H last_entry bootdata conf s = Some (kErrorOk_value, bootdata', conf', s')"
  shows "owner_page_valid s' 0 = kOwnerPageStatusSealed \<and> owner_page_valid s' 1 = kOwnerPageStatusSealed \<and>
    same_owner bootdata bootdata' \<and>
    (\<exists>h h'. owner_block_parse H (owner_page s' 0) False (fst conf, snd conf, h) = (kErrorOk_value, fst conf', snd conf', h')) \<and>
    (owner_page_valid s 0 = kOwnerPageStatusSealed \<and> owner_page_valid s 1 = kOwnerPageStatusSealed \<longrightarrow>
       owner_page s' = owner_page s \<and> bootdata' = bootdata) \<and>
    (owner_page_valid s 0 \<noteq> kOwnerPageStatusSealed \<or> owner_page_valid s 1 \<noteq> kOwnerPageStatusSealed \<longrightarrow>
       owner_page s' 0 = owner_page s' 1)"
proof -
  from locked_init_steps [OF assms] obtain b1 s1 s2 s3 where
    u: "update_locked_owner H bootdata s = Some (b1, s1)" and
    y: "sync_pages H last_entry b1 s1 = Some (kErrorOk_value, bootdata', s2)" and
    p: "parse_page H 0 conf s2 = (kErrorOk_value, conf', s3)" and
    f: "owner_page s' = owner_page s3" "owner_page_valid s' = owner_page_valid s3" by blast
  note y' = sync_pages_result [OF y] and u' = update_locked_owner_result [OF u] and p' = parse_page_frame [OF p]
  have sealed: "s2 = s1 \<and> s1 = s \<and> b1 = bootdata \<and> bootdata' = bootdata"
    if "owner_page_valid s 0 = kOwnerPageStatusSealed \<and> owner_page_valid s 1 = kOwnerPageStatusSealed"
  proof -
    from u' that have same: "b1 = bootdata" "s1 = s" by meson+
    from y that have "s2 = s" "bootdata' = bootdata" unfolding same sync_pages_def by simp_all
    with same show ?thesis by meson
  qed
  have copied: "owner_page s2 0 = owner_page s2 1"
    if "\<not> (owner_page_valid s 0 = kOwnerPageStatusSealed \<and> owner_page_valid s 1 = kOwnerPageStatusSealed)"
  proof (rule ccontr)
    assume "owner_page s2 0 \<noteq> owner_page s2 1"
    then have "owner_page_valid s1 1 = kOwnerPageStatusSealed \<and> owner_page_valid s1 0 = kOwnerPageStatusSealed"
      using y' by meson
    with u' that show False by meson
  qed
  have pages: "owner_page s3 = owner_page s2" "owner_page_valid s3 = owner_page_valid s2" using p' by simp_all
  obtain h' where "owner_block_parse H (owner_page s2 0) False (fst conf, snd conf, hw s2) = (kErrorOk_value, fst conf', snd conf', h')"
    using p' by blast
  then have cfg: "\<exists>h h'. owner_block_parse H (owner_page s2 0) False (fst conf, snd conf, h) = (kErrorOk_value, fst conf', snd conf', h')"
    by blast
  have own: "same_owner bootdata bootdata'"
  proof -
    have "same_owner bootdata b1" "bootdata' = b1" using u' y' by meson+
    then show ?thesis by (simp only:)
  qed
  have valid: "owner_page_valid s2 0 = kOwnerPageStatusSealed" "owner_page_valid s2 1 = kOwnerPageStatusSealed"
    using y' by meson+
  have page: "owner_page s2 = owner_page s \<and> bootdata' = bootdata"
    if "owner_page_valid s 0 = kOwnerPageStatusSealed \<and> owner_page_valid s 1 = kOwnerPageStatusSealed"
    using sealed [OF that] by meson
  show ?thesis unfolding f pages
    using valid own cfg page copied by meson
qed


text \<open>A locked chip with an owner that configures nothing; its second page was lost and is restored from the first.\<close>

definition plain_block :: owner_block where
  "plain_block = demo_block\<lparr>ob_data := replicate 384 kTlvTagNotPresent\<rparr>"

definition demo_boot_state :: "unit owner_state" where
  "demo_boot_state = \<lparr>owner_page = (\<lambda>_. demo_block)(0 := plain_block),
     owner_page_valid = (\<lambda>_. kOwnerPageStatusInvalid)(0 := kOwnerPageStatusSealed), hw = ()\<rparr>"

lemma plain_block_parse:
  "owner_block_parse H plain_block False (config, [], h) =
     (kErrorOk_value, owner_config_default\<lparr>oc_sram_exec := kOwnerSramExecModeDisabledLocked\<rparr>, [], h)"
  by (simp add: owner_block_parse_def plain_block_def demo_block_def parse_items.simps tlv_tag_def)

lemma demo_restore:
  "restore_page (demo_activate_hw H) 1 0 slot demo_boot_state =
     (kErrorOk_value, demo_boot_state\<lparr>owner_page := (\<lambda>_. demo_block)(0 := plain_block, 1 := plain_block),
        owner_page_valid := (\<lambda>_. kOwnerPageStatusInvalid)(0 := kOwnerPageStatusSealed, 1 := kOwnerPageStatusSealed)\<rparr>)"
  by (simp add: restore_page_def demo_program demo_boot_state_def)

theorem locked_init_pages_witness:
  "\<forall>H. \<exists>conf' s'. locked_owner_init (demo_activate_hw H) (bd_of_words (replicate 32 0)) (demo_boot_data kOwnershipStateLockedOwner)
     (owner_config_default, []) demo_boot_state =
       Some (kErrorOk_value, demo_boot_data kOwnershipStateLockedOwner, conf', s') \<and>
     owner_page_valid s' 1 = kOwnerPageStatusSealed \<and> owner_page s' 1 = owner_page s' 0"
proof
  fix H :: "unit own_hw"
  let ?B = "demo_boot_data kOwnershipStateLockedOwner"
  have u: "update_locked_owner (demo_activate_hw H) ?B demo_boot_state = Some (?B, demo_boot_state)"
    by (simp add: update_locked_owner_def demo_boot_state_def)
  have y: "\<exists>s'. sync_pages (demo_activate_hw H) (bd_of_words (replicate 32 0)) ?B demo_boot_state = Some (kErrorOk_value, ?B, s') \<and> owner_page s' 0 = plain_block"
    using demo_restore [of H kFlashCtrlInfoPageOwnerSlot1] by (simp add: sync_pages_def) (simp add: demo_boot_state_def)
  then obtain s1 where y: "sync_pages (demo_activate_hw H) (bd_of_words (replicate 32 0)) ?B demo_boot_state = Some (kErrorOk_value, ?B, s1)"
    "owner_page s1 0 = plain_block" by blast
  have "\<exists>conf' s'. locked_owner_init (demo_activate_hw H) (bd_of_words (replicate 32 0)) ?B (owner_config_default, []) demo_boot_state =
      Some (kErrorOk_value, ?B, conf', s')"
    by (simp add: locked_owner_init_def u y parse_page_def plain_block_parse apply_flash_def apply_info_def
        owner_block_flash_apply_def owner_block_info_apply_def owner_config_default_def)
  then obtain conf' s' where run: "locked_owner_init (demo_activate_hw H) (bd_of_words (replicate 32 0)) ?B (owner_config_default, []) demo_boot_state =
      Some (kErrorOk_value, ?B, conf', s')" by blast
  have "owner_page_valid demo_boot_state 1 \<noteq> kOwnerPageStatusSealed" by (simp add: demo_boot_state_def)
  with locked_init_pages [OF run] run show "\<exists>conf' s'. locked_owner_init (demo_activate_hw H) (bd_of_words (replicate 32 0)) ?B
     (owner_config_default, []) demo_boot_state = Some (kErrorOk_value, ?B, conf', s') \<and>
     owner_page_valid s' 1 = kOwnerPageStatusSealed \<and> owner_page s' 1 = owner_page s' 0"
    by (metis (lifting))
qed

section \<open>The status of a page means what it says\<close>

lemma owner_candidates: "candidate_keys H page kOwnershipKeyOwner = [ob_owner_key page]"
  by (simp add: candidate_keys_def ownership_keys split: option.splits)

lemma ownership_seal_check_result:
  assumes "\<And>n h. length (fst (snd (kmac_kmac256_final H n h))) = n" "length (ob_seal (pages page)) = 8"
    "ownership_seal_check H pages page h = Some (kErrorOk_value, h')"
  shows "\<exists>h1. seal_generate H (pages page) (replicate 8 0) h = (kErrorOk_value, ob_seal (pages page), h1)"
proof -
  obtain e seal h1 where g: "seal_generate H (pages page) (replicate 8 0) h = (e, seal, h1)" by (rule prod_cases3)
  have bad: "kErrorOwnershipInvalidInfoPage \<noteq> kErrorOk_value"
    by (simp add: kErrorOwnershipInvalidInfoPage_def ownership_errors)
  have len: "length seal = 8"
  proof (cases "fst (kmac_kmac256_start H h) = kErrorOk_value")
    case True
    let ?f = "kmac_kmac256_final H 8 (kmac_kmac256_absorb H (take 504 (ob_words (pages page))) (snd (kmac_kmac256_start H h)))"
    from True g have "?f = (e, seal, h1)" by (simp add: seal_generate_def split: prod.splits)
    then have "seal = fst (snd ?f)" by simp
    then show ?thesis using assms(1) by simp
  next
    case False
    then show ?thesis using g by (auto simp: seal_generate_def split: prod.splits)
  qed
  from assms(2) len have m: "hardened_memeq (rnd_uint32 H) (ob_seal (pages page)) seal 8 h1 =
      Some (if ob_seal (pages page) = seal then kHardenedBoolTrue else kHardenedBoolFalse, after_start (rnd_uint32 H) 8 h1)"
    by (simp add: hardened_memeq_equal)
  have "kHardenedBoolFalse \<noteq> kHardenedBoolTrue" by (simp add: kHardenedBoolFalse_def kHardenedBoolTrue_def)
  with assms(3) g m bad show ?thesis by (auto simp: ownership_seal_check_def split: if_splits)
qed

text \<open>
  C32: The status of an owner page means what it says. Whatever the flash held, the device identifier of the
  page is first replaced by the chip's own words where the page is locked to them. A page is sealed only if its
  seal is the chip's code for that content, and signed only if the owner key inside it accepts a signature of
  that content; every other page is destroyed. The other page and the recorded statuses are not touched.
\<close>

theorem page_status_sound:
  fixes s :: "'h owner_state"
  assumes "verify_lengths H" "keys_ok H (owner_page s page)" "length (ob_signature (owner_page s page)) = 16"
    "length (ob_seal (owner_page s page)) = 8" "\<And>n h. length (fst (snd (kmac_kmac256_final H n h))) = n"
    "owner_page_validity_check H page bootdata s = Some (status, s')"
  defines "block \<equiv> (owner_page s page)\<lparr>ob_device_id := owner_page_device_id (device_id H (hw s)) (owner_page s page)\<rparr>"
  shows "owner_page_valid s' = owner_page_valid s \<and>
    (status = kOwnerPageStatusSealed \<and> owner_page s' = (owner_page s)(page := block) \<and>
       (\<exists>h1. seal_generate H block (replicate 8 0) (hw s) = (kErrorOk_value, ob_seal block, h1)) \<or>
     status = kOwnerPageStatusSigned \<and> owner_page s' = (owner_page s)(page := block) \<and>
       (\<exists>h1. authorised H block {ob_owner_key block} kTlvTagOwner (bd_nonce bootdata) (ob_signature block)
          (take 488 (ob_words block)) h1) \<or>
     status = kOwnerPageStatusInvalid \<and> owner_page s' = (owner_page s)(page := destroyed_page 0x5a5a5a5a))"
proof -
  let ?pages = "(owner_page s)(page := block)"
  have block: "?pages page = block" "keys_ok H block" "length (ob_signature block) = 16" "length (ob_seal block) = 8"
    using assms(2-4) by (simp_all add: block_def keys_ok_def)
  obtain sealed h where c: "ownership_seal_check H ?pages page (hw s) = Some (sealed, h)"
    using assms(6) by (auto simp: owner_page_validity_check_def block_def [symmetric] Let_def split: bind_splits)
  show ?thesis
  proof (cases "sealed = kErrorOk_value")
    case True
    from ownership_seal_check_result [OF assms(5), of ?pages page "hw s" h] c True block
    have "\<exists>h1. seal_generate H block (replicate 8 0) (hw s) = (kErrorOk_value, ob_seal block, h1)" by simp
    moreover have "status = kOwnerPageStatusSealed" "owner_page s' = ?pages" "owner_page_valid s' = owner_page_valid s"
      using assms(6) c True by (auto simp: owner_page_validity_check_def block_def [symmetric] Let_def)
    ultimately show ?thesis by blast
  next
    case False
    obtain result h2 where v: "ownership_key_validate H ?pages page kOwnershipKeyOwner kTlvTagOwner
        (bd_nonce bootdata) (ob_signature block) (take 488 (ob_words block)) h = Some (result, h2)"
      using assms(6) c False by (auto simp: owner_page_validity_check_def block_def [symmetric] Let_def split: bind_splits)
    have "keys_ok H (?pages page)" using block by simp
    from ownership_key_validate_result [OF assms(1) this block(3) v] have "result \<noteq> kErrorOk_value \<or>
        authorised H (?pages page) (set (candidate_keys H (?pages page) kOwnershipKeyOwner)) kTlvTagOwner (bd_nonce bootdata)
          (ob_signature block) (take 488 (ob_words block)) h"
      by (elim disjE conjE) (auto simp: validate_errors_not_ok [symmetric] simp del: fun_upd_apply)
    then have "result = kErrorOk_value \<Longrightarrow> authorised H block {ob_owner_key block} kTlvTagOwner (bd_nonce bootdata)
        (ob_signature block) (take 488 (ob_words block)) h"
      using block(1) by (simp add: owner_candidates)
    with assms(6) c False v show ?thesis
      by (auto simp: owner_page_validity_check_def block_def [symmetric] Let_def split: if_splits)
  qed
qed

text \<open>A page signed for the chip whose second identifier word is 1; the flash held another identifier.\<close>

definition node_locked_block :: owner_block where
  "node_locked_block = open_block\<lparr>ob_lock_constraint := 2, ob_signature := replicate 16 5\<rparr>"

lemma node_locked_fields:
  "ob_ownership_key_alg node_locked_block = kOwnershipKeyAlgEcdsaP256" "length (ob_owner_key node_locked_block) = 24"
  "length (ob_activate_key node_locked_block) = 24" "length (ob_unlock_key node_locked_block) = 24"
  "ob_signature node_locked_block = replicate 16 5" "ob_seal node_locked_block = replicate 8 0"
  by (simp_all add: node_locked_block_def open_block_def demo_block_def)

lemma demo_validity:
  "\<exists>s'. owner_page_validity_check (demo_activate_hw H) 0 (demo_boot_data kOwnershipStateUnlockedAny)
     (demo_owner_state node_locked_block) = Some (kOwnerPageStatusSigned, s')"
proof -
  have bad: "kErrorOwnershipInvalidInfoPage \<noteq> kErrorOk_value"
    by (simp add: kErrorOwnershipInvalidInfoPage_def ownership_errors)
  have sealed: "ownership_seal_check (demo_activate_hw H) pages 0 h = Some (kErrorOwnershipInvalidInfoPage, ())"
    if "ob_seal (pages 0) = replicate 8 0" for pages h
  proof -
    have "take 8 (replicate 8 0) \<noteq> take 8 (replicate 8 (1 :: u32))" by simp
    moreover have "kHardenedBoolFalse \<noteq> kHardenedBoolTrue" by (simp add: kHardenedBoolFalse_def kHardenedBoolTrue_def)
    ultimately show ?thesis using that
      by (simp add: ownership_seal_check_def seal_generate_def demo_activate_hw_def hardened_memeq_equal)
  qed
  show ?thesis
    by (simp add: owner_page_validity_check_def demo_owner_state_def sealed node_locked_fields bad ownership_key_validate_def demo_source
        owner_candidates demo_activate_try_keys del: try_keys.simps)
qed

theorem page_status_sound_witness:
  "\<forall>H. \<exists>s'. owner_page_validity_check (demo_activate_hw H) 0 (demo_boot_data kOwnershipStateUnlockedAny)
     (demo_owner_state node_locked_block) = Some (kOwnerPageStatusSigned, s') \<and>
     ob_device_id (owner_page s' 0) ! 1 = 1 \<and> ob_device_id node_locked_block ! 1 \<noteq> 1"
proof
  fix H :: "unit own_hw"
  have p: "owner_page (demo_owner_state node_locked_block) 0 = node_locked_block"
    "hw (demo_owner_state node_locked_block) = ()" by (simp_all add: demo_owner_state_def)
  have k: "keys_ok (demo_activate_hw H) (owner_page (demo_owner_state node_locked_block) 0)"
    "length (ob_signature (owner_page (demo_owner_state node_locked_block) 0)) = 16"
    "length (ob_seal (owner_page (demo_owner_state node_locked_block) 0)) = 8"
    "length (fst (snd (kmac_kmac256_final (demo_activate_hw H) n h))) = n" for n h
    by (simp_all only: p) (simp_all add: keys_ok_def node_locked_fields demo_activate_hw_fields, simp add: demo_activate_hw_def)
  have ident: "owner_page_device_id (device_id (demo_activate_hw H) ()) node_locked_block ! 1 = 1"
    "ob_device_id node_locked_block ! 1 \<noteq> 1"
    by (simp_all add: owner_page_device_id_def demo_activate_hw_fields node_locked_block_def open_block_def demo_block_def
        kLockConstraintNone_def)
  obtain s' where run: "owner_page_validity_check (demo_activate_hw H) 0 (demo_boot_data kOwnershipStateUnlockedAny)
     (demo_owner_state node_locked_block) = Some (kOwnerPageStatusSigned, s')" using demo_validity by blast
  from page_status_sound [OF demo_activate_hw_fields(1) k run] ident
  have "ob_device_id (owner_page s' 0) ! 1 = 1" by (auto simp: p)
  with run ident(2) show "\<exists>s'. owner_page_validity_check (demo_activate_hw H) 0 (demo_boot_data kOwnershipStateUnlockedAny)
     (demo_owner_state node_locked_block) = Some (kOwnerPageStatusSigned, s') \<and>
     ob_device_id (owner_page s' 0) ! 1 = 1 \<and> ob_device_id node_locked_block ! 1 \<noteq> 1" by blast
qed

section \<open>The lock on the pages\<close>

text \<open>
  A flash controller that keeps the permissions of a page in a register, which a lock makes read only, as
  \<open>flash_ctrl_info_lock\<close> does by the write enable of the register.
\<close>

definition locking_flash ::
  "('h, 'm) own_hw_scheme \<Rightarrow> ('h \<Rightarrow> flash_ctrl_info_page \<Rightarrow> flash_ctrl_perms) \<Rightarrow> ('h \<Rightarrow> flash_ctrl_info_page \<Rightarrow> bool) \<Rightarrow> bool" where
  "locking_flash H perms locked \<longleftrightarrow> (\<forall>p q c h.
     perms (info_perms_set H p q h) = (if locked h p then perms h else (perms h)(p := q)) \<and>
     locked (info_perms_set H p q h) = locked h \<and>
     perms (info_cfg_set H p c h) = perms h \<and> locked (info_cfg_set H p c h) = locked h \<and>
     perms (info_lock H p h) = perms h \<and> locked (info_lock H p h) = (locked h)(p := True))"

definition perms_writes ::
  "('h, 'm) own_hw_scheme \<Rightarrow> (flash_ctrl_info_page \<times> flash_ctrl_perms) list \<Rightarrow> 'h \<Rightarrow> 'h" where
  "perms_writes H writes h = fold (\<lambda>(page, perms) h. info_perms_set H page perms h) writes h"

lemma locked_stays:
  assumes "locking_flash H perms locked"
  shows "locked h p \<Longrightarrow> perms (perms_writes H writes h) p = perms h p"
proof (induction writes arbitrary: h)
  case (Cons w writes)
  obtain p' q where w: "w = (p', q)" by (rule prod.exhaust)
  have "locked (info_perms_set H p' q h) p" "perms (info_perms_set H p' q h) p = perms h p"
    using assms Cons.prems by (auto simp: locking_flash_def)
  with Cons.IH show ?case by (simp add: perms_writes_def w)
qed (simp add: perms_writes_def)

text \<open>
  C33: Firmware that runs after the lockdown cannot open the owner pages. The first page stays read only whatever
  permissions are written later. The second is locked too unless a rescue is under way: read only when the
  chip is locked and its owner does not stage new versions there, and otherwise with the permissions it had.
\<close>

theorem owner_pages_stay_locked:
  assumes "locking_flash H perms locked" "\<not> locked (hw s) kFlashCtrlInfoPageOwnerSlot0"
    "\<not> locked (hw s) kFlashCtrlInfoPageOwnerSlot1"
  shows "perms (perms_writes H writes (hw (ownership_pages_lockdown H bootdata rescue s))) kFlashCtrlInfoPageOwnerSlot0 =
      perms_read_only \<and>
    (rescue \<noteq> kHardenedBoolTrue \<longrightarrow>
      perms (perms_writes H writes (hw (ownership_pages_lockdown H bootdata rescue s))) kFlashCtrlInfoPageOwnerSlot1 =
      (if bd_ownership_state bootdata = kOwnershipStateLockedOwner \<and> owner_block_newversion_mode s \<noteq> kHardenedBoolTrue
       then perms_read_only else perms (hw s) kFlashCtrlInfoPageOwnerSlot1)) \<and>
    (rescue = kHardenedBoolTrue \<longrightarrow>
      \<not> locked (hw (ownership_pages_lockdown H bootdata rescue s)) kFlashCtrlInfoPageOwnerSlot1)"
proof -
  let ?h = "hw (ownership_pages_lockdown H bootdata rescue s)"
  have ne: "kFlashCtrlInfoPageOwnerSlot0 \<noteq> kFlashCtrlInfoPageOwnerSlot1" by code_simp
  have law: "perms (info_perms_set H p q h) = (if locked h p then perms h else (perms h)(p := q))"
    "locked (info_perms_set H p q h) = locked h" "perms (info_cfg_set H p c h) = perms h"
    "locked (info_cfg_set H p c h) = locked h" "perms (info_lock H p h) = perms h"
    "locked (info_lock H p h) = (locked h)(p := True)" for p q c h
    using assms(1) by (simp_all add: locking_flash_def)
  have "locked ?h kFlashCtrlInfoPageOwnerSlot0 \<and> perms ?h kFlashCtrlInfoPageOwnerSlot0 = perms_read_only"
    using assms(2,3) ne ne [symmetric] by (simp add: ownership_pages_lockdown_def Let_def make_read_only_def law)
  moreover have "rescue \<noteq> kHardenedBoolTrue \<Longrightarrow> locked ?h kFlashCtrlInfoPageOwnerSlot1 \<and>
      perms ?h kFlashCtrlInfoPageOwnerSlot1 =
      (if bd_ownership_state bootdata = kOwnershipStateLockedOwner \<and> owner_block_newversion_mode s \<noteq> kHardenedBoolTrue
       then perms_read_only else perms (hw s) kFlashCtrlInfoPageOwnerSlot1)"
    using assms(2,3) ne ne [symmetric] by (simp add: ownership_pages_lockdown_def Let_def make_read_only_def law)
  moreover have "rescue = kHardenedBoolTrue \<Longrightarrow> \<not> locked ?h kFlashCtrlInfoPageOwnerSlot1"
    using assms(3) ne ne [symmetric] by (simp add: ownership_pages_lockdown_def Let_def make_read_only_def law)
  ultimately show ?thesis using locked_stays [OF assms(1)] by metis
qed

text \<open>A flash with the two registers, all permissions given and nothing locked.\<close>

type_synonym demo_regs = "(flash_ctrl_info_page \<Rightarrow> flash_ctrl_perms) \<times> (flash_ctrl_info_page \<Rightarrow> bool)"

definition demo_locking_hw :: "demo_regs own_hw \<Rightarrow> demo_regs own_hw" where
  "demo_locking_hw H = H\<lparr>info_perms_set := (\<lambda>p q (perms, locked). (if locked p then perms else perms(p := q), locked)),
     info_cfg_set := (\<lambda>p c h. h), info_lock := (\<lambda>p (perms, locked). (perms, locked(p := True)))\<rparr>"

theorem owner_pages_stay_locked_witness:
  "\<forall>H. fst (perms_writes (demo_locking_hw H) [(kFlashCtrlInfoPageOwnerSlot0, perms_all)]
     (hw (ownership_pages_lockdown (demo_locking_hw H) (demo_boot_data kOwnershipStateLockedOwner) kHardenedBoolFalse
        \<lparr>owner_page = \<lambda>_. open_block, owner_page_valid = \<lambda>_. kOwnerPageStatusSealed,
          hw = (\<lambda>_. perms_all, \<lambda>_. False)\<rparr>))) kFlashCtrlInfoPageOwnerSlot0 = perms_read_only \<and> perms_all \<noteq> perms_read_only"
proof
  fix H :: "demo_regs own_hw"
  have l: "locking_flash (demo_locking_hw H) fst snd"
    by (auto simp: locking_flash_def demo_locking_hw_def split: prod.splits)
  show "fst (perms_writes (demo_locking_hw H) [(kFlashCtrlInfoPageOwnerSlot0, perms_all)]
     (hw (ownership_pages_lockdown (demo_locking_hw H) (demo_boot_data kOwnershipStateLockedOwner) kHardenedBoolFalse
        \<lparr>owner_page = \<lambda>_. open_block, owner_page_valid = \<lambda>_. kOwnerPageStatusSealed,
          hw = (\<lambda>_. perms_all, \<lambda>_. False)\<rparr>))) kFlashCtrlInfoPageOwnerSlot0 = perms_read_only \<and> perms_all \<noteq> perms_read_only"
    using owner_pages_stay_locked [OF l, of "\<lparr>owner_page = \<lambda>_. open_block, owner_page_valid = \<lambda>_. kOwnerPageStatusSealed,
          hw = (\<lambda>_. perms_all, \<lambda>_. False)\<rparr>"] by (simp add: perms_all_def perms_read_only_def kMultiBitBool4True_def kMultiBitBool4False_def)
qed

end
