(* ===== verification/Spec2Isabelle.thy ===== *)
theory Spec2Isabelle
  imports Sim_Flash Jtag_Dpi Memory_Lib Rescue_Flash Asn1 Cbor Math_Builtins Hello Rsa_Verify Boot_Session
    Ownership_Init
begin

text \<open>
  The software that boots the SoCs of this repository, the device models it is simulated with, and
  the parts of the root-of-trust firmware under \<open>Task_3/sw/device\<close> that a host can reach over the
  serial line. Paths below are relative to \<open>src/Task_3\<close> unless they say otherwise.

  \<^bold>\<open>How the parts fit.\<close> \<open>sw/image/mkflash.py\<close> writes an application with a header (magic, size,
  CRC) into the SPI flash. \<open>sw/bootloader.c\<close> reads it through the SPI host, checks it, copies it to SRAM and
  jumps to it; \<open>sw/simulate_flash.c\<close> is the earlier program that does the same with its own drivers.
  \<open>sw/image/uart.c\<close> is such an application and \<open>Task_2/mysoc/sw\<close> a program that only prints. In simulation
  the flash is \<open>dv/spiflash.v\<close>, and the debugger reaches the chip through \<open>dv/jtagdpi\<close> over
  \<open>dv/tcp_server\<close>. The firmware of \<open>sw/device\<close> has a rescue mode: a host sends an image by XModem over the
  UART and \<open>rescue.c\<close> writes it to flash; images are accepted by the RSA check of \<open>sigverify\<close>; certificates are written with \<open>asn1.c\<close> and \<open>cbor.c\<close>.
  What survives a reset (security versions, the slot to boot, who owns the chip) is the boot data, which
  \<open>boot_data.c\<close> keeps in two flash pages. Who owns it configures the chip with an owner block
  (\<open>ownership/owner_block.c\<close>), signs what it may run (\<open>ownership/owner_verify.c\<close>), and asks the ROM
  extension for services in messages (\<open>boot_svc\<close>), among them to unlock the chip
  (\<open>ownership_unlock.c\<close>) and to hand it to a new owner (\<open>ownership_activate.c\<close>); at every boot \<open>ownership.c\<close>
  reads the two owner pages, decides which are good, configures the chip and locks the pages down.
  All of it stands on \<open>lib/base\<close>.

  \<^bold>\<open>Theories.\<close>
  \<^item> \<open>Prelude\<close>: word types, bytes of words, byte memory, strings as bytes, \<open>scan\<close> and loops the components share.
  \<^item> \<open>Crc32\<close> (CRC section of \<open>bootloader.c\<close>, \<open>lib/base/crc32.c\<close>) and \<open>Crc32_Sim\<close> (table CRC of
    \<open>simulate_flash.c\<close>): every routine equals one polynomial CRC; a change within four bytes changes it.
  \<^item> \<open>Mmio\<close>: the bus as two operations and \<open>poll\<close>, a wait that may not end; the locale \<open>pollable\<close>.
    \<open>Boot_Drivers\<close>: UART, SPI host and SPI flash functions of \<open>bootloader.c\<close>, one definition each.
    \<open>Bootloader\<close>: \<open>main\<close>, with the locale \<open>boot_platform\<close>: what the program needs of its hardware, and the
    functional specification \<open>boot_main\<close> meets on any such platform.
  \<^item> \<open>Spiflash_Hw\<close>: \<open>spiflash.v\<close> clock edge by clock edge, and the transactions it performs.
    \<open>Soc_Model\<close>: UART and SPI host with that flash on the pins; interprets \<open>pollable\<close> and
    \<open>boot_platform\<close>. \<open>Boot_System\<close>: the image tool, the memory map, and the boot loader on this SoC.
  \<^item> \<open>Sim_Flash\<close>: \<open>simulate_flash.c\<close>, on the same SoC, and its agreement with the boot loader.
  \<^item> \<open>Tcp_Buffer\<close>: the ring, with whole operations and as two interleaved threads (\<open>inductive\<close> steps).
    \<open>Tcp_Server\<close>: the sockets, loops and life cycle of the server over a kernel that is a record of
    system calls; the receive loop also with the thread that reads what it receives. \<open>Jtag_Dpi\<close>: the
    remote-bitbang commands with the one-command lookahead, and the dialogue with a device on the pins.
  \<^item> \<open>Memory_Lib\<close> (\<open>lib/base/memory.c\<close>), \<open>Bitfield\<close> (\<open>lib/base/bitfield.h\<close>), \<open>Math_Builtins\<close>
    (\<open>lib/base/math_builtins.c\<close>): word-wise routines and what they do byte by byte or bit by bit.
  \<^item> \<open>Rom_Uart\<close> (\<open>silicon_creator/lib/drivers/uart.c\<close>) with the locale \<open>serial_line\<close>, the contract of a
    line on which a byte sent arrives; \<open>Rom_Line\<close>: a chip with a peer on which it is interpreted;
    \<open>Dbg_Print\<close> (\<open>dbg_print.c\<close>); \<open>Rom_Error\<close>: the error codes of \<open>error.h\<close>.
  \<^item> \<open>Xmodem\<close> (\<open>rescue/xmodem.c\<close>): frames, the checksum, sending with retries. \<open>Rescue\<close>
    (\<open>rescue/rescue.c\<close>, \<open>rescue/rescue_xmodem.c\<close>): modes, handlers and the protocol loop;
    \<open>Rescue_Flash\<close>: the locale \<open>rescue_platform\<close>, its interpretation on a chip with a flash, the
    protocol's reachable states and its theorems.
  \<^item> \<open>Asn1\<close> and \<open>Cbor\<close> (\<open>silicon_creator/lib/cert\<close>): the two writers, each with the contract of an
    operation (\<open>pushes\<close>, \<open>cwrites\<close>) that composes, and the encodings of whole documents.
  \<^item> \<open>Mod_Exp\<close> (\<open>silicon_creator/lib/sigverify/mod_exp_ibex.c\<close>): arrays of 96 words as numbers (\<open>digits\<close>),
    Montgomery products and the 65537th power; \<open>Rsa_Verify\<close> (\<open>sigverify/rsa_verify.c\<close>): the check of the
    padded digest by shares, and the whole signature check against PKCS \#1.
  \<^item> \<open>Rom_Codes\<close>: the error words of \<open>error.h\<close> and the hardened booleans, as the code compares them.
    \<open>Boot_Data\<close>: \<open>boot_data.c\<close> and \<open>boot_data.h\<close> over a record of the drivers. \<open>Boot_Store\<close>: what the
    search of the two pages finds, under the locale \<open>info_storage\<close>. \<open>Boot_Flash\<close>: a flash whose power can
    fail between two operations or within one; interprets \<open>info_storage\<close>. \<open>Boot_Update\<close>: the pages as
    a set of valid entries, kept by an update that is cut anywhere. \<open>Boot_Session\<close>: resets and updates
    in sequence, and, under the locale \<open>info_registers\<close> for flash drivers that may fail in any call, the
    permissions that are left.
  \<^item> \<open>Hardened\<close>: the constant-time selections of \<open>lib/base/hardened.h\<close>, \<open>random_order.c\<close> and the routines of
    \<open>hardened_memory.c\<close>. \<open>Boot_Svc\<close> (\<open>silicon_creator/lib/boot_svc\<close>): the messages of the boot services.
  \<^item> \<open>Owner_Codes\<close>: the numbers of \<open>ownership/datatypes.h\<close>; \<open>Owner_Hw\<close>: the hardware the ownership code
    calls, as a record, and the generated constants of the chip as a record \<open>chip\<close>; \<open>Owner_Verify\<close>:
    \<open>owner_verify.c\<close> and \<open>sigverify/ecdsa_p256_verify.c\<close>; \<open>Owner_Block\<close>: \<open>owner_block.c\<close>; \<open>Owner_Config\<close>: what its
    checks promise to the functions that apply a configuration, on the list of items of a block.
  \<^item> \<open>Ownership_Key\<close> (\<open>ownership_key.c\<close>): detached signatures, the keys that authorise a command, the seal of a
    page, the owner's secret. \<open>Ownership_Svc\<close> (\<open>ownership_unlock.c\<close>, \<open>ownership_activate.c\<close>): the two handlers over
    the state of the owner pages, and the table of keys per request that the unlock handler implements;
    \<open>Ownership_Transfer\<close>: what an activation establishes. \<open>Ownership_Init\<close> (\<open>ownership.c\<close>): the status of the
    pages, initialisation in every ownership state, and the lockdown.
  \<^item> \<open>Hello\<close>: \<open>Task_2/mysoc/sw\<close> and \<open>sw/image/uart.c\<close> on the SoC.

  \<^bold>\<open>What the theorems show.\<close> The boot loader enters exactly the firmware whose checksum it verified, for
  every flash content and every delay of the devices, and what it prints and stores; where it departs from
  its intention (sizes that are no multiple of 4, sizes that reach its stack). The two boot programs and the
  CRC routines agree. The ring is a FIFO for whole operations and loses that without atomic updates; the
  server's loops return and drain, the receiving one as soon as its reader stops taking bytes, and no byte is lost
  or changed; the lookahead of the JTAG server shows only when it drops a zero byte. An image sent by XModem
  arrives in flash unchanged, on a flash that has to be erased first, and the upload buffer is never overrun; damage is detected; sending ends.
  The RSA check accepts exactly the signatures whose power is the encoding of the digest.
  An update of the boot data that loses power at any point leaves the old or the new data to be found
  after the reset, never neither and never a mixture, through any sequence of such updates (33 operations
  of the flash are enough for one to finish, 31 on blank pages); the entries' integrity word alone
  does not tell words that cancel.
  An owner block that passes its check can be applied at every boot, and its flash regions cannot touch the
  ROM extension, except that a bank that does not exist is not noticed until it traps. A signature is
  accepted exactly when all the parts of its algorithm verify. The owner of a chip changes only by a request
  that the present configuration admits and one of the keys of an explicit table has signed, for this chip and this nonce; a page
  counts as sealed or signed only if it is; after the lockdown the pages cannot be opened. A chip that lost
  both pages cannot be recovered, and a signature on the last pages of the flash is not found. Requests to the boot services are read
  back as they were written, but for a field that nobody writes. The random-order routines compute what
  sequential ones do.
  Documents written with the two certificate writers are what independent definitions of DER and CBOR
  say. The memory functions never access a misaligned word.

  \<^bold>\<open>Conventions.\<close> A C integer is a word of its width; a pointer into memory is a 32-bit address, a pointer
  to a buffer that belongs to one caller is the list of its bytes. \<open>None\<close> is a wait that never ends
  (\<open>poll\<close>, \<open>partial_function\<close> loops) or an access that C leaves undefined; each theory says which, and
  theorems that a function returns are stated as \<open>\<exists>s'. f s = Some s'\<close>. No loop runs on fuel: counted loops
  recurse on their counter, waits are partial functions. Error codes are a datatype where the code only tests them for
  success (\<open>Rom_Error\<close>), and the words of \<open>error.h\<close> where the code computes with them (\<open>Rom_Codes\<close>). Output is the list
  of bytes on the line. Hardware that is not in the repository is a record of operations (\<open>bus\<close>,
  \<open>kernel\<close>, \<open>rom_hw\<close>, \<open>rescue_hw\<close>) passed to the definitions; registers of the Ibex SoC follow the
  documentation under \<open>vendor/lowrisc_ip/ip\<close>.

  \<^bold>\<open>Not modelled.\<close> The assembly start-up files, the RTL, the Verilator harness and the build tools. Of
  \<open>sw/device\<close>: the ROM and ROM extension flow (with the firmware binding of \<open>isfb.c\<close>) and bootstrap; the ECDSA arithmetic (OTBN assembly) and the
  SPHINCS+ tree; drivers and DIFs, whose register maps are generated
  headers that are not in the repository; the crypto library, whose arithmetic is OTBN assembly; the
  test framework, tests, manufacturing. Of \<open>bitfield.h\<close> the counts that are one compiler builtin each.
  Message texts of the TCP server and \<open>printf\<close> of the host programs are left out.
\<close>

section \<open>Properties that span components\<close>

text \<open>
  C9: The three CRC routines of the repository compute the same function of a buffer: the one
  of \<open>bootloader.c\<close> with its table built on the first call (on the first call and on later
  ones), the one of \<open>simulate_flash.c\<close> with its constant table of 256 entries, and the one of
  \<open>lib/base/crc32.c\<close>, which takes whole words where the buffer is aligned.
\<close>

theorem crc_routines_agree:
  assumes "crc_vars_ok v"
  shows "fst (crc32_compute v (mem_bytes m a n)) = crc32 m a n \<and>
     sim_crc32_compute (mem_bytes m a n) sim_crc32_table = crc32 m a n \<and>
     crc_vars_ok (snd (crc32_compute v (mem_bytes m a n)))"
  using crc32_compute_correct [OF assms, of "mem_bytes m a n"]
  by (simp add: sim_crc32_compute_correct crc32_correct)

theorem crc_routines_agree_witness:
  "fst (crc32_compute crc_vars_init (mem_bytes (\<lambda>a. ucast a) 3 9)) = crc32 (\<lambda>a. ucast a) 3 9"
  using crc_routines_agree [OF crc_vars_ok_init] by simp

text \<open>
  C6: A word read of the flash, down to the clock edges on the pins. From an idle SoC and for
  every delay, \<open>flash_read_word\<close> of \<open>bootloader.c\<close> returns the four bytes of the flash at the
  address, the lowest first, for every 24-bit address, and leaves the SoC idle with the flash
  contents and the serial output unchanged.
\<close>

theorem flash_read_word_pins:
  assumes "soc_idle s"
  shows "\<exists>w s'. flash_read_word soc_bus (of_nat a) s = Some (w, s') \<and>
     word_bytes w = flash_bytes s a 4 \<and> soc_idle s' \<and>
     fl_memory (spi_flash s') = fl_memory (spi_flash s) \<and> uart_out s' = uart_out s"
  using flash_read_word_soc [OF assms, of "of_nat a"] flash_word_bytes [of s a] by auto

theorem flash_read_word_pins_witness:
  "\<exists>s w s'. soc_idle s \<and> flash_read_word soc_bus (of_nat 2) s = Some (w, s') \<and>
     word_bytes w = [3, 4, 5, 0]"
proof -
  obtain s where s: "soc_idle s" "flash_word s = flash_word (soc_reset [1, 2, 3, 4, 5] [4])"
    using soc_startup [of "soc_reset [1, 2, 3, 4, 5] [4]"]
      boot_reset_power_up [of "[1, 2, 3, 4, 5]" "[4]"] by (auto simp: boot_reset_def)
  from flash_read_word_pins [OF s(1), of 2] obtain w s' where
    r: "flash_read_word soc_bus (of_nat 2) s = Some (w, s')" "word_bytes w = flash_bytes s 2 4" by blast
  have "flash_bytes s 2 4 = flash_bytes (soc_reset [1, 2, 3, 4, 5] [4]) 2 4"
    using flash_word_bytes [of s 2] flash_word_bytes [of "soc_reset [1, 2, 3, 4, 5] [4]" 2] s(2) by simp
  also have "\<dots> = [3, 4, 5, 0]"
    by (simp add: flash_bytes_def soc_reset_def flash_reset_def upt_rec)
  finally show ?thesis using s(1) r by auto
qed

text \<open>Reading hexadecimal digits.\<close>

definition hex_digit_value :: "u8 \<Rightarrow> nat" where
  "hex_digit_value c = (if c < 0x41 then unat c - 0x30 else unat c - 0x41 + 10)"

definition hex_value :: "u8 list \<Rightarrow> nat" where
  "hex_value cs = fold (\<lambda>c v. 16 * v + hex_digit_value c) cs 0"

lemma hex_digit_value_digit: "n < 16 \<Longrightarrow> hex_digit_value (hex_digits ! n) = n"
proof -
  assume n: "n < 16"
  have "map hex_digit_value hex_digits = [0..<16]"
    by (simp add: hex_digits_def str_bytes_def hex_digit_value_def upt_rec)
  from arg_cong [OF this, of "\<lambda>xs. xs ! n"] n
  have "map hex_digit_value hex_digits ! n = n" by simp
  moreover have "n < length hex_digits" using n by (simp add: hex_digits_def str_bytes_def)
  ultimately show ?thesis by (simp only: nth_map)
qed

lemma hex_nibble_value:
  "hex_digit_value (hex_digits ! unat (drop_bit (i * 4) v AND 0xF)) = unat v div 16 ^ i mod 16"
  for v :: u32
proof -
  have "(0xF :: u32) = mask 4" by (simp add: mask_eq_exp_minus_1)
  then have "drop_bit (i * 4) v AND 0xF = take_bit 4 (drop_bit (i * 4) v)"
    by (simp only: take_bit_eq_mask)
  then have "unat (drop_bit (i * 4) v AND 0xF) = take_bit 4 (unat (drop_bit (i * 4) v))"
    by (simp only: unsigned_take_bit_eq)
  also have "unat (drop_bit (i * 4) v) = drop_bit (i * 4) (unat v)"
    by (rule unat_drop_bit_eq)
  finally have "unat (drop_bit (i * 4) v AND 0xF) = unat v div 2 ^ (i * 4) mod 16"
    by (simp only: take_bit_eq_mod drop_bit_eq_div) simp
  also have "(2 :: nat) ^ (i * 4) = 16 ^ i" using power_mult [of "2 :: nat" 4 i] by (simp add: mult.commute)
  finally show ?thesis by (simp add: hex_digit_value_digit)
qed

lemma hex_value_digits:
  "fold (\<lambda>c v. 16 * v + hex_digit_value c)
     (map (\<lambda>i. hex_digits ! unat (drop_bit (i * 4) v AND 0xF)) (rev [0..<n])) a =
   a * 16 ^ n + unat v mod 16 ^ n" for v :: u32
proof (induction n arbitrary: a)
  case 0
  show ?case by simp
next
  case (Suc n)
  have "unat v mod 16 ^ Suc n = unat v div 16 ^ n mod 16 * 16 ^ n + unat v mod 16 ^ n"
    using mod_mult2_eq [of "unat v" "16 ^ n" 16] by (simp add: mult.commute)
  moreover have "fold (\<lambda>c v. 16 * v + hex_digit_value c)
     (map (\<lambda>i. hex_digits ! unat (drop_bit (i * 4) v AND 0xF)) (rev [0..<Suc n])) a =
     (16 * a + unat v div 16 ^ n mod 16) * 16 ^ n + unat v mod 16 ^ n"
    using Suc [of "16 * a + unat v div 16 ^ n mod 16"] by (simp add: hex_nibble_value)
  ultimately show ?case by (simp add: algebra_simps)
qed

lemma hex_value_hex32: "hex_value (hex32 v) = unat v"
proof -
  have "unat v < 2 ^ 32" using unsigned_less [of v, where 'a = nat] by simp
  with hex_value_digits [of v 8 0] show ?thesis by (simp add: hex_value_def hex32_def)
qed

text \<open>
  The hexadecimal output of the boot programs can be read back: from an idle SoC and for
  every delay, \<open>uart_send_hex32\<close> returns after it has sent eight digits, and their value is
  the word.
\<close>

lemma hex_output_roundtrip:
  assumes "soc_idle s"
  shows "\<exists>digits s'. uart_send_hex32 soc_bus v s = Some s' \<and> uart_out s' = uart_out s @ digits \<and>
     length digits = 8 \<and> hex_value digits = unat v"
proof -
  from soc_platform.sendsE [OF soc_platform.sends_hex32 assms] obtain s' where
    "uart_send_hex32 soc_bus v s = Some s'" "uart_out s' = uart_out s @ hex32 v" by metis
  then show ?thesis using hex_value_hex32 [of v] by (auto simp: hex32_def)
qed

lemma hex_output_roundtrip_witness:
  "\<exists>s digits s'. soc_idle s \<and> uart_send_hex32 soc_bus 0xB007C0DE s = Some s' \<and>
     uart_out s' = uart_out s @ digits \<and> hex_value digits = 0xB007C0DE"
proof -
  obtain s where s: "soc_idle s"
    using soc_startup [of "soc_reset [] [4]"] boot_reset_power_up [of "[]" "[4]"]
    by (auto simp: boot_reset_def)
  from hex_output_roundtrip [OF this, of "0xB007C0DE"] s show ?thesis by auto
qed

end
